(* ===== verification/Prelude.thy ===== *)
theory Prelude
  imports Main "HOL-Library.Word" "HOL-Library.Monad_Syntax"
begin

text \<open>
  Shared vocabulary of the development: machine integers as words of their width, byte
  buffers as lists, and the checked memory accesses the C and C++ code performs.  A
  function that can touch memory out of bounds, dereference a null pointer or run into an
  \<^verbatim>\<open>assert\<close> returns an option: \<^verbatim>\<open>None\<close> is the point at which the C program has
  undefined behaviour or aborts, and \<^verbatim>\<open>Some\<close> carries the value it computes.  Error codes
  the C functions return are ordinary values, never \<^verbatim>\<open>None\<close>.
\<close>

unbundle bit_operations_syntax

type_synonym byte = "8 word"
type_synonym u16 = "16 word"
type_synonym u32 = "32 word"
type_synonym u64 = "64 word"

named_theorems mem_simps \<open>unfolding of the checked memory accesses\<close>
named_theorems len_simps \<open>lengths of buffers after an access\<close>

section \<open>Checked accesses to a buffer\<close>

definition rd :: "'a list \<Rightarrow> nat \<Rightarrow> 'a option" where
  "rd xs i = (if i < length xs then Some (xs ! i) else None)"

definition wr :: "'a list \<Rightarrow> nat \<Rightarrow> 'a \<Rightarrow> 'a list option" where
  "wr xs i x = (if i < length xs then Some (xs[i := x]) else None)"

text \<open>\<^verbatim>\<open>slice\<close> reads n elements from an offset, \<^verbatim>\<open>memcpy\<close> overwrites at an offset.\<close>

definition slice :: "nat \<Rightarrow> nat \<Rightarrow> 'a list \<Rightarrow> 'a list option" where
  "slice off n xs = (if off + n \<le> length xs then Some (take n (drop off xs)) else None)"

definition memcpy :: "'a list \<Rightarrow> nat \<Rightarrow> 'a list \<Rightarrow> 'a list option" where
  "memcpy dst off src =
     (if off + length src \<le> length dst
      then Some (take off dst @ src @ drop (off + length src) dst) else None)"

text \<open>An \<^verbatim>\<open>assert\<close> of the C code: execution goes on only when it holds.\<close>

definition require :: "bool \<Rightarrow> unit option" where
  "require b = (if b then Some () else None)"

lemma rd_Some_iff [mem_simps]: "rd xs i = Some x \<longleftrightarrow> i < length xs \<and> x = xs ! i"
  by (auto simp: rd_def)

lemma rd_in [simp]: "i < length xs \<Longrightarrow> rd xs i = Some (xs ! i)"
  by (simp add: rd_def)

lemma rd_None_iff [mem_simps]: "rd xs i = None \<longleftrightarrow> length xs \<le> i"
  by (simp add: rd_def not_less)

lemma wr_in [simp]: "i < length xs \<Longrightarrow> wr xs i x = Some (xs[i := x])"
  by (simp add: wr_def)

lemma wr_Some_iff [mem_simps]: "wr xs i x = Some ys \<longleftrightarrow> i < length xs \<and> ys = xs[i := x]"
  by (auto simp: wr_def)

lemma slice_Some_iff [mem_simps]:
  "slice off n xs = Some ys \<longleftrightarrow> off + n \<le> length xs \<and> ys = take n (drop off xs)"
  by (auto simp: slice_def)

lemma slice_length [len_simps]: "slice off n xs = Some ys \<Longrightarrow> length ys = n"
  by (auto simp: slice_def split: if_splits)

lemma memcpy_Some_iff [mem_simps]:
  "memcpy dst off src = Some d \<longleftrightarrow>
     off + length src \<le> length dst \<and> d = take off dst @ src @ drop (off + length src) dst"
  by (auto simp: memcpy_def)

lemma memcpy_length [len_simps]: "memcpy dst off src = Some d \<Longrightarrow> length d = length dst"
  by (auto simp: memcpy_def split: if_splits)

lemma require_Some_iff [mem_simps]: "require b = Some u \<longleftrightarrow> b"
  by (simp add: require_def)

lemma require_True [simp]: "require True = Some ()"
  by (simp add: require_def)

lemma require_False [simp]: "require False = None"
  by (simp add: require_def)

text \<open>Blocks of one size laid out in a buffer: overwriting one leaves the others alone.\<close>

lemma block_fits: "i < n \<Longrightarrow> i * sz + sz \<le> n * (sz :: nat)"
  using mult_le_mono1 [of "Suc i" n sz] by simp

lemma block_length:
  assumes "k < n" and "length b = n * sz"
  shows "length (take sz (drop (k * sz) b)) = sz"
proof -
  have "sz \<le> n * sz - k * sz"
    using block_fits [OF assms(1), of sz] by linarith
  then show ?thesis
    by (simp only: length_take length_drop assms(2) min_absorb2)
qed

lemma memcpy_same:
  "memcpy dst off src = Some d \<Longrightarrow> take (length src) (drop off d) = src"
  by (auto simp: memcpy_def split: if_splits)

lemma memcpy_block:
  assumes "memcpy dst off src = Some d" and "length src \<le> m"
  shows "take m (drop off d) = src @ drop (length src) (take m (drop off dst))"
  using assms by (auto simp: memcpy_def drop_take add.commute split: if_splits)

lemma take_drop_update_other:
  assumes "memcpy dst off src = Some d" and "p + n \<le> off \<or> off + length src \<le> p"
  shows "take n (drop p d) = take n (drop p dst)"
proof (rule nth_equalityI)
  have len: "length d = length dst" by (rule memcpy_length [OF assms(1)])
  then show "length (take n (drop p d)) = length (take n (drop p dst))" by simp
  fix j
  assume "j < length (take n (drop p d))"
  then have j: "j < n" "p + j < length dst" using len by auto
  have "d ! (p + j) = dst ! (p + j)"
    using assms j by (auto simp: memcpy_def nth_append split: if_splits)
  with j len show "take n (drop p d) ! j = take n (drop p dst) ! j" by simp
qed

lemma memcpy_other_block:
  assumes "memcpy dst (k * sz) src = Some d" and "length src \<le> sz" and "i \<noteq> k" and "n \<le> sz"
  shows "take n (drop (i * sz) d) = take n (drop (i * sz) dst)"
proof -
  have "i * sz + n \<le> k * sz \<or> k * sz + length src \<le> i * sz"
    using assms(2-4) block_fits [of i k sz] block_fits [of k i sz] by (cases "i < k") auto
  then show ?thesis by (rule take_drop_update_other [OF assms(1)])
qed

section \<open>Assertions about fallible computations\<close>

text \<open>\<^verbatim>\<open>pred_option P m\<close>: if m is defined, its value satisfies P.  The rules follow the structure of the computation.\<close>

lemma pred_option_bind:
  assumes "pred_option P m" and "\<And>x. P x \<Longrightarrow> pred_option Q (f x)"
  shows "pred_option Q (m \<bind> f)"
  using assms by (cases m) auto

lemma pred_option_weaken: "pred_option P m \<Longrightarrow> (\<And>x. P x \<Longrightarrow> Q x) \<Longrightarrow> pred_option Q m"
  by (cases m) auto

lemma pred_option_trivial: "pred_option (\<lambda>_. True) m"
  by (cases m) auto

lemma pred_option_require: "pred_option (\<lambda>_. b) (require b)"
  by (simp add: require_def)

lemma pred_option_if:
  "(b \<Longrightarrow> pred_option P x) \<Longrightarrow> (\<not> b \<Longrightarrow> pred_option P y) \<Longrightarrow> pred_option P (if b then x else y)"
  by simp

lemma pred_option_option:
  "\<lbrakk>x = None \<Longrightarrow> pred_option P a; \<And>y. x = Some y \<Longrightarrow> pred_option P (f y)\<rbrakk> \<Longrightarrow>
    pred_option P (case x of None \<Rightarrow> a | Some y \<Rightarrow> f y)"
  by (cases x) simp_all

lemma pred_option_self: "pred_option (\<lambda>x. m = Some x) m"
  by (cases m) auto

lemma pred_optionD: "pred_option P m \<Longrightarrow> m = Some x \<Longrightarrow> P x"
  by simp

lemma pred_option_case_prod: "(\<And>a b. r = (a, b) \<Longrightarrow> pred_option P (f a b)) \<Longrightarrow> pred_option P (case r of (a, b) \<Rightarrow> f a b)"
  by (cases r) simp

section \<open>Strings as bytes\<close>

text \<open>A C string literal is the list of its bytes, without the terminating zero.\<close>

definition bytes :: "string \<Rightarrow> byte list" where
  "bytes s = map of_char s"

lemma length_bytes [simp]: "length (bytes s) = length s"
  by (simp add: bytes_def)

lemma bytes_Nil [simp]: "bytes [] = []"
  by (simp add: bytes_def)

lemma bytes_append [simp]: "bytes (s @ t) = bytes s @ bytes t"
  by (simp add: bytes_def)

text \<open>Decimal digits, as \<^verbatim>\<open>printf\<close> prints them.\<close>

fun decimal :: "nat \<Rightarrow> byte list" where
  "decimal n = (if n < 10 then [48 + of_nat n] else decimal (n div 10) @ [48 + of_nat (n mod 10)])"

declare decimal.simps [simp del]

lemma length_decimal: "n < 10 ^ k \<Longrightarrow> 0 < k \<Longrightarrow> length (decimal n) \<le> k"
proof (induction k arbitrary: n)
  case (Suc k)
  show ?case
  proof (cases "n < 10")
    case True
    then show ?thesis by (simp add: decimal.simps [of n])
  next
    case False
    then have "0 < k" using Suc.prems(1) by (cases k) simp_all
    then show ?thesis
      using Suc.IH [of "n div 10"] Suc.prems(1) False
      by (simp add: decimal.simps [of n] less_mult_imp_div_less mult.commute)
  qed
qed simp

lemma decimal_not_Nil [simp]: "decimal n \<noteq> []"
  by (subst decimal.simps) simp

lemma Nil_not_decimal [simp]: "[] \<noteq> decimal n"
  using decimal_not_Nil [of n] by metis

section \<open>Big-endian and little-endian readings\<close>

definition be32 :: "byte \<Rightarrow> byte \<Rightarrow> byte \<Rightarrow> byte \<Rightarrow> u32" where
  "be32 a b c d = push_bit 24 (ucast a) OR push_bit 16 (ucast b) OR push_bit 8 (ucast c) OR ucast d"

definition be16 :: "byte \<Rightarrow> byte \<Rightarrow> u16" where
  "be16 a b = push_bit 8 (ucast a) OR ucast b"

lemma unat_byte_less: "unat (b :: byte) < 256"
  using unsigned_less [of b] by simp

text \<open>Disjoint bytes: the bitwise combination is the positional sum.\<close>

lemma or_eq_plus_disjoint:
  fixes a b :: "'a::len word"
  assumes "a AND b = 0"
  shows "a OR b = a + b"
  using assms by (simp add: disjunctive_add_eq_or)

lemma or_push_bit_low:
  fixes a w :: "'a::len word"
  assumes "unat w < 2 ^ n"
  shows "push_bit n a OR w = push_bit n a + w"
proof -
  have low: "take_bit n w = w"
    using assms by (metis take_bit_nat_eq_self unsigned_take_bit_eq unsigned_word_eqI)
  have "push_bit n a AND w = 0"
  proof (rule bit_eqI)
    fix m
    have "bit w m \<Longrightarrow> m < n"
      using low by (metis bit_take_bit_iff)
    then show "bit (push_bit n a AND w) m \<longleftrightarrow> bit (0 :: 'a word) m"
      by (auto simp: bit_simps)
  qed
  then show ?thesis
    by (rule or_eq_plus_disjoint)
qed

lemma unat_less_exp: "unat (x :: 'a::len word) < 2 ^ LENGTH('a)"
  by (rule unsigned_less)

lemma unat_plus_nowrap:
  fixes x y :: "'a::len word"
  shows "unat x + unat y < 2 ^ LENGTH('a) \<Longrightarrow> unat (x + y) = unat x + unat y"
  by (simp add: unat_word_ariths)

lemma unat_mult_nowrap:
  fixes x y :: "'a::len word"
  shows "unat x * unat y < 2 ^ LENGTH('a) \<Longrightarrow> unat (x * y) = unat x * unat y"
  by (simp add: unat_word_ariths)

lemma unat_push_bit_nowrap:
  fixes v :: "'a::len word"
  assumes "unat v * 2 ^ n < 2 ^ LENGTH('a)"
  shows "unat (push_bit n v) = unat v * 2 ^ n"
proof -
  have "unat (push_bit n v) = take_bit LENGTH('a) (push_bit n (unat v))"
    by (simp only: unsigned_push_bit_eq)
  also have "\<dots> = unat v * 2 ^ n"
    using assms by (simp only: push_bit_eq_mult take_bit_nat_eq_self)
  finally show ?thesis .
qed

text \<open>Two positions of a window of m slots that fall into the same slot are equal.\<close>

lemma mod_window_inject:
  fixes a x y :: nat
  assumes eq: "(a + x) mod m = (a + y) mod m" and "x < m" and "y < m"
  shows "x = y"
proof -
  have le: "p = q" if "p \<le> q" "q < m" "(a + p) mod m = (a + q) mod m" for p q :: nat
  proof -
    have "m dvd (a + q) - (a + p)"
      using that by (intro mod_eq_dvd_iff_nat [THEN iffD1]) auto
    then have "m dvd q - p" by simp
    with that show ?thesis by (auto dest: dvd_imp_le)
  qed
  show ?thesis
    using le [of x y] le [of y x] assms by (cases "x \<le> y") auto
qed

text \<open>A shifted word OR-ed with a word below the shift is the positional sum.\<close>

lemma unat_push_or:
  fixes v w :: "'a::len word"
  assumes "unat w < 2 ^ n" and "unat v * 2 ^ n + unat w < 2 ^ LENGTH('a)"
  shows "unat (push_bit n v OR w) = unat v * 2 ^ n + unat w"
proof -
  have "unat (push_bit n v) = unat v * 2 ^ n"
    using assms(2) by (intro unat_push_bit_nowrap) linarith
  then show ?thesis
    using assms by (simp only: or_push_bit_low unat_plus_nowrap)
qed

lemma unat_ucast_byte:
  fixes a :: byte
  assumes "8 \<le> LENGTH('a)"
  shows "unat (ucast a :: 'a::len word) = unat a"
proof -
  have "(256 :: nat) \<le> 2 ^ LENGTH('a)"
    using power_increasing [OF assms, of "2 :: nat"] by simp
  then have "unat a < 2 ^ LENGTH('a)"
    by (rule less_le_trans [OF unat_byte_less])
  then show ?thesis
    by (simp add: unsigned_ucast_eq take_bit_nat_eq_self)
qed

lemma unat_of_nat_u32: "n < 2 ^ 32 \<Longrightarrow> unat (of_nat n :: u32) = n"
  by (simp add: unat_of_nat take_bit_nat_eq_self)

text \<open>A 32-bit word below 2 ^ 31 reads the same signed and unsigned.\<close>

lemma sint_small:
  assumes "unat (w :: u32) < 2 ^ 31"
  shows "sint w = int (unat w)"
proof -
  have "sint w = signed_take_bit 31 (int (unat w))"
    by (simp add: sint_uint)
  also have "\<dots> = int (unat w)"
  proof (rule signed_take_bit_int_eq_self)
    show "int (unat w) < 2 ^ 31" using assms by (simp only: of_nat_less_numeral_power_cancel_iff)
    show "- (2 ^ 31) \<le> int (unat w)" by (rule order_trans [of _ 0]) (simp_all only: of_nat_0_le_iff, simp)
  qed
  finally show ?thesis .
qed

text \<open>Four bytes, most significant first, in a word of at least 32 bits.\<close>

lemma unat_four_bytes:
  fixes a b c d :: byte
  assumes len: "32 \<le> LENGTH('a)"
  shows "unat (push_bit 24 (ucast a) OR push_bit 16 (ucast b) OR push_bit 8 (ucast c) OR ucast d
      :: 'a::len word) = unat a * 2 ^ 24 + unat b * 2 ^ 16 + unat c * 2 ^ 8 + unat d"
proof -
  have big: "(2::nat) ^ 32 \<le> 2 ^ LENGTH('a)"
    using len by (rule power_increasing) simp
  have u: "unat (ucast x :: 'a word) = unat x" for x :: byte
    using len by (intro unat_ucast_byte) simp
  have bd: "unat a < 256" "unat b < 256" "unat c < 256" "unat d < 256"
    by (rule unat_byte_less)+
  let ?cd = "push_bit 8 (ucast c) OR ucast d :: 'a word"
  let ?bcd = "push_bit 16 (ucast b) OR ?cd :: 'a word"
  have cd: "unat ?cd = unat c * 2 ^ 8 + unat d"
    using bd big by (subst unat_push_or) (auto simp: u)
  have bcd: "unat ?bcd = unat b * 2 ^ 16 + (unat c * 2 ^ 8 + unat d)"
    using bd big by (subst unat_push_or) (auto simp: u cd)
  have "unat (push_bit 24 (ucast a) OR ?bcd) =
      unat a * 2 ^ 24 + (unat b * 2 ^ 16 + (unat c * 2 ^ 8 + unat d))"
    using bd big by (subst unat_push_or) (auto simp: u bcd)
  then show ?thesis
    by (simp add: or.assoc)
qed

text \<open>Counting the elements of a list with a property, after one of them is replaced.\<close>

lemma count_update:
  "i < length xs \<Longrightarrow> int (length (filter P (xs[i := y]))) =
     int (length (filter P xs)) - (if P (xs ! i) then 1 else 0) + (if P y then 1 else 0)"
proof (induction xs arbitrary: i)
  case (Cons x xs)
  then show ?case
  proof (cases i)
    case (Suc j)
    then show ?thesis using Cons.IH [of j] Cons.prems by auto
  qed simp
qed simp

end
