(* ===== verification/Interfaces.thy ===== *)
theory Interfaces
  imports Prelude
begin

text \<open>
  Contracts between components.  \<^verbatim>\<open>jitter_queue\<close> is what the receiving threads rely on when they
  drain a buffer: a step that either waits and changes nothing, or delivers the item at the
  front and moves on.  \<^verbatim>\<open>drain_with\<close> is the loop of the client, over any such step.
\<close>

section \<open>Draining a queue\<close>

text \<open>
  The loop \<^verbatim>\<open>while ((x = dequeue(q))) process(x)\<close>: the items handed to the client and the final
  queue.  It is \<^verbatim>\<open>None\<close> when the loop does not end, or a step has undefined behaviour.
\<close>

partial_function (option) drain_with ::
  "('q \<Rightarrow> ('x option \<times> 'q) option) \<Rightarrow> 'q \<Rightarrow> ('x list \<times> 'q) option" where
  "drain_with step q =
     Option.bind (step q) (\<lambda>(r, q').
       case r of
         None \<Rightarrow> Some ([], q')
       | Some x \<Rightarrow> Option.bind (drain_with step q') (\<lambda>(xs, q''). Some (x # xs, q'')))"

locale jitter_queue =
  fixes step :: "'q \<Rightarrow> ('x option \<times> 'q) option"
    and good :: "'q \<Rightarrow> bool"
    and waits :: "'q \<Rightarrow> bool"
    and pending :: "'q \<Rightarrow> nat"
    and item :: "'q \<Rightarrow> nat \<Rightarrow> 'x"
  assumes step_waits: "good q \<Longrightarrow> waits q \<Longrightarrow> step q = Some (None, q)"
    and step_takes: "good q \<Longrightarrow> \<not> waits q \<Longrightarrow>
      \<exists>q'. step q = Some (Some (item q 0), q') \<and> good q' \<and> pending q' < pending q \<and>
        (\<forall>i < pending q'. item q' i = item q (Suc i))"
begin

text \<open>The loop ends, keeps the queue good, and hands out the front items in order.\<close>

lemma drain_delivers:
  assumes "good q"
  shows "\<exists>n q'. drain_with step q = Some (map (item q) [0..<n], q') \<and> n \<le> pending q \<and>
    good q' \<and> waits q'"
  using assms
proof (induction "pending q" arbitrary: q rule: less_induct)
  case less
  show ?case
  proof (cases "waits q")
    case True
    then show ?thesis
      using step_waits [OF less.prems True] less.prems
      by (intro exI [of _ 0] exI [of _ q]) (simp add: drain_with.simps)
  next
    case False
    obtain q1 where q1: "step q = Some (Some (item q 0), q1)" "good q1" "pending q1 < pending q"
      "\<forall>i < pending q1. item q1 i = item q (Suc i)"
      using step_takes [OF less.prems False] by blast
    obtain n q' where q': "drain_with step q1 = Some (map (item q1) [0..<n], q')" "n \<le> pending q1"
      "good q'" "waits q'"
      using less.hyps [OF q1(3,2)] by blast
    have "map (item q1) [0..<n] = map (item q) [Suc 0..<Suc n]"
      using q1(4) q'(2) by (intro nth_equalityI) (auto simp del: upt_Suc)
    then have "drain_with step q = Some (map (item q) [0..<Suc n], q')"
      using q1(1) q'(1) by (subst drain_with.simps) (simp add: upt_conv_Cons del: upt_Suc)
    then show ?thesis
      using q1(3) q'(2-4) by (intro exI [of _ "Suc n"] exI [of _ q']) auto
  qed
qed

end

section \<open>Stream ciphers\<close>

text \<open>
  A stream cipher fetches its key stream in blocks of 16 bytes; every call starts a new block.
  The client, which gets its data in pieces of any length, encrypts the last bytes of a piece
  padded with zeros and keeps the block, whose tail is then key stream for the next piece.
\<close>

locale stream_cipher =
  fixes xcrypt :: "'c \<Rightarrow> byte list \<Rightarrow> 'c \<times> byte list"
    and ks :: "'c \<Rightarrow> nat \<Rightarrow> byte"
    and ready :: "'c \<Rightarrow> bool"
  assumes xcrypt_out: "ready c \<Longrightarrow> snd (xcrypt c data) = map (\<lambda>i. data ! i XOR ks c i) [0..<length data]"
    and xcrypt_ctx: "ready c \<Longrightarrow> ready (fst (xcrypt c data)) \<and>
      (\<forall>i. ks (fst (xcrypt c data)) i = ks c (16 * ((length data + 15) div 16) + i))"
begin

lemma length_xcrypt: "ready c \<Longrightarrow> length (snd (xcrypt c data)) = length data"
  by (simp add: xcrypt_out)

lemma xcrypt_whole_blocks:
  assumes "ready c" and "length data = 16 * n"
  shows "ready (fst (xcrypt c data))" and "ks (fst (xcrypt c data)) i = ks c (16 * n + i)"
proof -
  have "(16 * n + 15) div 16 = n" by simp
  then show "ready (fst (xcrypt c data))" "ks (fst (xcrypt c data)) i = ks c (16 * n + i)"
    using xcrypt_ctx [OF assms(1), of data] assms(2) by auto
qed

text \<open>The padded last block: its front is the data, its tail is key stream to come.\<close>

lemma xcrypt_padded:
  assumes "ready c" and r: "length data = r" "r \<le> 16"
  defines "og \<equiv> snd (xcrypt c (data @ replicate (16 - r) 0))"
  shows "length og = 16" and "i < r \<Longrightarrow> og ! i = data ! i XOR ks c i"
    and "i < 16 - r \<Longrightarrow> og ! (r + i) = ks c (r + i)"
  using assms by (auto simp: og_def xcrypt_out [OF assms(1)] nth_append)

end

section \<open>Continuous stream ciphers\<close>

text \<open>
  A cipher that goes on in its key stream where the call before stopped; encrypting and
  decrypting are the same.  A client may cut its data at will, and skip in the stream.
\<close>

fun encrypt_pieces :: "('c \<Rightarrow> byte list \<Rightarrow> ('c \<times> byte list) option) \<Rightarrow> 'c \<Rightarrow> byte list list \<Rightarrow> ('c \<times> byte list list) option" where
  "encrypt_pieces enc ctx [] = Some (ctx, [])"
| "encrypt_pieces enc ctx (m # ms) = Option.bind (enc ctx m) (\<lambda>(ctx, out).
     Option.bind (encrypt_pieces enc ctx ms) (\<lambda>(ctx, outs). Some (ctx, out # outs)))"

lemma map_stream_append:
  "map (\<lambda>i. (m @ ms) ! i XOR f i) [0..<length (m @ ms)] =
     map (\<lambda>i. m ! i XOR f i) [0..<length m] @ map (\<lambda>i. ms ! i XOR f (length m + i)) [0..<length ms]"
  by (intro nth_equalityI) (auto simp: nth_append)

locale continuous_cipher =
  fixes enc :: "'c \<Rightarrow> byte list \<Rightarrow> ('c \<times> byte list) option"
    and stream :: "'c \<Rightarrow> nat \<Rightarrow> byte"
    and good :: "'c \<Rightarrow> bool"
  assumes enc_step: "good c \<Longrightarrow>
    \<exists>c'. enc c m = Some (c', map (\<lambda>i. m ! i XOR stream c i) [0..<length m]) \<and> good c' \<and>
      (\<forall>i. stream c' i = stream c (length m + i))"
begin

lemma pieces_as_whole:
  assumes "good c"
  shows "\<exists>c' outs. encrypt_pieces enc c ms = Some (c', outs) \<and>
    concat outs = map (\<lambda>i. concat ms ! i XOR stream c i) [0..<length (concat ms)]"
  using assms
proof (induction ms arbitrary: c)
  case (Cons m ms)
  obtain c1 where c1: "enc c m = Some (c1, map (\<lambda>i. m ! i XOR stream c i) [0..<length m])" "good c1"
    "\<forall>i. stream c1 i = stream c (length m + i)"
    using enc_step [OF Cons.prems] by blast
  then show ?case
    using Cons.IH [OF c1(2)] map_stream_append [of m "concat ms" "stream c"] by auto
qed simp

text \<open>What was encrypted decrypts from the same place of the stream, wherever that was reached from.\<close>

lemma decrypt_there:
  assumes "good c" "good d" and "\<forall>i. stream d i = stream c i"
  shows "\<exists>c' d' e. enc c m = Some (c', e) \<and> length e = length m \<and> enc d e = Some (d', m) \<and> good c' \<and> good d' \<and>
    (\<forall>i. stream c' i = stream c (length m + i)) \<and> (\<forall>i. stream d' i = stream c (length m + i))"
proof -
  obtain c' where c': "enc c m = Some (c', map (\<lambda>i. m ! i XOR stream c i) [0..<length m])" "good c'"
    "\<forall>i. stream c' i = stream c (length m + i)" using enc_step [OF assms(1)] by blast
  let ?e = "map (\<lambda>i. m ! i XOR stream c i) [0..<length m]"
  obtain d' where d': "enc d ?e = Some (d', map (\<lambda>i. ?e ! i XOR stream d i) [0..<length ?e])" "good d'"
    "\<forall>i. stream d' i = stream d (length ?e + i)" using enc_step [OF assms(2)] by blast
  have "map (\<lambda>i. ?e ! i XOR stream d i) [0..<length ?e] = m"
    using assms(3) by (intro nth_equalityI) (auto simp: xor.assoc)
  then show ?thesis using c' d' assms(3) by auto
qed

text \<open>
  Two parties that share a stream: one sends a message, the other reads it and answers in the
  same stream, and the first reads the answer after encrypting anything as long as its message.
\<close>

lemma exchange:
  assumes "good c" and "length junk = length m1"
  shows "\<exists>c1 e1 c2 c3 e2 c4 j c5. enc c m1 = Some (c1, e1) \<and> length e1 = length m1 \<and> enc c e1 = Some (c2, m1) \<and>
    enc c2 m2 = Some (c3, e2) \<and> length e2 = length m2 \<and> enc c junk = Some (c4, j) \<and> enc c4 e2 = Some (c5, m2)"
proof -
  obtain c1 c2 e1 where 1: "enc c m1 = Some (c1, e1)" "length e1 = length m1" "enc c e1 = Some (c2, m1)" "good c2"
    "\<forall>i. stream c2 i = stream c (length m1 + i)"
    using decrypt_there [OF assms(1,1), of m1] by auto
  obtain c4 j where 4: "enc c junk = Some (c4, j)" "good c4" "\<forall>i. stream c4 i = stream c (length m1 + i)"
    using enc_step [OF assms(1), of junk] assms(2) by auto
  have "\<forall>i. stream c4 i = stream c2 i" using 1(5) 4(3) by simp
  from decrypt_there [OF 1(4) 4(2) this, of m2] show ?thesis using 1(1-3) 4(1) by blast
qed

end

section \<open>Bit readers\<close>

text \<open>
  The bits of a byte string, most significant first, and the number that n of them spell.
\<close>

definition mem_bit :: "byte list \<Rightarrow> nat \<Rightarrow> bool" where
  "mem_bit mem p = bit (mem ! (p div 8)) (7 - p mod 8)"

definition bits_val :: "byte list \<Rightarrow> nat \<Rightarrow> nat \<Rightarrow> 'a::len word" where
  "bits_val mem p n = horner_sum of_bool 2 (rev (map (mem_bit mem) [p..<p + n]))"

lemma bit_bits_val:
  "bit (bits_val mem p n :: 'a::len word) i \<longleftrightarrow> i < LENGTH('a) \<and> i < n \<and> mem_bit mem (p + (n - 1 - i))"
  by (auto simp: bits_val_def bit_horner_sum_bit_word_iff rev_nth)

lemma bits_val_0 [simp]: "bits_val mem p 0 = 0"
  by (simp add: bits_val_def)

text \<open>Reading fields of given widths one after the other.\<close>

primrec read_many :: "(nat \<Rightarrow> 'b \<Rightarrow> ('v \<times> 'b) option) \<Rightarrow> nat list \<Rightarrow> 'b \<Rightarrow> ('v list \<times> 'b) option" where
  "read_many rdr [] b = Some ([], b)"
| "read_many rdr (n # ns) b = Option.bind (rdr n b) (\<lambda>(v, b).
     Option.bind (read_many rdr ns b) (\<lambda>(vs, b). Some (v # vs, b)))"

text \<open>The numbers such fields hold.\<close>

primrec field_vals :: "byte list \<Rightarrow> nat \<Rightarrow> nat list \<Rightarrow> 'a::len word list" where
  "field_vals mem p [] = []"
| "field_vals mem p (n # ns) = bits_val mem p n # field_vals mem (p + n) ns"

lemma length_field_vals [simp]: "length (field_vals mem p ns) = length ns"
  by (induction ns arbitrary: p) simp_all

lemma nth_field_vals_equal:
  "i < k \<Longrightarrow> field_vals mem p (replicate k n) ! i = bits_val mem (p + i * n) n"
proof (induction k arbitrary: p i)
  case (Suc k)
  then show ?case by (cases i) (simp_all add: algebra_simps)
qed simp

text \<open>
  A reader takes up to \<^verbatim>\<open>width\<close> bits at once, as long as there are \<^verbatim>\<open>slack\<close> bytes from the byte
  it stands on (readers load whole words), and moves by the bits it took.
\<close>

locale bit_reader =
  fixes rdr :: "nat \<Rightarrow> 'b \<Rightarrow> ('v::len word \<times> 'b) option"
    and mem :: "'b \<Rightarrow> byte list"
    and pos :: "'b \<Rightarrow> nat"
    and good :: "'b \<Rightarrow> bool"
    and width :: nat
    and slack :: nat
  assumes read_step: "good b \<Longrightarrow> n \<le> width \<Longrightarrow> pos b div 8 + slack \<le> length (mem b) \<Longrightarrow>
    \<exists>b'. rdr n b = Some (bits_val (mem b) (pos b) n, b') \<and> good b' \<and> mem b' = mem b \<and> pos b' = pos b + n"
begin

lemma read_fields:
  assumes "good b" and "\<forall>n \<in> set ns. n \<le> width" and "(pos b + sum_list ns) div 8 + slack \<le> length (mem b)"
  shows "\<exists>b'. read_many rdr ns b = Some (field_vals (mem b) (pos b) ns, b') \<and> good b' \<and> mem b' = mem b \<and>
    pos b' = pos b + sum_list ns"
  using assms
proof (induction ns arbitrary: b)
  case (Cons n ns)
  have "pos b div 8 \<le> (pos b + sum_list (n # ns)) div 8" by (intro div_le_mono) simp
  then have "pos b div 8 + slack \<le> length (mem b)" using Cons.prems(3) by linarith
  then obtain b' where b': "rdr n b = Some (bits_val (mem b) (pos b) n, b')" "good b'" "mem b' = mem b"
    "pos b' = pos b + n"
    using read_step [OF Cons.prems(1), of n] Cons.prems(2) by auto
  then show ?case
    using Cons.IH [of b'] Cons.prems by (auto simp: add.assoc)
qed simp

lemma read_equal_fields:
  assumes "good b" and "n \<le> width" and "(pos b + k * n) div 8 + slack \<le> length (mem b)"
  shows "\<exists>b'. read_many rdr (replicate k n) b = Some (map (\<lambda>i. bits_val (mem b) (pos b + i * n) n) [0..<k], b') \<and>
    good b' \<and> mem b' = mem b \<and> pos b' = pos b + k * n"
proof -
  have "(field_vals (mem b) (pos b) (replicate k n) :: 'v word list) = map (\<lambda>i. bits_val (mem b) (pos b + i * n) n) [0..<k]"
    by (rule nth_equalityI) (simp_all add: nth_field_vals_equal)
  then show ?thesis
    using read_fields [of b "replicate k n"] assms by (simp add: sum_list_replicate)
qed

end

section \<open>Connection handlers\<close>

text \<open>
  What a server needs of the component that handles its connections: a property of the handler's
  state and of the connections in the slots, which every callback keeps, and which makes the
  destruction of a connection succeed.  \<open>env_ok\<close> says which environments may come with a state, and
  \<open>drift\<close> how the state may change between callbacks.
\<close>

locale connection_handler =
  fixes conn_new :: "'e \<Rightarrow> 'w \<Rightarrow> byte list \<Rightarrow> byte list \<Rightarrow> int \<Rightarrow> ('w \<times> 'u option) option"
    and serve :: "'e \<Rightarrow> 'w \<Rightarrow> 'u \<Rightarrow> 'q \<Rightarrow> ('w \<times> 'u \<times> 'r option) option"
    and drop_conn :: "'w \<Rightarrow> 'u \<Rightarrow> 'w option"
    and env_ok :: "'e \<Rightarrow> 'w \<Rightarrow> bool"
    and drift :: "'w \<Rightarrow> 'w \<Rightarrow> bool"
    and holds :: "'w \<Rightarrow> 'u option list \<Rightarrow> bool"
  assumes new_holds: "holds w us \<Longrightarrow> i < length us \<Longrightarrow> us ! i = None \<Longrightarrow>
      conn_new e w l r n = Some (w', v) \<Longrightarrow> holds w' (us[i := v])"
    and serve_holds: "holds w us \<Longrightarrow> i < length us \<Longrightarrow> us ! i = Some u \<Longrightarrow> env_ok e w \<Longrightarrow>
      serve e w u q = Some (w', u', resp) \<Longrightarrow> holds w' (us[i := Some u'])"
    and drop_holds: "holds w us \<Longrightarrow> i < length us \<Longrightarrow> us ! i = Some u \<Longrightarrow>
      \<exists>w'. drop_conn w u = Some w' \<and> holds w' (us[i := None])"
    and drift_holds: "holds w us \<Longrightarrow> drift w w' \<Longrightarrow> holds w' us"

end
