(* ===== verification/Byte_Utils.thy ===== *)
theory Byte_Utils
  imports Interfaces
begin

text \<open>
  \<^verbatim>\<open>byteutils.c\<close>: reading and writing integers and NTP time stamps in byte buffers.  A
  \<^verbatim>\<open>float\<close> is carried as its 32-bit pattern; the C \<^verbatim>\<open>int\<close> and \<^verbatim>\<open>short\<close> results are words, whose
  signed reading is \<^verbatim>\<open>sint\<close>.
\<close>

unbundle bit_operations_syntax

section \<open>Definitions\<close>

definition byteutils_get_int :: "byte list \<Rightarrow> nat \<Rightarrow> u32 option" where
  "byteutils_get_int b offset = do {
     b3 \<leftarrow> rd b (offset + 3);
     b2 \<leftarrow> rd b (offset + 2);
     b1 \<leftarrow> rd b (offset + 1);
     b0 \<leftarrow> rd b offset;
     Some (push_bit 24 (ucast b3) OR push_bit 16 (ucast b2) OR push_bit 8 (ucast b1) OR ucast b0)
   }"

definition byteutils_get_short :: "byte list \<Rightarrow> nat \<Rightarrow> u16 option" where
  "byteutils_get_short b offset = do {
     b1 \<leftarrow> rd b (offset + 1);
     b0 \<leftarrow> rd b offset;
     Some (push_bit 8 (ucast b1) OR ucast b0)
   }"

definition byteutils_get_float :: "byte list \<Rightarrow> nat \<Rightarrow> u32 option" where
  "byteutils_get_float b offset = do {
     bs \<leftarrow> slice offset 4 b;
     byteutils_get_int bs 0
   }"

definition byteutils_get_int2 :: "byte list \<Rightarrow> nat \<Rightarrow> u64 option" where
  "byteutils_get_int2 b offset = do {
     b3 \<leftarrow> rd b (offset + 3);
     b2 \<leftarrow> rd b (offset + 2);
     b1 \<leftarrow> rd b (offset + 1);
     b0 \<leftarrow> rd b offset;
     Some (push_bit 24 (ucast b3) OR push_bit 16 (ucast b2) OR push_bit 8 (ucast b1) OR ucast b0)
   }"

definition byteutils_get_long :: "byte list \<Rightarrow> nat \<Rightarrow> u64 option" where
  "byteutils_get_long b offset = do {
     hi \<leftarrow> byteutils_get_int2 b (offset + 4);
     lo \<leftarrow> byteutils_get_int2 b offset;
     Some (push_bit 32 hi OR lo)
   }"

definition INT_32_MAX :: u64 where
  "INT_32_MAX = 0x100000000"

definition OFFSET_1900_TO_1970 :: u64 where
  "OFFSET_1900_TO_1970 = 2208988800"

definition ntptopts :: "u64 \<Rightarrow> u64" where
  "ntptopts ntp =
     (drop_bit 32 ntp AND 0xffffffff) * 1000000 + ((ntp AND 0xffffffff) * 1000 * 1000) div INT_32_MAX"

definition byteutils_read_int :: "byte list \<Rightarrow> nat \<Rightarrow> u64 option" where
  "byteutils_read_int b offset = do {
     b0 \<leftarrow> rd b offset;
     b1 \<leftarrow> rd b (offset + 1);
     b2 \<leftarrow> rd b (offset + 2);
     b3 \<leftarrow> rd b (offset + 3);
     Some (push_bit 24 (ucast b0) OR push_bit 16 (ucast b1) OR push_bit 8 (ucast b2) OR push_bit 0 (ucast b3))
   }"

definition byteutils_read_timeStamp :: "byte list \<Rightarrow> nat \<Rightarrow> u64 option" where
  "byteutils_read_timeStamp b offset = do {
     secs \<leftarrow> byteutils_read_int b offset;
     frac \<leftarrow> byteutils_read_int b (offset + 4);
     Some (secs * 1000000 + (frac * 1000000) div INT_32_MAX)
   }"

definition byteutils_put_timeStamp :: "byte list \<Rightarrow> nat \<Rightarrow> u64 \<Rightarrow> byte list option" where
  "byteutils_put_timeStamp b offset time = (
     let seconds = time div 1000000;
         microseconds = time - seconds * 1000000;
         seconds = seconds + OFFSET_1900_TO_1970;
         fraction = microseconds * 0x100000000 div 1000000
     in memcpy b offset
          [ucast (drop_bit 24 seconds), ucast (drop_bit 16 seconds),
           ucast (drop_bit 8 seconds), ucast (drop_bit 0 seconds),
           ucast (drop_bit 24 fraction), ucast (drop_bit 16 fraction),
           ucast (drop_bit 8 fraction), ucast (drop_bit 0 fraction)])"

text \<open>\<^verbatim>\<open>now_us\<close> on the value \<^verbatim>\<open>(tv_sec, tv_nsec)\<close> that \<^verbatim>\<open>clock_gettime\<close> stored.\<close>

definition now_us :: "u64 \<Rightarrow> u64 \<Rightarrow> u64" where
  "now_us tv_sec tv_nsec = tv_sec * 10000000 + tv_nsec div 1000"

section \<open>Word lemmas of the time stamps\<close>

lemma unat_low32: "unat (x AND 0xffffffff :: u64) = unat x mod 2 ^ 32"
proof -
  have "x AND 0xffffffff = take_bit 32 x"
    by (simp add: take_bit_eq_mask mask_eq_exp_minus_1)
  then show ?thesis
    by (simp add: take_bit_eq_mod unat_mod_distrib)
qed

lemma unat_high32: "unat (drop_bit 32 x AND 0xffffffff :: u64) = unat x div 2 ^ 32"
proof -
  have "unat x < 2 ^ 64" using unsigned_less[of x] by simp
  then have "unat x div 2 ^ 32 < 2 ^ 32" by (simp add: div_less_iff_less_mult)
  then show ?thesis
    by (simp only: unat_low32) (simp add: drop_bit_eq_div unat_div_distrib)
qed

lemma unat_INT_32_MAX: "unat INT_32_MAX = 2 ^ 32"
  by (simp add: INT_32_MAX_def)

lemma unat_OFFSET: "unat OFFSET_1900_TO_1970 = 2208988800"
  by (simp add: OFFSET_1900_TO_1970_def)

lemma unat_byte_of: "unat (ucast (drop_bit n (s :: u64)) :: byte) = (unat s div 2 ^ n) mod 256"
proof -
  have "unat (ucast (drop_bit n s) :: byte) = take_bit 8 (drop_bit n (take_bit 64 (unat s)))"
    by (simp only: unsigned_ucast_eq unsigned_drop_bit_eq) simp
  also have "take_bit 64 (unat s) = unat s"
    using unat_less_exp [of s] by (simp add: take_bit_nat_eq_self)
  finally show ?thesis
    by (simp add: take_bit_eq_mod drop_bit_eq_div)
qed

lemma four_bytes_sum: "((s::nat) div 2 ^ 24) mod 256 * 2 ^ 24 + (s div 2 ^ 16) mod 256 * 2 ^ 16
    + (s div 2 ^ 8) mod 256 * 2 ^ 8 + s mod 256 = s mod 2 ^ 32"
proof -
  have a: "s mod 2 ^ 16 = (s div 2 ^ 8) mod 256 * 2 ^ 8 + s mod 256"
    using mod_mult2_eq [of s 256 256] by simp
  have b: "s mod 2 ^ 24 = (s div 2 ^ 16) mod 256 * 2 ^ 16 + s mod 2 ^ 16"
    using mod_mult2_eq [of s "2 ^ 16" 256] by simp
  have c: "s mod 2 ^ 32 = (s div 2 ^ 24) mod 256 * 2 ^ 24 + s mod 2 ^ 24"
    using mod_mult2_eq [of s "2 ^ 24" 256] by simp
  show ?thesis using a b c by simp
qed

text \<open>The four low bytes of a word, most significant first.\<close>

definition be4 :: "u64 \<Rightarrow> byte list" where
  "be4 s = [ucast (drop_bit 24 s), ucast (drop_bit 16 s), ucast (drop_bit 8 s), ucast (drop_bit 0 s)]"

lemma read_int_be4:
  assumes "off + 4 \<le> length b" and "take 4 (drop off b) = be4 s"
  shows "\<exists>r. byteutils_read_int b off = Some r \<and> unat r = unat s mod 2 ^ 32"
proof -
  have n: "b ! (off + i) = be4 s ! i" if "i < 4" for i
    using that assms by (metis add_leE drop_drop nth_drop nth_take)
  have b: "b ! off = ucast (drop_bit 24 s)" "b ! (off + 1) = ucast (drop_bit 16 s)"
     "b ! (off + 2) = ucast (drop_bit 8 s)" "b ! (off + 3) = ucast (drop_bit 0 s)"
    using n[of 0] n[of 1] n[of 2] n[of 3] by (simp_all add: be4_def)
  have "unat s mod 256 = unat s div 2 ^ 0 mod 256" by simp
  then show ?thesis
    using assms(1) four_bytes_sum[of "unat s"]
    by (simp add: byteutils_read_int_def b unat_four_bytes unat_byte_of del: drop_bit_0 One_nat_def add_2_eq_Suc')
qed


lemma unat_minus_div_mult: "unat ((t::u64) - t div 1000000 * 1000000) = unat t mod 1000000"
proof -
  have "t - t div 1000000 * 1000000 = t mod 1000000"
    by (simp add: minus_div_mult_eq_mod)
  then show ?thesis by (simp add: unat_mod_distrib)
qed

lemma put_timeStamp_be4:
  "byteutils_put_timeStamp b off time =
     memcpy b off (be4 (time div 1000000 + OFFSET_1900_TO_1970) @
       be4 ((time - time div 1000000 * 1000000) * 0x100000000 div 1000000))"
  by (simp add: byteutils_put_timeStamp_def be4_def Let_def)

lemma fraction_error:
  fixes us :: nat
  assumes "us < 1000000"
  defines "x \<equiv> (us * 2 ^ 32 div 1000000) * 1000000 div 2 ^ 32"
  shows "us * 2 ^ 32 div 1000000 < 2 ^ 32" and "x \<le> us" and "us \<le> x + 1"
  using assms(1) unfolding x_def by simp_all

section \<open>Properties\<close>

text \<open>
  C1: converting a 32.32 fixed-point NTP time to microseconds is exact rounding down for every
  64-bit input: the two partial products never wrap and the result is
  floor(ntp * 10^6 / 2^32).
\<close>

theorem ntptopts_exact: "unat (ntptopts ntp) = unat ntp * 1000000 div 2 ^ 32"
proof -
  let ?h = "unat ntp div 2 ^ 32" and ?l = "unat ntp mod 2 ^ 32"
  have n: "unat ntp < 2 ^ 64" using unsigned_less[of ntp] by simp
  have h: "?h < 2 ^ 32" using n by (simp add: div_less_iff_less_mult)
  have l: "?l < 2 ^ 32" by simp
  have a: "unat ((drop_bit 32 ntp AND 0xffffffff) * 1000000) = ?h * 1000000"
    using h by (subst unat_mult_nowrap) (simp_all add: unat_high32)
  have b1: "unat ((ntp AND 0xffffffff) * 1000) = ?l * 1000"
    using l by (subst unat_mult_nowrap) (simp_all only: unat_low32, simp_all)
  have b: "unat ((ntp AND 0xffffffff) * 1000 * 1000) = ?l * 1000000"
    using l by (subst unat_mult_nowrap) (simp_all only: b1, simp_all)
  have d: "unat (((ntp AND 0xffffffff) * 1000 * 1000) div INT_32_MAX) = ?l * 1000000 div 2 ^ 32"
    by (simp only: unat_div_distrib b unat_INT_32_MAX)
  have "?l * 1000000 div 2 ^ 32 < 1000000" using l by (simp add: div_less_iff_less_mult)
  then have "unat (ntptopts ntp) = ?h * 1000000 + ?l * 1000000 div 2 ^ 32"
    using h unfolding ntptopts_def by (subst unat_plus_nowrap) (simp_all only: a d, simp_all)
  also have "\<dots> = (?l * 1000000 + ?h * 1000000 * 2 ^ 32) div 2 ^ 32"
    by simp
  also have "?l * 1000000 + ?h * 1000000 * 2 ^ 32 = (?h * 2 ^ 32 + ?l) * 1000000"
    by (simp only: algebra_simps)
  also have "?h * 2 ^ 32 + ?l = unat ntp"
    by (rule div_mult_mod_eq)
  finally show ?thesis .
qed

text \<open>
  C2: a time stamp written in NTP format and read back gives the time plus the 1900 offset
  (seconds modulo 2^32), at most one microsecond short, and the buffer keeps its length.
\<close>

theorem timeStamp_roundtrip:
  assumes "off + 8 \<le> length b"
  shows "\<exists>b' r. byteutils_put_timeStamp b off time = Some b' \<and> length b' = length b \<and>
     byteutils_read_timeStamp b' off = Some r \<and>
     (\<exists>x. x \<le> unat time mod 1000000 \<and> unat time mod 1000000 \<le> x + 1 \<and>
        unat r = (unat time div 1000000 + 2208988800) mod 2 ^ 32 * 1000000 + x)"
proof -
  define s where "s = time div 1000000 + OFFSET_1900_TO_1970"
  define f where "f = (time - time div 1000000 * 1000000) * 0x100000000 div 1000000"
  define us where "us = unat time mod 1000000"
  define b' where "b' = take off b @ (be4 s @ be4 f) @ drop (off + 8) b"
  have len: "length (be4 s @ be4 f) = 8" by (simp add: be4_def)
  have put: "byteutils_put_timeStamp b off time = Some b'"
    using assms len unfolding put_timeStamp_be4 s_def [symmetric] f_def [symmetric]
    by (simp add: memcpy_def b'_def)
  have l': "length b' = length b" using assms len by (simp add: b'_def)
  have t4: "take 4 (drop off b') = be4 s" "take 4 (drop (off + 4) b') = be4 f"
    using assms by (simp_all add: b'_def be4_def)
  obtain r1 where r1: "byteutils_read_int b' off = Some r1" "unat r1 = unat s mod 2 ^ 32"
    using read_int_be4[OF _ t4(1)] assms l' by auto
  obtain r2 where r2: "byteutils_read_int b' (off + 4) = Some r2" "unat r2 = unat f mod 2 ^ 32"
    using read_int_be4[OF _ t4(2)] assms l' by auto
  have us: "us < 1000000" by (simp add: us_def)
  have "unat time < 2 ^ 64" using unat_less_exp[of time] by simp
  then have s: "unat s = unat time div 1000000 + 2208988800"
    by (simp add: s_def unat_plus_nowrap unat_div_distrib unat_OFFSET)
  have "unat ((time - time div 1000000 * 1000000) * 0x100000000) = us * 2 ^ 32"
    using us by (subst unat_mult_nowrap) (simp_all only: unat_minus_div_mult flip: us_def, simp_all)
  then have f: "unat f = us * 2 ^ 32 div 1000000"
    by (simp add: f_def unat_div_distrib)
  have r2': "unat r2 = us * 2 ^ 32 div 1000000"
    using fraction_error(1)[OF us] r2(2) f by simp
  define x where "x = unat ((r2 * 1000000) div INT_32_MAX)"
  have "unat (r2 * 1000000) = unat r2 * 1000000"
    using fraction_error(1)[OF us] by (subst unat_mult_nowrap) (simp_all add: r2')
  then have x: "x = (us * 2 ^ 32 div 1000000) * 1000000 div 2 ^ 32"
    by (simp add: x_def unat_div_distrib unat_INT_32_MAX r2')
  have r1': "unat (r1 * 1000000) = unat r1 * 1000000"
    by (subst unat_mult_nowrap) (simp_all add: r1(2))
  have xs: "x \<le> us" "us \<le> x + 1" using fraction_error[OF us] by (simp_all add: x)
  have "unat (r1 * 1000000 + (r2 * 1000000) div INT_32_MAX) = unat r1 * 1000000 + x"
    using us xs by (subst unat_plus_nowrap) (simp_all add: r1' r1(2) flip: x_def)
  then show ?thesis
    using put l' xs by (auto simp: byteutils_read_timeStamp_def r1(1) r2(1) r1(2) s us_def)
qed

theorem timeStamp_roundtrip_witness:
  "\<exists>b' r. byteutils_put_timeStamp (replicate 32 0) 24 1500000 = Some b' \<and> length b' = 32 \<and>
     byteutils_read_timeStamp b' 24 = Some r \<and>
     (\<exists>x. x \<le> 500000 \<and> 500000 \<le> x + 1 \<and> unat r = 2208988801 * 1000000 + x)"
  using timeStamp_roundtrip [of 24 "replicate 32 0" 1500000] by simp

text \<open>
  C3: the clock reading that seeds the outgoing time stamps multiplies seconds by 10^7, so it
  exceeds the number of microseconds by nine seconds' worth per elapsed second.
\<close>

theorem now_us_overcounts:
  assumes "unat tv_sec < 2 ^ 32"
  shows "unat (now_us tv_sec tv_nsec) =
    (unat tv_sec * 1000000 + unat tv_nsec div 1000) + 9000000 * unat tv_sec"
proof -
  have "unat tv_nsec < 2 ^ 64"
    using unat_less_exp [of tv_nsec] by simp
  then have d: "unat tv_nsec div 1000 < 2 ^ 55"
    by (simp add: div_less_iff_less_mult)
  have "unat (tv_sec * 10000000) = unat tv_sec * 10000000"
    using assms by (subst unat_mult_nowrap) simp_all
  then show ?thesis
    using assms d by (simp add: now_us_def unat_plus_nowrap unat_div_distrib)
qed

theorem now_us_overcounts_witness:
  "unat (now_us 2 5000) = (2 * 1000000 + 5) + 9000000 * 2"
  using now_us_overcounts [of 2 5000] by simp

end
