(* ===== verification/Raop_Buffer.thy ===== *)
theory Raop_Buffer
  imports Byte_Utils
begin

text \<open>
  \<^verbatim>\<open>raop_audio.h\<close> and \<^verbatim>\<open>raop_buffer.c\<close>: the audio configuration and the jitter buffer of 64
  decoded packets.  The sound memory is one flat buffer, as in the code; an entry's
  \<^verbatim>\<open>audio_buffer\<close> pointer is its offset in that buffer.  AES-CBC, SHA-512, the ALAC and AAC
  decoders and \<^verbatim>\<open>realloc\<close> are the fields of \<^verbatim>\<open>codec_ops\<close>.
\<close>

unbundle bit_operations_syntax

section \<open>Audio configuration (raop_audio.h)\<close>

datatype raop_audio_codec = RAOP_AUDIO_CODEC_AAC_ELD | RAOP_AUDIO_CODEC_ALAC

record raop_audio_config =
  codec :: raop_audio_codec
  compression_type :: u64
  audio_format :: u64
  sample_rate :: u32
  bit_depth :: u32
  channels :: u32
  frames_per_packet :: u32

definition RAOP_AUDIO_FORMAT_ALAC_44100_STEREO :: u64 where
  "RAOP_AUDIO_FORMAT_ALAC_44100_STEREO = 0x40000"

definition RAOP_AUDIO_FORMAT_AAC_ELD_44100_STEREO :: u64 where
  "RAOP_AUDIO_FORMAT_AAC_ELD_44100_STEREO = 0x1000000"

definition RAOP_COMPRESSION_TYPE_ALAC :: u64 where
  "RAOP_COMPRESSION_TYPE_ALAC = 2"

definition RAOP_COMPRESSION_TYPE_AAC_ELD :: u64 where
  "RAOP_COMPRESSION_TYPE_AAC_ELD = 8"

definition raop_audio_config_default_aac_eld :: raop_audio_config where
  "raop_audio_config_default_aac_eld =
     \<lparr> codec = RAOP_AUDIO_CODEC_AAC_ELD,
       compression_type = RAOP_COMPRESSION_TYPE_AAC_ELD,
       audio_format = RAOP_AUDIO_FORMAT_AAC_ELD_44100_STEREO,
       sample_rate = 44100, bit_depth = 16, channels = 2, frames_per_packet = 480 \<rparr>"

definition raop_audio_config_default_alac :: raop_audio_config where
  "raop_audio_config_default_alac =
     \<lparr> codec = RAOP_AUDIO_CODEC_ALAC,
       compression_type = RAOP_COMPRESSION_TYPE_ALAC,
       audio_format = RAOP_AUDIO_FORMAT_ALAC_44100_STEREO,
       sample_rate = 44100, bit_depth = 16, channels = 2, frames_per_packet = 352 \<rparr>"

text \<open>A null configuration pointer is \<^verbatim>\<open>None\<close>; the product is unsigned and wraps.\<close>

definition raop_audio_config_output_bytes :: "raop_audio_config option \<Rightarrow> u32" where
  "raop_audio_config_output_bytes config =
     (case config of None \<Rightarrow> 0
      | Some c \<Rightarrow>
          if channels c = 0 \<or> bit_depth c = 0 \<or> frames_per_packet c = 0 then 0
          else frames_per_packet c * channels c * (bit_depth c div 8))"

section \<open>State of the jitter buffer\<close>

definition RAOP_BUFFER_LENGTH :: nat where
  "RAOP_BUFFER_LENGTH = 64"

definition RAOP_PACKET_LEN :: nat where
  "RAOP_PACKET_LEN = 32768"

record raop_buffer_entry =
  available :: bool
  flags :: byte
  rtp_type :: byte
  seqnum :: u16
  timestamp :: u32
  ssrc :: u32
  audio_buffer_size :: int
  audio_buffer_len :: int
  audio_buffer :: nat

record ('aes, 'alac, 'aac) raop_buffer =
  aeskey :: "byte list"
  aesiv :: "byte list"
  aes_ctx_audio :: 'aes
  phandle :: "'aac option"
  alac_decoder :: "'alac option"
  audio_config :: raop_audio_config
  pcm_pkt_size :: int
  alac_decode_errors :: int
  alac_decode_success_logged :: bool
  is_empty :: bool
  first_seqnum :: u16
  last_seqnum :: u16
  entries :: "raop_buffer_entry list"
  buffer_size :: int
  buffer :: "byte list option"

text \<open>
  What the buffer calls: \<^verbatim>\<open>sha512\<close> of a byte string, the AES context and its CBC decryption
  (the context is copied before each use, so the chaining never carries over), opening and
  running the two decoders, and \<^verbatim>\<open>realloc\<close>.  The ALAC wrapper gets the payload and the
  packet's output block and gives its status, the number of decoded bytes and the block it
  leaves; the AAC decoder gets the payload and the \<^verbatim>\<open>timeDataSize\<close> argument and gives the
  bytes it writes from the start of the block.
\<close>

record ('aes, 'alac, 'aac) codec_ops =
  op_sha512 :: "byte list \<Rightarrow> byte list"
  op_aes_set_key :: "byte list \<Rightarrow> byte list \<Rightarrow> 'aes"
  op_aes_cbc_decrypt :: "'aes \<Rightarrow> byte list \<Rightarrow> byte list"
  op_alac_create :: "u32 \<Rightarrow> u32 \<Rightarrow> u32 \<Rightarrow> u32 \<Rightarrow> 'alac option"
  op_alac_decode :: "'alac option \<Rightarrow> byte list \<Rightarrow> byte list \<Rightarrow> int \<times> nat \<times> byte list \<times> 'alac option"
  op_aac_open :: "'aac option"
  op_aac_decode :: "'aac \<Rightarrow> byte list \<Rightarrow> int \<Rightarrow> byte list \<times> 'aac"
  op_realloc :: "byte list option \<Rightarrow> nat \<Rightarrow> byte list option"

section \<open>Sequence numbers\<close>

text \<open>The difference of two 16-bit numbers, truncated to a signed 16-bit \<^verbatim>\<open>short\<close>.\<close>

definition seqnum_cmp :: "u16 \<Rightarrow> u16 \<Rightarrow> int" where
  "seqnum_cmp s1 s2 = sint (s1 - s2)"

definition slot :: "u16 \<Rightarrow> nat" where
  "slot s = unat s mod RAOP_BUFFER_LENGTH"

section \<open>Operations\<close>

definition raop_buffer_flush ::
  "('aes, 'alac, 'aac) raop_buffer \<Rightarrow> int \<Rightarrow> ('aes, 'alac, 'aac) raop_buffer" where
  "raop_buffer_flush rb next_seq = (
     let rb = rb\<lparr>entries := map (\<lambda>e. e\<lparr>available := False, audio_buffer_len := 0\<rparr>) (entries rb)\<rparr>
     in if next_seq < 0 \<or> next_seq > 0xffff
        then rb\<lparr>is_empty := True\<rparr>
        else rb\<lparr>first_seqnum := word_of_int next_seq, last_seqnum := word_of_int (next_seq - 1)\<rparr>)"

text \<open>
  Sizing the blocks: the product with 64 is a C \<^verbatim>\<open>int\<close>, its overflow is undefined behaviour.
\<close>

definition raop_buffer_set_audio_buffer_size ::
  "('aes, 'alac, 'aac) codec_ops \<Rightarrow> ('aes, 'alac, 'aac) raop_buffer \<Rightarrow> int
     \<Rightarrow> (int \<times> ('aes, 'alac, 'aac) raop_buffer) option" where
  "raop_buffer_set_audio_buffer_size ops rb sz =
     (if sz \<le> 0 then Some (-1, rb)
      else do {
        require (sz * int RAOP_BUFFER_LENGTH < 2 ^ 31);
        let total = sz * int RAOP_BUFFER_LENGTH;
        if buffer rb \<noteq> None \<and> buffer_size rb = total
        then Some (0, rb\<lparr>entries := map (\<lambda>(i, e). e\<lparr>audio_buffer_size := sz, audio_buffer := i * nat sz\<rparr>)
               (enumerate 0 (entries rb))\<rparr>)
        else (case op_realloc ops (buffer rb) (nat total) of
            None \<Rightarrow> Some (-1, rb)
          | Some new_buffer \<Rightarrow>
              Some (0, rb\<lparr>buffer := Some new_buffer, buffer_size := total,
                 entries := map (\<lambda>(i, e). e\<lparr>audio_buffer_size := sz, audio_buffer_len := 0,
                                             audio_buffer := i * nat sz\<rparr>)
                   (enumerate 0 (entries rb))\<rparr>))
      })"

definition raop_buffer_configure_alac ::
  "('aes, 'alac, 'aac) codec_ops \<Rightarrow> ('aes, 'alac, 'aac) raop_buffer \<Rightarrow> raop_audio_config \<Rightarrow> u32
     \<Rightarrow> int \<times> ('aes, 'alac, 'aac) raop_buffer" where
  "raop_buffer_configure_alac ops rb config output_bytes = (
     let rb = rb\<lparr>phandle := None\<rparr>;
         rb = rb\<lparr>alac_decoder := op_alac_create ops (sample_rate config) (bit_depth config)
                                   (channels config) (frames_per_packet config)\<rparr>
     in if alac_decoder rb = None then (-1, rb)
        else (0, rb\<lparr>audio_config := config, pcm_pkt_size := sint output_bytes,
                    alac_decode_errors := 0, alac_decode_success_logged := False\<rparr>))"

definition raop_buffer_configure_aac_eld ::
  "('aes, 'alac, 'aac) codec_ops \<Rightarrow> ('aes, 'alac, 'aac) raop_buffer \<Rightarrow> raop_audio_config \<Rightarrow> u32
     \<Rightarrow> int \<times> ('aes, 'alac, 'aac) raop_buffer" where
  "raop_buffer_configure_aac_eld ops rb config output_bytes = (
     let rb = rb\<lparr>alac_decoder := None\<rparr>;
         rb = (if phandle rb = None then rb\<lparr>phandle := op_aac_open ops\<rparr> else rb)
     in if phandle rb = None then (-1, rb)
        else (0, rb\<lparr>audio_config := config, pcm_pkt_size := sint output_bytes\<rparr>))"

definition raop_buffer_configure_audio ::
  "('aes, 'alac, 'aac) codec_ops \<Rightarrow> ('aes, 'alac, 'aac) raop_buffer \<Rightarrow> raop_audio_config
     \<Rightarrow> (int \<times> ('aes, 'alac, 'aac) raop_buffer) option" where
  "raop_buffer_configure_audio ops rb config = (
     let output_bytes = raop_audio_config_output_bytes (Some config)
     in if output_bytes = 0 then Some (-1, rb)
        else do {
          let rb = raop_buffer_flush rb (-1);
          (r, rb) \<leftarrow> raop_buffer_set_audio_buffer_size ops rb (sint output_bytes);
          if r < 0 then Some (-1, rb)
          else Some (case codec config of
              RAOP_AUDIO_CODEC_ALAC \<Rightarrow> raop_buffer_configure_alac ops rb config output_bytes
            | RAOP_AUDIO_CODEC_AAC_ELD \<Rightarrow> raop_buffer_configure_aac_eld ops rb config output_bytes)
        })"

definition raop_buffer_init_key_iv ::
  "('aes, 'alac, 'aac) codec_ops \<Rightarrow> ('aes, 'alac, 'aac) raop_buffer \<Rightarrow> byte list \<Rightarrow> byte list \<Rightarrow> byte list
     \<Rightarrow> ('aes, 'alac, 'aac) raop_buffer" where
  "raop_buffer_init_key_iv ops rb key iv ecdh_secret = (
     let eaeskey = op_sha512 ops (take 16 key @ take 32 ecdh_secret);
         rb = rb\<lparr>aeskey := take 16 eaeskey, aesiv := take 16 iv\<rparr>
     in rb\<lparr>aes_ctx_audio := op_aes_set_key ops (aeskey rb) (aesiv rb)\<rparr>)"

text \<open>The zeroed structure of \<^verbatim>\<open>calloc\<close>; the AES context is overwritten before any use.\<close>

definition zero_entry :: raop_buffer_entry where
  "zero_entry = \<lparr> available = False, flags = 0, rtp_type = 0, seqnum = 0, timestamp = 0, ssrc = 0,
     audio_buffer_size = 0, audio_buffer_len = 0, audio_buffer = 0 \<rparr>"

definition raop_buffer_calloc ::
  "('aes, 'alac, 'aac) codec_ops \<Rightarrow> raop_audio_config \<Rightarrow> ('aes, 'alac, 'aac) raop_buffer" where
  "raop_buffer_calloc ops config =
     \<lparr> aeskey = replicate 16 0, aesiv = replicate 16 0,
       aes_ctx_audio = op_aes_set_key ops (replicate 16 0) (replicate 16 0),
       phandle = None, alac_decoder = None, audio_config = config, pcm_pkt_size = 0,
       alac_decode_errors = 0, alac_decode_success_logged = False, is_empty = False,
       first_seqnum = 0, last_seqnum = 0,
       entries = replicate RAOP_BUFFER_LENGTH zero_entry, buffer_size = 0, buffer = None \<rparr>"

text \<open>The inner option is the returned pointer: \<^verbatim>\<open>None\<close> is \<^verbatim>\<open>NULL\<close>.\<close>

definition raop_buffer_init ::
  "('aes, 'alac, 'aac) codec_ops \<Rightarrow> byte list \<Rightarrow> byte list \<Rightarrow> byte list
     \<Rightarrow> ('aes, 'alac, 'aac) raop_buffer option option" where
  "raop_buffer_init ops key iv ecdh_secret = do {
     let default_config = raop_audio_config_default_aac_eld;
     let sz = raop_audio_config_output_bytes (Some default_config);
     let rb = raop_buffer_calloc ops default_config;
     let rb = rb\<lparr>pcm_pkt_size := sint sz\<rparr>;
     (r, rb) \<leftarrow> raop_buffer_set_audio_buffer_size ops rb (sint sz);
     if r < 0 then Some None
     else do {
       let rb = rb\<lparr>phandle := op_aac_open ops\<rparr>;
       if phandle rb = None then Some None
       else do {
         let rb = raop_buffer_init_key_iv ops rb key iv ecdh_secret;
         Some (Some (rb\<lparr>is_empty := True\<rparr>))
       }
     }
   }"

text \<open>
  One packet.  \<^verbatim>\<open>data\<close> is the receive buffer and \<^verbatim>\<open>datalen\<close> the length the caller passes.  The
  block an entry points to is read and written through its offset in the sound memory.
\<close>

definition entry_block :: "('aes, 'alac, 'aac) raop_buffer \<Rightarrow> nat \<Rightarrow> byte list option" where
  "entry_block rb k = do {
     e \<leftarrow> rd (entries rb) k;
     b \<leftarrow> buffer rb;
     slice (audio_buffer e) (nat (audio_buffer_size e)) b
   }"

definition entry_store ::
  "('aes, 'alac, 'aac) raop_buffer \<Rightarrow> nat \<Rightarrow> byte list \<Rightarrow> int \<Rightarrow> ('aes, 'alac, 'aac) raop_buffer option" where
  "entry_store rb k bs n = do {
     e \<leftarrow> rd (entries rb) k;
     b \<leftarrow> buffer rb;
     b' \<leftarrow> memcpy b (audio_buffer e) bs;
     Some (rb\<lparr>buffer := Some b', entries := (entries rb)[k := e\<lparr>audio_buffer_len := n\<rparr>]\<rparr>)
   }"

definition queue_decrypt :: "('aes, 'alac, 'aac) codec_ops \<Rightarrow> 'aes \<Rightarrow> byte list \<Rightarrow> byte list" where
  "queue_decrypt ops ctx payload = (
     let encryptedlen = length payload div 16 * 16
     in op_aes_cbc_decrypt ops ctx (take encryptedlen payload) @ drop encryptedlen payload)"

definition queue_alac ::
  "('aes, 'alac, 'aac) codec_ops \<Rightarrow> ('aes, 'alac, 'aac) raop_buffer \<Rightarrow> nat \<Rightarrow> byte list
     \<Rightarrow> ('aes, 'alac, 'aac) raop_buffer option" where
  "queue_alac ops rb k packetbuf = do {
     e \<leftarrow> rd (entries rb) k;
     block \<leftarrow> entry_block rb k;
     let (ret, decoded_bytes, block', dec) = op_alac_decode ops (alac_decoder rb) packetbuf block;
     let rb = rb\<lparr>alac_decoder := dec\<rparr>;
     if ret = 0 \<and> decoded_bytes > 0
     then do {
       rb \<leftarrow> entry_store rb k block' (int decoded_bytes);
       Some (rb\<lparr>alac_decode_success_logged := True\<rparr>)
     }
     else do {
       rb \<leftarrow> entry_store rb k (replicate (nat (audio_buffer_size e)) 0) (audio_buffer_size e);
       require (alac_decode_errors rb + 1 < 2 ^ 31);
       Some (rb\<lparr>alac_decode_errors := alac_decode_errors rb + 1\<rparr>)
     }
   }"

text \<open>The inner option is the early return -1 when no AAC decoder can be opened.\<close>

definition queue_aac ::
  "('aes, 'alac, 'aac) codec_ops \<Rightarrow> ('aes, 'alac, 'aac) raop_buffer \<Rightarrow> nat \<Rightarrow> byte list
     \<Rightarrow> (int \<times> ('aes, 'alac, 'aac) raop_buffer) option" where
  "queue_aac ops rb k packetbuf = (
     let rb = (if phandle rb = None then rb\<lparr>phandle := op_aac_open ops\<rparr> else rb)
     in case phandle rb of
          None \<Rightarrow> Some (-1, rb)
        | Some dec \<Rightarrow> do {
            let (out, dec) = op_aac_decode ops dec packetbuf (pcm_pkt_size rb);
            rb \<leftarrow> entry_store (rb\<lparr>phandle := Some dec\<rparr>) k out (pcm_pkt_size rb);
            Some (0, rb)
          })"

definition queue_header :: "raop_buffer_entry \<Rightarrow> byte list \<Rightarrow> u16 \<Rightarrow> raop_buffer_entry" where
  "queue_header e data s = e\<lparr>flags := data ! 0, rtp_type := data ! 1, seqnum := s,
     timestamp := be32 (data ! 4) (data ! 5) (data ! 6) (data ! 7),
     ssrc := be32 (data ! 8) (data ! 9) (data ! 10) (data ! 11), available := True\<rparr>"

definition queue_update_seqnums ::
  "('aes, 'alac, 'aac) raop_buffer \<Rightarrow> u16 \<Rightarrow> ('aes, 'alac, 'aac) raop_buffer" where
  "queue_update_seqnums rb s = (
     let rb = (if is_empty rb then rb\<lparr>first_seqnum := s, last_seqnum := s, is_empty := False\<rparr> else rb)
     in if seqnum_cmp s (last_seqnum rb) > 0 then rb\<lparr>last_seqnum := s\<rparr> else rb)"

definition queue_accept ::
  "('aes, 'alac, 'aac) codec_ops \<Rightarrow> ('aes, 'alac, 'aac) raop_buffer \<Rightarrow> byte list \<Rightarrow> u16
     \<Rightarrow> (int \<times> ('aes, 'alac, 'aac) raop_buffer) option" where
  "queue_accept ops rb data s = do {
     let k = slot s;
     e \<leftarrow> rd (entries rb) k;
     let rb = rb\<lparr>entries := (entries rb)[k := queue_header e data s]\<rparr>;
     let packetbuf = queue_decrypt ops (aes_ctx_audio rb) (drop 12 data);
     (r, rb) \<leftarrow> (case codec (audio_config rb) of
         RAOP_AUDIO_CODEC_ALAC \<Rightarrow> do { rb \<leftarrow> queue_alac ops rb k packetbuf; Some (0, rb) }
       | RAOP_AUDIO_CODEC_AAC_ELD \<Rightarrow> queue_aac ops rb k packetbuf);
     if r < 0 then Some (-1, rb)
     else Some (1, queue_update_seqnums rb s)
   }"

definition raop_buffer_queue ::
  "('aes, 'alac, 'aac) codec_ops \<Rightarrow> ('aes, 'alac, 'aac) raop_buffer \<Rightarrow> byte list \<Rightarrow> u16
     \<Rightarrow> (int \<times> ('aes, 'alac, 'aac) raop_buffer) option" where
  "raop_buffer_queue ops rb recvbuf datalen =
     (if unat datalen < 12 \<or> unat datalen > RAOP_PACKET_LEN then Some (-1, rb)
      else do {
        data \<leftarrow> slice 0 (unat datalen) recvbuf;
        let s = be16 (data ! 2) (data ! 3);
        if datalen = 16 \<and> drop 12 data = [0, 0x68, 0x34, 0] then Some (0, rb)
        else if \<not> is_empty rb \<and> seqnum_cmp s (first_seqnum rb) < 0 then Some (0, rb)
        else do {
          let rb = (if seqnum_cmp s (first_seqnum rb + word_of_nat RAOP_BUFFER_LENGTH) \<ge> 0
                    then raop_buffer_flush rb (uint s) else rb);
          e \<leftarrow> rd (entries rb) (slot s);
          if available e \<and> seqnum_cmp (seqnum e) s = 0 then Some (0, rb)
          else queue_accept ops rb data s
        }
      })"

text \<open>
  Dequeue returns \<^verbatim>\<open>NULL\<close> (the inner \<^verbatim>\<open>None\<close>) or the block, with \<^verbatim>\<open>*pts\<close>, which the skipping
  branch does not write.
\<close>

definition raop_buffer_dequeue ::
  "('aes, 'alac, 'aac) raop_buffer \<Rightarrow> bool
     \<Rightarrow> ((byte list \<times> u32 option) option \<times> ('aes, 'alac, 'aac) raop_buffer) option" where
  "raop_buffer_dequeue rb no_resend = (
     let buflen = sint (word_of_int (seqnum_cmp (last_seqnum rb) (first_seqnum rb) + 1) :: u16)
     in if is_empty rb \<or> buflen \<le> 0 then Some (None, rb)
        else do {
          let k = slot (first_seqnum rb);
          e \<leftarrow> rd (entries rb) k;
          if \<not> no_resend \<and> \<not> available e \<and> buflen < int RAOP_BUFFER_LENGTH then Some (None, rb)
          else do {
            let rb = rb\<lparr>first_seqnum := first_seqnum rb + 1\<rparr>;
            b \<leftarrow> buffer rb;
            if \<not> available e
            then do {
              let zeros = replicate (nat (audio_buffer_size e)) 0;
              b' \<leftarrow> memcpy b (audio_buffer e) zeros;
              Some (Some (zeros, None), rb\<lparr>buffer := Some b'\<rparr>)
            }
            else do {
              out \<leftarrow> slice (audio_buffer e) (nat (audio_buffer_len e)) b;
              let rb = rb\<lparr>entries := (entries rb)[k := e\<lparr>available := False, audio_buffer_len := 0\<rparr>]\<rparr>;
              Some (Some (out, Some (timestamp e)), rb)
            }
          }
        })"

text \<open>
  The resend request: the loop over the missing prefix, and the arguments \<^verbatim>\<open>(seqnum, count)\<close> of
  \<^verbatim>\<open>resend_cb\<close> when it is called.
\<close>

lemma sint_gt_0_unat_diff:
  fixes s l :: u16
  assumes "seqnum_cmp s l < 0"
  shows "unat (l - (s + 1)) < unat (l - s)"
proof -
  have "s \<noteq> l" using assms by (auto simp: seqnum_cmp_def)
  then have "l - s \<noteq> 0" by simp
  moreover have "l - (s + 1) = (l - s) - 1" by simp
  ultimately show ?thesis
    by (metis unat_minus_one diff_less unat_gt_0 zero_less_one)
qed

function resend_end :: "raop_buffer_entry list \<Rightarrow> u16 \<Rightarrow> u16 \<Rightarrow> u16 option" where
  "resend_end es s upto_seq =
     (if seqnum_cmp s upto_seq < 0
      then do {
        e \<leftarrow> rd es (slot s);
        if available e then Some s else resend_end es (s + 1) upto_seq
      }
      else Some s)"
  by auto
termination
  by (relation "measure (\<lambda>(es, s, upto_seq). unat (upto_seq - s))") (auto intro: sint_gt_0_unat_diff)

definition raop_buffer_handle_resends ::
  "('aes, 'alac, 'aac) raop_buffer \<Rightarrow> (u16 \<times> int) option option" where
  "raop_buffer_handle_resends rb =
     (if seqnum_cmp (first_seqnum rb) (last_seqnum rb) < 0
      then do {
        s \<leftarrow> resend_end (entries rb) (first_seqnum rb) (last_seqnum rb);
        if seqnum_cmp s (first_seqnum rb) = 0 then Some None
        else Some (Some (first_seqnum rb, seqnum_cmp s (first_seqnum rb)))
      }
      else Some None)"

text \<open>Volume: 32-bit products, the result truncated to 16 bits.\<close>

definition dithered_vol :: "16 word \<Rightarrow> u32 \<Rightarrow> 16 word option" where
  "dithered_vol sample v = (
     let out = sint sample * sint v
     in if - (2 ^ 31) \<le> out \<and> out < 2 ^ 31 then Some (word_of_int (out div 2 ^ 16)) else None)"

declare resend_end.simps [simp del]

section \<open>Arithmetic of sequence numbers\<close>

text \<open>The forward distance from f to s, modulo 65536.\<close>

definition dist :: "u16 \<Rightarrow> u16 \<Rightarrow> nat" where
  "dist f s = unat (s - f)"

lemma dist_less: "dist f s < 65536"
  using unsigned_less [of "s - f"] by (simp add: dist_def)

lemma dist_self [simp]: "dist f f = 0"
  by (simp add: dist_def)

lemma dist_eq_0_iff: "dist f s = 0 \<longleftrightarrow> s = f"
  by (simp add: dist_def unat_eq_0)

lemma seq_by_dist: "s = f + of_nat (dist f s)"
  by (simp add: dist_def)

lemma dist_plus: "dist f (f + of_nat n) = n mod 65536"
  by (simp add: dist_def unsigned_of_nat take_bit_eq_mod)

lemma dist_inject: "dist f s = dist f t \<Longrightarrow> s = t"
  by (metis seq_by_dist)

lemma seqnum_cmp_dist:
  "seqnum_cmp s f = (if dist f s < 32768 then int (dist f s) else int (dist f s) - 65536)"
proof -
  have "seqnum_cmp s f = signed_take_bit 15 (int (dist f s))"
    by (simp add: seqnum_cmp_def dist_def signed_take_bit_eq sint_uint)
  also have "\<dots> = (int (dist f s) + 32768) mod 65536 - 32768"
    by (simp add: signed_take_bit_eq_take_bit_shift take_bit_eq_mod)
  also have "\<dots> = (if dist f s < 32768 then int (dist f s) else int (dist f s) - 65536)"
  proof (cases "dist f s < 32768")
    case False
    have "(int (dist f s) + 32768) mod 65536 = int (dist f s) + 32768 - 65536"
      using False dist_less [of f s] by (subst mod_pos_geq) auto
    then show ?thesis using False by simp
  qed simp
  finally show ?thesis .
qed

lemma slot_less [simp]: "slot s < 64"
  by (simp add: slot_def RAOP_BUFFER_LENGTH_def)

lemma slot_plus: "slot (f + of_nat n) = (unat f + n) mod 64"
proof -
  have "unat (f + of_nat n) = (unat f + n) mod 65536"
    by (simp add: unat_word_ariths unsigned_of_nat take_bit_eq_mod mod_add_right_eq)
  then show ?thesis
    by (simp add: slot_def RAOP_BUFFER_LENGTH_def mod_mod_cancel)
qed

lemma slot_inject:
  assumes "dist f s < 64" and "dist f t < 64" and "slot s = slot t"
  shows "s = t"
proof -
  have "(unat f + dist f s) mod 64 = (unat f + dist f t) mod 64"
    using assms(3) slot_plus [of f "dist f s"] slot_plus [of f "dist f t"] by (simp flip: seq_by_dist)
  then have "dist f s = dist f t"
    using assms(1,2) by (rule mod_window_inject)
  then show ?thesis by (rule dist_inject)
qed

lemma dist_Suc_first:
  assumes "s \<noteq> f"
  shows "dist (f + 1) s = dist f s - 1"
proof -
  have eq: "s - (f + 1) = (s - f) - 1" by simp
  have "s - f \<noteq> 0" using assms by simp
  then show ?thesis
    by (simp only: dist_def eq unat_minus_one [OF \<open>s - f \<noteq> 0\<close>])
qed

section \<open>Invariant\<close>

text \<open>
  The window: sequence numbers from \<^verbatim>\<open>first_seqnum\<close> to \<^verbatim>\<open>last_seqnum\<close>, at most 64 of them.  An
  entry that is available lies in its own slot, in the window.  Every block has the same
  size and its own part of the sound memory.
\<close>

definition window :: "('aes, 'alac, 'aac) raop_buffer \<Rightarrow> nat" where
  "window rb = (if is_empty rb then 0 else unat (last_seqnum rb - first_seqnum rb + 1))"

definition entry_ok :: "nat \<Rightarrow> u16 \<Rightarrow> nat \<Rightarrow> nat \<Rightarrow> raop_buffer_entry \<Rightarrow> bool" where
  "entry_ok sz f w i e \<longleftrightarrow>
     audio_buffer e = i * sz \<and> audio_buffer_size e = int sz \<and>
     0 \<le> audio_buffer_len e \<and> audio_buffer_len e \<le> int sz \<and>
     (available e \<longrightarrow> slot (seqnum e) = i \<and> dist f (seqnum e) < w)"

definition AAC_FRAME_BYTES :: nat where
  "AAC_FRAME_BYTES = 1920"

definition rb_inv :: "nat \<Rightarrow> ('aes, 'alac, 'aac) raop_buffer \<Rightarrow> bool" where
  "rb_inv sz rb \<longleftrightarrow>
     0 < sz \<and> 64 * sz < 2 ^ 31 \<and> length (entries rb) = 64 \<and>
     (\<exists>b. buffer rb = Some b \<and> length b = 64 * sz) \<and> buffer_size rb = int (64 * sz) \<and>
     window rb \<le> 64 \<and>
     (\<forall>i < 64. entry_ok sz (first_seqnum rb) (window rb) i (entries rb ! i)) \<and>
     pcm_pkt_size rb = int sz \<and>
     (codec (audio_config rb) = RAOP_AUDIO_CODEC_AAC_ELD \<longrightarrow> AAC_FRAME_BYTES \<le> sz)"

text \<open>
  What the buffer relies on: the decoders keep within the block they are given (the AAC
  decoder of a 480-sample stereo stream writes at most one frame), CBC decryption keeps the
  length, and \<^verbatim>\<open>realloc\<close>, when it succeeds, gives a block of the size asked for.
\<close>

definition codec_laws :: "('aes, 'alac, 'aac) codec_ops \<Rightarrow> bool" where
  "codec_laws ops \<longleftrightarrow>
     (\<forall>c p. length (op_aes_cbc_decrypt ops c p) = length p) \<and>
     (\<forall>d p blk r n blk' d'. op_alac_decode ops d p blk = (r, n, blk', d') \<longrightarrow>
        length blk' = length blk \<and> n \<le> length blk) \<and>
     (\<forall>d p n. length (fst (op_aac_decode ops d p n)) \<le> AAC_FRAME_BYTES) \<and>
     (\<forall>b n b'. op_realloc ops b n = Some b' \<longrightarrow> length b' = n)"

text \<open>What the buffer holds for a sequence number: the time stamp and the decoded sound.\<close>

definition lookup :: "('aes, 'alac, 'aac) raop_buffer \<Rightarrow> u16 \<Rightarrow> (u32 \<times> byte list) option" where
  "lookup rb s = (
     let e = entries rb ! slot s
     in if available e \<and> seqnum e = s
        then Some (timestamp e, take (nat (audio_buffer_len e)) (drop (audio_buffer e) (the (buffer rb))))
        else None)"

lemma entry_ok_mono:
  "entry_ok sz f w i e \<Longrightarrow> w \<le> w' \<Longrightarrow> entry_ok sz f w' i e"
  by (auto simp: entry_ok_def)

lemma rb_inv_entry:
  "rb_inv sz rb \<Longrightarrow> i < 64 \<Longrightarrow> entry_ok sz (first_seqnum rb) (window rb) i (entries rb ! i)"
  by (simp add: rb_inv_def)

lemma rb_inv_available:
  assumes "rb_inv sz rb" and "available (entries rb ! slot s)"
  shows "\<not> is_empty rb"
  using rb_inv_entry [OF assms(1), of "slot s"] assms(2)
  by (auto simp: entry_ok_def window_def)

lemma lookup_in_window:
  assumes "rb_inv sz rb" and "lookup rb s = Some v"
  shows "\<not> is_empty rb \<and> dist (first_seqnum rb) s < window rb"
  using rb_inv_entry [OF assms(1), of "slot s"] rb_inv_available [OF assms(1), of s] assms(2)
  by (auto simp: lookup_def entry_ok_def Let_def split: if_splits)

text \<open>In the window, an entry's availability is what \<^verbatim>\<open>lookup\<close> sees.\<close>

lemma available_iff_lookup:
  assumes inv: "rb_inv sz rb" and s: "dist (first_seqnum rb) s < 64"
  shows "available (entries rb ! slot s) \<longleftrightarrow> lookup rb s \<noteq> None"
proof
  assume a: "available (entries rb ! slot s)"
  have "entry_ok sz (first_seqnum rb) (window rb) (slot s) (entries rb ! slot s)"
    by (rule rb_inv_entry [OF inv slot_less])
  with a have "slot (seqnum (entries rb ! slot s)) = slot s"
    and "dist (first_seqnum rb) (seqnum (entries rb ! slot s)) < window rb"
    by (auto simp: entry_ok_def)
  moreover have "window rb \<le> 64" using inv by (simp add: rb_inv_def)
  ultimately have "seqnum (entries rb ! slot s) = s"
    using s by (intro slot_inject) auto
  with a show "lookup rb s \<noteq> None" by (simp add: lookup_def Let_def)
qed (auto simp: lookup_def Let_def split: if_splits)

section \<open>Flush\<close>

lemma window_flush [simp]: "window (raop_buffer_flush rb n) = 0"
  by (simp add: raop_buffer_flush_def window_def Let_def)

lemma flush_entries:
  "entries (raop_buffer_flush rb n) = map (\<lambda>e. e\<lparr>available := False, audio_buffer_len := 0\<rparr>) (entries rb)"
  by (simp add: raop_buffer_flush_def Let_def)

lemma flush_same [simp]:
  "buffer (raop_buffer_flush rb n) = buffer rb"
  "buffer_size (raop_buffer_flush rb n) = buffer_size rb"
  "pcm_pkt_size (raop_buffer_flush rb n) = pcm_pkt_size rb"
  "audio_config (raop_buffer_flush rb n) = audio_config rb"
  "phandle (raop_buffer_flush rb n) = phandle rb"
  "alac_decoder (raop_buffer_flush rb n) = alac_decoder rb"
  "aes_ctx_audio (raop_buffer_flush rb n) = aes_ctx_audio rb"
  "alac_decode_errors (raop_buffer_flush rb n) = alac_decode_errors rb"
  by (simp_all add: raop_buffer_flush_def Let_def)

lemma rb_inv_flush:
  assumes "rb_inv sz rb"
  shows "rb_inv sz (raop_buffer_flush rb n)"
  using assms by (simp add: rb_inv_def flush_entries entry_ok_def)

lemma lookup_flush:
  assumes "rb_inv sz rb"
  shows "lookup (raop_buffer_flush rb n) s = None"
  using assms by (simp add: lookup_def flush_entries rb_inv_def Let_def)

section \<open>Storing a packet\<close>

text \<open>The sound a packet yields, given the payload and the old content of its block.\<close>

definition queue_pcm ::
  "('aes, 'alac, 'aac) codec_ops \<Rightarrow> ('aes, 'alac, 'aac) raop_buffer \<Rightarrow> byte list \<Rightarrow> byte list \<Rightarrow> byte list" where
  "queue_pcm ops rb packetbuf block =
     (case codec (audio_config rb) of
        RAOP_AUDIO_CODEC_ALAC \<Rightarrow>
          (case op_alac_decode ops (alac_decoder rb) packetbuf block of
             (ret, n, block', _) \<Rightarrow> if ret = 0 \<and> n > 0 then take n block' else replicate (length block) 0)
      | RAOP_AUDIO_CODEC_AAC_ELD \<Rightarrow>
          (let out = fst (op_aac_decode ops
                 (the (if phandle rb = None then op_aac_open ops else phandle rb)) packetbuf (pcm_pkt_size rb))
           in out @ drop (length out) block))"

text \<open>The part of the state that storing a packet does not touch.\<close>

definition same_frame :: "('aes, 'alac, 'aac) raop_buffer \<Rightarrow> ('aes, 'alac, 'aac) raop_buffer \<Rightarrow> bool" where
  "same_frame rb rb' \<longleftrightarrow>
     is_empty rb' = is_empty rb \<and> first_seqnum rb' = first_seqnum rb \<and> last_seqnum rb' = last_seqnum rb \<and>
     buffer_size rb' = buffer_size rb \<and> pcm_pkt_size rb' = pcm_pkt_size rb \<and> audio_config rb' = audio_config rb"

text \<open>A block is stored: the entry's length and the block change, nothing else of the memory.\<close>

definition stored ::
  "nat \<Rightarrow> ('aes, 'alac, 'aac) raop_buffer \<Rightarrow> nat \<Rightarrow> byte list \<Rightarrow> ('aes, 'alac, 'aac) raop_buffer \<Rightarrow> bool" where
  "stored sz rb k pcm rb' \<longleftrightarrow>
     same_frame rb rb' \<and> length pcm \<le> sz \<and>
     entries rb' = (entries rb)[k := (entries rb ! k)\<lparr>audio_buffer_len := int (length pcm)\<rparr>] \<and>
     (\<exists>b b' src. buffer rb = Some b \<and> buffer rb' = Some b' \<and> length src \<le> sz \<and>
        memcpy b (k * sz) src = Some b' \<and> take (length pcm) (drop (k * sz) b') = pcm)"

lemma storedI:
  assumes "same_frame rb rb'" and "length pcm = n" and "n \<le> sz"
    and "entries rb' = (entries rb)[k := (entries rb ! k)\<lparr>audio_buffer_len := int n\<rparr>]"
    and "buffer rb = Some b" and "buffer rb' = Some b'" and "length src \<le> sz"
    and "memcpy b (k * sz) src = Some b'" and "take n (drop (k * sz) b') = pcm"
  shows "stored sz rb k pcm rb'"
  using assms unfolding stored_def by auto

text \<open>The layout part of the invariant, which holds in the middle of an operation too.\<close>

definition layout :: "nat \<Rightarrow> ('aes, 'alac, 'aac) raop_buffer \<Rightarrow> bool" where
  "layout sz rb \<longleftrightarrow> length (entries rb) = 64 \<and> (\<exists>b. buffer rb = Some b \<and> length b = 64 * sz) \<and>
     (\<forall>i < 64. audio_buffer (entries rb ! i) = i * sz \<and> audio_buffer_size (entries rb ! i) = int sz)"

lemma rb_inv_layout: "rb_inv sz rb \<Longrightarrow> layout sz rb"
  by (auto simp: rb_inv_def layout_def entry_ok_def)

lemma entry_block_ok:
  assumes "layout sz rb" and "k < 64" and "buffer rb = Some b"
  shows "entry_block rb k = Some (take sz (drop (k * sz) b))"
  using assms block_fits [of k 64 sz]
  by (auto simp: entry_block_def layout_def slice_def)

lemma entry_store_ok:
  assumes lay: "layout sz rb" and k: "k < 64" and len: "length bs \<le> sz"
  shows "\<exists>b b'. buffer rb = Some b \<and> memcpy b (k * sz) bs = Some b' \<and>
    entry_store rb k bs n =
      Some (rb\<lparr>buffer := Some b', entries := (entries rb)[k := (entries rb ! k)\<lparr>audio_buffer_len := n\<rparr>]\<rparr>)"
proof -
  obtain b where b: "buffer rb = Some b" "length b = 64 * sz"
    using lay by (auto simp: layout_def)
  then obtain b' where "memcpy b (k * sz) bs = Some b'"
    using len block_fits [OF k, of sz] by (auto simp: memcpy_def)
  with lay k b show ?thesis by (auto simp: entry_store_def layout_def)
qed

lemma queue_alac_stored:
  assumes lay: "layout sz rb" and laws: "codec_laws ops" and k: "k < 64"
    and cod: "codec (audio_config rb) = RAOP_AUDIO_CODEC_ALAC" and err: "alac_decode_errors rb + 1 < 2 ^ 31"
  shows "\<exists>b rb'. buffer rb = Some b \<and> queue_alac ops rb k p = Some rb' \<and>
    stored sz rb k (queue_pcm ops rb p (take sz (drop (k * sz) b))) rb'"
proof -
  obtain b where b: "buffer rb = Some b" "length b = 64 * sz" using lay by (auto simp: layout_def)
  let ?blk = "take sz (drop (k * sz) b)"
  have lblk: "length ?blk = sz" by (rule block_length [OF k b(2)])
  have blk: "entry_block rb k = Some ?blk" by (rule entry_block_ok [OF lay k b(1)])
  obtain r n blk' dec where d: "op_alac_decode ops (alac_decoder rb) p ?blk = (r, n, blk', dec)"
    by (cases "op_alac_decode ops (alac_decoder rb) p ?blk") auto
  then have l: "length blk' = sz" "n \<le> sz" using laws lblk unfolding codec_laws_def by metis+
  let ?rb = "rb\<lparr>alac_decoder := dec\<rparr>"
  have lay': "layout sz ?rb" using lay by (simp add: layout_def)
  have ent: "rd (entries rb) k = Some (entries rb ! k)" "audio_buffer_size (entries rb ! k) = int sz"
    using lay k by (auto simp: layout_def)
  show ?thesis
  proof (cases "r = 0 \<and> n > 0")
    case True
    obtain b' where "memcpy b (k * sz) blk' = Some b'"
      and "entry_store ?rb k blk' (int n) = Some (?rb\<lparr>buffer := Some b',
             entries := (entries rb)[k := (entries rb ! k)\<lparr>audio_buffer_len := int n\<rparr>]\<rparr>)"
      using entry_store_ok [OF lay' k, of blk' "int n"] b l by auto
    with True show ?thesis
      using b blk d ent l cod memcpy_block [of b "k * sz" blk' b' n]
      by (auto simp: queue_alac_def queue_pcm_def stored_def same_frame_def memcpy_Some_iff min_def)
  next
    case False
    let ?z = "replicate sz (0 :: byte)"
    obtain b' where "memcpy b (k * sz) ?z = Some b'"
      and "entry_store ?rb k ?z (int sz) = Some (?rb\<lparr>buffer := Some b',
             entries := (entries rb)[k := (entries rb ! k)\<lparr>audio_buffer_len := int sz\<rparr>]\<rparr>)"
      using entry_store_ok [OF lay' k, of ?z "int sz"] b by auto
    note m = this
    let ?rb' = "?rb\<lparr>buffer := Some b', alac_decode_errors := alac_decode_errors rb + 1,
             entries := (entries rb)[k := (entries rb ! k)\<lparr>audio_buffer_len := int sz\<rparr>]\<rparr>"
    have "queue_alac ops rb k p = Some ?rb'"
      using False b blk d ent m err by (auto simp: queue_alac_def)
    moreover have "queue_pcm ops rb p ?blk = ?z"
      using False d cod lblk by (auto simp: queue_pcm_def)
    moreover have "stored sz rb k ?z ?rb'"
      using b m memcpy_same [OF m(1)] by (intro storedI [of _ _ _ sz _ _ b b' ?z]) (auto simp: same_frame_def)
    ultimately show ?thesis using b by auto
  qed
qed

lemma queue_aac_stored:
  assumes inv: "layout sz rb" and laws: "codec_laws ops" and k: "k < 64"
    and cod: "codec (audio_config rb) = RAOP_AUDIO_CODEC_AAC_ELD"
    and pcm: "pcm_pkt_size rb = int sz" and frame: "AAC_FRAME_BYTES \<le> sz"
    and dec: "phandle rb \<noteq> None \<or> op_aac_open ops \<noteq> None"
  shows "\<exists>b rb'. buffer rb = Some b \<and> queue_aac ops rb k p = Some (0, rb') \<and>
    stored sz rb k (queue_pcm ops rb p (take sz (drop (k * sz) b))) rb'"
proof -
  obtain b where b: "buffer rb = Some b" "length b = 64 * sz" using inv by (auto simp: layout_def)
  let ?blk = "take sz (drop (k * sz) b)"
  have lblk: "length ?blk = sz" by (rule block_length [OF k b(2)])
  let ?rb = "if phandle rb = None then rb\<lparr>phandle := op_aac_open ops\<rparr> else rb"
  obtain d where d: "phandle ?rb = Some d" using dec by (cases "phandle rb") auto
  obtain out d' where o: "op_aac_decode ops d p (int sz) = (out, d')"
    by (cases "op_aac_decode ops d p (int sz)") auto
  then have "length out \<le> AAC_FRAME_BYTES" using laws by (metis codec_laws_def fst_conv)
  with frame have len: "length out \<le> sz" by simp
  have lay': "layout sz (?rb\<lparr>phandle := Some d'\<rparr>)" using inv by (simp add: layout_def)
  obtain b' where m: "memcpy b (k * sz) out = Some b'"
    and st: "entry_store (?rb\<lparr>phandle := Some d'\<rparr>) k out (int sz) = Some (?rb\<lparr>phandle := Some d', buffer := Some b',
             entries := (entries rb)[k := (entries rb ! k)\<lparr>audio_buffer_len := int sz\<rparr>]\<rparr>)"
    using entry_store_ok [OF lay' k len, of "int sz"] b by (auto split: if_splits)
  have q: "queue_pcm ops rb p ?blk = out @ drop (length out) ?blk"
    using cod d o pcm by (auto simp: queue_pcm_def Let_def split: if_splits)
  have l: "length (out @ drop (length out) ?blk) = sz" using len lblk by simp
  have "queue_aac ops rb k p = Some (0, ?rb\<lparr>phandle := Some d', buffer := Some b',
             entries := (entries rb)[k := (entries rb ! k)\<lparr>audio_buffer_len := int sz\<rparr>]\<rparr>)"
    using d o st pcm by (auto simp: queue_aac_def Let_def split: if_splits)
  moreover have "take sz (drop (k * sz) b') = out @ drop (length out) ?blk"
    by (rule memcpy_block [OF m len])
  moreover from this have "stored sz rb k (queue_pcm ops rb p ?blk) (?rb\<lparr>phandle := Some d', buffer := Some b',
             entries := (entries rb)[k := (entries rb ! k)\<lparr>audio_buffer_len := int sz\<rparr>]\<rparr>)"
    unfolding q using b m len l
    by (intro storedI [of _ _ _ sz _ _ b b' out]) (auto simp: same_frame_def)
  ultimately show ?thesis using b by blast
qed

section \<open>The window after a packet\<close>

lemma seqnum_cmp_int:
  assumes "s - l = (word_of_int k :: u16)" and "-32768 \<le> k" and "k < 32768"
  shows "seqnum_cmp s l = k"
proof -
  have "seqnum_cmp s l = signed_take_bit 15 k"
    by (simp add: seqnum_cmp_def assms(1) signed_of_int)
  also have "\<dots> = k"
    using assms(2,3) by (intro signed_take_bit_int_eq_self) auto
  finally show ?thesis .
qed

text \<open>Comparing a sequence number at distance d with one at distance n.\<close>

lemma seqnum_cmp_from:
  assumes "int (dist f s) - int n < 32768" and "-32768 \<le> int (dist f s) - int n"
  shows "seqnum_cmp s (f + of_nat n) = int (dist f s) - int n"
proof (rule seqnum_cmp_int [OF _ assms(2,1)])
  have "s - (f + of_nat n) = (of_nat (dist f s) :: u16) - of_nat n"
    by (simp add: dist_def)
  then show "s - (f + of_nat n) = word_of_int (int (dist f s) - int n)"
    by simp
qed

lemma last_of_window:
  assumes "\<not> is_empty rb"
  shows "last_seqnum rb + 1 = first_seqnum rb + of_nat (window rb)"
  using assms by (simp add: window_def)

lemma update_seqnums_same [simp]:
  "entries (queue_update_seqnums rb s) = entries rb"
  "buffer (queue_update_seqnums rb s) = buffer rb"
  "buffer_size (queue_update_seqnums rb s) = buffer_size rb"
  "pcm_pkt_size (queue_update_seqnums rb s) = pcm_pkt_size rb"
  "audio_config (queue_update_seqnums rb s) = audio_config rb"
  by (simp_all add: queue_update_seqnums_def Let_def)

lemma update_seqnums_empty:
  assumes "is_empty rb"
  shows "first_seqnum (queue_update_seqnums rb s) = s \<and> window (queue_update_seqnums rb s) = 1 \<and>
    \<not> is_empty (queue_update_seqnums rb s)"
  using assms by (simp add: queue_update_seqnums_def window_def seqnum_cmp_dist)

lemma update_seqnums_window:
  assumes ne: "\<not> is_empty rb" and w: "window rb \<le> 64" and d: "dist (first_seqnum rb) s < 64"
  shows "first_seqnum (queue_update_seqnums rb s) = first_seqnum rb \<and>
    window (queue_update_seqnums rb s) = max (window rb) (dist (first_seqnum rb) s + 1) \<and>
    \<not> is_empty (queue_update_seqnums rb s)"
proof -
  let ?f = "first_seqnum rb" and ?l = "last_seqnum rb"
  have "s - ?l = (s - ?f) - (?l + 1 - ?f) + 1" by simp
  also have "?l + 1 - ?f = of_nat (window rb)" using last_of_window [OF ne] by simp
  also have "s - ?f = of_nat (dist ?f s)" by (simp add: dist_def)
  finally have sl: "s - ?l = word_of_int (int (dist ?f s) - int (window rb) + 1)" by simp
  have cmp: "seqnum_cmp s ?l = int (dist ?f s) - int (window rb) + 1"
    using w d by (intro seqnum_cmp_int [OF sl]) auto
  have full: "unat (s - ?f + 1) = dist ?f s + 1"
    using d unat_plus_nowrap [of "s - ?f" 1] by (simp add: dist_def)
  show ?thesis
  proof (cases "window rb \<le> dist ?f s")
    case True
    then have "0 < seqnum_cmp s ?l" using cmp by simp
    then have "queue_update_seqnums rb s = rb\<lparr>last_seqnum := s\<rparr>"
      using ne by (simp add: queue_update_seqnums_def)
    then show ?thesis using ne True full by (simp add: window_def)
  next
    case False
    then have "\<not> 0 < seqnum_cmp s ?l" using cmp by simp
    then have "queue_update_seqnums rb s = rb" using ne by (simp add: queue_update_seqnums_def)
    then show ?thesis using False ne by simp
  qed
qed

section \<open>Effect of queueing\<close>

definition queue_seq :: "byte list \<Rightarrow> u16" where
  "queue_seq recvbuf = be16 (recvbuf ! 2) (recvbuf ! 3)"

definition queue_timestamp :: "byte list \<Rightarrow> u32" where
  "queue_timestamp recvbuf = be32 (recvbuf ! 4) (recvbuf ! 5) (recvbuf ! 6) (recvbuf ! 7)"

text \<open>The sound of a packet, from the payload and the block of its slot.\<close>

definition packet_pcm ::
  "('aes, 'alac, 'aac) codec_ops \<Rightarrow> nat \<Rightarrow> ('aes, 'alac, 'aac) raop_buffer \<Rightarrow> byte list \<Rightarrow> u16 \<Rightarrow> byte list" where
  "packet_pcm ops sz rb data s =
     queue_pcm ops rb (queue_decrypt ops (aes_ctx_audio rb) (drop 12 data))
       (take sz (drop (slot s * sz) (the (buffer rb))))"

text \<open>A decoder is there, or can be opened, and the error counter is not about to overflow.\<close>

definition decoder_ready :: "('aes, 'alac, 'aac) codec_ops \<Rightarrow> ('aes, 'alac, 'aac) raop_buffer \<Rightarrow> bool" where
  "decoder_ready ops rb \<longleftrightarrow>
     (case codec (audio_config rb) of
        RAOP_AUDIO_CODEC_ALAC \<Rightarrow> alac_decode_errors rb + 1 < 2 ^ 31
      | RAOP_AUDIO_CODEC_AAC_ELD \<Rightarrow> phandle rb \<noteq> None \<or> op_aac_open ops \<noteq> None)"

lemma decoder_ready_flush [simp]: "decoder_ready ops (raop_buffer_flush rb n) = decoder_ready ops rb"
  by (cases "codec (audio_config rb)") (simp_all add: decoder_ready_def)

text \<open>Storing a packet whose sequence number is in the window (or the buffer empty).\<close>

lemma queue_accept_stored:
  assumes inv: "rb_inv sz rb" and laws: "codec_laws ops" and rdy: "decoder_ready ops rb"
  shows "\<exists>rb1 rb'. queue_accept ops rb data s = Some (1, queue_update_seqnums rb' s) \<and>
    rb1 = rb\<lparr>entries := (entries rb)[slot s := queue_header (entries rb ! slot s) data s]\<rparr> \<and>
    stored sz rb1 (slot s) (packet_pcm ops sz rb data s) rb'"
proof -
  let ?k = "slot s"
  let ?rb1 = "rb\<lparr>entries := (entries rb)[?k := queue_header (entries rb ! ?k) data s]\<rparr>"
  let ?p = "queue_decrypt ops (aes_ctx_audio rb) (drop 12 data)"
  have lay0: "layout sz rb" by (rule rb_inv_layout [OF inv])
  have lay: "layout sz ?rb1"
    using lay0 by (auto simp: layout_def queue_header_def nth_list_update)
  have k: "?k < 64" by simp
  have e: "rd (entries rb) ?k = Some (entries rb ! ?k)" using lay0 by (simp add: layout_def)
  have pcm: "queue_pcm ops ?rb1 p blk = queue_pcm ops rb p blk" for p blk
    by (cases "codec (audio_config rb)") (simp_all add: queue_pcm_def Let_def)
  show ?thesis
  proof (cases "codec (audio_config rb)")
    case RAOP_AUDIO_CODEC_ALAC
    then obtain b rb' where "buffer ?rb1 = Some b" "queue_alac ops ?rb1 ?k ?p = Some rb'"
      "stored sz ?rb1 ?k (queue_pcm ops ?rb1 ?p (take sz (drop (?k * sz) b))) rb'"
      using queue_alac_stored [OF lay laws k, of ?p] rdy by (auto simp: decoder_ready_def)
    then show ?thesis
      using RAOP_AUDIO_CODEC_ALAC e
      by (auto simp: queue_accept_def Let_def packet_pcm_def pcm)
  next
    case RAOP_AUDIO_CODEC_AAC_ELD
    then obtain b rb' where "buffer ?rb1 = Some b" "queue_aac ops ?rb1 ?k ?p = Some (0, rb')"
      "stored sz ?rb1 ?k (queue_pcm ops ?rb1 ?p (take sz (drop (?k * sz) b))) rb'"
      using queue_aac_stored [OF lay laws k, of ?p] rdy inv
      by (auto simp: decoder_ready_def rb_inv_def)
    then show ?thesis
      using RAOP_AUDIO_CODEC_AAC_ELD e
      by (auto simp: queue_accept_def Let_def packet_pcm_def pcm)
  qed
qed

text \<open>The window takes in the new sequence number, nothing falls out of it.\<close>

lemma window_after_store:
  assumes inv: "rb_inv sz rb" and d: "is_empty rb \<or> dist (first_seqnum rb) s < 64"
    and fr: "same_frame rb rb2" and rb': "rb' = queue_update_seqnums rb2 s"
  shows "first_seqnum rb' = (if is_empty rb then s else first_seqnum rb) \<and> \<not> is_empty rb' \<and>
      window rb' \<le> 64 \<and> window rb \<le> window rb' \<and> dist (first_seqnum rb') s < window rb'"
proof (cases "is_empty rb")
  case True
  then have "window rb = 0" by (simp add: window_def)
  then show ?thesis
    using True fr update_seqnums_empty [of rb2 s] by (simp add: rb' same_frame_def)
next
  case False
  have "window rb2 = window rb" using fr by (simp add: window_def same_frame_def)
  then show ?thesis
    using False d fr update_seqnums_window [of rb2 s] inv
    by (auto simp: rb' same_frame_def rb_inv_def)
qed

text \<open>A store adds one packet to what \<^verbatim>\<open>lookup\<close> sees.\<close>

lemma lookup_after_store:
  assumes inv: "rb_inv sz rb" and d: "is_empty rb \<or> dist (first_seqnum rb) s < 64"
    and ents: "entries rb' = (entries rb)[slot s := e]"
    and e: "available e" "seqnum e = s" "audio_buffer e = slot s * sz" "audio_buffer_len e = int (length pcm)"
    and b: "buffer rb = Some b" "buffer rb' = Some b'" "length src \<le> sz" "memcpy b (slot s * sz) src = Some b'"
      "take (length pcm) (drop (slot s * sz) b') = pcm"
  shows "lookup rb' = (lookup rb)(s \<mapsto> (timestamp e, pcm))"
proof
  have len: "length (entries rb) = 64" using inv by (simp add: rb_inv_def)
  fix t
  show "lookup rb' t = ((lookup rb)(s \<mapsto> (timestamp e, pcm))) t"
  proof (cases "slot t = slot s")
    case True
    have "lookup rb t = None" if "t \<noteq> s"
    proof (rule ccontr)
      assume "lookup rb t \<noteq> None"
      then have "\<not> is_empty rb \<and> dist (first_seqnum rb) t < 64"
        using lookup_in_window [OF inv] inv by (fastforce simp: rb_inv_def)
      then show False using slot_inject [of "first_seqnum rb" s t] d that True by auto
    qed
    then show ?thesis using True e b len by (auto simp: lookup_def ents)
  next
    case False
    then have "entries rb' ! slot t = entries rb ! slot t" and "t \<noteq> s" using len by (auto simp: ents)
    moreover have "take n (drop (slot t * sz) b') = take n (drop (slot t * sz) b)" if "n \<le> sz" for n
      using b that False by (intro memcpy_other_block) auto
    ultimately show ?thesis
      using rb_inv_entry [OF inv slot_less, of t] b by (auto simp: lookup_def entry_ok_def Let_def)
  qed
qed

text \<open>The state a stored packet leaves: invariant, the new packet, the others.\<close>

lemma queue_stored_state:
  assumes inv: "rb_inv sz rb" and d: "is_empty rb \<or> dist (first_seqnum rb) s < 64"
    and rb1: "rb1 = rb\<lparr>entries := (entries rb)[slot s := queue_header (entries rb ! slot s) data s]\<rparr>"
    and st: "stored sz rb1 (slot s) pcm rb2" and rb': "rb' = queue_update_seqnums rb2 s"
  shows "rb_inv sz rb' \<and> \<not> is_empty rb' \<and>
    first_seqnum rb' = (if is_empty rb then s else first_seqnum rb) \<and>
    lookup rb' = (lookup rb)(s \<mapsto> (queue_timestamp data, pcm))"
proof -
  let ?k = "slot s"
  have len: "length (entries rb) = 64" using inv by (auto simp: rb_inv_def)
  have fr: "same_frame rb rb2" using st by (auto simp: stored_def same_frame_def rb1)
  define e where "e = (queue_header (entries rb ! ?k) data s)\<lparr>audio_buffer_len := int (length pcm)\<rparr>"
  have ents: "entries rb' = (entries rb)[?k := e]"
    using st len by (simp add: stored_def rb1 e_def rb')
  obtain b b2 src where b: "buffer rb = Some b" "buffer rb' = Some b2" "length src \<le> sz"
    "memcpy b (?k * sz) src = Some b2" "take (length pcm) (drop (?k * sz) b2) = pcm"
    using st by (auto simp: stored_def rb1 rb')
  have old: "entry_ok sz (first_seqnum rb) (window rb) i (entries rb ! i)" if "i < 64" for i
    by (rule rb_inv_entry [OF inv that])
  have e_ok: "audio_buffer e = ?k * sz" "audio_buffer_size e = int sz" "available e" "seqnum e = s"
      "audio_buffer_len e = int (length pcm)" "timestamp e = queue_timestamp data"
    using old [of ?k] by (simp_all add: e_def queue_header_def entry_ok_def queue_timestamp_def)
  note w = window_after_store [OF inv d fr rb']
  have "entry_ok sz (first_seqnum rb') (window rb') i (entries rb' ! i)" if i: "i < 64" for i
  proof (cases "i = ?k")
    case True
    then show ?thesis using e_ok st w len by (auto simp: entry_ok_def ents stored_def)
  next
    case False
    then have "entries rb' ! i = entries rb ! i" using len by (simp add: ents)
    then show ?thesis
      using old [OF i] w by (cases "is_empty rb") (auto simp: entry_ok_def window_def [of rb])
  qed
  moreover have ents_len: "length (entries rb') = 64" using ents len by simp
  ultimately have "rb_inv sz rb'"
    using inv w fr b memcpy_length [OF b(4)] ents_len by (auto simp: rb_inv_def rb' same_frame_def)
  then show ?thesis
    using w e_ok lookup_after_store [OF inv d ents e_ok(3,4,1,5) b] by simp
qed

text \<open>
  One call, on a state that satisfies the invariant: whether the packet is stored, and the
  state it is stored in (after the flush a packet from far ahead forces).
\<close>

definition queue_stores :: "('aes, 'alac, 'aac) raop_buffer \<Rightarrow> byte list \<Rightarrow> u16 \<Rightarrow> bool" where
  "queue_stores rb recvbuf datalen \<longleftrightarrow>
     12 \<le> unat datalen \<and> unat datalen \<le> RAOP_PACKET_LEN \<and>
     \<not> (datalen = 16 \<and> drop 12 (take (unat datalen) recvbuf) = [0, 0x68, 0x34, 0]) \<and>
     (is_empty rb \<or> dist (first_seqnum rb) (queue_seq recvbuf) < 32768) \<and>
     lookup rb (queue_seq recvbuf) = None"

definition queue_flushes :: "('aes, 'alac, 'aac) raop_buffer \<Rightarrow> byte list \<Rightarrow> bool" where
  "queue_flushes rb recvbuf \<longleftrightarrow>
     \<not> is_empty rb \<and> 64 \<le> dist (first_seqnum rb) (queue_seq recvbuf)"

definition queue_base ::
  "('aes, 'alac, 'aac) raop_buffer \<Rightarrow> byte list \<Rightarrow> ('aes, 'alac, 'aac) raop_buffer" where
  "queue_base rb recvbuf =
     (if seqnum_cmp (queue_seq recvbuf) (first_seqnum rb + word_of_nat RAOP_BUFFER_LENGTH) \<ge> 0
      then raop_buffer_flush rb (uint (queue_seq recvbuf)) else rb)"

lemma lookup_empty:
  assumes "rb_inv sz rb" and "is_empty rb"
  shows "lookup rb = Map.empty"
  using lookup_in_window [OF assms(1)] assms(2) by (metis option.exhaust)

lemma queue_base_facts:
  assumes inv: "rb_inv sz rb" and c: "is_empty rb \<or> dist (first_seqnum rb) (queue_seq recvbuf) < 32768"
  shows "rb_inv sz (queue_base rb recvbuf) \<and>
    (is_empty (queue_base rb recvbuf) \<or> dist (first_seqnum (queue_base rb recvbuf)) (queue_seq recvbuf) < 64) \<and>
    is_empty (queue_base rb recvbuf) = is_empty rb \<and>
    lookup (queue_base rb recvbuf) = (if queue_flushes rb recvbuf then Map.empty else lookup rb) \<and>
    (\<not> is_empty rb \<longrightarrow> first_seqnum (queue_base rb recvbuf) =
       (if queue_flushes rb recvbuf then queue_seq recvbuf else first_seqnum rb))"
proof -
  let ?s = "queue_seq recvbuf" and ?f = "first_seqnum rb"
  have fl: "is_empty (raop_buffer_flush rb (uint ?s)) = is_empty rb \<and>
      first_seqnum (raop_buffer_flush rb (uint ?s)) = ?s"
    using uint_lt2p [of ?s] by (simp add: raop_buffer_flush_def Let_def)
  have lk: "lookup (raop_buffer_flush rb n) = Map.empty" for n
    using lookup_flush [OF inv] by auto
  have cmp: "0 \<le> seqnum_cmp ?s (?f + word_of_nat RAOP_BUFFER_LENGTH) \<longleftrightarrow> 64 \<le> dist ?f ?s"
    if "\<not> is_empty rb"
    using c that seqnum_cmp_from [of ?f ?s 64] by (simp add: RAOP_BUFFER_LENGTH_def)
  show ?thesis
  proof (cases "is_empty rb")
    case True
    then show ?thesis
      using inv fl lk lookup_empty [OF inv True] by (simp add: queue_base_def rb_inv_flush queue_flushes_def)
  next
    case False
    then show ?thesis
      using inv fl lk cmp by (simp add: queue_base_def rb_inv_flush queue_flushes_def)
  qed
qed

text \<open>The duplicate test sees what \<^verbatim>\<open>lookup\<close> sees.\<close>

lemma duplicate_iff:
  "(available (entries rb ! slot s) \<and> seqnum_cmp (seqnum (entries rb ! slot s)) s = 0) \<longleftrightarrow> lookup rb s \<noteq> None"
proof -
  have "seqnum_cmp t s = 0 \<longleftrightarrow> t = s" for t
    using dist_less [of s t] dist_eq_0_iff [of s t] by (auto simp: seqnum_cmp_dist split: if_splits)
  then show ?thesis by (auto simp: lookup_def Let_def)
qed

lemma queue_take_head:
  assumes "12 \<le> n" and "n \<le> length recvbuf" and "i < 12"
  shows "take n recvbuf ! i = recvbuf ! i"
  using assms by simp

lemma raop_buffer_queue_cases:
  assumes inv: "rb_inv sz rb" and len: "unat datalen \<le> length recvbuf"
  shows "raop_buffer_queue ops rb recvbuf datalen =
    (if queue_stores rb recvbuf datalen
     then queue_accept ops (queue_base rb recvbuf) (take (unat datalen) recvbuf) (queue_seq recvbuf)
     else if unat datalen < 12 \<or> unat datalen > RAOP_PACKET_LEN then Some (-1, rb)
     else Some (0, rb))"
proof (cases "unat datalen < 12 \<or> unat datalen > RAOP_PACKET_LEN")
  case True
  then show ?thesis by (auto simp: raop_buffer_queue_def queue_stores_def)
next
  case False
  let ?data = "take (unat datalen) recvbuf" and ?s = "queue_seq recvbuf"
  let ?silent = "datalen = 16 \<and> drop 12 ?data = [0, 0x68, 0x34, 0]"
  let ?late = "\<not> is_empty rb \<and> seqnum_cmp ?s (first_seqnum rb) < 0"
  have s: "be16 (?data ! 2) (?data ! 3) = ?s"
    using False len by (simp add: queue_seq_def queue_take_head)
  have sl: "slice 0 (unat datalen) recvbuf = Some ?data" using len by (simp add: slice_def)
  have late: "?late \<longleftrightarrow> \<not> (is_empty rb \<or> dist (first_seqnum rb) ?s < 32768)"
    using dist_less [of "first_seqnum rb" ?s] by (auto simp: seqnum_cmp_dist)
  have step: "raop_buffer_queue ops rb recvbuf datalen =
      (if ?silent then Some (0, rb) else if ?late then Some (0, rb)
       else do {
         e \<leftarrow> rd (entries (queue_base rb recvbuf)) (slot ?s);
         if available e \<and> seqnum_cmp (seqnum e) ?s = 0 then Some (0, queue_base rb recvbuf)
         else queue_accept ops (queue_base rb recvbuf) ?data ?s
       })"
    by (simp only: raop_buffer_queue_def Let_def False if_False sl Option.bind.simps s queue_base_def)
  show ?thesis
  proof (cases "?silent \<or> ?late")
    case True
    then show ?thesis
      using False late unfolding step queue_stores_def by auto
  next
    case ok: False
    then have late': "is_empty rb \<or> dist (first_seqnum rb) ?s < 32768" using late by blast
    note base = queue_base_facts [OF inv late']
    have "rd (entries (queue_base rb recvbuf)) (slot ?s) = Some (entries (queue_base rb recvbuf) ! slot ?s)"
      using base by (simp add: rb_inv_def)
    then have "raop_buffer_queue ops rb recvbuf datalen =
        (if lookup (queue_base rb recvbuf) ?s \<noteq> None then Some (0, queue_base rb recvbuf)
         else queue_accept ops (queue_base rb recvbuf) ?data ?s)"
      using ok duplicate_iff [of "queue_base rb recvbuf" ?s] unfolding step by auto
    moreover have "queue_base rb recvbuf = rb" if "lookup (queue_base rb recvbuf) ?s \<noteq> None"
      using that lookup_flush [OF inv] by (auto simp: queue_base_def split: if_splits)
    moreover have "lookup rb ?s = None" if "queue_flushes rb recvbuf"
      using that lookup_in_window [OF inv, of ?s] inv
      by (cases "lookup rb ?s") (auto simp: queue_flushes_def rb_inv_def)
    ultimately show ?thesis
      using False ok base late' by (auto simp: queue_stores_def split: if_splits)
  qed
qed

lemma raop_buffer_queue_stored:
  assumes inv: "rb_inv sz rb" and laws: "codec_laws ops" and rdy: "decoder_ready ops rb"
    and len: "unat datalen \<le> length recvbuf" and st: "queue_stores rb recvbuf datalen"
  shows "\<exists>rb'. raop_buffer_queue ops rb recvbuf datalen = Some (1, rb') \<and> rb_inv sz rb' \<and> \<not> is_empty rb' \<and>
    first_seqnum rb' = (if is_empty rb \<or> queue_flushes rb recvbuf then queue_seq recvbuf else first_seqnum rb) \<and>
    lookup rb' = (if queue_flushes rb recvbuf then Map.empty else lookup rb)
      (queue_seq recvbuf \<mapsto> (queue_timestamp recvbuf,
         packet_pcm ops sz (queue_base rb recvbuf) (take (unat datalen) recvbuf) (queue_seq recvbuf)))"
proof -
  let ?base = "queue_base rb recvbuf" and ?s = "queue_seq recvbuf" and ?data = "take (unat datalen) recvbuf"
  have "is_empty rb \<or> dist (first_seqnum rb) ?s < 32768" using st by (auto simp: queue_stores_def)
  note base = queue_base_facts [OF inv this]
  have "decoder_ready ops ?base" using rdy by (simp add: queue_base_def)
  then obtain rb1 rb2 where q: "queue_accept ops ?base ?data ?s = Some (1, queue_update_seqnums rb2 ?s)"
    and rb1: "rb1 = ?base\<lparr>entries := (entries ?base)[slot ?s := queue_header (entries ?base ! slot ?s) ?data ?s]\<rparr>"
    and sto: "stored sz rb1 (slot ?s) (packet_pcm ops sz ?base ?data ?s) rb2"
    using queue_accept_stored [of sz ?base ops ?data ?s] base laws by blast
  have ts: "queue_timestamp ?data = queue_timestamp recvbuf"
    using st len by (simp add: queue_timestamp_def queue_stores_def queue_take_head)
  have "rb_inv sz ?base" and "is_empty ?base \<or> dist (first_seqnum ?base) ?s < 64" using base by blast+
  note new = queue_stored_state [OF this rb1 sto refl, unfolded ts]
  have "raop_buffer_queue ops rb recvbuf datalen = Some (1, queue_update_seqnums rb2 ?s)"
    using st q unfolding raop_buffer_queue_cases [OF inv len] by simp
  moreover have "is_empty rb \<Longrightarrow> \<not> queue_flushes rb recvbuf" by (simp add: queue_flushes_def)
  ultimately show ?thesis
    using new base by (intro exI [of _ "queue_update_seqnums rb2 ?s"]) auto
qed


text \<open>C11: Queueing refines insertion into a map from sequence numbers to time stamp and sound: a
  fresh packet that is not late is added under its sequence number with the time stamp of its
  header and the decoded sound, everything else the buffer holds stays (or is dropped as a whole
  when the packet lies 64 or more ahead of the playing position).\<close>

theorem raop_buffer_queue_refines:
  assumes "rb_inv sz rb" and "codec_laws ops" and "decoder_ready ops rb"
    and "unat datalen \<le> length recvbuf" and "queue_stores rb recvbuf datalen"
  shows "\<exists>rb'. raop_buffer_queue ops rb recvbuf datalen = Some (1, rb') \<and> \<not> is_empty rb' \<and>
    first_seqnum rb' = (if is_empty rb \<or> queue_flushes rb recvbuf then queue_seq recvbuf else first_seqnum rb) \<and>
    lookup rb' = (if queue_flushes rb recvbuf then Map.empty else lookup rb)
      (queue_seq recvbuf \<mapsto> (queue_timestamp recvbuf,
         packet_pcm ops sz (queue_base rb recvbuf) (take (unat datalen) recvbuf) (queue_seq recvbuf)))"
  using raop_buffer_queue_stored [OF assms] by blast

section \<open>Initialisation and configuration\<close>

lemma nth_relayout:
  "length es = n \<Longrightarrow> i < n \<Longrightarrow> map (\<lambda>(j, e). f j e) (enumerate 0 es) ! i = f i (es ! i)"
  by (simp add: nth_enumerate_eq)

text \<open>After sizing, whatever was there before, the blocks lie one after the other.\<close>

definition sized ::
  "nat \<Rightarrow> ('aes, 'alac, 'aac) raop_buffer \<Rightarrow> ('aes, 'alac, 'aac) raop_buffer \<Rightarrow> bool" where
  "sized sz rb rb' \<longleftrightarrow>
     length (entries rb') = 64 \<and> window rb' = 0 \<and> is_empty rb' = is_empty rb \<and>
     (\<exists>b. buffer rb' = Some b \<and> length b = 64 * sz) \<and> buffer_size rb' = int (64 * sz) \<and>
     (\<forall>i<64. entry_ok sz (first_seqnum rb') 0 i (entries rb' ! i)) \<and>
     phandle rb' = phandle rb \<and> alac_decoder rb' = alac_decoder rb \<and>
     pcm_pkt_size rb' = pcm_pkt_size rb \<and> audio_config rb' = audio_config rb"

lemma set_audio_buffer_size_ok:
  assumes laws: "codec_laws ops" and len: "length (entries rb) = 64"
    and sz: "0 < sz" "64 * sz < 2 ^ 31"
    and buf: "\<forall>b. buffer rb = Some b \<longrightarrow> int (length b) = buffer_size rb"
    and quiet: "\<forall>i<64. \<not> available (entries rb ! i) \<and> audio_buffer_len (entries rb ! i) = 0"
    and win: "window rb = 0"
  shows "\<exists>r rb'. raop_buffer_set_audio_buffer_size ops rb (int sz) = Some (r, rb') \<and>
    (r = -1 \<and> rb' = rb \<or> r = 0 \<and> sized sz rb rb')"
proof -
  have tot: "int sz * 64 < 2147483648" "nat (int sz * 64) = 64 * sz" using sz by auto
  note set = raop_buffer_set_audio_buffer_size_def RAOP_BUFFER_LENGTH_def
  show ?thesis
  proof (cases "buffer rb \<noteq> None \<and> buffer_size rb = int sz * 64")
    case True
    let ?rb = "rb\<lparr>entries := map (\<lambda>(i, e). e\<lparr>audio_buffer_size := int sz, audio_buffer := i * sz\<rparr>)
               (enumerate 0 (entries rb))\<rparr>"
    have "raop_buffer_set_audio_buffer_size ops rb (int sz) = Some (0, ?rb)"
      using True sz tot by (simp add: set)
    moreover have "sized sz rb ?rb"
      using True sz tot len buf quiet win by (auto simp: sized_def nth_enumerate_eq entry_ok_def window_def)
    ultimately show ?thesis by blast
  next
    case False
    show ?thesis
    proof (cases "op_realloc ops (buffer rb) (64 * sz)")
      case None
      then show ?thesis using False sz tot by (auto simp: set Let_def)
    next
      case (Some b)
      let ?rb = "rb\<lparr>buffer := Some b, buffer_size := int sz * 64,
                 entries := map (\<lambda>(i, e). e\<lparr>audio_buffer_size := int sz, audio_buffer_len := 0,
                                             audio_buffer := i * sz\<rparr>) (enumerate 0 (entries rb))\<rparr>"
      have "raop_buffer_set_audio_buffer_size ops rb (int sz) = Some (0, ?rb)"
        using False Some sz tot by (auto simp: set Let_def)
      moreover have "length b = 64 * sz" using laws Some by (auto simp: codec_laws_def)
      then have "sized sz rb ?rb"
        using sz len quiet win by (auto simp: sized_def nth_enumerate_eq entry_ok_def window_def)
      ultimately show ?thesis by blast
    qed
  qed
qed

text \<open>A jitter buffer that \<^verbatim>\<open>raop_buffer_init\<close> returns satisfies the invariant with blocks of one AAC-ELD
  frame, is empty and holds nothing; it fails exactly when memory or the decoder is refused.\<close>

theorem raop_buffer_init_inv:
  assumes laws: "codec_laws ops"
  shows "\<exists>r. raop_buffer_init ops key iv ecdh = Some r \<and>
    (r = None \<longleftrightarrow> op_realloc ops None (64 * 1920) = None \<or> op_aac_open ops = None) \<and>
    (\<forall>rb. r = Some rb \<longrightarrow> rb_inv 1920 rb \<and> is_empty rb \<and> lookup rb = Map.empty)"
proof -
  let ?c = "raop_audio_config_default_aac_eld"
  have out: "sint (raop_audio_config_output_bytes (Some ?c)) = int 1920"
    by (simp add: raop_audio_config_output_bytes_def raop_audio_config_default_aac_eld_def)
  let ?rb = "(raop_buffer_calloc ops ?c)\<lparr>pcm_pkt_size := 1920\<rparr>"
  show ?thesis
  proof (cases "op_realloc ops None (64 * 1920)")
    case None
    then show ?thesis
      unfolding raop_buffer_init_def out Let_def
      by (simp add: raop_buffer_set_audio_buffer_size_def RAOP_BUFFER_LENGTH_def raop_buffer_calloc_def)
  next
    case (Some b)
    have lb: "length b = 64 * 1920" using laws Some by (auto simp: codec_laws_def)
    show ?thesis
      using Some lb unfolding raop_buffer_init_def out Let_def
      by (simp add: raop_buffer_set_audio_buffer_size_def RAOP_BUFFER_LENGTH_def raop_buffer_calloc_def
          raop_buffer_init_key_iv_def Let_def rb_inv_def entry_ok_def window_def zero_entry_def lookup_def
          nth_enumerate_eq raop_audio_config_default_aac_eld_def AAC_FRAME_BYTES_def fun_eq_iff)
  qed
qed

text \<open>A successful reconfiguration leaves an empty buffer that satisfies the invariant for the block
  size of the new configuration; when memory or the decoder is refused it returns -1 and keeps the
  old configuration.\<close>

theorem raop_buffer_configure_audio_inv:
  assumes laws: "codec_laws ops" and inv: "rb_inv sz rb"
    and sz': "sint (raop_audio_config_output_bytes (Some config)) = int sz'" "0 < sz'" "64 * sz' < 2 ^ 31"
    and aac: "codec config = RAOP_AUDIO_CODEC_AAC_ELD \<longrightarrow> AAC_FRAME_BYTES \<le> sz'"
  shows "\<exists>r rb'. raop_buffer_configure_audio ops rb config = Some (r, rb') \<and>
    (r = 0 \<and> rb_inv sz' rb' \<and> audio_config rb' = config \<and> lookup rb' = Map.empty \<and>
       (codec config = RAOP_AUDIO_CODEC_ALAC \<longrightarrow> alac_decoder rb' \<noteq> None \<and> phandle rb' = None) \<and>
       (codec config = RAOP_AUDIO_CODEC_AAC_ELD \<longrightarrow> alac_decoder rb' = None \<and> phandle rb' \<noteq> None)
     \<or> r = -1 \<and> audio_config rb' = audio_config rb \<and> lookup rb' = Map.empty)"
proof -
  let ?f = "raop_buffer_flush rb (-1)" and ?out = "raop_audio_config_output_bytes (Some config)"
  have nz: "?out \<noteq> 0" using sz' by auto
  have fl: "rb_inv sz ?f" by (rule rb_inv_flush [OF inv])
  have len: "length (entries ?f) = 64" "\<forall>b. buffer ?f = Some b \<longrightarrow> int (length b) = buffer_size ?f"
    using fl by (auto simp: rb_inv_def)
  have quiet: "\<forall>i<64. \<not> available (entries ?f ! i) \<and> audio_buffer_len (entries ?f ! i) = 0"
    using inv by (simp add: flush_entries rb_inv_def)
  obtain r rb1 where set: "raop_buffer_set_audio_buffer_size ops ?f (int sz') = Some (r, rb1)"
    and res: "r = -1 \<and> rb1 = ?f \<or> r = 0 \<and> sized sz' ?f rb1"
    using set_audio_buffer_size_ok [OF laws len(1) sz'(2,3) len(2) quiet window_flush] by blast
  have gone: "lookup ?f = Map.empty" using lookup_flush [OF inv] by auto
  have quiet1: "lookup rb2 = Map.empty" if "sized sz' ?f rb1" "entries rb2 = entries rb1" for rb2 :: "('a, 'b, 'c) raop_buffer"
  proof
    show "lookup rb2 s = None" for s
      using that slot_less [of s] by (auto simp: sized_def entry_ok_def lookup_def Let_def)
  qed
  note unf = raop_buffer_configure_alac_def raop_buffer_configure_aac_eld_def
  have conf: "raop_buffer_configure_audio ops rb config =
      (if r < 0 then Some (-1, rb1)
       else Some (case codec config of
              RAOP_AUDIO_CODEC_ALAC \<Rightarrow> raop_buffer_configure_alac ops rb1 config ?out
            | RAOP_AUDIO_CODEC_AAC_ELD \<Rightarrow> raop_buffer_configure_aac_eld ops rb1 config ?out))"
    using nz set sz' by (simp add: raop_buffer_configure_audio_def Let_def)
  show ?thesis
  proof (cases "r = 0")
    case False
    then show ?thesis using res conf gone by auto
  next
    case True
    then have s: "sized sz' ?f rb1" using res by auto
    have keep: "rb_inv sz' rb2" if "same_frame rb1 (rb2\<lparr>audio_config := audio_config rb1, pcm_pkt_size := pcm_pkt_size rb1\<rparr>)"
        "entries rb2 = entries rb1" "buffer rb2 = buffer rb1" "audio_config rb2 = config" "pcm_pkt_size rb2 = int sz'"
      for rb2 :: "('a, 'b, 'c) raop_buffer"
      using that s sz' aac by (auto simp: rb_inv_def sized_def same_frame_def window_def)
    show ?thesis
      using True s conf sz'(1) quiet1 [OF s] keep
      by (cases "codec config") (auto simp: unf Let_def same_frame_def sized_def)
  qed
qed

section \<open>Dequeueing\<close>

lemma buflen_window:
  assumes inv: "rb_inv sz rb" and ne: "\<not> is_empty rb"
  shows "sint (word_of_int (seqnum_cmp (last_seqnum rb) (first_seqnum rb) + 1) :: u16) = int (window rb)"
proof -
  have w: "window rb \<le> 64" using inv by (simp add: rb_inv_def)
  have "last_seqnum rb = first_seqnum rb + of_nat (window rb) - 1"
    using last_of_window [OF ne] by (metis add_diff_cancel_right')
  then have "last_seqnum rb - first_seqnum rb = word_of_int (int (window rb) - 1)" by simp
  then have "seqnum_cmp (last_seqnum rb) (first_seqnum rb) = int (window rb) - 1"
    using w by (intro seqnum_cmp_int) auto
  then show ?thesis
    using w by (simp add: signed_of_nat signed_take_bit_int_eq_self)
qed

lemma rb_inv_entries_nth:
  "rb_inv sz rb \<Longrightarrow> rd (entries rb) (slot s) = Some (entries rb ! slot s)"
  by (simp add: rb_inv_def)

text \<open>Moving the playing position on by one.\<close>

lemma window_advance:
  assumes ne: "\<not> is_empty rb" and w: "0 < window rb"
    and rb': "is_empty rb' = is_empty rb" "first_seqnum rb' = first_seqnum rb + 1" "last_seqnum rb' = last_seqnum rb"
  shows "window rb' = window rb - 1"
proof -
  have eq: "last_seqnum rb - (first_seqnum rb + 1) + 1 = (last_seqnum rb - first_seqnum rb + 1) - 1" by simp
  have nz: "last_seqnum rb - first_seqnum rb + 1 \<noteq> 0" using ne w by (auto simp: window_def)
  show ?thesis
    using ne by (simp only: window_def rb' eq if_False unat_minus_one [OF nz])
qed

lemma entry_ok_advance:
  assumes "entry_ok sz f w i e" and "\<not> (available e \<and> seqnum e = f)"
  shows "entry_ok sz (f + 1) (w - 1) i e"
  using assms dist_Suc_first [of "seqnum e" f] dist_eq_0_iff [of f "seqnum e"]
  by (auto simp: entry_ok_def)

text \<open>
  One dequeue of a buffer that satisfies the invariant: when it waits, and what it delivers.
\<close>

definition dequeue_waits :: "('aes, 'alac, 'aac) raop_buffer \<Rightarrow> bool \<Rightarrow> bool" where
  "dequeue_waits rb no_resend \<longleftrightarrow>
     window rb = 0 \<or> (\<not> no_resend \<and> lookup rb (first_seqnum rb) = None \<and> window rb < 64)"

lemma dequeue_waiting:
  assumes inv: "rb_inv sz rb" and w: "dequeue_waits rb no_resend"
  shows "raop_buffer_dequeue rb no_resend = Some (None, rb)"
proof (cases "is_empty rb \<or> window rb = 0")
  case True
  then show ?thesis using buflen_window [OF inv] by (auto simp: raop_buffer_dequeue_def Let_def)
next
  case False
  then show ?thesis
    using w buflen_window [OF inv] rb_inv_entries_nth [OF inv] available_iff_lookup [OF inv, of "first_seqnum rb"]
    by (simp add: raop_buffer_dequeue_def Let_def dequeue_waits_def RAOP_BUFFER_LENGTH_def)
qed

lemma dequeue_window:
  assumes "rb_inv sz rb" and "\<not> dequeue_waits rb no_resend"
  shows "\<not> is_empty rb" and "0 < window rb"
  using assms by (auto simp: dequeue_waits_def window_def)

lemma dequeue_skipping:
  assumes inv: "rb_inv sz rb" and w: "\<not> dequeue_waits rb no_resend"
    and miss: "lookup rb (first_seqnum rb) = None"
  shows "\<exists>rb'. raop_buffer_dequeue rb no_resend = Some (Some (replicate sz 0, None), rb') \<and> rb_inv sz rb' \<and>
    first_seqnum rb' = first_seqnum rb + 1 \<and> window rb' = window rb - 1 \<and> lookup rb' = lookup rb"
proof -
  let ?f = "first_seqnum rb" and ?k = "slot (first_seqnum rb)"
  note ne = dequeue_window [OF inv w]
  have av: "\<not> available (entries rb ! ?k)" using available_iff_lookup [OF inv, of ?f] miss by simp
  have old: "entry_ok sz ?f (window rb) i (entries rb ! i)" if "i < 64" for i
    by (rule rb_inv_entry [OF inv that])
  obtain b where b: "buffer rb = Some b" "length b = 64 * sz" using inv by (auto simp: rb_inv_def)
  obtain b' where b': "memcpy b (?k * sz) (replicate sz 0) = Some b'"
    using b block_fits [OF slot_less, of ?f sz] by (auto simp: memcpy_def)
  let ?rb = "rb\<lparr>first_seqnum := ?f + 1, buffer := Some b'\<rparr>"
  have win: "window ?rb = window rb - 1" by (rule window_advance [OF ne]) simp_all
  have eq: "raop_buffer_dequeue rb no_resend = Some (Some (replicate sz 0, None), ?rb)"
    using w ne av b b' buflen_window [OF inv ne(1)] rb_inv_entries_nth [OF inv] old [of ?k] miss
    by (auto simp: raop_buffer_dequeue_def Let_def dequeue_waits_def RAOP_BUFFER_LENGTH_def entry_ok_def)
  have ok: "entry_ok sz (?f + 1) (window rb - 1) i (entries rb ! i)" if i: "i < 64" for i
  proof (rule entry_ok_advance [OF old [OF i]])
    show "\<not> (available (entries rb ! i) \<and> seqnum (entries rb ! i) = ?f)"
      using old [OF i] av by (auto simp: entry_ok_def)
  qed
  have "rb_inv sz ?rb"
    using inv win ok b memcpy_length [OF b'] by (auto simp: rb_inv_def)
  moreover have "lookup ?rb t = lookup rb t" for t
  proof (cases "slot t = ?k")
    case True
    then show ?thesis using av by (simp add: lookup_def)
  next
    case False
    have "take n (drop (slot t * sz) b') = take n (drop (slot t * sz) b)" if "n \<le> sz" for n
      using that False by (intro memcpy_other_block [OF b']) auto
    then show ?thesis using old [of "slot t"] b by (auto simp: lookup_def entry_ok_def Let_def)
  qed
  ultimately show ?thesis using eq win by auto
qed

lemma dequeue_delivering:
  assumes inv: "rb_inv sz rb" and w: "\<not> dequeue_waits rb no_resend"
    and hit: "lookup rb (first_seqnum rb) = Some (ts, pcm)"
  shows "\<exists>rb'. raop_buffer_dequeue rb no_resend = Some (Some (pcm, Some ts), rb') \<and> rb_inv sz rb' \<and>
    first_seqnum rb' = first_seqnum rb + 1 \<and> window rb' = window rb - 1 \<and>
    lookup rb' = (lookup rb)(first_seqnum rb := None)"
proof -
  let ?f = "first_seqnum rb" and ?k = "slot (first_seqnum rb)"
  note ne = dequeue_window [OF inv w]
  let ?e = "entries rb ! ?k"
  have av: "available ?e" using available_iff_lookup [OF inv, of ?f] hit by simp
  have old: "entry_ok sz ?f (window rb) i (entries rb ! i)" if "i < 64" for i
    by (rule rb_inv_entry [OF inv that])
  obtain b where b: "buffer rb = Some b" "length b = 64 * sz" using inv by (auto simp: rb_inv_def)
  have v: "seqnum ?e = ?f" "timestamp ?e = ts" "take (nat (audio_buffer_len ?e)) (drop (?k * sz) b) = pcm"
    using hit b old [of ?k] by (auto simp: lookup_def entry_ok_def Let_def split: if_splits)
  have "nat (audio_buffer_len ?e) \<le> sz" using old [of ?k] by (auto simp: entry_ok_def)
  then have "?k * sz + nat (audio_buffer_len ?e) \<le> length b"
    using block_fits [OF slot_less, of ?f sz] unfolding b(2) by linarith
  then have sl: "slice (?k * sz) (nat (audio_buffer_len ?e)) b = Some pcm"
    using v by (auto simp: slice_def)
  let ?rb = "rb\<lparr>first_seqnum := ?f + 1, entries := (entries rb)[?k := ?e\<lparr>available := False, audio_buffer_len := 0\<rparr>]\<rparr>"
  have win: "window ?rb = window rb - 1" by (rule window_advance [OF ne]) simp_all
  have eq: "raop_buffer_dequeue rb no_resend = Some (Some (pcm, Some ts), ?rb)"
    using ne av b sl v buflen_window [OF inv ne(1)] rb_inv_entries_nth [OF inv] old [of ?k]
    by (auto simp: raop_buffer_dequeue_def Let_def entry_ok_def)
  have l64: "length (entries rb) = 64" using inv by (simp add: rb_inv_def)
  have ok: "entry_ok sz (?f + 1) (window rb - 1) i (entries ?rb ! i)" if i: "i < 64" for i
  proof (cases "i = ?k")
    case True
    then show ?thesis using old [OF i] l64 by (simp add: entry_ok_def)
  next
    case False
    have "\<not> (available (entries rb ! i) \<and> seqnum (entries rb ! i) = ?f)"
      using old [OF i] False by (auto simp: entry_ok_def)
    with False show ?thesis using entry_ok_advance [OF old [OF i]] l64 by simp
  qed
  have "rb_inv sz ?rb"
    using inv win ok by (auto simp: rb_inv_def)
  moreover have "lookup ?rb t = ((lookup rb)(?f := None)) t" for t
    using v(1) l64 by (cases "slot t = ?k") (auto simp: lookup_def Let_def)
  ultimately show ?thesis using eq win by auto
qed

text \<open>C15: Dequeueing refines taking the packet at the playing position: it waits (returns \<^verbatim>\<open>NULL\<close> and
  changes nothing) exactly when the window is empty or the packet is missing and may still arrive;
  otherwise it returns the sound and time stamp of that packet, or a block of zeros and no time
  stamp when it is missing, moves on by one sequence number and keeps every other packet.\<close>

theorem raop_buffer_dequeue_refines:
  assumes inv: "rb_inv sz rb"
  shows "\<exists>rb'. raop_buffer_dequeue rb no_resend =
      Some (if dequeue_waits rb no_resend then None
            else Some (case lookup rb (first_seqnum rb) of
                         Some (ts, pcm) \<Rightarrow> (pcm, Some ts)
                       | None \<Rightarrow> (replicate sz 0, None)), rb') \<and> rb_inv sz rb' \<and>
    (if dequeue_waits rb no_resend then rb' = rb
     else first_seqnum rb' = first_seqnum rb + 1 \<and> window rb' = window rb - 1 \<and>
          lookup rb' = (lookup rb)(first_seqnum rb := None))"
proof (cases "dequeue_waits rb no_resend")
  case True
  then show ?thesis using dequeue_waiting [OF inv] inv by simp
next
  case w: False
  show ?thesis
  proof (cases "lookup rb (first_seqnum rb)")
    case None
    then show ?thesis using dequeue_skipping [OF inv w None] w by (auto simp: fun_upd_idem)
  next
    case (Some v)
    then show ?thesis using dequeue_delivering [OF inv w, of "fst v" "snd v"] w by (cases v) auto
  qed
qed

section \<open>Resend requests\<close>

text \<open>The loop stops at the first available packet, or at the last received number.\<close>

lemma resend_end_spec:
  assumes "length es = 64" and "dist s upto_seq < 64"
  shows "\<exists>n. resend_end es s upto_seq = Some (s + of_nat n) \<and> n \<le> dist s upto_seq \<and>
    (\<forall>i < n. \<not> available (es ! slot (s + of_nat i))) \<and>
    (n < dist s upto_seq \<longrightarrow> available (es ! slot (s + of_nat n)))"
  using assms
proof (induction es s upto_seq rule: resend_end.induct)
  case (1 es s l)
  show ?case
  proof (cases "s = l")
    case True
    then show ?thesis by (subst resend_end.simps) (simp add: seqnum_cmp_dist)
  next
    case ne: False
    have "s - l = word_of_int (- int (dist s l))" by (simp add: dist_def)
    then have "seqnum_cmp s l = - int (dist s l)"
      using "1.prems" by (intro seqnum_cmp_int) auto
    then have cmp: "seqnum_cmp s l < 0"
      using ne dist_eq_0_iff [of s l] by auto
    have rd: "rd es (slot s) = Some (es ! slot s)" using "1.prems" by simp
    show ?thesis
    proof (cases "available (es ! slot s)")
      case True
      then show ?thesis
        using cmp rd ne dist_eq_0_iff [of s l] by (subst resend_end.simps) (auto intro!: exI [of _ 0])
    next
      case False
      have d: "dist s l = Suc (dist (s + 1) l)"
        using dist_Suc_first [of l s] ne dist_eq_0_iff [of s l] by simp
      then have "dist (s + 1) l < 64" using "1.prems" by simp
      then obtain n where n: "resend_end es (s + 1) l = Some (s + 1 + of_nat n)" "n \<le> dist (s + 1) l"
        "\<forall>i < n. \<not> available (es ! slot (s + 1 + of_nat i))"
        "n < dist (s + 1) l \<longrightarrow> available (es ! slot (s + 1 + of_nat n))"
        using "1.IH" [OF cmp rd False] "1.prems" by blast
      have eq: "s + 1 + of_nat i = s + of_nat (Suc i)" for i by simp
      have "\<not> available (es ! slot (s + of_nat i))" if "i < Suc n" for i
        using that n(3) False unfolding eq by (cases i) auto
      moreover have "resend_end es s l = Some (s + of_nat (Suc n))"
        using cmp rd False n(1) unfolding eq by (subst resend_end.simps) simp
      ultimately show ?thesis
        using n(2,4) d unfolding eq by (intro exI [of _ "Suc n"]) auto
    qed
  qed
qed

text \<open>C22: The resend request names the longest missing run at the playing position: it is sent exactly
  when the packet at the playing position is missing and a later one has arrived, and then asks for
  consecutive sequence numbers from there, all missing, up to the first packet that is present or the
  last one received.\<close>

theorem raop_buffer_handle_resends_spec:
  assumes inv: "rb_inv sz rb" and ne: "0 < window rb"
  shows "\<exists>n. raop_buffer_handle_resends rb = Some (if n = 0 then None else Some (first_seqnum rb, int n)) \<and>
    n < window rb \<and>
    (\<forall>i < n. lookup rb (first_seqnum rb + of_nat i) = None) \<and>
    (n + 1 < window rb \<longrightarrow> lookup rb (first_seqnum rb + of_nat n) \<noteq> None)"
proof -
  let ?f = "first_seqnum rb" and ?l = "last_seqnum rb"
  have nemp: "\<not> is_empty rb" using ne by (auto simp: window_def)
  have w: "window rb \<le> 64" and len: "length (entries rb) = 64" using inv by (auto simp: rb_inv_def)
  have "?l = ?f + of_nat (window rb) - 1"
    using last_of_window [OF nemp] by (metis add_diff_cancel_right')
  also have "\<dots> = ?f + of_nat (window rb - 1)"
    using ne by (simp add: of_nat_diff)
  finally have l: "?l = ?f + of_nat (window rb - 1)" .
  then have dl: "dist ?f ?l = window rb - 1" using w by (simp add: dist_plus)
  obtain n where n: "resend_end (entries rb) ?f ?l = Some (?f + of_nat n)" "n \<le> window rb - 1"
    "\<forall>i < n. \<not> available (entries rb ! slot (?f + of_nat i))"
    "n < window rb - 1 \<longrightarrow> available (entries rb ! slot (?f + of_nat n))"
    using resend_end_spec [OF len, of ?f ?l] dl w ne by fastforce
  have av: "available (entries rb ! slot (?f + of_nat i)) \<longleftrightarrow> lookup rb (?f + of_nat i) \<noteq> None" if "i < 64" for i
    using that by (intro available_iff_lookup [OF inv]) (simp add: dist_plus)
  have cn: "seqnum_cmp (?f + of_nat n) ?f = int n"
    using n(2) w by (simp add: seqnum_cmp_dist dist_plus)
  have cmp: "seqnum_cmp ?f ?l = - int (window rb - 1)"
    using w unfolding l by (subst seqnum_cmp_from) auto
  have "raop_buffer_handle_resends rb = Some (if n = 0 then None else Some (?f, int n))"
    using n(1,2) cn cmp by (auto simp: raop_buffer_handle_resends_def)
  moreover have "lookup rb (?f + of_nat i) = None" if "i < n" for i
  proof -
    have "i < 64" using that n(2) w by linarith
    then show ?thesis using n(3) that av by blast
  qed
  moreover have "lookup rb (?f + of_nat n) \<noteq> None" if "n + 1 < window rb"
  proof -
    have "n < 64" "n < window rb - 1" using that w by linarith+
    then show ?thesis using n(4) av [of n] by blast
  qed
  ultimately show ?thesis using n(2) ne by (intro exI [of _ n]) auto
qed

section \<open>The buffer as a jitter queue\<close>

definition queued_item :: "nat \<Rightarrow> ('aes, 'alac, 'aac) raop_buffer \<Rightarrow> nat \<Rightarrow> byte list \<times> u32 option" where
  "queued_item sz rb i =
     (case lookup rb (first_seqnum rb + of_nat i) of
        Some (ts, pcm) \<Rightarrow> (pcm, Some ts)
      | None \<Rightarrow> (replicate sz 0, None))"

lemma dequeue_takes:
  assumes inv: "rb_inv sz rb" and w: "\<not> dequeue_waits rb no_resend"
  shows "\<exists>rb'. raop_buffer_dequeue rb no_resend = Some (Some (queued_item sz rb 0), rb') \<and> rb_inv sz rb' \<and>
    first_seqnum rb' = first_seqnum rb + 1 \<and> window rb' = window rb - 1 \<and>
    lookup rb' = (lookup rb)(first_seqnum rb := None)"
proof (cases "lookup rb (first_seqnum rb)")
  case None
  then show ?thesis
    using dequeue_skipping [OF inv w None] by (auto simp: queued_item_def fun_upd_idem)
next
  case (Some v)
  then show ?thesis
    using dequeue_delivering [OF inv w, of "fst v" "snd v"] by (cases v) (auto simp: queued_item_def)
qed

lemma queued_item_advance:
  assumes "first_seqnum rb' = first_seqnum rb + 1" and "lookup rb' = (lookup rb)(first_seqnum rb := None)"
    and "i < 65535"
  shows "queued_item sz rb' i = queued_item sz rb (Suc i)"
proof -
  have "dist (first_seqnum rb) (first_seqnum rb + of_nat (Suc i)) = Suc i"
    using assms(3) by (simp only: dist_plus mod_less)
  then have "first_seqnum rb + of_nat (Suc i) \<noteq> first_seqnum rb" by auto
  then show ?thesis
    using assms(1,2) by (simp add: queued_item_def add.assoc)
qed

text \<open>Dequeueing does not touch the decoders, nor does queueing lose them.\<close>

definition decoder_state ::
  "('aes, 'alac, 'aac) raop_buffer \<Rightarrow> raop_audio_config \<times> 'aes \<times> int \<times> 'aac option \<times> 'alac option" where
  "decoder_state rb = (audio_config rb, aes_ctx_audio rb, alac_decode_errors rb, phandle rb, alac_decoder rb)"

lemma decoder_state_flush [simp]: "decoder_state (raop_buffer_flush rb n) = decoder_state rb"
  by (simp add: decoder_state_def)

lemma decoder_ready_state: "decoder_state rb' = decoder_state rb \<Longrightarrow> decoder_ready ops rb' = decoder_ready ops rb"
  by (cases "codec (audio_config rb)") (auto simp: decoder_state_def decoder_ready_def)

lemma dequeue_decoder_state:
  "raop_buffer_dequeue rb no_resend = Some (x, rb') \<Longrightarrow> decoder_state rb' = decoder_state rb"
  by (auto simp: raop_buffer_dequeue_def Let_def decoder_state_def bind_eq_Some_conv split: if_splits)

interpretation jq: jitter_queue "\<lambda>rb. raop_buffer_dequeue rb no_resend"
  "\<lambda>rb. rb_inv sz rb \<and> decoder_state rb = v" "\<lambda>rb. dequeue_waits rb no_resend" window "queued_item sz"
  for no_resend sz v
proof unfold_locales
  fix rb :: "('a, 'b, 'c) raop_buffer"
  assume good: "rb_inv sz rb \<and> decoder_state rb = v"
  then have inv: "rb_inv sz rb" ..
  show "dequeue_waits rb no_resend \<Longrightarrow> raop_buffer_dequeue rb no_resend = Some (None, rb)"
    by (rule dequeue_waiting [OF inv])
  assume w: "\<not> dequeue_waits rb no_resend"
  obtain rb' where rb': "raop_buffer_dequeue rb no_resend = Some (Some (queued_item sz rb 0), rb')" "rb_inv sz rb'"
    "first_seqnum rb' = first_seqnum rb + 1" "window rb' = window rb - 1"
    "lookup rb' = (lookup rb)(first_seqnum rb := None)"
    using dequeue_takes [OF inv w] by blast
  moreover have "window rb' < window rb" using dequeue_window [OF inv w] rb'(4) by simp
  moreover have "\<forall>i < window rb'. queued_item sz rb' i = queued_item sz rb (Suc i)"
    using rb'(2) queued_item_advance [OF rb'(3,5)] by (auto simp: rb_inv_def)
  moreover have "decoder_state rb' = v" using dequeue_decoder_state [OF rb'(1)] good by simp
  ultimately show "\<exists>rb'. raop_buffer_dequeue rb no_resend = Some (Some (queued_item sz rb 0), rb') \<and>
      (rb_inv sz rb' \<and> decoder_state rb' = v) \<and>
      window rb' < window rb \<and> (\<forall>i < window rb'. queued_item sz rb' i = queued_item sz rb (Suc i))"
    by blast
qed

text \<open>Queueing keeps the decoders, but may open the AAC decoder and counts the ALAC errors.\<close>

definition decoders_kept :: "('aes, 'alac, 'aac) raop_buffer \<Rightarrow> ('aes, 'alac, 'aac) raop_buffer \<Rightarrow> bool" where
  "decoders_kept rb rb' \<longleftrightarrow> audio_config rb' = audio_config rb \<and> aes_ctx_audio rb' = aes_ctx_audio rb \<and>
     alac_decode_errors rb' \<le> alac_decode_errors rb + 1 \<and> (phandle rb \<noteq> None \<longrightarrow> phandle rb' \<noteq> None)"

lemma entry_store_decoders: "entry_store rb k bs n = Some rb' \<Longrightarrow> decoder_state rb' = decoder_state rb"
  by (auto simp: entry_store_def decoder_state_def bind_eq_Some_conv)

lemma queue_alac_decoders:
  assumes "queue_alac ops rb k p = Some rb'"
  shows "decoders_kept rb rb'"
proof -
  obtain ret n blk dec where d: "op_alac_decode ops (alac_decoder rb) p (the (entry_block rb k)) = (ret, n, blk, dec)"
    by (metis prod_cases4)
  show ?thesis
    using assms d
    by (auto simp: queue_alac_def bind_eq_Some_conv decoders_kept_def decoder_state_def Let_def
        dest!: entry_store_decoders split: if_splits)
qed

lemma queue_aac_decoders:
  assumes "queue_aac ops rb k p = Some (r, rb')"
  shows "decoders_kept rb rb'"
proof -
  have "decoder_state rb2 = decoder_state rb1 \<Longrightarrow> phandle rb1 \<noteq> None \<Longrightarrow> audio_config rb1 = audio_config rb \<Longrightarrow>
    aes_ctx_audio rb1 = aes_ctx_audio rb \<Longrightarrow> alac_decode_errors rb1 = alac_decode_errors rb \<Longrightarrow> decoders_kept rb rb2" for rb1 rb2
    by (simp add: decoders_kept_def decoder_state_def)
  with assms show ?thesis
    by (fastforce simp: queue_aac_def bind_eq_Some_conv decoders_kept_def decoder_state_def Let_def
        dest!: entry_store_decoders split: if_splits option.splits prod.splits)
qed

lemma decoders_kept_refl [simp]: "decoders_kept rb rb"
  by (simp add: decoders_kept_def)

lemma queue_decoders:
  assumes "raop_buffer_queue ops rb recvbuf n = Some (r, rb')"
  shows "decoders_kept rb rb'"
proof -
  have acc: "decoders_kept rb1 rb2" if "queue_accept ops rb1 data s = Some (x, rb2)" for rb1 rb2 data s x
  proof -
    have kept: "decoders_kept (rb1\<lparr>entries := es\<rparr>) rb3 \<Longrightarrow> decoders_kept rb1 rb3" for es rb3
      by (simp add: decoders_kept_def)
    have upd: "decoders_kept rb1 rb3 \<Longrightarrow> decoders_kept rb1 (queue_update_seqnums rb3 s)" for rb3
      by (simp add: decoders_kept_def queue_update_seqnums_def Let_def)
    show ?thesis
      using that
      by (cases "codec (audio_config rb1)")
        (auto simp: queue_accept_def bind_eq_Some_conv Let_def upd split: if_splits
          dest!: queue_alac_decoders queue_aac_decoders kept)
  qed
  have "decoders_kept (raop_buffer_flush rb m) rb2 \<longleftrightarrow> decoders_kept rb rb2" for m rb2
    by (simp add: decoders_kept_def)
  moreover have "decoders_kept rb (raop_buffer_flush rb m)" for m
    by (simp add: decoders_kept_def)
  ultimately show ?thesis
    using assms
    by (auto simp: raop_buffer_queue_def bind_eq_Some_conv Let_def dest!: acc split: if_splits)
qed

lemma resend_end_total: "length es = 64 \<Longrightarrow> \<exists>s'. resend_end es s u = Some s'"
proof (induction es s u rule: resend_end.induct)
  case (1 es s u)
  have "slot s < length es" using 1(2) by simp
  then show ?case
    using 1(1) [of "es ! slot s"] 1(2) by (subst resend_end.simps) (auto simp: rd_def)
qed

lemma handle_resends_total: "rb_inv sz rb \<Longrightarrow> \<exists>req. raop_buffer_handle_resends rb = Some req"
  using resend_end_total [of "entries rb" "first_seqnum rb" "last_seqnum rb"]
  by (auto simp: raop_buffer_handle_resends_def rb_inv_def)

section \<open>A concrete buffer\<close>

text \<open>
  Codec operations that copy the payload, and the state \<^verbatim>\<open>raop_buffer_init\<close> builds with them: the
  instance at which the properties above are applied.
\<close>

definition sample_ops :: "(unit, unit, unit) codec_ops" where
  "sample_ops =
     \<lparr> op_sha512 = (\<lambda>m. replicate 64 0), op_aes_set_key = (\<lambda>k iv. ()), op_aes_cbc_decrypt = (\<lambda>c p. p),
       op_alac_create = (\<lambda>sr bd ch spf. Some ()),
       op_alac_decode = (\<lambda>d p blk. (0, min (length p) (length blk), take (length blk) p @ drop (length p) blk, d)),
       op_aac_open = Some (), op_aac_decode = (\<lambda>d p n. (take AAC_FRAME_BYTES p, ())),
       op_realloc = (\<lambda>b n. Some (replicate n 0)) \<rparr>"

definition sample_rb :: "(unit, unit, unit) raop_buffer" where
  "sample_rb = (raop_buffer_calloc sample_ops raop_audio_config_default_aac_eld)
     \<lparr>pcm_pkt_size := 1920, buffer := Some (replicate (64 * 1920) 0), buffer_size := int (64 * 1920),
      entries := map (\<lambda>i. zero_entry\<lparr>audio_buffer_size := 1920, audio_buffer := i * 1920\<rparr>) [0..<64],
      phandle := Some (), is_empty := True\<rparr>"

text \<open>An RTP packet with sequence number 7, time stamp 9 and the given payload.\<close>

definition sample_packet :: "byte list \<Rightarrow> byte list" where
  "sample_packet payload = [0x80, 0x60, 0, 7, 0, 0, 0, 9, 0, 0, 0, 1] @ payload"

definition sample_rb1 :: "(unit, unit, unit) raop_buffer" where
  "sample_rb1 = snd (the (raop_buffer_queue sample_ops sample_rb (sample_packet [1, 2, 3]) 15))"

lemma sample_laws: "codec_laws sample_ops"
  by (auto simp: codec_laws_def sample_ops_def)

lemma sample_inv: "rb_inv 1920 sample_rb"
  by (simp add: rb_inv_def sample_rb_def raop_buffer_calloc_def entry_ok_def window_def zero_entry_def
      AAC_FRAME_BYTES_def)

lemma sample_ready: "decoder_ready sample_ops sample_rb"
  by (simp add: decoder_ready_def sample_rb_def sample_ops_def raop_buffer_calloc_def
      raop_audio_config_default_aac_eld_def)

lemma sample_empty: "is_empty sample_rb" "lookup sample_rb = Map.empty"
  using lookup_empty [OF sample_inv] by (simp_all add: sample_rb_def)

lemma sample_seq: "queue_seq (sample_packet p) = 7" "queue_timestamp (sample_packet p) = 9"
  by (simp_all add: queue_seq_def queue_timestamp_def sample_packet_def be16_def be32_def)

lemma sample_stores: "queue_stores sample_rb (sample_packet [1, 2, 3]) 15"
  by (simp add: queue_stores_def sample_empty RAOP_PACKET_LEN_def)

lemma sample_len: "unat (15 :: u16) \<le> length (sample_packet [1, 2, 3])"
  by (simp add: sample_packet_def)

lemma sample_rb1_facts: "rb_inv 1920 sample_rb1" "first_seqnum sample_rb1 = 7"
    "\<exists>pcm. lookup sample_rb1 = [7 \<mapsto> (9, pcm)]"
  using raop_buffer_queue_stored [OF sample_inv sample_laws sample_ready sample_len sample_stores]
  by (auto simp: sample_rb1_def sample_empty sample_seq queue_flushes_def)

lemma sample_rb1_window: "0 < window sample_rb1"
  using sample_rb1_facts(3) lookup_in_window [OF sample_rb1_facts(1), of 7] by auto


theorem raop_buffer_queue_refines_witness:
  "\<exists>rb' pcm. raop_buffer_queue sample_ops sample_rb (sample_packet [1, 2, 3]) 15 = Some (1, rb') \<and>
     first_seqnum rb' = 7 \<and> lookup rb' = [7 \<mapsto> (9, pcm)]"
  using raop_buffer_queue_refines [OF sample_inv sample_laws sample_ready sample_len sample_stores]
  by (auto simp: sample_empty sample_seq queue_flushes_def)

theorem raop_buffer_init_inv_witness:
  "\<exists>rb. raop_buffer_init sample_ops [] [] [] = Some (Some rb) \<and> rb_inv 1920 rb"
  using raop_buffer_init_inv [OF sample_laws, of "[]" "[]" "[]"] by (auto simp: sample_ops_def)

theorem raop_buffer_configure_audio_inv_witness:
  "\<exists>rb'. raop_buffer_configure_audio sample_ops sample_rb raop_audio_config_default_alac = Some (0, rb') \<and>
     rb_inv 1408 rb' \<and> alac_decoder rb' \<noteq> None"
proof -
  let ?c = "raop_audio_config_default_alac"
  have out: "sint (raop_audio_config_output_bytes (Some ?c)) = int 1408" and alac: "codec ?c = RAOP_AUDIO_CODEC_ALAC"
    by (simp_all add: raop_audio_config_output_bytes_def raop_audio_config_default_alac_def)
  obtain r rb' where r: "raop_buffer_configure_audio sample_ops sample_rb ?c = Some (r, rb')"
    "r = 0 \<and> rb_inv 1408 rb' \<and> alac_decoder rb' \<noteq> None \<or> r = -1 \<and> audio_config rb' = audio_config sample_rb"
    using raop_buffer_configure_audio_inv [OF sample_laws sample_inv out] alac by auto
  have "r = 0"
    using r(1) out alac
    by (auto simp: raop_buffer_configure_audio_def raop_buffer_set_audio_buffer_size_def RAOP_BUFFER_LENGTH_def
        raop_buffer_configure_alac_def sample_ops_def Let_def split: if_splits)
  with r show ?thesis by auto
qed

theorem raop_buffer_dequeue_refines_witness:
  "\<exists>pcm rb'. raop_buffer_dequeue sample_rb1 False = Some (Some (pcm, Some 9), rb') \<and> first_seqnum rb' = 8"
  using raop_buffer_dequeue_refines [OF sample_rb1_facts(1), of False] sample_rb1_facts(2,3) sample_rb1_window
  by (auto simp: dequeue_waits_def)

theorem raop_buffer_handle_resends_spec_witness:
  "raop_buffer_handle_resends sample_rb1 = Some None"
proof -
  obtain n where n: "raop_buffer_handle_resends sample_rb1 = Some (if n = 0 then None else Some (7, int n))"
    "\<forall>i < n. lookup sample_rb1 (7 + of_nat i) = None"
    using raop_buffer_handle_resends_spec [OF sample_rb1_facts(1) sample_rb1_window,
        unfolded sample_rb1_facts(2)] by blast
  have "n = 0" using n(2) sample_rb1_facts(3) by (cases n) auto
  with n(1) show ?thesis by simp
qed

end
