(* ===== verification/Raop_Rtp.thy ===== *)
theory Raop_Rtp
  imports Raop_Buffer Complex_Main
begin

text \<open>
  \<^verbatim>\<open>raop_rtp.c\<close>: the audio session.  The control thread leaves requests (volume, flush, metadata,
  cover art, remote control, progress) in the session under its mutex; the UDP thread takes them
  all at the head of every iteration, feeds the packets it receives to the jitter buffer, plays
  what the buffer releases and asks for what is missing.
\<close>

unbundle bit_operations_syntax

section \<open>State\<close>

definition NO_FLUSH :: int where
  "NO_FLUSH = -42"

text \<open>
  A volume is a rational number of decibels here; null pointers are \<^verbatim>\<open>None\<close>.  The remote address
  is what \<^verbatim>\<open>netutils_parse_address\<close> stored.
\<close>

record ('aes, 'alac, 'aac) raop_rtp =
  rtp_buffer :: "('aes, 'alac, 'aac) raop_buffer"
  remote_saddr :: "byte list"
  running :: bool
  joined :: bool
  volume :: rat
  volume_changed :: bool
  metadata :: "byte list option"
  coverart :: "byte list option"
  dacp_id :: "byte list option"
  active_remote_header :: "byte list option"
  progress_start :: u32
  progress_curr :: u32
  progress_end :: u32
  progress_changed :: bool
  flush :: int
  control_rport :: u16
  timing_rport :: u16
  csock :: int
  tsock :: int
  dsock :: int
  control_lport :: u16
  timing_lport :: u16
  data_lport :: u16
  control_saddr :: "byte list"
  control_seqnum :: u16

text \<open>What the session does that others see: the callbacks, and packets sent on the control socket.\<close>

datatype rtp_event =
    Audio_Set_Volume rat
  | Audio_Flush
  | Audio_Set_Metadata "byte list"
  | Audio_Set_Coverart "byte list"
  | Audio_Remote_Control_Id "byte list" "byte list"
  | Audio_Set_Progress u32 u32 u32
  | Audio_Process "byte list" int "u32 option"
  | Send_Control "byte list"

section \<open>Requests of the control thread\<close>

definition raop_rtp_set_volume :: "('aes, 'alac, 'aac) raop_rtp \<Rightarrow> rat \<Rightarrow> ('aes, 'alac, 'aac) raop_rtp" where
  "raop_rtp_set_volume r vol = (
     let vol = (if vol > 0 then 0 else if vol < -144 then -144 else vol)
     in r\<lparr>volume := vol, volume_changed := True\<rparr>)"

text \<open>\<^verbatim>\<open>datalen\<close> bytes are copied; the pointer before is overwritten.\<close>

definition raop_rtp_set_metadata ::
  "('aes, 'alac, 'aac) raop_rtp \<Rightarrow> byte list \<Rightarrow> int \<Rightarrow> ('aes, 'alac, 'aac) raop_rtp option" where
  "raop_rtp_set_metadata r data datalen =
     (if datalen \<le> 0 then Some r
      else do { md \<leftarrow> slice 0 (nat datalen) data; Some (r\<lparr>metadata := Some md\<rparr>) })"

definition raop_rtp_set_coverart ::
  "('aes, 'alac, 'aac) raop_rtp \<Rightarrow> byte list \<Rightarrow> int \<Rightarrow> ('aes, 'alac, 'aac) raop_rtp option" where
  "raop_rtp_set_coverart r data datalen =
     (if datalen \<le> 0 then Some r
      else do { ca \<leftarrow> slice 0 (nat datalen) data; Some (r\<lparr>coverart := Some ca\<rparr>) })"

definition raop_rtp_remote_control_id ::
  "('aes, 'alac, 'aac) raop_rtp \<Rightarrow> byte list option \<Rightarrow> byte list option \<Rightarrow> ('aes, 'alac, 'aac) raop_rtp" where
  "raop_rtp_remote_control_id r dacp header =
     (if dacp = None \<or> header = None then r
      else r\<lparr>dacp_id := dacp, active_remote_header := header\<rparr>)"

definition raop_rtp_set_progress ::
  "('aes, 'alac, 'aac) raop_rtp \<Rightarrow> u32 \<Rightarrow> u32 \<Rightarrow> u32 \<Rightarrow> ('aes, 'alac, 'aac) raop_rtp" where
  "raop_rtp_set_progress r st cu en =
     r\<lparr>progress_start := st, progress_curr := cu, progress_end := en, progress_changed := True\<rparr>"

definition raop_rtp_flush :: "('aes, 'alac, 'aac) raop_rtp \<Rightarrow> int \<Rightarrow> ('aes, 'alac, 'aac) raop_rtp" where
  "raop_rtp_flush r next_seq = r\<lparr>flush := next_seq\<rparr>"

definition raop_rtp_configure_audio ::
  "('aes, 'alac, 'aac) codec_ops \<Rightarrow> ('aes, 'alac, 'aac) raop_rtp \<Rightarrow> raop_audio_config
     \<Rightarrow> (int \<times> ('aes, 'alac, 'aac) raop_rtp) option" where
  "raop_rtp_configure_audio ops r config = do {
     (ret, rb) \<leftarrow> raop_buffer_configure_audio ops (rtp_buffer r) config;
     Some (ret, r\<lparr>rtp_buffer := rb\<rparr>)
   }"

text \<open>What the control thread can ask for, as data, and a sequence of it.\<close>

datatype rtp_request =
    Set_Volume rat
  | Set_Metadata "byte list" int
  | Set_Coverart "byte list" int
  | Remote_Control_Id "byte list option" "byte list option"
  | Set_Progress u32 u32 u32
  | Flush int

fun ask_request :: "rtp_request \<Rightarrow> ('aes, 'alac, 'aac) raop_rtp \<Rightarrow> ('aes, 'alac, 'aac) raop_rtp option" where
  "ask_request (Set_Volume v) r = Some (raop_rtp_set_volume r v)"
| "ask_request (Set_Metadata d n) r = raop_rtp_set_metadata r d n"
| "ask_request (Set_Coverart d n) r = raop_rtp_set_coverart r d n"
| "ask_request (Remote_Control_Id d h) r = Some (raop_rtp_remote_control_id r d h)"
| "ask_request (Set_Progress st cu en) r = Some (raop_rtp_set_progress r st cu en)"
| "ask_request (Flush s) r = Some (raop_rtp_flush r s)"

fun ask_requests :: "rtp_request list \<Rightarrow> ('aes, 'alac, 'aac) raop_rtp \<Rightarrow> ('aes, 'alac, 'aac) raop_rtp option" where
  "ask_requests [] r = Some r"
| "ask_requests (q # qs) r = do { r \<leftarrow> ask_request q r; ask_requests qs r }"

section \<open>Taking the requests\<close>

text \<open>Every callback is assumed to be set; the requests are cleared before any callback runs.\<close>

definition pending_events :: "('aes, 'alac, 'aac) raop_rtp \<Rightarrow> rtp_event list" where
  "pending_events r =
     (if volume_changed r then [Audio_Set_Volume (volume r)] else []) @
     (if flush r \<noteq> NO_FLUSH then [Audio_Flush] else []) @
     (case metadata r of None \<Rightarrow> [] | Some d \<Rightarrow> [Audio_Set_Metadata d]) @
     (case coverart r of None \<Rightarrow> [] | Some d \<Rightarrow> [Audio_Set_Coverart d]) @
     (case (dacp_id r, active_remote_header r) of
        (Some d, Some h) \<Rightarrow> [Audio_Remote_Control_Id d h] | _ \<Rightarrow> []) @
     (if progress_changed r then [Audio_Set_Progress (progress_start r) (progress_curr r) (progress_end r)] else [])"

definition raop_rtp_process_events ::
  "('aes, 'alac, 'aac) raop_rtp \<Rightarrow> int \<times> ('aes, 'alac, 'aac) raop_rtp \<times> rtp_event list" where
  "raop_rtp_process_events r =
     (if \<not> running r then (1, r, [])
      else (
        let evs = pending_events r;
            fl = flush r;
            r = r\<lparr>volume_changed := False, flush := NO_FLUSH, metadata := None, coverart := None,
                  dacp_id := None, active_remote_header := None, progress_changed := False\<rparr>;
            r = (if fl \<noteq> NO_FLUSH then r\<lparr>rtp_buffer := raop_buffer_flush (rtp_buffer r) fl\<rparr> else r)
        in (0, r, evs)))"

section \<open>The UDP thread\<close>

definition resend_packet :: "u16 \<Rightarrow> u16 \<Rightarrow> u16 \<Rightarrow> byte list" where
  "resend_packet ourseqnum s count =
     [0x80, 0x55 OR 0x80, ucast (drop_bit 8 ourseqnum), ucast ourseqnum,
      ucast (drop_bit 8 s), ucast s, ucast (drop_bit 8 count), ucast count]"

definition raop_rtp_resend_callback ::
  "('aes, 'alac, 'aac) raop_rtp \<Rightarrow> u16 \<Rightarrow> u16 \<Rightarrow> ('aes, 'alac, 'aac) raop_rtp \<times> rtp_event list" where
  "raop_rtp_resend_callback r s count =
     (r\<lparr>control_seqnum := control_seqnum r + 1\<rparr>, [Send_Control (resend_packet (control_seqnum r) s count)])"

text \<open>The playing loop: a block of n bytes is n / 2 samples.\<close>

definition pcm_event :: "byte list \<times> u32 option \<Rightarrow> rtp_event" where
  "pcm_event x = (case x of (pcm, pts) \<Rightarrow> Audio_Process pcm (int (length pcm) div 2) pts)"

definition rtp_drain ::
  "('aes, 'alac, 'aac) raop_buffer \<Rightarrow> bool \<Rightarrow> ((byte list \<times> u32 option) list \<times> ('aes, 'alac, 'aac) raop_buffer) option" where
  "rtp_drain rb no_resend = drain_with (\<lambda>rb. raop_buffer_dequeue rb no_resend) rb"

text \<open>
  A datagram on the control socket: its bytes at the front of the packet buffer, its length as
  \<^verbatim>\<open>recvfrom\<close> returned it (converted to unsigned), and the sender's address.  The queue's result
  is asserted not to be negative.
\<close>

definition rtp_control_packet ::
  "('aes, 'alac, 'aac) codec_ops \<Rightarrow> ('aes, 'alac, 'aac) raop_rtp \<Rightarrow> byte list \<Rightarrow> u32 \<Rightarrow> byte list
     \<Rightarrow> ('aes, 'alac, 'aac) raop_rtp option" where
  "rtp_control_packet ops r packet packetlen saddr = do {
     let r = r\<lparr>control_saddr := saddr\<rparr>;
     b1 \<leftarrow> rd packet 1;
     let type_c = b1 AND NOT 0x80;
     if type_c = 0x56 then do {
       (ret, rb) \<leftarrow> raop_buffer_queue ops (rtp_buffer r) (drop 4 packet) (ucast (packetlen - 4));
       require (ret \<ge> 0);
       Some (r\<lparr>rtp_buffer := rb\<rparr>)
     }
     else Some r
   }"

definition rtp_data_packet ::
  "('aes, 'alac, 'aac) codec_ops \<Rightarrow> ('aes, 'alac, 'aac) raop_rtp \<Rightarrow> byte list \<Rightarrow> u32
     \<Rightarrow> (('aes, 'alac, 'aac) raop_rtp \<times> rtp_event list) option" where
  "rtp_data_packet ops r packet packetlen =
     (if packetlen \<ge> 12
      then do {
        let no_resend = (control_rport r = 0);
        (buf_ret, rb) \<leftarrow> raop_buffer_queue ops (rtp_buffer r) packet (ucast packetlen);
        require (buf_ret \<ge> 0);
        (blocks, rb) \<leftarrow> rtp_drain rb no_resend;
        let r = r\<lparr>rtp_buffer := rb\<rparr>;
        let evs = map pcm_event blocks;
        if \<not> no_resend then do {
          req \<leftarrow> raop_buffer_handle_resends rb;
          Some (case req of
              None \<Rightarrow> (r, evs)
            | Some (s, count) \<Rightarrow> (case raop_rtp_resend_callback r s (word_of_int count) of (r, e) \<Rightarrow> (r, evs @ e)))
        }
        else Some (r, evs)
      }
      else Some (r, []))"

text \<open>
  One iteration after \<^verbatim>\<open>select\<close>: what it reports as readable, the control datagram first.
\<close>

datatype rtp_wakeup =
    Timeout
  | Select_Error
  | Readable "(byte list \<times> u32 \<times> byte list) option" "(byte list \<times> u32) option"

definition rtp_iteration ::
  "('aes, 'alac, 'aac) codec_ops \<Rightarrow> ('aes, 'alac, 'aac) raop_rtp \<Rightarrow> rtp_wakeup
     \<Rightarrow> (bool \<times> ('aes, 'alac, 'aac) raop_rtp \<times> rtp_event list) option" where
  "rtp_iteration ops r wake = (
     case raop_rtp_process_events r of (stop, r, evs) \<Rightarrow>
       if stop \<noteq> 0 then Some (False, r, evs)
       else (case wake of
           Timeout \<Rightarrow> Some (True, r, evs)
         | Select_Error \<Rightarrow> Some (False, r, evs)
         | Readable ctrl dat \<Rightarrow> do {
             r \<leftarrow> (case ctrl of None \<Rightarrow> Some r
                  | Some (packet, len, saddr) \<Rightarrow> rtp_control_packet ops r packet len saddr);
             (r, evs') \<leftarrow> (case dat of None \<Rightarrow> Some (r, [])
                  | Some (packet, len) \<Rightarrow> rtp_data_packet ops r packet len);
             Some (True, r, evs @ evs')
           }))"

text \<open>
  The UDP thread beside the control thread: requests arrive between its iterations (only
  \<^verbatim>\<open>raop_rtp_process_events\<close>, at the head of an iteration, reads them), \<^verbatim>\<open>Halt\<close> is the moment
  \<^verbatim>\<open>raop_rtp_stop\<close> clears \<^verbatim>\<open>running\<close>.
\<close>

datatype rtp_action = Ask rtp_request | Halt | Wake rtp_wakeup

fun raop_rtp_thread_udp ::
  "('aes, 'alac, 'aac) codec_ops \<Rightarrow> ('aes, 'alac, 'aac) raop_rtp \<Rightarrow> rtp_action list
     \<Rightarrow> (('aes, 'alac, 'aac) raop_rtp \<times> rtp_event list) option" where
  "raop_rtp_thread_udp ops r [] = Some (r, [])"
| "raop_rtp_thread_udp ops r (Ask q # xs) = do { r \<leftarrow> ask_request q r; raop_rtp_thread_udp ops r xs }"
| "raop_rtp_thread_udp ops r (Halt # xs) = raop_rtp_thread_udp ops (r\<lparr>running := False\<rparr>) xs"
| "raop_rtp_thread_udp ops r (Wake w # xs) = do {
     (goes_on, r, evs) \<leftarrow> rtp_iteration ops r w;
     if goes_on then do {
       (r, evs') \<leftarrow> raop_rtp_thread_udp ops r xs;
       Some (r, evs @ evs')
     }
     else Some (r, evs)
   }"

section \<open>The timing thread\<close>

text \<open>
  One round: the time request is sent, the answer (in a buffer of 128 bytes) is read.  The state
  is the request packet and the receive time stamp of the last answer.
\<close>

definition rtp_time_packet :: "byte list" where
  "rtp_time_packet = [0x80, 0xd2, 0x00, 0x07] @ replicate 28 0"

definition rtp_time_round ::
  "u64 \<Rightarrow> byte list \<times> u64 \<Rightarrow> u64 \<times> byte list \<Rightarrow> (byte list \<times> u64) option" where
  "rtp_time_round base st env = (case (st, env) of ((time, rec_pts), (now, answer)) \<Rightarrow> do {
     let send_time = now - base + rec_pts;
     time \<leftarrow> byteutils_put_timeStamp time 24 send_time;
     type_t \<leftarrow> rd answer 1;
     origin \<leftarrow> byteutils_read_timeStamp answer 8;
     receive \<leftarrow> byteutils_read_timeStamp answer 16;
     transmit \<leftarrow> byteutils_read_timeStamp answer 24;
     Some (time, receive)
   })"

text \<open>The packets sent while the session is running (one clock value and answer per round).\<close>

fun rtp_time_rounds ::
  "u64 \<Rightarrow> byte list \<times> u64 \<Rightarrow> (u64 \<times> byte list) list \<Rightarrow> byte list list option" where
  "rtp_time_rounds base st [] = Some []"
| "rtp_time_rounds base st (env # envs) = do {
     (time, rec_pts) \<leftarrow> rtp_time_round base st env;
     ps \<leftarrow> rtp_time_rounds base (time, rec_pts) envs;
     Some (time # ps)
   }"

definition raop_rtp_thread_time :: "u64 \<Rightarrow> (u64 \<times> byte list) list \<Rightarrow> byte list list option" where
  "raop_rtp_thread_time base envs = rtp_time_rounds base (rtp_time_packet, 0) envs"

section \<open>Set-up and tear-down\<close>

text \<open>
  \<^verbatim>\<open>parse_address\<close> stands for \<^verbatim>\<open>netutils_parse_address\<close>, given the family (IPv6 or not) and the
  dotted quad of the first four bytes.  The results are \<^verbatim>\<open>NULL\<close> or the object.
\<close>

definition raop_rtp_parse_remote ::
  "(bool \<Rightarrow> byte \<times> byte \<times> byte \<times> byte \<Rightarrow> byte list option) \<Rightarrow> byte list \<Rightarrow> int \<Rightarrow> byte list option option" where
  "raop_rtp_parse_remote parse_address remote remotelen =
     (if remotelen \<noteq> 4 \<and> remotelen \<noteq> 16 then Some None
      else do {
        q \<leftarrow> slice 0 4 remote;
        Some (parse_address (remotelen = 16) (q ! 0, q ! 1, q ! 2, q ! 3))
      })"

definition raop_rtp_init ::
  "('aes, 'alac, 'aac) codec_ops \<Rightarrow> (bool \<Rightarrow> byte \<times> byte \<times> byte \<times> byte \<Rightarrow> byte list option)
     \<Rightarrow> byte list \<Rightarrow> int \<Rightarrow> byte list \<Rightarrow> byte list \<Rightarrow> byte list \<Rightarrow> u16
     \<Rightarrow> ('aes, 'alac, 'aac) raop_rtp option option" where
  "raop_rtp_init ops parse_address remote remotelen key iv ecdh_secret timing_port = do {
     b \<leftarrow> raop_buffer_init ops key iv ecdh_secret;
     case b of
       None \<Rightarrow> Some None
     | Some rb \<Rightarrow> do {
         addr \<leftarrow> raop_rtp_parse_remote parse_address remote remotelen;
         Some (case addr of
             None \<Rightarrow> None
           | Some a \<Rightarrow> Some
               \<lparr> rtp_buffer = rb, remote_saddr = a, running = False, joined = True, volume = 0,
                 volume_changed = False, metadata = None, coverart = None, dacp_id = None,
                 active_remote_header = None, progress_start = 0, progress_curr = 0, progress_end = 0,
                 progress_changed = False, flush = NO_FLUSH, control_rport = 0, timing_rport = timing_port,
                 csock = 0, tsock = 0, dsock = 0, control_lport = 0, timing_lport = 0, data_lport = 0,
                 control_saddr = [], control_seqnum = 0 \<rparr>)
       }
   }"

text \<open>The three sockets with their ports; on failure the descriptors that were opened are closed.\<close>

definition raop_rtp_init_sockets ::
  "int \<times> u16 \<Rightarrow> int \<times> u16 \<Rightarrow> int \<times> u16 \<Rightarrow> ('aes, 'alac, 'aac) raop_rtp
     \<Rightarrow> int \<times> ('aes, 'alac, 'aac) raop_rtp \<times> int list" where
  "raop_rtp_init_sockets c t d r =
     (if fst c = -1 \<or> fst t = -1 \<or> fst d = -1
      then (-1, r, filter (\<lambda>s. s \<noteq> -1) [fst c, fst t, fst d])
      else (0, r\<lparr>csock := fst c, tsock := fst t, dsock := fst d,
                 control_lport := snd c, timing_lport := snd t, data_lport := snd d\<rparr>, []))"

definition raop_rtp_start_audio ::
  "int \<times> u16 \<Rightarrow> int \<times> u16 \<Rightarrow> int \<times> u16 \<Rightarrow> ('aes, 'alac, 'aac) raop_rtp \<Rightarrow> u16
     \<Rightarrow> ('aes, 'alac, 'aac) raop_rtp \<times> (u16 \<times> u16 \<times> u16) option" where
  "raop_rtp_start_audio c t d r control_port =
     (if running r \<or> \<not> joined r then (r, None)
      else (case raop_rtp_init_sockets c t d (r\<lparr>control_rport := control_port\<rparr>) of
              (ret, r, _) \<Rightarrow>
                if ret < 0 then (r, None)
                else (r\<lparr>running := True, joined := False\<rparr>,
                      Some (control_lport r, timing_lport r, data_lport r))))"

text \<open>Stop: the descriptors it closes after both threads are joined.\<close>

definition raop_rtp_stop ::
  "('aes, 'alac, 'aac) raop_rtp \<Rightarrow> ('aes, 'alac, 'aac) raop_rtp \<times> int list" where
  "raop_rtp_stop r =
     (if \<not> running r \<or> joined r then (r, [])
      else (r\<lparr>running := False, rtp_buffer := raop_buffer_flush (rtp_buffer r) (-1), joined := True\<rparr>,
            filter (\<lambda>s. s \<noteq> -1) [csock r, tsock r, dsock r]))"

section \<open>Requests reach the client\<close>

text \<open>
  The specification: of the requests of one kind the last one counts, and it is delivered once.
\<close>

definition last_of :: "('q \<Rightarrow> 'x option) \<Rightarrow> 'q list \<Rightarrow> 'x option" where
  "last_of f qs = (case List.map_filter f qs of [] \<Rightarrow> None | x # xs \<Rightarrow> Some (last (x # xs)))"

lemma last_of_Nil [simp]: "last_of f [] = None"
  by (simp add: last_of_def map_filter_def)

lemma last_of_snoc [simp]: "last_of f (qs @ [q]) = (case f q of None \<Rightarrow> last_of f qs | Some x \<Rightarrow> Some x)"
  by (cases "List.map_filter f qs") (auto simp: last_of_def map_filter_def split: option.splits list.splits)

fun asked_volume :: "rtp_request \<Rightarrow> rtp_event option" where
  "asked_volume (Set_Volume v) = Some (Audio_Set_Volume (max (-144) (min 0 v)))"
| "asked_volume q = None"

fun asked_flush :: "rtp_request \<Rightarrow> int option" where
  "asked_flush (Flush s) = Some s"
| "asked_flush q = None"

fun asked_metadata :: "rtp_request \<Rightarrow> rtp_event option" where
  "asked_metadata (Set_Metadata d n) = (if n \<le> 0 then None else Some (Audio_Set_Metadata (take (nat n) d)))"
| "asked_metadata q = None"

fun asked_coverart :: "rtp_request \<Rightarrow> rtp_event option" where
  "asked_coverart (Set_Coverart d n) = (if n \<le> 0 then None else Some (Audio_Set_Coverart (take (nat n) d)))"
| "asked_coverart q = None"

fun asked_remote :: "rtp_request \<Rightarrow> rtp_event option" where
  "asked_remote (Remote_Control_Id (Some d) (Some h)) = Some (Audio_Remote_Control_Id d h)"
| "asked_remote q = None"

fun asked_progress :: "rtp_request \<Rightarrow> rtp_event option" where
  "asked_progress (Set_Progress st cu en) = Some (Audio_Set_Progress st cu en)"
| "asked_progress q = None"

definition events_of :: "'x option \<Rightarrow> 'x list" where
  "events_of x = (case x of None \<Rightarrow> [] | Some e \<Rightarrow> [e])"

lemma events_of_simps [simp]: "events_of None = []" "events_of (Some e) = [e]"
  by (simp_all add: events_of_def)

definition asked_events :: "rtp_request list \<Rightarrow> rtp_event list" where
  "asked_events qs =
     events_of (last_of asked_volume qs) @
     (case last_of asked_flush qs of Some s \<Rightarrow> (if s \<noteq> NO_FLUSH then [Audio_Flush] else []) | None \<Rightarrow> []) @
     events_of (last_of asked_metadata qs) @ events_of (last_of asked_coverart qs) @
     events_of (last_of asked_remote qs) @ events_of (last_of asked_progress qs)"

text \<open>The data of a request is as long as the request says.\<close>

fun request_fits :: "rtp_request \<Rightarrow> bool" where
  "request_fits (Set_Metadata d n) = (n \<le> int (length d))"
| "request_fits (Set_Coverart d n) = (n \<le> int (length d))"
| "request_fits q = True"

definition volume_pending :: "('aes, 'alac, 'aac) raop_rtp \<Rightarrow> rtp_event option" where
  "volume_pending r = (if volume_changed r then Some (Audio_Set_Volume (volume r)) else None)"

definition progress_pending :: "('aes, 'alac, 'aac) raop_rtp \<Rightarrow> rtp_event option" where
  "progress_pending r =
     (if progress_changed r then Some (Audio_Set_Progress (progress_start r) (progress_curr r) (progress_end r)) else None)"

definition remote_pending :: "('aes, 'alac, 'aac) raop_rtp \<Rightarrow> rtp_event option" where
  "remote_pending r = (case (dacp_id r, active_remote_header r) of
     (Some d, Some h) \<Rightarrow> Some (Audio_Remote_Control_Id d h) | _ \<Rightarrow> None)"

lemma pending_events_eq:
  "pending_events r = events_of (volume_pending r) @ (if flush r \<noteq> NO_FLUSH then [Audio_Flush] else []) @
     events_of (map_option Audio_Set_Metadata (metadata r)) @
     events_of (map_option Audio_Set_Coverart (coverart r)) @
     events_of (remote_pending r) @ events_of (progress_pending r)"
  by (auto simp: pending_events_def volume_pending_def remote_pending_def progress_pending_def
      split: option.splits)

lemma ask_requests_append:
  "ask_requests (qs @ qs') r = Option.bind (ask_requests qs r) (ask_requests qs')"
proof (induction qs arbitrary: r)
  case (Cons q qs)
  then show ?case by (cases "ask_request q r") simp_all
qed simp

lemma slice_front: "n \<le> int (length d) \<Longrightarrow> slice 0 (nat n) d = Some (take (nat n) d)"
  by (auto simp: slice_def)

lemma ask_requests_pending:
  assumes "pending_events r = []" and "list_all request_fits qs"
  shows "\<exists>r'. ask_requests qs r = Some r' \<and> volume_pending r' = last_of asked_volume qs \<and>
    flush r' = (case last_of asked_flush qs of Some s \<Rightarrow> s | None \<Rightarrow> NO_FLUSH) \<and>
    map_option Audio_Set_Metadata (metadata r') = last_of asked_metadata qs \<and>
    map_option Audio_Set_Coverart (coverart r') = last_of asked_coverart qs \<and>
    remote_pending r' = last_of asked_remote qs \<and> progress_pending r' = last_of asked_progress qs \<and>
    running r' = running r \<and> rtp_buffer r' = rtp_buffer r"
  using assms
proof (induction qs rule: rev_induct)
  case Nil
  have none: "events_of x = [] \<Longrightarrow> x = None" for x :: "rtp_event option"
    by (cases x) simp_all
  show ?case
    using Nil(1) by (auto simp: pending_events_eq dest!: none split: if_splits)
next
  case (snoc q qs)
  then obtain r' where r': "ask_requests qs r = Some r'" "volume_pending r' = last_of asked_volume qs"
    "flush r' = (case last_of asked_flush qs of Some s \<Rightarrow> s | None \<Rightarrow> NO_FLUSH)"
    "map_option Audio_Set_Metadata (metadata r') = last_of asked_metadata qs"
    "map_option Audio_Set_Coverart (coverart r') = last_of asked_coverart qs"
    "remote_pending r' = last_of asked_remote qs" "progress_pending r' = last_of asked_progress qs"
    "running r' = running r" "rtp_buffer r' = rtp_buffer r"
    by auto
  have fits: "request_fits q" using snoc.prems by simp
  note defs = volume_pending_def remote_pending_def progress_pending_def
  show ?case
  proof (cases q)
    case (Set_Volume v)
    then show ?thesis
      using r' by (auto simp: ask_requests_append raop_rtp_set_volume_def Let_def defs max_def min_def cong: option.case_cong)
  next
    case (Set_Metadata d n)
    then show ?thesis
      using r' fits by (auto simp: ask_requests_append raop_rtp_set_metadata_def slice_front defs cong: option.case_cong)
  next
    case (Set_Coverart d n)
    then show ?thesis
      using r' fits by (auto simp: ask_requests_append raop_rtp_set_coverart_def slice_front defs cong: option.case_cong)
  next
    case (Remote_Control_Id d h)
    then show ?thesis
      using r' by (cases d; cases h) (auto simp: ask_requests_append raop_rtp_remote_control_id_def defs cong: option.case_cong)
  next
    case (Set_Progress st cu en)
    then show ?thesis
      using r' by (auto simp: ask_requests_append raop_rtp_set_progress_def defs cong: option.case_cong)
  next
    case (Flush s)
    then show ?thesis
      using r' by (auto simp: ask_requests_append raop_rtp_flush_def defs cong: option.case_cong)
  qed
qed

lemma process_events_running:
  assumes "running r"
  shows "\<exists>r'. raop_rtp_process_events r = (0, r', pending_events r) \<and> pending_events r' = [] \<and> running r' \<and>
    rtp_buffer r' = (if flush r = NO_FLUSH then rtp_buffer r else raop_buffer_flush (rtp_buffer r) (flush r)) \<and>
    control_rport r' = control_rport r \<and> control_seqnum r' = control_seqnum r"
  using assms by (auto simp: raop_rtp_process_events_def Let_def pending_events_def)


section \<open>Packets are played\<close>

text \<open>
  What the session needs for k more packets: an AAC decoder, or an ALAC error counter that
  cannot overflow.
\<close>

definition decoder_budget :: "('aes, 'alac, 'aac) codec_ops \<Rightarrow> nat \<Rightarrow> ('aes, 'alac, 'aac) raop_buffer \<Rightarrow> bool" where
  "decoder_budget ops k rb \<longleftrightarrow>
     (case codec (audio_config rb) of
        RAOP_AUDIO_CODEC_ALAC \<Rightarrow> alac_decode_errors rb + int k < 2 ^ 31
      | RAOP_AUDIO_CODEC_AAC_ELD \<Rightarrow> phandle rb \<noteq> None \<or> op_aac_open ops \<noteq> None)"

lemma budget_ready: "decoder_budget ops (Suc k) rb \<Longrightarrow> decoder_ready ops rb"
  by (cases "codec (audio_config rb)") (auto simp: decoder_budget_def decoder_ready_def)

lemma budget_mono: "decoder_budget ops k rb \<Longrightarrow> j \<le> k \<Longrightarrow> decoder_budget ops j rb"
  by (cases "codec (audio_config rb)") (auto simp: decoder_budget_def)

lemma budget_kept: "decoder_budget ops (Suc k) rb \<Longrightarrow> decoders_kept rb rb' \<Longrightarrow> decoder_budget ops k rb'"
  by (cases "codec (audio_config rb)") (auto simp: decoder_budget_def decoders_kept_def)

lemma budget_state: "decoder_state rb' = decoder_state rb \<Longrightarrow> decoder_budget ops k rb' = decoder_budget ops k rb"
  by (cases "codec (audio_config rb)") (auto simp: decoder_budget_def decoder_state_def)

lemma queue_ok:
  assumes inv: "rb_inv sz rb" and laws: "codec_laws ops" and bud: "decoder_budget ops (Suc k) rb"
    and len: "12 \<le> unat n" "unat n \<le> RAOP_PACKET_LEN" "unat n \<le> length packet"
  shows "\<exists>ret rb'. raop_buffer_queue ops rb packet n = Some (ret, rb') \<and> 0 \<le> ret \<and> rb_inv sz rb' \<and>
    decoder_budget ops k rb'"
proof -
  obtain ret rb' where q: "raop_buffer_queue ops rb packet n = Some (ret, rb')" "0 \<le> ret" "rb_inv sz rb'"
  proof (cases "queue_stores rb packet n")
    case True
    then show thesis
      using raop_buffer_queue_stored [OF inv laws budget_ready [OF bud] len(3)] that by fastforce
  next
    case False
    then show thesis
      using raop_buffer_queue_cases [OF inv len(3), of ops] len inv that by auto
  qed
  then show ?thesis using budget_kept [OF bud queue_decoders [OF q(1)]] by blast
qed

text \<open>The lengths \<^verbatim>\<open>recvfrom\<close> can return for a packet buffer of \<^verbatim>\<open>RAOP_PACKET_LEN\<close> bytes.\<close>

definition packet_fits :: "byte list \<Rightarrow> u32 \<Rightarrow> bool" where
  "packet_fits packet len \<longleftrightarrow> length packet = RAOP_PACKET_LEN \<and> unat len \<le> RAOP_PACKET_LEN"

lemma packet_fits_ucast:
  assumes "packet_fits packet len"
  shows "unat (ucast len :: u16) = unat len"
proof -
  have "unat len < 2 ^ LENGTH(16)" using assms by (simp add: packet_fits_def RAOP_PACKET_LEN_def)
  then show ?thesis by (simp add: unsigned_ucast_eq take_bit_eq_mod)
qed

definition rtp_inv :: "('aes, 'alac, 'aac) codec_ops \<Rightarrow> nat \<Rightarrow> nat \<Rightarrow> ('aes, 'alac, 'aac) raop_rtp \<Rightarrow> bool" where
  "rtp_inv ops sz k r \<longleftrightarrow> rb_inv sz (rtp_buffer r) \<and> decoder_budget ops k (rtp_buffer r)"

lemma rtp_inv_mono: "rtp_inv ops sz k r \<Longrightarrow> j \<le> k \<Longrightarrow> rtp_inv ops sz j r"
  by (auto simp: rtp_inv_def intro: budget_mono)

text \<open>The resend requests that follow a data packet.\<close>

fun resend_events :: "u16 \<Rightarrow> (u16 \<times> int) option \<Rightarrow> rtp_event list" where
  "resend_events ourseq None = []"
| "resend_events ourseq (Some (s, count)) = [Send_Control (resend_packet ourseq s (word_of_int count))]"

lemma data_packet_plays:
  assumes inv: "rtp_inv ops sz (Suc k) r" and laws: "codec_laws ops" and fits: "packet_fits packet len"
    and len: "12 \<le> len"
  shows "\<exists>ret rb1 n r' req. raop_buffer_queue ops (rtp_buffer r) packet (ucast len) = Some (ret, rb1) \<and>
    n \<le> window rb1 \<and> rtp_inv ops sz k r' \<and> dequeue_waits (rtp_buffer r') (control_rport r = 0) \<and>
    running r' = running r \<and> control_rport r' = control_rport r \<and>
    raop_buffer_handle_resends (rtp_buffer r') = Some req \<and>
    rtp_data_packet ops r packet len = Some (r',
      map (pcm_event \<circ> queued_item sz rb1) [0..<n] @
      (if control_rport r = 0 then [] else resend_events (control_seqnum r) req))"
proof -
  let ?nr = "control_rport r = 0"
  have "12 \<le> unat len" using len by (simp add: word_le_nat_alt)
  then obtain ret rb1 where q: "raop_buffer_queue ops (rtp_buffer r) packet (ucast len) = Some (ret, rb1)" "0 \<le> ret"
    "rb_inv sz rb1" "decoder_budget ops k rb1"
    using queue_ok [of sz "rtp_buffer r" ops k "ucast len" packet] inv laws fits packet_fits_ucast [OF fits]
    by (auto simp: rtp_inv_def packet_fits_def)
  obtain n rb2 where d: "drain_with (\<lambda>rb. raop_buffer_dequeue rb ?nr) rb1 = Some (map (queued_item sz rb1) [0..<n], rb2)"
    "n \<le> window rb1" "rb_inv sz rb2" "decoder_state rb2 = decoder_state rb1" "dequeue_waits rb2 ?nr"
    using jq.drain_delivers [of sz rb1 "decoder_state rb1" ?nr] q(3) by auto
  obtain req where req: "raop_buffer_handle_resends rb2 = Some req"
    using handle_resends_total [OF d(3)] by blast
  let ?r = "r\<lparr>rtp_buffer := rb2\<rparr>"
  let ?r' = "if ?nr \<or> req = None then ?r else ?r\<lparr>control_seqnum := control_seqnum r + 1\<rparr>"
  have "rtp_data_packet ops r packet len = Some (?r', map (pcm_event \<circ> queued_item sz rb1) [0..<n] @
      (if ?nr then [] else resend_events (control_seqnum r) req))"
    using len q(1,2) d(1) req
    by (cases req) (auto simp: rtp_data_packet_def rtp_drain_def raop_rtp_resend_callback_def Let_def)
  moreover have "rtp_inv ops sz k ?r'"
    using d(3) q(4) budget_state [OF d(4)] by (simp add: rtp_inv_def)
  ultimately show ?thesis
    using q(1) d(2,5) req
    by (intro exI [of _ ret] exI [of _ rb1] exI [of _ n] exI [of _ ?r'] exI [of _ req]) auto
qed

text \<open>C4: A data packet is queued and everything that can be played is played: the blocks handed to the
  client are those at the playing position and after it, in order and each once, until the buffer
  has nothing to release; then at most one resend request goes out, for exactly what the buffer
  misses, numbered by the session's own counter, and none when the sender gave no control port.\<close>

theorem rtp_data_packet_plays:
  assumes "rtp_inv ops sz (Suc k) r" and "codec_laws ops" and "packet_fits packet len" and "12 \<le> len"
  shows "\<exists>ret rb1 n r' req. raop_buffer_queue ops (rtp_buffer r) packet (ucast len) = Some (ret, rb1) \<and>
    n \<le> window rb1 \<and> rtp_inv ops sz k r' \<and> dequeue_waits (rtp_buffer r') (control_rport r = 0) \<and>
    raop_buffer_handle_resends (rtp_buffer r') = Some req \<and>
    rtp_data_packet ops r packet len = Some (r',
      map (pcm_event \<circ> queued_item sz rb1) [0..<n] @
      (if control_rport r = 0 then [] else resend_events (control_seqnum r) req))"
  using data_packet_plays [OF assms] by blast

section \<open>A whole session\<close>

definition control_fits :: "byte list \<times> u32 \<times> byte list \<Rightarrow> bool" where
  "control_fits c = (case c of (packet, len, saddr) \<Rightarrow> packet_fits packet len \<and>
     (packet ! 1 AND NOT 0x80 = 0x56 \<longrightarrow> 16 \<le> len))"

fun action_fits :: "rtp_action \<Rightarrow> bool" where
  "action_fits (Ask q) = request_fits q"
| "action_fits (Wake (Readable ctrl dat)) = (pred_option control_fits ctrl \<and>
     pred_option (\<lambda>(packet, len). packet_fits packet len) dat)"
| "action_fits x = True"

lemma control_packet_ok:
  assumes inv: "rtp_inv ops sz (Suc k) r" and laws: "codec_laws ops" and fits: "control_fits (packet, len, saddr)"
  shows "\<exists>r'. rtp_control_packet ops r packet len saddr = Some r' \<and> rtp_inv ops sz k r' \<and> running r' = running r"
proof (cases "packet ! 1 AND NOT 0x80 = 0x56")
  case True
  have f: "packet_fits packet len" "16 \<le> unat len"
    using fits True by (auto simp: control_fits_def word_le_nat_alt)
  then have l: "unat (len - 4) = unat len - 4" by (simp add: unat_sub word_le_nat_alt)
  then have "packet_fits packet (len - 4)" using f unfolding packet_fits_def by linarith
  then have u: "unat (ucast (len - 4) :: u16) = unat len - 4" using packet_fits_ucast l by metis
  obtain ret rb where q: "raop_buffer_queue ops (rtp_buffer r) (drop 4 packet) (ucast (len - 4)) = Some (ret, rb)"
    "0 \<le> ret" "rb_inv sz rb" "decoder_budget ops k rb"
  proof -
    have "12 \<le> unat (ucast (len - 4) :: u16)" "unat (ucast (len - 4) :: u16) \<le> RAOP_PACKET_LEN"
      "unat (ucast (len - 4) :: u16) \<le> length (drop 4 packet)"
      using f unfolding u packet_fits_def by (auto simp: RAOP_PACKET_LEN_def)
    then show thesis
      using queue_ok [of sz "rtp_buffer r" ops k "ucast (len - 4)" "drop 4 packet"] inv laws that
      unfolding rtp_inv_def by blast
  qed
  have "rd packet 1 = Some (packet ! 1)" using f by (simp add: rd_def packet_fits_def RAOP_PACKET_LEN_def)
  then show ?thesis
    using True q by (simp add: rtp_control_packet_def Let_def rtp_inv_def)
next
  case False
  have "rd packet 1 = Some (packet ! 1)"
    using fits by (simp add: rd_def control_fits_def packet_fits_def RAOP_PACKET_LEN_def)
  then show ?thesis
    using False rtp_inv_mono [OF inv, of k] by (auto simp: rtp_control_packet_def Let_def rtp_inv_def)
qed

lemma process_events_keeps:
  assumes "rtp_inv ops sz k r"
  shows "\<exists>r'. raop_rtp_process_events r = (if running r then 0 else 1, r', if running r then pending_events r else []) \<and>
    rtp_inv ops sz k r' \<and> running r' = running r"
proof (cases "running r")
  case True
  have "rtp_inv ops sz k r'" if "rtp_buffer r' = rtp_buffer r \<or> rtp_buffer r' = raop_buffer_flush (rtp_buffer r) n" for r' n
    using that assms rb_inv_flush budget_state [of "raop_buffer_flush (rtp_buffer r) n"]
    by (auto simp: rtp_inv_def)
  then show ?thesis using process_events_running [OF True] True by (auto split: if_splits)
next
  case False
  then show ?thesis using assms by (simp add: raop_rtp_process_events_def)
qed

lemma ex_bool: "\<exists>b. b" "\<exists>b. \<not> b"
  by (rule exI [of _ True], simp) (rule exI [of _ False], simp)

lemma iteration_stopped: "\<not> running r \<Longrightarrow> rtp_iteration ops r w = Some (False, r, [])"
  by (simp add: rtp_iteration_def raop_rtp_process_events_def)

lemma iteration_ok:
  assumes inv: "rtp_inv ops sz (Suc (Suc k)) r" and laws: "codec_laws ops" and fits: "action_fits (Wake w)"
  shows "\<exists>goes_on r' evs. rtp_iteration ops r w = Some (goes_on, r', evs) \<and> rtp_inv ops sz k r' \<and> running r' = running r"
proof -
  obtain r1 where r1: "raop_rtp_process_events r = (if running r then 0 else 1, r1, if running r then pending_events r else [])"
    "rtp_inv ops sz (Suc (Suc k)) r1" "running r1 = running r"
    using process_events_keeps [OF inv] by blast
  have weaker: "rtp_inv ops sz k r1" "rtp_inv ops sz (Suc k) r1" using rtp_inv_mono [OF r1(2)] by auto
  show ?thesis
  proof (cases w)
    case (Readable ctrl dat)
    obtain r2 where r2: "(case ctrl of None \<Rightarrow> Some r1 | Some (packet, len, saddr) \<Rightarrow> rtp_control_packet ops r1 packet len saddr) = Some r2"
      "rtp_inv ops sz (Suc k) r2" "running r2 = running r"
    proof (cases ctrl)
      case None
      then show thesis using that weaker r1(3) by simp
    next
      case (Some c)
      obtain p l a where c: "c = (p, l, a)" by (cases c) auto
      then have "control_fits (p, l, a)" using fits Readable Some by simp
      then show thesis using control_packet_ok [OF r1(2) laws] that Some c r1(3) by fastforce
    qed
    obtain r3 evs where r3: "(case dat of None \<Rightarrow> Some (r2, []) | Some (packet, len) \<Rightarrow> rtp_data_packet ops r2 packet len) = Some (r3, evs)"
      "rtp_inv ops sz k r3" "running r3 = running r"
    proof (cases dat)
      case None
      then show thesis using that rtp_inv_mono [OF r2(2), of k] r2(3) by simp
    next
      case (Some d)
      obtain p l where d: "d = (p, l)" by (cases d) auto
      then have f: "packet_fits p l" using fits Readable Some by simp
      show thesis
      proof (cases "12 \<le> l")
        case True
        then show thesis
          using data_packet_plays [OF r2(2) laws f True] that Some d r2(3) by fastforce
      next
        case False
        then show thesis
          using that Some d rtp_inv_mono [OF r2(2), of k] r2(3) by (simp add: rtp_data_packet_def)
      qed
    qed
    show ?thesis
      using r1 r2 r3 weaker Readable by (cases "running r") (simp_all add: rtp_iteration_def ex_bool)
  qed (use r1 weaker in \<open>cases "running r", simp_all add: rtp_iteration_def ex_bool\<close>)+
qed

lemma ask_request_keeps:
  "request_fits q \<Longrightarrow> \<exists>r'. ask_request q r = Some r' \<and> rtp_buffer r' = rtp_buffer r \<and> running r' = running r"
  by (cases q) (auto simp: raop_rtp_set_volume_def raop_rtp_set_metadata_def raop_rtp_set_coverart_def slice_front
      raop_rtp_remote_control_id_def raop_rtp_set_progress_def raop_rtp_flush_def Let_def)

lemma thread_udp_stopped:
  "\<not> running r \<Longrightarrow> list_all action_fits xs \<Longrightarrow>
     \<exists>r'. raop_rtp_thread_udp ops r xs = Some (r', []) \<and> rtp_buffer r' = rtp_buffer r"
proof (induction xs arbitrary: r)
  case (Cons x xs)
  show ?case
  proof (cases x)
    case (Ask q)
    then show ?thesis using Cons ask_request_keeps [of q r] by fastforce
  next
    case Halt
    then show ?thesis using Cons.IH [of "r\<lparr>running := False\<rparr>"] Cons.prems by simp
  next
    case (Wake w)
    then show ?thesis using Cons.prems by (simp add: iteration_stopped)
  qed
qed simp


lemma queue_bad_length:
  "unat n < 12 \<or> RAOP_PACKET_LEN < unat n \<Longrightarrow> raop_buffer_queue ops rb packet n = Some (-1, rb)"
  by (auto simp: raop_buffer_queue_def)

lemma ucast_minus_one: "unat (ucast (- 1 :: u32) :: u16) = 65535"
proof -
  have "ucast (- 1 :: u32) = (- 1 :: u16)" by (rule bit_word_eqI) (simp add: bit_simps)
  then show ?thesis by (simp add: unsigned_minus_1_eq_mask mask_eq_exp_minus_1)
qed

lemma short_length:
  assumes "len < 16"
  shows "unat (ucast (len - 4 :: u32) :: u16) < 12 \<or> RAOP_PACKET_LEN < unat (ucast (len - 4) :: u16)"
proof -
  have "unat len < 16" using assms by (simp add: word_less_nat_alt)
  then have "len \<in> {0, 1, 2, 3, 4, 5, 6, 7, 8, 9, 10, 11, 12, 13, 14, 15}"
    by (simp add: word_unat_eq_iff) presburger
  then show ?thesis by (auto simp: RAOP_PACKET_LEN_def ucast_minus_one)
qed

text \<open>C38: The lengths matter: when a retransmission is too short, or a data datagram cannot be received
  (\<^verbatim>\<open>recvfrom\<close> returns -1), the queue returns -1 and the assertion of the thread ends the program.\<close>

theorem rtp_short_packet_aborts:
  assumes "length packet = RAOP_PACKET_LEN" and "packet ! 1 AND NOT 0x80 = 0x56" and "len < 16"
  shows "rtp_control_packet ops r packet len saddr = None \<and> rtp_data_packet ops r packet (- 1) = None"
proof
  have "rd packet 1 = Some (packet ! 1)" using assms(1) by (simp add: rd_def RAOP_PACKET_LEN_def)
  then show "rtp_control_packet ops r packet len saddr = None"
    using assms(2) by (simp add: rtp_control_packet_def Let_def queue_bad_length [OF short_length [OF assms(3)]])
  have "raop_buffer_queue ops (rtp_buffer r) packet (ucast (- 1 :: u32)) = Some (-1, rtp_buffer r)"
    by (rule queue_bad_length) (simp add: RAOP_PACKET_LEN_def ucast_minus_one)
  then show "rtp_data_packet ops r packet (- 1) = None"
    by (simp add: rtp_data_packet_def Let_def)
qed

section \<open>Witnesses\<close>

text \<open>A running session on the sample buffer, without and with a control port.\<close>

definition sample_rtp :: "(unit, unit, unit) raop_rtp" where
  "sample_rtp =
     \<lparr> rtp_buffer = sample_rb, remote_saddr = [], running = True, joined = False, volume = 0,
       volume_changed = False, metadata = None, coverart = None, dacp_id = None,
       active_remote_header = None, progress_start = 0, progress_curr = 0, progress_end = 0,
       progress_changed = False, flush = NO_FLUSH, control_rport = 6001, timing_rport = 6002,
       csock = 3, tsock = 4, dsock = 5, control_lport = 1, timing_lport = 2, data_lport = 3,
       control_saddr = [], control_seqnum = 0 \<rparr>"

definition sample_datagram :: "byte list" where
  "sample_datagram = sample_packet [1, 2, 3] @ replicate (RAOP_PACKET_LEN - 15) 0"

lemma sample_rtp_inv: "rtp_inv sample_ops 1920 k sample_rtp"
  using sample_inv
  by (simp add: rtp_inv_def sample_rtp_def decoder_budget_def sample_rb_def sample_ops_def raop_buffer_calloc_def
      raop_audio_config_default_aac_eld_def)

lemma sample_datagram_fits: "packet_fits sample_datagram 15"
  by (simp add: packet_fits_def sample_datagram_def sample_packet_def RAOP_PACKET_LEN_def)

lemma sample_datagram_type: "sample_datagram ! 1 AND NOT 0x80 \<noteq> 0x56"
  by (simp add: sample_datagram_def sample_packet_def)


theorem rtp_data_packet_plays_witness:
  "\<exists>r' evs. rtp_data_packet sample_ops sample_rtp sample_datagram 15 = Some (r', evs) \<and>
     rb_inv 1920 (rtp_buffer r') \<and> dequeue_waits (rtp_buffer r') False"
proof -
  have "(12 :: u32) \<le> 15" by simp
  moreover have "control_rport sample_rtp \<noteq> 0" by (simp add: sample_rtp_def)
  ultimately show ?thesis
    using rtp_data_packet_plays [OF sample_rtp_inv [of "Suc 0"] sample_laws sample_datagram_fits]
    by (fastforce simp: rtp_inv_def)
qed


theorem rtp_short_packet_aborts_witness:
  "rtp_control_packet sample_ops sample_rtp ([0x80, 0xd6] @ replicate (RAOP_PACKET_LEN - 2) 0) 15 [] = None"
  by (rule rtp_short_packet_aborts [THEN conjunct1]) (simp_all add: RAOP_PACKET_LEN_def)

end
