(* ===== verification/Tiny_Aes.thy ===== *)
theory Tiny_Aes
  imports Interfaces
begin

text \<open>
  \<^verbatim>\<open>aes.c\<close>: AES-128 as the mirror stream uses it, with its tables, the key expansion, the cipher
  and its inverse, and the CBC and CTR modes.  The state \<^verbatim>\<open>state_t\<close>, four rows of four bytes over
  the buffer, is the list of its 16 bytes: element \<^verbatim>\<open>[i][j]\<close> is byte 4 * i + j.
\<close>

unbundle bit_operations_syntax

section \<open>Tables\<close>

definition sbox :: "byte list" where
  "sbox = [
      0x63, 0x7c, 0x77, 0x7b, 0xf2, 0x6b, 0x6f, 0xc5, 0x30, 0x01, 0x67, 0x2b, 0xfe, 0xd7, 0xab, 0x76,
      0xca, 0x82, 0xc9, 0x7d, 0xfa, 0x59, 0x47, 0xf0, 0xad, 0xd4, 0xa2, 0xaf, 0x9c, 0xa4, 0x72, 0xc0,
      0xb7, 0xfd, 0x93, 0x26, 0x36, 0x3f, 0xf7, 0xcc, 0x34, 0xa5, 0xe5, 0xf1, 0x71, 0xd8, 0x31, 0x15,
      0x04, 0xc7, 0x23, 0xc3, 0x18, 0x96, 0x05, 0x9a, 0x07, 0x12, 0x80, 0xe2, 0xeb, 0x27, 0xb2, 0x75,
      0x09, 0x83, 0x2c, 0x1a, 0x1b, 0x6e, 0x5a, 0xa0, 0x52, 0x3b, 0xd6, 0xb3, 0x29, 0xe3, 0x2f, 0x84,
      0x53, 0xd1, 0x00, 0xed, 0x20, 0xfc, 0xb1, 0x5b, 0x6a, 0xcb, 0xbe, 0x39, 0x4a, 0x4c, 0x58, 0xcf,
      0xd0, 0xef, 0xaa, 0xfb, 0x43, 0x4d, 0x33, 0x85, 0x45, 0xf9, 0x02, 0x7f, 0x50, 0x3c, 0x9f, 0xa8,
      0x51, 0xa3, 0x40, 0x8f, 0x92, 0x9d, 0x38, 0xf5, 0xbc, 0xb6, 0xda, 0x21, 0x10, 0xff, 0xf3, 0xd2,
      0xcd, 0x0c, 0x13, 0xec, 0x5f, 0x97, 0x44, 0x17, 0xc4, 0xa7, 0x7e, 0x3d, 0x64, 0x5d, 0x19, 0x73,
      0x60, 0x81, 0x4f, 0xdc, 0x22, 0x2a, 0x90, 0x88, 0x46, 0xee, 0xb8, 0x14, 0xde, 0x5e, 0x0b, 0xdb,
      0xe0, 0x32, 0x3a, 0x0a, 0x49, 0x06, 0x24, 0x5c, 0xc2, 0xd3, 0xac, 0x62, 0x91, 0x95, 0xe4, 0x79,
      0xe7, 0xc8, 0x37, 0x6d, 0x8d, 0xd5, 0x4e, 0xa9, 0x6c, 0x56, 0xf4, 0xea, 0x65, 0x7a, 0xae, 0x08,
      0xba, 0x78, 0x25, 0x2e, 0x1c, 0xa6, 0xb4, 0xc6, 0xe8, 0xdd, 0x74, 0x1f, 0x4b, 0xbd, 0x8b, 0x8a,
      0x70, 0x3e, 0xb5, 0x66, 0x48, 0x03, 0xf6, 0x0e, 0x61, 0x35, 0x57, 0xb9, 0x86, 0xc1, 0x1d, 0x9e,
      0xe1, 0xf8, 0x98, 0x11, 0x69, 0xd9, 0x8e, 0x94, 0x9b, 0x1e, 0x87, 0xe9, 0xce, 0x55, 0x28, 0xdf,
      0x8c, 0xa1, 0x89, 0x0d, 0xbf, 0xe6, 0x42, 0x68, 0x41, 0x99, 0x2d, 0x0f, 0xb0, 0x54, 0xbb, 0x16]"

definition rsbox :: "byte list" where
  "rsbox = [
      0x52, 0x09, 0x6a, 0xd5, 0x30, 0x36, 0xa5, 0x38, 0xbf, 0x40, 0xa3, 0x9e, 0x81, 0xf3, 0xd7, 0xfb,
      0x7c, 0xe3, 0x39, 0x82, 0x9b, 0x2f, 0xff, 0x87, 0x34, 0x8e, 0x43, 0x44, 0xc4, 0xde, 0xe9, 0xcb,
      0x54, 0x7b, 0x94, 0x32, 0xa6, 0xc2, 0x23, 0x3d, 0xee, 0x4c, 0x95, 0x0b, 0x42, 0xfa, 0xc3, 0x4e,
      0x08, 0x2e, 0xa1, 0x66, 0x28, 0xd9, 0x24, 0xb2, 0x76, 0x5b, 0xa2, 0x49, 0x6d, 0x8b, 0xd1, 0x25,
      0x72, 0xf8, 0xf6, 0x64, 0x86, 0x68, 0x98, 0x16, 0xd4, 0xa4, 0x5c, 0xcc, 0x5d, 0x65, 0xb6, 0x92,
      0x6c, 0x70, 0x48, 0x50, 0xfd, 0xed, 0xb9, 0xda, 0x5e, 0x15, 0x46, 0x57, 0xa7, 0x8d, 0x9d, 0x84,
      0x90, 0xd8, 0xab, 0x00, 0x8c, 0xbc, 0xd3, 0x0a, 0xf7, 0xe4, 0x58, 0x05, 0xb8, 0xb3, 0x45, 0x06,
      0xd0, 0x2c, 0x1e, 0x8f, 0xca, 0x3f, 0x0f, 0x02, 0xc1, 0xaf, 0xbd, 0x03, 0x01, 0x13, 0x8a, 0x6b,
      0x3a, 0x91, 0x11, 0x41, 0x4f, 0x67, 0xdc, 0xea, 0x97, 0xf2, 0xcf, 0xce, 0xf0, 0xb4, 0xe6, 0x73,
      0x96, 0xac, 0x74, 0x22, 0xe7, 0xad, 0x35, 0x85, 0xe2, 0xf9, 0x37, 0xe8, 0x1c, 0x75, 0xdf, 0x6e,
      0x47, 0xf1, 0x1a, 0x71, 0x1d, 0x29, 0xc5, 0x89, 0x6f, 0xb7, 0x62, 0x0e, 0xaa, 0x18, 0xbe, 0x1b,
      0xfc, 0x56, 0x3e, 0x4b, 0xc6, 0xd2, 0x79, 0x20, 0x9a, 0xdb, 0xc0, 0xfe, 0x78, 0xcd, 0x5a, 0xf4,
      0x1f, 0xdd, 0xa8, 0x33, 0x88, 0x07, 0xc7, 0x31, 0xb1, 0x12, 0x10, 0x59, 0x27, 0x80, 0xec, 0x5f,
      0x60, 0x51, 0x7f, 0xa9, 0x19, 0xb5, 0x4a, 0x0d, 0x2d, 0xe5, 0x7a, 0x9f, 0x93, 0xc9, 0x9c, 0xef,
      0xa0, 0xe0, 0x3b, 0x4d, 0xae, 0x2a, 0xf5, 0xb0, 0xc8, 0xeb, 0xbb, 0x3c, 0x83, 0x53, 0x99, 0x61,
      0x17, 0x2b, 0x04, 0x7e, 0xba, 0x77, 0xd6, 0x26, 0xe1, 0x69, 0x14, 0x63, 0x55, 0x21, 0x0c, 0x7d]"

definition Rcon :: "byte list" where
  "Rcon = [0x8d, 0x01, 0x02, 0x04, 0x08, 0x10, 0x20, 0x40, 0x80, 0x1b, 0x36]"

definition getSBoxValue :: "byte \<Rightarrow> byte" where
  "getSBoxValue num = sbox ! unat num"

definition getSBoxInvert :: "byte \<Rightarrow> byte" where
  "getSBoxInvert num = rsbox ! unat num"

definition Nr :: nat where
  "Nr = 10"

record AES_ctx =
  RoundKey :: "byte list"
  Iv :: "byte list"

section \<open>Key expansion\<close>

text \<open>One iteration of the loop: the four bytes written at \<^verbatim>\<open>j = 4 * i\<close>, behind those written so far.\<close>

definition key_word :: "byte list \<Rightarrow> nat \<Rightarrow> byte list" where
  "key_word rk i = (
     let k = (i - 1) * 4;
         t0 = rk ! k; t1 = rk ! (k + 1); t2 = rk ! (k + 2); t3 = rk ! (k + 3);
         (t0, t1, t2, t3) =
           (if i mod 4 = 0
            then (getSBoxValue t1 XOR Rcon ! (i div 4), getSBoxValue t2, getSBoxValue t3, getSBoxValue t0)
            else (t0, t1, t2, t3));
         k = (i - 4) * 4
     in [rk ! k XOR t0, rk ! (k + 1) XOR t1, rk ! (k + 2) XOR t2, rk ! (k + 3) XOR t3])"

definition KeyExpansion :: "byte list \<Rightarrow> byte list" where
  "KeyExpansion Key = foldl (\<lambda>rk i. rk @ key_word rk i) (take 16 Key) [4..<4 * (Nr + 1)]"

definition AES_init_ctx_iv :: "byte list \<Rightarrow> byte list \<Rightarrow> AES_ctx" where
  "AES_init_ctx_iv key iv = \<lparr> RoundKey = KeyExpansion key, Iv = take 16 iv \<rparr>"

section \<open>The cipher\<close>

definition AddRoundKey :: "nat \<Rightarrow> byte list \<Rightarrow> byte list \<Rightarrow> byte list" where
  "AddRoundKey round st rk = map2 (\<lambda>x k. x XOR k) st (take 16 (drop (round * 4 * 4) rk))"

definition SubBytes :: "byte list \<Rightarrow> byte list" where
  "SubBytes st = map getSBoxValue st"

text \<open>Row j of the matrix is the bytes 4 * i + j; it is rotated by j.\<close>

fun ShiftRows :: "byte list \<Rightarrow> byte list" where
  "ShiftRows [s00, s01, s02, s03, s10, s11, s12, s13, s20, s21, s22, s23, s30, s31, s32, s33] =
     [s00, s11, s22, s33, s10, s21, s32, s03, s20, s31, s02, s13, s30, s01, s12, s23]"
| "ShiftRows st = st"

definition xtime :: "byte \<Rightarrow> byte" where
  "xtime x = push_bit 1 x XOR (drop_bit 7 x AND 1) * 0x1b"

fun MixColumns :: "byte list \<Rightarrow> byte list" where
  "MixColumns (a # b # c # d # rest) = (
     let t = a;
         Tmp = a XOR b XOR c XOR d;
         a' = a XOR (xtime (a XOR b) XOR Tmp);
         b' = b XOR (xtime (b XOR c) XOR Tmp);
         c' = c XOR (xtime (c XOR d) XOR Tmp);
         d' = d XOR (xtime (d XOR t) XOR Tmp)
     in a' # b' # c' # d' # MixColumns rest)"
| "MixColumns st = st"

definition Multiply :: "byte \<Rightarrow> byte \<Rightarrow> byte" where
  "Multiply x y =
     (y AND 1) * x XOR
     (drop_bit 1 y AND 1) * xtime x XOR
     (drop_bit 2 y AND 1) * xtime (xtime x) XOR
     (drop_bit 3 y AND 1) * xtime (xtime (xtime x)) XOR
     (drop_bit 4 y AND 1) * xtime (xtime (xtime (xtime x)))"

fun InvMixColumns :: "byte list \<Rightarrow> byte list" where
  "InvMixColumns (a # b # c # d # rest) =
     (Multiply a 0x0e XOR Multiply b 0x0b XOR Multiply c 0x0d XOR Multiply d 0x09) #
     (Multiply a 0x09 XOR Multiply b 0x0e XOR Multiply c 0x0b XOR Multiply d 0x0d) #
     (Multiply a 0x0d XOR Multiply b 0x09 XOR Multiply c 0x0e XOR Multiply d 0x0b) #
     (Multiply a 0x0b XOR Multiply b 0x0d XOR Multiply c 0x09 XOR Multiply d 0x0e) #
     InvMixColumns rest"
| "InvMixColumns st = st"

definition InvSubBytes :: "byte list \<Rightarrow> byte list" where
  "InvSubBytes st = map getSBoxInvert st"

fun InvShiftRows :: "byte list \<Rightarrow> byte list" where
  "InvShiftRows [s00, s01, s02, s03, s10, s11, s12, s13, s20, s21, s22, s23, s30, s31, s32, s33] =
     [s00, s31, s22, s13, s10, s01, s32, s23, s20, s11, s02, s33, s30, s21, s12, s03]"
| "InvShiftRows st = st"

definition cipher_round :: "byte list \<Rightarrow> byte list \<Rightarrow> nat \<Rightarrow> byte list" where
  "cipher_round rk st round = AddRoundKey round (MixColumns (ShiftRows (SubBytes st))) rk"

definition Cipher :: "byte list \<Rightarrow> byte list \<Rightarrow> byte list" where
  "Cipher st rk = (
     let st = AddRoundKey 0 st rk;
         st = foldl (cipher_round rk) st [1..<Nr]
     in AddRoundKey Nr (ShiftRows (SubBytes st)) rk)"

definition inv_cipher_round :: "byte list \<Rightarrow> byte list \<Rightarrow> nat \<Rightarrow> byte list" where
  "inv_cipher_round rk st round = InvMixColumns (AddRoundKey round (InvSubBytes (InvShiftRows st)) rk)"

definition InvCipher :: "byte list \<Rightarrow> byte list \<Rightarrow> byte list" where
  "InvCipher st rk = (
     let st = AddRoundKey Nr st rk;
         st = foldl (inv_cipher_round rk) st (rev [1..<Nr])
     in AddRoundKey 0 (InvSubBytes (InvShiftRows st)) rk)"

definition AES_ECB_encrypt :: "AES_ctx \<Rightarrow> byte list \<Rightarrow> byte list option" where
  "AES_ECB_encrypt ctx buf = do {
     blk \<leftarrow> slice 0 16 buf;
     Some (Cipher blk (RoundKey ctx) @ drop 16 buf)
   }"

definition AES_ECB_decrypt :: "AES_ctx \<Rightarrow> byte list \<Rightarrow> byte list option" where
  "AES_ECB_decrypt ctx buf = do {
     blk \<leftarrow> slice 0 16 buf;
     Some (InvCipher blk (RoundKey ctx) @ drop 16 buf)
   }"

section \<open>CBC\<close>

definition XorWithIv :: "byte list \<Rightarrow> byte list \<Rightarrow> byte list" where
  "XorWithIv buf iv = map2 (\<lambda>x y. x XOR y) buf iv"

text \<open>
  The loops run over the rest of the buffer, in whole blocks: a length that is not a multiple
  of 16 makes the last iteration run past it, which is \<^verbatim>\<open>None\<close> when the buffer ends there.
\<close>

fun cbc_encrypt_blocks :: "byte list \<Rightarrow> byte list \<Rightarrow> byte list \<Rightarrow> nat \<Rightarrow> (byte list \<times> byte list) option" where
  "cbc_encrypt_blocks rk iv buf 0 = Some (buf, iv)"
| "cbc_encrypt_blocks rk iv buf (Suc n) = do {
     blk \<leftarrow> slice 0 16 buf;
     let c = Cipher (XorWithIv blk iv) rk;
     (rest, iv') \<leftarrow> cbc_encrypt_blocks rk c (drop 16 buf) n;
     Some (c @ rest, iv')
   }"

definition AES_CBC_encrypt_buffer :: "AES_ctx \<Rightarrow> byte list \<Rightarrow> nat \<Rightarrow> (AES_ctx \<times> byte list) option" where
  "AES_CBC_encrypt_buffer ctx buf len = do {
     (buf', iv) \<leftarrow> cbc_encrypt_blocks (RoundKey ctx) (Iv ctx) buf ((len + 15) div 16);
     Some (ctx\<lparr>Iv := iv\<rparr>, buf')
   }"

fun cbc_decrypt_blocks :: "byte list \<Rightarrow> byte list \<Rightarrow> byte list \<Rightarrow> nat \<Rightarrow> (byte list \<times> byte list) option" where
  "cbc_decrypt_blocks rk iv buf 0 = Some (buf, iv)"
| "cbc_decrypt_blocks rk iv buf (Suc n) = do {
     blk \<leftarrow> slice 0 16 buf;
     let d = XorWithIv (InvCipher blk rk) iv;
     (rest, iv') \<leftarrow> cbc_decrypt_blocks rk blk (drop 16 buf) n;
     Some (d @ rest, iv')
   }"

definition AES_CBC_decrypt_buffer :: "AES_ctx \<Rightarrow> byte list \<Rightarrow> nat \<Rightarrow> (AES_ctx \<times> byte list) option" where
  "AES_CBC_decrypt_buffer ctx buf len = do {
     (buf', iv) \<leftarrow> cbc_decrypt_blocks (RoundKey ctx) (Iv ctx) buf ((len + 15) div 16);
     Some (ctx\<lparr>Iv := iv\<rparr>, buf')
   }"

section \<open>CTR\<close>

text \<open>
  The counter is big-endian: the loop over \<^verbatim>\<open>bi\<close> walks from the last byte while bytes are 255.
  Here the list is given last byte first.
\<close>

fun inc_rev :: "byte list \<Rightarrow> byte list" where
  "inc_rev [] = []"
| "inc_rev (b # bs) = (if b = 255 then 0 # inc_rev bs else (b + 1) # bs)"

definition inc_iv :: "byte list \<Rightarrow> byte list" where
  "inc_iv iv = rev (inc_rev (rev iv))"

text \<open>
  The byte loop: \<^verbatim>\<open>ks\<close> is what is left of the 16-byte key stream block, fetched when it is used up.
\<close>

fun ctr_bytes :: "AES_ctx \<Rightarrow> byte list \<Rightarrow> byte list \<Rightarrow> AES_ctx \<times> byte list" where
  "ctr_bytes ctx ks [] = (ctx, [])"
| "ctr_bytes ctx (k # ks) (b # bs) = (
     let (ctx, out) = ctr_bytes ctx ks bs in (ctx, (b XOR k) # out))"
| "ctr_bytes ctx [] (b # bs) = (
     let buffer = Cipher (Iv ctx) (RoundKey ctx);
         ctx = ctx\<lparr>Iv := inc_iv (Iv ctx)\<rparr>
     in let (ctx, out) = ctr_bytes ctx (tl buffer) bs in (ctx, (b XOR hd buffer) # out))"

text \<open>Every call starts a fresh key stream block; \<^verbatim>\<open>length\<close> bytes from \<^verbatim>\<open>off\<close> are changed in place.\<close>

definition AES_CTR_xcrypt_buffer ::
  "AES_ctx \<Rightarrow> byte list \<Rightarrow> nat \<Rightarrow> nat \<Rightarrow> (AES_ctx \<times> byte list) option" where
  "AES_CTR_xcrypt_buffer ctx buf off len = do {
     data \<leftarrow> slice off len buf;
     let (ctx, out) = ctr_bytes ctx [] data;
     buf \<leftarrow> memcpy buf off out;
     Some (ctx, buf)
   }"

section \<open>The S-boxes are inverse to each other\<close>

lemma sbox_tables: "map (\<lambda>i. rsbox ! unat (sbox ! i)) [0..<256] = map of_nat [0..<256]"
  by code_simp

lemma InvSBox_SBox [simp]: "getSBoxInvert (getSBoxValue x) = x"
proof -
  have "unat x < 256" by (rule unat_byte_less)
  then have "map (\<lambda>i. rsbox ! unat (sbox ! i)) [0..<256] ! unat x = rsbox ! unat (sbox ! unat x)" by simp
  moreover have "(map of_nat [0..<256] :: byte list) ! unat x = x" using \<open>unat x < 256\<close> by simp
  ultimately show ?thesis by (simp add: sbox_tables getSBoxInvert_def getSBoxValue_def)
qed

lemma InvSubBytes_SubBytes: "InvSubBytes (SubBytes st) = st"
  by (simp add: InvSubBytes_def SubBytes_def comp_def)

section \<open>The rounds are invertible\<close>

lemma xtime_xor: "xtime (x XOR y) = xtime x XOR xtime y"
proof -
  have hi: "drop_bit 7 x AND 1 = 0 \<or> drop_bit 7 x AND 1 = 1" for x :: byte
    by (simp add: and_one_eq mod_2_eq_odd)
  have "drop_bit 7 (x XOR y) AND 1 = (drop_bit 7 x AND 1) XOR (drop_bit 7 y AND 1)"
    by (rule bit_eqI) (auto simp: bit_simps)
  moreover have "push_bit 1 (x XOR y) = push_bit 1 x XOR push_bit 1 y"
    by (rule bit_eqI) (auto simp: bit_simps)
  ultimately show ?thesis
    using hi [of x] hi [of y] by (auto simp: xtime_def xor.assoc xor.left_commute xor.commute)
qed

lemma Multiply_consts:
  "Multiply x 0x0e = xtime x XOR xtime (xtime x) XOR xtime (xtime (xtime x))"
  "Multiply x 0x0b = x XOR xtime x XOR xtime (xtime (xtime x))"
  "Multiply x 0x0d = x XOR xtime (xtime x) XOR xtime (xtime (xtime x))"
  "Multiply x 0x09 = x XOR xtime (xtime (xtime x))"
  by (simp_all add: Multiply_def)

lemmas xor_ac = xor.assoc xor.left_commute xor.commute

lemma xor_cancel_left [simp]: "(x :: byte) XOR (x XOR y) = y"
  by (simp flip: xor.assoc)

lemma InvMix_Mix_column:
  "InvMixColumns (MixColumns [a, b, c, d]) = [a, b, c, d]"
  by (simp add: Let_def Multiply_consts xtime_xor xor_ac)

lemma state_cases:
  assumes "length (st :: byte list) = 16"
  obtains s0 s1 s2 s3 s4 s5 s6 s7 s8 s9 s10 s11 s12 s13 s14 s15 where "st = [s0, s1, s2, s3, s4, s5, s6, s7, s8, s9, s10, s11, s12, s13, s14, s15]"
proof (rule that)
  show "st = [st ! 0, st ! 1, st ! 2, st ! 3, st ! 4, st ! 5, st ! 6, st ! 7, st ! 8, st ! 9, st ! 10, st ! 11, st ! 12, st ! 13, st ! 14, st ! 15]"
    using map_nth [of st] unfolding assms by (simp add: upt_rec numeral_eq_Suc)
qed

lemma InvShiftRows_ShiftRows: "length st = 16 \<Longrightarrow> InvShiftRows (ShiftRows st) = st"
  by (erule state_cases) simp

lemma InvMixColumns_MixColumns: "length st = 16 \<Longrightarrow> InvMixColumns (MixColumns st) = st"
  by (erule state_cases) (simp add: Let_def Multiply_consts xtime_xor xor_ac)

lemma length_ShiftRows [simp]: "length (ShiftRows st) = length st"
  by (rule ShiftRows.cases [of st]) simp_all

lemma length_InvShiftRows [simp]: "length (InvShiftRows st) = length st"
  by (rule InvShiftRows.cases [of st]) simp_all

lemma length_SubBytes [simp]: "length (SubBytes st) = length st"
  by (simp add: SubBytes_def)

lemma length_InvSubBytes [simp]: "length (InvSubBytes st) = length st"
  by (simp add: InvSubBytes_def)

lemma length_MixColumns [simp]: "length (MixColumns st) = length st"
  by (induction st rule: MixColumns.induct) (simp_all add: Let_def)

lemma length_InvMixColumns [simp]: "length (InvMixColumns st) = length st"
  by (induction st rule: InvMixColumns.induct) simp_all

text \<open>A round key schedule long enough for all rounds.\<close>

definition schedule :: "byte list \<Rightarrow> bool" where
  "schedule rk \<longleftrightarrow> length rk = 176"

lemma length_AddRoundKey:
  assumes "schedule rk" and "round \<le> 10" and "length st = 16"
  shows "length (AddRoundKey round st rk) = 16"
  using assms by (simp add: AddRoundKey_def schedule_def)

lemma AddRoundKey_involutive:
  assumes "schedule rk" and "round \<le> 10" and "length st = 16"
  shows "AddRoundKey round (AddRoundKey round st rk) rk = st"
  using assms by (intro nth_equalityI) (auto simp: AddRoundKey_def schedule_def xor.assoc)

lemma InvSub_InvShift:
  assumes "length st = 16"
  shows "InvSubBytes (InvShiftRows (ShiftRows (SubBytes st))) = st"
  using assms by (simp add: InvShiftRows_ShiftRows InvSubBytes_SubBytes)

lemma length_cipher_round:
  assumes "schedule rk" and "length st = 16" and "r \<le> 10"
  shows "length (cipher_round rk st r) = 16"
  using assms by (simp add: cipher_round_def length_AddRoundKey)

lemma length_cipher_rounds:
  assumes "schedule rk" and "length st = 16" and "\<forall>r \<in> set rs. r \<le> 10"
  shows "length (foldl (cipher_round rk) st rs) = 16"
  using assms(2,3)
  by (induction rs arbitrary: st) (simp_all add: length_cipher_round [OF assms(1)])

lemma length_Cipher [simp]:
  assumes "schedule rk" and "length st = 16"
  shows "length (Cipher st rk) = 16"
  using assms by (simp add: Cipher_def Nr_def length_AddRoundKey length_cipher_rounds)

text \<open>An inverse round undoes a round, seen just before the key is added.\<close>

lemma inv_cipher_round:
  assumes "schedule rk" and "length st = 16" and "r \<le> 10"
  shows "inv_cipher_round rk (ShiftRows (SubBytes (cipher_round rk st r))) r = ShiftRows (SubBytes st)"
proof -
  have "length (cipher_round rk st r) = 16" by (rule length_cipher_round [OF assms])
  then show ?thesis
    using assms
    by (simp add: inv_cipher_round_def InvSub_InvShift)
      (simp add: cipher_round_def AddRoundKey_involutive InvMixColumns_MixColumns)
qed

lemma inv_cipher_rounds:
  assumes "schedule rk" and "length st = 16" and "\<forall>r \<in> set rs. r \<le> 10"
  shows "foldl (inv_cipher_round rk) (ShiftRows (SubBytes (foldl (cipher_round rk) st rs))) (rev rs) =
    ShiftRows (SubBytes st)"
  using assms(2,3)
proof (induction rs arbitrary: st)
  case (Cons r rs)
  then show ?case
    using inv_cipher_round [OF assms(1), of st r] length_cipher_round [OF assms(1), of st r] by simp
qed simp

lemma InvCipher_Cipher:
  assumes rk: "schedule rk" and st: "length st = 16"
  shows "InvCipher (Cipher st rk) rk = st"
proof -
  let ?s0 = "AddRoundKey 0 st rk" and ?rs = "[1..<Nr]"
  have s0: "length ?s0 = 16" using rk st by (simp add: length_AddRoundKey)
  have rs: "\<forall>r \<in> set ?rs. r \<le> 10" by (simp add: Nr_def)
  let ?s9 = "foldl (cipher_round rk) ?s0 ?rs"
  have s9: "length ?s9 = 16" by (rule length_cipher_rounds [OF rk s0 rs])
  have "AddRoundKey Nr (Cipher st rk) rk = ShiftRows (SubBytes ?s9)"
    using rk s9 by (simp add: Cipher_def Nr_def AddRoundKey_involutive)
  then have "InvCipher (Cipher st rk) rk = AddRoundKey 0 (InvSubBytes (InvShiftRows
      (foldl (inv_cipher_round rk) (ShiftRows (SubBytes ?s9)) (rev ?rs)))) rk"
    by (simp add: InvCipher_def Let_def)
  also have "\<dots> = st"
    using rk st s0 by (simp only: inv_cipher_rounds [OF rk s0 rs] InvSub_InvShift)
      (simp add: AddRoundKey_involutive)
  finally show ?thesis .
qed

lemma length_key_word [simp]: "length (key_word rk i) = 4"
  by (simp add: key_word_def Let_def split_def)

text \<open>The key expansion yields 11 round keys, the first of them the key.\<close>

lemma KeyExpansion_prefix:
  assumes "length Key = 16"
  shows "length (foldl (\<lambda>rk i. rk @ key_word rk i) (take 16 Key) [4..<n + 4]) = 16 + 4 * n \<and>
    take 16 (foldl (\<lambda>rk i. rk @ key_word rk i) (take 16 Key) [4..<n + 4]) = Key"
proof (induction n)
  case (Suc n)
  have "[4..<Suc n + 4] = [4..<n + 4] @ [n + 4]" by (simp only: add_Suc upt_Suc) simp
  then show ?case using Suc by (simp only: foldl_append foldl.simps) simp
qed (use assms in simp)

lemma schedule_KeyExpansion:
  assumes "length Key = 16"
  shows "schedule (KeyExpansion Key)"
proof -
  have "4 * (Nr + 1) = 40 + 4" by (simp add: Nr_def)
  moreover have "(16 :: nat) + 4 * 40 = 176" by simp
  ultimately show ?thesis
    using KeyExpansion_prefix [OF assms, of 40] by (simp only: schedule_def KeyExpansion_def)
qed

text \<open>Decrypting a block with the inverse cipher gives back the block the cipher encrypted, for every
  key: the tables, the row shifts, the column mixing and the order of the round keys match.\<close>

theorem AES_ECB_roundtrip:
  assumes "length key = 16" and "length buf = 16"
  shows "Option.bind (AES_ECB_encrypt (AES_init_ctx_iv key iv) buf) (AES_ECB_decrypt (AES_init_ctx_iv key iv)) = Some buf"
  using assms schedule_KeyExpansion [of key]
  by (simp add: AES_ECB_encrypt_def AES_ECB_decrypt_def AES_init_ctx_iv_def slice_def InvCipher_Cipher)

section \<open>CBC round trip\<close>

lemma XorWithIv_involutive:
  "length buf = 16 \<Longrightarrow> length iv = 16 \<Longrightarrow> XorWithIv (XorWithIv buf iv) iv = buf"
  by (intro nth_equalityI) (auto simp: XorWithIv_def xor.assoc)

lemma cbc_blocks_roundtrip:
  assumes "schedule rk" and "length iv = 16" and "length buf = 16 * n"
  shows "\<exists>c iv'. cbc_encrypt_blocks rk iv buf n = Some (c, iv') \<and> length c = 16 * n \<and> length iv' = 16 \<and>
    cbc_decrypt_blocks rk iv c n = Some (buf, iv')"
  using assms(2,3)
proof (induction n arbitrary: iv buf)
  case (Suc n)
  let ?x = "XorWithIv (take 16 buf) iv"
  have x: "length ?x = 16" using Suc.prems by (simp add: XorWithIv_def)
  let ?c = "Cipher ?x rk"
  have c: "length ?c = 16" using x assms(1) by simp
  obtain r iv' where r: "cbc_encrypt_blocks rk ?c (drop 16 buf) n = Some (r, iv')" "length r = 16 * n"
    "length iv' = 16" "cbc_decrypt_blocks rk ?c r n = Some (drop 16 buf, iv')"
    using Suc.IH [OF c, of "drop 16 buf"] Suc.prems by auto
  have sl: "slice 0 16 buf = Some (take 16 buf)" "slice 0 16 (?c @ r) = Some ?c"
    using Suc.prems c by (simp_all add: slice_def)
  have "XorWithIv (InvCipher ?c rk) iv = take 16 buf"
    using Suc.prems x assms(1) by (simp add: InvCipher_Cipher XorWithIv_involutive)
  then show ?case
    using r sl c by (simp add: Let_def)
qed simp

text \<open>CBC decryption with the same key and initialisation vector undoes CBC encryption of any
  whole number of blocks, and both leave the same chaining value.\<close>

theorem AES_CBC_roundtrip:
  assumes "length key = 16" and "length iv = 16" and "length buf = 16 * n"
  shows "\<exists>ctx c. AES_CBC_encrypt_buffer (AES_init_ctx_iv key iv) buf (16 * n) = Some (ctx, c) \<and>
    AES_CBC_decrypt_buffer (AES_init_ctx_iv key iv) c (16 * n) = Some (ctx, buf)"
proof -
  have n: "(16 * n + 15) div 16 = n" by simp
  show ?thesis
    using cbc_blocks_roundtrip [OF schedule_KeyExpansion [OF assms(1)] assms(2,3)] assms(2) n
    by (auto simp: AES_CBC_encrypt_buffer_def AES_CBC_decrypt_buffer_def AES_init_ctx_iv_def)
qed

section \<open>The CTR key stream\<close>

text \<open>Byte i of the key stream of a context.\<close>

definition keystream :: "AES_ctx \<Rightarrow> nat \<Rightarrow> byte" where
  "keystream ctx i = Cipher ((inc_iv ^^ (i div 16)) (Iv ctx)) (RoundKey ctx) ! (i mod 16)"

definition ctr_advance :: "nat \<Rightarrow> AES_ctx \<Rightarrow> AES_ctx" where
  "ctr_advance n ctx = ctx\<lparr>Iv := (inc_iv ^^ n) (Iv ctx)\<rparr>"

definition ctr_ready :: "AES_ctx \<Rightarrow> bool" where
  "ctr_ready ctx \<longleftrightarrow> schedule (RoundKey ctx) \<and> length (Iv ctx) = 16"

lemma length_inc_rev [simp]: "length (inc_rev bs) = length bs"
  by (induction bs) simp_all

lemma length_inc_iv [simp]: "length (inc_iv iv) = length iv"
  by (simp add: inc_iv_def)

lemma length_inc_iv_iter [simp]: "length ((inc_iv ^^ n) iv) = length iv"
  by (induction n) simp_all

lemma ctr_ready_init: "length key = 16 \<Longrightarrow> 16 \<le> length iv \<Longrightarrow> ctr_ready (AES_init_ctx_iv key iv)"
  by (simp add: ctr_ready_def AES_init_ctx_iv_def schedule_KeyExpansion)

lemma ctr_ready_advance [simp]: "ctr_ready (ctr_advance n ctx) = ctr_ready ctx"
  by (simp add: ctr_ready_def ctr_advance_def)

lemma ctr_advance_0 [simp]: "ctr_advance 0 ctx = ctx"
  by (simp add: ctr_advance_def)

lemma ctr_advance_add: "ctr_advance m (ctr_advance n ctx) = ctr_advance (n + m) ctx"
  by (simp add: ctr_advance_def funpow_add add.commute)

lemma keystream_advance: "keystream (ctr_advance n ctx) i = keystream ctx (16 * n + i)"
proof -
  have "(16 * n + i) div 16 = i div 16 + n" by simp
  then have "(inc_iv ^^ ((16 * n + i) div 16)) (Iv ctx) = (inc_iv ^^ (i div 16)) ((inc_iv ^^ n) (Iv ctx))"
    by (simp only: funpow_add comp_def)
  then show ?thesis by (simp add: keystream_def ctr_advance_def)
qed

lemma keystream_block:
  assumes "i < 16"
  shows "Cipher (Iv ctx) (RoundKey ctx) ! i = keystream ctx i"
  using assms by (simp add: keystream_def)

text \<open>Blocks fetched for n bytes when r bytes of the current block are left.\<close>

definition ctr_blocks :: "nat \<Rightarrow> nat \<Rightarrow> nat" where
  "ctr_blocks r n = (n - r + 15) div 16"

lemma ctr_bytes_spec:
  assumes "ctr_ready ctx" and "length ks < 16"
  shows "ctr_bytes ctx ks data =
    (ctr_advance (ctr_blocks (length ks) (length data)) ctx,
     map (\<lambda>i. data ! i XOR (if i < length ks then ks ! i else keystream ctx (i - length ks))) [0..<length data])"
  using assms
proof (induction ctx ks data rule: ctr_bytes.induct)
  case (1 ctx ks)
  then show ?case by (simp add: ctr_blocks_def)
next
  case (2 ctx k ks b bs)
  have eq: "[0..<length (b # bs)] = 0 # map Suc [0..<length bs]"
    by (simp add: map_Suc_upt upt_conv_Cons del: upt_Suc)
  show ?case
    using 2 unfolding eq by (simp add: ctr_blocks_def)
next
  case (3 ctx b bs)
  let ?buf = "Cipher (Iv ctx) (RoundKey ctx)" and ?ctx = "ctx\<lparr>Iv := inc_iv (Iv ctx)\<rparr>"
  have adv: "?ctx = ctr_advance 1 ctx" by (simp add: ctr_advance_def)
  have lb: "length ?buf = 16" using 3 by (simp add: ctr_ready_def)
  have eq: "[0..<length (b # bs)] = 0 # map Suc [0..<length bs]"
    by (simp add: map_Suc_upt upt_conv_Cons del: upt_Suc)
  have blk: "ctr_blocks 0 (length (b # bs)) = 1 + ctr_blocks 15 (length bs)"
    by (cases "length bs < 15") (simp_all add: ctr_blocks_def)
  have key: "(if i < 15 then tl ?buf ! i else keystream ?ctx (i - 15)) = keystream ctx (Suc i)" for i
    using lb keystream_advance [of 1 ctx "i - 15"] keystream_block [of "Suc i" ctx]
    by (simp add: adv nth_tl)
  have "ctr_bytes ?ctx (tl ?buf) bs = (ctr_advance (ctr_blocks 15 (length bs)) ?ctx,
      map (\<lambda>i. bs ! i XOR (if i < 15 then tl ?buf ! i else keystream ?ctx (i - 15))) [0..<length bs])"
    using "3.IH" [OF refl refl] "3.prems" lb by (simp add: ctr_ready_def)
  moreover have "hd ?buf = keystream ctx 0"
    using lb keystream_block [of 0 ctx] by (simp add: hd_conv_nth flip: length_greater_0_conv)
  ultimately show ?case
    unfolding eq list.size(3) blk
    by (simp add: Let_def key adv ctr_advance_add del: One_nat_def)
qed

lemma ctr_bytes_fresh:
  assumes "ctr_ready ctx"
  shows "ctr_bytes ctx [] data = (ctr_advance ((length data + 15) div 16) ctx,
     map (\<lambda>i. data ! i XOR keystream ctx i) [0..<length data])"
  using ctr_bytes_spec [OF assms, of "[]" data] by (simp add: ctr_blocks_def)

text \<open>The counter counts: read as a big-endian number it goes up by one, modulo 2 ^ 128.\<close>

fun le_value :: "byte list \<Rightarrow> nat" where
  "le_value [] = 0"
| "le_value (b # bs) = unat b + 256 * le_value bs"

lemma inc_rev_value: "le_value (inc_rev bs) = (le_value bs + 1) mod 256 ^ length bs"
proof (induction bs)
  case (Cons b bs)
  have bound: "le_value bs < 256 ^ length bs" for bs
  proof (induction bs)
    case (Cons b bs)
    then show ?case using unat_byte_less [of b] by simp
  qed simp
  show ?case
  proof (cases "b = 255")
    case True
    then have "le_value (b # bs) + 1 = 256 * (le_value bs + 1)" by simp
    then show ?thesis using Cons.IH True by (simp add: mult_mod_right)
  next
    case False
    have "unat b \<noteq> unat (255 :: byte)" using False by (simp only: word_unat_eq_iff [symmetric]) simp
    then have "unat b < 255" using unat_byte_less [of b] by simp
    then have "unat (b + 1) = unat b + 1" using unat_plus_nowrap [of b 1] by simp
    moreover have "unat b + 256 * le_value bs + 1 < 256 ^ length (b # bs)"
      using bound [of bs] \<open>unat b < 255\<close> by simp
    ultimately show ?thesis using False by simp
  qed
qed simp

text \<open>The counter block of CTR mode, read as a big-endian number, goes up by one modulo 2 ^ 128 with
  every block of key stream.\<close>

theorem ctr_counter_increments:
  "length iv = 16 \<longrightarrow>
     le_value (rev (inc_iv iv)) = (le_value (rev iv) + 1) mod 2 ^ 128"
  using inc_rev_value [of "rev iv"] by (simp add: inc_iv_def)

section \<open>CTR mode as a stream cipher\<close>

interpretation ctr: stream_cipher "\<lambda>ctx. ctr_bytes ctx []" keystream ctr_ready
proof unfold_locales
  fix ctx data
  assume r: "ctr_ready ctx"
  show "snd (ctr_bytes ctx [] data) = map (\<lambda>i. data ! i XOR keystream ctx i) [0..<length data]"
    by (simp add: ctr_bytes_fresh [OF r])
  show "ctr_ready (fst (ctr_bytes ctx [] data)) \<and>
      (\<forall>i. keystream (fst (ctr_bytes ctx [] data)) i = keystream ctx (16 * ((length data + 15) div 16) + i))"
    using r by (simp add: ctr_bytes_fresh [OF r] keystream_advance)
qed

lemma AES_CTR_xcrypt_buffer_eq:
  assumes "ctr_ready ctx" and "off + len \<le> length buf"
  shows "AES_CTR_xcrypt_buffer ctx buf off len =
    Some (fst (ctr_bytes ctx [] (take len (drop off buf))),
      take off buf @ snd (ctr_bytes ctx [] (take len (drop off buf))) @ drop (off + len) buf)"
  using assms ctr.xcrypt_out [OF assms(1), of "take len (drop off buf)"]
  by (simp add: AES_CTR_xcrypt_buffer_def slice_def split_def memcpy_def)

section \<open>Instances\<close>

theorem AES_ECB_roundtrip_witness:
  "Option.bind (AES_ECB_encrypt (AES_init_ctx_iv (replicate 16 3) []) (replicate 16 5))
     (AES_ECB_decrypt (AES_init_ctx_iv (replicate 16 3) [])) = Some (replicate 16 5)"
  using AES_ECB_roundtrip [of "replicate 16 3" "replicate 16 5" "[]"] by simp

theorem AES_CBC_roundtrip_witness:
  "\<exists>ctx c. AES_CBC_encrypt_buffer (AES_init_ctx_iv (replicate 16 3) (replicate 16 1)) (replicate 32 5) 32 = Some (ctx, c) \<and>
     AES_CBC_decrypt_buffer (AES_init_ctx_iv (replicate 16 3) (replicate 16 1)) c 32 = Some (ctx, replicate 32 5)"
  using AES_CBC_roundtrip [of "replicate 16 3" "replicate 16 1" "replicate 32 5" 2] by simp

theorem ctr_counter_increments_witness:
  "le_value (rev (inc_iv [0, 0, 0, 0, 0, 0, 0, 0, 0, 0, 0, 0, 0, 0, 0, 255])) = 256"
  using ctr_counter_increments [of "[0, 0, 0, 0, 0, 0, 0, 0, 0, 0, 0, 0, 0, 0, 0, 255]"] by simp

end
