(* ===== verification/Mirror_Buffer.thy ===== *)
theory Mirror_Buffer
  imports Tiny_Aes "HOL-Library.Signed_Division"
begin

text \<open>
  \<^verbatim>\<open>mirror_buffer.c\<close>: the decryption of the mirror stream.  The payloads of the stream are pieces
  of one AES-CTR stream; \<^verbatim>\<open>nextDecryptCount\<close> bytes of key stream, the tail of \<^verbatim>\<open>og\<close>, are left
  over from the piece before.  SHA-512 is a parameter, which
  \<open>Session_Keys\<close> instantiates.
\<close>

unbundle bit_operations_syntax

section \<open>State and operations\<close>

record mirror_buffer =
  aes_ctx :: AES_ctx
  nextDecryptCount :: int
  og :: "byte list"
  mb_aeskey :: "byte list"
  ecdh_secret :: "byte list"

definition mirror_buffer_init :: "byte list \<Rightarrow> byte list \<Rightarrow> mirror_buffer" where
  "mirror_buffer_init aeskey ecdh =
     \<lparr> aes_ctx = \<lparr> RoundKey = replicate 176 0, Iv = replicate 16 0 \<rparr>, nextDecryptCount = 0,
       og = replicate 16 0, mb_aeskey = take 16 aeskey, ecdh_secret = take 32 ecdh \<rparr>"

definition mirror_buffer_init_aes ::
  "(byte list \<Rightarrow> byte list) \<Rightarrow> mirror_buffer \<Rightarrow> u64 \<Rightarrow> mirror_buffer" where
  "mirror_buffer_init_aes sha512 mb streamConnectionID = (
     let eaeskey = sha512 (mb_aeskey mb @ ecdh_secret mb);
         skeyall = bytes ''AirPlayStreamKey'' @ decimal (unat streamConnectionID);
         sivall = bytes ''AirPlayStreamIV'' @ decimal (unat streamConnectionID);
         hash1 = sha512 (skeyall @ take 16 eaeskey);
         hash2 = sha512 (sivall @ take 16 eaeskey)
     in mb\<lparr>aes_ctx := AES_init_ctx_iv (take 16 hash1) (take 16 hash2), nextDecryptCount := 0\<rparr>)"

text \<open>
  \<^verbatim>\<open>input\<close> and \<^verbatim>\<open>output\<close> are separate buffers; the input is decrypted in place and copied.  Division
  and remainder are those of C, which truncate towards zero.
\<close>

definition mirror_buffer_decrypt ::
  "mirror_buffer \<Rightarrow> byte list \<Rightarrow> byte list \<Rightarrow> int \<Rightarrow> (mirror_buffer \<times> byte list \<times> byte list) option" where
  "mirror_buffer_decrypt mb input output inputLen = do {
     let next = nat (nextDecryptCount mb);
     rest_in \<leftarrow> slice 0 next input;
     rest_ks \<leftarrow> slice (16 - next) next (og mb);
     output \<leftarrow> memcpy output 0 (map2 (\<lambda>x k. x XOR k) rest_in rest_ks);
     let encryptlen = ((inputLen - nextDecryptCount mb) sdiv 16) * 16;
     require (0 \<le> encryptlen);
     (ctx, input) \<leftarrow> AES_CTR_xcrypt_buffer (aes_ctx mb) input next (nat encryptlen);
     blk \<leftarrow> slice next (nat encryptlen) input;
     output \<leftarrow> memcpy output next blk;
     let restlen = (inputLen - nextDecryptCount mb) smod 16;
     let reststart = inputLen - restlen;
     if restlen > 0 then do {
       src \<leftarrow> slice (nat reststart) (nat restlen) input;
       og \<leftarrow> memcpy (replicate 16 0) 0 src;
       (ctx, og) \<leftarrow> AES_CTR_xcrypt_buffer ctx og 0 16;
       output \<leftarrow> memcpy output (nat reststart) (take (nat restlen) og);
       Some (mb\<lparr>aes_ctx := ctx, og := og, nextDecryptCount := 16 - restlen\<rparr>, input, output)
     }
     else Some (mb\<lparr>aes_ctx := ctx, nextDecryptCount := 0\<rparr>, input, output)
   }"

section \<open>One continuous key stream\<close>

definition mirror_ok :: "mirror_buffer \<Rightarrow> bool" where
  "mirror_ok mb \<longleftrightarrow> ctr_ready (aes_ctx mb) \<and> length (og mb) = 16 \<and> 0 \<le> nextDecryptCount mb \<and> nextDecryptCount mb < 16"

text \<open>Byte i of the key stream to come: first what is left in \<^verbatim>\<open>og\<close>, then the cipher's.\<close>

definition mirror_keystream :: "mirror_buffer \<Rightarrow> nat \<Rightarrow> byte" where
  "mirror_keystream mb i = (
     let next = nat (nextDecryptCount mb)
     in if i < next then og mb ! (16 - next + i) else keystream (aes_ctx mb) (i - next))"

lemma sdiv_smod_nat:
  assumes "0 \<le> a"
  shows "a sdiv 16 * 16 = int (nat a div 16 * 16)" and "a smod 16 = int (nat a mod 16)"
  using assms
  by (simp_all add: signed_divide_int_def signed_modulo_int_def sgn_if zdiv_int zmod_int minus_mult_div_eq_mod)

text \<open>The leftover key stream at the front of a piece.\<close>

lemma mirror_head:
  assumes "mirror_ok mb" and "nat (nextDecryptCount mb) = k" and "k \<le> length input" and "k \<le> length output"
  shows "slice 0 k input = Some (take k input)" and "slice (16 - k) k (og mb) = Some (drop (16 - k) (og mb))"
    and "memcpy output 0 (map2 (\<lambda>x y. x XOR y) (take k input) (drop (16 - k) (og mb))) =
      Some (map (\<lambda>i. input ! i XOR mirror_keystream mb i) [0..<k] @ drop k output)"
proof -
  have k: "k < 16" "length (og mb) = 16" using assms by (auto simp: mirror_ok_def)
  have eq: "map2 (\<lambda>x y. x XOR y) (take k input) (drop (16 - k) (og mb)) =
      map (\<lambda>i. input ! i XOR mirror_keystream mb i) [0..<k]"
    using assms k by (intro nth_equalityI) (auto simp: mirror_keystream_def)
  show "slice 0 k input = Some (take k input)" "slice (16 - k) k (og mb) = Some (drop (16 - k) (og mb))"
    using assms k by (simp_all add: slice_def)
  show "memcpy output 0 (map2 (\<lambda>x y. x XOR y) (take k input) (drop (16 - k) (og mb))) =
      Some (map (\<lambda>i. input ! i XOR mirror_keystream mb i) [0..<k] @ drop k output)"
    unfolding eq using assms by (simp add: memcpy_def)
qed

text \<open>The whole blocks behind it.\<close>

lemma mirror_blocks:
  assumes rdy: "ctr_ready ctx" and len: "k + 16 * q \<le> length input" and out: "k + 16 * q \<le> length output"
  shows "\<exists>ctx' input'. AES_CTR_xcrypt_buffer ctx input k (16 * q) = Some (ctx', input') \<and>
    ctr_ready ctx' \<and> (\<forall>i. keystream ctx' i = keystream ctx (16 * q + i)) \<and>
    length input' = length input \<and> (\<forall>i. k + 16 * q \<le> i \<longrightarrow> i < length input \<longrightarrow> input' ! i = input ! i) \<and>
    slice k (16 * q) input' = Some (map (\<lambda>i. input ! (k + i) XOR keystream ctx i) [0..<16 * q])"
proof -
  let ?data = "take (16 * q) (drop k input)"
  have l: "length ?data = 16 * q" using len by simp
  let ?res = "ctr_bytes ctx [] ?data"
  let ?in = "take k input @ snd ?res @ drop (k + 16 * q) input"
  have out: "snd ?res = map (\<lambda>i. input ! (k + i) XOR keystream ctx i) [0..<16 * q]"
    using l len by (simp add: ctr.xcrypt_out [OF rdy])
  have lr: "length (snd ?res) = 16 * q" using out by simp
  have "AES_CTR_xcrypt_buffer ctx input k (16 * q) = Some (fst ?res, ?in)"
    by (rule AES_CTR_xcrypt_buffer_eq [OF rdy len])
  moreover have "slice k (16 * q) ?in = Some (snd ?res)"
    using len lr by (simp add: slice_def)
  moreover have "?in ! i = input ! i" if "k + 16 * q \<le> i" "i < length input" for i
    using that lr len by (auto simp: nth_append)
  moreover have "length ?in = length input" using lr len by simp
  ultimately show ?thesis
    using ctr.xcrypt_whole_blocks [OF rdy l] out by auto
qed

text \<open>The last bytes, encrypted with padding; the rest of that block is kept.\<close>

lemma mirror_tail:
  assumes rdy: "ctr_ready ctx" and r: "length src = r" "r \<le> 16"
  shows "\<exists>ctx' og. AES_CTR_xcrypt_buffer ctx (src @ replicate (16 - r) 0) 0 16 = Some (ctx', og) \<and>
    ctr_ready ctx' \<and> (\<forall>i. keystream ctx' i = keystream ctx (16 + i)) \<and> length og = 16 \<and>
    take r og = map (\<lambda>i. src ! i XOR keystream ctx i) [0..<r] \<and>
    (\<forall>i < 16 - r. og ! (r + i) = keystream ctx (r + i))"
proof -
  let ?buf = "src @ replicate (16 - r) 0"
  let ?og = "snd (ctr_bytes ctx [] ?buf)"
  have l: "length ?buf = 16 * 1" using r by simp
  have "take r ?og = map (\<lambda>i. src ! i XOR keystream ctx i) [0..<r]"
    using ctr.xcrypt_padded [OF rdy r] r by (intro nth_equalityI) auto
  moreover have "AES_CTR_xcrypt_buffer ctx ?buf 0 16 = Some (fst (ctr_bytes ctx [] ?buf), ?og)"
    using AES_CTR_xcrypt_buffer_eq [OF rdy, of 0 16 ?buf] l r(1) by simp
  ultimately show ?thesis
    using ctr.xcrypt_whole_blocks [OF rdy l] ctr.xcrypt_padded [OF rdy r]
    by (cases "ctr_bytes ctx [] ?buf") auto
qed

text \<open>The pieces of the output of one call, put together.\<close>

lemma memcpy_append:
  assumes "length src + length pre \<le> length output"
  shows "memcpy (pre @ drop (length pre) output) (length pre) src =
    Some ((pre @ src) @ drop (length (pre @ src)) output)"
  using assms by (simp add: memcpy_def add.commute)

lemma map_upt_append:
  assumes "\<And>i. i < n \<Longrightarrow> f (m + i) = g i"
  shows "map f [0..<m] @ map g [0..<n] = map f [0..<m + n]"
  by (intro nth_equalityI) (auto simp: nth_append simp flip: assms)

text \<open>The call up to the remainder: the leftover key stream and the whole blocks are applied.\<close>

lemma mirror_buffer_decrypt_front:
  assumes ok: "mirror_ok mb" and k: "nextDecryptCount mb = int k" and n: "n = k + 16 * q + r" "r < 16"
    and len: "n \<le> length input" "n \<le> length output"
  defines "x \<equiv> \<lambda>i. input ! i XOR mirror_keystream mb i"
  shows "\<exists>ctx1 in1. mirror_buffer_decrypt mb input output (int n) =
      (if r > 0 then do {
         src \<leftarrow> slice (k + 16 * q) r in1;
         og \<leftarrow> memcpy (replicate 16 0) 0 src;
         (ctx, og) \<leftarrow> AES_CTR_xcrypt_buffer ctx1 og 0 16;
         output \<leftarrow> memcpy (map x [0..<k + 16 * q] @ drop (k + 16 * q) output) (k + 16 * q) (take r og);
         Some (mb\<lparr>aes_ctx := ctx, og := og, nextDecryptCount := 16 - int r\<rparr>, in1, output)
       }
       else Some (mb\<lparr>aes_ctx := ctx1, nextDecryptCount := 0\<rparr>, in1,
          map x [0..<k + 16 * q] @ drop (k + 16 * q) output)) \<and>
    ctr_ready ctx1 \<and> (\<forall>i. keystream ctx1 i = mirror_keystream mb (k + 16 * q + i)) \<and>
    length in1 = length input \<and> (\<forall>i. k + 16 * q \<le> i \<longrightarrow> i < length input \<longrightarrow> in1 ! i = input ! i)"
proof -
  have rdy: "ctr_ready (aes_ctx mb)" using ok by (simp add: mirror_ok_def)
  have ks: "mirror_keystream mb (k + i) = keystream (aes_ctx mb) i" for i
    by (simp add: mirror_keystream_def k)
  have nk: "nat (nextDecryptCount mb) = k" by (simp add: k)
  have kn: "k \<le> length input" "k \<le> length output" using n len by simp_all
  obtain ctx1 in1 where c1: "AES_CTR_xcrypt_buffer (aes_ctx mb) input k (16 * q) = Some (ctx1, in1)"
    "ctr_ready ctx1" "\<forall>i. keystream ctx1 i = keystream (aes_ctx mb) (16 * q + i)" "length in1 = length input"
    "\<forall>i. k + 16 * q \<le> i \<longrightarrow> i < length input \<longrightarrow> in1 ! i = input ! i"
    "slice k (16 * q) in1 = Some (map (\<lambda>i. input ! (k + i) XOR keystream (aes_ctx mb) i) [0..<16 * q])"
    using mirror_blocks [OF rdy, of k q "input" "output"] n len by auto
  have out1: "memcpy (map x [0..<k] @ drop k output) k (map (\<lambda>i. input ! (k + i) XOR keystream (aes_ctx mb) i) [0..<16 * q]) =
      Some (map x [0..<k + 16 * q] @ drop (k + 16 * q) output)"
    using memcpy_append [of "map (\<lambda>i. input ! (k + i) XOR keystream (aes_ctx mb) i) [0..<16 * q]" "map x [0..<k]" "output"]
      n len by (simp add: map_upt_append ks x_def)
  have enc: "((int n - int k) sdiv 16) * 16 = int (16 * q)" "(int n - int k) smod 16 = int r"
  proof -
    have "int n - int k = int (16 * q + r)" "(16 * q + r) div 16 * 16 = 16 * q" "(16 * q + r) mod 16 = r"
      using n by simp_all
    then show "((int n - int k) sdiv 16) * 16 = int (16 * q)" "(int n - int k) smod 16 = int r"
      by (simp_all only: sdiv_smod_nat [OF of_nat_0_le_iff] nat_int)
  qed
  have "nat (int n - int r) = k + 16 * q" using n by simp
  then show ?thesis
    using c1(2-5) ks
    by (auto simp: mirror_buffer_decrypt_def Let_def mirror_head [OF ok nk kn] c1(1,6) out1 [unfolded x_def]
        enc k nat_mult_distrib x_def add.assoc)
qed

text \<open>One piece: its bytes are XOR-ed with the next bytes of the key stream.\<close>

lemma mirror_buffer_decrypt_chunk:
  assumes ok: "mirror_ok mb" and n: "nextDecryptCount mb \<le> int n"
    and len: "n \<le> length input" "n \<le> length output"
  shows "\<exists>mb' input'. mirror_buffer_decrypt mb input output (int n) =
      Some (mb', input', map (\<lambda>i. input ! i XOR mirror_keystream mb i) [0..<n] @ drop n output) \<and>
    mirror_ok mb' \<and> (\<forall>i. mirror_keystream mb' i = mirror_keystream mb (n + i)) \<and> length input' = length input"
proof -
  define k q r where "k = nat (nextDecryptCount mb)" and "q = (n - k) div 16" and "r = (n - k) mod 16"
  have k: "nextDecryptCount mb = int k" and nk: "n = k + 16 * q + r" "r < 16"
    using ok n by (auto simp: k_def q_def r_def mirror_ok_def)
  let ?x = "\<lambda>i. input ! i XOR mirror_keystream mb i"
  obtain ctx1 in1 where front: "mirror_buffer_decrypt mb input output (int n) =
      (if r > 0 then do {
         src \<leftarrow> slice (k + 16 * q) r in1;
         og \<leftarrow> memcpy (replicate 16 0) 0 src;
         (ctx, og) \<leftarrow> AES_CTR_xcrypt_buffer ctx1 og 0 16;
         output \<leftarrow> memcpy (map ?x [0..<k + 16 * q] @ drop (k + 16 * q) output) (k + 16 * q) (take r og);
         Some (mb\<lparr>aes_ctx := ctx, og := og, nextDecryptCount := 16 - int r\<rparr>, in1, output)
       }
       else Some (mb\<lparr>aes_ctx := ctx1, nextDecryptCount := 0\<rparr>, in1,
          map ?x [0..<k + 16 * q] @ drop (k + 16 * q) output))"
    and c1: "ctr_ready ctx1" "\<forall>i. keystream ctx1 i = mirror_keystream mb (k + 16 * q + i)"
    "length in1 = length input" "\<forall>i. k + 16 * q \<le> i \<longrightarrow> i < length input \<longrightarrow> in1 ! i = input ! i"
    using mirror_buffer_decrypt_front [OF ok k nk len] by blast
  show ?thesis
  proof (cases "r = 0")
    case True
    then show ?thesis
      using nk(1) front ok c1 by (auto simp: mirror_ok_def mirror_keystream_def [of "mb\<lparr>aes_ctx := ctx1, nextDecryptCount := 0\<rparr>"])
  next
    case False
    let ?src = "take r (drop (k + 16 * q) in1)"
    have src: "length ?src = r" using c1(3) nk len by simp
    obtain ctx2 og2 where c2: "AES_CTR_xcrypt_buffer ctx1 (?src @ replicate (16 - r) 0) 0 16 = Some (ctx2, og2)"
      "ctr_ready ctx2" "\<forall>i. keystream ctx2 i = keystream ctx1 (16 + i)" "length og2 = 16"
      "take r og2 = map (\<lambda>i. ?src ! i XOR keystream ctx1 i) [0..<r]"
      "\<forall>i < 16 - r. og2 ! (r + i) = keystream ctx1 (r + i)"
      using mirror_tail [OF c1(1) src] nk by auto
    have tail: "take r og2 = map (\<lambda>i. ?x (k + 16 * q + i)) [0..<r]"
      using c2(5) c1 nk len by (intro nth_equalityI) auto
    have "memcpy (map ?x [0..<k + 16 * q] @ drop (k + 16 * q) output) (k + 16 * q) (take r og2) =
        Some (map ?x [0..<n] @ drop n output)"
      using memcpy_append [of "take r og2" "map ?x [0..<k + 16 * q]" "output"] nk len
        map_upt_append [of r ?x "k + 16 * q" "\<lambda>i. ?x (k + 16 * q + i)"] by (simp add: tail)
    moreover have "memcpy (replicate 16 0) 0 ?src = Some (?src @ replicate (16 - r) 0)"
      using src nk by (simp add: memcpy_def)
    moreover have "slice (k + 16 * q) r in1 = Some ?src" using c1(3) nk len by (simp add: slice_def)
    ultimately have "mirror_buffer_decrypt mb input output (int n) = Some
        (mb\<lparr>aes_ctx := ctx2, og := og2, nextDecryptCount := 16 - int r\<rparr>, in1, map ?x [0..<n] @ drop n output)"
      using False c2(1) unfolding front by simp
    moreover have "mirror_keystream (mb\<lparr>aes_ctx := ctx2, og := og2, nextDecryptCount := 16 - int r\<rparr>) i =
        mirror_keystream mb (n + i)" for i
    proof -
      have "nat (16 - int r) = 16 - r" "mirror_keystream mb (n + i) = keystream ctx1 (r + i)"
        using nk c1(2) by (simp_all add: add.assoc)
      then show ?thesis
        using c2(3,6) nk(2) unfolding mirror_keystream_def [of "mb\<lparr>aes_ctx := _, og := _, nextDecryptCount := _\<rparr>"]
        by (cases "i < 16 - r") (simp_all add: Let_def add.commute)
    qed
    moreover have "mirror_ok (mb\<lparr>aes_ctx := ctx2, og := og2, nextDecryptCount := 16 - int r\<rparr>)"
      using c2 nk False by (simp add: mirror_ok_def)
    ultimately show ?thesis using c1(3) by blast
  qed
qed

section \<open>The stream of payloads\<close>

text \<open>The payloads of a session, decrypted one after the other into buffers of their size.\<close>

fun mirror_decrypt_all ::
  "mirror_buffer \<Rightarrow> byte list list \<Rightarrow> (mirror_buffer \<times> byte list list) option" where
  "mirror_decrypt_all mb [] = Some (mb, [])"
| "mirror_decrypt_all mb (c # cs) = do {
     (mb, _, out) \<leftarrow> mirror_buffer_decrypt mb c (replicate (length c) 0) (int (length c));
     (mb, outs) \<leftarrow> mirror_decrypt_all mb cs;
     Some (mb, out # outs)
   }"

lemma mirror_ok_init_aes:
  assumes "\<And>m. length (sha512 m) = 64" and "length (og mb) = 16"
  shows "mirror_ok (mirror_buffer_init_aes sha512 mb sid)"
  using assms by (simp add: mirror_buffer_init_aes_def mirror_ok_def Let_def ctr_ready_init)

text \<open>C28: However the mirror stream is cut into payloads of at least 15 bytes, decrypting them one
  after the other gives the whole stream XOR-ed with one continuous AES-CTR key stream: no byte of
  key stream is skipped or used twice at a payload boundary.\<close>

theorem mirror_stream_continuous:
  assumes "mirror_ok mb" and "\<forall>c \<in> set cs. 15 \<le> length c"
  shows "\<exists>mb' outs. mirror_decrypt_all mb cs = Some (mb', outs) \<and> map length outs = map length cs \<and>
    concat outs = map (\<lambda>i. concat cs ! i XOR mirror_keystream mb i) [0..<length (concat cs)]"
  using assms
proof (induction cs arbitrary: mb)
  case (Cons c cs)
  have n: "nextDecryptCount mb \<le> int (length c)" using Cons.prems by (simp add: mirror_ok_def)
  obtain mb1 in1 where d: "mirror_buffer_decrypt mb c (replicate (length c) 0) (int (length c)) =
      Some (mb1, in1, map (\<lambda>i. c ! i XOR mirror_keystream mb i) [0..<length c])"
    and ok: "mirror_ok mb1" "\<forall>i. mirror_keystream mb1 i = mirror_keystream mb (length c + i)"
    using mirror_buffer_decrypt_chunk [OF Cons.prems(1) n, of c "replicate (length c) 0"] by auto
  obtain mb' outs where r: "mirror_decrypt_all mb1 cs = Some (mb', outs)" "map length outs = map length cs"
    "concat outs = map (\<lambda>i. concat cs ! i XOR mirror_keystream mb1 i) [0..<length (concat cs)]"
    using Cons.IH [OF ok(1)] Cons.prems by auto
  have "map (\<lambda>i. c ! i XOR mirror_keystream mb i) [0..<length c] @ concat outs =
      map (\<lambda>i. concat (c # cs) ! i XOR mirror_keystream mb i) [0..<length (concat (c # cs))]"
    unfolding r(3) using ok(2) by (intro nth_equalityI) (auto simp: nth_append)
  then show ?case using d r by simp
qed simp

text \<open>C40: A payload shorter than the key stream left over from the one before is not handled: the code
  reads and writes past the end of the payload.\<close>

theorem mirror_short_payload_overruns:
  assumes "mirror_ok mb" and "int (length c) < nextDecryptCount mb"
  shows "mirror_buffer_decrypt mb c output (int (length c)) = None"
proof -
  have "\<not> nat (nextDecryptCount mb) \<le> length c" using assms by linarith
  then have "slice 0 (nat (nextDecryptCount mb)) c = None" by (simp add: slice_def)
  then show ?thesis by (simp add: mirror_buffer_decrypt_def Let_def)
qed

definition sample_mb :: mirror_buffer where
  "sample_mb = mirror_buffer_init_aes (\<lambda>m. replicate 64 (of_nat (length m))) (mirror_buffer_init [] []) 1"

lemma sample_mb_ok: "mirror_ok sample_mb"
  unfolding sample_mb_def by (rule mirror_ok_init_aes) (simp_all add: mirror_buffer_init_def)

theorem mirror_stream_continuous_witness:
  "\<exists>mb' a b. mirror_decrypt_all sample_mb [replicate 20 1, replicate 15 2] = Some (mb', [a, b]) \<and>
     length a = 20 \<and> length b = 15"
proof -
  have "\<forall>c \<in> set [replicate 20 1, replicate 15 (2 :: byte)]. 15 \<le> length c" by simp
  then obtain mb' outs where "mirror_decrypt_all sample_mb [replicate 20 1, replicate 15 2] = Some (mb', outs)"
    "map length outs = map length [replicate 20 (1 :: byte), replicate 15 2]"
    using mirror_stream_continuous [OF sample_mb_ok] by blast
  then show ?thesis by (auto simp: map_eq_Cons_conv)
qed

theorem mirror_short_payload_overruns_witness:
  "mirror_buffer_decrypt (sample_mb\<lparr>nextDecryptCount := 12\<rparr>) (replicate 8 0) (replicate 8 0) 8 = None"
  using mirror_short_payload_overruns [of "sample_mb\<lparr>nextDecryptCount := 12\<rparr>" "replicate 8 0" "replicate 8 0"]
    sample_mb_ok by (simp add: mirror_ok_def)

end
