(* ===== verification/Sockets.thy ===== *)
theory Sockets
  imports Interfaces
begin

text \<open>
  What the threads see of a connected socket: the segments still to arrive, or an error the
  system reports in between; the end of the list is the orderly close.  \<^verbatim>\<open>recv\<close> hands out at
  most the bytes asked for and at most one segment.
\<close>

datatype segment = Data "byte list" | Recv_Error

type_synonym sock = "segment list"

text \<open>The return value, the bytes stored in the caller's buffer, and the socket afterwards.\<close>

fun recv :: "sock \<Rightarrow> nat \<Rightarrow> int \<times> byte list \<times> sock" where
  "recv [] n = (0, [], [])"
| "recv (Recv_Error # s) n = (-1, [], s)"
| "recv (Data d # s) n =
     (int (min n (length d)), take n d, if length d \<le> n then s else Data (drop n d) # s)"

text \<open>The bytes that arrive before the first error or close.\<close>

fun arriving :: "sock \<Rightarrow> byte list" where
  "arriving [] = []"
| "arriving (Recv_Error # s) = []"
| "arriving (Data d # s) = (if d = [] then [] else d @ arriving s)"

text \<open>Work left in a socket: every successful \<^verbatim>\<open>recv\<close> of at least one byte makes it smaller.\<close>

fun weight :: "sock \<Rightarrow> nat" where
  "weight [] = 0"
| "weight (Recv_Error # s) = Suc (weight s)"
| "weight (Data d # s) = Suc (length d + weight s)"

lemma recv_length:
  "recv s n = (r, bs, s') \<Longrightarrow> 0 < r \<Longrightarrow> length bs = nat r \<and> nat r \<le> n"
  by (cases "(s, n)" rule: recv.cases) auto

lemma recv_weight_le: "recv s n = (r, bs, s') \<Longrightarrow> weight s' \<le> weight s"
  by (cases "(s, n)" rule: recv.cases) (auto split: if_splits)

lemma recv_weight: "recv s n = (r, bs, s') \<Longrightarrow> 0 < r \<Longrightarrow> weight s' < weight s"
  by (cases "(s, n)" rule: recv.cases) (auto split: if_splits)

lemma recv_arriving:
  "recv s n = (r, bs, s') \<Longrightarrow> 0 < r \<Longrightarrow> arriving s = bs @ arriving s'"
  by (cases "(s, n)" rule: recv.cases) (auto split: if_splits)

lemma recv_positive:
  assumes "arriving s \<noteq> []" and "0 < n"
  shows "\<exists>r bs s'. recv s n = (r, bs, s') \<and> 0 < r"
  using assms by (cases s rule: arriving.cases) (auto split: if_splits)

lemma recv_stuck:
  assumes "arriving s = []"
  shows "\<exists>r bs s'. recv s n = (r, bs, s') \<and> r \<le> 0"
  using assms by (cases s rule: arriving.cases) (auto split: if_splits)

section \<open>Receiving an exact number of bytes\<close>

text \<open>\<^verbatim>\<open>recv_full\<close>: 0 with the bytes, or -1.\<close>

function recv_full_loop :: "sock \<Rightarrow> byte list \<Rightarrow> nat \<Rightarrow> int \<times> byte list \<times> sock" where
  "recv_full_loop s buf n =
     (if length buf < n
      then (case recv s (n - length buf) of
              (ret, bs, s') \<Rightarrow> if ret \<le> 0 then (-1, buf, s') else recv_full_loop s' (buf @ bs) n)
      else (0, buf, s))"
  by auto
termination
  by (relation "measure (\<lambda>(s, buf, n). weight s)") (auto dest: recv_weight [OF sym])

declare recv_full_loop.simps [simp del]

definition recv_full :: "sock \<Rightarrow> nat \<Rightarrow> int \<times> byte list \<times> sock" where
  "recv_full s n = recv_full_loop s [] n"

lemma recv_full_loop_weight:
  "recv_full_loop s buf n = (r, bs, s') \<Longrightarrow> weight s' \<le> weight s"
proof (induction s buf n rule: recv_full_loop.induct)
  case (1 s buf n)
  obtain ret d s1 where d: "recv s (n - length buf) = (ret, d, s1)" by (cases "recv s (n - length buf)") auto
  then have w: "weight s1 \<le> weight s" by (rule recv_weight_le)
  show ?case
    using 1 d w by (subst (asm) (2) recv_full_loop.simps) (auto split: if_splits intro: order_trans)
qed

lemma recv_full_weight: "recv_full s n = (r, bs, s') \<Longrightarrow> weight s' \<le> weight s"
  unfolding recv_full_def by (rule recv_full_loop_weight)

lemma recv_full_loop_spec:
  "length buf \<le> n \<Longrightarrow>
   (n - length buf \<le> length (arriving s) \<longrightarrow>
      (\<exists>s'. recv_full_loop s buf n = (0, buf @ take (n - length buf) (arriving s), s') \<and>
         arriving s' = drop (n - length buf) (arriving s))) \<and>
   (length (arriving s) < n - length buf \<longrightarrow> (\<exists>bs s'. recv_full_loop s buf n = (-1, bs, s')))"
proof (induction s buf n rule: recv_full_loop.induct)
  case (1 s buf n)
  show ?case
  proof (cases "length buf < n")
    case False
    then show ?thesis using "1.prems" by (subst recv_full_loop.simps) (auto simp: recv_full_loop.simps)
  next
    case lt: True
    obtain ret d s1 where d: "recv s (n - length buf) = (ret, d, s1)" by (cases "recv s (n - length buf)") auto
    show ?thesis
    proof (cases "arriving s = []")
      case True
      then have "ret \<le> 0" using recv_stuck [OF True, of "n - length buf"] d by auto
      then show ?thesis using True lt d by (auto simp: recv_full_loop.simps [of s])
    next
      case False
      then have pos: "0 < ret" using recv_positive [of s "n - length buf"] lt d by auto
      have len: "length d \<le> n - length buf" using recv_length [OF d pos] by simp
      have arr: "arriving s = d @ arriving s1" by (rule recv_arriving [OF d pos])
      have step: "recv_full_loop s buf n = recv_full_loop s1 (buf @ d) n"
        using lt d pos by (subst recv_full_loop.simps) simp
      show ?thesis
        using "1.IH" [OF lt d [symmetric] refl] pos len lt unfolding step arr
        by auto
    qed
  qed
qed

lemma recv_full_spec:
  "(n \<le> length (arriving s) \<longrightarrow>
      (\<exists>s'. recv_full s n = (0, take n (arriving s), s') \<and> arriving s' = drop n (arriving s))) \<and>
   (length (arriving s) < n \<longrightarrow> (\<exists>bs s'. recv_full s n = (-1, bs, s')))"
  using recv_full_loop_spec [of "[]" n s] by (simp add: recv_full_def)

end
