(* ===== verification/Mirror_Stream.thy ===== *)
theory Mirror_Stream
  imports Mirror_Buffer Sockets Byte_Utils
begin

text \<open>
  \<^verbatim>\<open>raop_rtp_mirror.c\<close>: the thread that receives the H.264 mirror stream over TCP.  A frame is a
  header of 128 bytes and a payload; video payloads are decrypted and their NAL length prefixes
  replaced by start codes, codec records are turned into SPS and PPS.  \<^verbatim>\<open>realloc\<close> and \<^verbatim>\<open>malloc\<close>
  are parameters (a null buffer is the empty list), and so is the accepted connection.
\<close>

unbundle bit_operations_syntax

section \<open>State\<close>

record raop_rtp_mirror =
  mirror_buf :: mirror_buffer
  mirror_running :: bool
  mirror_joined :: bool
  mirror_flush :: int
  mirror_data_sock :: int
  mirror_time_sock :: int
  stream_fd :: int
  mirror_data_lport :: u16
  mirror_timing_rport :: u16
  mirror_timing_lport :: u16
  mirror_remote :: "byte list"
  payload_in_buffer :: "byte list"
  payload_buffer :: "byte list"
  payload_capacity :: u32

text \<open>What the thread does that is seen outside.\<close>

record h264_decode_struct =
  frame_type :: int
  h264_data :: "byte list"
  h264_pts :: u64

datatype mirror_event =
    Video_Process h264_decode_struct
  | Stream_Stopped
  | Close_Socket int
  | Shutdown_Socket int
  | Signal_Time
  | Join_Mirror_Thread
  | Join_Time_Thread

record mirror_env =
  env_realloc :: "byte list \<Rightarrow> nat \<Rightarrow> byte list option"
  env_malloc :: "nat \<Rightarrow> bool"

section \<open>Buffers\<close>

definition MAX_MIRROR_PAYLOAD_SIZE :: nat where
  "MAX_MIRROR_PAYLOAD_SIZE = 16 * 1024 * 1024"

definition raop_rtp_mirror_ensure_payload_capacity ::
  "mirror_env \<Rightarrow> raop_rtp_mirror \<Rightarrow> u32 \<Rightarrow> int \<times> raop_rtp_mirror" where
  "raop_rtp_mirror_ensure_payload_capacity env rm payloadsize =
     (if unat payloadsize > MAX_MIRROR_PAYLOAD_SIZE then (-1, rm)
      else if payloadsize \<le> payload_capacity rm then (0, rm)
      else (case env_realloc env (payload_in_buffer rm) (unat payloadsize) of
          None \<Rightarrow> (-1, rm)
        | Some payload_in \<Rightarrow> (
            let rm = rm\<lparr>payload_in_buffer := payload_in\<rparr>
            in case env_realloc env (payload_buffer rm) (unat payloadsize) of
                 None \<Rightarrow> (-1, rm)
               | Some payload \<Rightarrow> (0, rm\<lparr>payload_buffer := payload, payload_capacity := payloadsize\<rparr>))))"

definition recv_into :: "sock \<Rightarrow> byte list \<Rightarrow> nat \<Rightarrow> (int \<times> byte list \<times> sock) option" where
  "recv_into s buf n =
     (case recv_full s n of (r, bs, s') \<Rightarrow> do {
        buf' \<leftarrow> memcpy buf 0 bs;
        Some (r, buf', s')
      })"

definition raop_rtp_mirror_discard_payload ::
  "mirror_env \<Rightarrow> raop_rtp_mirror \<Rightarrow> sock \<Rightarrow> u32 \<Rightarrow> (int \<times> raop_rtp_mirror \<times> sock) option" where
  "raop_rtp_mirror_discard_payload env rm s payloadsize =
     (if payloadsize = 0 then Some (0, rm, s)
      else (case raop_rtp_mirror_ensure_payload_capacity env rm payloadsize of
              (r, rm) \<Rightarrow>
                if r < 0 then Some (-1, rm, s)
                else do {
                  (r, buf, s) \<leftarrow> recv_into s (payload_in_buffer rm) (unat payloadsize);
                  Some (r, rm\<lparr>payload_in_buffer := buf\<rparr>, s)
                }))"

section \<open>Video payloads\<close>

text \<open>
  The loop over the NAL units: each length prefix becomes the start code.  The sum
  \<^verbatim>\<open>nalu_size + 4 + nc_len\<close> is a C \<^verbatim>\<open>int\<close>; its overflow is undefined.
\<close>

function nalu_loop :: "byte list \<Rightarrow> nat \<Rightarrow> nat \<Rightarrow> byte list option" where
  "nalu_loop payload nalu_size payloadsize =
     (if nalu_size + 4 \<le> payloadsize
      then do {
        b \<leftarrow> slice nalu_size 4 payload;
        let nc_len = sint (be32 (b ! 0) (b ! 1) (b ! 2) (b ! 3));
        if nc_len \<le> 0 then Some payload
        else do {
          require (int nalu_size + 4 + nc_len < 2 ^ 31);
          if int nalu_size + 4 + nc_len > int payloadsize then Some payload
          else do {
            payload \<leftarrow> memcpy payload nalu_size [0, 0, 0, 1];
            nalu_loop payload (nalu_size + nat nc_len + 4) payloadsize
          }
        }
      }
      else Some payload)"
  by auto
termination
  by (relation "measure (\<lambda>(payload, nalu_size, payloadsize). payloadsize - nalu_size)") auto

declare nalu_loop.simps [simp del]

section \<open>Codec records\<close>

text \<open>
  The SPS and PPS of an \<^verbatim>\<open>avcC\<close> record: skip the frame, leave the thread (out of memory), or
  hand the two parameter sets with start codes to the decoder (when they are not too long).
\<close>

datatype codec_result = Codec_Skip | Codec_Stop | Codec_Done "byte list option"

definition sps_pps_record :: "mirror_env \<Rightarrow> byte list \<Rightarrow> nat \<Rightarrow> codec_result option" where
  "sps_pps_record env payload payloadsize = do {
     p6 \<leftarrow> rd payload 6;
     p7 \<leftarrow> rd payload 7;
     let lengthofSPS = sint (be16 p6 p7);
     if lengthofSPS \<le> 0 \<or> lengthofSPS + 11 > int payloadsize then Some Codec_Skip
     else if \<not> env_malloc env (nat lengthofSPS) then Some Codec_Stop
     else do {
       let sps = nat lengthofSPS;
       sequence \<leftarrow> slice 8 sps payload;
       numberOfPPS \<leftarrow> rd payload (sps + 8);
       hi \<leftarrow> rd payload (sps + 9);
       lo \<leftarrow> rd payload (sps + 10);
       let lengthofPPS = uint (((ucast hi AND 2040) + ucast lo) AND 255 :: u32);
       if lengthofPPS \<le> 0 \<or> lengthofSPS + 11 + lengthofPPS > int payloadsize then Some Codec_Skip
       else if \<not> env_malloc env (nat lengthofPPS) then Some Codec_Stop
       else do {
         picture_parameter_set \<leftarrow> slice (sps + 11) (nat lengthofPPS) payload;
         if lengthofSPS + lengthofPPS < 102400
         then Some (Codec_Done (Some ([0, 0, 0, 1] @ sequence @ [0, 0, 0, 1] @ picture_parameter_set)))
         else Some (Codec_Done None)
       }
     }
   }"

section \<open>One iteration of the thread\<close>

record mirror_loop =
  lp_rm :: raop_rtp_mirror
  lp_sock :: sock
  lp_packet :: "byte list"
  lp_readstart :: nat
  lp_pts_base :: u64
  lp_pts :: u64
  lp_events :: "mirror_event list"

text \<open>The flag says whether the loop goes on; \<^verbatim>\<open>False\<close> is \<^verbatim>\<open>break\<close>.\<close>

definition mirror_reset :: "mirror_loop \<Rightarrow> mirror_loop" where
  "mirror_reset st = st\<lparr>lp_packet := replicate 128 0, lp_readstart := 0\<rparr>"

definition emit :: "int \<Rightarrow> byte list \<Rightarrow> u64 \<Rightarrow> mirror_loop \<Rightarrow> mirror_loop" where
  "emit ft data p st = st\<lparr>lp_events := lp_events st @
     [Video_Process \<lparr> frame_type = ft, h264_data = data, h264_pts = p \<rparr>]\<rparr>"

text \<open>The time stamp of a video frame: the first one is the base of the later ones.\<close>

definition mirror_clock :: "mirror_loop \<Rightarrow> u64 \<Rightarrow> mirror_loop" where
  "mirror_clock st payloadntp =
     (if lp_pts_base st = 0 then st\<lparr>lp_pts_base := ntptopts payloadntp\<rparr>
      else st\<lparr>lp_pts := ntptopts payloadntp - lp_pts_base st\<rparr>)"

definition mirror_video :: "mirror_env \<Rightarrow> mirror_loop \<Rightarrow> nat \<Rightarrow> (mirror_loop \<times> bool) option" where
  "mirror_video env st payloadsize = do {
     payloadntp \<leftarrow> byteutils_get_long (lp_packet st) 8;
     let st = mirror_clock st payloadntp;
     let (r, rm) = raop_rtp_mirror_ensure_payload_capacity env (lp_rm st) (of_nat payloadsize);
     if r < 0 then Some (st\<lparr>lp_rm := rm\<rparr>, False)
     else do {
       (r, payload_in, s) \<leftarrow> recv_into (lp_sock st) (payload_in_buffer rm) payloadsize;
       let st = st\<lparr>lp_rm := rm\<lparr>payload_in_buffer := payload_in\<rparr>, lp_sock := s\<rparr>;
       if r < 0 then Some (st, False)
       else do {
         (mb, payload_in, payload) \<leftarrow>
           mirror_buffer_decrypt (mirror_buf rm) payload_in (payload_buffer rm) (int payloadsize);
         payload \<leftarrow> nalu_loop payload 0 payloadsize;
         data \<leftarrow> slice 0 payloadsize payload;
         let rm = rm\<lparr>mirror_buf := mb, payload_in_buffer := payload_in, payload_buffer := payload\<rparr>;
         Some (mirror_reset (emit 1 data (lp_pts st) (st\<lparr>lp_rm := rm\<rparr>)), True)
       }
     }
   }"

fun codec_outcome :: "mirror_loop \<Rightarrow> codec_result \<Rightarrow> mirror_loop \<times> bool" where
  "codec_outcome st Codec_Skip = (mirror_reset st, True)"
| "codec_outcome st Codec_Stop = (st, False)"
| "codec_outcome st (Codec_Done None) = (mirror_reset st, True)"
| "codec_outcome st (Codec_Done (Some sps_pps)) = (mirror_reset (emit 0 sps_pps 0 st), True)"

definition mirror_codec :: "mirror_env \<Rightarrow> mirror_loop \<Rightarrow> nat \<Rightarrow> (mirror_loop \<times> bool) option" where
  "mirror_codec env st payloadsize =
     (if payloadsize < 8 then Some (mirror_reset st, True)
      else (case raop_rtp_mirror_ensure_payload_capacity env (lp_rm st) (of_nat payloadsize) of
        (r, rm) \<Rightarrow>
          if r < 0 then Some (st\<lparr>lp_rm := rm\<rparr>, False)
          else do {
            (r, payload, s) \<leftarrow> recv_into (lp_sock st) (payload_buffer rm) payloadsize;
            let st = st\<lparr>lp_rm := rm\<lparr>payload_buffer := payload\<rparr>, lp_sock := s\<rparr>;
            if r < 0 then Some (st, False)
            else do {
              res \<leftarrow> sps_pps_record env payload payloadsize;
              Some (codec_outcome st res)
            }
          }))"

definition mirror_discard :: "mirror_env \<Rightarrow> mirror_loop \<Rightarrow> nat \<Rightarrow> (mirror_loop \<times> bool) option" where
  "mirror_discard env st payloadsize = do {
     (r, rm, s) \<leftarrow> raop_rtp_mirror_discard_payload env (lp_rm st) (lp_sock st) (of_nat payloadsize);
     let st = st\<lparr>lp_rm := rm, lp_sock := s\<rparr>;
     if r < 0 then Some (st, False) else Some (mirror_reset st, True)
   }"

definition mirror_frame :: "mirror_env \<Rightarrow> mirror_loop \<Rightarrow> (mirror_loop \<times> bool) option" where
  "mirror_frame env st = do {
     psize \<leftarrow> byteutils_get_int (lp_packet st) 0;
     let payloadsize = sint psize;
     if payloadsize < 0 then Some (st, False)
     else do {
       t \<leftarrow> byteutils_get_short (lp_packet st) 4;
       let payloadtype = t AND 0xff;
       if payloadtype = 0 then mirror_video env st (nat payloadsize)
       else if payloadtype = 1 then mirror_codec env st (nat payloadsize)
       else mirror_discard env st (nat payloadsize)
     }
   }"

definition is_http :: "byte list \<Rightarrow> bool" where
  "is_http packet \<longleftrightarrow> take 4 packet = [80, 79, 83, 84] \<or> take 3 packet = [71, 69, 84]"

text \<open>The socket is readable: the first four bytes, then the rest of the header, then the payload.\<close>

definition mirror_step :: "mirror_env \<Rightarrow> mirror_loop \<Rightarrow> (mirror_loop \<times> bool) option" where
  "mirror_step env st =
     (case recv (lp_sock st) (4 - lp_readstart st) of
        (ret, bs, s) \<Rightarrow>
          if ret \<le> 0 then Some (st\<lparr>lp_sock := s\<rparr>, False)
          else do {
            packet \<leftarrow> memcpy (lp_packet st) (lp_readstart st) bs;
            let readstart = lp_readstart st + nat ret;
            let st = st\<lparr>lp_sock := s, lp_packet := packet, lp_readstart := readstart\<rparr>;
            if readstart < 4 then Some (st, True)
            else if is_http packet then Some (mirror_reset st, True)
            else (case recv_full s (128 - readstart) of
              (r, bs, s) \<Rightarrow> do {
                packet \<leftarrow> memcpy packet readstart bs;
                let st = st\<lparr>lp_sock := s, lp_packet := packet\<rparr>;
                if r < 0 then Some (st, False) else mirror_frame env st
              })
          })"

section \<open>The loop ends\<close>

lemma recv_into_weight: "recv_into s buf n = Some (r, buf', s') \<Longrightarrow> weight s' \<le> weight s"
  by (auto simp: recv_into_def bind_eq_Some_conv split: prod.splits dest: recv_full_weight)

lemma mirror_reset_sock [simp]: "lp_sock (mirror_reset st) = lp_sock st"
  by (simp add: mirror_reset_def)

lemma emit_sock [simp]: "lp_sock (emit ft d p st) = lp_sock st"
  by (simp add: emit_def)

lemma mirror_clock_same [simp]:
  "lp_sock (mirror_clock st t) = lp_sock st" "lp_rm (mirror_clock st t) = lp_rm st"
  "lp_packet (mirror_clock st t) = lp_packet st" "lp_events (mirror_clock st t) = lp_events st"
  by (simp_all add: mirror_clock_def)

lemma codec_outcome_sock: "codec_outcome st res = (st', c) \<Longrightarrow> lp_sock st' = lp_sock st"
  by (cases "(st, res)" rule: codec_outcome.cases) auto

lemma mirror_video_weight:
  assumes "mirror_video env st n = Some (st', c)"
  shows "weight (lp_sock st') \<le> weight (lp_sock st)"
proof -
  obtain r rm where e: "raop_rtp_mirror_ensure_payload_capacity env (lp_rm st) (of_nat n) = (r, rm)"
    by fastforce
  obtain ntp where ntp: "byteutils_get_long (lp_packet st) 8 = Some ntp"
    using assms by (cases "byteutils_get_long (lp_packet st) 8") (simp_all add: mirror_video_def)
  show ?thesis
  proof (cases "recv_into (lp_sock st) (payload_in_buffer rm) n")
    case None
    then show ?thesis using assms by (auto simp: mirror_video_def e ntp Let_def split: if_splits)
  next
    case (Some x)
    obtain r2 pin s where x: "x = (r2, pin, s)" by (cases x)
    have "weight s \<le> weight (lp_sock st)" using Some x recv_into_weight by simp
    then show ?thesis
      using assms by (cases "r < 0"; cases "r2 < 0")
        (auto simp: mirror_video_def e ntp Let_def Some x bind_eq_Some_conv)
  qed
qed

lemma mirror_codec_weight:
  assumes "mirror_codec env st n = Some (st', c)"
  shows "weight (lp_sock st') \<le> weight (lp_sock st)"
proof -
  obtain r rm where e: "raop_rtp_mirror_ensure_payload_capacity env (lp_rm st) (of_nat n) = (r, rm)"
    by fastforce
  show ?thesis
    using assms by (auto simp: mirror_codec_def e bind_eq_Some_conv Let_def
        split: if_splits dest!: recv_into_weight codec_outcome_sock)
qed

lemma mirror_discard_weight:
  assumes "mirror_discard env st n = Some (st', c)"
  shows "weight (lp_sock st') \<le> weight (lp_sock st)"
proof -
  obtain r rm where e: "raop_rtp_mirror_ensure_payload_capacity env (lp_rm st) (of_nat n) = (r, rm)"
    by fastforce
  show ?thesis
    using assms by (auto simp: mirror_discard_def raop_rtp_mirror_discard_payload_def e bind_eq_Some_conv Let_def
        split: if_splits dest!: recv_into_weight)
qed

lemma mirror_frame_weight:
  "mirror_frame env st = Some (st', c) \<Longrightarrow> weight (lp_sock st') \<le> weight (lp_sock st)"
  by (auto simp: mirror_frame_def bind_eq_Some_conv Let_def split: if_splits
      dest: mirror_video_weight mirror_codec_weight mirror_discard_weight)

lemma mirror_step_weight:
  assumes "mirror_step env st = Some (st', True)"
  shows "weight (lp_sock st') < weight (lp_sock st)"
proof -
  obtain ret bs s where r: "recv (lp_sock st) (4 - lp_readstart st) = (ret, bs, s)"
    by (cases "recv (lp_sock st) (4 - lp_readstart st)") auto
  with assms have "0 < ret" by (auto simp: mirror_step_def split: if_splits)
  from recv_weight [OF r this] have less: "weight s < weight (lp_sock st)" .
  obtain r2 bs2 s2 where r2: "recv_full s (128 - (lp_readstart st + nat ret)) = (r2, bs2, s2)"
    by (cases "recv_full s (128 - (lp_readstart st + nat ret))") auto
  from recv_full_weight [OF this] have "weight s2 < weight (lp_sock st)" using less by simp
  then show ?thesis
    using assms less unfolding mirror_step_def r
    by (auto simp: r2 bind_eq_Some_conv Let_def split: if_splits dest!: mirror_frame_weight)
qed

text \<open>
  The whole loop: \<^verbatim>\<open>live\<close> lists what the \<^verbatim>\<open>running\<close> flag reads at the head of the iterations, and
  stays set when the list is used up.
\<close>

function mirror_run :: "mirror_env \<Rightarrow> bool list \<Rightarrow> mirror_loop \<Rightarrow> mirror_loop option" where
  "mirror_run env live st =
     (if live \<noteq> [] \<and> \<not> hd live then Some st
      else (case mirror_step env st of
              None \<Rightarrow> None
            | Some (st', goes_on) \<Rightarrow> if goes_on then mirror_run env (tl live) st' else Some st'))"
  by auto
termination
  by (relation "measure (\<lambda>(env, live, st). weight (lp_sock st))") (auto dest: mirror_step_weight)

declare mirror_run.simps [simp del]

lemma mirror_run_Nil:
  "mirror_run env [] st =
     (case mirror_step env st of
        None \<Rightarrow> None
      | Some (st', goes_on) \<Rightarrow> if goes_on then mirror_run env [] st' else Some st')"
  by (subst mirror_run.simps) (auto split: option.split)

section \<open>Start codes\<close>

text \<open>NAL units with 4-byte length prefixes, and with start codes.\<close>

definition len4 :: "nat \<Rightarrow> byte list" where
  "len4 n = [of_nat (n div 2 ^ 24), of_nat (n div 2 ^ 16), of_nat (n div 2 ^ 8), of_nat n]"

definition avcc :: "byte list list \<Rightarrow> byte list" where
  "avcc ns = concat (map (\<lambda>n. len4 (length n) @ n) ns)"

definition annexb :: "byte list list \<Rightarrow> byte list" where
  "annexb ns = concat (map (\<lambda>n. [0, 0, 0, 1] @ n) ns)"

lemma length_len4 [simp]: "length (len4 n) = 4"
  by (simp add: len4_def)

lemma length_annexb: "length (annexb ns) = length (avcc ns)"
  by (induction ns) (simp_all add: annexb_def avcc_def)

lemma avcc_Cons: "avcc (n # ns) = len4 (length n) @ n @ avcc ns"
  by (simp add: avcc_def)

lemma annexb_Cons: "annexb (n # ns) = [0, 0, 0, 1] @ n @ annexb ns"
  by (simp add: annexb_def)

lemma unat_of_nat_byte: "unat (of_nat n :: byte) = n mod 256"
  by (simp add: unsigned_of_nat take_bit_eq_mod)

lemma sint_len4:
  assumes "n < 2 ^ 31"
  shows "sint (be32 (len4 n ! 0) (len4 n ! 1) (len4 n ! 2) (len4 n ! 3)) = int n"
proof -
  have "unat (be32 (len4 n ! 0) (len4 n ! 1) (len4 n ! 2) (len4 n ! 3)) =
      (n div 2 ^ 24) mod 256 * 2 ^ 24 + (n div 2 ^ 16) mod 256 * 2 ^ 16 + (n div 2 ^ 8) mod 256 * 2 ^ 8 + n mod 256"
    unfolding be32_def by (subst unat_four_bytes) (simp_all add: len4_def unat_of_nat_byte)
  also have "\<dots> = n"
    using assms four_bytes_sum [of n] by simp
  finally show ?thesis using assms sint_small [of "be32 (len4 n ! 0) (len4 n ! 1) (len4 n ! 2) (len4 n ! 3)"] by simp
qed

lemma slice_at:
  "length mid = n \<Longrightarrow> slice (length pre) n (pre @ mid @ suf) = Some mid"
  by (simp add: slice_def)

lemma memcpy_at:
  "length old = length new \<Longrightarrow> memcpy (pre @ old @ suf) (length pre) new = Some (pre @ new @ suf)"
  by (simp add: memcpy_def)

lemma nalu_loop_units:
  assumes "\<forall>n \<in> set ns. n \<noteq> []" and "length pre + length (avcc ns) < 2 ^ 31"
    and "tail = [] \<or> length tail < 4"
  shows "nalu_loop (pre @ avcc ns @ tail @ suf) (length pre) (length pre + length (avcc ns) + length tail) =
    Some (pre @ annexb ns @ tail @ suf)"
  using assms
proof (induction ns arbitrary: pre)
  case Nil
  then show ?case by (subst nalu_loop.simps) (auto simp: avcc_def annexb_def)
next
  case (Cons n ns)
  let ?l = "len4 (length n)" and ?size = "length pre + length (avcc (n # ns)) + length tail"
  let ?rest = "n @ avcc ns @ tail @ suf"
  have n0: "0 < length n" "length n < 2 ^ 31" using Cons.prems by (simp_all add: avcc_Cons)
  have len: "sint (be32 (?l ! 0) (?l ! 1) (?l ! 2) (?l ! 3)) = int (length n)"
    by (rule sint_len4 [OF n0(2)])
  have sum: "int (length pre) + 4 + int (length n) < 2 ^ 31"
    "\<not> int (length pre) + 4 + int (length n) > int ?size"
    using Cons.prems(2) by (simp_all add: avcc_Cons)
  have eq: "pre @ avcc (n # ns) @ tail @ suf = pre @ ?l @ ?rest" by (simp add: avcc_Cons)
  have "nalu_loop (pre @ ?l @ ?rest) (length pre) ?size =
      nalu_loop (pre @ [0, 0, 0, 1] @ ?rest) (length pre + length n + 4) ?size"
    using n0 sum len
    by (subst nalu_loop.simps) (simp add: slice_at memcpy_at avcc_Cons del: append.simps)
  also have "\<dots> = Some ((pre @ [0, 0, 0, 1] @ n) @ annexb ns @ tail @ suf)"
  proof -
    have at: "length pre + length n + 4 = length (pre @ [0, 0, 0, 1] @ n)"
      and size: "?size = length (pre @ [0, 0, 0, 1] @ n) + length (avcc ns) + length tail"
      and mem: "pre @ [0, 0, 0, 1] @ ?rest = (pre @ [0, 0, 0, 1] @ n) @ avcc ns @ tail @ suf"
      by (simp_all add: avcc_Cons)
    show ?thesis
      unfolding at size mem using Cons.prems by (intro Cons.IH) (simp_all add: avcc_Cons)
  qed
  finally show ?case unfolding eq by (simp only: annexb_Cons append_assoc)
qed

text \<open>C32: A payload that is a sequence of non-empty NAL units with 4-byte length prefixes becomes the same
  units with start codes, in place: nothing else of the payload, and nothing behind it, changes.\<close>

theorem nalu_loop_annexb:
  assumes "\<forall>n \<in> set ns. n \<noteq> []" and "length (avcc ns) < 2 ^ 31"
  shows "nalu_loop (avcc ns @ suf) 0 (length (avcc ns)) = Some (annexb ns @ suf)"
  using nalu_loop_units [of ns "[]" "[]" suf] assms by simp

text \<open>A length prefix close to the largest int defeats the bounds check: the sum overflows, and the
  loop has undefined behaviour (with wrap-around it goes on at a negative index).\<close>

theorem nalu_loop_overflow:
  assumes "8 \<le> length payload" and "take 4 payload = [0x7f, 0xff, 0xff, b]" and "0xfc \<le> b"
    and "length payload \<le> MAX_MIRROR_PAYLOAD_SIZE"
  shows "nalu_loop payload 0 (length payload) = None"
proof -
  have "unat (0xfc :: byte) \<le> unat b" using assms(3) by (simp only: word_le_nat_alt)
  then have b: "252 \<le> unat b" by simp
  then have b': "252 \<le> uint b" by (simp add: uint_nat del: of_nat_unat)
  let ?w = "be32 0x7f 0xff 0xff b"
  have "unat ?w = 0x7f * 2 ^ 24 + 0xff * 2 ^ 16 + 0xff * 2 ^ 8 + unat b"
    unfolding be32_def by (subst unat_four_bytes) simp_all
  then have w: "sint ?w = 2147483392 + int (unat b)"
    using unat_byte_less [of b] sint_small [of ?w] by simp
  have "slice 0 4 payload = Some [0x7f, 0xff, 0xff, b]" using assms by (simp add: slice_def)
  then show ?thesis
    using w b' assms(1) by (subst nalu_loop.simps) (simp add: require_def Let_def)
qed

section \<open>Codec records\<close>

text \<open>An \<^verbatim>\<open>avcC\<close> record with one SPS and one PPS.\<close>

definition avcC_record :: "byte list \<Rightarrow> byte \<Rightarrow> byte list \<Rightarrow> byte list \<Rightarrow> byte list" where
  "avcC_record hd6 numberOfPPS sps pps =
     hd6 @ [of_nat (length sps div 256), of_nat (length sps)] @ sps @
     [numberOfPPS, of_nat (length pps div 256), of_nat (length pps)] @ pps"

lemma uint_lengthofPPS:
  fixes hi lo :: byte
  shows "0 \<le> uint (((ucast hi AND 2040) + ucast lo) AND 255 :: u32)"
    and "uint (((ucast hi AND 2040) + ucast lo) AND 255 :: u32) < 256"
proof -
  let ?w = "(ucast hi AND 2040) + ucast lo :: u32"
  have "?w AND 255 = take_bit 8 ?w" by (simp add: take_bit_eq_mask mask_eq_exp_minus_1)
  then have "uint (?w AND 255) = take_bit 8 (uint ?w)" by (simp only: unsigned_take_bit_eq)
  also have "\<dots> < 256" by (simp add: take_bit_eq_mod)
  finally show "uint (?w AND 255) < 256" .
qed simp

text \<open>C34: Whatever a codec record contains, reading its SPS and PPS stays inside the received payload: the
  length checks come before every access they protect.\<close>

theorem sps_pps_record_safe:
  assumes "8 \<le> payloadsize" and "payloadsize \<le> length payload"
  shows "sps_pps_record env payload payloadsize \<noteq> None"
proof -
  let ?sps = "sint (be16 (payload ! 6) (payload ! 7))"
  have rd: "rd payload 6 = Some (payload ! 6)" "rd payload 7 = Some (payload ! 7)" using assms by simp_all
  show ?thesis
  proof (cases "?sps \<le> 0 \<or> ?sps + 11 > int payloadsize \<or> \<not> env_malloc env (nat ?sps)")
    case True
    then show ?thesis by (auto simp: sps_pps_record_def rd Let_def)
  next
    case False
    then have s: "nat ?sps + 11 \<le> length payload" "0 < ?sps" using assms by auto
    let ?hi = "payload ! (nat ?sps + 9)" and ?lo = "payload ! (nat ?sps + 10)"
    let ?pps = "uint (((ucast ?hi AND 2040) + ucast ?lo) AND 255 :: u32)"
    have r: "slice 8 (nat ?sps) payload = Some (take (nat ?sps) (drop 8 payload))"
      "rd payload (nat ?sps + 8) = Some (payload ! (nat ?sps + 8))"
      "rd payload (nat ?sps + 9) = Some ?hi" "rd payload (nat ?sps + 10) = Some ?lo"
      using s by (simp_all add: slice_def)
    have "nat ?sps + 11 + nat ?pps \<le> length payload" if "?sps + 11 + ?pps \<le> int payloadsize"
      using that s assms uint_lengthofPPS(1) [of ?hi ?lo] by linarith
    then have "slice (nat ?sps + 11) (nat ?pps) payload \<noteq> None" if "?sps + 11 + ?pps \<le> int payloadsize"
      using that by (simp add: slice_def)
    then show ?thesis
      using False by (auto simp: sps_pps_record_def rd r Let_def not_less)
  qed
qed

text \<open>A codec record with an SPS of at most 32767 bytes and a PPS of at most 255 bytes reaches the
  decoder as the SPS and the PPS, each behind a start code.\<close>

theorem sps_pps_record_annexb:
  assumes "length hd6 = 6" and "0 < length sps" "length sps < 32768" and "0 < length pps" "length pps < 256"
    and "env_malloc env (length sps)" "env_malloc env (length pps)"
  shows "sps_pps_record env (avcC_record hd6 n sps pps) (length (avcC_record hd6 n sps pps)) =
    Some (Codec_Done (Some (annexb [sps, pps])))"
proof -
  let ?r = "avcC_record hd6 n sps pps" and ?n = "length sps"
  have hd: "?r ! 6 = of_nat (?n div 256)" "?r ! 7 = of_nat ?n"
    using assms(1) by (simp_all add: avcC_record_def nth_append)
  have "unat (be16 (of_nat (?n div 256)) (of_nat ?n)) = ?n div 256 * 2 ^ 8 + ?n mod 256"
    unfolding be16_def using assms(3)
    by (subst unat_push_or) (simp_all add: unat_ucast_byte unat_of_nat_byte less_mult_imp_div_less)
  then have u: "unat (be16 (of_nat (?n div 256)) (of_nat ?n)) = ?n" by simp
  have "sint (be16 (of_nat (?n div 256)) (of_nat ?n)) = signed_take_bit 15 (int ?n)"
    unfolding sint_uint uint_nat u by simp
  then have s: "sint (be16 (?r ! 6) (?r ! 7)) = int ?n"
    using assms(3) unfolding hd by (simp add: signed_take_bit_int_eq_self)
  have at: "?r ! (?n + 9) = 0" "?r ! (?n + 10) = of_nat (length pps)"
    using assms(1,5) by (simp_all add: avcC_record_def nth_append)
  have len: "length ?r = ?n + length pps + 11" using assms(1) by (simp add: avcC_record_def)
  have "ucast (of_nat (length pps) :: byte) = (of_nat (length pps) :: u32)"
    using assms(5) by (intro word_unat_eq_iff [THEN iffD2]) (simp add: unat_ucast_byte unat_of_nat_byte unsigned_of_nat take_bit_nat_eq_self)
  moreover have "(of_nat (length pps) :: u32) AND 255 = of_nat (length pps)"
  proof -
    have "(of_nat (length pps) :: u32) AND 255 = take_bit 8 (of_nat (length pps))"
      by (simp add: take_bit_eq_mask mask_eq_exp_minus_1)
    also have "\<dots> = of_nat (length pps)"
      using assms(5) by (simp add: take_bit_of_nat take_bit_nat_eq_self)
    finally show ?thesis .
  qed
  ultimately have p: "uint (((ucast (?r ! (?n + 9)) AND 2040) + ucast (?r ! (?n + 10))) AND 255 :: u32) = int (length pps)"
    using assms(5) unfolding at by (simp add: uint_nat unsigned_of_nat take_bit_nat_eq_self del: of_nat_unat)
  let ?pre = "hd6 @ [of_nat (?n div 256), of_nat ?n] @ sps @ [n, of_nat (length pps div 256), of_nat (length pps)]"
  have "length ?pre = ?n + 11" "?r = ?pre @ pps @ []" using assms(1) by (simp_all add: avcC_record_def)
  then have sl: "slice 8 ?n ?r = Some sps" "slice (?n + 11) (length pps) ?r = Some pps"
    using assms(1) slice_at [OF refl, of ?pre pps "[]"] by (simp_all add: avcC_record_def slice_def)
  show ?thesis
    using s p sl len assms by (simp add: sps_pps_record_def annexb_def Let_def)
qed

section \<open>Buffers are large enough\<close>

definition rm_ok :: "raop_rtp_mirror \<Rightarrow> bool" where
  "rm_ok rm \<longleftrightarrow> mirror_ok (mirror_buf rm) \<and> unat (payload_capacity rm) \<le> MAX_MIRROR_PAYLOAD_SIZE \<and>
     unat (payload_capacity rm) \<le> length (payload_in_buffer rm) \<and>
     unat (payload_capacity rm) \<le> length (payload_buffer rm)"

definition realloc_ok :: "mirror_env \<Rightarrow> bool" where
  "realloc_ok env \<longleftrightarrow> (\<forall>b n b'. env_realloc env b n = Some b' \<longrightarrow> length b' = n)"

text \<open>C39: A payload buffer of the size asked for is there when \<^verbatim>\<open>ensure_payload_capacity\<close> returns 0; it never
  allocates more than 16 MB, and a refused allocation leaves consistent buffers behind.\<close>

theorem ensure_payload_capacity_ok:
  assumes "realloc_ok env" and "rm_ok rm"
  shows "\<exists>r rm'. raop_rtp_mirror_ensure_payload_capacity env rm payloadsize = (r, rm') \<and> rm_ok rm' \<and>
    mirror_buf rm' = mirror_buf rm \<and>
    (r = 0 \<and> unat payloadsize \<le> length (payload_in_buffer rm') \<and> unat payloadsize \<le> length (payload_buffer rm') \<and>
       unat payloadsize \<le> MAX_MIRROR_PAYLOAD_SIZE \<or> r = -1)"
  using assms
  by (auto simp: raop_rtp_mirror_ensure_payload_capacity_def rm_ok_def realloc_ok_def Let_def word_le_nat_alt
      split: option.split)

lemma ensure_capacity_0:
  assumes "realloc_ok env" and "rm_ok rm" and "raop_rtp_mirror_ensure_payload_capacity env rm n = (r, rm')"
    and "0 \<le> r"
  shows "r = 0 \<and> rm_ok rm' \<and> mirror_buf rm' = mirror_buf rm \<and> unat n \<le> length (payload_in_buffer rm') \<and>
    unat n \<le> length (payload_buffer rm') \<and> unat n \<le> MAX_MIRROR_PAYLOAD_SIZE"
  using assms
  by (auto simp: raop_rtp_mirror_ensure_payload_capacity_def rm_ok_def realloc_ok_def Let_def word_le_nat_alt
      split: option.splits if_splits)

lemma recv_into_ok:
  assumes "n \<le> length (arriving s)" and "n \<le> length buf"
  shows "\<exists>s'. recv_into s buf n = Some (0, take n (arriving s) @ drop n buf, s') \<and> arriving s' = drop n (arriving s)"
  using recv_full_spec [of n s] assms by (auto simp: recv_into_def memcpy_def)

section \<open>Frames on the wire\<close>

lemma is_http_take:
  assumes "take 4 p = take 4 q"
  shows "is_http p = is_http q"
proof -
  have "take 3 p = take 3 q" using arg_cong [OF assms, of "take 3"] by simp
  then show ?thesis using assms by (simp add: is_http_def)
qed

text \<open>
  However the connection cuts the bytes into segments, the iterations collect the header and
  then handle the frame.
\<close>

lemma mirror_header:
  assumes "lp_readstart st < 4" and "length (lp_packet st) = 128" and "length hdr = 128"
    and "take (lp_readstart st) (lp_packet st) @ arriving (lp_sock st) = hdr @ behind" and "\<not> is_http hdr"
  shows "\<exists>s. arriving s = behind \<and> mirror_run env [] st =
    (case mirror_frame env (st\<lparr>lp_readstart := 4, lp_sock := s, lp_packet := hdr\<rparr>) of
       None \<Rightarrow> None
     | Some (st', goes_on) \<Rightarrow> if goes_on then mirror_run env [] st' else Some st')"
  using assms
proof (induction "4 - lp_readstart st" arbitrary: st rule: less_induct)
  case less
  let ?rs = "lp_readstart st" and ?s = "lp_sock st" and ?p = "lp_packet st"
  have "length (arriving ?s) + ?rs = 128 + length behind"
    using arg_cong [OF less.prems(4), of length] less.prems(1-3) by simp
  then have "arriving ?s \<noteq> []" using less.prems by auto
  then obtain ret bs s1 where r: "recv ?s (4 - ?rs) = (ret, bs, s1)" "0 < ret"
    using recv_positive [of ?s "4 - ?rs"] less.prems by auto
  have bs: "length bs = nat ret" "nat ret \<le> 4 - ?rs" and arr: "arriving ?s = bs @ arriving s1"
    using recv_length [OF r] recv_arriving [OF r] by auto
  let ?p1 = "take ?rs ?p @ bs @ drop (?rs + length bs) ?p" and ?rs1 = "?rs + nat ret"
  have mem: "memcpy ?p ?rs bs = Some ?p1" using less.prems bs by (simp add: memcpy_def)
  have pre: "take ?rs1 ?p1 = take ?rs ?p @ bs" using less.prems bs by simp
  have all: "take ?rs1 ?p1 @ arriving s1 = hdr @ behind" using less.prems(4) arr unfolding pre by simp
  let ?st1 = "st\<lparr>lp_sock := s1, lp_packet := ?p1, lp_readstart := ?rs1\<rparr>"
  show ?case
  proof (cases "?rs1 < 4")
    case True
    have step: "mirror_step env st = Some (?st1, True)"
      using r mem True by (simp add: mirror_step_def)
    have run: "mirror_run env [] st = mirror_run env [] ?st1" by (simp add: mirror_run_Nil [of env st] step)
    have "4 - lp_readstart ?st1 < 4 - ?rs" using r(2) less.prems(1) by simp
    from less.hyps [OF this] show ?thesis
      using True all less.prems bs unfolding run by simp
  next
    case False
    then have rs1: "?rs1 = 4" using bs less.prems by simp
    have t4: "take 4 ?p1 = take 4 hdr"
      using arg_cong [OF all, of "take 4"] less.prems bs unfolding rs1 by simp
    then have http: "\<not> is_http ?p1"
      using less.prems(5) is_http_take by blast
    have rest: "arriving s1 = drop 4 hdr @ behind"
      using arg_cong [OF all, of "drop 4"] less.prems bs unfolding rs1 by simp
    obtain s2 where s2: "recv_full s1 124 = (0, drop 4 hdr, s2)" "arriving s2 = behind"
      using recv_full_spec [of 124 s1] rest less.prems by auto
    have "memcpy ?p1 4 (drop 4 hdr) = Some hdr"
      using t4 less.prems bs rs1 by (simp add: memcpy_def)
    then have step: "mirror_step env st = mirror_frame env (st\<lparr>lp_readstart := 4, lp_sock := s2, lp_packet := hdr\<rparr>)"
      using r mem http s2 rs1 by (simp add: mirror_step_def)
    show ?thesis
      using s2(2) step by (intro exI [of _ s2]) (simp add: mirror_run_Nil [of env st])
  qed
qed

text \<open>A header: the payload size, the type in byte 4, the time stamp in bytes 8 to 15.\<close>

definition frame_header :: "byte list \<Rightarrow> nat \<Rightarrow> byte \<Rightarrow> u64 \<Rightarrow> bool" where
  "frame_header hdr payloadsize t ntp \<longleftrightarrow>
     length hdr = 128 \<and> \<not> is_http hdr \<and> hdr ! 4 = t \<and> byteutils_get_long hdr 8 = Some ntp \<and>
     (\<exists>w. byteutils_get_int hdr 0 = Some w \<and> unat w = payloadsize) \<and> payloadsize \<le> MAX_MIRROR_PAYLOAD_SIZE"

lemma frame_header_type:
  assumes "frame_header hdr n t ntp"
  shows "\<exists>w. byteutils_get_short hdr 4 = Some w \<and> w AND 0xff = ucast t"
proof -
  let ?w = "push_bit 8 (ucast (hdr ! 5)) OR ucast (hdr ! 4) :: u16"
  have g: "byteutils_get_short hdr 4 = Some ?w" using assms by (simp add: byteutils_get_short_def frame_header_def)
  have "?w AND 0xff = take_bit 8 ?w" by (simp add: take_bit_eq_mask mask_eq_exp_minus_1)
  also have "\<dots> = ucast (hdr ! 4)"
    by (rule bit_eqI) (auto simp: bit_simps dest: bit_imp_le_length)
  finally show ?thesis using g assms by (simp add: frame_header_def)
qed

text \<open>One video frame, its header already collected.\<close>

lemma mirror_frame_video:
  assumes hdr: "frame_header (lp_packet st) n 0 ntp" and arr: "arriving (lp_sock st) = cipher @ behind"
    and n: "length cipher = n"
    and rm: "rm_ok (lp_rm st)" and env: "realloc_ok env"
    and cap: "raop_rtp_mirror_ensure_payload_capacity env (lp_rm st) (of_nat n) = (0, rm1)"
    and next1: "nextDecryptCount (mirror_buf (lp_rm st)) \<le> int n"
    and plain: "map (\<lambda>i. cipher ! i XOR mirror_keystream (mirror_buf (lp_rm st)) i) [0..<n] = avcc ns"
    and ns: "\<forall>x \<in> set ns. x \<noteq> []"
  shows "\<exists>st'. mirror_frame env st = Some (st', True) \<and> arriving (lp_sock st') = behind \<and>
    rm_ok (lp_rm st') \<and> lp_readstart st' = 0 \<and> lp_packet st' = replicate 128 0 \<and>
    (\<forall>i. mirror_keystream (mirror_buf (lp_rm st')) i = mirror_keystream (mirror_buf (lp_rm st)) (n + i)) \<and>
    lp_pts_base st' = lp_pts_base (mirror_clock st ntp) \<and> lp_pts st' = lp_pts (mirror_clock st ntp) \<and>
    lp_events st' = lp_events st @
      [Video_Process \<lparr> frame_type = 1, h264_data = annexb ns, h264_pts = lp_pts (mirror_clock st ntp) \<rparr>]"
proof -
  let ?mb = "mirror_buf (lp_rm st)"
  obtain w where w: "byteutils_get_int (lp_packet st) 0 = Some w" "unat w = n"
    using hdr by (auto simp: frame_header_def)
  have small: "n \<le> MAX_MIRROR_PAYLOAD_SIZE" using hdr by (auto simp: frame_header_def)
  then have n31: "n < 2 ^ 31" by (simp add: MAX_MIRROR_PAYLOAD_SIZE_def)
  then have sw: "sint w = int n" using w sint_small [of w] by simp
  obtain t where t: "byteutils_get_short (lp_packet st) 4 = Some t" "t AND 0xff = 0"
    using frame_header_type [OF hdr] by auto
  have un: "unat (of_nat n :: u32) = n" using n31 by (simp add: unsigned_of_nat take_bit_nat_eq_self)
  have c: "rm_ok rm1" "mirror_buf rm1 = ?mb" "n \<le> length (payload_in_buffer rm1)" "n \<le> length (payload_buffer rm1)"
    using ensure_capacity_0 [OF env rm cap] un by auto
  obtain s1 where s1: "recv_into (lp_sock st) (payload_in_buffer rm1) n =
      Some (0, cipher @ drop n (payload_in_buffer rm1), s1)" "arriving s1 = behind"
    using recv_into_ok [of n "lp_sock st" "payload_in_buffer rm1"] arr n c by auto
  let ?in = "cipher @ drop n (payload_in_buffer rm1)"
  obtain mb' in' where d: "mirror_buffer_decrypt ?mb ?in (payload_buffer rm1) (int n) =
      Some (mb', in', map (\<lambda>i. ?in ! i XOR mirror_keystream ?mb i) [0..<n] @ drop n (payload_buffer rm1))"
    and ok: "mirror_ok mb'" "\<forall>i. mirror_keystream mb' i = mirror_keystream ?mb (n + i)"
    and len: "length in' = length ?in"
    using mirror_buffer_decrypt_chunk [of ?mb n ?in "payload_buffer rm1"] rm next1 c n
    by (auto simp: rm_ok_def)
  have "map (\<lambda>i. ?in ! i XOR mirror_keystream ?mb i) [0..<n] = avcc ns"
    unfolding plain [symmetric] using n by (auto simp: nth_append)
  with d have d': "mirror_buffer_decrypt ?mb ?in (payload_buffer rm1) (int n) =
      Some (mb', in', avcc ns @ drop n (payload_buffer rm1))" by simp
  have la: "length (avcc ns) = n" using arg_cong [OF plain, of length] by simp
  then have nal: "nalu_loop (avcc ns @ drop n (payload_buffer rm1)) 0 n = Some (annexb ns @ drop n (payload_buffer rm1))"
    using nalu_loop_units [of ns "[]" "[]" "drop n (payload_buffer rm1)"] ns n31 by simp
  have sl: "slice 0 n (annexb ns @ drop n (payload_buffer rm1)) = Some (annexb ns)"
    using la by (simp add: slice_def length_annexb)
  have "mirror_frame env st = mirror_video env st n" using w sw t by (simp add: mirror_frame_def)
  moreover have "byteutils_get_long (lp_packet st) 8 = Some ntp" using hdr by (simp add: frame_header_def)
  ultimately show ?thesis
    using cap s1 c d' nal sl ok len n la
    by (simp add: mirror_video_def Let_def emit_def mirror_reset_def rm_ok_def length_annexb)
qed

section \<open>A whole session\<close>

record video_frame =
  vf_header :: "byte list"
  vf_ntp :: u64
  vf_cipher :: "byte list"
  vf_units :: "byte list list"

text \<open>The bytes the sender puts on the connection.\<close>

definition wire :: "video_frame list \<Rightarrow> byte list" where
  "wire fs = concat (map (\<lambda>f. vf_header f @ vf_cipher f) fs)"

text \<open>The payloads are encrypted with the key stream of the session, each from where the last one ended.\<close>

fun encrypted_from :: "(nat \<Rightarrow> byte) \<Rightarrow> nat \<Rightarrow> video_frame list \<Rightarrow> bool" where
  "encrypted_from ks pos [] = True"
| "encrypted_from ks pos (f # fs) =
     (frame_header (vf_header f) (length (vf_cipher f)) 0 (vf_ntp f) \<and> 15 \<le> length (vf_cipher f) \<and>
      (\<forall>x \<in> set (vf_units f). x \<noteq> []) \<and>
      map (\<lambda>i. vf_cipher f ! i XOR ks (pos + i)) [0..<length (vf_cipher f)] = avcc (vf_units f) \<and>
      encrypted_from ks (pos + length (vf_cipher f)) fs)"

text \<open>The presentation times: the first frame sets the base, the others are relative to it.\<close>

fun session_events :: "u64 \<Rightarrow> u64 \<Rightarrow> video_frame list \<Rightarrow> mirror_event list" where
  "session_events base pts [] = []"
| "session_events base pts (f # fs) = (
     let (base', pts') = (if base = 0 then (ntptopts (vf_ntp f), pts) else (base, ntptopts (vf_ntp f) - base))
     in Video_Process \<lparr> frame_type = 1, h264_data = annexb (vf_units f), h264_pts = pts' \<rparr>
        # session_events base' pts' fs)"

lemma ensure_capacity_succeeds:
  assumes "\<forall>b n. env_realloc env b n \<noteq> None" and "n \<le> MAX_MIRROR_PAYLOAD_SIZE"
  shows "\<exists>rm'. raop_rtp_mirror_ensure_payload_capacity env rm (of_nat n) = (0, rm')"
proof -
  have "unat (of_nat n :: u32) = n"
    using assms(2) by (simp add: unsigned_of_nat take_bit_nat_eq_self MAX_MIRROR_PAYLOAD_SIZE_def)
  moreover obtain a b where "env_realloc env (payload_in_buffer rm) n = Some a"
    "env_realloc env (payload_buffer rm) n = Some b"
    using assms(1) by (meson option.exhaust)
  ultimately show ?thesis
    using assms(2) by (simp add: raop_rtp_mirror_ensure_payload_capacity_def Let_def)
qed

lemma mirror_session:
  assumes "realloc_ok env" and "\<forall>b n. env_realloc env b n \<noteq> None"
    and "rm_ok (lp_rm st)" and "lp_readstart st = 0" and "length (lp_packet st) = 128"
    and "arriving (lp_sock st) = wire fs"
    and "encrypted_from (mirror_keystream (mirror_buf (lp_rm st))) 0 fs"
  shows "\<exists>st'. mirror_run env [] st = Some st' \<and> rm_ok (lp_rm st') \<and>
    lp_events st' = lp_events st @ session_events (lp_pts_base st) (lp_pts st) fs"
  using assms(3-)
proof (induction fs arbitrary: st)
  case Nil
  then obtain r bs s where "recv (lp_sock st) 4 = (r, bs, s)" "r \<le> 0"
    using recv_stuck [of "lp_sock st" 4] by (auto simp: wire_def)
  then have "mirror_step env st = Some (st\<lparr>lp_sock := s\<rparr>, False)"
    using Nil by (simp add: mirror_step_def)
  then show ?case using Nil by (simp add: mirror_run_Nil [of env st])
next
  case (Cons f fs)
  let ?n = "length (vf_cipher f)" and ?mb = "mirror_buf (lp_rm st)"
  have enc: "frame_header (vf_header f) ?n 0 (vf_ntp f)" "15 \<le> ?n" "\<forall>x \<in> set (vf_units f). x \<noteq> []"
    "map (\<lambda>i. vf_cipher f ! i XOR mirror_keystream ?mb i) [0..<?n] = avcc (vf_units f)"
    "encrypted_from (mirror_keystream ?mb) ?n fs"
    using Cons.prems by auto
  have h: "length (vf_header f) = 128" "\<not> is_http (vf_header f)" "?n \<le> MAX_MIRROR_PAYLOAD_SIZE"
    using enc(1) by (auto simp: frame_header_def)
  have arr: "arriving (lp_sock st) = vf_header f @ vf_cipher f @ wire fs" using Cons.prems by (simp add: wire_def)
  obtain s where s: "arriving s = vf_cipher f @ wire fs" and run: "mirror_run env [] st =
    (case mirror_frame env (st\<lparr>lp_readstart := 4, lp_sock := s, lp_packet := vf_header f\<rparr>) of
       None \<Rightarrow> None
     | Some (st', goes_on) \<Rightarrow> if goes_on then mirror_run env [] st' else Some st')"
    using mirror_header [of st "vf_header f" "vf_cipher f @ wire fs" env] Cons.prems h arr by auto
  let ?st = "st\<lparr>lp_readstart := 4, lp_sock := s, lp_packet := vf_header f\<rparr>"
  obtain rm1 where cap: "raop_rtp_mirror_ensure_payload_capacity env (lp_rm ?st) (of_nat ?n) = (0, rm1)"
    using ensure_capacity_succeeds [OF assms(2) h(3)] by blast
  have nx: "nextDecryptCount (mirror_buf (lp_rm ?st)) \<le> int ?n"
    using Cons.prems(1) enc(2) by (simp add: rm_ok_def mirror_ok_def)
  obtain st1 where st1: "mirror_frame env ?st = Some (st1, True)" "arriving (lp_sock st1) = wire fs"
    "rm_ok (lp_rm st1)" "lp_readstart st1 = 0" "lp_packet st1 = replicate 128 0"
    "\<forall>i. mirror_keystream (mirror_buf (lp_rm st1)) i = mirror_keystream ?mb (?n + i)"
    "lp_pts_base st1 = lp_pts_base (mirror_clock ?st (vf_ntp f))" "lp_pts st1 = lp_pts (mirror_clock ?st (vf_ntp f))"
    "lp_events st1 = lp_events st @
      [Video_Process \<lparr> frame_type = 1, h264_data = annexb (vf_units f), h264_pts = lp_pts (mirror_clock ?st (vf_ntp f)) \<rparr>]"
    using mirror_frame_video [of ?st ?n "vf_ntp f" "vf_cipher f" "wire fs" env rm1 "vf_units f"]
      enc s Cons.prems(1) assms(1) cap nx by auto
  have shift: "encrypted_from ks (m + p) fs = encrypted_from (\<lambda>i. ks (m + i)) p fs" for ks p m
    by (induction fs arbitrary: p) (simp_all add: add.assoc)
  have "mirror_keystream (mirror_buf (lp_rm st1)) = (\<lambda>i. mirror_keystream ?mb (?n + i))"
    using st1(6) by (simp add: fun_eq_iff)
  then have "encrypted_from (mirror_keystream (mirror_buf (lp_rm st1))) 0 fs"
    using enc(5) shift [of _ ?n 0] by simp
  then obtain st' where "mirror_run env [] st1 = Some st'" "rm_ok (lp_rm st')"
    "lp_events st' = lp_events st1 @ session_events (lp_pts_base st1) (lp_pts st1) fs"
    using Cons.IH [OF st1(3,4) _ st1(2)] st1(5) by auto
  then show ?case
    using run st1(1,7,8,9) by (auto simp: mirror_clock_def)
qed

section \<open>Start, end and stop of the thread\<close>

text \<open>
  Sockets come from \<^verbatim>\<open>netutils_init_socket\<close> (descriptor or -1, and the port) and \<^verbatim>\<open>listen\<close>; the
  list collects the descriptors closed on failure.
\<close>

definition raop_rtp_init_mirror_sockets ::
  "int \<times> u16 \<Rightarrow> int \<times> u16 \<Rightarrow> int \<Rightarrow> raop_rtp_mirror \<Rightarrow> int \<times> raop_rtp_mirror \<times> int list" where
  "raop_rtp_init_mirror_sockets dres tres listen_ret rm =
     (case (dres, tres) of ((dsock, dport), (tsock, tport)) \<Rightarrow>
        if dsock = -1 \<or> tsock = -1 \<or> listen_ret < 0
        then (-1, rm, (if tsock \<noteq> -1 then [tsock] else []) @ (if dsock \<noteq> -1 then [dsock] else []))
        else (0, rm\<lparr>mirror_data_sock := dsock, mirror_time_sock := tsock,
                    mirror_data_lport := dport, mirror_timing_lport := tport\<rparr>, []))"

definition raop_rtp_start_mirror ::
  "int \<times> u16 \<Rightarrow> int \<times> u16 \<Rightarrow> int \<Rightarrow> raop_rtp_mirror \<Rightarrow> raop_rtp_mirror \<times> (u16 \<times> u16) option" where
  "raop_rtp_start_mirror dres tres listen_ret rm =
     (if mirror_running rm \<or> \<not> mirror_joined rm then (rm, None)
      else (case raop_rtp_init_mirror_sockets dres tres listen_ret rm of
              (r, rm, _) \<Rightarrow>
                if r < 0 then (rm, None)
                else (rm\<lparr>mirror_running := True, mirror_joined := False\<rparr>,
                      Some (mirror_timing_lport rm, mirror_data_lport rm))))"

text \<open>What the mirror thread does when its loop is left; \<^verbatim>\<open>fd\<close> is its connection, or -1.\<close>

definition close_if :: "int \<Rightarrow> mirror_event list" where
  "close_if fd = (if fd \<noteq> -1 then [Close_Socket fd] else [])"

definition mirror_thread_exit :: "int \<Rightarrow> raop_rtp_mirror \<Rightarrow> raop_rtp_mirror \<times> mirror_event list" where
  "mirror_thread_exit fd rm =
     (rm\<lparr>mirror_running := False, stream_fd := -1, mirror_data_sock := -1, mirror_time_sock := -1\<rparr>,
      close_if fd @ close_if (mirror_data_sock rm) @ close_if (mirror_time_sock rm) @ [Signal_Time, Stream_Stopped])"

text \<open>
  Stop, in two parts: up to the join of the mirror thread, and after it (between them the thread
  reaches its exit).
\<close>

definition shutdown_if :: "int \<Rightarrow> mirror_event list" where
  "shutdown_if fd = (if fd \<noteq> -1 then [Shutdown_Socket fd] else [])"

definition raop_rtp_mirror_stop_request ::
  "raop_rtp_mirror \<Rightarrow> (raop_rtp_mirror \<times> mirror_event list) option" where
  "raop_rtp_mirror_stop_request rm =
     (if mirror_joined rm then None
      else Some (rm\<lparr>mirror_running := False\<rparr>,
             shutdown_if (stream_fd rm) @ shutdown_if (mirror_data_sock rm) @ shutdown_if (mirror_time_sock rm)
             @ [Signal_Time, Join_Mirror_Thread]))"

definition raop_rtp_mirror_stop_finish :: "raop_rtp_mirror \<Rightarrow> raop_rtp_mirror \<times> mirror_event list" where
  "raop_rtp_mirror_stop_finish rm =
     (rm\<lparr>mirror_data_sock := -1, mirror_time_sock := -1, mirror_joined := True\<rparr>,
      [Signal_Time, Join_Time_Thread] @ close_if (mirror_data_sock rm) @ close_if (mirror_time_sock rm))"

text \<open>The body of the mirror thread on an accepted connection.\<close>

definition raop_rtp_mirror_thread ::
  "mirror_env \<Rightarrow> bool list \<Rightarrow> raop_rtp_mirror \<Rightarrow> int \<Rightarrow> sock \<Rightarrow> (raop_rtp_mirror \<times> mirror_event list) option" where
  "raop_rtp_mirror_thread env live rm fd s = do {
     st \<leftarrow> mirror_run env live \<lparr> lp_rm = rm\<lparr>stream_fd := fd\<rparr>, lp_sock = s, lp_packet = replicate 128 0,
        lp_readstart = 0, lp_pts_base = 0, lp_pts = 0, lp_events = [] \<rparr>;
     let (rm, evs) = mirror_thread_exit fd (lp_rm st);
     Some (rm, lp_events st @ evs)
   }"


section \<open>Life cycle\<close>

text \<open>
  The interleavings of the control thread (start, stop) with the mirror thread (its exit).  The
  join in \<^verbatim>\<open>stop\<close> returns only when the mirror thread has ended.
\<close>

datatype thread_phase = No_Thread | Thread_Alive | Thread_Ended

record mirror_world =
  w_rm :: raop_rtp_mirror
  w_phase :: thread_phase
  w_stopping :: bool
  w_starts :: nat
  w_log :: "mirror_event list"

inductive mirror_life :: "mirror_world \<Rightarrow> mirror_world \<Rightarrow> bool" where
  life_start:
    "raop_rtp_start_mirror dres tres l (w_rm w) = (rm', Some ports) \<Longrightarrow> \<not> w_stopping w \<Longrightarrow>
     mirror_life w (w\<lparr>w_rm := rm', w_phase := Thread_Alive, w_starts := w_starts w + 1\<rparr>)"
| life_start_refused:
    "raop_rtp_start_mirror dres tres l (w_rm w) = (rm', None) \<Longrightarrow> \<not> w_stopping w \<Longrightarrow>
     mirror_life w (w\<lparr>w_rm := rm'\<rparr>)"
| life_exit:
    "w_phase w = Thread_Alive \<Longrightarrow> mirror_thread_exit fd (w_rm w) = (rm', evs) \<Longrightarrow>
     mirror_life w (w\<lparr>w_rm := rm', w_phase := Thread_Ended, w_log := w_log w @ evs\<rparr>)"
| life_stop_request:
    "raop_rtp_mirror_stop_request (w_rm w) = Some (rm', evs) \<Longrightarrow> \<not> w_stopping w \<Longrightarrow>
     mirror_life w (w\<lparr>w_rm := rm', w_stopping := True, w_log := w_log w @ evs\<rparr>)"
| life_stop_finish:
    "w_stopping w \<Longrightarrow> w_phase w = Thread_Ended \<Longrightarrow> raop_rtp_mirror_stop_finish (w_rm w) = (rm', evs) \<Longrightarrow>
     mirror_life w (w\<lparr>w_rm := rm', w_phase := No_Thread, w_stopping := False, w_log := w_log w @ evs\<rparr>)"

inductive_cases mirror_lifeE: "mirror_life w w'"

inductive mirror_reachable :: "raop_rtp_mirror \<Rightarrow> mirror_world \<Rightarrow> bool" for rm0 where
  reach_init: "mirror_reachable rm0
     \<lparr> w_rm = rm0, w_phase = No_Thread, w_stopping = False, w_starts = 0, w_log = [] \<rparr>"
| reach_step: "mirror_reachable rm0 w \<Longrightarrow> mirror_life w w' \<Longrightarrow> mirror_reachable rm0 w'"

definition life_inv :: "mirror_world \<Rightarrow> bool" where
  "life_inv w \<longleftrightarrow>
     (mirror_joined (w_rm w) \<longleftrightarrow> w_phase w = No_Thread) \<and>
     (mirror_running (w_rm w) \<longrightarrow> w_phase w = Thread_Alive) \<and>
     (w_stopping w \<longrightarrow> w_phase w \<noteq> No_Thread) \<and>
     count_list (w_log w) Stream_Stopped + (if w_phase w = Thread_Alive then 1 else 0) = w_starts w"

lemma count_list_append [simp]: "count_list (xs @ ys) x = count_list xs x + count_list ys x"
  by (induction xs) auto

lemma life_inv_step: "mirror_life w w' \<Longrightarrow> life_inv w \<Longrightarrow> life_inv w'"
  by (erule mirror_lifeE)
    (auto simp: life_inv_def raop_rtp_start_mirror_def raop_rtp_init_mirror_sockets_def mirror_thread_exit_def
      raop_rtp_mirror_stop_request_def raop_rtp_mirror_stop_finish_def close_if_def shutdown_if_def
      split: if_splits prod.splits)

text \<open>C37: In every interleaving of start, stop and the end of the mirror thread, the end of the stream is
  reported exactly once for every start, the object counts as running only while its thread lives, and it
  counts as joined exactly when there is no thread left to join.\<close>

theorem mirror_life_invariant:
  assumes "mirror_reachable rm0 w" and "mirror_joined rm0" and "\<not> mirror_running rm0"
  shows "count_list (w_log w) Stream_Stopped + (if w_phase w = Thread_Alive then 1 else 0) = w_starts w \<and>
    (mirror_joined (w_rm w) \<longleftrightarrow> w_phase w = No_Thread) \<and>
    (mirror_running (w_rm w) \<longrightarrow> w_phase w = Thread_Alive)"
proof -
  have "life_inv w"
    using assms(1)
  proof (induction rule: mirror_reachable.induct)
    case reach_init
    then show ?case using assms(2,3) by (simp add: life_inv_def)
  next
    case (reach_step w w')
    then show ?case using life_inv_step by blast
  qed
  then show ?thesis by (simp add: life_inv_def)
qed

section \<open>A concrete session\<close>

definition sample_env :: mirror_env where
  "sample_env = \<lparr> env_realloc = (\<lambda>b n. Some (replicate n 0)), env_malloc = (\<lambda>n. True) \<rparr>"

definition sample_rm :: raop_rtp_mirror where
  "sample_rm = \<lparr> mirror_buf = sample_mb, mirror_running = False, mirror_joined = True, mirror_flush = -42,
     mirror_data_sock = -1, mirror_time_sock = -1, stream_fd = -1, mirror_data_lport = 0,
     mirror_timing_rport = 0, mirror_timing_lport = 0, mirror_remote = [], payload_in_buffer = [],
     payload_buffer = [], payload_capacity = 0 \<rparr>"

text \<open>One frame with one NAL unit of 16 bytes, encrypted with the session's key stream.\<close>

definition sample_units :: "byte list list" where
  "sample_units = [replicate 16 7]"

definition sample_frame :: video_frame where
  "sample_frame =
     \<lparr> vf_header = [20, 0, 0, 0, 0, 0, 0, 0, 1, 0, 0, 0, 0, 0, 0, 0] @ replicate 112 0, vf_ntp = 1,
       vf_cipher = map (\<lambda>i. avcc sample_units ! i XOR mirror_keystream sample_mb i) [0..<20],
       vf_units = sample_units \<rparr>"

lemma sample_env_ok: "realloc_ok sample_env" "\<forall>b n. env_realloc sample_env b n \<noteq> None"
  by (auto simp: realloc_ok_def sample_env_def)

lemma sample_rm_ok: "rm_ok sample_rm"
  using sample_mb_ok by (simp add: rm_ok_def sample_rm_def)

lemma sample_header: "frame_header (vf_header sample_frame) 20 0 1"
  by (simp add: frame_header_def sample_frame_def is_http_def byteutils_get_long_def byteutils_get_int2_def
      byteutils_get_int_def MAX_MIRROR_PAYLOAD_SIZE_def)

lemma sample_encrypted: "encrypted_from (mirror_keystream (mirror_buf sample_rm)) 0 [sample_frame]"
proof -
  have "map (\<lambda>i. vf_cipher sample_frame ! i XOR mirror_keystream sample_mb i) [0..<20] = avcc sample_units"
    by (rule nth_equalityI) (auto simp: sample_frame_def sample_units_def avcc_def xor.assoc)
  then show ?thesis
    using sample_header by (simp add: sample_rm_def) (simp add: sample_frame_def sample_units_def)
qed

theorem nalu_loop_annexb_witness:
  "nalu_loop [0, 0, 0, 2, 9, 8, 0, 0, 0, 1, 7, 5] 0 11 = Some [0, 0, 0, 1, 9, 8, 0, 0, 0, 1, 7, 5]"
proof -
  have len: "(11 :: nat) = Suc (Suc (Suc (Suc (Suc (Suc (Suc (Suc (Suc (Suc (Suc 0))))))))))" by simp
  show ?thesis
    using nalu_loop_annexb [of "[[9, 8], [7]]" "[5]"] unfolding len by (simp add: avcc_def annexb_def len4_def)
qed

theorem nalu_loop_overflow_witness:
  "nalu_loop [0x7f, 0xff, 0xff, 0xff, 0, 0, 0, 0] 0 8 = None"
proof -
  have len: "(8 :: nat) = Suc (Suc (Suc (Suc (Suc (Suc (Suc (Suc 0)))))))" by simp
  show ?thesis
    using nalu_loop_overflow [of "[0x7f, 0xff, 0xff, 0xff, 0, 0, 0, 0]" "0xff"] unfolding len
    by (simp add: MAX_MIRROR_PAYLOAD_SIZE_def)
qed

theorem sps_pps_record_safe_witness:
  "sps_pps_record sample_env [1, 2, 3, 4, 5, 6, 0, 200, 9] 9 \<noteq> None"
  by (rule sps_pps_record_safe) simp_all

theorem sps_pps_record_annexb_witness:
  "sps_pps_record sample_env (avcC_record [1, 2, 3, 4, 5, 6] 1 [7, 8] [9]) (length (avcC_record [1, 2, 3, 4, 5, 6] 1 [7, 8] [9]))
     = Some (Codec_Done (Some [0, 0, 0, 1, 7, 8, 0, 0, 0, 1, 9]))"
  using sps_pps_record_annexb [of "[1, 2, 3, 4, 5, 6]" "[7, 8]" "[9]" sample_env 1]
  by (simp add: sample_env_def annexb_def)

theorem ensure_payload_capacity_ok_witness:
  "\<exists>r rm'. raop_rtp_mirror_ensure_payload_capacity sample_env sample_rm 100 = (r, rm') \<and> rm_ok rm' \<and>
     (r = 0 \<longrightarrow> 100 \<le> length (payload_buffer rm'))"
  using ensure_payload_capacity_ok [OF sample_env_ok(1) sample_rm_ok, of 100] by auto


theorem mirror_life_invariant_witness:
  "\<exists>w. mirror_reachable sample_rm w \<and> w_starts w = 1 \<and> count_list (w_log w) Stream_Stopped = 0"
proof -
  obtain rm' where s: "raop_rtp_start_mirror (3, 7000) (4, 7001) 0 sample_rm = (rm', Some (7001, 7000))"
    by (simp add: raop_rtp_start_mirror_def raop_rtp_init_mirror_sockets_def sample_rm_def)
  let ?u = "\<lparr> w_rm = sample_rm, w_phase = No_Thread, w_stopping = False, w_starts = 0, w_log = [] \<rparr>"
  let ?w = "?u\<lparr>w_rm := rm', w_phase := Thread_Alive, w_starts := w_starts ?u + 1\<rparr>"
  have "mirror_life ?u ?w" by (rule life_start) (use s in simp_all)
  then have "mirror_reachable sample_rm ?w" by (rule reach_step [OF reach_init])
  then show ?thesis
    using mirror_life_invariant [of sample_rm ?w] by (auto simp: sample_rm_def)
qed

end
