(* ===== verification/Alac_Bits.thy ===== *)
theory Alac_Bits
  imports Interfaces
begin

text \<open>
  \<^verbatim>\<open>alac/ALACBitUtilities.c\<close>: the bit buffer of the ALAC decoder.  \<^verbatim>\<open>bb_mem\<close> is the memory from
  the first byte of the buffer on (it may go on behind the buffer); \<^verbatim>\<open>cur\<close> and \<^verbatim>\<open>bend\<close> are offsets
  in it, and the first byte is \<^verbatim>\<open>bend - byteSize\<close>.
\<close>

unbundle bit_operations_syntax

section \<open>Definitions\<close>

record bit_buffer =
  bb_mem :: "byte list"
  cur :: nat
  bend :: nat
  bitIndex :: u32
  byteSize :: u32

definition BitBufferInit :: "byte list \<Rightarrow> u32 \<Rightarrow> bit_buffer" where
  "BitBufferInit buffer sz = \<lparr> bb_mem = buffer, cur = 0, bend = unat sz, bitIndex = 0, byteSize = sz \<rparr>"

definition bb_step :: "bit_buffer \<Rightarrow> u32 \<Rightarrow> bit_buffer" where
  "bb_step bits numBits = (
     let bi = bitIndex bits + numBits
     in bits\<lparr>cur := cur bits + unat (drop_bit 3 bi), bitIndex := bi AND 7\<rparr>)"

text \<open>The three bytes at the cursor.  A negative shift count is undefined behaviour.\<close>

definition bb_word24 :: "bit_buffer \<Rightarrow> u32 option" where
  "bb_word24 bits = do {
     b0 \<leftarrow> rd (bb_mem bits) (cur bits);
     b1 \<leftarrow> rd (bb_mem bits) (cur bits + 1);
     b2 \<leftarrow> rd (bb_mem bits) (cur bits + 2);
     Some (push_bit 16 (ucast b0) OR push_bit 8 (ucast b1) OR ucast b2)
   }"

definition BitBufferRead :: "nat \<Rightarrow> bit_buffer \<Rightarrow> (u32 \<times> bit_buffer) option" where
  "BitBufferRead numBits bits = do {
     returnBits \<leftarrow> bb_word24 bits;
     let returnBits = push_bit (unat (bitIndex bits)) returnBits AND 0x00FFFFFF;
     require (numBits \<le> 24);
     Some (drop_bit (24 - numBits) returnBits, bb_step bits (of_nat numBits))
   }"

definition BitBufferReadSmall :: "nat \<Rightarrow> bit_buffer \<Rightarrow> (byte \<times> bit_buffer) option" where
  "BitBufferReadSmall numBits bits = do {
     b0 \<leftarrow> rd (bb_mem bits) (cur bits);
     b1 \<leftarrow> rd (bb_mem bits) (cur bits + 1);
     let returnBits = (push_bit 8 (ucast b0) OR ucast b1 :: u16);
     let returnBits = push_bit (unat (bitIndex bits)) returnBits;
     require (numBits \<le> 16);
     Some (ucast (drop_bit (16 - numBits) returnBits), bb_step bits (of_nat numBits))
   }"

definition BitBufferReadOne :: "bit_buffer \<Rightarrow> (byte \<times> bit_buffer) option" where
  "BitBufferReadOne bits = do {
     b0 \<leftarrow> rd (bb_mem bits) (cur bits);
     Some (drop_bit (unat (7 - bitIndex bits)) b0 AND 1, bb_step bits 1)
   }"

definition BitBufferPeek :: "nat \<Rightarrow> bit_buffer \<Rightarrow> u32 option" where
  "BitBufferPeek numBits bits = do {
     w \<leftarrow> bb_word24 bits;
     require (numBits \<le> 24);
     Some (drop_bit (24 - numBits) (push_bit (unat (bitIndex bits)) w AND 0x00FFFFFF))
   }"

definition BitBufferPeekOne :: "bit_buffer \<Rightarrow> u32 option" where
  "BitBufferPeekOne bits = do {
     b0 \<leftarrow> rd (bb_mem bits) (cur bits);
     Some (ucast (drop_bit (unat (7 - bitIndex bits)) b0 AND 1))
   }"

text \<open>The loop ends at the first byte without the continuation bit; it cannot run past the memory.\<close>

partial_function (option) unpack_ber :: "u32 \<Rightarrow> byte \<Rightarrow> bit_buffer \<Rightarrow> (u32 \<times> bit_buffer) option" where
  "unpack_ber sz tmp bits =
     (if tmp AND 0x80 = 0 then Some (sz, bits)
      else Option.bind (BitBufferReadSmall 8 bits) (\<lambda>(tmp, bits).
        unpack_ber (push_bit 7 sz OR ucast (tmp AND 0x7f)) tmp bits))"

definition BitBufferUnpackBERSize :: "bit_buffer \<Rightarrow> (u32 \<times> bit_buffer) option" where
  "BitBufferUnpackBERSize bits = unpack_ber 0 0x80 bits"

definition bb_begin :: "bit_buffer \<Rightarrow> int" where
  "bb_begin bits = int (bend bits) - uint (byteSize bits)"

definition BitBufferGetPosition :: "bit_buffer \<Rightarrow> u32" where
  "BitBufferGetPosition bits = word_of_int (int (cur bits) - bb_begin bits) * 8 + bitIndex bits"

definition BitBufferAdvance :: "u32 \<Rightarrow> bit_buffer \<Rightarrow> bit_buffer" where
  "BitBufferAdvance numBits bits = (if numBits \<noteq> 0 then bb_step bits numBits else bits)"

text \<open>A pointer before the memory is undefined behaviour, also when it is reset at once.\<close>

definition BitBufferRewind :: "u32 \<Rightarrow> bit_buffer \<Rightarrow> bit_buffer option" where
  "BitBufferRewind numBits bits =
     (if numBits = 0 then Some bits
      else if bitIndex bits \<ge> numBits then Some (bits\<lparr>bitIndex := bitIndex bits - numBits\<rparr>)
      else do {
        let numBits = numBits - bitIndex bits;
        let numBytes = numBits div 8;
        let numBits = numBits mod 8;
        let c = int (cur bits) - uint numBytes;
        let (c, bi) = (if numBits > 0 then (c - 1, 8 - numBits) else (c, 0));
        let (c, bi) = (if c < bb_begin bits then (bb_begin bits, 0) else (c, bi));
        require (c \<ge> 0);
        Some (bits\<lparr>cur := nat c, bitIndex := bi\<rparr>)
      })"

text \<open>Writing: \<^verbatim>\<open>curNum\<close> bits of the value go into one byte, \<^verbatim>\<open>left\<close> (the code's \<^verbatim>\<open>invBitIndex\<close>) bits of
  which are still free.\<close>

definition write_chunk :: "u32 \<Rightarrow> nat \<Rightarrow> nat \<Rightarrow> nat \<Rightarrow> byte \<Rightarrow> byte" where
  "write_chunk bitValues numBits curNum left b = (
     let tmp = drop_bit (numBits - curNum) bitValues;
         shift = left - curNum;
         msk = push_bit shift (drop_bit (8 - curNum) (0xff :: byte))
     in (b AND NOT msk) OR (push_bit shift (ucast tmp) AND msk))"

function write_loop :: "u32 \<Rightarrow> nat \<Rightarrow> nat \<Rightarrow> bit_buffer \<Rightarrow> (nat \<times> bit_buffer) option" where
  "write_loop bitValues numBits left bits =
     (if numBits > 0 \<and> left > 0
      then do {
        let curNum = min left numBits;
        b \<leftarrow> rd (bb_mem bits) (cur bits);
        let bits = bits\<lparr>bb_mem := (bb_mem bits)[cur bits := write_chunk bitValues numBits curNum left b]\<rparr>;
        let left = left - curNum;
        let (left, bits) = (if left = 0 then (8, bits\<lparr>cur := cur bits + 1\<rparr>) else (left, bits));
        write_loop bitValues (numBits - curNum) left bits
      }
      else Some (left, bits))"
  by auto
termination
  by (relation "measure (\<lambda>(v, n, left, b). n)") auto

declare write_loop.simps [simp del]

definition BitBufferWrite :: "u32 \<Rightarrow> nat \<Rightarrow> bit_buffer \<Rightarrow> bit_buffer option" where
  "BitBufferWrite bitValues numBits bits =
     (if numBits = 0 then Some bits
      else do {
        (left, bits) \<leftarrow> write_loop bitValues numBits (8 - unat (bitIndex bits)) bits;
        Some (bits\<lparr>bitIndex := of_nat (8 - left)\<rparr>)
      })"

definition BitBufferByteAlign :: "bool \<Rightarrow> bit_buffer \<Rightarrow> bit_buffer option" where
  "BitBufferByteAlign addZeros bits =
     (if bitIndex bits = 0 then Some bits
      else if addZeros then BitBufferWrite 0 (unat (8 - bitIndex bits)) bits
      else Some (BitBufferAdvance (8 - bitIndex bits) bits))"

definition BitBufferReset :: "bit_buffer \<Rightarrow> bit_buffer option" where
  "BitBufferReset bits = do {
     require (bb_begin bits \<ge> 0);
     Some (bits\<lparr>cur := nat (bb_begin bits), bitIndex := 0\<rparr>)
   }"

section \<open>Reading\<close>

definition bb_pos :: "bit_buffer \<Rightarrow> nat" where
  "bb_pos bits = 8 * cur bits + unat (bitIndex bits)"

definition bb_ok :: "bit_buffer \<Rightarrow> bool" where
  "bb_ok bits \<longleftrightarrow> bitIndex bits < 8"

lemma bb_step_nowrap:
  assumes "unat (bitIndex bits) + unat n < 2 ^ 32"
  shows "bb_pos (bb_step bits n) = bb_pos bits + unat n" "bb_ok (bb_step bits n)"
    "bb_mem (bb_step bits n) = bb_mem bits" "bend (bb_step bits n) = bend bits"
    "byteSize (bb_step bits n) = byteSize bits"
proof -
  have s: "unat (bitIndex bits + n) = unat (bitIndex bits) + unat n"
    using assms by (subst unat_add_lem [THEN iffD1]) simp_all
  have a: "unat (x AND 7) = unat x mod 8" for x :: u32
  proof -
    have "x AND 7 = take_bit 3 x" by (simp add: take_bit_eq_mask mask_eq_exp_minus_1)
    then show ?thesis by (simp add: take_bit_eq_mod unat_mod_distrib)
  qed
  show "bb_pos (bb_step bits n) = bb_pos bits + unat n"
    by (simp add: bb_pos_def bb_step_def Let_def a s drop_bit_eq_div unat_div_distrib)
  show "bb_ok (bb_step bits n)"
    by (simp add: bb_ok_def bb_step_def Let_def word_less_nat_alt a)
qed (simp_all add: bb_step_def Let_def)

lemma bb_step_pos:
  assumes "bb_ok bits" and "unat n < 2 ^ 32 - 8"
  shows "bb_pos (bb_step bits n) = bb_pos bits + unat n" "bb_ok (bb_step bits n)"
    "bb_mem (bb_step bits n) = bb_mem bits" "bend (bb_step bits n) = bend bits"
    "byteSize (bb_step bits n) = byteSize bits"
proof -
  have "unat (bitIndex bits) + unat n < 2 ^ 32"
    using assms by (simp add: bb_ok_def word_less_nat_alt)
  from bb_step_nowrap [OF this] show "bb_pos (bb_step bits n) = bb_pos bits + unat n" "bb_ok (bb_step bits n)"
    "bb_mem (bb_step bits n) = bb_mem bits" "bend (bb_step bits n) = bend bits"
    "byteSize (bb_step bits n) = byteSize bits" .
qed

text \<open>A bit of the byte string, by byte and place; the mirrored place in three bytes.\<close>

lemma mem_bit_split: "mem_bit mem (8 * c + m) = bit (mem ! (c + m div 8)) (7 - m mod 8)"
  by (simp add: mem_bit_def)

lemma mirror_bytes:
  fixes m :: nat
  assumes "m < 8 * k"
  shows "8 * k - 1 - m = 8 * (k - 1 - m div 8) + (7 - m mod 8)"
proof -
  obtain a r where m: "m = 8 * a + r" "r < 8" and q: "m div 8 = a" "m mod 8 = r"
    by (metis mult_div_mod_eq mod_less_divisor zero_less_numeral)
  then obtain d where "k = a + 1 + d" using assms by (metis Suc_eq_plus1 Suc_leI add_lessD1 le_Suc_ex nat_mult_less_cancel_disj)
  then show ?thesis unfolding q using m(1,2) by simp
qed

lemma mirror_24:
  fixes m :: nat
  assumes "m < 24"
  shows "(23 - m) div 8 = 2 - m div 8" "(23 - m) mod 8 = 7 - m mod 8"
proof -
  define s where "s = 7 - m mod 8"
  have "23 - m = 8 * (2 - m div 8) + s" "s < 8" using mirror_bytes [of m 3] assms by (simp_all add: s_def)
  then show "(23 - m) div 8 = 2 - m div 8" "(23 - m) mod 8 = 7 - m mod 8"
    by (simp_all add: s_def [symmetric])
qed

lemma bb_word24_bits:
  assumes "cur bits + 2 < length (bb_mem bits)"
  obtains w where "bb_word24 bits = Some w"
    "\<And>j. bit w j \<longleftrightarrow> j < 24 \<and> bit (bb_mem bits ! (cur bits + (2 - j div 8))) (j mod 8)"
proof -
  let ?m = "\<lambda>i. bb_mem bits ! (cur bits + i)"
  let ?w = "push_bit 16 (ucast (?m 0)) OR push_bit 8 (ucast (?m 1)) OR ucast (?m 2) :: u32"
  have "bb_word24 bits = Some ?w" using assms by (simp add: bb_word24_def)
  moreover have "bit ?w j \<longleftrightarrow> j < 24 \<and> bit (?m (2 - j div 8)) (j mod 8)" for j
  proof -
    have byte: "bit (b :: byte) i \<Longrightarrow> i < 8" for b i using bit_imp_le_length [of b i] by simp
    have d: "j div 8 = 0 \<Longrightarrow> j mod 8 = j" "j div 8 = 1 \<Longrightarrow> j mod 8 = j - 8" "j div 8 = 2 \<Longrightarrow> j mod 8 = j - 16"
      by presburger+
    consider "j div 8 = 0" "j < 8" | "j div 8 = 1" "8 \<le> j" "j < 16" | "j div 8 = 2" "16 \<le> j" "j < 24" | "24 \<le> j"
      by force
    then show ?thesis
    proof cases
      case 1
      then show ?thesis using d by (auto simp: bit_simps dest: byte)
    next
      case 2
      then show ?thesis using d by (auto simp: bit_simps dest: byte)
    next
      case 3
      then show ?thesis using d by (auto simp: bit_simps dest: byte)
    next
      case 4
      then show ?thesis by (auto simp: bit_simps dest: byte)
    qed
  qed
  ultimately show thesis by (rule that)
qed

lemma bit_mask24: "bit (0x00FFFFFF :: int) j \<longleftrightarrow> j < 24"
proof -
  have "(0x00FFFFFF :: int) = mask 24" by (simp add: mask_eq_exp_minus_1)
  then show ?thesis by (simp only: bit_mask_iff) auto
qed

lemma read24_value:
  assumes ok: "bb_ok bits" and len: "cur bits + 2 < length (bb_mem bits)" and n: "n \<le> 17"
  shows "\<exists>w. bb_word24 bits = Some w \<and>
    drop_bit (24 - n) (push_bit (unat (bitIndex bits)) w AND 0x00FFFFFF) = bits_val (bb_mem bits) (bb_pos bits) n"
proof -
  obtain w where w: "bb_word24 bits = Some w"
    "\<And>j. bit w j \<longleftrightarrow> j < 24 \<and> bit (bb_mem bits ! (cur bits + (2 - j div 8))) (j mod 8)"
    using bb_word24_bits [OF len] by blast
  define bi where "bi = unat (bitIndex bits)"
  have bi: "bi < 8" using ok by (simp add: bb_ok_def word_less_nat_alt bi_def)
  have "bit (drop_bit (24 - n) (push_bit bi w AND 0x00FFFFFF)) i = bit (bits_val (bb_mem bits) (bb_pos bits) n :: u32) i" for i
  proof (cases "i < n")
    case True
    let ?q = "n - 1 - i" and ?j = "24 - n + i - bi"
    have q: "bi + ?q < 24" using True n bi by linarith
    have j: "?j = 23 - (bi + ?q)" "bi \<le> 24 - n + i" "?j < 24" using True n bi by linarith+
    have k: "mem_bit (bb_mem bits) (bb_pos bits + ?q) =
        bit (bb_mem bits ! (cur bits + (bi + ?q) div 8)) (7 - (bi + ?q) mod 8)"
      using mem_bit_split [of "bb_mem bits" "cur bits" "bi + ?q"] by (simp add: bb_pos_def bi_def add.assoc)
    have "(bi + ?q) div 8 \<le> 2" using q by linarith
    then have "2 - ?j div 8 = (bi + ?q) div 8" "?j mod 8 = 7 - (bi + ?q) mod 8"
      unfolding j(1) mirror_24 [OF q] by (simp_all only: diff_diff_cancel)
    then have "bit w ?j = mem_bit (bb_mem bits) (bb_pos bits + ?q)"
      using w(2) [of ?j] j(3) k by simp
    moreover have "24 + i - n < 24" "24 + i - n < 32" using True n by linarith+
    ultimately show ?thesis
      using True n j(2,3) bi by (simp add: bit_simps bit_mask24 bit_bits_val)
  next
    case False
    then show ?thesis using n by (auto simp: bit_simps bit_mask24 bit_bits_val)
  qed
  then have "drop_bit (24 - n) (push_bit bi w AND 0x00FFFFFF) = bits_val (bb_mem bits) (bb_pos bits) n"
    by (intro bit_word_eqI) simp
  then show ?thesis using w(1) by (auto simp: bi_def)
qed

lemma read16_value:
  assumes ok: "bb_ok bits" and n: "n \<le> 8"
  defines "w \<equiv> push_bit 8 (ucast (bb_mem bits ! cur bits)) OR ucast (bb_mem bits ! (cur bits + 1)) :: u16"
  shows "ucast (drop_bit (16 - n) (push_bit (unat (bitIndex bits)) w)) = (bits_val (bb_mem bits) (bb_pos bits) n :: byte)"
proof (rule bit_word_eqI)
  fix i assume "i < LENGTH(8)"
  define bi where "bi = unat (bitIndex bits)"
  have bi: "bi < 8" using ok by (simp add: bb_ok_def word_less_nat_alt bi_def)
  have byte: "bit (b :: byte) k \<Longrightarrow> k < 8" for b k using bit_imp_le_length [of b k] by simp
  have w: "bit w (8 * a + r) \<longleftrightarrow> bit (bb_mem bits ! (cur bits + (1 - a))) r" if "a < 2" "r < 8" for a r
    using that by (cases a) (auto simp: w_def bit_simps dest: byte)
  show "bit (ucast (drop_bit (16 - n) (push_bit (unat (bitIndex bits)) w)) :: byte) i =
      bit (bits_val (bb_mem bits) (bb_pos bits) n :: byte) i"
  proof (cases "i < n")
    case True
    let ?q = "bi + (n - 1 - i)"
    define a r where "a = 1 - ?q div 8" and "r = 7 - ?q mod 8"
    have q: "?q < 16" using True n bi by linarith
    then have "?q div 8 \<le> 1" by linarith
    then have ar2: "a < 2" "r < 8" "1 - a = ?q div 8"
      unfolding a_def r_def by (auto intro: le_less_trans [OF diff_le_self])
    have "16 - n + i - bi = 15 - ?q" using True n bi by linarith
    also have "15 - ?q = 8 * (1 - ?q div 8) + (7 - ?q mod 8)" 
    proof -
      have "8 * 2 - 1 - ?q = 8 * (2 - 1 - ?q div 8) + (7 - ?q mod 8)" by (rule mirror_bytes) (use q in simp)
      moreover have "8 * 2 - 1 = (15 :: nat)" "2 - 1 = (1 :: nat)" by simp_all
      ultimately show ?thesis by (simp only:)
    qed
    finally have ar1: "16 - n + i - bi = 8 * a + r" by (simp only: a_def r_def)
    have "mem_bit (bb_mem bits) (bb_pos bits + (n - 1 - i)) = bit (bb_mem bits ! (cur bits + ?q div 8)) r"
      using mem_bit_split [of "bb_mem bits" "cur bits" ?q] by (simp add: bb_pos_def bi_def add.assoc r_def)
    also have "\<dots> = bit w (16 - n + i - bi)" unfolding ar1 w [OF ar2(1,2)] ar2(3) ..
    finally have b: "mem_bit (bb_mem bits) (bb_pos bits + (n - 1 - i)) = bit w (16 - n + i - bi)" .
    have "bi \<le> 16 - n + i" "16 - n + i < 16" "16 + i - n < 16" using True n bi by linarith+
    then show ?thesis
      using True n b \<open>i < LENGTH(8)\<close> by (simp add: bit_simps bit_bits_val bi_def [symmetric])
  next
    case False
    then show ?thesis using n by (auto simp: bit_simps bit_bits_val)
  qed
qed

lemma BitBufferRead_value:
  assumes "bb_ok bits" and "n \<le> 17" and "cur bits + 3 \<le> length (bb_mem bits)"
  shows "BitBufferRead n bits = Some (bits_val (bb_mem bits) (bb_pos bits) n, bb_step bits (of_nat n))"
  using read24_value [OF assms(1) _ assms(2)] assms(2,3) by (auto simp: BitBufferRead_def Let_def)

lemma BitBufferReadSmall_value:
  assumes "bb_ok bits" and "n \<le> 8" and "cur bits + 2 \<le> length (bb_mem bits)"
  shows "BitBufferReadSmall n bits = Some (bits_val (bb_mem bits) (bb_pos bits) n, bb_step bits (of_nat n))"
  using read16_value [OF assms(1,2)] assms(2,3) by (simp add: BitBufferReadSmall_def Let_def)

lemma bb_pos_div: "bb_ok bits \<Longrightarrow> bb_pos bits div 8 = cur bits"
  by (simp add: bb_pos_def bb_ok_def word_less_nat_alt)

lemma bb_step_small:
  assumes "bb_ok bits" and "n \<le> 100"
  shows "bb_pos (bb_step bits (of_nat n)) = bb_pos bits + n" "bb_ok (bb_step bits (of_nat n))"
proof -
  have "unat (of_nat n :: u32) = n" using assms(2) by (simp add: unat_of_nat take_bit_nat_eq_self)
  then show "bb_pos (bb_step bits (of_nat n)) = bb_pos bits + n" "bb_ok (bb_step bits (of_nat n))"
    using bb_step_pos [OF assms(1), of "of_nat n"] assms(2) by simp_all
qed

lemma bb_step_mem [simp]: "bb_mem (bb_step bits n) = bb_mem bits" "bend (bb_step bits n) = bend bits"
    "byteSize (bb_step bits n) = byteSize bits"
  by (simp_all add: bb_step_def Let_def)

text \<open>The frame of a reader: nothing but the position changes.\<close>

definition bb_frame :: "byte list \<Rightarrow> nat \<Rightarrow> u32 \<Rightarrow> bit_buffer \<Rightarrow> bool" where
  "bb_frame mem e sz bits \<longleftrightarrow> bb_ok bits \<and> bb_mem bits = mem \<and> bend bits = e \<and> byteSize bits = sz"

interpretation br: bit_reader BitBufferRead bb_mem bb_pos "bb_frame mem e sz" 17 3 for mem e sz
proof
  fix b :: bit_buffer and n :: nat
  assume b: "bb_frame mem e sz b" and n: "n \<le> 17" and l: "bb_pos b div 8 + 3 \<le> length (bb_mem b)"
  have ok: "bb_ok b" using b by (simp add: bb_frame_def)
  have "BitBufferRead n b = Some (bits_val (bb_mem b) (bb_pos b) n, bb_step b (of_nat n))"
    using l by (intro BitBufferRead_value [OF ok n]) (simp add: bb_pos_div [OF ok])
  then show "\<exists>b'. BitBufferRead n b = Some (bits_val (bb_mem b) (bb_pos b) n, b') \<and> bb_frame mem e sz b' \<and>
      bb_mem b' = bb_mem b \<and> bb_pos b' = bb_pos b + n"
    using bb_step_small [OF ok, of n] n b by (intro exI [of _ "bb_step b (of_nat n)"]) (simp add: bb_frame_def)
qed

interpretation brs: bit_reader BitBufferReadSmall bb_mem bb_pos "bb_frame mem e sz" 8 2 for mem e sz
proof
  fix b :: bit_buffer and n :: nat
  assume b: "bb_frame mem e sz b" and n: "n \<le> 8" and l: "bb_pos b div 8 + 2 \<le> length (bb_mem b)"
  have ok: "bb_ok b" using b by (simp add: bb_frame_def)
  have "BitBufferReadSmall n b = Some (bits_val (bb_mem b) (bb_pos b) n, bb_step b (of_nat n))"
    using l by (intro BitBufferReadSmall_value [OF ok n]) (simp add: bb_pos_div [OF ok])
  then show "\<exists>b'. BitBufferReadSmall n b = Some (bits_val (bb_mem b) (bb_pos b) n, b') \<and> bb_frame mem e sz b' \<and>
      bb_mem b' = bb_mem b \<and> bb_pos b' = bb_pos b + n"
    using bb_step_small [OF ok, of n] n b by (intro exI [of _ "bb_step b (of_nat n)"]) (simp add: bb_frame_def)
qed

section \<open>Writing\<close>

lemma write_chunk_bit:
  assumes c: "c \<le> left" "left \<le> 8" "0 < c" "c \<le> n" and j: "j < 8"
  shows "bit (write_chunk v n c left b) j \<longleftrightarrow>
    (if left - c \<le> j \<and> j < left then bit v (n + j - left) else bit b j)"
proof -
  define msk where msk: "msk = push_bit (left - c) (drop_bit (8 - c) (0xff :: byte))"
  have w: "write_chunk v n c left b = (b AND NOT msk) OR (push_bit (left - c) (ucast (drop_bit (n - c) v)) AND msk)"
    by (simp add: write_chunk_def Let_def msk)
  have ff: "bit (0xff :: byte) k \<longleftrightarrow> k < 8" for k
  proof -
    have "(0xff :: byte) = mask 8" by (simp add: mask_eq_exp_minus_1)
    then show ?thesis by (simp only: bit_mask_iff) auto
  qed
  then have m: "bit msk j \<longleftrightarrow> left - c \<le> j \<and> j < left"
  proof (cases "left - c \<le> j")
    case True
    then have "8 - c + (j - (left - c)) < 8 \<longleftrightarrow> j < left" using c by linarith
    then show ?thesis using True j
      unfolding msk bit_push_bit_iff bit_drop_bit_eq o_def ff by simp
  next
    case False
    then show ?thesis unfolding msk bit_push_bit_iff by simp
  qed
  show ?thesis
  proof (cases "left - c \<le> j \<and> j < left")
    case True
    then have e: "n - c + (j - (left - c)) = n + j - left" "left - c \<le> j" using c by linarith+
    have "j - (left - c) < 8" using j by linarith
    then show ?thesis
      using True m j e(2) unfolding w bit_or_iff bit_and_iff bit_not_iff bit_push_bit_iff bit_ucast_iff bit_drop_bit_eq o_def e(1) [symmetric]
      by (simp add: add.commute)
  next
    case False
    with m j have "bit (write_chunk v n c left b) j = bit b j" unfolding w bit_or_iff bit_and_iff bit_not_iff by simp
    with False show ?thesis by auto
  qed
qed

text \<open>The loop writes the n low bits of the value, most significant first, at the cursor.\<close>

definition wpos :: "nat \<Rightarrow> bit_buffer \<Rightarrow> nat" where
  "wpos left bits = 8 * cur bits + (8 - left)"

lemma mem_bit_update:
  assumes "k < length mem"
  shows "mem_bit (mem[k := b]) q = (if q div 8 = k then bit b (7 - q mod 8) else mem_bit mem q)"
  using assms by (simp add: mem_bit_def)

lemma write_loop_spec:
  assumes "0 < left" and "left \<le> 8" and "wpos left bits + n \<le> 8 * length (bb_mem bits)"
  shows "\<exists>left' bits'. write_loop v n left bits = Some (left', bits') \<and> 0 < left' \<and> left' \<le> 8 \<and>
    wpos left' bits' = wpos left bits + n \<and> length (bb_mem bits') = length (bb_mem bits) \<and>
    bend bits' = bend bits \<and> byteSize bits' = byteSize bits \<and>
    (\<forall>q. mem_bit (bb_mem bits') q = (if wpos left bits \<le> q \<and> q < wpos left bits + n
        then bit v (wpos left bits + n - 1 - q) else mem_bit (bb_mem bits) q))"
  using assms
proof (induction v n left bits rule: write_loop.induct)
  case (1 v n left bits)
  show ?case
  proof (cases "n = 0")
    case True
    then show ?thesis using 1(2,3) by (intro exI [of _ left] exI [of _ bits]) (auto simp: write_loop.simps)
  next
    case False
    define c where "c = min left n"
    define b where "b = write_chunk v n c left (bb_mem bits ! cur bits)"
    define bits1 where "bits1 = bits\<lparr>bb_mem := (bb_mem bits)[cur bits := b]\<rparr>"
    define left2 where "left2 = (if left - c = 0 then 8 else left - c)"
    define bits2 where "bits2 = (if left - c = 0 then bits1\<lparr>cur := cur bits1 + 1\<rparr> else bits1)"
    have c: "0 < c" "c \<le> left" "c \<le> n" "left \<le> 8" using False 1(2,3) by (simp_all add: c_def)
    have cur: "cur bits < length (bb_mem bits)" using 1(2-4) False by (simp add: wpos_def)
    have step: "write_loop v n left bits = write_loop v (n - c) left2 bits2"
      using False 1(2) cur
      by (subst write_loop.simps) (simp add: Let_def c_def [symmetric] b_def [symmetric] bits1_def left2_def bits2_def)
    have w2: "wpos left2 bits2 = wpos left bits + c"
      using c by (auto simp: wpos_def left2_def bits2_def bits1_def)
    have same: "length (bb_mem bits2) = length (bb_mem bits)" "bend bits2 = bend bits" "byteSize bits2 = byteSize bits"
      "bb_mem bits2 = (bb_mem bits)[cur bits := b]"
      by (simp_all add: bits2_def bits1_def)
    have pre: "0 < left2" "left2 \<le> 8" "wpos left2 bits2 + (n - c) \<le> 8 * length (bb_mem bits2)"
      using c 1(4) w2 same(1) by (auto simp: left2_def)
    have new: "mem_bit (bb_mem bits2) q = (if wpos left bits \<le> q \<and> q < wpos left bits + c
        then bit v (wpos left bits + n - 1 - q) else mem_bit (bb_mem bits) q)" for q
    proof (cases "q div 8 = cur bits")
      case True
      define j where "j = 7 - q mod 8"
      have q: "q = 8 * cur bits + (7 - j)" "j < 8"
        using True div_mult_mod_eq [of q 8] mod_less_divisor [of 8 q] unfolding j_def by linarith+
      have "mem_bit (bb_mem bits2) q = bit b j"
        using True cur by (simp add: same mem_bit_update j_def)
      also have "\<dots> = (if left - c \<le> j \<and> j < left then bit v (n + j - left) else bit (bb_mem bits ! cur bits) j)"
        unfolding b_def by (rule write_chunk_bit [OF c(2,4,1,3) q(2)])
      also have "bit (bb_mem bits ! cur bits) j = mem_bit (bb_mem bits) q"
        using True by (simp add: mem_bit_def j_def)
      also have "left - c \<le> j \<and> j < left \<longleftrightarrow> wpos left bits \<le> q \<and> q < wpos left bits + c"
        using q c unfolding wpos_def by linarith
      finally have m: "mem_bit (bb_mem bits2) q = (if wpos left bits \<le> q \<and> q < wpos left bits + c
          then bit v (n + j - left) else mem_bit (bb_mem bits) q)" .
      show ?thesis
      proof (cases "wpos left bits \<le> q \<and> q < wpos left bits + c")
        case True
        then have "n + j - left = wpos left bits + n - 1 - q" using q c unfolding wpos_def by linarith
        then show ?thesis unfolding m by simp
      next
        case False
        then show ?thesis unfolding m by (simp only: if_False)
      qed
    next
      case False
      then have "\<not> (wpos left bits \<le> q \<and> q < wpos left bits + c)"
        using c unfolding wpos_def by auto
      moreover have "mem_bit (bb_mem bits2) q = mem_bit (bb_mem bits) q"
        using False cur by (simp add: same mem_bit_update)
      ultimately show ?thesis by (simp only: if_False)
    qed
    have "\<exists>left' bits'. write_loop v (n - c) left2 bits2 = Some (left', bits') \<and> 0 < left' \<and> left' \<le> 8 \<and>
      wpos left' bits' = wpos left2 bits2 + (n - c) \<and> length (bb_mem bits') = length (bb_mem bits2) \<and>
      bend bits' = bend bits2 \<and> byteSize bits' = byteSize bits2 \<and>
      (\<forall>q. mem_bit (bb_mem bits') q = (if wpos left2 bits2 \<le> q \<and> q < wpos left2 bits2 + (n - c)
        then bit v (wpos left2 bits2 + (n - c) - 1 - q) else mem_bit (bb_mem bits2) q))"
      using False 1(2) cur pre by (intro 1(1)) (auto simp: c_def [symmetric] b_def [symmetric] bits1_def left2_def bits2_def)
    then show ?thesis
      unfolding step w2 same(1-3) using c new by (auto simp del: write_loop.simps)
  qed
qed

lemma BitBufferWrite_spec:
  assumes ok: "bb_ok bits" and len: "bb_pos bits + n \<le> 8 * length (bb_mem bits)"
  shows "\<exists>bits'. BitBufferWrite v n bits = Some bits' \<and> bb_ok bits' \<and> bb_pos bits' = bb_pos bits + n \<and>
    length (bb_mem bits') = length (bb_mem bits) \<and> bend bits' = bend bits \<and> byteSize bits' = byteSize bits \<and>
    (\<forall>q. mem_bit (bb_mem bits') q = (if bb_pos bits \<le> q \<and> q < bb_pos bits + n
        then bit v (bb_pos bits + n - 1 - q) else mem_bit (bb_mem bits) q))"
proof (cases "n = 0")
  case True
  then show ?thesis using ok by (auto simp: BitBufferWrite_def)
next
  case False
  let ?left = "8 - unat (bitIndex bits)"
  have bi: "unat (bitIndex bits) < 8" using ok by (simp add: bb_ok_def word_less_nat_alt)
  then have w: "wpos ?left bits = bb_pos bits" by (simp add: wpos_def bb_pos_def)
  obtain left' bits' where l: "write_loop v n ?left bits = Some (left', bits')" "0 < left'" "left' \<le> 8"
    "wpos left' bits' = bb_pos bits + n" "length (bb_mem bits') = length (bb_mem bits)" "bend bits' = bend bits"
    "byteSize bits' = byteSize bits"
    "\<forall>q. mem_bit (bb_mem bits') q = (if bb_pos bits \<le> q \<and> q < bb_pos bits + n
        then bit v (bb_pos bits + n - 1 - q) else mem_bit (bb_mem bits) q)"
    using write_loop_spec [of ?left bits n v] bi len unfolding w by auto
  have u: "unat (of_nat (8 - left') :: u32) = 8 - left'"
    by (simp add: unat_of_nat take_bit_nat_eq_self)
  have "BitBufferWrite v n bits = Some (bits'\<lparr>bitIndex := of_nat (8 - left')\<rparr>)"
    using False l(1) by (simp add: BitBufferWrite_def)
  moreover have "bb_pos (bits'\<lparr>bitIndex := of_nat (8 - left')\<rparr>) = bb_pos bits + n"
    using l(4) u by (simp add: bb_pos_def wpos_def)
  moreover have "bb_ok (bits'\<lparr>bitIndex := of_nat (8 - left')\<rparr>)"
    using l(2) u by (simp add: bb_ok_def word_less_nat_alt)
  ultimately show ?thesis using l(5-8) by (intro exI [of _ "bits'\<lparr>bitIndex := of_nat (8 - left')\<rparr>"]) simp
qed

text \<open>Bits that are written are read back: after \<^verbatim>\<open>BitBufferWrite\<close> of n bits, \<^verbatim>\<open>BitBufferRead\<close> of n bits at
  the same place gives the n low bits of the value and stands where the writer stopped, and no other bit
  of the memory has changed.\<close>

theorem BitBuffer_write_read:
  assumes ok: "bb_ok bits" and n: "n \<le> 16" and len: "cur bits + 3 \<le> length (bb_mem bits)"
  shows "\<exists>bits' bits''. BitBufferWrite v n bits = Some bits' \<and> bb_pos bits' = bb_pos bits + n \<and>
    BitBufferRead n (bits'\<lparr>cur := cur bits, bitIndex := bitIndex bits\<rparr>) = Some (take_bit n v, bits'') \<and>
    bb_pos bits'' = bb_pos bits' \<and>
    (\<forall>q. q < bb_pos bits \<or> bb_pos bits + n \<le> q \<longrightarrow> mem_bit (bb_mem bits') q = mem_bit (bb_mem bits) q)"
proof -
  have "unat (bitIndex bits) < 8" using ok by (simp add: bb_ok_def word_less_nat_alt)
  then have "bb_pos bits + n \<le> 8 * length (bb_mem bits)" using n len unfolding bb_pos_def by linarith
  then obtain bits' where w: "BitBufferWrite v n bits = Some bits'" "bb_pos bits' = bb_pos bits + n"
    "length (bb_mem bits') = length (bb_mem bits)"
    "\<forall>q. mem_bit (bb_mem bits') q = (if bb_pos bits \<le> q \<and> q < bb_pos bits + n
        then bit v (bb_pos bits + n - 1 - q) else mem_bit (bb_mem bits) q)"
    using BitBufferWrite_spec [OF ok] by blast
  let ?r = "bits'\<lparr>cur := cur bits, bitIndex := bitIndex bits\<rparr>"
  have r: "bb_ok ?r" "bb_pos ?r = bb_pos bits" using ok by (simp_all add: bb_ok_def bb_pos_def)
  have "BitBufferRead n ?r = Some (bits_val (bb_mem bits') (bb_pos bits) n, bb_step ?r (of_nat n))"
    using BitBufferRead_value [OF r(1), of n] r(2) n len w(3) by simp
  moreover have "bits_val (bb_mem bits') (bb_pos bits) n = take_bit n v"
  proof (rule bit_word_eqI)
    fix i assume "i < LENGTH(32)"
    show "bit (bits_val (bb_mem bits') (bb_pos bits) n :: u32) i = bit (take_bit n v) i"
    proof (cases "i < n")
      case True
      then have "bb_pos bits + n - 1 - (bb_pos bits + (n - 1 - i)) = i" by linarith
      then show ?thesis using True \<open>i < LENGTH(32)\<close> w(4) by (auto simp: bit_bits_val bit_take_bit_iff)
    qed (simp add: bit_bits_val bit_take_bit_iff)
  qed
  moreover have "bb_pos (bb_step ?r (of_nat n)) = bb_pos bits'"
    using bb_step_small(1) [OF r(1), of n] r(2) n w(2) by simp
  ultimately show ?thesis using w by auto
qed

text \<open>Consecutive fields of up to 17 bits are read as the numbers their bits spell, whatever the alignment, and
  the reader ends where the fields end.\<close>

theorem BitBufferRead_fields:
  assumes "bb_ok bits" and "\<forall>n \<in> set ns. n \<le> 17" and "(bb_pos bits + sum_list ns) div 8 + 3 \<le> length (bb_mem bits)"
  shows "\<exists>bits'. read_many BitBufferRead ns bits = Some (field_vals (bb_mem bits) (bb_pos bits) ns, bits') \<and>
    bb_ok bits' \<and> bb_mem bits' = bb_mem bits \<and> bb_pos bits' = bb_pos bits + sum_list ns"
  using br.read_fields [of "bb_mem bits" "bend bits" "byteSize bits" bits ns] assms by (auto simp: bb_frame_def)

section \<open>Witnesses\<close>

theorem BitBuffer_write_read_witness:
  "\<exists>bits' bits''. BitBufferWrite 0x155 9 ((BitBufferInit [0xff, 0, 0xff, 0] 4)\<lparr>bitIndex := 5\<rparr>) = Some bits' \<and>
    BitBufferRead 9 (bits'\<lparr>cur := 0, bitIndex := 5\<rparr>) = Some (0x155, bits'')"
proof -
  let ?b = "(BitBufferInit [0xff, 0, 0xff, 0] 4)\<lparr>bitIndex := 5\<rparr>"
  have "bb_ok ?b" "(9 :: nat) \<le> 16" "cur ?b + 3 \<le> length (bb_mem ?b)"
    by (simp_all add: bb_ok_def BitBufferInit_def)
  moreover have "cur ?b = 0" "bitIndex ?b = 5" "take_bit 9 (0x155 :: u32) = 0x155"
    by (simp_all add: BitBufferInit_def)
  ultimately show ?thesis using BitBuffer_write_read [of ?b 9 "0x155"] by auto
qed

theorem BitBufferRead_fields_witness:
  "\<exists>bits'. read_many BitBufferRead [3, 4, 9] (BitBufferInit [0xa5, 0x3c, 1, 2, 3] 5) = Some ([5, 2, 0x13c], bits') \<and>
    bb_pos bits' = 16"
proof -
  let ?b = "BitBufferInit [0xa5, 0x3c, 1, 2, 3] 5"
  have "bb_ok ?b" "\<forall>n \<in> set [3, 4, 9]. n \<le> (17 :: nat)" "(bb_pos ?b + sum_list [3, 4, 9]) div 8 + 3 \<le> length (bb_mem ?b)"
    by (simp_all add: bb_ok_def bb_pos_def BitBufferInit_def)
  moreover have "bb_mem ?b = [0xa5, 0x3c, 1, 2, 3]" "bb_pos ?b = 0" by (simp_all add: bb_pos_def BitBufferInit_def)
  moreover have "field_vals [0xa5, 0x3c, 1, 2, 3] 0 [3, 4, 9] = [5, 2, 0x13c :: u32]" by code_simp
  ultimately show ?thesis using BitBufferRead_fields [of ?b "[3, 4, 9]"] by auto
qed

end
