(* ===== verification/Alac_Golomb.thy ===== *)
theory Alac_Golomb
  imports Alac_Bits
begin

text \<open>
  \<^verbatim>\<open>alac/ag_dec.c\<close>: the adaptive Golomb decoder.  The stream is the memory from the cursor of the bit
  buffer on; positions in it count bits.  Shifts by the width of the type or more, and negative
  ones, are undefined behaviour.
\<close>

unbundle bit_operations_syntax

section \<open>Parameters\<close>

definition QBSHIFT :: nat where "QBSHIFT = 9"
definition QB :: u32 where "QB = 512"
definition MMULSHIFT :: nat where "MMULSHIFT = 2"
definition MDENSHIFT :: nat where "MDENSHIFT = 6"
definition MOFF :: u32 where "MOFF = 16"
definition BITOFF :: u32 where "BITOFF = 24"
definition MAX_PREFIX_16 :: nat where "MAX_PREFIX_16 = 9"
definition MAX_PREFIX_32 :: nat where "MAX_PREFIX_32 = 9"
definition MAX_DATATYPE_BITS_16 :: nat where "MAX_DATATYPE_BITS_16 = 16"
definition N_MAX_MEAN_CLAMP :: u32 where "N_MAX_MEAN_CLAMP = 0xffff"
definition N_MEAN_CLAMP_VAL :: u32 where "N_MEAN_CLAMP_VAL = 0xffff"
definition ALAC_noErr :: int where "ALAC_noErr = 0"
definition kALAC_ParamError :: int where "kALAC_ParamError = -50"

record ag_params =
  ag_mb :: u32
  ag_mb0 :: u32
  ag_pb :: u32
  ag_kb :: u32
  ag_wb :: u32
  ag_qb :: u32
  ag_fw :: u32
  ag_sw :: u32
  ag_maxrun :: u32

definition set_ag_params :: "u32 \<Rightarrow> u32 \<Rightarrow> u32 \<Rightarrow> u32 \<Rightarrow> u32 \<Rightarrow> u32 \<Rightarrow> ag_params option" where
  "set_ag_params m p k f s maxrun = do {
     require (k < 32);
     Some \<lparr> ag_mb = m, ag_mb0 = m, ag_pb = p, ag_kb = k, ag_wb = push_bit (unat k) 1 - 1, ag_qb = QB - p,
            ag_fw = f, ag_sw = s, ag_maxrun = maxrun \<rparr>
   }"

definition set_standard_ag_params :: "u32 \<Rightarrow> u32 \<Rightarrow> ag_params option" where
  "set_standard_ag_params fullwidth sectorwidth = set_ag_params 10 40 14 fullwidth sectorwidth 255"

section \<open>Reading code words\<close>

text \<open>\<^verbatim>\<open>lead\<close> counts leading zeros: the mask starts at bit 31 and moves down.\<close>

definition lead_mask :: "nat \<Rightarrow> u32" where
  "lead_mask j = drop_bit j (push_bit 31 1)"

function lead_loop :: "nat \<Rightarrow> u32 \<Rightarrow> nat" where
  "lead_loop j m = (if j < 32 \<and> lead_mask j AND m = 0 then lead_loop (Suc j) m else j)"
  by auto
termination
  by (relation "measure (\<lambda>(j, m). 32 - j)") auto

declare lead_loop.simps [simp del]

definition lead :: "u32 \<Rightarrow> nat" where
  "lead m = lead_loop 0 m"

definition lg3a :: "u32 \<Rightarrow> int" where
  "lg3a x = 31 - int (lead (x + 3))"

definition read32bit :: "byte list \<Rightarrow> nat \<Rightarrow> u32 option" where
  "read32bit inp off = do {
     b0 \<leftarrow> rd inp off;
     b1 \<leftarrow> rd inp (off + 1);
     b2 \<leftarrow> rd inp (off + 2);
     b3 \<leftarrow> rd inp (off + 3);
     Some (push_bit 24 (ucast b0) OR push_bit 16 (ucast b1) OR push_bit 8 (ucast b2) OR ucast b3)
   }"

definition get_next_fromlong :: "u32 \<Rightarrow> nat \<Rightarrow> u32 option" where
  "get_next_fromlong inlong suff = do {
     require (0 < suff \<and> suff \<le> 32);
     Some (drop_bit (32 - suff) inlong)
   }"

definition getstreambits :: "byte list \<Rightarrow> nat \<Rightarrow> nat \<Rightarrow> u32 option" where
  "getstreambits inp bitoffset numbits = do {
     require (bitoffset < 2 ^ 31 \<and> 0 < numbits \<and> numbits \<le> 32);
     let byteoffset = bitoffset div 8;
     let s = bitoffset mod 8;
     load1 \<leftarrow> read32bit inp byteoffset;
     result \<leftarrow> (if numbits + s > 32
       then do {
         b \<leftarrow> rd inp (byteoffset + 4);
         let load2 = drop_bit (8 - (numbits + s - 32)) (ucast b :: u32);
         Some (drop_bit (32 - numbits) (push_bit s load1) OR load2)
       }
       else Some (drop_bit (32 - numbits - s) load1));
     Some (if numbits \<noteq> 32 then result AND NOT (push_bit numbits 0xffffffff) else result)
   }"

text \<open>The short code, of the zero runs.  The position is an unsigned 32-bit number.\<close>

definition dyn_get :: "byte list \<Rightarrow> u32 \<Rightarrow> u32 \<Rightarrow> nat \<Rightarrow> (u32 \<times> u32) option" where
  "dyn_get inp bitPos m k = do {
     streamlong \<leftarrow> read32bit inp (unat (drop_bit 3 bitPos));
     let streamlong = push_bit (unat (bitPos AND 7)) streamlong;
     let pre = lead (NOT streamlong);
     if pre \<ge> MAX_PREFIX_16
     then do {
       result \<leftarrow> get_next_fromlong (push_bit MAX_PREFIX_16 streamlong) MAX_DATATYPE_BITS_16;
       Some (result, bitPos + of_nat MAX_PREFIX_16 + of_nat MAX_DATATYPE_BITS_16)
     }
     else do {
       v \<leftarrow> get_next_fromlong (push_bit (pre + 1) streamlong) k;
       let tempbits = bitPos + of_nat pre + 1 + of_nat k;
       let result = of_nat pre * m + v - 1;
       Some (if v < 2 then (result - (v - 1), tempbits - 1) else (result, tempbits))
     }
   }"

text \<open>The long code, of the samples.\<close>

definition dyn_get_32bit :: "byte list \<Rightarrow> u32 \<Rightarrow> u32 \<Rightarrow> nat \<Rightarrow> nat \<Rightarrow> (u32 \<times> u32) option" where
  "dyn_get_32bit inp bitPos m k maxbits = do {
     streamlong \<leftarrow> read32bit inp (unat (drop_bit 3 bitPos));
     let streamlong = push_bit (unat (bitPos AND 7)) streamlong;
     let result = lead (NOT streamlong);
     if result \<ge> MAX_PREFIX_32
     then do {
       r \<leftarrow> getstreambits inp (unat (bitPos + of_nat MAX_PREFIX_32)) maxbits;
       Some (r, bitPos + of_nat MAX_PREFIX_32 + of_nat maxbits)
     }
     else do {
       let tempbits = bitPos + of_nat result + 1;
       if k \<noteq> 1
       then do {
         v \<leftarrow> get_next_fromlong (push_bit (result + 1) streamlong) k;
         let tempbits = tempbits + of_nat k - 1;
         let r = of_nat result * m;
         Some (if v \<ge> 2 then (r + (v - 1), tempbits + 1) else (r, tempbits))
       }
       else Some (of_nat result, tempbits)
     }
   }"

section \<open>The adaptive decoder\<close>

text \<open>The parameters of the next code word from the running mean, the sample a code stands for (its low
  bit is the sign), and the update of the mean.\<close>

definition ag_k :: "u32 \<Rightarrow> u32 \<Rightarrow> nat" where
  "ag_k mb kb = (
     let k = word_of_int (lg3a (drop_bit QBSHIFT mb)) :: u32
     in unat (if k < kb then k else kb))"

definition ag_sample :: "u32 \<Rightarrow> u32 \<Rightarrow> u32" where
  "ag_sample n zmode = (
     let ndecode = n + zmode;
         multiplier = (- (ndecode AND 1)) OR 1
     in drop_bit 1 (ndecode + 1) * multiplier)"

definition ag_mean :: "u32 \<Rightarrow> u32 \<Rightarrow> u32 \<Rightarrow> u32 \<Rightarrow> u32" where
  "ag_mean pb mb n zmode = (
     let mb = pb * (n + zmode) + mb - drop_bit QBSHIFT (pb * mb)
     in if n > N_MAX_MEAN_CLAMP then N_MEAN_CLAMP_VAL else mb)"

definition ag_run_k :: "u32 \<Rightarrow> u32" where
  "ag_run_k mb = of_nat (lead mb) - BITOFF + drop_bit MDENSHIFT (mb + MOFF)"

text \<open>
  The loop.  \<^verbatim>\<open>c\<close> counts the samples written to \<^verbatim>\<open>pc\<close>.  The result is the status, the position and
  the array.  \<^verbatim>\<open>1 << k\<close> shifts an \<^verbatim>\<open>int\<close>.
\<close>

function dyn_loop ::
  "ag_params \<Rightarrow> byte list \<Rightarrow> u32 \<Rightarrow> u32 \<Rightarrow> nat \<Rightarrow> u32 \<Rightarrow> nat \<Rightarrow> u32 \<Rightarrow> u32 \<Rightarrow> u32 list
     \<Rightarrow> (int \<times> u32 \<times> u32 list) option" where
  "dyn_loop ps inp maxPos numSamples maxSize bitPos c mb zmode pc =
     (if \<not> c < unat numSamples then Some (ALAC_noErr, bitPos, pc)
      else if \<not> bitPos < maxPos then Some (kALAC_ParamError, bitPos, pc)
      else do {
        let k = ag_k mb (ag_kb ps);
        require (k < 31);
        let m = push_bit k 1 - 1;
        (n, bitPos) \<leftarrow> dyn_get_32bit inp bitPos m k maxSize;
        pc \<leftarrow> wr pc c (ag_sample n zmode);
        let c = c + 1;
        let mb = ag_mean (ag_pb ps) mb n zmode;
        if push_bit MMULSHIFT mb < QB \<and> c < unat numSamples
        then do {
          let k = ag_run_k mb;
          require (k < 31);
          let mz = (push_bit (unat k) 1 - 1) AND ag_wb ps;
          (n, bitPos) \<leftarrow> dyn_get inp bitPos mz (unat k);
          if \<not> of_nat c + n \<le> numSamples then Some (kALAC_ParamError, bitPos, pc)
          else do {
            pc \<leftarrow> memcpy pc c (replicate (unat n) 0);
            dyn_loop ps inp maxPos numSamples maxSize bitPos (c + unat n) 0 (if n \<ge> 65535 then 0 else 1) pc
          }
        }
        else dyn_loop ps inp maxPos numSamples maxSize bitPos c mb 0 pc
      })"
  by auto
termination
  by (relation "measure (\<lambda>(ps, inp, maxPos, numSamples, maxSize, bitPos, c, mb, zmode, pc). unat numSamples - c)")
    auto

declare dyn_loop.simps [simp del]

text \<open>\<^verbatim>\<open>dyn_decomp\<close>: status, number of bits, the advanced buffer and the array.\<close>

definition dyn_decomp ::
  "ag_params \<Rightarrow> bit_buffer \<Rightarrow> u32 list \<Rightarrow> u32 \<Rightarrow> nat \<Rightarrow> (int \<times> u32 \<times> bit_buffer \<times> u32 list) option" where
  "dyn_decomp ps bitstream pc numSamples maxSize = do {
     let inp = drop (cur bitstream) (bb_mem bitstream);
     let startPos = bitIndex bitstream;
     let maxPos = byteSize bitstream * 8;
     (status, bitPos, pc) \<leftarrow> dyn_loop ps inp maxPos numSamples maxSize startPos 0 (ag_mb0 ps) 0 pc;
     let outNumBits = bitPos - startPos;
     let bitstream = BitBufferAdvance outNumBits bitstream;
     Some (if cur bitstream \<le> bend bitstream then status else kALAC_ParamError, outNumBits, bitstream, pc)
   }"

section \<open>Code words in the stream\<close>

lemma below_32 [simp]: "31 - i < (32 :: nat)"
  by linarith

text \<open>The loaded word, shifted to the position, shows the bits of the stream from there on.\<close>

lemma read32bit_bits:
  assumes "off + 4 \<le> length inp"
  obtains w where "read32bit inp off = Some w"
    "\<And>j. bit w j \<longleftrightarrow> j < 32 \<and> mem_bit inp (8 * off + (31 - j))"
proof -
  let ?m = "\<lambda>i. inp ! (off + i)"
  let ?w = "push_bit 24 (ucast (?m 0)) OR push_bit 16 (ucast (?m 1)) OR push_bit 8 (ucast (?m 2)) OR ucast (?m 3) :: u32"
  have "read32bit inp off = Some ?w" using assms by (simp add: read32bit_def)
  moreover have "bit ?w j \<longleftrightarrow> j < 32 \<and> mem_bit inp (8 * off + (31 - j))" for j
  proof (cases "j < 32")
    case True
    have byte: "bit (b :: byte) i \<Longrightarrow> i < 8" for b i using bit_imp_le_length [of b i] by simp
    have at: "mem_bit inp (8 * off + (31 - (8 * a + r))) = bit (?m (3 - a)) r" if "a < 4" "r < 8" for a r
    proof -
      have "a = 0 \<or> a = 1 \<or> a = 2 \<or> a = 3" using that(1) by linarith
      then have "8 * off + (31 - (8 * a + r)) = 8 * (off + (3 - a)) + (7 - r)" using that(2) by auto
      moreover have "(7 - r) div 8 = 0" "(7 - r) mod 8 = 7 - r" "7 - (7 - r) = r" using that by auto
      ultimately show ?thesis by (simp only: mem_bit_split) simp
    qed
    obtain a r where j: "j = 8 * a + r" "r < 8" by (metis mult_div_mod_eq mod_less_divisor zero_less_numeral)
    then have a: "a < 4" using True by linarith
    then consider "a = 0" | "a = 1" | "a = 2" | "a = 3" by linarith
    then have "bit ?w j = bit (?m (3 - a)) r"
      by cases (use j in \<open>auto simp: bit_simps dest: byte\<close>)
    then show ?thesis using True at [OF a j(2)] j(1) by simp
  qed (auto dest: bit_imp_le_length)
  ultimately show thesis by (rule that)
qed

lemma bit_ge_length: "\<not> j < 32 \<Longrightarrow> \<not> bit (w :: u32) j"
  using bit_imp_le_length [of w j] by auto

text \<open>\<^verbatim>\<open>sees\<close>: a word shows the stream from position p, except for the s lowest bits.\<close>

definition sees :: "byte list \<Rightarrow> nat \<Rightarrow> nat \<Rightarrow> u32 \<Rightarrow> bool" where
  "sees inp p s w \<longleftrightarrow> (\<forall>i < 32 - s. bit w (31 - i) = mem_bit inp (p + i))"

lemma seesD: "sees inp p s w \<Longrightarrow> i < 32 - s \<Longrightarrow> bit w (31 - i) = mem_bit inp (p + i)"
  by (simp add: sees_def)

lemma sees_shift:
  assumes "sees inp p s w"
  shows "sees inp (p + n) (s + n) (push_bit n w)"
proof (unfold sees_def, intro allI impI)
  fix i assume i: "i < 32 - (s + n)"
  then have "n \<le> 31 - i" "31 - i - n = 31 - (n + i)" by linarith+
  then have "bit (push_bit n w) (31 - i) = bit w (31 - (n + i))"
    by (simp add: bit_push_bit_iff del: diff_diff_left)
  also have "\<dots> = mem_bit inp (p + (n + i))" using i by (intro seesD [OF assms]) linarith
  finally show "bit (push_bit n w) (31 - i) = mem_bit inp (p + n + i)" by (simp add: add.assoc)
qed

lemma sees_loaded:
  fixes pos :: u32
  assumes "unat pos div 8 + 4 \<le> length inp"
  obtains w where "read32bit inp (unat (drop_bit 3 pos)) = Some w"
    "sees inp (unat pos) (unat pos mod 8) (push_bit (unat (pos AND 7)) w)"
proof -
  have d: "unat (drop_bit 3 pos) = unat pos div 8" by (simp add: drop_bit_eq_div unat_div_distrib)
  have a: "unat (pos AND 7) = unat pos mod 8"
  proof -
    have "pos AND 7 = take_bit 3 pos" by (simp add: take_bit_eq_mask mask_eq_exp_minus_1)
    then show ?thesis by (simp add: take_bit_eq_mod unat_mod_distrib)
  qed
  obtain w where w: "read32bit inp (unat pos div 8) = Some w"
    "\<And>j. bit w j \<longleftrightarrow> j < 32 \<and> mem_bit inp (8 * (unat pos div 8) + (31 - j))"
    using read32bit_bits [OF assms] by blast
  have "sees inp (8 * (unat pos div 8)) 0 w" using w(2) by (simp add: sees_def)
  from sees_shift [OF this, of "unat pos mod 8"] show thesis
    using w(1) that by (simp add: d a)
qed

lemma get_next_value:
  assumes "sees inp p s w" and "0 < k" and "k + s \<le> 32"
  shows "get_next_fromlong w k = Some (bits_val inp p k)"
proof -
  have "drop_bit (32 - k) w = bits_val inp p k"
  proof (rule bit_word_eqI)
    fix i assume "i < LENGTH(32)"
    show "bit (drop_bit (32 - k) w) i = bit (bits_val inp p k :: u32) i"
    proof (cases "i < k")
      case True
      then have "bit w (31 - (k - 1 - i)) = mem_bit inp (p + (k - 1 - i))"
        using assms by (intro seesD [OF assms(1)]) linarith
      moreover have "31 - (k - 1 - i) = 32 - k + i" using True assms(2,3) by linarith
      ultimately show ?thesis using True \<open>i < LENGTH(32)\<close> by (simp add: bit_drop_bit_eq bit_bits_val)
    next
      case False
      then show ?thesis using assms(3) by (simp add: bit_drop_bit_eq bit_bits_val bit_ge_length)
    qed
  qed
  then show ?thesis using assms(2,3) by (simp add: get_next_fromlong_def)
qed

text \<open>Leading zeros.\<close>

lemma lead_mask_and: "lead_mask j AND m = 0 \<longleftrightarrow> \<not> bit m (31 - j)" if "j < 32"
proof -
  have top: "bit (push_bit 31 1 :: u32) k \<longleftrightarrow> k = 31" for k
    unfolding bit_push_bit_iff bit_1_iff by auto
  have "bit (lead_mask j AND m) i \<longleftrightarrow> i = 31 - j \<and> bit m (31 - j)" for i
  proof -
    have "j + i = 31 \<longleftrightarrow> i = 31 - j" using that by linarith
    then show ?thesis unfolding lead_mask_def bit_and_iff bit_drop_bit_eq o_def top by auto
  qed
  then show ?thesis by (metis bit_0_eq bot_apply bot_bool_def bit_eqI)
qed

lemma lead_loop_spec:
  "j \<le> 32 \<Longrightarrow> lead_loop j m \<le> 32 \<and> j \<le> lead_loop j m \<and> (\<forall>i. j \<le> i \<and> i < lead_loop j m \<longrightarrow> \<not> bit m (31 - i)) \<and>
     (lead_loop j m < 32 \<longrightarrow> bit m (31 - lead_loop j m))"
proof (induction j m rule: lead_loop.induct)
  case (1 j m)
  show ?case
  proof (cases "j < 32 \<and> \<not> bit m (31 - j)")
    case True
    then have "lead_loop j m = lead_loop (Suc j) m" by (subst lead_loop.simps) (simp add: lead_mask_and)
    moreover have "i = j \<or> Suc j \<le> i" if "j \<le> i" for i using that by auto
    ultimately show ?thesis using 1(1) True by (auto simp: lead_mask_and)
  next
    case False
    then have "lead_loop j m = j" by (subst lead_loop.simps) (auto simp: lead_mask_and)
    then show ?thesis using False 1(2) by auto
  qed
qed

lemma lead_spec:
  "lead m \<le> 32" "i < lead m \<Longrightarrow> \<not> bit m (31 - i)" "lead m < 32 \<Longrightarrow> bit m (31 - lead m)"
  using lead_loop_spec [of 0 m] by (auto simp: lead_def)

text \<open>The prefix of a code word: ones up to the first zero.\<close>

lemma lead_prefix:
  assumes w: "sees inp p s w" and q: "q + s < 32"
    and ones: "\<forall>i < q. mem_bit inp (p + i)" and zero: "\<not> mem_bit inp (p + q)"
  shows "lead (NOT w) = q"
proof -
  have b: "bit (NOT w) (31 - i) \<longleftrightarrow> \<not> mem_bit inp (p + i)" if "i < 32 - s" for i
    using seesD [OF w that] that by (simp add: bit_not_iff)
  have "\<not> lead (NOT w) < q"
  proof
    assume l: "lead (NOT w) < q"
    then have "bit (NOT w) (31 - lead (NOT w))" using q by (intro lead_spec(3)) linarith
    then show False using b [of "lead (NOT w)"] ones l q by auto
  qed
  moreover have "\<not> q < lead (NOT w)"
    using lead_spec(2) [of q "NOT w"] b [of q] zero q by auto
  ultimately show ?thesis by linarith
qed

lemma lead_long_prefix:
  assumes w: "sees inp p s w" and q: "q + s \<le> 32" and ones: "\<forall>i < q. mem_bit inp (p + i)"
  shows "q \<le> lead (NOT w)"
proof (rule ccontr)
  assume l: "\<not> q \<le> lead (NOT w)"
  then have "bit (NOT w) (31 - lead (NOT w))" using q by (intro lead_spec(3)) linarith
  moreover have "bit w (31 - lead (NOT w)) = mem_bit inp (p + lead (NOT w))"
    using l q by (intro seesD [OF w]) linarith
  ultimately show False using ones l by (auto simp: bit_not_iff)
qed

lemma getstreambits_value:
  assumes "pos < 2 ^ 31" and "0 < n" and "n \<le> 32" and len: "pos div 8 + 5 \<le> length inp"
  shows "getstreambits inp pos n = Some (bits_val inp pos n)"
proof -
  define c s where "c = pos div 8" and "s = pos mod 8"
  have pos: "pos = 8 * c + s" "s < 8" by (simp_all add: c_def s_def)
  obtain w where w: "read32bit inp c = Some w" "\<And>j. bit w j \<longleftrightarrow> j < 32 \<and> mem_bit inp (8 * c + (31 - j))"
    using read32bit_bits [of c inp] len by (auto simp: c_def)
  have sees: "sees inp (8 * c) 0 w" using w(2) by (simp add: sees_def)
  have ff: "bit (NOT (push_bit n 0xffffffff :: u32)) i \<longleftrightarrow> i < n" if "i < 32" for i
  proof -
    have "(0xffffffff :: u32) = mask 32" by (simp add: mask_eq_exp_minus_1)
    then show ?thesis using that by (simp only: bit_not_iff bit_push_bit_iff bit_mask_iff) auto
  qed
  have low: "(if n \<noteq> 32 then r AND NOT (push_bit n 0xffffffff) else r) = bits_val inp pos n"
    if r: "\<And>i. i < n \<Longrightarrow> bit r i = mem_bit inp (pos + (n - 1 - i))" for r :: u32
  proof (rule bit_word_eqI)
    fix i assume "i < LENGTH(32)"
    then have i: "i < 32" by simp
    show "bit (if n \<noteq> 32 then r AND NOT (push_bit n 0xffffffff) else r) i = bit (bits_val inp pos n :: u32) i"
    proof (cases "n = 32")
      case True
      then show ?thesis using r [of i] i by (simp add: bit_bits_val)
    next
      case False
      have "bit (r AND NOT (push_bit n 0xffffffff)) i \<longleftrightarrow> bit r i \<and> i < n"
        by (simp only: bit_and_iff ff [OF i])
      then show ?thesis using False r [of i] i by (auto simp: bit_bits_val)
    qed
  qed
  show ?thesis
  proof (cases "n + s > 32")
    case True
    let ?b = "inp ! (c + 4)" and ?t = "8 - (n + s - 32)"
    let ?r = "drop_bit (32 - n) (push_bit s w) OR drop_bit ?t (ucast ?b)"
    have rb: "rd inp (c + 4) = Some ?b" using len by (simp add: c_def)
    have "bit ?r i = mem_bit inp (pos + (n - 1 - i))" if i: "i < n" for i
    proof -
      have b5: "bit (ucast ?b :: u32) j \<longleftrightarrow> j < 8 \<and> mem_bit inp (8 * c + (39 - j))" if "j < 8" for j
      proof -
        have "39 - j = 32 + (7 - j)" "7 - (7 - j) = j" using that by linarith+
        then show ?thesis using that mem_bit_split [of inp "c + 4" "7 - j"]
          by (simp add: bit_simps algebra_simps)
      qed
      have high: "bit (drop_bit (32 - n) (push_bit s w)) i \<longleftrightarrow> s \<le> 32 - n + i \<and> mem_bit inp (pos + (n - 1 - i))"
      proof (cases "s \<le> 32 - n + i")
        case True
        have "31 - (32 - n + i - s) = s + (n - 1 - i)" "32 - n + i - s < 32" "32 - n + i < 32" "32 + i - n < 32"
          using True i assms(3) pos(2) by linarith+
        then show ?thesis using True by (simp add: bit_drop_bit_eq bit_push_bit_iff w(2) pos(1) ac_simps)
      qed (simp add: bit_drop_bit_eq bit_push_bit_iff)
      have lowb: "bit (drop_bit ?t (ucast ?b) :: u32) i \<longleftrightarrow> ?t + i < 8 \<and> mem_bit inp (pos + (n - 1 - i))"
      proof (cases "?t + i < 8")
        case True
        have "39 - (?t + i) = s + (n - 1 - i)" using True i assms(3) pos(2) \<open>n + s > 32\<close> by linarith
        then show ?thesis using True by (simp add: bit_drop_bit_eq b5 pos(1) ac_simps)
      next
        case False
        then show ?thesis by (auto simp: bit_simps dest: bit_imp_le_length)
      qed
      have "s \<le> 32 - n + i \<or> ?t + i < 8" using i assms(3) pos(2) True by linarith
      then show ?thesis unfolding bit_or_iff high lowb by blast
    qed
    then have "(if n \<noteq> 32 then ?r AND NOT (push_bit n 0xffffffff) else ?r) = bits_val inp pos n" by (rule low)
    moreover have "8 - (n + s - 32) = 40 - (n + s)" using True by linarith
    ultimately show ?thesis
      using assms(1-3) True w(1) rb by (cases "n = 32") (simp_all add: getstreambits_def Let_def c_def [symmetric] s_def [symmetric])
  next
    case False
    let ?r = "drop_bit (32 - n - s) w"
    have "bit ?r i = mem_bit inp (pos + (n - 1 - i))" if i: "i < n" for i
    proof -
      have "31 - (32 - n - s + i) = s + (n - 1 - i)" "32 - n - s + i < 32" "32 + i - (n + s) < 32"
        using i False by linarith+
      then show ?thesis by (simp add: bit_drop_bit_eq w(2) pos(1) ac_simps)
    qed
    then have "(if n \<noteq> 32 then ?r AND NOT (push_bit n 0xffffffff) else ?r) = bits_val inp pos n" by (rule low)
    then show ?thesis
      using assms(1-3) False w(1) by (cases "n = 32") (simp_all add: getstreambits_def Let_def c_def [symmetric] s_def [symmetric])
  qed
qed

text \<open>
  The code words as bit lists: n is written to the base \<^verbatim>\<open>m = 2 ^ k - 1\<close>, the quotient in unary and the
  remainder r in k bits as r + 1, or in k - 1 zero bits when it is 0; a quotient of 9 or more is an escape to
  a number of fixed width.
\<close>

definition num_bits :: "nat \<Rightarrow> nat \<Rightarrow> bool list" where
  "num_bits w v = map (\<lambda>i. bit v (w - 1 - i)) [0..<w]"

definition golomb_code :: "nat \<Rightarrow> nat \<Rightarrow> nat \<Rightarrow> nat \<Rightarrow> bool list" where
  "golomb_code m k w n = (
     let q = n div m; r = n mod m
     in if q \<ge> 9 then replicate 9 True @ num_bits w n
        else replicate q True @ [False] @ (if r = 0 then num_bits (k - 1) 0 else num_bits k (r + 1)))"

definition stream_has :: "byte list \<Rightarrow> nat \<Rightarrow> bool list \<Rightarrow> bool" where
  "stream_has inp p bs \<longleftrightarrow> (\<forall>i < length bs. mem_bit inp (p + i) = bs ! i)"

lemma stream_has_append:
  "stream_has inp p (as @ bs) \<longleftrightarrow> stream_has inp p as \<and> stream_has inp (p + length as) bs"
proof -
  have "(\<forall>i < length as + length bs. P i) \<longleftrightarrow> (\<forall>i < length as. P i) \<and> (\<forall>i < length bs. P (length as + i))" for P
  proof (intro iffI conjI allI impI)
    fix i assume P: "(\<forall>i < length as. P i) \<and> (\<forall>i < length bs. P (length as + i))" and i: "i < length as + length bs"
    show "P i"
    proof (cases "i < length as")
      case False
      then have "i = length as + (i - length as)" "i - length as < length bs" using i by linarith+
      then show ?thesis using P by metis
    qed (use P in simp)
  qed auto
  then show ?thesis by (simp add: stream_has_def nth_append add.assoc)
qed

lemma length_num_bits [simp]: "length (num_bits w v) = w"
  by (simp add: num_bits_def)

lemma nth_num_bits: "j < w \<Longrightarrow> num_bits w v ! j = bit v (w - 1 - j)"
  by (simp add: num_bits_def)

lemma stream_has_num_bits: "stream_has inp p (num_bits w v) \<Longrightarrow> j < w \<Longrightarrow> mem_bit inp (p + j) = bit v (w - 1 - j)"
  unfolding stream_has_def by (metis length_num_bits nth_num_bits)

lemma bits_val_num_bits:
  assumes "stream_has inp p (num_bits w v)" and "v < 2 ^ w" and "w \<le> LENGTH('a)"
  shows "bits_val inp p w = (of_nat v :: 'a::len word)"
proof (rule bit_word_eqI)
  fix i assume i: "i < LENGTH('a)"
  have v: "v = take_bit w v" using assms(2) by (simp add: take_bit_nat_eq_self)
  show "bit (bits_val inp p w :: 'a word) i = bit (of_nat v :: 'a word) i"
  proof (cases "i < w")
    case True
    then have "w - 1 - i < w" and e: "w - 1 - (w - 1 - i) = i" by linarith+
    then have "mem_bit inp (p + (w - 1 - i)) = bit v i"
      using stream_has_num_bits [OF assms(1), of "w - 1 - i"] unfolding e by blast
    then show ?thesis using True i by (simp add: bit_bits_val bit_of_nat_iff)
  next
    case False
    then have "\<not> bit v i" by (subst v) (simp add: bit_take_bit_iff)
    then show ?thesis using False i by (simp add: bit_bits_val bit_of_nat_iff)
  qed
qed

text \<open>A short remainder: the first k - 1 bits are zero, so the k-bit number is 0 or 1.\<close>

lemma bits_val_short:
  assumes "stream_has inp p (num_bits (k - 1) 0)" and "0 < k"
  shows "(bits_val inp p k :: u32) < 2"
proof -
  have "bits_val inp p k = (of_bool (mem_bit inp (p + (k - 1))) :: u32)"
  proof (rule bit_word_eqI)
    fix i assume "i < LENGTH(32)"
    show "bit (bits_val inp p k :: u32) i = bit (of_bool (mem_bit inp (p + (k - 1))) :: u32) i"
    proof (cases "i = 0")
      case True
      then show ?thesis using assms(2) by (simp add: bit_bits_val bit_1_iff)
    next
      case False
      have "\<not> mem_bit inp (p + (k - 1 - i))" if "i < k"
      proof -
        have "k - 1 - i < k - 1" using that False by linarith
        then show ?thesis using stream_has_num_bits [OF assms(1)] by simp
      qed
      then show ?thesis using False by (auto simp: bit_bits_val bit_1_iff)
    qed
  qed
  then show ?thesis by simp
qed

lemma stream_has_ones:
  assumes "stream_has inp p (replicate q True @ False # bs)"
  shows "\<forall>i < q. mem_bit inp (p + i)" "\<not> mem_bit inp (p + q)" "stream_has inp (p + q + 1) bs"
proof -
  have "stream_has inp p (replicate q True @ [False] @ bs)" using assms by simp
  then show "\<forall>i < q. mem_bit inp (p + i)" "\<not> mem_bit inp (p + q)" "stream_has inp (p + q + 1) bs"
    unfolding stream_has_append by (auto simp: stream_has_def)
qed

text \<open>A code word is decoded to its number, and exactly its bits are consumed.\<close>

lemma dyn_get_32bit_code:
  assumes k: "0 < k" "k \<le> 14" and m: "m = 2 ^ k - 1" and n: "n div m < 9 \<or> n < 2 ^ w" and w: "0 < w" "w \<le> 32"
    and st: "stream_has inp (unat pos) (golomb_code m k w n)"
    and len: "(unat pos + 9 + w) div 8 + 5 \<le> length inp" "(unat pos + 24) div 8 + 5 \<le> length inp"
    and pos: "unat pos + 100 < 2 ^ 31"
  shows "dyn_get_32bit inp pos (of_nat m) k w =
    Some (of_nat n, of_nat (unat pos + length (golomb_code m k w n)))"
proof -
  have "unat pos div 8 + 4 \<le> length inp" using len(1) by linarith
  then obtain ld where ld: "read32bit inp (unat (drop_bit 3 pos)) = Some ld"
    "sees inp (unat pos) (unat pos mod 8) (push_bit (unat (pos AND 7)) ld)"
    by (rule sees_loaded)
  define sl where "sl = push_bit (unat (pos AND 7)) ld"
  define s where "s = unat pos mod 8"
  have sees: "sees inp (unat pos) s sl" and s: "s < 8" using ld(2) by (simp_all add: sl_def s_def)
  define q r where "q = n div m" and "r = n mod m"
  have m0: "0 < m" using one_less_power [of "2 :: nat" k] k m by simp
  have nqr: "n = q * m + r" "r < m" using m0 by (simp_all add: q_def r_def)
  have p: "pos = of_nat (unat pos)" by simp
  show ?thesis
  proof (cases "9 \<le> q")
    case True
    have g: "golomb_code m k w n = replicate 9 True @ num_bits w n"
      using True by (simp add: golomb_code_def Let_def q_def)
    have st2: "stream_has inp (unat pos) (replicate 9 True)" "stream_has inp (unat pos + 9) (num_bits w n)"
      using st unfolding g stream_has_append by simp_all
    have "\<forall>i < 9. mem_bit inp (unat pos + i)" using st2(1) by (simp add: stream_has_def)
    then have "9 \<le> lead (NOT sl)" using s by (intro lead_long_prefix [OF sees]) simp_all
    moreover have "getstreambits inp (unat (pos + of_nat MAX_PREFIX_32)) w = Some (of_nat n)"
    proof -
      have "unat (pos + of_nat MAX_PREFIX_32) = unat pos + 9"
        using pos by (subst unat_add_lem [THEN iffD1]) (simp_all add: MAX_PREFIX_32_def)
      moreover have "n < 2 ^ w" using n True by (simp add: q_def)
      then have "bits_val inp (unat pos + 9) w = (of_nat n :: u32)"
        using w by (intro bits_val_num_bits [OF st2(2)]) simp_all
      ultimately show ?thesis
        using getstreambits_value [of "unat pos + 9" w inp] w len(1) pos by simp
    qed
    ultimately show ?thesis
      using ld(1) by (simp add: dyn_get_32bit_def Let_def sl_def [symmetric] g MAX_PREFIX_32_def)
  next
    case False
    have g: "golomb_code m k w n = replicate q True @ False # (if r = 0 then num_bits (k - 1) 0 else num_bits k (r + 1))"
      using False by (simp add: golomb_code_def Let_def q_def r_def)
    note pre = stream_has_ones [OF st [unfolded g]]
    have lead: "lead (NOT sl) = q" using False s pre(1,2) by (intro lead_prefix [OF sees]) simp_all
    have sees2: "sees inp (unat pos + q + 1) (s + q + 1) (push_bit (q + 1) sl)"
      using sees_shift [OF sees, of "q + 1"] by (simp add: add.assoc)
    have v: "get_next_fromlong (push_bit (q + 1) sl) k = Some (bits_val inp (unat pos + q + 1) k)"
      using False s k by (intro get_next_value [OF sees2]) simp_all
    have nw: "of_nat q * of_nat m + of_nat r = (of_nat n :: u32)" by (simp add: nqr(1))
    show ?thesis
    proof (cases "k = 1")
      case True
      then have "r = 0" "n = q" using m nqr by simp_all
      moreover have "length (golomb_code m k w n) = q + 1" unfolding g using True \<open>r = 0\<close> by simp
      ultimately show ?thesis
        using ld(1) lead False True
        by (simp add: dyn_get_32bit_def Let_def sl_def [symmetric] MAX_PREFIX_32_def ac_simps)
    next
      case k1: False
      show ?thesis
      proof (cases "r = 0")
        case True
        then have "stream_has inp (unat pos + q + 1) (num_bits (k - 1) 0)" using pre(3) by simp
        then have "\<not> (2 :: u32) \<le> bits_val inp (unat pos + q + 1) k" using bits_val_short k(1) by (simp add: not_le)
        then show ?thesis
          using ld(1) lead False k1 v nw True k
          by (simp add: dyn_get_32bit_def Let_def sl_def [symmetric] g MAX_PREFIX_32_def of_nat_diff ac_simps)
      next
        case r0: False
        have "r + 1 < 2 ^ k" using nqr(2) m by linarith
        moreover have "stream_has inp (unat pos + q + 1) (num_bits k (r + 1))" using pre(3) r0 by simp
        ultimately have b: "bits_val inp (unat pos + q + 1) k = (of_nat (r + 1) :: u32)"
          using k by (intro bits_val_num_bits) simp_all
        have "(2 :: nat) ^ k \<le> 2 ^ 14" using k by (intro power_increasing) simp_all
        then have "unat (of_nat (r + 1) :: u32) = r + 1" using \<open>r + 1 < 2 ^ k\<close> by (intro unat_of_nat_u32) simp
        then have "(2 :: u32) \<le> of_nat (r + 1)" using r0 by (simp add: word_le_nat_alt del: of_nat_add of_nat_Suc)
        then show ?thesis
          using ld(1) lead False k1 v nw r0 b
          by (simp add: dyn_get_32bit_def Let_def sl_def [symmetric] g MAX_PREFIX_32_def ac_simps)
      qed
    qed
  qed
qed

lemma dyn_get_code:
  assumes k: "0 < k" "k \<le> 14" and m: "0 < m" "m < 2 ^ k" and n: "n div m < 9 \<or> n < 2 ^ 16"
    and st: "stream_has inp (unat pos) (golomb_code m k 16 n)"
    and len: "unat pos div 8 + 4 \<le> length inp" and pos: "unat pos + 100 < 2 ^ 31"
  shows "dyn_get inp pos (of_nat m) k = Some (of_nat n, of_nat (unat pos + length (golomb_code m k 16 n)))"
proof -
  obtain ld where ld: "read32bit inp (unat (drop_bit 3 pos)) = Some ld"
    "sees inp (unat pos) (unat pos mod 8) (push_bit (unat (pos AND 7)) ld)"
    using sees_loaded [OF len] by blast
  define sl where "sl = push_bit (unat (pos AND 7)) ld"
  define s where "s = unat pos mod 8"
  have sees: "sees inp (unat pos) s sl" and s: "s < 8" using ld(2) by (simp_all add: sl_def s_def)
  define q r where "q = n div m" and "r = n mod m"
  have nqr: "n = q * m + r" "r < m" using m(1) by (simp_all add: q_def r_def)
  show ?thesis
  proof (cases "9 \<le> q")
    case True
    have g: "golomb_code m k 16 n = replicate 9 True @ num_bits 16 n"
      using True by (simp add: golomb_code_def Let_def q_def)
    have st2: "stream_has inp (unat pos) (replicate 9 True)" "stream_has inp (unat pos + 9) (num_bits 16 n)"
      using st unfolding g stream_has_append by simp_all
    have "\<forall>i < 9. mem_bit inp (unat pos + i)" using st2(1) by (simp add: stream_has_def)
    then have "9 \<le> lead (NOT sl)" using s by (intro lead_long_prefix [OF sees]) simp_all
    moreover have "get_next_fromlong (push_bit 9 sl) 16 = Some (bits_val inp (unat pos + 9) 16)"
      using s by (intro get_next_value [OF sees_shift [OF sees, of 9]]) simp_all
    moreover have "bits_val inp (unat pos + 9) 16 = (of_nat n :: u32)"
      using n True by (intro bits_val_num_bits [OF st2(2)]) (simp_all add: q_def)
    ultimately show ?thesis
      using ld(1) by (simp add: dyn_get_def Let_def sl_def [symmetric] g MAX_PREFIX_16_def MAX_DATATYPE_BITS_16_def)
  next
    case False
    have g: "golomb_code m k 16 n = replicate q True @ False # (if r = 0 then num_bits (k - 1) 0 else num_bits k (r + 1))"
      using False by (simp add: golomb_code_def Let_def q_def r_def)
    note pre = stream_has_ones [OF st [unfolded g]]
    have lead: "lead (NOT sl) = q" using False s pre(1,2) by (intro lead_prefix [OF sees]) simp_all
    have sees2: "sees inp (unat pos + q + 1) (s + q + 1) (push_bit (q + 1) sl)"
      using sees_shift [OF sees, of "q + 1"] by (simp add: add.assoc)
    have v: "get_next_fromlong (push_bit (q + 1) sl) k = Some (bits_val inp (unat pos + q + 1) k)"
      using False s k by (intro get_next_value [OF sees2]) simp_all
    have nw: "of_nat q * of_nat m + of_nat r = (of_nat n :: u32)" by (simp add: nqr(1))
    show ?thesis
    proof (cases "r = 0")
      case True
      then have "stream_has inp (unat pos + q + 1) (num_bits (k - 1) 0)" using pre(3) by simp
      then have "bits_val inp (unat pos + q + 1) k < (2 :: u32)" using bits_val_short k(1) by blast
      then show ?thesis
        using ld(1) lead False v nw True k
        by (simp add: dyn_get_def Let_def sl_def [symmetric] g MAX_PREFIX_16_def of_nat_diff ac_simps)
    next
      case r0: False
      have r1: "r + 1 < 2 ^ k" using nqr(2) m(2) by linarith
      moreover have "stream_has inp (unat pos + q + 1) (num_bits k (r + 1))" using pre(3) r0 by simp
      ultimately have b: "bits_val inp (unat pos + q + 1) k = (of_nat (r + 1) :: u32)"
        using k by (intro bits_val_num_bits) simp_all
      have "(2 :: nat) ^ k \<le> 2 ^ 14" using k by (intro power_increasing) simp_all
      then have "unat (of_nat (r + 1) :: u32) = r + 1" using r1 by (intro unat_of_nat_u32) simp
      then have "\<not> of_nat (r + 1) < (2 :: u32)" using r0 by (simp add: word_less_nat_alt del: of_nat_add of_nat_Suc)
      then show ?thesis
        using ld(1) lead False v nw r0 b
        by (simp add: dyn_get_def Let_def sl_def [symmetric] g MAX_PREFIX_16_def ac_simps)
    qed
  qed
qed

section \<open>The decoder is lossless\<close>

text \<open>
  What a stream of samples looks like: every sample is folded to a number (twice the value, or twice the
  absolute value less one for a negative one), reduced by one after a zero run, and coded with the
  parameters of the running mean; when the mean is small, the number of zeros that follow comes next.
  The encoder fails on numbers that do not fit the widths.
\<close>

definition ag_fold :: "u32 \<Rightarrow> nat" where
  "ag_fold x = nat (if sint x \<ge> 0 then 2 * sint x else - 2 * sint x - 1)"

definition zero_run :: "u32 list \<Rightarrow> nat" where
  "zero_run xs = min 65535 (length (takeWhile (\<lambda>x. x = 0) xs))"

definition ag_code_sample ::
  "ag_params \<Rightarrow> nat \<Rightarrow> u32 \<Rightarrow> u32 \<Rightarrow> u32 \<Rightarrow> (bool list \<times> u32) option" where
  "ag_code_sample ps w mb zmode x = (
     let k = ag_k mb (ag_kb ps);
         n = ag_fold x - unat zmode
     in if 0 < k \<and> k \<le> 14 \<and> - (2 ^ 30) \<le> sint x \<and> sint x < 2 ^ 30 \<and> unat zmode \<le> ag_fold x \<and>
           (n div (2 ^ k - 1) < 9 \<or> int n < 2 ^ w)
        then Some (golomb_code (2 ^ k - 1) k w n, ag_mean (ag_pb ps) mb (of_nat n) zmode)
        else None)"

definition ag_code_run :: "ag_params \<Rightarrow> u32 \<Rightarrow> nat \<Rightarrow> bool list option" where
  "ag_code_run ps mb run = (
     let k = unat (ag_run_k mb);
         mz = unat ((push_bit k 1 - 1 :: u32) AND ag_wb ps)
     in if 0 < k \<and> k \<le> 14 \<and> 0 < mz then Some (golomb_code mz k 16 run) else None)"

function ag_encode :: "ag_params \<Rightarrow> nat \<Rightarrow> u32 \<Rightarrow> u32 \<Rightarrow> u32 list \<Rightarrow> bool list option" where
  "ag_encode ps w mb zmode [] = Some []"
| "ag_encode ps w mb zmode (x # xs) = do {
     (code, mb) \<leftarrow> ag_code_sample ps w mb zmode x;
     if push_bit MMULSHIFT mb < QB \<and> xs \<noteq> []
     then do {
       runcode \<leftarrow> ag_code_run ps mb (zero_run xs);
       rest \<leftarrow> ag_encode ps w 0 (if zero_run xs \<ge> 65535 then 0 else 1) (drop (zero_run xs) xs);
       Some (code @ runcode @ rest)
     }
     else do {
       rest \<leftarrow> ag_encode ps w mb 0 xs;
       Some (code @ rest)
     }
   }"
  by pat_completeness auto
termination
  by (relation "measure (\<lambda>(ps, w, mb, zmode, xs). length xs)") auto

lemma ag_sample_fold:
  assumes "ag_fold x < 2 ^ 31" and "unat zmode \<le> ag_fold x"
  shows "ag_sample (of_nat (ag_fold x - unat zmode)) zmode = x"
proof -
  have nd: "of_nat (ag_fold x - unat zmode) + zmode = (of_nat (ag_fold x) :: u32)"
    using assms(2) by (simp add: of_nat_diff)
  have half: "drop_bit 1 (of_nat (ag_fold x) + 1 :: u32) = of_nat ((ag_fold x + 1) div 2)"
  proof -
    have "unat (of_nat (ag_fold x + 1) :: u32) = ag_fold x + 1" using assms(1) by (intro unat_of_nat_u32) simp
    then have "unat (drop_bit 1 (of_nat (ag_fold x + 1) :: u32)) = (ag_fold x + 1) div 2"
      by (simp only: unat_drop_bit_eq) (simp add: drop_bit_eq_div)
    moreover have "unat (of_nat ((ag_fold x + 1) div 2) :: u32) = (ag_fold x + 1) div 2"
      using assms(1) by (intro unat_of_nat_u32) simp
    ultimately have "drop_bit 1 (of_nat (ag_fold x + 1) :: u32) = of_nat ((ag_fold x + 1) div 2)"
      by (simp only: word_unat_eq_iff)
    then show ?thesis by (simp only: of_nat_add of_nat_1)
  qed
  have low: "(of_nat (ag_fold x) :: u32) AND 1 = of_bool (odd (ag_fold x))"
    by (simp add: and_one_eq mod_2_eq_odd)
  show ?thesis
  proof (cases "sint x \<ge> 0")
    case True
    then have f: "ag_fold x = 2 * nat (sint x)" by (simp add: ag_fold_def nat_mult_distrib)
    then have "(ag_fold x + 1) div 2 = nat (sint x)" "even (ag_fold x)" by simp_all
    then show ?thesis
      using True low by (simp add: ag_sample_def Let_def nd half [unfolded One_nat_def])
  next
    case False
    then have f: "ag_fold x = 2 * nat (- sint x) - 1" "0 < nat (- sint x)"
      by (simp_all add: ag_fold_def nat_diff_distrib nat_mult_distrib)
    then have "(ag_fold x + 1) div 2 = nat (- sint x)" "odd (ag_fold x)" by auto
    then show ?thesis
      using False low by (simp add: ag_sample_def Let_def nd half [unfolded One_nat_def])
  qed
qed

lemma zero_run_zeros: "take (zero_run xs) xs = replicate (zero_run xs) 0" "zero_run xs \<le> length xs"
  "zero_run xs < 2 ^ 16"
proof -
  define zs where "zs = takeWhile (\<lambda>x. x = 0) xs"
  have "zs = replicate (length zs) 0"
    using set_takeWhileD [of _ "\<lambda>x. x = 0" xs] by (intro replicate_eqI) (auto simp: zs_def)
  moreover have "xs = zs @ dropWhile (\<lambda>x. x = 0) xs" by (simp add: zs_def)
  ultimately have t: "take n xs = replicate n 0" if "n \<le> length zs" for n
    using that by (metis append_eq_conv_conj diff_is_0_eq' take_0 take_append take_replicate min_absorb1 append_Nil2)
  show "take (zero_run xs) xs = replicate (zero_run xs) 0" by (rule t) (simp add: zero_run_def zs_def)
  show "zero_run xs \<le> length xs" using length_takeWhile_le [of "\<lambda>x. x = 0" xs] by (simp add: zero_run_def min_def)
  show "zero_run xs < 2 ^ 16" by (simp add: zero_run_def min_def)
qed

lemma golomb_code_nonempty: "0 < length (golomb_code m k w n)"
  by (simp add: golomb_code_def Let_def)

lemma push_bit_one_diff: "k < 32 \<Longrightarrow> (push_bit k 1 - 1 :: u32) = of_nat (2 ^ k - 1)"
  by (simp add: push_bit_eq_mult of_nat_diff)

lemma unat_below_mask:
  assumes "k < 32"
  shows "unat ((push_bit k 1 - 1 :: u32) AND x) < 2 ^ k"
proof -
  have "(push_bit k 1 - 1 :: u32) AND x = take_bit k x"
    by (simp add: push_bit_eq_mult take_bit_eq_mask mask_eq_exp_minus_1 and.commute)
  then show ?thesis using assms by (simp add: unsigned_take_bit_eq)
qed

text \<open>Enough memory behind the code for the words the reader loads.\<close>

definition stream_room :: "byte list \<Rightarrow> nat \<Rightarrow> bool" where
  "stream_room inp e \<longleftrightarrow> e + 100 < 2 ^ 31 \<and> e div 8 + 11 \<le> length inp"

lemma stream_room_less: "stream_room inp e \<Longrightarrow> p \<le> e \<Longrightarrow> stream_room inp p"
  using div_le_mono [of p e 8] by (simp add: stream_room_def)

lemma room_32bit:
  assumes "stream_room inp p" and "w \<le> 32"
  shows "(p + 9 + w) div 8 + 5 \<le> length inp" "(p + 24) div 8 + 5 \<le> length inp" "p div 8 + 4 \<le> length inp"
    "p + 100 < 2 ^ 31"
proof -
  have "(p + 9 + w) div 8 \<le> (p + 48) div 8" by (rule div_le_mono) (use assms(2) in linarith)
  moreover have "(p + 24) div 8 \<le> (p + 48) div 8" by (rule div_le_mono) linarith
  moreover have "(p + 48) div 8 = p div 8 + 6" by simp
  ultimately show "(p + 9 + w) div 8 + 5 \<le> length inp" "(p + 24) div 8 + 5 \<le> length inp" "p div 8 + 4 \<le> length inp"
    "p + 100 < 2 ^ 31"
    using assms(1) by (simp_all add: stream_room_def)
qed

text \<open>What the reader gets for the code of a sample and of a run.\<close>

lemma ag_code_sample_read:
  assumes "ag_code_sample ps w mb zmode x = Some (code, mb')" and w: "0 < w" "w \<le> 32"
    and st: "stream_has inp (unat pos) code" and room: "stream_room inp (unat pos + length code)"
  obtains n pos1 where "ag_k mb (ag_kb ps) < 31"
    "dyn_get_32bit inp pos (push_bit (ag_k mb (ag_kb ps)) 1 - 1) (ag_k mb (ag_kb ps)) w = Some (n, pos1)"
    "ag_sample n zmode = x" "ag_mean (ag_pb ps) mb n zmode = mb'" "unat pos1 = unat pos + length code" "0 < length code"
proof -
  define k n where "k = ag_k mb (ag_kb ps)" and "n = ag_fold x - unat zmode"
  have c': "0 < k" "k \<le> 14" "- (2 ^ 30) \<le> sint x" "sint x < 2 ^ 30" "unat zmode \<le> ag_fold x"
    "n div (2 ^ k - 1) < 9 \<or> int n < 2 ^ w"
    "code = golomb_code (2 ^ k - 1) k w n" "mb' = ag_mean (ag_pb ps) mb (of_nat n) zmode"
    using assms(1) by (simp_all only: ag_code_sample_def Let_def k_def [symmetric] n_def [symmetric] split: if_splits) auto
  have "ag_fold x < 2 ^ 31" using c'(3,4) by (simp add: ag_fold_def nat_less_iff)
  moreover have "n div (2 ^ k - 1) < 9 \<or> n < 2 ^ w" using c'(6) by (metis of_nat_less_numeral_power_cancel_iff)
  ultimately have c: "0 < k" "k \<le> 14" "ag_fold x < 2 ^ 31" "unat zmode \<le> ag_fold x" "n div (2 ^ k - 1) < 9 \<or> n < 2 ^ w"
    "code = golomb_code (2 ^ k - 1) k w n" "mb' = ag_mean (ag_pb ps) mb (of_nat n) zmode"
    using c' by simp_all
  have "stream_room inp (unat pos)" by (rule stream_room_less [OF room]) simp
  note r = room_32bit [OF this w(2)]
  have u: "unat (of_nat (unat pos + length code) :: u32) = unat pos + length code"
    using room unfolding stream_room_def by (intro unat_of_nat_u32) simp
  have get: "dyn_get_32bit inp pos (of_nat (2 ^ k - 1)) k w = Some (of_nat n, of_nat (unat pos + length code))"
    unfolding c(6) by (rule dyn_get_32bit_code [OF c(1,2) refl c(5) w _ r(1,2,4)]) (use st in \<open>simp add: c(6)\<close>)
  have k32: "k < 32" "k < 31" using c(2) by simp_all
  show thesis
  proof (rule that)
    show "ag_k mb (ag_kb ps) < 31" unfolding k_def [symmetric] by (rule k32(2))
    show "dyn_get_32bit inp pos (push_bit (ag_k mb (ag_kb ps)) 1 - 1) (ag_k mb (ag_kb ps)) w =
        Some (of_nat n, of_nat (unat pos + length code))"
      unfolding k_def [symmetric] push_bit_one_diff [OF k32(1)] by (rule get)
    show "ag_sample (of_nat n) zmode = x" unfolding n_def by (rule ag_sample_fold [OF c(3,4)])
  qed (use u c(6,7) golomb_code_nonempty in simp_all)
qed

lemma ag_code_run_read:
  assumes "ag_code_run ps mb run = Some code" and run: "run < 2 ^ 16"
    and st: "stream_has inp (unat pos) code" and room: "stream_room inp (unat pos + length code)"
  obtains pos1 where "ag_run_k mb < 31"
    "dyn_get inp pos ((push_bit (unat (ag_run_k mb)) 1 - 1) AND ag_wb ps) (unat (ag_run_k mb)) = Some (of_nat run, pos1)"
    "unat pos1 = unat pos + length code"
proof -
  define k where "k = unat (ag_run_k mb)"
  define mz where "mz = unat ((push_bit k 1 - 1 :: u32) AND ag_wb ps)"
  have c: "0 < k" "k \<le> 14" "0 < mz" "code = golomb_code mz k 16 run"
    using assms(1) by (simp_all only: ag_code_run_def Let_def k_def [symmetric] mz_def [symmetric] split: if_splits) auto
  have "stream_room inp (unat pos)" by (rule stream_room_less [OF room]) simp
  note r = room_32bit [OF this, of 16]
  have mzk: "mz < 2 ^ k" unfolding mz_def using c(2) by (intro unat_below_mask) simp
  have u: "unat (of_nat (unat pos + length code) :: u32) = unat pos + length code"
    using room unfolding stream_room_def by (intro unat_of_nat_u32) simp
  have get: "dyn_get inp pos (of_nat mz) k = Some (of_nat run, of_nat (unat pos + length code))"
    unfolding c(4) by (rule dyn_get_code [OF c(1-3) mzk]) (use run st r in \<open>simp_all add: c(4)\<close>)
  show thesis
  proof (rule that)
    show "ag_run_k mb < 31" using c(2) by (simp add: word_less_nat_alt k_def)
    show "dyn_get inp pos ((push_bit (unat (ag_run_k mb)) 1 - 1) AND ag_wb ps) (unat (ag_run_k mb)) =
        Some (of_nat run, of_nat (unat pos + length code))"
      using get by (simp add: mz_def k_def)
  qed (use u in simp)
qed

lemma memcpy_zeros:
  "length pre = c \<Longrightarrow> k \<le> length rs \<Longrightarrow> memcpy (pre @ rs) c (replicate k 0) = Some (pre @ replicate k 0 @ drop k rs)"
  by (simp add: memcpy_def)

lemma dyn_loop_lossless:
  assumes "ag_encode ps w mb zmode xs = Some code" and "0 < w" and "w \<le> 32"
    and "length pre = c" and "c + length xs = unat numSamples" and "length xs \<le> length rest"
    and "stream_has inp (unat pos) code" and "stream_room inp (unat pos + length code)"
    and "unat pos + length code \<le> unat maxPos"
  shows "dyn_loop ps inp maxPos numSamples w pos c mb zmode (pre @ rest) =
    Some (ALAC_noErr, of_nat (unat pos + length code), pre @ xs @ drop (length xs) rest)"
  using assms
proof (induction ps w mb zmode xs arbitrary: code pre c rest pos rule: ag_encode.induct)
  case (1 ps w mb zmode)
  then show ?case by (subst dyn_loop.simps) simp
next
  case (2 ps w mb zmode x xs)
  obtain code1 mb' where cs: "ag_code_sample ps w mb zmode x = Some (code1, mb')"
    using 2(3) by (auto simp: bind_eq_Some_conv)
  let ?run = "push_bit MMULSHIFT mb' < QB \<and> xs \<noteq> []"
  obtain code2 where code: "code = code1 @ code2"
    using 2(3) cs by (auto simp: bind_eq_Some_conv split: if_splits)
  have st: "stream_has inp (unat pos) code1" "stream_has inp (unat pos + length code1) code2"
    using 2(9) by (simp_all add: code stream_has_append)
  have room1: "stream_room inp (unat pos + length code1)" using 2(10) by (rule stream_room_less) (simp add: code)
  obtain n pos1 where s: "ag_k mb (ag_kb ps) < 31"
    "dyn_get_32bit inp pos (push_bit (ag_k mb (ag_kb ps)) 1 - 1) (ag_k mb (ag_kb ps)) w = Some (n, pos1)"
    "ag_sample n zmode = x" "ag_mean (ag_pb ps) mb n zmode = mb'" "unat pos1 = unat pos + length code1" "0 < length code1"
    using ag_code_sample_read [OF cs 2(4,5) st(1) room1] by blast
  obtain r rs where rest: "rest = r # rs" using 2(8) by (cases rest) auto
  have "length code = length code1 + length code2" by (simp add: code)
  then have lt: "c < unat numSamples" "pos < maxPos"
    using 2(7,11) s(6) unfolding word_less_nat_alt by (simp, linarith)
  have wr: "wr (pre @ rest) c x = Some ((pre @ [x]) @ rs)"
    using 2(6) by (simp add: rest list_update_append)
  have more: "c + 1 < unat numSamples \<longleftrightarrow> xs \<noteq> []" using 2(7) by (cases xs) auto
  show ?case
  proof (cases ?run)
    case False
    then have e: "ag_encode ps w mb' 0 xs = Some code2"
      using 2(3) cs by (auto simp: code bind_eq_Some_conv)
    have "dyn_loop ps inp maxPos numSamples w pos1 (c + 1) mb' 0 ((pre @ [x]) @ rs) =
        Some (ALAC_noErr, of_nat (unat pos1 + length code2), (pre @ [x]) @ xs @ drop (length xs) rs)"
      using 2(6-11) s(5) st(2) by (intro 2(2) [OF cs refl False e 2(4,5)]) (simp_all add: rest code add.assoc)
    then show ?thesis
      using lt s wr False more by (subst dyn_loop.simps) (auto simp: Let_def code rest add.assoc)
  next
    case True
    define run where "run = zero_run xs"
    obtain code3 code4 where e: "ag_code_run ps mb' run = Some code3" "code2 = code3 @ code4"
      "ag_encode ps w 0 (if run \<ge> 65535 then 0 else 1) (drop run xs) = Some code4"
      using 2(3) cs True by (auto simp: code bind_eq_Some_conv run_def)
    note z = zero_run_zeros [of xs, folded run_def]
    have st3: "stream_has inp (unat pos1) code3" "stream_has inp (unat pos1 + length code3) code4"
      using st(2) by (simp_all add: e(2) stream_has_append s(5))
    have room3: "stream_room inp (unat pos1 + length code3)"
      using 2(10) by (rule stream_room_less) (simp add: code e(2) s(5))
    obtain pos2 where g: "ag_run_k mb' < 31"
      "dyn_get inp pos1 ((push_bit (unat (ag_run_k mb')) 1 - 1) AND ag_wb ps) (unat (ag_run_k mb')) = Some (of_nat run, pos2)"
      "unat pos2 = unat pos1 + length code3"
      using ag_code_run_read [OF e(1) z(3) st3(1) room3] by blast
    have urun: "unat (of_nat run :: u32) = run" using z(3) by (intro unat_of_nat_u32) simp
    have fits: "of_nat (c + 1) + of_nat run \<le> numSamples"
    proof -
      have le: "c + 1 + run \<le> unat numSamples" using 2(7) z(2) by simp
      have "unat numSamples < 2 ^ 32" using unsigned_less [of numSamples] by simp
      then have "unat (of_nat (c + 1 + run) :: u32) = c + 1 + run" using le by (intro unat_of_nat_u32) linarith
      moreover have "of_nat (c + 1) + of_nat run = (of_nat (c + 1 + run) :: u32)" by simp
      ultimately show ?thesis using le by (simp only: word_le_nat_alt)
    qed
    have big: "(of_nat run :: u32) \<ge> 65535 \<longleftrightarrow> run \<ge> 65535" using urun by (simp add: word_le_nat_alt)
    have cp: "memcpy ((pre @ [x]) @ rs) (c + 1) (replicate (unat (of_nat run :: u32)) 0) =
        Some (((pre @ [x]) @ replicate run 0) @ drop run rs)"
      unfolding urun using 2(6,8) z(2) by (subst memcpy_zeros) (simp_all add: rest)
    have ih: "dyn_loop ps inp maxPos numSamples w pos2 (c + 1 + run) 0 (if run \<ge> 65535 then 0 else 1)
          (((pre @ [x]) @ replicate run 0) @ drop run rs) =
        Some (ALAC_noErr, of_nat (unat pos2 + length code4),
          ((pre @ [x]) @ replicate run 0) @ drop run xs @ drop (length (drop run xs)) (drop run rs))"
      unfolding run_def using 2(6-11) s(5) st3(2) g(3) z(2) [unfolded run_def]
      by (intro 2(1) [OF cs refl True e(1) [unfolded run_def] e(3) [unfolded run_def] 2(4,5)])
        (simp_all add: rest code e(2) add.assoc)
    have "replicate run 0 @ drop run xs @ ys = xs @ ys" for ys
      unfolding z(1) [symmetric] append_assoc [symmetric] append_take_drop_id ..
    moreover have "pos2 = pos + (of_nat (length code1) + of_nat (length code3))"
    proof -
      have "of_nat (unat pos2) = (of_nat (unat pos + length code1 + length code3) :: u32)" unfolding g(3) s(5) ..
      then show ?thesis by (simp add: add.assoc)
    qed
    ultimately show ?thesis
      using lt s wr True more g(1,2) fits big cp ih urun z(2)
      by (subst dyn_loop.simps) (simp add: Let_def code rest e(2) add.assoc)
  qed
qed

lemma mem_bit_drop: "c \<le> length mem \<Longrightarrow> mem_bit (drop c mem) p = mem_bit mem (8 * c + p)"
  by (simp add: mem_bit_def)

lemma dyn_decomp_code:
  assumes ok: "bb_ok bits" and enc: "ag_encode ps w (ag_mb0 ps) 0 xs = Some code" and w: "0 < w" "w \<le> 32"
    and n: "length xs = unat numSamples" "length xs \<le> length pc"
    and st: "stream_has (bb_mem bits) (bb_pos bits) code"
    and room: "stream_room (drop (cur bits) (bb_mem bits)) (unat (bitIndex bits) + length code)"
    and fits: "unat (bitIndex bits) + length code \<le> unat (byteSize bits * 8)"
  shows "\<exists>bits'. dyn_decomp ps bits pc numSamples w =
      Some (if cur bits' \<le> bend bits then ALAC_noErr else kALAC_ParamError, of_nat (length code), bits',
        xs @ drop (length xs) pc) \<and>
    bb_pos bits' = bb_pos bits + length code \<and> bb_mem bits' = bb_mem bits \<and>
    bend bits' = bend bits \<and> byteSize bits' = byteSize bits \<and> bb_ok bits'"
proof -
  let ?inp = "drop (cur bits) (bb_mem bits)" and ?b = "bitIndex bits"
  have c: "cur bits \<le> length (bb_mem bits)" using room by (auto simp: stream_room_def)
  have "stream_has ?inp (unat ?b) code"
    using st by (simp add: stream_has_def mem_bit_drop [OF c] bb_pos_def add.assoc)
  then have l: "dyn_loop ps ?inp (byteSize bits * 8) numSamples w ?b 0 (ag_mb0 ps) 0 ([] @ pc) =
      Some (ALAC_noErr, of_nat (unat ?b + length code), [] @ xs @ drop (length xs) pc)"
    by (intro dyn_loop_lossless [OF enc w]) (use n room fits in simp_all)
  have d: "of_nat (unat ?b + length code) - ?b = (of_nat (length code) :: u32)" by simp
  have u: "unat (of_nat (length code) :: u32) = length code"
    using room unfolding stream_room_def by (intro unat_of_nat_u32) simp
  let ?bits' = "BitBufferAdvance (of_nat (length code)) bits"
  have "dyn_decomp ps bits pc numSamples w =
      Some (if cur ?bits' \<le> bend ?bits' then ALAC_noErr else kALAC_ParamError, of_nat (length code), ?bits',
        xs @ drop (length xs) pc)"
    using l by (simp add: dyn_decomp_def Let_def)
  moreover have "bb_pos ?bits' = bb_pos bits + length code \<and> bend ?bits' = bend bits \<and> bb_mem ?bits' = bb_mem bits \<and>
      byteSize ?bits' = byteSize bits \<and> bb_ok ?bits'"
  proof (cases "length code = 0")
    case False
    then have "(of_nat (length code) :: u32) \<noteq> 0" using u by (metis unat_0)
    moreover have "length code < 2 ^ 32 - 8" using room by (simp add: stream_room_def)
    ultimately show ?thesis
      using bb_step_pos [OF ok, of "of_nat (length code)"] u by (simp add: BitBufferAdvance_def)
  qed (use ok in \<open>simp add: BitBufferAdvance_def\<close>)
  ultimately show ?thesis by (intro exI [of _ ?bits']) simp
qed

text \<open>C25: The entropy decoder is lossless: when the bits at the cursor are the adaptive Golomb coding of a list of
  samples, \<^verbatim>\<open>dyn_decomp\<close> returns without error, writes exactly these samples to the front of the array
  and nothing behind them, and leaves the buffer at the end of the code.\<close>

theorem dyn_decomp_lossless:
  assumes ok: "bb_ok bits" and enc: "ag_encode ps w (ag_mb0 ps) 0 xs = Some code" and w: "0 < w" "w \<le> 32"
    and n: "length xs = unat numSamples" "length xs \<le> length pc"
    and st: "stream_has (bb_mem bits) (bb_pos bits) code"
    and room: "stream_room (drop (cur bits) (bb_mem bits)) (unat (bitIndex bits) + length code)"
    and fits: "unat (bitIndex bits) + length code \<le> unat (byteSize bits * 8)"
  shows "\<exists>bits'. dyn_decomp ps bits pc numSamples w =
      Some (if cur bits' \<le> bend bits then ALAC_noErr else kALAC_ParamError, of_nat (length code), bits',
        xs @ drop (length xs) pc) \<and>
    bb_pos bits' = bb_pos bits + length code \<and> bb_mem bits' = bb_mem bits"
  using dyn_decomp_code [OF assms] by blast

definition sample_ag :: ag_params where
  "sample_ag = \<lparr> ag_mb = 10, ag_mb0 = 10, ag_pb = 40, ag_kb = 14, ag_wb = 0x3fff, ag_qb = 472, ag_fw = 5, ag_sw = 5,
     ag_maxrun = 255 \<rparr>"

lemma sample_code:
  "ag_encode sample_ag 17 10 0 [0, 0, - 2] = Some [False, False, False, False, True, False, True, True, False]"
proof -
  have "ag_code_sample sample_ag 17 10 0 0 = Some ([False], 10)"
    "ag_code_run sample_ag 10 1 = Some [False, False, False, True, False]"
    "ag_code_sample sample_ag 17 0 1 (- 2) = Some ([True, True, False], 120)"
    by code_simp+
  moreover have "zero_run [0, - 2] = 1" by (simp add: zero_run_def)
  ultimately show ?thesis by (simp add: MMULSHIFT_def QB_def)
qed

theorem dyn_decomp_lossless_witness:
  "\<exists>bits'. dyn_decomp sample_ag (BitBufferInit (0x0b # replicate 19 0) 20) [9, 9, 9, 9] 3 17 =
     Some (0, 9, bits', [0, 0, - 2, 9]) \<and> bb_pos bits' = 9"
proof -
  let ?b = "BitBufferInit (0x0b # replicate 19 0) 20"
  let ?code = "[False, False, False, False, True, False, True, True, False]"
  have b: "bb_ok ?b" "bb_mem ?b = 0x0b # replicate 19 0" "bb_pos ?b = 0" "cur ?b = 0" "bitIndex ?b = 0"
    "bend ?b = 20" "byteSize ?b = 20" "ag_mb0 sample_ag = 10"
    by (simp_all add: bb_ok_def bb_pos_def BitBufferInit_def sample_ag_def)
  have "mem_bit (0x0b # 0 # xs) i \<longleftrightarrow> i = 4 \<or> i = 6 \<or> i = 7" if "i < 9" for i and xs
  proof -
    have "i \<in> {0, 1, 2, 3, 4, 5, 6, 7, 8}" using that by auto
    then show ?thesis by (auto simp: mem_bit_def)
  qed
  moreover have "replicate 19 0 = 0 # replicate 18 (0 :: byte)" by (simp add: numeral_eq_Suc)
  moreover have "?code ! i \<longleftrightarrow> i = 4 \<or> i = 6 \<or> i = 7" if "i < 9" for i
    using that by (auto simp: nth_Cons' split: if_splits)
  ultimately have st: "stream_has (bb_mem ?b) (bb_pos ?b) ?code"
    unfolding stream_has_def b(2,3) by simp
  have room: "stream_room (drop (cur ?b) (bb_mem ?b)) (unat (bitIndex ?b) + length ?code)"
    by (simp add: stream_room_def b)
  obtain bits' where "dyn_decomp sample_ag ?b [9, 9, 9, 9] 3 17 =
      Some (if cur bits' \<le> bend ?b then ALAC_noErr else kALAC_ParamError, of_nat (length ?code), bits',
        [0, 0, - 2] @ drop (length [0, 0, - 2 :: u32]) [9, 9, 9, 9])"
    "bb_pos bits' = bb_pos ?b + length ?code"
    using dyn_decomp_lossless [OF b(1) sample_code [folded b(8)] _ _ _ _ st room, of 3 "[9, 9, 9, 9]"]
    by (auto simp: b)
  moreover from this(2) have "cur bits' \<le> 20" by (simp add: b bb_pos_def)
  ultimately show ?thesis by (simp add: b ALAC_noErr_def)
qed

end
