(* ===== verification/Alac_Predictor.thy ===== *)
theory Alac_Predictor
  imports Prelude
begin

text \<open>
  \<^verbatim>\<open>alac/dp_dec.c\<close>: the adaptive linear predictor.  Samples and residuals are 32-bit words read as
  signed numbers, coefficients 16-bit ones; the arithmetic wraps around as the compiled code does.
  A shift by 32 or more, and \<^verbatim>\<open>1 << (denshift - 1)\<close> with \<^verbatim>\<open>denshift = 0\<close> where its value is used, are
  undefined behaviour.
\<close>

unbundle bit_operations_syntax

section \<open>Definitions\<close>

definition sar :: "u32 \<Rightarrow> u32 \<Rightarrow> u32" where
  "sar x n = signed_drop_bit (unat n) x"

definition sign_of_int :: "u32 \<Rightarrow> u32" where
  "sign_of_int i = drop_bit 31 (- i) OR sar i 31"

text \<open>\<^verbatim>\<open>(x << chanshift) >> chanshift\<close>: the low bits of a sample, sign extended.\<close>

definition sext :: "u32 \<Rightarrow> u32 \<Rightarrow> u32 option" where
  "sext chanshift x = do {
     require (chanshift < 32);
     Some (sar (push_bit (unat chanshift) x) chanshift)
   }"

text \<open>Running sums, of the warm-up and of the mode \<^verbatim>\<open>numactive == 31\<close>.\<close>

fun unpc_delta :: "u32 \<Rightarrow> u32 \<Rightarrow> u32 list \<Rightarrow> u32 list option" where
  "unpc_delta chanshift prev [] = Some []"
| "unpc_delta chanshift prev (p # ps) = do {
     prev \<leftarrow> sext chanshift (p + prev);
     rest \<leftarrow> unpc_delta chanshift prev ps;
     Some (prev # rest)
   }"

text \<open>One predicted sample: \<^verbatim>\<open>h\<close> holds \<^verbatim>\<open>pout[0], pout[-1], ...\<close>.  The general case.\<close>

definition unpc_sum :: "u32 \<Rightarrow> u32 list \<Rightarrow> u16 list \<Rightarrow> nat \<Rightarrow> u32" where
  "unpc_sum base h coefs n = sum_list (map (\<lambda>k. scast (coefs ! k) * (h ! k - base)) [0..<n])"

fun adapt_pos :: "nat \<Rightarrow> u32 \<Rightarrow> u32 \<Rightarrow> u32 list \<Rightarrow> nat \<Rightarrow> u16 list \<Rightarrow> u32 \<Rightarrow> u16 list" where
  "adapt_pos n denshift base h 0 coefs del0 = coefs"
| "adapt_pos n denshift base h (Suc k) coefs del0 = (
     let dd = base - h ! k;
         sgn = sign_of_int dd;
         coefs = coefs[k := coefs ! k - ucast sgn];
         del0 = del0 - of_nat (n - k) * sar (sgn * dd) denshift
     in if sint del0 \<le> 0 then coefs else adapt_pos n denshift base h k coefs del0)"

fun adapt_neg :: "nat \<Rightarrow> u32 \<Rightarrow> u32 \<Rightarrow> u32 list \<Rightarrow> nat \<Rightarrow> u16 list \<Rightarrow> u32 \<Rightarrow> u16 list" where
  "adapt_neg n denshift base h 0 coefs del0 = coefs"
| "adapt_neg n denshift base h (Suc k) coefs del0 = (
     let dd = base - h ! k;
         sgn = sign_of_int dd;
         coefs = coefs[k := coefs ! k + ucast sgn];
         del0 = del0 - of_nat (n - k) * sar (- sgn * dd) denshift
     in if sint del0 \<ge> 0 then coefs else adapt_neg n denshift base h k coefs del0)"

definition denhalf :: "u32 \<Rightarrow> u32 option" where
  "denhalf denshift = do {
     require (0 < denshift \<and> denshift < 32);
     Some (push_bit (unat (denshift - 1)) 1)
   }"

definition unpc_step ::
  "nat \<Rightarrow> u32 \<Rightarrow> u32 \<Rightarrow> u32 \<Rightarrow> u32 \<Rightarrow> u32 list \<Rightarrow> u16 list \<Rightarrow> (u32 \<times> u16 list) option" where
  "unpc_step n chanshift denshift del base h coefs = do {
     dh \<leftarrow> denhalf denshift;
     let sum1 = unpc_sum base h coefs n;
     let sg = sign_of_int del;
     v \<leftarrow> sext chanshift (del + (base + sar (sum1 + dh) denshift));
     Some (v, if sint sg > 0 then adapt_pos n denshift base h n coefs del
              else if sint sg < 0 then adapt_neg n denshift base h n coefs del
              else coefs)
   }"

text \<open>The case of four coefficients, unrolled; each \<^verbatim>\<open>continue\<close> ends the adaptation.\<close>

definition adapt4_pos :: "u32 \<Rightarrow> u16 \<times> u16 \<times> u16 \<times> u16 \<Rightarrow> u32 \<times> u32 \<times> u32 \<times> u32 \<Rightarrow> u32 \<Rightarrow> u16 \<times> u16 \<times> u16 \<times> u16" where
  "adapt4_pos denshift as bs del0 = (case (as, bs) of ((a0, a1, a2, a3), (b0, b1, b2, b3)) \<Rightarrow>
     let sgn = sign_of_int b3; a3 = a3 - ucast sgn; del0 = del0 - (4 - 3) * sar (sgn * b3) denshift
     in if sint del0 \<le> 0 then (a0, a1, a2, a3) else
     let sgn = sign_of_int b2; a2 = a2 - ucast sgn; del0 = del0 - (4 - 2) * sar (sgn * b2) denshift
     in if sint del0 \<le> 0 then (a0, a1, a2, a3) else
     let sgn = sign_of_int b1; a1 = a1 - ucast sgn; del0 = del0 - (4 - 1) * sar (sgn * b1) denshift
     in if sint del0 \<le> 0 then (a0, a1, a2, a3) else
     (a0 - ucast (sign_of_int b0), a1, a2, a3))"

definition adapt4_neg :: "u32 \<Rightarrow> u16 \<times> u16 \<times> u16 \<times> u16 \<Rightarrow> u32 \<times> u32 \<times> u32 \<times> u32 \<Rightarrow> u32 \<Rightarrow> u16 \<times> u16 \<times> u16 \<times> u16" where
  "adapt4_neg denshift as bs del0 = (case (as, bs) of ((a0, a1, a2, a3), (b0, b1, b2, b3)) \<Rightarrow>
     let sgn = - sign_of_int b3; a3 = a3 - ucast sgn; del0 = del0 - (4 - 3) * sar (sgn * b3) denshift
     in if sint del0 \<ge> 0 then (a0, a1, a2, a3) else
     let sgn = - sign_of_int b2; a2 = a2 - ucast sgn; del0 = del0 - (4 - 2) * sar (sgn * b2) denshift
     in if sint del0 \<ge> 0 then (a0, a1, a2, a3) else
     let sgn = - sign_of_int b1; a1 = a1 - ucast sgn; del0 = del0 - (4 - 1) * sar (sgn * b1) denshift
     in if sint del0 \<ge> 0 then (a0, a1, a2, a3) else
     (a0 + ucast (sign_of_int b0), a1, a2, a3))"

definition unpc_step4 ::
  "u32 \<Rightarrow> u32 \<Rightarrow> u32 \<Rightarrow> u32 \<Rightarrow> u32 list \<Rightarrow> u16 \<times> u16 \<times> u16 \<times> u16 \<Rightarrow> (u32 \<times> (u16 \<times> u16 \<times> u16 \<times> u16)) option" where
  "unpc_step4 chanshift denshift del base h as = (case as of (a0, a1, a2, a3) \<Rightarrow> do {
     dh \<leftarrow> denhalf denshift;
     let b0 = base - h ! 0; let b1 = base - h ! 1; let b2 = base - h ! 2; let b3 = base - h ! 3;
     let sum1 = sar (dh - scast a0 * b0 - scast a1 * b1 - scast a2 * b2 - scast a3 * b3) denshift;
     let sg = sign_of_int del;
     v \<leftarrow> sext chanshift (del + (base + sum1));
     Some (v, if sint sg > 0 then adapt4_pos denshift (a0, a1, a2, a3) (b0, b1, b2, b3) del
              else if sint sg < 0 then adapt4_neg denshift (a0, a1, a2, a3) (b0, b1, b2, b3) del
              else (a0, a1, a2, a3))
   })"

text \<open>The case of eight coefficients; the unrolled adaptation as the list of its steps, from the last
  coefficient down.\<close>

type_synonym coef8 = "u16 \<times> u16 \<times> u16 \<times> u16 \<times> u16 \<times> u16 \<times> u16 \<times> u16"

definition adapt8_pos :: "u32 \<Rightarrow> coef8 \<Rightarrow> u32 \<times> u32 \<times> u32 \<times> u32 \<times> u32 \<times> u32 \<times> u32 \<times> u32 \<Rightarrow> u32 \<Rightarrow> coef8" where
  "adapt8_pos denshift as bs del0 =
    (case (as, bs) of ((a0, a1, a2, a3, a4, a5, a6, a7), (b0, b1, b2, b3, b4, b5, b6, b7)) \<Rightarrow>
     let sgn = sign_of_int b7; a7 = a7 - ucast sgn; del0 = del0 - 1 * sar (sgn * b7) denshift
     in if sint del0 \<le> 0 then (a0, a1, a2, a3, a4, a5, a6, a7) else
     let sgn = sign_of_int b6; a6 = a6 - ucast sgn; del0 = del0 - 2 * sar (sgn * b6) denshift
     in if sint del0 \<le> 0 then (a0, a1, a2, a3, a4, a5, a6, a7) else
     let sgn = sign_of_int b5; a5 = a5 - ucast sgn; del0 = del0 - 3 * sar (sgn * b5) denshift
     in if sint del0 \<le> 0 then (a0, a1, a2, a3, a4, a5, a6, a7) else
     let sgn = sign_of_int b4; a4 = a4 - ucast sgn; del0 = del0 - 4 * sar (sgn * b4) denshift
     in if sint del0 \<le> 0 then (a0, a1, a2, a3, a4, a5, a6, a7) else
     let sgn = sign_of_int b3; a3 = a3 - ucast sgn; del0 = del0 - 5 * sar (sgn * b3) denshift
     in if sint del0 \<le> 0 then (a0, a1, a2, a3, a4, a5, a6, a7) else
     let sgn = sign_of_int b2; a2 = a2 - ucast sgn; del0 = del0 - 6 * sar (sgn * b2) denshift
     in if sint del0 \<le> 0 then (a0, a1, a2, a3, a4, a5, a6, a7) else
     let sgn = sign_of_int b1; a1 = a1 - ucast sgn; del0 = del0 - 7 * sar (sgn * b1) denshift
     in if sint del0 \<le> 0 then (a0, a1, a2, a3, a4, a5, a6, a7) else
     (a0 - ucast (sign_of_int b0), a1, a2, a3, a4, a5, a6, a7))"

definition adapt8_neg :: "u32 \<Rightarrow> coef8 \<Rightarrow> u32 \<times> u32 \<times> u32 \<times> u32 \<times> u32 \<times> u32 \<times> u32 \<times> u32 \<Rightarrow> u32 \<Rightarrow> coef8" where
  "adapt8_neg denshift as bs del0 =
    (case (as, bs) of ((a0, a1, a2, a3, a4, a5, a6, a7), (b0, b1, b2, b3, b4, b5, b6, b7)) \<Rightarrow>
     let sgn = - sign_of_int b7; a7 = a7 - ucast sgn; del0 = del0 - 1 * sar (sgn * b7) denshift
     in if sint del0 \<ge> 0 then (a0, a1, a2, a3, a4, a5, a6, a7) else
     let sgn = - sign_of_int b6; a6 = a6 - ucast sgn; del0 = del0 - 2 * sar (sgn * b6) denshift
     in if sint del0 \<ge> 0 then (a0, a1, a2, a3, a4, a5, a6, a7) else
     let sgn = - sign_of_int b5; a5 = a5 - ucast sgn; del0 = del0 - 3 * sar (sgn * b5) denshift
     in if sint del0 \<ge> 0 then (a0, a1, a2, a3, a4, a5, a6, a7) else
     let sgn = - sign_of_int b4; a4 = a4 - ucast sgn; del0 = del0 - 4 * sar (sgn * b4) denshift
     in if sint del0 \<ge> 0 then (a0, a1, a2, a3, a4, a5, a6, a7) else
     let sgn = - sign_of_int b3; a3 = a3 - ucast sgn; del0 = del0 - 5 * sar (sgn * b3) denshift
     in if sint del0 \<ge> 0 then (a0, a1, a2, a3, a4, a5, a6, a7) else
     let sgn = - sign_of_int b2; a2 = a2 - ucast sgn; del0 = del0 - 6 * sar (sgn * b2) denshift
     in if sint del0 \<ge> 0 then (a0, a1, a2, a3, a4, a5, a6, a7) else
     let sgn = - sign_of_int b1; a1 = a1 - ucast sgn; del0 = del0 - 7 * sar (sgn * b1) denshift
     in if sint del0 \<ge> 0 then (a0, a1, a2, a3, a4, a5, a6, a7) else
     (a0 + ucast (sign_of_int b0), a1, a2, a3, a4, a5, a6, a7))"

definition unpc_step8 :: "u32 \<Rightarrow> u32 \<Rightarrow> u32 \<Rightarrow> u32 \<Rightarrow> u32 list \<Rightarrow> coef8 \<Rightarrow> (u32 \<times> coef8) option" where
  "unpc_step8 chanshift denshift del base h as = (case as of (a0, a1, a2, a3, a4, a5, a6, a7) \<Rightarrow> do {
     dh \<leftarrow> denhalf denshift;
     let b0 = base - h ! 0; let b1 = base - h ! 1; let b2 = base - h ! 2; let b3 = base - h ! 3;
     let b4 = base - h ! 4; let b5 = base - h ! 5; let b6 = base - h ! 6; let b7 = base - h ! 7;
     let sum1 = sar (dh - scast a0 * b0 - scast a1 * b1 - scast a2 * b2 - scast a3 * b3
                        - scast a4 * b4 - scast a5 * b5 - scast a6 * b6 - scast a7 * b7) denshift;
     let sg = sign_of_int del;
     v \<leftarrow> sext chanshift (del + (base + sum1));
     Some (v, if sint sg > 0 then adapt8_pos denshift as (b0, b1, b2, b3, b4, b5, b6, b7) del
              else if sint sg < 0 then adapt8_neg denshift as (b0, b1, b2, b3, b4, b5, b6, b7) del
              else as)
   })"

text \<open>
  The loop over the samples from \<^verbatim>\<open>j\<close> on, for any step.  \<^verbatim>\<open>lim - 1\<close> samples before \<^verbatim>\<open>j\<close> are the
  history, \<^verbatim>\<open>out[j - lim]\<close> the base.
\<close>

primrec unpc_loop ::
  "(u32 \<Rightarrow> u32 \<Rightarrow> u32 list \<Rightarrow> 's \<Rightarrow> (u32 \<times> 's) option) \<Rightarrow> nat \<Rightarrow> u32 list \<Rightarrow> nat \<Rightarrow> nat \<Rightarrow> u32 list \<Rightarrow> 's
     \<Rightarrow> (u32 list \<times> 's) option" where
  "unpc_loop step lim pc 0 j out st = Some (out, st)"
| "unpc_loop step lim pc (Suc n) j out st = do {
     require (lim \<le> j);
     base \<leftarrow> rd out (j - lim);
     h \<leftarrow> slice (j - lim + 1) (lim - 1) out;
     del \<leftarrow> rd pc j;
     (v, st) \<leftarrow> step del base (rev h) st;
     out \<leftarrow> wr out j v;
     unpc_loop step lim pc n (j + 1) out st
   }"

text \<open>\<^verbatim>\<open>unpc_block\<close>: the array and the coefficients it leaves.  When the two arrays are the same one (modes
  0 and 31), each residual is read before its place is written.\<close>

definition unpc_warmup :: "u32 list \<Rightarrow> u32 list \<Rightarrow> nat \<Rightarrow> u32 \<Rightarrow> u32 list option" where
  "unpc_warmup pc out n chanshift = do {
     p0 \<leftarrow> rd pc 0;
     out \<leftarrow> wr out 0 p0;
     ps \<leftarrow> slice 1 n pc;
     ys \<leftarrow> unpc_delta chanshift p0 ps;
     memcpy out 1 ys
   }"

definition unpc_block ::
  "u32 list \<Rightarrow> u32 list \<Rightarrow> int \<Rightarrow> u16 list \<Rightarrow> nat \<Rightarrow> u32 \<Rightarrow> u32 \<Rightarrow> (u32 list \<times> u16 list) option" where
  "unpc_block pc out num coefs numactive chanbits denshift = (
     let chanshift = 32 - chanbits;
         lim = numactive + 1;
         n = nat (num - int lim)
     in if numactive = 0
        then do {
          p0 \<leftarrow> rd pc 0;
          out \<leftarrow> wr out 0 p0;
          if num > 1 then do { ps \<leftarrow> slice 1 (nat (num - 1)) pc; out \<leftarrow> memcpy out 1 ps; Some (out, coefs) }
          else Some (out, coefs)
        }
        else if numactive = 31
        then do {
          out \<leftarrow> unpc_warmup pc out (nat (num - 1)) chanshift;
          Some (out, coefs)
        }
        else do {
          out \<leftarrow> unpc_warmup pc out numactive chanshift;
          require (numactive \<le> length coefs);
          if numactive = 4
          then do {
            (out, (a0, a1, a2, a3)) \<leftarrow> unpc_loop (unpc_step4 chanshift denshift) lim pc n lim out
              (coefs ! 0, coefs ! 1, coefs ! 2, coefs ! 3);
            coefs \<leftarrow> memcpy coefs 0 [a0, a1, a2, a3];
            Some (out, coefs)
          }
          else if numactive = 8
          then do {
            (out, (a0, a1, a2, a3, a4, a5, a6, a7)) \<leftarrow> unpc_loop (unpc_step8 chanshift denshift) lim pc n lim out
              (coefs ! 0, coefs ! 1, coefs ! 2, coefs ! 3, coefs ! 4, coefs ! 5, coefs ! 6, coefs ! 7);
            coefs \<leftarrow> memcpy coefs 0 [a0, a1, a2, a3, a4, a5, a6, a7];
            Some (out, coefs)
          }
          else unpc_loop (unpc_step numactive chanshift denshift) lim pc n lim out coefs
        })"

text \<open>The predictor without the unrolled cases.\<close>

definition unpc_general ::
  "u32 list \<Rightarrow> u32 list \<Rightarrow> int \<Rightarrow> u16 list \<Rightarrow> nat \<Rightarrow> u32 \<Rightarrow> u32 \<Rightarrow> (u32 list \<times> u16 list) option" where
  "unpc_general pc out num coefs numactive chanbits denshift = do {
     out \<leftarrow> unpc_warmup pc out numactive (32 - chanbits);
     require (numactive \<le> length coefs);
     unpc_loop (unpc_step numactive (32 - chanbits) denshift) (numactive + 1) pc (nat (num - int (numactive + 1)))
       (numactive + 1) out coefs
   }"

section \<open>Encoding by prediction\<close>

text \<open>The residuals of the format: what each sample leaves after the prediction from the ones before it.\<close>

definition wrap_sample :: "u32 \<Rightarrow> u32 \<Rightarrow> u32" where
  "wrap_sample chanshift x = sar (push_bit (unat chanshift) x) chanshift"

definition pc_predict :: "nat \<Rightarrow> u32 \<Rightarrow> u32 \<Rightarrow> u32 list \<Rightarrow> u16 list \<Rightarrow> u32" where
  "pc_predict n denshift base h coefs =
     base + sar (unpc_sum base h coefs n + push_bit (unat (denshift - 1)) 1) denshift"

definition pc_adapt :: "nat \<Rightarrow> u32 \<Rightarrow> u32 \<Rightarrow> u32 list \<Rightarrow> u16 list \<Rightarrow> u32 \<Rightarrow> u16 list" where
  "pc_adapt n denshift base h coefs del =
     (if sint (sign_of_int del) > 0 then adapt_pos n denshift base h n coefs del
      else if sint (sign_of_int del) < 0 then adapt_neg n denshift base h n coefs del
      else coefs)"

primrec pc_delta :: "u32 \<Rightarrow> u32 \<Rightarrow> u32 list \<Rightarrow> u32 list" where
  "pc_delta chanshift prev [] = []"
| "pc_delta chanshift prev (x # xs) = wrap_sample chanshift (x - prev) # pc_delta chanshift x xs"

primrec pc_code :: "nat \<Rightarrow> u32 \<Rightarrow> u32 \<Rightarrow> u32 list \<Rightarrow> u16 list \<Rightarrow> u32 list \<Rightarrow> u32 list" where
  "pc_code n chanshift denshift hs coefs [] = []"
| "pc_code n chanshift denshift hs coefs (x # xs) = (
     let del = wrap_sample chanshift (x - pc_predict n denshift (hs ! n) (take n hs) coefs)
     in del # pc_code n chanshift denshift (x # hs) (pc_adapt n denshift (hs ! n) (take n hs) coefs del) xs)"

definition pc_block :: "u32 list \<Rightarrow> u16 list \<Rightarrow> nat \<Rightarrow> u32 \<Rightarrow> u32 \<Rightarrow> u32 list" where
  "pc_block xs coefs n chanbits denshift =
     (if n = 0 then xs
      else if n = 31 then hd xs # pc_delta (32 - chanbits) (hd xs) (tl xs)
      else hd xs # pc_delta (32 - chanbits) (hd xs) (take n (tl xs)) @
        pc_code n (32 - chanbits) denshift (rev (take (n + 1) xs)) coefs (drop (n + 1) xs))"

section \<open>The unrolled cases compute the general one\<close>

text \<open>A simulation between two steps lifts to the loop.\<close>

lemma unpc_loop_simulates:
  assumes step: "\<And>del base h st. length h = lim - 1 \<Longrightarrow>
      step' del base h (f st) = map_option (map_prod id f) (step del base h st)"
  shows "unpc_loop step' lim pc n j out (f st) = map_option (map_prod id f) (unpc_loop step lim pc n j out st)"
proof (induction n arbitrary: j out st)
  case (Suc n)
  have len: "slice (j - lim + 1) (lim - 1) out = Some h \<Longrightarrow> length (rev h) = lim - 1" for h
    using slice_length by simp
  have body: "(step' del base h (f st) \<bind> (\<lambda>(v, st). wr out j v \<bind> (\<lambda>out. unpc_loop step' lim pc n (j + 1) out st))) =
      map_option (map_prod id f)
        (step del base h st \<bind> (\<lambda>(v, st). wr out j v \<bind> (\<lambda>out. unpc_loop step lim pc n (j + 1) out st)))"
    if "length h = lim - 1" for del base h
  proof (cases "step del base h st")
    case None
    then show ?thesis by (simp add: step [OF that])
  next
    case (Some r)
    then show ?thesis
      by (cases r; cases "wr out j (fst r)") (simp_all add: step [OF that] Suc.IH id_def)
  qed
  show ?case
    by (simp only: unpc_loop.simps map_option_bind o_def)
      (rule Option.bind_cong [OF refl], rule Option.bind_cong [OF refl], rule Option.bind_cong [OF refl],
       rule Option.bind_cong [OF refl], rule body [unfolded map_option_bind o_def], erule len)
qed simp

lemma take_bit_minus_mono:
  fixes x :: int
  assumes "m \<le> n"
  shows "take_bit m (- take_bit n x) = take_bit m (- x)"
proof -
  have "take_bit m (- take_bit n x) = take_bit m (- take_bit m (take_bit n x))"
    by (rule take_bit_minus [symmetric])
  also have "\<dots> = take_bit m (- x)"
    using assms by (simp add: take_bit_minus)
  finally show ?thesis .
qed

lemma ucast_minus_16: "(ucast (- x :: u32) :: u16) = - ucast x"
  by transfer (simp add: take_bit_minus_mono)

lemma upt_4: "[0..<4] = [0, 1, 2, 3]"
  by (simp add: upt_rec)

lemma unpc_sum_4:
  "unpc_sum base h ([a0, a1, a2, a3] @ cs) 4 + dh =
    dh - scast a0 * (base - h ! 0) - scast a1 * (base - h ! 1) - scast a2 * (base - h ! 2) - scast a3 * (base - h ! 3)"
  by (simp add: unpc_sum_def upt_4 right_diff_distrib)

lemma adapt_pos_4:
  "adapt_pos 4 denshift base h 4 ([a0, a1, a2, a3] @ cs) del =
    (case adapt4_pos denshift (a0, a1, a2, a3) (base - h ! 0, base - h ! 1, base - h ! 2, base - h ! 3) del of
      (a0, a1, a2, a3) \<Rightarrow> [a0, a1, a2, a3] @ cs)"
  by (simp add: adapt4_pos_def eval_nat_numeral Let_def)

lemma adapt_neg_4:
  "adapt_neg 4 denshift base h 4 ([a0, a1, a2, a3] @ cs) del =
    (case adapt4_neg denshift (a0, a1, a2, a3) (base - h ! 0, base - h ! 1, base - h ! 2, base - h ! 3) del of
      (a0, a1, a2, a3) \<Rightarrow> [a0, a1, a2, a3] @ cs)"
  by (simp add: adapt4_neg_def eval_nat_numeral Let_def ucast_minus_16)

lemma unpc_step4_general:
  "unpc_step 4 chanshift denshift del base h ([a0, a1, a2, a3] @ cs) =
    map_option (map_prod id (\<lambda>(a0, a1, a2, a3). [a0, a1, a2, a3] @ cs))
      (unpc_step4 chanshift denshift del base h (a0, a1, a2, a3))"
  by (simp only: unpc_step_def unpc_step4_def prod.case Let_def map_option_bind o_def unpc_sum_4 adapt_pos_4 adapt_neg_4)
    (auto intro!: Option.bind_cong)

lemma upt_8: "[0..<8] = [0, 1, 2, 3, 4, 5, 6, 7]"
  by (simp add: upt_rec)

lemma unpc_sum_8:
  "unpc_sum base h ([a0, a1, a2, a3, a4, a5, a6, a7] @ cs) 8 + dh =
    dh - scast a0 * (base - h ! 0) - scast a1 * (base - h ! 1) - scast a2 * (base - h ! 2) - scast a3 * (base - h ! 3) - scast a4 * (base - h ! 4) - scast a5 * (base - h ! 5) - scast a6 * (base - h ! 6) - scast a7 * (base - h ! 7)"
  by (simp add: unpc_sum_def upt_8 right_diff_distrib)

lemma adapt_pos_8:
  "adapt_pos 8 denshift base h 8 ([a0, a1, a2, a3, a4, a5, a6, a7] @ cs) del =
    (case adapt8_pos denshift (a0, a1, a2, a3, a4, a5, a6, a7) (base - h ! 0, base - h ! 1, base - h ! 2, base - h ! 3, base - h ! 4, base - h ! 5, base - h ! 6, base - h ! 7) del of
      (a0, a1, a2, a3, a4, a5, a6, a7) \<Rightarrow> [a0, a1, a2, a3, a4, a5, a6, a7] @ cs)"
  by (simp add: adapt8_pos_def eval_nat_numeral Let_def)

lemma adapt_neg_8:
  "adapt_neg 8 denshift base h 8 ([a0, a1, a2, a3, a4, a5, a6, a7] @ cs) del =
    (case adapt8_neg denshift (a0, a1, a2, a3, a4, a5, a6, a7) (base - h ! 0, base - h ! 1, base - h ! 2, base - h ! 3, base - h ! 4, base - h ! 5, base - h ! 6, base - h ! 7) del of
      (a0, a1, a2, a3, a4, a5, a6, a7) \<Rightarrow> [a0, a1, a2, a3, a4, a5, a6, a7] @ cs)"
  by (simp add: adapt8_neg_def eval_nat_numeral Let_def ucast_minus_16)

lemma unpc_step8_general:
  "unpc_step 8 chanshift denshift del base h ([a0, a1, a2, a3, a4, a5, a6, a7] @ cs) =
    map_option (map_prod id (\<lambda>(a0, a1, a2, a3, a4, a5, a6, a7). [a0, a1, a2, a3, a4, a5, a6, a7] @ cs))
      (unpc_step8 chanshift denshift del base h (a0, a1, a2, a3, a4, a5, a6, a7))"
  by (simp only: unpc_step_def unpc_step8_def prod.case Let_def map_option_bind o_def unpc_sum_8 adapt_pos_8 adapt_neg_8)
    (auto intro!: Option.bind_cong)


lemma take_4:
  assumes "4 \<le> length coefs"
  shows "[coefs ! 0, coefs ! 1, coefs ! 2, coefs ! 3] @ drop 4 coefs = coefs"
proof -
  have "[coefs ! 0, coefs ! 1, coefs ! 2, coefs ! 3] = take 4 coefs"
    using assms by (intro nth_equalityI) (auto simp: less_Suc_eq numeral_eq_Suc)
  then show ?thesis by simp
qed

lemma unpc_loop_4:
  assumes "4 \<le> length coefs"
  shows "unpc_loop (unpc_step 4 chanshift denshift) lim pc n j out coefs =
    map_option (map_prod id (\<lambda>(a0, a1, a2, a3). [a0, a1, a2, a3] @ drop 4 coefs))
      (unpc_loop (unpc_step4 chanshift denshift) lim pc n j out (coefs ! 0, coefs ! 1, coefs ! 2, coefs ! 3))"
  using unpc_loop_simulates [where f = "\<lambda>(a0, a1, a2, a3). [a0, a1, a2, a3] @ drop 4 coefs"
      and step = "unpc_step4 chanshift denshift" and step' = "unpc_step 4 chanshift denshift"
      and st = "(coefs ! 0, coefs ! 1, coefs ! 2, coefs ! 3)"] unpc_step4_general
  by (simp add: take_4 [OF assms, simplified] split_def)

lemma take_8:
  assumes "8 \<le> length coefs"
  shows "[coefs ! 0, coefs ! 1, coefs ! 2, coefs ! 3, coefs ! 4, coefs ! 5, coefs ! 6, coefs ! 7] @ drop 8 coefs = coefs"
proof -
  have "[coefs ! 0, coefs ! 1, coefs ! 2, coefs ! 3, coefs ! 4, coefs ! 5, coefs ! 6, coefs ! 7] = take 8 coefs"
    using assms by (intro nth_equalityI) (auto simp: less_Suc_eq numeral_eq_Suc)
  then show ?thesis by simp
qed

lemma unpc_loop_8:
  assumes "8 \<le> length coefs"
  shows "unpc_loop (unpc_step 8 chanshift denshift) lim pc n j out coefs =
    map_option (map_prod id (\<lambda>(a0, a1, a2, a3, a4, a5, a6, a7). [a0, a1, a2, a3, a4, a5, a6, a7] @ drop 8 coefs))
      (unpc_loop (unpc_step8 chanshift denshift) lim pc n j out (coefs ! 0, coefs ! 1, coefs ! 2, coefs ! 3, coefs ! 4, coefs ! 5, coefs ! 6, coefs ! 7))"
  using unpc_loop_simulates [where f = "\<lambda>(a0, a1, a2, a3, a4, a5, a6, a7). [a0, a1, a2, a3, a4, a5, a6, a7] @ drop 8 coefs"
      and step = "unpc_step8 chanshift denshift" and step' = "unpc_step 8 chanshift denshift"
      and st = "(coefs ! 0, coefs ! 1, coefs ! 2, coefs ! 3, coefs ! 4, coefs ! 5, coefs ! 6, coefs ! 7)"] unpc_step8_general
  by (simp add: take_8 [OF assms, simplified] split_def)

lemma unpc_block_unrolled:
  assumes "numactive \<noteq> 0" and "numactive \<noteq> 31"
  shows "unpc_block pc out num coefs numactive chanbits denshift =
    unpc_general pc out num coefs numactive chanbits denshift"
proof -
  have finish4: "(r \<bind> (\<lambda>(out, (a0, a1, a2, a3)). memcpy coefs 0 [a0, a1, a2, a3] \<bind> (\<lambda>coefs. Some (out, coefs)))) =
      map_option (map_prod id (\<lambda>(a0, a1, a2, a3). [a0, a1, a2, a3] @ drop 4 coefs)) r"
    if "4 \<le> length coefs" for r :: "(u32 list \<times> u16 \<times> u16 \<times> u16 \<times> u16) option"
    using that by (cases r) (auto simp: memcpy_def eval_nat_numeral)
  have finish8: "(r \<bind> (\<lambda>(out, (a0, a1, a2, a3, a4, a5, a6, a7)).
        memcpy coefs 0 [a0, a1, a2, a3, a4, a5, a6, a7] \<bind> (\<lambda>coefs. Some (out, coefs)))) =
      map_option (map_prod id (\<lambda>(a0, a1, a2, a3, a4, a5, a6, a7). [a0, a1, a2, a3, a4, a5, a6, a7] @ drop 8 coefs)) r"
    if "8 \<le> length coefs" for r :: "(u32 list \<times> coef8) option"
    using that by (cases r) (auto simp: memcpy_def eval_nat_numeral)
  consider "\<not> numactive \<le> length coefs" | "numactive \<le> length coefs" "numactive = 4"
    | "numactive \<le> length coefs" "numactive = 8" | "numactive \<noteq> 4" "numactive \<noteq> 8" by blast
  then show ?thesis
  proof cases
    case 1
    then show ?thesis using assms by (simp add: unpc_block_def unpc_general_def)
  next
    case 2
    then show ?thesis by (simp add: unpc_block_def unpc_general_def Let_def finish4 unpc_loop_4)
  next
    case 3
    then show ?thesis by (simp add: unpc_block_def unpc_general_def Let_def finish8 unpc_loop_8)
  next
    case 4
    then show ?thesis using assms by (simp add: unpc_block_def unpc_general_def Let_def)
  qed
qed

text \<open>C27: The loops of \<^verbatim>\<open>unpc_block\<close> unrolled for four and eight coefficients, with the coefficients in
  registers, negated differences and early \<^verbatim>\<open>continue\<close>s, compute what the general loop computes, samples and
  adapted coefficients, for every input.\<close>

theorem unpc_block_general:
  assumes "numactive \<noteq> 0" and "numactive \<noteq> 31"
  shows "unpc_block pc out num coefs numactive chanbits denshift =
    unpc_general pc out num coefs numactive chanbits denshift"
  using assms by (rule unpc_block_unrolled)

lemma unpc_block_general_witness:
  "unpc_block [5, 1, 1, 1, 1, 1, 1] (replicate 7 0) 7 [160, -190, 170, -130] 4 16 9 =
    unpc_general [5, 1, 1, 1, 1, 1, 1] (replicate 7 0) 7 [160, -190, 170, -130] 4 16 9"
  by (rule unpc_block_general) simp_all

section \<open>Predicting is lossless\<close>

lemma wrap_sample_absorb:
  assumes "c < 32"
  shows "wrap_sample c (wrap_sample c a + b) = wrap_sample c (a + b)"
proof -
  have c: "unat c < 32" using assms by (simp add: word_less_nat_alt)
  have "push_bit (unat c) (wrap_sample c a) = push_bit (unat c) a"
    unfolding wrap_sample_def sar_def using c
    by (intro bit_eqI) (auto simp: bit_simps)
  then have "push_bit (unat c) (wrap_sample c a + b) = push_bit (unat c) (a + b)"
    by (simp only: push_bit_add)
  then show ?thesis by (simp only: wrap_sample_def)
qed

lemma wrap_sample_restore:
  assumes "c < 32" and "wrap_sample c x = x"
  shows "wrap_sample c (wrap_sample c (x - p) + p) = x"
  using assms by (simp add: wrap_sample_absorb)

lemma sext_wrap: "c < 32 \<Longrightarrow> sext c x = Some (wrap_sample c x)"
  by (simp add: sext_def wrap_sample_def)

lemma length_pc_delta [simp]: "length (pc_delta c p xs) = length xs"
  by (induction xs arbitrary: p) auto

lemma length_pc_code [simp]: "length (pc_code n c d hs coefs xs) = length xs"
  by (induction xs arbitrary: hs coefs) (auto simp: Let_def)

lemma unpc_delta_pc_delta:
  assumes "c < 32" and "\<forall>x \<in> set xs. wrap_sample c x = x"
  shows "unpc_delta c p (pc_delta c p xs) = Some xs"
  using assms(2) by (induction xs arbitrary: p) (auto simp: sext_wrap assms(1) wrap_sample_restore)

lemma unpc_warmup_delta:
  assumes "c < 32" and "\<forall>x \<in> set xs. wrap_sample c x = x" and "length xs < length out"
  shows "unpc_warmup (x0 # pc_delta c x0 xs @ pc) out (length xs) c =
    Some (x0 # xs @ drop (Suc (length xs)) out)"
  using assms by (cases out) (auto simp: unpc_warmup_def slice_def memcpy_def unpc_delta_pc_delta)

lemma unpc_step_code:
  assumes "c < 32" and "0 < d" "d < 32" and "wrap_sample c x = x"
  shows "unpc_step n c d (wrap_sample c (x - pc_predict n d base h coefs)) base h coefs =
    Some (x, pc_adapt n d base h coefs (wrap_sample c (x - pc_predict n d base h coefs)))"
  using assms wrap_sample_restore [OF assms(1,4), of "pc_predict n d base h coefs"]
  by (simp add: unpc_step_def denhalf_def sext_wrap pc_adapt_def pc_predict_def Let_def)

lemma pc_adapt_length [simp]: "length (pc_adapt n d base h coefs del) = length coefs"
proof -
  have "length (adapt_pos n d base h k coefs del) = length coefs" for k
    by (induction k arbitrary: coefs del) (auto simp: Let_def)
  moreover have "length (adapt_neg n d base h k coefs del) = length coefs" for k
    by (induction k arbitrary: coefs del) (auto simp: Let_def)
  ultimately show ?thesis by (simp add: pc_adapt_def)
qed

lemma unpc_loop_code:
  assumes "c < 32" and "0 < d" "d < 32"
  shows "\<lbrakk>\<forall>x \<in> set xs. wrap_sample c x = x; n < length hs; drop (length hs) pc = pc_code n c d hs coefs xs @ tail;
      length xs \<le> length rest\<rbrakk> \<Longrightarrow>
    \<exists>coefs'. unpc_loop (unpc_step n c d) (n + 1) pc (length xs) (length hs) (rev hs @ rest) coefs =
      Some (rev hs @ xs @ drop (length xs) rest, coefs') \<and> length coefs' = length coefs"
proof (induction xs arbitrary: hs coefs rest)
  case (Cons x xs)
  obtain r rest' where rest: "rest = r # rest'" using Cons.prems(4) by (cases rest) auto
  let ?del = "wrap_sample c (x - pc_predict n d (hs ! n) (take n hs) coefs)"
  let ?coefs = "pc_adapt n d (hs ! n) (take n hs) coefs ?del"
  have pc: "drop (length hs) pc = ?del # pc_code n c d (x # hs) ?coefs xs @ tail"
    using Cons.prems(3) by (simp add: Let_def)
  have len: "length hs < length pc"
    using arg_cong [OF pc, of length] by simp
  have del: "pc ! length hs = ?del" and next_pc: "drop (length (x # hs)) pc = pc_code n c d (x # hs) ?coefs xs @ tail"
    using pc Cons_nth_drop_Suc [OF len] by auto
  have base: "rd (rev hs @ rest) (length hs - (n + 1)) = Some (hs ! n)"
    proof -
    have "length hs - Suc n < length hs" using Cons.prems(2) by linarith
    then show ?thesis using Cons.prems(2) by (simp add: nth_append rev_nth)
  qed
  have hist: "slice (length hs - (n + 1) + 1) (n + 1 - 1) (rev hs @ rest) = Some (rev (take n hs))"
    using Cons.prems(2) by (simp add: slice_def rev_take Suc_diff_Suc)
  obtain coefs' where IH: "unpc_loop (unpc_step n c d) (n + 1) pc (length xs) (length (x # hs)) (rev (x # hs) @ rest') ?coefs =
      Some (rev (x # hs) @ xs @ drop (length xs) rest', coefs')" "length coefs' = length ?coefs"
    using Cons.IH [OF _ _ next_pc, of rest'] Cons.prems rest by fastforce
  have step: "unpc_step n c d ?del (hs ! n) (take n hs) coefs = Some (x, ?coefs)"
    using unpc_step_code [OF assms] Cons.prems(1) by simp
  have wr: "wr (rev hs @ rest) (length hs) x = Some (rev (x # hs) @ rest')"
    by (simp add: rest list_update_append)
  have req: "require (n + 1 \<le> length hs) = Some ()" and residual: "rd pc (length hs) = Some ?del"
    using Cons.prems(2) len del by simp_all
  have "unpc_loop (unpc_step n c d) (n + 1) pc (Suc (length xs)) (length hs) (rev hs @ rest) coefs =
      unpc_loop (unpc_step n c d) (n + 1) pc (length xs) (length hs + 1) (rev (x # hs) @ rest') ?coefs"
    by (simp only: unpc_loop.simps req base hist residual rev_rev_ident step wr Option.bind.simps prod.case)
  with IH rest show ?case by simp
qed simp

lemma unpc_block_code:
  assumes "0 < chanbits" and "chanbits \<le> 32" and "xs \<noteq> []"
    and "\<forall>x \<in> set xs. wrap_sample (32 - chanbits) x = x"
    and "n = 0 \<or> n = 31 \<or> n < length xs \<and> n \<le> length coefs \<and> 0 < denshift \<and> denshift < 32"
    and "length xs \<le> length out"
  shows "\<exists>coefs'. unpc_block (pc_block xs coefs n chanbits denshift @ tail) out (int (length xs)) coefs n chanbits denshift =
      Some (xs @ drop (length xs) out, coefs') \<and> length coefs' = length coefs"
proof -
  obtain x ys where xs: "xs = x # ys" using assms(3) by (cases xs) auto
  have c: "32 - chanbits < 32"
    using assms(1,2) by unat_arith
  have fits: "\<forall>x \<in> set ys. wrap_sample (32 - chanbits) x = x" using assms(4) xs by simp
  have room: "length ys < length out" using assms(6) xs by simp
  consider "n = 0" | "n = 31" | "n \<noteq> 0" "n \<noteq> 31" "n < length xs" "n \<le> length coefs" "0 < denshift" "denshift < 32"
    using assms(5) by blast
  then show ?thesis
  proof cases
    case 1
    have "nat (1 + int k) = Suc k" for k by simp
    with 1 show ?thesis
      using assms(6) xs by (cases ys; cases out) (auto simp: unpc_block_def pc_block_def slice_def memcpy_def Cons_nth_drop_Suc take_Suc_conv_app_nth)
  next
    case 2
    then show ?thesis
      using unpc_warmup_delta [OF c fits room, of x tail] xs by (simp add: unpc_block_def pc_block_def)
  next
    case 3
    let ?c = "32 - chanbits"
    let ?pc = "pc_block xs coefs n chanbits denshift @ tail"
    have pc: "?pc = x # pc_delta ?c x (take n ys) @ pc_code n ?c denshift (rev (take (n + 1) xs)) coefs (drop (n + 1) xs) @ tail"
      using 3 xs by (simp add: pc_block_def)
    have n: "length (take n ys) = n" using 3 xs by simp
    have warm: "unpc_warmup ?pc out n ?c = Some (take (n + 1) xs @ drop (Suc n) out)"
    proof -
      have "\<forall>x \<in> set (take n ys). wrap_sample ?c x = x" using fits by (auto dest: in_set_takeD)
      then show ?thesis
        using unpc_warmup_delta [OF c, of "take n ys" out x] room n xs 3 unfolding pc by simp
    qed
    let ?hs = "rev (take (n + 1) xs)"
    have hs: "length ?hs = n + 1" "rev ?hs = take (n + 1) xs" using 3 by auto
    have "drop (length ?hs) ?pc = pc_code n ?c denshift ?hs coefs (drop (n + 1) xs) @ tail"
      using n unfolding pc hs by simp
    then obtain coefs' where "unpc_loop (unpc_step n ?c denshift) (n + 1) ?pc (length (drop (n + 1) xs)) (length ?hs)
        (rev ?hs @ drop (Suc n) out) coefs =
        Some (rev ?hs @ drop (n + 1) xs @ drop (length (drop (n + 1) xs)) (drop (Suc n) out), coefs')"
      "length coefs' = length coefs"
      using unpc_loop_code [OF c 3(5,6), where hs = ?hs and n = n and xs = "drop (n + 1) xs" and rest = "drop (Suc n) out" and pc = ?pc and coefs = coefs]
        assms(4,6) hs by (fastforce dest: in_set_dropD)
    moreover have "drop (length (drop (n + 1) xs)) (drop (Suc n) out) = drop (length xs) out"
      using assms(3) 3 by (simp add: xs)
    moreover have "nat (int (length xs) - int (n + 1)) = length (drop (n + 1) xs)" by simp
    ultimately show ?thesis
      using 3 warm hs by (simp add: unpc_block_unrolled unpc_general_def append_take_drop_id del: drop_drop)
  qed
qed

text \<open>C26: Predicting is lossless: from the residuals that an encoder with the same coefficients leaves,
  \<^verbatim>\<open>unpc_block\<close> recomputes every sample that fits the channel's width, in each of its modes, and leaves the rest
  of the output buffer alone.\<close>

theorem unpc_block_lossless:
  assumes "0 < chanbits" and "chanbits \<le> 32" and "xs \<noteq> []"
    and "\<forall>x \<in> set xs. wrap_sample (32 - chanbits) x = x"
    and "n = 0 \<or> n = 31 \<or> n < length xs \<and> n \<le> length coefs \<and> 0 < denshift \<and> denshift < 32"
    and "length xs \<le> length out"
  shows "\<exists>coefs'. unpc_block (pc_block xs coefs n chanbits denshift) out (int (length xs)) coefs n chanbits denshift =
      Some (xs @ drop (length xs) out, coefs') \<and> length coefs' = length coefs"
  using unpc_block_code [OF assms, of "[]"] by simp

lemma unpc_block_lossless_witness:
  "\<exists>coefs'. unpc_block (pc_block [5, 7, 3, 9, -12, 40, 8] [160, -190, 170, -130] 4 16 9) (replicate 8 1)
      (int (length [5 :: u32, 7, 3, 9, -12, 40, 8])) [160, -190, 170, -130] 4 16 9 =
      Some ([5, 7, 3, 9, -12, 40, 8] @ drop (length [5 :: u32, 7, 3, 9, -12, 40, 8]) (replicate 8 1), coefs') \<and>
    length coefs' = length [160 :: u16, -190, 170, -130]"
proof (rule unpc_block_lossless)
  show "\<forall>x \<in> set [5, 7, 3, 9, -12, 40, 8]. wrap_sample (32 - 16) x = x"
    by code_simp
qed simp_all

end
