(* ===== verification/Alac_Matrix.thy ===== *)
theory Alac_Matrix
  imports Alac_Predictor
begin

text \<open>
  \<^verbatim>\<open>alac/matrix_dec.c\<close>: un-mixing a pair of channels and writing the samples to the interleaved output.
  The output is the byte buffer the caller passed, written little-endian (\<^verbatim>\<open>LBYTE\<close> is 0 on the targets of
  the app) from a byte offset on; \<^verbatim>\<open>stride\<close> is the number of channels.  The theorems say that un-mixing
  undoes the mixing of the format and that the bytes written are those of the samples.
\<close>

unbundle bit_operations_syntax

section \<open>Definitions\<close>

text \<open>The stores \<^verbatim>\<open>op[LBYTE]\<close>, \<^verbatim>\<open>op[MBYTE]\<close>, \<^verbatim>\<open>op[HBYTE]\<close>, and those of 16 and 32 bits.\<close>

definition le16 :: "u16 \<Rightarrow> byte list" where
  "le16 x = [ucast x, ucast (drop_bit 8 x)]"

definition le24 :: "u32 \<Rightarrow> byte list" where
  "le24 x = [ucast (x AND 0xff), ucast (sar x 8 AND 0xff), ucast (sar x 16 AND 0xff)]"

definition le32 :: "u32 \<Rightarrow> byte list" where
  "le32 x = [ucast x, ucast (drop_bit 8 x), ucast (drop_bit 16 x), ucast (drop_bit 24 x)]"

text \<open>The loop over the samples: what sample j contributes is stored at \<^verbatim>\<open>op\<close>, which then advances.\<close>

primrec out_frames :: "(nat \<Rightarrow> byte list option) \<Rightarrow> nat \<Rightarrow> nat \<Rightarrow> nat \<Rightarrow> nat \<Rightarrow> byte list \<Rightarrow> byte list option" where
  "out_frames f step 0 j p out = Some out"
| "out_frames f step (Suc n) j p out = do {
     bs \<leftarrow> f j;
     out \<leftarrow> memcpy out p bs;
     out_frames f step n (j + 1) (p + step) out
   }"

text \<open>The matrixed pair; a shift by 32 or more is undefined.\<close>

definition unmix_lr :: "u32 \<Rightarrow> u32 \<Rightarrow> u32 \<Rightarrow> u32 \<Rightarrow> (u32 \<times> u32) option" where
  "unmix_lr mixbits mixres u v = do {
     require (mixbits < 32);
     let l = u + v - sar (mixres * v) mixbits;
     Some (l, l - v)
   }"

definition unmix16 ::
  "u32 list \<Rightarrow> u32 list \<Rightarrow> byte list \<Rightarrow> nat \<Rightarrow> nat \<Rightarrow> nat \<Rightarrow> u32 \<Rightarrow> u32 \<Rightarrow> byte list option" where
  "unmix16 u v out p stride numSamples mixbits mixres =
     (if mixres \<noteq> 0
      then out_frames (\<lambda>j. do {
          uj \<leftarrow> rd u j;
          vj \<leftarrow> rd v j;
          (l, r) \<leftarrow> unmix_lr mixbits mixres uj vj;
          Some (le16 (ucast l) @ le16 (ucast r))
        }) (2 * stride) numSamples 0 p out
      else out_frames (\<lambda>j. do {
          uj \<leftarrow> rd u j;
          vj \<leftarrow> rd v j;
          Some (le16 (ucast uj) @ le16 (ucast vj))
        }) (2 * stride) numSamples 0 p out)"

definition unmix20 ::
  "u32 list \<Rightarrow> u32 list \<Rightarrow> byte list \<Rightarrow> nat \<Rightarrow> nat \<Rightarrow> nat \<Rightarrow> u32 \<Rightarrow> u32 \<Rightarrow> byte list option" where
  "unmix20 u v out p stride numSamples mixbits mixres =
     (if mixres \<noteq> 0
      then out_frames (\<lambda>j. do {
          uj \<leftarrow> rd u j;
          vj \<leftarrow> rd v j;
          (l, r) \<leftarrow> unmix_lr mixbits mixres uj vj;
          Some (le24 (push_bit 4 l) @ le24 (push_bit 4 r))
        }) (3 * stride) numSamples 0 p out
      else out_frames (\<lambda>j. do {
          uj \<leftarrow> rd u j;
          vj \<leftarrow> rd v j;
          Some (le24 (push_bit 4 uj) @ le24 (push_bit 4 vj))
        }) (3 * stride) numSamples 0 p out)"

text \<open>Low bytes that were shifted off come back from the shift buffer, two per pair.\<close>

definition unshift :: "nat \<Rightarrow> u32 \<Rightarrow> u16 \<Rightarrow> u32" where
  "unshift shift x s = push_bit shift x OR ucast s"

definition unmix24 ::
  "u32 list \<Rightarrow> u32 list \<Rightarrow> byte list \<Rightarrow> nat \<Rightarrow> nat \<Rightarrow> nat \<Rightarrow> u32 \<Rightarrow> u32 \<Rightarrow> u16 list \<Rightarrow> nat \<Rightarrow> byte list option" where
  "unmix24 u v out p stride numSamples mixbits mixres shiftUV bytesShifted = (
     let shift = bytesShifted * 8
     in if mixres \<noteq> 0
        then if bytesShifted \<noteq> 0
          then out_frames (\<lambda>j. do {
              uj \<leftarrow> rd u j;
              vj \<leftarrow> rd v j;
              (l, r) \<leftarrow> unmix_lr mixbits mixres uj vj;
              s0 \<leftarrow> rd shiftUV (2 * j + 0);
              s1 \<leftarrow> rd shiftUV (2 * j + 1);
              Some (le24 (unshift shift l s0) @ le24 (unshift shift r s1))
            }) (3 * stride) numSamples 0 p out
          else out_frames (\<lambda>j. do {
              uj \<leftarrow> rd u j;
              vj \<leftarrow> rd v j;
              (l, r) \<leftarrow> unmix_lr mixbits mixres uj vj;
              Some (le24 l @ le24 r)
            }) (3 * stride) numSamples 0 p out
        else if bytesShifted \<noteq> 0
          then out_frames (\<lambda>j. do {
              uj \<leftarrow> rd u j;
              vj \<leftarrow> rd v j;
              s0 \<leftarrow> rd shiftUV (2 * j + 0);
              s1 \<leftarrow> rd shiftUV (2 * j + 1);
              Some (le24 (unshift shift uj s0) @ le24 (unshift shift vj s1))
            }) (3 * stride) numSamples 0 p out
          else out_frames (\<lambda>j. do {
              uj \<leftarrow> rd u j;
              vj \<leftarrow> rd v j;
              Some (le24 uj @ le24 vj)
            }) (3 * stride) numSamples 0 p out)"

definition unmix32 ::
  "u32 list \<Rightarrow> u32 list \<Rightarrow> byte list \<Rightarrow> nat \<Rightarrow> nat \<Rightarrow> nat \<Rightarrow> u32 \<Rightarrow> u32 \<Rightarrow> u16 list \<Rightarrow> nat \<Rightarrow> byte list option" where
  "unmix32 u v out p stride numSamples mixbits mixres shiftUV bytesShifted = (
     let shift = bytesShifted * 8
     in if mixres \<noteq> 0
        then out_frames (\<lambda>j. do {
            lt \<leftarrow> rd u j;
            rt \<leftarrow> rd v j;
            (l, r) \<leftarrow> unmix_lr mixbits mixres lt rt;
            s0 \<leftarrow> rd shiftUV (2 * j + 0);
            s1 \<leftarrow> rd shiftUV (2 * j + 1);
            Some (le32 (unshift shift l s0) @ le32 (unshift shift r s1))
          }) (4 * stride) numSamples 0 p out
        else if bytesShifted = 0
          then out_frames (\<lambda>j. do {
              uj \<leftarrow> rd u j;
              vj \<leftarrow> rd v j;
              Some (le32 uj @ le32 vj)
            }) (4 * stride) numSamples 0 p out
          else out_frames (\<lambda>j. do {
              uj \<leftarrow> rd u j;
              vj \<leftarrow> rd v j;
              s0 \<leftarrow> rd shiftUV (2 * j + 0);
              s1 \<leftarrow> rd shiftUV (2 * j + 1);
              Some (le32 (unshift shift uj s0) @ le32 (unshift shift vj s1))
            }) (4 * stride) numSamples 0 p out)"

definition copyPredictorTo24 :: "u32 list \<Rightarrow> byte list \<Rightarrow> nat \<Rightarrow> nat \<Rightarrow> nat \<Rightarrow> byte list option" where
  "copyPredictorTo24 inp out p stride numSamples =
     out_frames (\<lambda>j. do { val \<leftarrow> rd inp j; Some (le24 val) }) (stride * 3) numSamples 0 p out"

definition copyPredictorTo24Shift ::
  "u32 list \<Rightarrow> u16 list \<Rightarrow> byte list \<Rightarrow> nat \<Rightarrow> nat \<Rightarrow> nat \<Rightarrow> nat \<Rightarrow> byte list option" where
  "copyPredictorTo24Shift inp shift out p stride numSamples bytesShifted =
     out_frames (\<lambda>j. do {
         val \<leftarrow> rd inp j;
         s \<leftarrow> rd shift j;
         Some (le24 (unshift (bytesShifted * 8) val s))
       }) (stride * 3) numSamples 0 p out"

definition copyPredictorTo20 :: "u32 list \<Rightarrow> byte list \<Rightarrow> nat \<Rightarrow> nat \<Rightarrow> nat \<Rightarrow> byte list option" where
  "copyPredictorTo20 inp out p stride numSamples =
     out_frames (\<lambda>j. do {
         val \<leftarrow> rd inp j;
         Some [ucast (push_bit 4 val AND 0xff), ucast (sar val 4 AND 0xff), ucast (sar val 12 AND 0xff)]
       }) (stride * 3) numSamples 0 p out"

definition copyPredictorTo32 :: "u32 list \<Rightarrow> byte list \<Rightarrow> nat \<Rightarrow> nat \<Rightarrow> nat \<Rightarrow> byte list option" where
  "copyPredictorTo32 inp out p stride numSamples =
     out_frames (\<lambda>i. do { x \<leftarrow> rd inp i; Some (le32 x) }) (4 * stride) numSamples 0 p out"

definition copyPredictorTo32Shift ::
  "u32 list \<Rightarrow> u16 list \<Rightarrow> byte list \<Rightarrow> nat \<Rightarrow> nat \<Rightarrow> nat \<Rightarrow> nat \<Rightarrow> byte list option" where
  "copyPredictorTo32Shift inp shift out p stride numSamples bytesShifted =
     out_frames (\<lambda>j. do {
         x \<leftarrow> rd inp j;
         s \<leftarrow> rd shift j;
         Some (le32 (unshift (bytesShifted * 8) x s))
       }) (4 * stride) numSamples 0 p out"

section \<open>What the output loops write\<close>

text \<open>\<^verbatim>\<open>interleaved\<close>: block i, of w bytes, stands at \<^verbatim>\<open>p + i * step\<close>; every other byte is as before.\<close>

definition interleaved :: "(nat \<Rightarrow> byte list) \<Rightarrow> nat \<Rightarrow> nat \<Rightarrow> nat \<Rightarrow> nat \<Rightarrow> byte list \<Rightarrow> byte list \<Rightarrow> bool" where
  "interleaved b w step n p out out' \<longleftrightarrow>
     length out' = length out \<and>
     (\<forall>i < n. take w (drop (p + i * step) out') = b i) \<and>
     (\<forall>q < length out. (\<forall>i < n. q < p + i * step \<or> p + i * step + w \<le> q) \<longrightarrow> out' ! q = out ! q)"

lemma memcpy_nth_other:
  "\<lbrakk>memcpy out p bs = Some out'; q < length out; q < p \<or> p + length bs \<le> q\<rbrakk> \<Longrightarrow> out' ! q = out ! q"
  by (auto simp: memcpy_def nth_append split: if_splits)

lemma out_frames_interleaved:
  assumes "w \<le> step"
  shows "\<lbrakk>\<forall>i < n. f (j + i) = Some (b i) \<and> length (b i) = w \<and> p + i * step + w \<le> length out\<rbrakk> \<Longrightarrow>
    \<exists>out'. out_frames f step n j p out = Some out' \<and> interleaved b w step n p out out'"
proof (induction n arbitrary: j p b out)
  case (Suc n)
  have f0: "f j = Some (b 0)" "length (b 0) = w" "p + w \<le> length out"
    using Suc.prems [rule_format, of 0] by auto
  then obtain out1 where o1: "memcpy out p (b 0) = Some out1" "length out1 = length out"
    by (auto simp: memcpy_def)
  have rest: "\<forall>i < n. f (j + 1 + i) = Some (b (Suc i)) \<and> length (b (Suc i)) = w \<and> p + step + i * step + w \<le> length out1"
  proof (intro allI impI)
    fix i
    assume "i < n"
    then show "f (j + 1 + i) = Some (b (Suc i)) \<and> length (b (Suc i)) = w \<and> p + step + i * step + w \<le> length out1"
      using Suc.prems [rule_format, of "Suc i"] o1(2) by (simp add: algebra_simps)
  qed
  obtain out' where out': "out_frames f step n (j + 1) (p + step) out1 = Some out'"
    "interleaved (\<lambda>i. b (Suc i)) w step n (p + step) out1 out'"
    using Suc.IH [OF rest] by blast
  have first: "take w (drop p out') = b 0"
  proof (rule nth_equalityI)
    have len: "length out' = length out" using out'(2) o1(2) by (simp add: interleaved_def)
    then show "length (take w (drop p out')) = length (b 0)" using f0 by simp
    fix k
    assume "k < length (take w (drop p out'))"
    then have k: "k < w" "p + k < length out1" using len o1(2) f0(3) by auto
    have "out' ! (p + k) = out1 ! (p + k)"
      using out'(2) k assms by (auto simp: interleaved_def)
    also have "\<dots> = b 0 ! k"
      using memcpy_same [OF o1(1)] f0 k by (metis nth_drop nth_take len o1(2) add_leE)
    finally show "take w (drop p out') ! k = b 0 ! k" using k len o1(2) by simp
  qed
  have "interleaved b w step (Suc n) p out out'"
    unfolding interleaved_def
  proof (intro conjI allI impI)
    show "length out' = length out" using out'(2) o1(2) by (simp add: interleaved_def)
    show "take w (drop (p + i * step) out') = b i" if "i < Suc n" for i
      using that first out'(2) by (cases i) (auto simp: interleaved_def algebra_simps)
    fix q
    assume q: "q < length out" "\<forall>i < Suc n. q < p + i * step \<or> p + i * step + w \<le> q"
    have "\<forall>i < n. q < p + step + i * step \<or> p + step + i * step + w \<le> q"
    proof (intro allI impI)
      fix i
      assume "i < n"
      then show "q < p + step + i * step \<or> p + step + i * step + w \<le> q"
        using q(2) [rule_format, of "Suc i"] by (simp add: algebra_simps)
    qed
    then have "out' ! q = out1 ! q" using out'(2) q(1) o1(2) by (simp add: interleaved_def)
    moreover have "out1 ! q = out ! q"
      using memcpy_nth_other [OF o1(1) q(1)] q(2) f0(2) by (auto dest!: spec [of _ 0])
    ultimately show "out' ! q = out ! q" by simp
  qed
  with out'(1) o1 f0 show ?case by simp
qed (simp add: interleaved_def)

section \<open>Mixing and its inverse\<close>

text \<open>The mixing of the format, on the sample values: a weighted mean and the difference.\<close>

definition alac_mix :: "nat \<Rightarrow> int \<Rightarrow> int \<Rightarrow> int \<Rightarrow> int \<times> int" where
  "alac_mix mixbits mixres l r =
     (if mixres = 0 then (l, r) else ((mixres * l + (2 ^ mixbits - mixres) * r) div 2 ^ mixbits, l - r))"

lemma sar_word_of_int:
  assumes "- (2 ^ 31) \<le> x" and "x < 2 ^ 31" and "n < 2 ^ 32"
  shows "sar (word_of_int x) (of_nat n) = word_of_int (x div 2 ^ n)"
proof -
  have n: "unat (of_nat n :: u32) = n" using assms(3) by (intro unat_of_nat_u32) simp
  have x: "sint (word_of_int x :: u32) = x"
    using assms(1,2) by (simp only: sint_sbintrunc') (simp add: signed_take_bit_int_eq_self)
  have "sint (signed_drop_bit n (word_of_int x :: u32)) = x div 2 ^ n"
    by (simp only: sint_signed_drop_bit_eq x drop_bit_eq_div)
  then have "word_of_int (sint (signed_drop_bit n (word_of_int x :: u32))) = (word_of_int (x div 2 ^ n) :: u32)"
    by (rule arg_cong)
  then show ?thesis
    by (simp add: sar_def n scast_id)
qed

lemma mix_quotient:
  fixes l r :: int
  shows "(mixres * l + (2 ^ m - mixres) * r) div 2 ^ m = r + mixres * (l - r) div 2 ^ m"
proof -
  have "mixres * l + (2 ^ m - mixres) * r = mixres * (l - r) + r * 2 ^ m" by (simp add: algebra_simps)
  then show ?thesis by simp
qed

lemma unmix_lr_mix:
  assumes "m < 32" and "mixres \<noteq> 0" and "- (2 ^ 31) \<le> mixres * (l - r)" and "mixres * (l - r) < 2 ^ 31"
  shows "unmix_lr (of_nat m) (word_of_int mixres) (word_of_int (fst (alac_mix m mixres l r)))
      (word_of_int (snd (alac_mix m mixres l r))) = Some (word_of_int l, word_of_int r)"
proof -
  have m: "of_nat m < (32 :: u32)"
    using assms(1) by (simp add: word_less_nat_alt unat_of_nat_u32)
  have s: "sar (word_of_int (mixres * (l - r))) (of_nat m) = word_of_int (mixres * (l - r) div 2 ^ m)"
    using assms by (intro sar_word_of_int) simp_all
  let ?q = "mixres * (l - r) div 2 ^ m"
  have "word_of_int (r + ?q) + word_of_int (l - r) - word_of_int ?q = (word_of_int l :: u32)"
    "word_of_int l - word_of_int (l - r) = (word_of_int r :: u32)"
    "word_of_int mixres * word_of_int (l - r) = (word_of_int (mixres * (l - r)) :: u32)"
    by simp_all
  then show ?thesis
    using assms(2) m by (simp only: unmix_lr_def alac_mix_def mix_quotient s fst_conv snd_conv if_False Let_def
        require_True Option.bind.simps)
qed

text \<open>Splitting low bytes off and putting them back.\<close>

lemma unshift_split:
  assumes "s \<le> 16"
  shows "unshift s (word_of_int (x div 2 ^ s)) (word_of_int (x mod 2 ^ s)) = word_of_int x"
proof -
  have "(2 :: int) ^ s \<le> 2 ^ 16" using assms by (rule power_increasing) simp
  moreover have "x mod 2 ^ s < 2 ^ s" by simp
  ultimately have lt: "x mod 2 ^ s < 2 ^ 16" by linarith
  have u: "uint (word_of_int (x mod 2 ^ s) :: u16) = x mod 2 ^ s" "uint (word_of_int (x mod 2 ^ s) :: u32) = x mod 2 ^ s"
    using lt by (simp_all add: uint_word_of_int)
  have low: "(ucast (word_of_int (x mod 2 ^ s) :: u16) :: u32) = word_of_int (x mod 2 ^ s)"
    using lt by (simp only: word_uint_eq_iff unsigned_ucast_eq u) (simp add: take_bit_int_eq_self)
  have "int (unat (word_of_int (x mod 2 ^ s) :: u32)) < 2 ^ s" by (simp add: u(2))
  then have small: "unat (word_of_int (x mod 2 ^ s) :: u32) < 2 ^ s"
    by (simp only: of_nat_less_numeral_power_cancel_iff)
  have "push_bit s (word_of_int (x div 2 ^ s)) = (word_of_int (x div 2 ^ s * 2 ^ s) :: u32)"
    by (simp add: push_bit_eq_mult)
  then have "unshift s (word_of_int (x div 2 ^ s)) (word_of_int (x mod 2 ^ s)) =
      word_of_int (x div 2 ^ s * 2 ^ s + x mod 2 ^ s)"
    unfolding unshift_def low or_push_bit_low [OF small] by (simp only: of_int_add)
  then show ?thesis by (simp only: div_mult_mod_eq)
qed

lemma mixres_nonzero:
  assumes "- 128 \<le> m" and "m < 128"
  shows "(word_of_int m :: u32) = 0 \<longleftrightarrow> m = 0"
proof
  assume "(word_of_int m :: u32) = 0"
  then have "2 ^ 32 dvd m" by (simp add: word_of_int_eq_0_iff)
  with assms show "m = 0" using zdvd_not_zless [of m "2 ^ 32"] zdvd_not_zless [of "- m" "2 ^ 32"]
    by (cases m "0 :: int" rule: linorder_cases) auto
qed simp

lemma length_le24 [simp]: "length (le24 x) = 3" by (simp add: le24_def)
lemma length_le16 [simp]: "length (le16 x) = 2" by (simp add: le16_def)
lemma length_le32 [simp]: "length (le32 x) = 4" by (simp add: le32_def)

text \<open>\<^verbatim>\<open>mixed\<close>: the buffers hold the mixed high parts of n pairs of samples.\<close>

definition mixed :: "nat \<Rightarrow> int \<Rightarrow> nat \<Rightarrow> nat \<Rightarrow> (nat \<Rightarrow> int) \<Rightarrow> (nat \<Rightarrow> int) \<Rightarrow> u32 list \<Rightarrow> u32 list \<Rightarrow> bool" where
  "mixed m mixres s n l r u v \<longleftrightarrow> m < 32 \<and> - 128 \<le> mixres \<and> mixres < 128 \<and> n \<le> length u \<and> n \<le> length v \<and>
     (\<forall>i < n. - (2 ^ 31) \<le> mixres * (l i div 2 ^ s - r i div 2 ^ s) \<and> mixres * (l i div 2 ^ s - r i div 2 ^ s) < 2 ^ 31 \<and>
       u ! i = word_of_int (fst (alac_mix m mixres (l i div 2 ^ s) (r i div 2 ^ s))) \<and>
       v ! i = word_of_int (snd (alac_mix m mixres (l i div 2 ^ s) (r i div 2 ^ s))))"

definition shifted_off :: "nat \<Rightarrow> nat \<Rightarrow> (nat \<Rightarrow> int) \<Rightarrow> (nat \<Rightarrow> int) \<Rightarrow> u16 list \<Rightarrow> bool" where
  "shifted_off s n l r shiftUV \<longleftrightarrow> 2 * n \<le> length shiftUV \<and>
     (\<forall>i < n. shiftUV ! (2 * i) = word_of_int (l i mod 2 ^ s) \<and> shiftUV ! (2 * i + 1) = word_of_int (r i mod 2 ^ s))"

lemma mixedD:
  assumes "mixed m mixres s n l r u v" and "i < n"
  shows "i < length u" "i < length v" "(word_of_int mixres :: u32) = 0 \<longleftrightarrow> mixres = 0"
    "mixres \<noteq> 0 \<Longrightarrow> unmix_lr (of_nat m) (word_of_int mixres) (u ! i) (v ! i) =
      Some (word_of_int (l i div 2 ^ s), word_of_int (r i div 2 ^ s))"
    "mixres = 0 \<Longrightarrow> u ! i = word_of_int (l i div 2 ^ s)" "mixres = 0 \<Longrightarrow> v ! i = word_of_int (r i div 2 ^ s)"
proof -
  note a = assms(1) [unfolded mixed_def]
  have b: "- (2 ^ 31) \<le> mixres * (l i div 2 ^ s - r i div 2 ^ s)" "mixres * (l i div 2 ^ s - r i div 2 ^ s) < 2 ^ 31"
    "u ! i = word_of_int (fst (alac_mix m mixres (l i div 2 ^ s) (r i div 2 ^ s)))"
    "v ! i = word_of_int (snd (alac_mix m mixres (l i div 2 ^ s) (r i div 2 ^ s)))"
    using a assms(2) by blast+
  show "mixres \<noteq> 0 \<Longrightarrow> unmix_lr (of_nat m) (word_of_int mixres) (u ! i) (v ! i) =
      Some (word_of_int (l i div 2 ^ s), word_of_int (r i div 2 ^ s))"
    unfolding b(3,4) using a b(1,2) by (intro unmix_lr_mix) simp_all
  show "mixres = 0 \<Longrightarrow> u ! i = word_of_int (l i div 2 ^ s)" "mixres = 0 \<Longrightarrow> v ! i = word_of_int (r i div 2 ^ s)"
    using b(3,4) by (simp_all add: alac_mix_def)
  show "i < length u" "i < length v" using a assms(2) by simp_all
  show "(word_of_int mixres :: u32) = 0 \<longleftrightarrow> mixres = 0"
    using a by (intro mixres_nonzero) simp_all
qed

lemma ucast_16_word_of_int: "(ucast (word_of_int x :: u32) :: u16) = word_of_int x"
  by transfer simp

lemma unmix16_mixed:
  assumes "mixed m mixres 0 n l r u v" and "2 \<le> stride" and "\<forall>i < n. p + i * (2 * stride) + 4 \<le> length out"
  shows "\<exists>out'. unmix16 u v out p stride n (of_nat m) (word_of_int mixres) = Some out' \<and>
    interleaved (\<lambda>i. le16 (word_of_int (l i)) @ le16 (word_of_int (r i))) 4 (2 * stride) n p out out'"
proof (cases "n = 0")
  case True
  then show ?thesis by (simp add: unmix16_def interleaved_def)
next
  case False
  note at = mixedD [OF assms(1)]
  have z: "(word_of_int mixres :: u32) = 0 \<longleftrightarrow> mixres = 0" using at(3) [of 0] False by simp
  have st: "4 \<le> 2 * stride" using assms(2) by simp
  let ?b = "\<lambda>i. le16 (word_of_int (l i)) @ le16 (word_of_int (r i))"
  have written: "\<exists>out'. out_frames f (2 * stride) n 0 p out = Some out' \<and> interleaved ?b 4 (2 * stride) n p out out'"
    if "\<And>i. i < n \<Longrightarrow> f i = Some (?b i)" for f
    using that assms(3) by (intro out_frames_interleaved [OF st]) simp
  show ?thesis
    by (cases "mixres = 0"; simp add: unmix16_def z; rule written; simp add: at ucast_16_word_of_int)
qed

text \<open>Un-mixing undoes mixing: from the mixed pairs and the low bytes that were split off, \<^verbatim>\<open>unmix24\<close> writes, in
  each of its four loops, the bytes of the original 24-bit samples of both channels into every stride of the
  output, and no byte besides.\<close>

theorem unmix24_lossless:
  assumes "mixed m mixres (bytesShifted * 8) n l r u v" and "bytesShifted \<le> 2"
    and "bytesShifted \<noteq> 0 \<Longrightarrow> shifted_off (bytesShifted * 8) n l r shiftUV"
    and "2 \<le> stride" and "\<forall>i < n. p + i * (3 * stride) + 6 \<le> length out"
  shows "\<exists>out'. unmix24 u v out p stride n (of_nat m) (word_of_int mixres) shiftUV bytesShifted = Some out' \<and>
    interleaved (\<lambda>i. le24 (word_of_int (l i)) @ le24 (word_of_int (r i))) 6 (3 * stride) n p out out'"
proof (cases "n = 0")
  case True
  then show ?thesis by (simp add: unmix24_def interleaved_def Let_def)
next
  case False
  note at = mixedD [OF assms(1)]
  have z: "(word_of_int mixres :: u32) = 0 \<longleftrightarrow> mixres = 0" using at(3) [of 0] False by simp
  have s: "bytesShifted * 8 \<le> 16" using assms(2) by simp
  have st: "6 \<le> 3 * stride" using assms(4) by simp
  let ?b = "\<lambda>i. le24 (word_of_int (l i)) @ le24 (word_of_int (r i))"
  have written: "\<exists>out'. out_frames f (3 * stride) n 0 p out = Some out' \<and> interleaved ?b 6 (3 * stride) n p out out'"
    if "\<And>i. i < n \<Longrightarrow> f i = Some (?b i)" for f
    using that assms(5) by (intro out_frames_interleaved [OF st]) simp
  have low: "rd shiftUV (2 * i) = Some (word_of_int (l i mod 2 ^ (bytesShifted * 8)))"
      "rd shiftUV (2 * i + 1) = Some (word_of_int (r i mod 2 ^ (bytesShifted * 8)))"
    if "bytesShifted \<noteq> 0" "i < n" for i
    using assms(3) that by (auto simp: shifted_off_def)
  show ?thesis
    by (cases "mixres = 0"; cases "bytesShifted = 0"; simp add: unmix24_def Let_def z; rule written;
        simp add: at low [simplified] unshift_split [OF s])
qed

lemma unmix24_lossless_witness:
  "\<exists>out'. unmix24 [97, -1] [390, -1] (replicate 14 7) 1 2 2 (of_nat 2) (word_of_int 1) [160, 99, 251, 7] 1 = Some out' \<and>
    interleaved (\<lambda>i. le24 (word_of_int ([100000, -5] ! i)) @ le24 (word_of_int ([99, 7] ! i))) 6 (3 * 2) 2 1 (replicate 14 7) out'"
proof (rule unmix24_lossless)
  show "mixed 2 1 (1 * 8) 2 (\<lambda>i. [100000, -5] ! i) (\<lambda>i. [99, 7] ! i) [97, -1] [390, -1]"
    by (simp add: mixed_def alac_mix_def numeral_2_eq_2 less_Suc_eq)
  show "shifted_off (1 * 8) 2 (\<lambda>i. [100000, -5] ! i) (\<lambda>i. [99, 7] ! i) [160, 99, 251, 7]"
    by (simp add: shifted_off_def numeral_2_eq_2 less_Suc_eq)
qed (simp_all add: numeral_2_eq_2 less_Suc_eq)
end
