(* ===== verification/Endian_Portable.thy ===== *)
theory Endian_Portable
  imports Prelude
begin

text \<open>
  \<^verbatim>\<open>alac/EndianPortable.c\<close> on the little-endian targets of the app: byte swaps of 16, 32 and 64-bit
  numbers (a \<^verbatim>\<open>float\<close> or \<^verbatim>\<open>double\<close> is its bit pattern, reached through the union), and the loads of a
  little-endian machine they are applied to.
\<close>

unbundle bit_operations_syntax

definition BSWAP16 :: "u16 \<Rightarrow> u16" where
  "BSWAP16 x = push_bit 8 x OR (drop_bit 8 x AND 0x00ff)"

definition BSWAP32 :: "u32 \<Rightarrow> u32" where
  "BSWAP32 x = push_bit 24 x OR (push_bit 8 x AND 0x00ff0000) OR (drop_bit 8 x AND 0x0000ff00) OR
     (drop_bit 24 x AND 0x000000ff)"

text \<open>\<^verbatim>\<open>x\<close> is read as a signed number: its right shifts copy the sign, which the masks remove.\<close>

definition BSWAP64 :: "u64 \<Rightarrow> u64" where
  "BSWAP64 x = push_bit 56 x OR (push_bit 40 x AND 0x00ff000000000000) OR
     (push_bit 24 x AND 0x0000ff0000000000) OR (push_bit 8 x AND 0x000000ff00000000) OR
     (signed_drop_bit 8 x AND 0x00000000ff000000) OR (signed_drop_bit 24 x AND 0x0000000000ff0000) OR
     (signed_drop_bit 40 x AND 0x000000000000ff00) OR (signed_drop_bit 56 x AND 0x00000000000000ff)"

definition Swap16NtoB :: "u16 \<Rightarrow> u16" where "Swap16NtoB inUInt16 = BSWAP16 inUInt16"
definition Swap16BtoN :: "u16 \<Rightarrow> u16" where "Swap16BtoN inUInt16 = BSWAP16 inUInt16"
definition Swap32NtoB :: "u32 \<Rightarrow> u32" where "Swap32NtoB inUInt32 = BSWAP32 inUInt32"
definition Swap32BtoN :: "u32 \<Rightarrow> u32" where "Swap32BtoN inUInt32 = BSWAP32 inUInt32"
definition Swap64BtoN :: "u64 \<Rightarrow> u64" where "Swap64BtoN inUInt64 = BSWAP64 inUInt64"
definition Swap64NtoB :: "u64 \<Rightarrow> u64" where "Swap64NtoB inUInt64 = BSWAP64 inUInt64"
definition SwapFloat64BtoN :: "u64 \<Rightarrow> u64" where "SwapFloat64BtoN inp = BSWAP64 inp"
definition SwapFloat64NtoB :: "u64 \<Rightarrow> u64" where "SwapFloat64NtoB inp = BSWAP64 inp"

text \<open>For a \<^verbatim>\<open>float\<close> the macro shifts a signed \<^verbatim>\<open>int32_t\<close>.\<close>

definition swap_int32 :: "u32 \<Rightarrow> u32" where
  "swap_int32 x = push_bit 24 x OR (push_bit 8 x AND 0x00ff0000) OR (signed_drop_bit 8 x AND 0x0000ff00) OR
     (signed_drop_bit 24 x AND 0x000000ff)"

definition SwapFloat32BtoN :: "u32 \<Rightarrow> u32" where "SwapFloat32BtoN inp = swap_int32 inp"
definition SwapFloat32NtoB :: "u32 \<Rightarrow> u32" where "SwapFloat32NtoB inp = swap_int32 inp"

text \<open>The in-place swaps of a number in memory.\<close>

definition Swap16 :: "u16 \<Rightarrow> u16" where "Swap16 x = BSWAP16 x"

definition Swap24 :: "byte list \<Rightarrow> byte list option" where
  "Swap24 b = do {
     tempVal \<leftarrow> rd b 0;
     b2 \<leftarrow> rd b 2;
     b \<leftarrow> wr b 0 b2;
     wr b 2 tempVal
   }"

definition Swap32 :: "u32 \<Rightarrow> u32" where "Swap32 x = BSWAP32 x"

section \<open>Loads\<close>

definition ld_le16 :: "byte list \<Rightarrow> nat \<Rightarrow> u16 option" where
  "ld_le16 b i = do {
     x0 \<leftarrow> rd b i;
     x1 \<leftarrow> rd b (i + 1);
     Some (ucast x0 OR push_bit 8 (ucast x1))
   }"

definition ld_le32 :: "byte list \<Rightarrow> nat \<Rightarrow> u32 option" where
  "ld_le32 b i = do {
     x0 \<leftarrow> rd b i;
     x1 \<leftarrow> rd b (i + 1);
     x2 \<leftarrow> rd b (i + 2);
     x3 \<leftarrow> rd b (i + 3);
     Some (ucast x0 OR push_bit 8 (ucast x1) OR push_bit 16 (ucast x2) OR push_bit 24 (ucast x3))
   }"

text \<open>A swapped load is the big-endian reading of the bytes.\<close>

lemma byte_bit: "bit (b :: byte) n \<Longrightarrow> n < 8"
  using bit_imp_le_length [of b n] by simp

lemma mask_words:
  "(0x00ff0000 :: u32) = push_bit 16 (mask 8)" "(0x0000ff00 :: u32) = push_bit 8 (mask 8)"
  "(0x000000ff :: u32) = mask 8" "(0x00ff :: u16) = mask 8"
  by (simp_all add: mask_eq_exp_minus_1 push_bit_eq_mult)

lemma byte_cases:
  assumes "n < 8 * k"
  obtains a r where "n = 8 * a + r" and "a < k" and "r < (8 :: nat)"
proof -
  have "n = 8 * (n div 8) + n mod 8" "n mod 8 < 8" by simp_all
  moreover have "n div 8 < k" using assms by (simp add: less_mult_imp_div_less mult.commute)
  ultimately show thesis using that by blast
qed

lemma BSWAP32_le:
  "BSWAP32 (ucast x0 OR push_bit 8 (ucast x1) OR push_bit 16 (ucast x2) OR push_bit 24 (ucast x3)) = be32 x0 x1 x2 x3"
proof (rule bit_word_eqI)
  fix n
  assume "n < LENGTH(32)"
  then obtain a r where n: "n = 8 * a + r" "a < 4" "r < 8" using byte_cases [of n 4] by auto
  have "a = 0 \<or> a = 1 \<or> a = 2 \<or> a = 3" using n(2) by linarith
  then show "bit (BSWAP32 (ucast x0 OR push_bit 8 (ucast x1) OR push_bit 16 (ucast x2) OR push_bit 24 (ucast x3))) n \<longleftrightarrow>
      bit (be32 x0 x1 x2 x3) n"
    using n by (elim disjE) (auto simp: BSWAP32_def be32_def mask_words bit_simps simp del: numeral_One dest: byte_bit)
qed

lemma BSWAP16_le: "BSWAP16 (ucast x0 OR push_bit 8 (ucast x1)) = be16 x0 x1"
proof (rule bit_word_eqI)
  fix n
  assume "n < LENGTH(16)"
  then obtain a r where n: "n = 8 * a + r" "a < 2" "r < 8" using byte_cases [of n 2] by auto
  have "a = 0 \<or> a = 1" using n(2) by linarith
  then show "bit (BSWAP16 (ucast x0 OR push_bit 8 (ucast x1))) n \<longleftrightarrow> bit (be16 x0 x1) n"
    using n by (elim disjE) (auto simp: BSWAP16_def be16_def mask_words bit_simps dest: byte_bit)
qed

lemma Swap32BtoN_load:
  "i + 3 < length b \<Longrightarrow> \<exists>w. ld_le32 b i = Some w \<and> Swap32BtoN w = be32 (b ! i) (b ! (i + 1)) (b ! (i + 2)) (b ! (i + 3))"
  by (simp add: ld_le32_def Swap32BtoN_def BSWAP32_le)

lemma Swap16BtoN_load:
  "i + 1 < length b \<Longrightarrow> \<exists>w. ld_le16 b i = Some w \<and> Swap16BtoN w = be16 (b ! i) (b ! (i + 1))"
  by (simp add: ld_le16_def Swap16BtoN_def BSWAP16_le)

text \<open>Writing a number byte by byte and reading it back.\<close>

lemma be32_bytes:
  "be32 (ucast (drop_bit 24 v AND 0xff)) (ucast (drop_bit 16 v AND 0xff)) (ucast (drop_bit 8 v AND 0xff)) (ucast (v AND 0xff)) = v"
proof (rule bit_word_eqI)
  fix n
  assume "n < LENGTH(32)"
  then obtain a r where n: "n = 8 * a + r" "a < 4" "r < 8" using byte_cases [of n 4] by auto
  have m: "(0xff :: u32) = mask 8" by (simp add: mask_eq_exp_minus_1)
  have "a = 0 \<or> a = 1 \<or> a = 2 \<or> a = 3" using n(2) by linarith
  then show "bit (be32 (ucast (drop_bit 24 v AND 0xff)) (ucast (drop_bit 16 v AND 0xff)) (ucast (drop_bit 8 v AND 0xff)) (ucast (v AND 0xff))) n \<longleftrightarrow> bit v n"
    using n by (elim disjE) (auto simp: be32_def m bit_simps dest: byte_bit)
qed

end
