(* ===== verification/Alac_Decoder.thy ===== *)
theory Alac_Decoder
  imports Alac_Golomb Alac_Matrix Endian_Portable
begin

text \<open>
  \<^verbatim>\<open>alac/ALACDecoder.cpp\<close>: the decoder object, its initialisation from the magic cookie and the decoding of
  one frame: a loop over the elements of the bit stream, each with its header, its entropy-coded residuals,
  the predictors and the output of one or two channels.  Sizes are those of a 64-bit \<^verbatim>\<open>size_t\<close>.
\<close>

unbundle bit_operations_syntax

section \<open>The decoder object\<close>

definition kALACVersion :: byte where "kALACVersion = 0"
definition kALAC_MemFullError :: int where "kALAC_MemFullError = -108"

record alac_config =
  frameLength :: u32
  compatibleVersion :: byte
  bitDepth :: byte
  cfg_pb :: byte
  cfg_mb :: byte
  cfg_kb :: byte
  cfg_numChannels :: byte
  cfg_maxRun :: u16
  maxFrameBytes :: u32
  avgBitRate :: u32
  sampleRate :: u32

text \<open>The four buffers; \<^verbatim>\<open>mShiftBuffer\<close> is the memory of \<^verbatim>\<open>mPredictor\<close>, read as 16-bit halves.\<close>

record alac_decoder =
  mConfig :: alac_config
  mActiveElements :: u16
  mMixBufferU :: "u32 list option"
  mMixBufferV :: "u32 list option"
  mPredictor :: "u32 list option"

definition zero_config :: alac_config where
  "zero_config = \<lparr>frameLength = 0, compatibleVersion = 0, bitDepth = 0, cfg_pb = 0, cfg_mb = 0, cfg_kb = 0,
     cfg_numChannels = 0, cfg_maxRun = 0, maxFrameBytes = 0, avgBitRate = 0, sampleRate = 0\<rparr>"

text \<open>The constructor leaves \<^verbatim>\<open>mActiveElements\<close> uninitialised; \<^verbatim>\<open>Decode\<close> sets it first.\<close>

definition ALACDecoder :: "u16 \<Rightarrow> alac_decoder" where
  "ALACDecoder active = \<lparr>mConfig = zero_config, mActiveElements = active, mMixBufferU = None, mMixBufferV = None,
     mPredictor = None\<rparr>"

text \<open>The destructor frees each buffer that is there.\<close>

definition ALACDecoder_destroy :: "alac_decoder \<Rightarrow> alac_decoder" where
  "ALACDecoder_destroy d = d\<lparr>mMixBufferU := None, mMixBufferV := None, mPredictor := None\<rparr>"

section \<open>Init\<close>

text \<open>An atom of twelve bytes is skipped when bytes 4 to 7 name it; the count of the remaining bytes may wrap.\<close>

definition skip_atom :: "string \<Rightarrow> byte list \<Rightarrow> nat \<times> u32 \<Rightarrow> (nat \<times> u32) option" where
  "skip_atom name cookie = (\<lambda>(at, remaining). do {
     tag \<leftarrow> slice (at + 4) 4 cookie;
     Some (if tag = bytes name then (at + 12, remaining - 12) else (at, remaining))
   })"

definition read_config :: "byte list \<Rightarrow> nat \<Rightarrow> alac_config option" where
  "read_config cookie at = do {
     fl \<leftarrow> ld_le32 cookie at;
     cv \<leftarrow> rd cookie (at + 4);
     bd \<leftarrow> rd cookie (at + 5);
     pb \<leftarrow> rd cookie (at + 6);
     mb \<leftarrow> rd cookie (at + 7);
     kb \<leftarrow> rd cookie (at + 8);
     nc \<leftarrow> rd cookie (at + 9);
     mr \<leftarrow> ld_le16 cookie (at + 10);
     mf \<leftarrow> ld_le32 cookie (at + 12);
     ab \<leftarrow> ld_le32 cookie (at + 16);
     sr \<leftarrow> ld_le32 cookie (at + 20);
     Some \<lparr>frameLength = Swap32BtoN fl, compatibleVersion = cv, bitDepth = bd, cfg_pb = pb, cfg_mb = mb,
       cfg_kb = kb, cfg_numChannels = nc, cfg_maxRun = Swap16BtoN mr, maxFrameBytes = Swap32BtoN mf,
       avgBitRate = Swap32BtoN ab, sampleRate = Swap32BtoN sr\<rparr>
   }"

text \<open>\<^verbatim>\<open>calloc\<close> is an argument: \<^verbatim>\<open>alloc i\<close> says whether the i-th allocation succeeds.\<close>

definition calloc_words :: "(nat \<Rightarrow> bool) \<Rightarrow> nat \<Rightarrow> u32 \<Rightarrow> u32 list option" where
  "calloc_words alloc i n = (if alloc i then Some (replicate (unat n) 0) else None)"

definition ALACDecoder_Init :: "(nat \<Rightarrow> bool) \<Rightarrow> byte list \<Rightarrow> u32 \<Rightarrow> alac_decoder \<Rightarrow> (int \<times> alac_decoder) option" where
  "ALACDecoder_Init alloc cookie cookieSize d = do {
     (at, remaining) \<leftarrow> skip_atom ''frma'' cookie (0, cookieSize);
     (at, remaining) \<leftarrow> skip_atom ''alac'' cookie (at, remaining);
     if remaining \<ge> 24
     then do {
       cfg \<leftarrow> read_config cookie at;
       let d = d\<lparr>mConfig := cfg\<rparr>;
       if \<not> compatibleVersion cfg \<le> kALACVersion then Some (kALAC_ParamError, d)
       else
         let d = d\<lparr>mMixBufferU := calloc_words alloc 0 (frameLength cfg), mMixBufferV := calloc_words alloc 1 (frameLength cfg),
           mPredictor := calloc_words alloc 2 (frameLength cfg)\<rparr>
         in if mMixBufferU d \<noteq> None \<and> mMixBufferV d \<noteq> None \<and> mPredictor d \<noteq> None
            then Some (ALAC_noErr, d) else Some (kALAC_MemFullError, d)
     }
     else Some (kALAC_ParamError, d)
   }"

section \<open>The parts of an element\<close>

text \<open>The coefficients of a predictor: the first \<^verbatim>\<open>n\<close> entries of the array of 32; the others are not read.\<close>

primrec read_coefs :: "nat \<Rightarrow> bit_buffer \<Rightarrow> (u16 list \<times> bit_buffer) option" where
  "read_coefs 0 bits = Some ([], bits)"
| "read_coefs (Suc n) bits = do {
     (c, bits) \<leftarrow> BitBufferRead 16 bits;
     (cs, bits) \<leftarrow> read_coefs n bits;
     Some (ucast c # cs, bits)
   }"

text \<open>Mode, quantisation shift, factor of the mean and coefficients of one channel.\<close>

record channel_params =
  ch_mode :: u32
  ch_denShift :: u32
  ch_pbFactor :: u32
  ch_num :: nat
  ch_coefs :: "u16 list"

definition read_channel_params :: "bit_buffer \<Rightarrow> (channel_params \<times> bit_buffer) option" where
  "read_channel_params bits = do {
     (h, bits) \<leftarrow> BitBufferRead 8 bits;
     (g, bits) \<leftarrow> BitBufferRead 8 bits;
     let num = unat (g AND 0x1f);
     (cs, bits) \<leftarrow> read_coefs num bits;
     Some (\<lparr>ch_mode = drop_bit 4 h, ch_denShift = h AND 0xf, ch_pbFactor = drop_bit 5 g, ch_num = num, ch_coefs = cs\<rparr>, bits)
   }"

text \<open>Entropy decoding of a channel into the predictor buffer, and prediction into a mix buffer; the result
  is the status (only the predictor buffer has changed when it is an error), the bits, both buffers.\<close>

definition decompress_channel ::
  "alac_config \<Rightarrow> channel_params \<Rightarrow> u32 \<Rightarrow> u32 \<Rightarrow> bit_buffer \<Rightarrow> u32 list \<Rightarrow> u32 list
     \<Rightarrow> (int \<times> bit_buffer \<times> u32 list \<times> u32 list) option" where
  "decompress_channel cfg ch numSamples chanBits bits pred mix = do {
     ps \<leftarrow> set_ag_params (ucast (cfg_mb cfg)) ((ucast (cfg_pb cfg) * ch_pbFactor ch) div 4) (ucast (cfg_kb cfg))
       numSamples numSamples (ucast (cfg_maxRun cfg));
     (status, nbits, bits, pred) \<leftarrow> dyn_decomp ps bits pred numSamples (unat chanBits);
     if status \<noteq> ALAC_noErr then Some (status, bits, pred, mix)
     else do {
       pred \<leftarrow> (if ch_mode ch = 0 then Some pred
         else do { (q, c) \<leftarrow> unpc_block pred pred (sint numSamples) [] 31 chanBits 0; Some q });
       (mix, coefs) \<leftarrow> unpc_block pred mix (sint numSamples) (ch_coefs ch) (ch_num ch) chanBits (ch_denShift ch);
       Some (ALAC_noErr, bits, pred, mix)
     }
   }"

text \<open>One sample of an uncompressed frame.\<close>

definition escape_sample :: "u32 \<Rightarrow> bit_buffer \<Rightarrow> (u32 \<times> bit_buffer) option" where
  "escape_sample chanBits bits = (
     let shift = 32 - chanBits
     in if chanBits \<le> 16
        then do {
          (val, bits) \<leftarrow> BitBufferRead (unat chanBits) bits;
          val \<leftarrow> sext shift val;
          Some (val, bits)
        }
        else do {
          let extraBits = chanBits - 16;
          (val, bits) \<leftarrow> BitBufferRead 16 bits;
          require (shift < 32);
          let val = sar (push_bit 16 val) shift;
          (x, bits) \<leftarrow> BitBufferRead (unat (ucast extraBits :: byte)) bits;
          Some (val OR x, bits)
        })"

primrec escape_mono :: "u32 \<Rightarrow> nat \<Rightarrow> nat \<Rightarrow> bit_buffer \<Rightarrow> u32 list \<Rightarrow> (bit_buffer \<times> u32 list) option" where
  "escape_mono chanBits 0 i bits u = Some (bits, u)"
| "escape_mono chanBits (Suc n) i bits u = do {
     (val, bits) \<leftarrow> escape_sample chanBits bits;
     u \<leftarrow> wr u i val;
     escape_mono chanBits n (i + 1) bits u
   }"

primrec escape_pair ::
  "u32 \<Rightarrow> nat \<Rightarrow> nat \<Rightarrow> bit_buffer \<Rightarrow> u32 list \<Rightarrow> u32 list \<Rightarrow> (bit_buffer \<times> u32 list \<times> u32 list) option" where
  "escape_pair chanBits 0 i bits u v = Some (bits, u, v)"
| "escape_pair chanBits (Suc n) i bits u v = do {
     (val, bits) \<leftarrow> escape_sample chanBits bits;
     u \<leftarrow> wr u i val;
     (val, bits) \<leftarrow> escape_sample chanBits bits;
     v \<leftarrow> wr v i val;
     escape_pair chanBits n (i + 1) bits u v
   }"

text \<open>The shift buffer in the memory of the predictor buffer: its 16-bit entries, and writing one.\<close>

definition shift_view :: "u32 list \<Rightarrow> u16 list" where
  "shift_view pred = concat (map (\<lambda>w. [ucast w, ucast (drop_bit 16 w)]) pred)"

definition shift_write :: "u32 list \<Rightarrow> nat \<Rightarrow> u16 \<Rightarrow> u32 list option" where
  "shift_write pred i s = do {
     w \<leftarrow> rd pred (i div 2);
     wr pred (i div 2)
       (if even i then (w AND 0xffff0000) OR ucast s else (w AND 0x0000ffff) OR push_bit 16 (ucast s))
   }"

primrec read_shifts :: "nat \<Rightarrow> nat \<Rightarrow> nat \<Rightarrow> bit_buffer \<Rightarrow> u32 list \<Rightarrow> u32 list option" where
  "read_shifts shift 0 i shiftBits pred = Some pred"
| "read_shifts shift (Suc n) i shiftBits pred = do {
     (x, shiftBits) \<leftarrow> BitBufferRead shift shiftBits;
     pred \<leftarrow> shift_write pred i (ucast x);
     read_shifts shift n (i + 1) shiftBits pred
   }"

section \<open>The elements\<close>

text \<open>The variables of \<^verbatim>\<open>Decode\<close> that live across elements.\<close>

record decode_state =
  dec :: alac_decoder
  dbits :: bit_buffer
  dout :: "byte list"
  dnum :: u32
  dchan :: u32
  doutnum :: u32

text \<open>How an element ends: the loop goes on with a status, the function exits, or there are no more channels.\<close>

datatype flow = Next int | Exit int | NoMoreChannels

record element_header =
  eh_unused :: u32
  eh_partial :: u32
  eh_bytesShifted :: nat
  eh_escape :: bool

text \<open>The instance tag, the twelve unused bits, the flags.\<close>

definition read_element_header :: "decode_state \<Rightarrow> (element_header option \<times> decode_state) option" where
  "read_element_header st = do {
     (tag, bits) \<leftarrow> BitBufferReadSmall 4 (dbits st);
     let st = st\<lparr>dec := (dec st)\<lparr>mActiveElements := mActiveElements (dec st) OR ucast (push_bit (unat tag) 1 :: u32)\<rparr>\<rparr>;
     (unused, bits) \<leftarrow> BitBufferRead 12 bits;
     if ucast unused \<noteq> (0 :: u16) then Some (None, st\<lparr>dbits := bits\<rparr>)
     else do {
       (h, bits) \<leftarrow> BitBufferRead 4 bits;
       let st = st\<lparr>dbits := bits\<rparr>;
       let bytesShifted = unat (drop_bit 1 h AND 3);
       if bytesShifted = 3 then Some (None, st)
       else Some (Some \<lparr>eh_unused = unused, eh_partial = drop_bit 3 h, eh_bytesShifted = bytesShifted,
         eh_escape = (h AND 1 \<noteq> 0)\<rparr>, st)
     }
   }"

text \<open>The number of samples of a partial frame replaces the one that was asked for.\<close>

definition read_numSamples :: "element_header \<Rightarrow> decode_state \<Rightarrow> decode_state option" where
  "read_numSamples eh st =
     (if eh_partial eh \<noteq> 0
      then do {
        (hi, bits) \<leftarrow> BitBufferRead 16 (dbits st);
        (lo, bits) \<leftarrow> BitBufferRead 16 bits;
        Some (st\<lparr>dnum := push_bit 16 hi OR lo, dbits := bits\<rparr>)
      }
      else Some st)"

text \<open>Writing one channel to the output; another bit depth writes nothing.\<close>

definition sce_output :: "byte \<Rightarrow> u32 list \<Rightarrow> u32 list \<Rightarrow> byte list \<Rightarrow> nat \<Rightarrow> nat \<Rightarrow> nat \<Rightarrow> nat \<Rightarrow> byte list option" where
  "sce_output depth u pred out channelIndex numChannels n bytesShifted =
     (if depth = 16 then
        out_frames (\<lambda>i. do { x \<leftarrow> rd u i; Some (le16 (ucast x)) }) (2 * numChannels) n 0 (2 * channelIndex) out
      else if depth = 20 then copyPredictorTo20 u out (channelIndex * 3) numChannels n
      else if depth = 24 then
        if bytesShifted \<noteq> 0 then copyPredictorTo24Shift u (shift_view pred) out (channelIndex * 3) numChannels n bytesShifted
        else copyPredictorTo24 u out (channelIndex * 3) numChannels n
      else if depth = 32 then
        if bytesShifted \<noteq> 0 then copyPredictorTo32Shift u (shift_view pred) out (4 * channelIndex) numChannels n bytesShifted
        else copyPredictorTo32 u out (4 * channelIndex) numChannels n
      else Some out)"

definition cpe_output ::
  "byte \<Rightarrow> u32 list \<Rightarrow> u32 list \<Rightarrow> u32 list \<Rightarrow> byte list \<Rightarrow> nat \<Rightarrow> nat \<Rightarrow> nat \<Rightarrow> u32 \<Rightarrow> u32 \<Rightarrow> nat \<Rightarrow> byte list option" where
  "cpe_output depth u v pred out channelIndex numChannels n mixBits mixRes bytesShifted =
     (if depth = 16 then unmix16 u v out (2 * channelIndex) numChannels n mixBits mixRes
      else if depth = 20 then unmix20 u v out (channelIndex * 3) numChannels n mixBits mixRes
      else if depth = 24 then unmix24 u v out (channelIndex * 3) numChannels n mixBits mixRes (shift_view pred) bytesShifted
      else if depth = 32 then unmix32 u v out (4 * channelIndex) numChannels n mixBits mixRes (shift_view pred) bytesShifted
      else Some out)"

text \<open>What an element leaves: a status with the bits and buffers, or the decoded channels with the mixing
  parameters and the number of bytes shifted off.\<close>

definition sce_samples ::
  "alac_config \<Rightarrow> element_header \<Rightarrow> u32 \<Rightarrow> bit_buffer \<Rightarrow> u32 list \<Rightarrow> u32 list
     \<Rightarrow> (int \<times> bit_buffer \<times> u32 list \<times> u32 list \<times> nat) option" where
  "sce_samples cfg eh numSamples bits pred u = (
     let bytesShifted = eh_bytesShifted eh;
         chanBits = ucast (bitDepth cfg) - of_nat (bytesShifted * 8)
     in if \<not> eh_escape eh
        then do {
          (mixBits, bits) \<leftarrow> BitBufferRead 8 bits;
          (mixRes, bits) \<leftarrow> BitBufferRead 8 bits;
          (ch, bits) \<leftarrow> read_channel_params bits;
          let shiftBits = bits;
          let bits = (if bytesShifted \<noteq> 0 then BitBufferAdvance (of_nat (bytesShifted * 8) * numSamples) bits else bits);
          (status, bits, pred, u) \<leftarrow> decompress_channel cfg ch numSamples chanBits bits pred u;
          if status \<noteq> ALAC_noErr then Some (status, bits, pred, u, bytesShifted)
          else do {
            pred \<leftarrow> (if bytesShifted \<noteq> 0
              then read_shifts (bytesShifted * 8) (unat numSamples) 0 shiftBits pred else Some pred);
            Some (ALAC_noErr, bits, pred, u, bytesShifted)
          }
        }
        else do {
          (bits, u) \<leftarrow> escape_mono chanBits (unat numSamples) 0 bits u;
          Some (ALAC_noErr, bits, pred, u, 0)
        })"

definition cpe_samples ::
  "alac_config \<Rightarrow> element_header \<Rightarrow> u32 \<Rightarrow> bit_buffer \<Rightarrow> u32 list \<Rightarrow> u32 list \<Rightarrow> u32 list
     \<Rightarrow> (int \<times> bit_buffer \<times> u32 list \<times> u32 list \<times> u32 list \<times> u32 \<times> u32 \<times> nat) option" where
  "cpe_samples cfg eh numSamples bits pred u v = (
     let bytesShifted = eh_bytesShifted eh;
         chanBits = ucast (bitDepth cfg) - of_nat (bytesShifted * 8) + 1
     in if \<not> eh_escape eh
        then do {
          (mixBits, bits) \<leftarrow> BitBufferRead 8 bits;
          (mixRes, bits) \<leftarrow> BitBufferRead 8 bits;
          let mixRes = scast (ucast mixRes :: byte);
          (chU, bits) \<leftarrow> read_channel_params bits;
          (chV, bits) \<leftarrow> read_channel_params bits;
          let shiftBits = bits;
          let bits = (if bytesShifted \<noteq> 0 then BitBufferAdvance (of_nat (bytesShifted * 8) * 2 * numSamples) bits else bits);
          (status, bits, pred, u) \<leftarrow> decompress_channel cfg chU numSamples chanBits bits pred u;
          if status \<noteq> ALAC_noErr then Some (status, bits, pred, u, v, mixBits, mixRes, bytesShifted)
          else do {
            (status, bits, pred, v) \<leftarrow> decompress_channel cfg chV numSamples chanBits bits pred v;
            if status \<noteq> ALAC_noErr then Some (status, bits, pred, u, v, mixBits, mixRes, bytesShifted)
            else do {
              pred \<leftarrow> (if bytesShifted \<noteq> 0
                then read_shifts (bytesShifted * 8) (unat (numSamples * 2)) 0 shiftBits pred else Some pred);
              Some (ALAC_noErr, bits, pred, u, v, mixBits, mixRes, bytesShifted)
            }
          }
        }
        else do {
          (bits, u, v) \<leftarrow> escape_pair (ucast (bitDepth cfg)) (unat numSamples) 0 bits u v;
          Some (ALAC_noErr, bits, pred, u, v, 0, 0, 0)
        })"

definition sce_element :: "u32 \<Rightarrow> decode_state \<Rightarrow> (flow \<times> decode_state) option" where
  "sce_element numChannels st = do {
     (eh, st) \<leftarrow> read_element_header st;
     case eh of
       None \<Rightarrow> Some (Exit kALAC_ParamError, st)
     | Some eh \<Rightarrow> do {
         st \<leftarrow> read_numSamples eh st;
         let cfg = mConfig (dec st);
         pred \<leftarrow> mPredictor (dec st);
         u \<leftarrow> mMixBufferU (dec st);
         (status, bits, pred, u, bytesShifted) \<leftarrow> sce_samples cfg eh (dnum st) (dbits st) pred u;
         let st = st\<lparr>dbits := bits, dec := (dec st)\<lparr>mPredictor := Some pred, mMixBufferU := Some u\<rparr>\<rparr>;
         if status \<noteq> ALAC_noErr then Some (Exit status, st)
         else do {
           out \<leftarrow> sce_output (bitDepth cfg) u pred (dout st) (unat (dchan st)) (unat numChannels)
             (unat (dnum st)) bytesShifted;
           Some (Next ALAC_noErr, st\<lparr>dout := out, dchan := dchan st + 1, doutnum := dnum st\<rparr>)
         }
       }
   }"

definition cpe_element :: "u32 \<Rightarrow> decode_state \<Rightarrow> (flow \<times> decode_state) option" where
  "cpe_element numChannels st =
     (if dchan st + 2 > numChannels then Some (NoMoreChannels, st)
      else do {
        (eh, st) \<leftarrow> read_element_header st;
        case eh of
          None \<Rightarrow> Some (Exit kALAC_ParamError, st)
        | Some eh \<Rightarrow> do {
            st \<leftarrow> read_numSamples eh st;
            let cfg = mConfig (dec st);
            pred \<leftarrow> mPredictor (dec st);
            u \<leftarrow> mMixBufferU (dec st);
            v \<leftarrow> mMixBufferV (dec st);
            (status, bits, pred, u, v, mixBits, mixRes, bytesShifted) \<leftarrow>
              cpe_samples cfg eh (dnum st) (dbits st) pred u v;
            let st = st\<lparr>dbits := bits,
              dec := (dec st)\<lparr>mPredictor := Some pred, mMixBufferU := Some u, mMixBufferV := Some v\<rparr>\<rparr>;
            if status \<noteq> ALAC_noErr then Some (Exit status, st)
            else do {
              out \<leftarrow> cpe_output (bitDepth cfg) u v pred (dout st) (unat (dchan st)) (unat numChannels)
                (unat (dnum st)) mixBits mixRes bytesShifted;
              Some (Next ALAC_noErr, st\<lparr>dout := out, dchan := dchan st + 2, doutnum := dnum st\<rparr>)
            }
          }
      })"

text \<open>Elements that are skipped.  The counts are 16-bit; a count of 15 or 255 is continued in a byte.\<close>

definition FillElement :: "bit_buffer \<Rightarrow> (int \<times> bit_buffer) option" where
  "FillElement bits = do {
     (c, bits) \<leftarrow> BitBufferReadSmall 4 bits;
     (count, bits) \<leftarrow> (if c = 15
       then do { (e, bits) \<leftarrow> BitBufferReadSmall 8 bits; Some (ucast c + (ucast e - 1) :: u16, bits) }
       else Some (ucast c, bits));
     let bits = BitBufferAdvance (scast count * 8) bits;
     Some (if cur bits \<le> bend bits then ALAC_noErr else kALAC_ParamError, bits)
   }"

definition DataStreamElement :: "bit_buffer \<Rightarrow> (int \<times> bit_buffer) option" where
  "DataStreamElement bits = do {
     (tag, bits) \<leftarrow> BitBufferReadSmall 4 bits;
     (data_byte_align_flag, bits) \<leftarrow> BitBufferReadOne bits;
     (c, bits) \<leftarrow> BitBufferReadSmall 8 bits;
     (count, bits) \<leftarrow> (if c = 255
       then do { (e, bits) \<leftarrow> BitBufferReadSmall 8 bits; Some (ucast c + ucast e :: u16, bits) }
       else Some (ucast c, bits));
     bits \<leftarrow> (if data_byte_align_flag \<noteq> 0 then BitBufferByteAlign False bits else Some bits);
     let bits = BitBufferAdvance (ucast count * 8) bits;
     Some (if cur bits \<le> bend bits then ALAC_noErr else kALAC_ParamError, bits)
   }"

text \<open>Zeroing a channel: the bound of the index is a 32-bit product, and so is the size of \<^verbatim>\<open>Zero24\<close>'s
  \<^verbatim>\<open>memset\<close>.\<close>

definition zero_count :: "nat \<Rightarrow> nat \<Rightarrow> nat" where
  "zero_count lim step = (lim + step - 1) div step"

definition Zero16 :: "u32 \<Rightarrow> u32 \<Rightarrow> byte list \<Rightarrow> nat \<Rightarrow> byte list option" where
  "Zero16 numItems stride out p =
     (if stride = 1 then memcpy out p (replicate (unat numItems * 2) 0)
      else out_frames (\<lambda>_. Some [0, 0]) (2 * unat stride) (zero_count (unat (numItems * stride)) (unat stride)) 0 p out)"

definition Zero24 :: "u32 \<Rightarrow> u32 \<Rightarrow> byte list \<Rightarrow> nat \<Rightarrow> byte list option" where
  "Zero24 numItems stride out p =
     (if stride = 1 then memcpy out p (replicate (unat (numItems * 3)) 0)
      else out_frames (\<lambda>_. Some [0, 0, 0]) (unat (stride * 3))
        (zero_count (unat (numItems * stride * 3)) (unat (stride * 3))) 0 p out)"

definition Zero32 :: "u32 \<Rightarrow> u32 \<Rightarrow> byte list \<Rightarrow> nat \<Rightarrow> byte list option" where
  "Zero32 numItems stride out p =
     (if stride = 1 then memcpy out p (replicate (unat numItems * 4) 0)
      else out_frames (\<lambda>_. Some [0, 0, 0, 0]) (4 * unat stride) (zero_count (unat (numItems * stride)) (unat stride)) 0 p out)"

primrec fill_channels :: "byte \<Rightarrow> u32 \<Rightarrow> u32 \<Rightarrow> nat \<Rightarrow> nat \<Rightarrow> byte list \<Rightarrow> byte list option" where
  "fill_channels depth numSamples numChannels 0 channelIndex out = Some out"
| "fill_channels depth numSamples numChannels (Suc n) channelIndex out = do {
     out \<leftarrow> (if depth = 16 then Zero16 numSamples numChannels out (2 * channelIndex)
       else if depth = 24 then Zero24 numSamples numChannels out (channelIndex * 3)
       else if depth = 32 then Zero32 numSamples numChannels out (4 * channelIndex)
       else Some out);
     fill_channels depth numSamples numChannels n (channelIndex + 1) out
   }"

section \<open>Decode\<close>

text \<open>One turn of the loop, after the check for the end of the buffer: the tag and the \<^verbatim>\<open>switch\<close>.\<close>

definition decode_element :: "u32 \<Rightarrow> decode_state \<Rightarrow> (flow \<times> decode_state) option" where
  "decode_element numChannels st = do {
     (tag, bits) \<leftarrow> BitBufferReadSmall 3 (dbits st);
     let st = st\<lparr>dbits := bits\<rparr>;
     if tag = 0 \<or> tag = 3 then sce_element numChannels st
     else if tag = 1 then cpe_element numChannels st
     else if tag = 2 \<or> tag = 5 then Some (Next kALAC_ParamError, st)
     else if tag = 4 then do {
       (status, bits) \<leftarrow> DataStreamElement bits;
       Some (Next status, st\<lparr>dbits := bits\<rparr>)
     }
     else if tag = 6 then do {
       (status, bits) \<leftarrow> FillElement bits;
       Some (Next status, st\<lparr>dbits := bits\<rparr>)
     }
     else do {
       bits \<leftarrow> BitBufferByteAlign False bits;
       Some (Exit ALAC_noErr, st\<lparr>dbits := bits\<rparr>)
     }
   }"

text \<open>The loop, with fuel: every turn reads a tag, so the bits of the buffer bound their number.  Afterwards the
  channels that were not decoded are zeroed, except on an exit.\<close>

definition finish_channels :: "u32 \<Rightarrow> int \<Rightarrow> decode_state \<Rightarrow> (int \<times> decode_state) option" where
  "finish_channels numChannels status st = do {
     out \<leftarrow> fill_channels (bitDepth (mConfig (dec st))) (dnum st) numChannels
       (unat numChannels - unat (dchan st)) (unat (dchan st)) (dout st);
     Some (status, st\<lparr>dout := out\<rparr>)
   }"

primrec decode_loop :: "nat \<Rightarrow> u32 \<Rightarrow> decode_state \<Rightarrow> (int \<times> decode_state) option" where
  "decode_loop 0 numChannels st = None"
| "decode_loop (Suc fuel) numChannels st =
     (if \<not> cur (dbits st) < bend (dbits st) then Some (kALAC_ParamError, st)
      else do {
        (fl, st) \<leftarrow> decode_element numChannels st;
        case fl of
          Exit status \<Rightarrow> Some (status, st)
        | NoMoreChannels \<Rightarrow> finish_channels numChannels ALAC_noErr st
        | Next status \<Rightarrow>
            if dchan st \<ge> numChannels \<or> status \<noteq> ALAC_noErr then finish_channels numChannels status st
            else decode_loop fuel numChannels st
      })"

definition decode_fuel :: "bit_buffer \<Rightarrow> nat" where
  "decode_fuel bits = 8 * bend bits + 1"

text \<open>\<^verbatim>\<open>*outNumSamples\<close> is written unless there are no channels; \<^verbatim>\<open>out0\<close> is what it held.\<close>

definition ALACDecoder_Decode ::
  "alac_decoder \<Rightarrow> bit_buffer \<Rightarrow> byte list \<Rightarrow> u32 \<Rightarrow> u32 \<Rightarrow> u32 \<Rightarrow> (int \<times> decode_state) option" where
  "ALACDecoder_Decode d bits sampleBuffer numSamples numChannels out0 = (
     let st = \<lparr>dec = d, dbits = bits, dout = sampleBuffer, dnum = numSamples, dchan = 0, doutnum = out0\<rparr>
     in if numChannels = 0 then Some (kALAC_ParamError, st)
        else decode_loop (decode_fuel bits) numChannels (st\<lparr>dec := d\<lparr>mActiveElements := 0\<rparr>, doutnum := numSamples\<rparr>))"

end
