(* ===== verification/Alac_Wrapper.thy ===== *)
theory Alac_Wrapper
  imports Alac_Decoder
begin

text \<open>
  \<^verbatim>\<open>alac/alac_decoder_wrapper.cpp\<close>: the decoder the jitter buffer uses.  It builds the magic cookie for the
  stream's format, keeps the decoder object, and tries a packet at the offsets where the payload may start.
\<close>

unbundle bit_operations_syntax

record alac_decoder_wrapper =
  aw_decoder :: alac_decoder
  aw_sample_rate :: u32
  aw_bit_depth :: u32
  aw_channels :: u32
  aw_frames_per_packet :: u32

definition write_be16 :: "byte list \<Rightarrow> nat \<Rightarrow> u16 \<Rightarrow> byte list option" where
  "write_be16 buffer at v = do {
     buffer \<leftarrow> wr buffer (at + 0) (ucast (drop_bit 8 v AND 0xff));
     wr buffer (at + 1) (ucast (v AND 0xff))
   }"

definition write_be32 :: "byte list \<Rightarrow> nat \<Rightarrow> u32 \<Rightarrow> byte list option" where
  "write_be32 buffer at v = do {
     buffer \<leftarrow> wr buffer (at + 0) (ucast (drop_bit 24 v AND 0xff));
     buffer \<leftarrow> wr buffer (at + 1) (ucast (drop_bit 16 v AND 0xff));
     buffer \<leftarrow> wr buffer (at + 2) (ucast (drop_bit 8 v AND 0xff));
     wr buffer (at + 3) (ucast (v AND 0xff))
   }"

definition build_alac_magic_cookie :: "u32 \<Rightarrow> u32 \<Rightarrow> u32 \<Rightarrow> u32 \<Rightarrow> byte list option" where
  "build_alac_magic_cookie sample_rate bit_depth channels frames_per_packet = do {
     let cookie = replicate 24 0;
     cookie \<leftarrow> write_be32 cookie 0 frames_per_packet;
     cookie \<leftarrow> wr cookie 4 0;
     cookie \<leftarrow> wr cookie 5 (ucast bit_depth);
     cookie \<leftarrow> wr cookie 6 40;
     cookie \<leftarrow> wr cookie 7 10;
     cookie \<leftarrow> wr cookie 8 14;
     cookie \<leftarrow> wr cookie 9 (ucast channels);
     cookie \<leftarrow> write_be16 cookie 10 255;
     cookie \<leftarrow> write_be32 cookie 12 0;
     cookie \<leftarrow> write_be32 cookie 16 0;
     write_be32 cookie 20 sample_rate
   }"

text \<open>Allocations 0 and 1 are those of the wrapper and of the decoder object; the others those of \<^verbatim>\<open>Init\<close>.\<close>

definition alac_decoder_wrapper_create ::
  "(nat \<Rightarrow> bool) \<Rightarrow> u16 \<Rightarrow> u32 \<Rightarrow> u32 \<Rightarrow> u32 \<Rightarrow> u32 \<Rightarrow> alac_decoder_wrapper option option" where
  "alac_decoder_wrapper_create alloc active sample_rate bit_depth channels frames_per_packet =
     (if sample_rate = 0 \<or> bit_depth = 0 \<or> channels = 0 \<or> frames_per_packet = 0 then Some None
      else if \<not> alloc 0 then Some None
      else if \<not> alloc 1 then Some None
      else do {
        cookie \<leftarrow> build_alac_magic_cookie sample_rate bit_depth channels frames_per_packet;
        (status, d) \<leftarrow> ALACDecoder_Init (\<lambda>i. alloc (i + 2)) cookie 24 (ALACDecoder active);
        if status \<noteq> ALAC_noErr then Some None
        else Some (Some \<lparr>aw_decoder = d, aw_sample_rate = sample_rate, aw_bit_depth = bit_depth,
          aw_channels = channels, aw_frames_per_packet = frames_per_packet\<rparr>)
      })"

text \<open>The objects are deleted; nothing is left.\<close>

definition alac_decoder_wrapper_destroy :: "alac_decoder_wrapper option \<Rightarrow> alac_decoder_wrapper option" where
  "alac_decoder_wrapper_destroy w = None"

text \<open>What the caller sees of a call: the status, the wrapper, the output buffer, the frames and bytes written
  (unchanged unless it succeeds).\<close>

record wrapper_out =
  wo_output :: "byte list"
  wo_frames :: u32
  wo_bytes :: nat
  wo_offset :: u32

definition decode_at_offset ::
  "alac_decoder_wrapper \<Rightarrow> byte list \<Rightarrow> nat \<Rightarrow> nat \<Rightarrow> nat \<Rightarrow> wrapper_out
     \<Rightarrow> (int \<times> alac_decoder_wrapper \<times> wrapper_out) option" where
  "decode_at_offset w inp input_size offset output_size res =
     (if offset \<ge> input_size then Some (kALAC_ParamError, w, res)
      else let bytes_per_sample = aw_bit_depth w div 8;
               needed = unat (aw_frames_per_packet w) * unat (aw_channels w) * unat bytes_per_sample
           in if output_size < needed then Some (kALAC_ParamError, w, res)
              else do {
                let bits = BitBufferInit (drop offset inp) (of_nat (input_size - offset));
                (status, st) \<leftarrow> ALACDecoder_Decode (aw_decoder w) bits (wo_output res) (aw_frames_per_packet w)
                  (aw_channels w) 0;
                let w = w\<lparr>aw_decoder := dec st\<rparr>;
                let res = res\<lparr>wo_output := dout st\<rparr>;
                if status \<noteq> ALAC_noErr \<or> doutnum st = 0
                then Some (if status = ALAC_noErr then kALAC_ParamError else status, w, res)
                else Some (ALAC_noErr, w, res\<lparr>wo_frames := doutnum st,
                  wo_bytes := unat (doutnum st) * unat (aw_channels w) * unat bytes_per_sample\<rparr>)
              })"

definition decode_offsets :: "byte list \<Rightarrow> nat \<Rightarrow> nat list option" where
  "decode_offsets inp input_size =
     (if input_size > 1
      then do {
        b \<leftarrow> rd inp 0;
        Some ((if b = 0 then [1] else []) @ [0] @ (if input_size > 4 then [4] else []))
      }
      else Some [0])"

fun try_offsets ::
  "alac_decoder_wrapper \<Rightarrow> byte list \<Rightarrow> nat \<Rightarrow> nat \<Rightarrow> int option \<Rightarrow> nat list \<Rightarrow> wrapper_out
     \<Rightarrow> (int \<times> alac_decoder_wrapper \<times> wrapper_out) option" where
  "try_offsets w inp input_size output_size first [] res =
     Some (case first of None \<Rightarrow> kALAC_ParamError | Some s \<Rightarrow> s, w, res)"
| "try_offsets w inp input_size output_size first (off # offs) res = do {
     (status, w, res) \<leftarrow> decode_at_offset w inp input_size off output_size res;
     if status = ALAC_noErr then Some (ALAC_noErr, w, res\<lparr>wo_offset := of_nat off\<rparr>)
     else try_offsets w inp input_size output_size (if first = None then Some status else first) offs res
   }"

text \<open>The pointers of the results are those of the caller, who passes all of them; \<^verbatim>\<open>input_size\<close> and
  \<^verbatim>\<open>output_size\<close> are what the caller says of its buffers.\<close>

definition alac_decoder_wrapper_decode ::
  "alac_decoder_wrapper option \<Rightarrow> byte list option \<Rightarrow> nat \<Rightarrow> nat \<Rightarrow> wrapper_out
     \<Rightarrow> (int \<times> alac_decoder_wrapper option \<times> wrapper_out) option" where
  "alac_decoder_wrapper_decode decoder inp input_size output_size res =
     (case (decoder, inp) of
        (Some w, Some inp) \<Rightarrow>
          if input_size = 0 then Some (kALAC_ParamError, decoder, res)
          else do {
            offs \<leftarrow> decode_offsets inp input_size;
            (status, w, res) \<leftarrow> try_offsets w inp input_size output_size None offs res;
            Some (status, Some w, res)
          }
      | _ \<Rightarrow> Some (kALAC_ParamError, decoder, res))"

end
