(* ===== verification/Alac_Progress.thy ===== *)
theory Alac_Progress
  imports Alac_Wrapper
begin

text \<open>
  What every call of the ALAC decoder keeps, whatever the packet: the bit buffer only moves forward, the loop
  over the elements ends, the configuration and the sizes of the buffers never change; and the magic cookie
  round trip that establishes this state.  Packets of 256 MB and more are left out: from there on the 32-bit bit
  positions of the entropy decoder may wrap around.
\<close>

unbundle bit_operations_syntax

section \<open>The bit buffer only moves forward\<close>

definition bb_after :: "bit_buffer \<Rightarrow> bit_buffer \<Rightarrow> bool" where
  "bb_after b0 b \<longleftrightarrow> bb_mem b = bb_mem b0 \<and> bend b = bend b0 \<and> byteSize b = byteSize b0 \<and>
     bb_pos b0 \<le> bb_pos b \<and> bb_ok b"

lemma bb_after_refl: "bb_ok b \<Longrightarrow> bb_after b b"
  by (simp add: bb_after_def)

lemma bb_after_trans: "bb_after a b \<Longrightarrow> bb_after b c \<Longrightarrow> bb_after a c"
  by (auto simp: bb_after_def)

lemma bb_after_step: "\<lbrakk>bb_after b0 b; unat n < 2 ^ 32 - 8\<rbrakk> \<Longrightarrow> bb_after b0 (bb_step b n)"
  using bb_step_pos [of b n] by (auto simp: bb_after_def)

lemma BitBufferRead_after:
  assumes "bb_after b0 b"
  shows "pred_option (\<lambda>(x, b'). bb_after b0 b') (BitBufferRead n b)"
proof (cases "BitBufferRead n b")
  case (Some r)
  then have "n \<le> 24" "snd r = bb_step b (of_nat n)"
    by (auto simp: BitBufferRead_def mem_simps bind_eq_Some_conv)
  moreover from this(1) have "unat (of_nat n :: u32) < 2 ^ 32 - 8" by (subst unat_of_nat_u32) simp_all
  ultimately show ?thesis using bb_after_step [OF assms] Some by (cases r) simp
qed simp

lemma BitBufferReadSmall_after:
  assumes "bb_after b0 b"
  shows "pred_option (\<lambda>(x, b'). bb_after b0 b' \<and> bb_pos b' = bb_pos b + n) (BitBufferReadSmall n b)"
proof (cases "BitBufferReadSmall n b")
  case (Some r)
  then have "n \<le> 16" "snd r = bb_step b (of_nat n)"
    by (auto simp: BitBufferReadSmall_def mem_simps bind_eq_Some_conv Let_def)
  moreover from this(1) have u: "unat (of_nat n :: u32) = n" by (subst unat_of_nat_u32) simp_all
  ultimately show ?thesis
    using bb_after_step [OF assms, of "of_nat n"] bb_step_pos(1) [of b "of_nat n"] Some assms
    by (cases r) (simp add: u bb_after_def)
qed simp

lemma BitBufferReadOne_after:
  "bb_after b0 b \<Longrightarrow> pred_option (\<lambda>(x, b'). bb_after b0 b') (BitBufferReadOne b)"
  using bb_after_step [of b0 b 1] by (auto simp: BitBufferReadOne_def pred_option_def mem_simps bind_eq_Some_conv)

lemma BitBufferAdvance_after:
  "\<lbrakk>bb_after b0 b; unat n < 2 ^ 32 - 8\<rbrakk> \<Longrightarrow> bb_after b0 (BitBufferAdvance n b)"
  using bb_after_step by (simp add: BitBufferAdvance_def)

text \<open>An advance by whole bytes cannot wrap around.\<close>

lemma BitBufferAdvance_nowrap:
  "\<lbrakk>bb_after b0 b; unat (bitIndex b) + unat n < 2 ^ 32\<rbrakk> \<Longrightarrow> bb_after b0 (BitBufferAdvance n b)"
  using bb_step_nowrap [of b n] by (auto simp: bb_after_def BitBufferAdvance_def)

lemma BitBufferAdvance_bytes:
  assumes "bb_after b0 b" and "8 dvd unat n"
  shows "bb_after b0 (BitBufferAdvance n b)"
proof (rule BitBufferAdvance_nowrap [OF assms(1)])
  have "unat (bitIndex b) < 8" using assms(1) by (simp add: bb_after_def bb_ok_def word_less_nat_alt)
  moreover have "unat n \<le> 2 ^ 32 - 8"
    using assms(2) unat_less_exp [of n] by (auto elim!: dvdE)
  ultimately show "unat (bitIndex b) + unat n < 2 ^ 32" by simp
qed

lemma eight_dvd_times: "8 dvd unat (of_nat (8 * k) * (x :: u32))"
proof -
  have "(of_nat (8 * k) * x :: u32) = 8 * (of_nat k * x)" by simp
  moreover have "8 dvd 8 * unat (of_nat k * x) mod 2 ^ 32" by (rule dvd_mod) simp_all
  ultimately show ?thesis by (simp only: unat_word_ariths) simp
qed

section \<open>The entropy decoder moves forward and keeps the array's length\<close>

lemma read32bit_room: "read32bit inp off = Some w \<Longrightarrow> off + 4 \<le> length inp"
  by (auto simp: read32bit_def mem_simps bind_eq_Some_conv)

lemma read32bit_position:
  assumes "read32bit inp (unat (drop_bit 3 (p :: u32))) = Some w" and "length inp < 2 ^ 28"
  shows "unat p < 2 ^ 31"
proof -
  have "unat p div 8 + 4 < 2 ^ 28"
    using read32bit_room [OF assms(1)] assms(2) by (simp add: drop_bit_eq_div unat_div_distrib)
  then show ?thesis by simp
qed

lemma unat_plus_small: "\<lbrakk>unat (p :: u32) \<le> m; m + n < 2 ^ 32\<rbrakk> \<Longrightarrow> unat (p + of_nat n) = unat p + n"
  by (subst unat_plus_nowrap) (auto simp: unat_of_nat_u32)

lemma dyn_get_after:
  assumes "length inp < 2 ^ 28"
  shows "pred_option (\<lambda>(n, p'). unat p \<le> unat p') (dyn_get inp p m k)"
proof (cases "read32bit inp (unat (drop_bit 3 p))")
  case (Some w)
  have p: "unat p < 2 ^ 31" by (rule read32bit_position [OF Some assms])
  let ?pre = "lead (NOT (push_bit (unat (p AND 7)) w))"
  have long: "unat (p + of_nat 9 + of_nat 16) = unat p + 25"
    using p unat_plus_small [of p "2 ^ 31" 25] by (simp add: add.assoc)
  have short: "unat p \<le> unat (p + of_nat ?pre + 1 + of_nat k)" "unat p \<le> unat (p + of_nat ?pre + 1 + of_nat k - 1)"
    if "?pre < 9" "k \<le> 32"
  proof -
    have "unat (p + of_nat (?pre + 1 + k)) = unat p + (?pre + 1 + k)" "unat (p + of_nat (?pre + k)) = unat p + (?pre + k)"
      using p that by (intro unat_plus_small [of _ "2 ^ 31"]; simp)+
    then show "unat p \<le> unat (p + of_nat ?pre + 1 + of_nat k)" "unat p \<le> unat (p + of_nat ?pre + 1 + of_nat k - 1)"
      by (simp_all add: algebra_simps)
  qed
  show ?thesis
    using long short Some
    by (auto simp: dyn_get_def pred_option_def mem_simps bind_eq_Some_conv Let_def get_next_fromlong_def
        MAX_PREFIX_16_def MAX_DATATYPE_BITS_16_def split: if_splits)
qed (simp add: dyn_get_def)

lemma dyn_get_32bit_after:
  assumes "length inp < 2 ^ 28"
  shows "pred_option (\<lambda>(n, p'). unat p \<le> unat p') (dyn_get_32bit inp p m k maxbits)"
proof (cases "read32bit inp (unat (drop_bit 3 p))")
  case (Some w)
  have p: "unat p < 2 ^ 31" by (rule read32bit_position [OF Some assms])
  let ?pre = "lead (NOT (push_bit (unat (p AND 7)) w))"
  have more: "unat p \<le> unat (p + of_nat n)" if "n \<le> 1024" for n
    using p that by (subst unat_plus_small [of _ "2 ^ 31"]) simp_all
  have long: "unat p \<le> unat (p + of_nat 9 + of_nat maxbits)" if "maxbits \<le> 32"
    using more [of "9 + maxbits"] that by (simp add: add.assoc)
  have short: "unat p \<le> unat (p + of_nat ?pre + 1)" if "?pre < 9"
    using more [of "?pre + 1"] that by (simp add: algebra_simps)
  have code: "unat p \<le> unat (p + of_nat ?pre + 1 + of_nat k - 1)" "unat p \<le> unat (p + of_nat ?pre + 1 + of_nat k - 1 + 1)"
    if "?pre < 9" "k \<le> 32"
    using more [of "?pre + k"] more [of "?pre + k + 1"] that by (simp_all add: algebra_simps)
  show ?thesis
    using long short code Some
    by (auto simp: dyn_get_32bit_def pred_option_def mem_simps bind_eq_Some_conv Let_def get_next_fromlong_def
        getstreambits_def MAX_PREFIX_32_def split: if_splits)
qed (simp add: dyn_get_32bit_def)

lemma dyn_loop_after:
  assumes inp: "length inp < 2 ^ 28"
  shows "pred_option (\<lambda>(s, p', pc'). unat p \<le> unat p' \<and> length pc' = length pc)
    (dyn_loop ps inp maxPos numSamples maxSize p c mb zmode pc)"
proof (induction "unat numSamples - c" arbitrary: p c mb zmode pc rule: less_induct)
  case less
  have IH: "pred_option (\<lambda>(s, p2, pc2). unat p \<le> unat p2 \<and> length pc2 = length pc)
      (dyn_loop ps inp maxPos numSamples maxSize p' c' mb' zmode' pc')"
    if "c < unat numSamples" "c < c'" "unat p \<le> unat p'" "length pc' = length pc" for p' c' mb' zmode' pc'
    using that by (intro pred_option_weaken [OF less.hyps]) (auto intro: diff_less_mono2)
  show ?case
  proof (cases "c < unat numSamples \<and> p < maxPos")
    case True
    show ?thesis
      apply (subst dyn_loop.simps)
      apply (simp only: True Let_def not_True_eq_False if_False simp_thms)
      apply (rule pred_option_bind [OF pred_option_trivial])
      apply (rule pred_option_bind [OF dyn_get_32bit_after [OF inp]])
      apply clarsimp
      apply (rule pred_option_bind [where P = "\<lambda>pc'. length pc' = length pc"])
       apply (simp add: wr_def)
      apply (rule pred_option_if)
       apply (rule pred_option_bind [OF pred_option_trivial])
       apply (rule pred_option_bind [OF dyn_get_after [OF inp]])
       apply clarify
       apply (rule pred_option_if)
        apply simp
       apply (rule pred_option_bind [where P = "\<lambda>pc'. length pc' = length pc"])
        apply (auto simp: memcpy_def)[1]
       apply (rule IH; use True in simp)
      apply (rule IH; use True in simp)
      done
  qed (subst dyn_loop.simps; auto)
qed

lemma dyn_decomp_after:
  assumes "bb_after b0 b" and "length (bb_mem b0) < 2 ^ 28"
  shows "pred_option (\<lambda>(s, n, b', pc'). bb_after b0 b' \<and> length pc' = length pc) (dyn_decomp ps b pc numSamples maxSize)"
proof -
  have inp: "length (drop (cur b) (bb_mem b)) < 2 ^ 28"
    using assms by (simp add: bb_after_def)
  have adv: "bb_after b0 (BitBufferAdvance (p - bitIndex b) b)" if "unat (bitIndex b) \<le> unat p" for p
  proof (rule BitBufferAdvance_nowrap [OF assms(1)])
    have "unat (p - bitIndex b) = unat p - unat (bitIndex b)"
      using that by (simp add: unat_sub word_le_nat_alt)
    then show "unat (bitIndex b) + unat (p - bitIndex b) < 2 ^ 32"
      using that unat_less_exp [of p] by simp
  qed
  show ?thesis
    unfolding dyn_decomp_def Let_def
    by (rule pred_option_bind [OF dyn_loop_after [OF inp]]) (auto intro: adv)
qed
section \<open>The other parts of an element\<close>

lemma wr_length: "length xs = L \<Longrightarrow> pred_option (\<lambda>ys. length ys = L) (wr xs i x)"
  by (simp add: wr_def)

lemma memcpy_length_pred: "length xs = L \<Longrightarrow> pred_option (\<lambda>ys. length ys = L) (memcpy xs i x)"
  by (auto simp: memcpy_def)

lemma out_frames_length: "length out = L \<Longrightarrow> pred_option (\<lambda>out'. length out' = L) (out_frames f step n j p out)"
proof (induction n arbitrary: j p out)
  case (Suc n)
  then show ?case
    unfolding out_frames.simps
    by (intro pred_option_bind [OF pred_option_trivial] pred_option_bind [OF memcpy_length_pred]) auto
qed simp

lemma unpc_loop_length:
  "length out = L \<Longrightarrow> pred_option (\<lambda>(out', st'). length out' = L) (unpc_loop step lim pc n j out st)"
proof (induction n arbitrary: j out st)
  case (Suc n)
  show ?case
    unfolding unpc_loop.simps
    by (rule pred_option_bind [OF pred_option_trivial])+
      (rule pred_option_case_prod, rule pred_option_bind [OF wr_length [OF Suc.prems]], rule Suc.IH)
qed simp

lemma unpc_warmup_length: "length out = L \<Longrightarrow> pred_option (\<lambda>out'. length out' = L) (unpc_warmup pc out n c)"
  unfolding unpc_warmup_def
  by (rule pred_option_bind [OF pred_option_trivial])
    (intro pred_option_bind [OF wr_length] pred_option_bind [OF pred_option_trivial] memcpy_length_pred; assumption)

lemma unpc_block_length:
  assumes "length out = L"
  shows "pred_option (\<lambda>(out', c). length out' = L) (unpc_block pc out num coefs numactive chanbits denshift)"
proof -
  consider "numactive = 0" | "numactive = 31" | "numactive \<noteq> 0" "numactive \<noteq> 31" by blast
  then show ?thesis
  proof cases
    case 1
    show ?thesis
      by (simp only: unpc_block_def Let_def 1 refl if_True, rule pred_option_bind [OF pred_option_trivial],
          rule pred_option_bind [OF wr_length [OF assms]], rule pred_option_if,
          rule pred_option_bind [OF pred_option_trivial], rule pred_option_bind [OF memcpy_length_pred])
        simp_all
  next
    case 2
    then show ?thesis
      unfolding unpc_block_def Let_def
      by (simp, intro pred_option_bind [OF unpc_warmup_length [OF assms]]) simp
  next
    case 3
    then show ?thesis
      unfolding unpc_block_unrolled [OF 3] unpc_general_def
      by (intro pred_option_bind [OF unpc_warmup_length [OF assms]] pred_option_bind [OF pred_option_trivial] unpc_loop_length)
  qed
qed

text \<open>The readers of an element.\<close>

lemma read_coefs_after: "bb_after b0 b \<Longrightarrow> pred_option (\<lambda>(cs, b'). bb_after b0 b') (read_coefs n b)"
proof (induction n arbitrary: b)
  case (Suc n)
  show ?case
    unfolding read_coefs.simps
    by (rule pred_option_bind [OF BitBufferRead_after [OF Suc.prems]])
      (auto intro!: pred_option_bind [OF Suc.IH])
qed simp

lemma read_channel_params_after:
  "bb_after b0 b \<Longrightarrow> pred_option (\<lambda>(ch, b'). bb_after b0 b') (read_channel_params b)"
  unfolding read_channel_params_def Let_def
  by (auto intro!: pred_option_bind [OF BitBufferRead_after] pred_option_bind [OF read_coefs_after])

lemma decompress_channel_after:
  assumes "bb_after b0 b" and "length (bb_mem b0) < 2 ^ 28" and "length pred = L" and "length mix = M"
  shows "pred_option (\<lambda>(s, b', pred', mix'). bb_after b0 b' \<and> length pred' = L \<and> length mix' = M)
    (decompress_channel cfg ch n chanBits b pred mix)"
proof -
  have in_place: "pred_option (\<lambda>q. length q = L) (if ch_mode ch = 0 then Some pr
      else do { (q, c) \<leftarrow> unpc_block pr pr (sint n) [] 31 chanBits 0; Some q })" if "length pr = L" for pr
    using that by (auto intro!: pred_option_bind [OF unpc_block_length])
  show ?thesis
    unfolding decompress_channel_def
    apply (rule pred_option_bind [OF pred_option_trivial])
    apply (rule pred_option_bind [OF dyn_decomp_after [OF assms(1,2)]])
    apply (intro pred_option_case_prod pred_option_if)
    using assms(3,4) apply simp
    apply (rule pred_option_bind [OF in_place])
    using assms(3) apply simp
    apply (rule pred_option_bind [OF unpc_block_length [OF assms(4)]])
    apply (intro pred_option_case_prod)
    apply simp
    done
qed

lemma escape_sample_after: "bb_after b0 b \<Longrightarrow> pred_option (\<lambda>(x, b'). bb_after b0 b') (escape_sample c b)"
  unfolding escape_sample_def Let_def
  by (rule pred_option_if; rule pred_option_bind [OF BitBufferRead_after], assumption, rule pred_option_case_prod,
      rule pred_option_bind [OF pred_option_trivial])
    (auto intro!: pred_option_bind [OF BitBufferRead_after])

lemma escape_mono_after:
  "\<lbrakk>bb_after b0 b; length u = L\<rbrakk> \<Longrightarrow> pred_option (\<lambda>(b', u'). bb_after b0 b' \<and> length u' = L) (escape_mono c n i b u)"
proof (induction n arbitrary: i b u)
  case (Suc n)
  show ?case
    unfolding escape_mono.simps
    by (rule pred_option_bind [OF escape_sample_after [OF Suc.prems(1)]])
      (auto intro!: pred_option_bind [OF wr_length] Suc.IH Suc.prems(2))
qed simp

lemma escape_pair_after:
  "\<lbrakk>bb_after b0 b; length u = L; length v = M\<rbrakk> \<Longrightarrow>
    pred_option (\<lambda>(b', u', v'). bb_after b0 b' \<and> length u' = L \<and> length v' = M) (escape_pair c n i b u v)"
proof (induction n arbitrary: i b u v)
  case (Suc n)
  show ?case
    unfolding escape_pair.simps
    apply (rule pred_option_bind [OF escape_sample_after [OF Suc.prems(1)]])
    apply (rule pred_option_case_prod, rule pred_option_bind [OF wr_length [OF Suc.prems(2)]])
    apply (rule pred_option_bind [OF escape_sample_after], simp)
    apply (rule pred_option_case_prod, rule pred_option_bind [OF wr_length [OF Suc.prems(3)]])
    apply (rule Suc.IH; simp)
    done
qed simp

lemma read_shifts_length: "length pr = L \<Longrightarrow> pred_option (\<lambda>pr'. length pr' = L) (read_shifts s n i b pr)"
proof (induction n arbitrary: i b pr)
  case (Suc n)
  have w: "pred_option (\<lambda>pr'. length pr' = L) (shift_write pr i x)" for x
    unfolding shift_write_def using Suc.prems
    by (intro pred_option_bind [OF pred_option_trivial] wr_length)
  show ?case
    unfolding read_shifts.simps
    by (rule pred_option_bind [OF pred_option_trivial])
      (rule pred_option_case_prod, rule pred_option_bind [OF w], rule Suc.IH)
qed simp

section \<open>Elements keep the decoder in shape\<close>

text \<open>The configuration and the sizes of the buffers never change.\<close>

definition same_shape :: "alac_decoder \<Rightarrow> alac_decoder \<Rightarrow> bool" where
  "same_shape d d' \<longleftrightarrow> mConfig d' = mConfig d \<and>
     map_option length (mMixBufferU d') = map_option length (mMixBufferU d) \<and>
     map_option length (mMixBufferV d') = map_option length (mMixBufferV d) \<and>
     map_option length (mPredictor d') = map_option length (mPredictor d)"

definition st_after :: "bit_buffer \<Rightarrow> decode_state \<Rightarrow> decode_state \<Rightarrow> bool" where
  "st_after b0 st st' \<longleftrightarrow> bb_after b0 (dbits st') \<and> same_shape (dec st) (dec st') \<and> length (dout st') = length (dout st)"

lemma st_after_bits: "st_after b0 st st' \<Longrightarrow> bb_after b0 b \<Longrightarrow> st_after b0 st (st'\<lparr>dbits := b\<rparr>)"
  by (simp add: st_after_def)

lemma read_element_header_after:
  assumes "bb_after b0 (dbits st)"
  shows "pred_option (\<lambda>(eh, st'). st_after b0 st st') (read_element_header st)"
proof -
  show ?thesis
    unfolding read_element_header_def Let_def
    apply (rule pred_option_bind [OF BitBufferReadSmall_after [OF assms]])
    apply (rule pred_option_case_prod)
    apply (rule pred_option_bind [OF BitBufferRead_after [of b0]], simp)
    apply (rule pred_option_case_prod, rule pred_option_if)
     apply (simp add: st_after_def same_shape_def)
    apply (rule pred_option_bind [OF BitBufferRead_after [of b0]], simp)
    apply (auto simp: st_after_def same_shape_def)
    done
qed

lemma read_numSamples_after:
  assumes "st_after b0 st0 st"
  shows "pred_option (\<lambda>st'. st_after b0 st0 st') (read_numSamples eh st)"
proof -
  have b: "bb_after b0 (dbits st)" using assms by (simp add: st_after_def)
  show ?thesis
    unfolding read_numSamples_def
    apply (rule pred_option_if)
     apply (rule pred_option_bind [OF BitBufferRead_after [OF b]], rule pred_option_case_prod)
     apply (rule pred_option_bind [OF BitBufferRead_after [of b0]], simp)
    using assms apply (auto simp: st_after_def)
    done
qed

lemma sce_samples_after:
  assumes "bb_after b0 b" and mem: "length (bb_mem b0) < 2 ^ 28" and "length pr = L" and "length u = M"
  shows "pred_option (\<lambda>(s, b', pr', u', k). bb_after b0 b' \<and> length pr' = L \<and> length u' = M)
    (sce_samples cfg eh n b pr u)"
proof -
  have adv: "bb_after b0 (if k \<noteq> 0 then BitBufferAdvance (of_nat (k * 8) * n) b else b)" if "bb_after b0 b" for b k
    using that BitBufferAdvance_bytes [OF that eight_dvd_times] by (simp add: mult.commute [of 8])
  have sh: "pred_option (\<lambda>pr'. length pr' = L) (if k \<noteq> 0 then read_shifts (k * 8) m 0 b pr else Some pr)"
    if "length pr = L" for pr k m b
    using that read_shifts_length [OF that] by simp
  show ?thesis
    unfolding sce_samples_def Let_def
    apply (rule pred_option_if)
     apply (rule pred_option_bind [OF BitBufferRead_after [OF assms(1)]], rule pred_option_case_prod)
     apply (rule pred_option_bind [OF BitBufferRead_after [of b0]], simp, rule pred_option_case_prod)
     apply (rule pred_option_bind [OF read_channel_params_after [of b0]], simp, rule pred_option_case_prod)
     apply (rule pred_option_bind [OF decompress_channel_after [OF adv mem assms(3,4)]], simp)
     apply (intro pred_option_case_prod pred_option_if, simp)
     apply (rule pred_option_bind [OF sh], simp, simp)
    apply (rule pred_option_bind [OF escape_mono_after [OF assms(1,4)]])
    using assms(3) apply auto
    done
qed

lemma cpe_samples_after:
  assumes "bb_after b0 b" and mem: "length (bb_mem b0) < 2 ^ 28" and "length pr = L" and "length u = M" and "length v = N"
  shows "pred_option (\<lambda>(s, b', pr', u', v', x). bb_after b0 b' \<and> length pr' = L \<and> length u' = M \<and> length v' = N)
    (cpe_samples cfg eh n b pr u v)"
proof -
  have adv: "bb_after b0 (if k \<noteq> 0 then BitBufferAdvance (of_nat (k * 8) * 2 * n) b else b)" if "bb_after b0 b" for b k
    using that BitBufferAdvance_bytes [OF that eight_dvd_times [of k "2 * n"]] by (simp add: mult.commute [of 8] mult.assoc)
  have sh: "pred_option (\<lambda>pr'. length pr' = L) (if k \<noteq> 0 then read_shifts (k * 8) m 0 b pr else Some pr)"
    if "length pr = L" for pr k m b
    using that read_shifts_length [OF that] by simp
  show ?thesis
    unfolding cpe_samples_def Let_def
    apply (rule pred_option_if)
     apply (rule pred_option_bind [OF BitBufferRead_after [OF assms(1)]], rule pred_option_case_prod)
     apply (rule pred_option_bind [OF BitBufferRead_after [of b0]], simp, rule pred_option_case_prod)
     apply (rule pred_option_bind [OF read_channel_params_after [of b0]], simp, rule pred_option_case_prod)
     apply (rule pred_option_bind [OF read_channel_params_after [of b0]], simp, rule pred_option_case_prod)
     apply (rule pred_option_bind [OF decompress_channel_after [OF adv mem assms(3,4)]], simp)
     apply (intro pred_option_case_prod pred_option_if)
     using assms(5) apply simp
     apply (rule pred_option_bind [OF decompress_channel_after [of b0, OF _ mem _ assms(5)]], simp, simp)
     apply (intro pred_option_case_prod pred_option_if, simp)
     apply (rule pred_option_bind [OF sh], simp, simp)
    apply (rule pred_option_bind [OF escape_pair_after [OF assms(1,4,5)]])
    using assms(3) apply auto
    done
qed

lemma sce_output_length: "length out = L \<Longrightarrow> pred_option (\<lambda>o'. length o' = L) (sce_output depth u pr out ch nc n k)"
  unfolding sce_output_def copyPredictorTo20_def copyPredictorTo24_def copyPredictorTo24Shift_def
    copyPredictorTo32_def copyPredictorTo32Shift_def
  using out_frames_length by simp

lemma cpe_output_length:
  "length out = L \<Longrightarrow> pred_option (\<lambda>o'. length o' = L) (cpe_output depth u v pr out ch nc n mb mr k)"
  unfolding cpe_output_def unmix16_def unmix20_def unmix24_def unmix32_def Let_def
  using out_frames_length by simp

lemma fill_channels_length:
  "length out = L \<Longrightarrow> pred_option (\<lambda>o'. length o' = L) (fill_channels depth ns nc n ch out)"
proof (induction n arbitrary: ch out)
  case (Suc n)
  have z: "pred_option (\<lambda>o'. length o' = L) (if depth = 16 then Zero16 ns nc out (2 * ch)
      else if depth = 24 then Zero24 ns nc out (ch * 3) else if depth = 32 then Zero32 ns nc out (4 * ch) else Some out)"
    unfolding Zero16_def Zero24_def Zero32_def
    by (intro pred_option_if memcpy_length_pred out_frames_length Suc.prems) (simp add: Suc.prems)
  show ?case
    unfolding fill_channels.simps by (rule pred_option_bind [OF z], rule Suc.IH)
qed simp

lemma st_afterD: "st_after b0 st st' \<Longrightarrow> bb_after b0 (dbits st')"
  by (simp add: st_after_def)

lemma sce_element_after:
  assumes "bb_after b0 (dbits st)" and mem: "length (bb_mem b0) < 2 ^ 28"
  shows "pred_option (\<lambda>(f, st'). st_after b0 st st') (sce_element nc st)"
  unfolding sce_element_def Let_def
  apply (rule pred_option_bind [OF read_element_header_after [OF assms(1)]], rule pred_option_case_prod, rule pred_option_option)
   apply simp
  apply (rule pred_option_bind [OF read_numSamples_after], simp)
  apply (rule pred_option_bind [OF pred_option_self], rule pred_option_bind [OF pred_option_self])
  apply (rule pred_option_bind [OF sce_samples_after [OF st_afterD mem refl refl]], assumption)
  apply (intro pred_option_case_prod pred_option_if)
   apply (force simp: st_after_def same_shape_def)
  apply (rule pred_option_bind [OF sce_output_length [OF refl]])
  apply (force simp: st_after_def same_shape_def)
  done

lemma cpe_element_after:
  assumes "bb_after b0 (dbits st)" and mem: "length (bb_mem b0) < 2 ^ 28"
  shows "pred_option (\<lambda>(f, st'). st_after b0 st st') (cpe_element nc st)"
  unfolding cpe_element_def Let_def
  apply (rule pred_option_if)
  using assms apply (simp add: st_after_def same_shape_def)
  apply (rule pred_option_bind [OF read_element_header_after [OF assms(1)]], rule pred_option_case_prod, rule pred_option_option)
   apply simp
  apply (rule pred_option_bind [OF read_numSamples_after], simp)
  apply (rule pred_option_bind [OF pred_option_self], rule pred_option_bind [OF pred_option_self],
      rule pred_option_bind [OF pred_option_self])
  apply (rule pred_option_bind [OF cpe_samples_after [OF st_afterD mem refl refl refl]], assumption)
  apply (intro pred_option_case_prod pred_option_if)
   apply (force simp: st_after_def same_shape_def)
  apply (rule pred_option_bind [OF cpe_output_length [OF refl]])
  apply (force simp: st_after_def same_shape_def)
  done

lemma BitBufferAdvance_times8: "bb_after b0 b \<Longrightarrow> bb_after b0 (BitBufferAdvance (x * 8) b)"
  using BitBufferAdvance_bytes [OF _ eight_dvd_times [of 1 x]] by (simp add: mult.commute)

lemma FillElement_after: "bb_after b0 b \<Longrightarrow> pred_option (\<lambda>(s, b'). bb_after b0 b') (FillElement b)"
  unfolding FillElement_def Let_def
  apply (rule pred_option_bind [OF BitBufferReadSmall_after [of b0]], assumption, rule pred_option_case_prod)
  apply (rule pred_option_bind [where P = "\<lambda>(c, b'). bb_after b0 b'"])
   apply (rule pred_option_if)
    apply (rule pred_option_bind [OF BitBufferReadSmall_after [of b0]])
     apply (auto intro: BitBufferAdvance_times8)
  done

lemma BitBufferByteAlign_after: "bb_after b0 b \<Longrightarrow> pred_option (bb_after b0) (BitBufferByteAlign False b)"
proof -
  assume b: "bb_after b0 b"
  then have "bitIndex b < 8" by (simp add: bb_after_def bb_ok_def)
  then have "unat (8 - bitIndex b) < 2 ^ 32 - 8" by (simp add: unat_sub word_less_nat_alt word_le_nat_alt)
  from BitBufferAdvance_after [OF b this] show ?thesis using b by (simp add: BitBufferByteAlign_def)
qed

lemma DataStreamElement_after: "bb_after b0 b \<Longrightarrow> pred_option (\<lambda>(s, b'). bb_after b0 b') (DataStreamElement b)"
  unfolding DataStreamElement_def Let_def
  apply (rule pred_option_bind [OF BitBufferReadSmall_after [of b0]], assumption, rule pred_option_case_prod)
  apply (rule pred_option_bind [OF BitBufferReadOne_after [of b0]], simp, rule pred_option_case_prod)
  apply (rule pred_option_bind [OF BitBufferReadSmall_after [of b0]], simp, rule pred_option_case_prod)
  apply (rule pred_option_bind [where P = "\<lambda>(c, b'). bb_after b0 b'"])
   apply (rule pred_option_if)
    apply (rule pred_option_bind [OF BitBufferReadSmall_after [of b0]])
     apply auto [3]
  apply (rule pred_option_case_prod, rule pred_option_bind [where P = "bb_after b0"])
   apply (auto intro: BitBufferByteAlign_after BitBufferAdvance_times8)
  done

text \<open>Every turn of the loop reads at least the three bits of a tag.\<close>

lemma decode_element_after:
  assumes ok: "bb_ok (dbits st)" and mem: "length (bb_mem (dbits st)) < 2 ^ 28"
  shows "pred_option (\<lambda>(f, st'). st_after (dbits st) st st' \<and> bb_pos (dbits st) + 3 \<le> bb_pos (dbits st'))
    (decode_element nc st)"
proof -
  let ?post = "\<lambda>(f, st'). st_after (dbits st) st st' \<and> bb_pos (dbits st) + 3 \<le> bb_pos (dbits st')"
  have post: "pred_option ?post r"
    if b: "bb_after (dbits st) b" "bb_pos b = bb_pos (dbits st) + 3"
      and r: "pred_option (\<lambda>(f, st'). st_after b (st\<lparr>dbits := b\<rparr>) st') r" for b and r :: "(flow \<times> decode_state) option"
    using r by (rule pred_option_weaken) (use b in \<open>auto simp: st_after_def intro: bb_after_trans\<close>, auto simp: bb_after_def)
  show ?thesis
    unfolding decode_element_def Let_def
  proof (rule pred_option_bind [OF BitBufferReadSmall_after [OF bb_after_refl [OF ok]]], rule pred_option_case_prod, rule post)
    fix x :: "byte \<times> bit_buffer" and tag b
    assume x: "case x of (x, b') \<Rightarrow> bb_after (dbits st) b' \<and> bb_pos b' = bb_pos (dbits st) + 3" "x = (tag, b)"
    then show "bb_after (dbits st) b" "bb_pos b = bb_pos (dbits st) + 3" by auto
    have mem': "length (bb_mem b) < 2 ^ 28" and ok': "bb_after b b"
      using x mem by (auto simp: bb_after_def)
    let ?st = "st\<lparr>dbits := b\<rparr>"
    have st: "bb_after b (dbits ?st)" and stay: "st_after b ?st ?st" "\<And>b'. bb_after b b' \<Longrightarrow> st_after b ?st (st\<lparr>dbits := b'\<rparr>)"
      using ok' by (auto simp: st_after_def same_shape_def)
    show "pred_option (\<lambda>(f, st'). st_after b (st\<lparr>dbits := b\<rparr>) st')
      (if tag = 0 \<or> tag = 3 then sce_element nc ?st
       else if tag = 1 then cpe_element nc ?st
       else if tag = 2 \<or> tag = 5 then Some (Next kALAC_ParamError, ?st)
       else if tag = 4 then do { (status, bits) \<leftarrow> DataStreamElement b; Some (Next status, ?st\<lparr>dbits := bits\<rparr>) }
       else if tag = 6 then do { (status, bits) \<leftarrow> FillElement b; Some (Next status, ?st\<lparr>dbits := bits\<rparr>) }
       else do { bits \<leftarrow> BitBufferByteAlign False b; Some (Exit ALAC_noErr, ?st\<lparr>dbits := bits\<rparr>) })"
      apply (intro pred_option_if)
      apply (rule sce_element_after [OF st mem'])
      apply (rule cpe_element_after [OF st mem'])
      using stay apply simp
      apply (rule pred_option_bind [OF DataStreamElement_after [OF ok']])
      using stay apply auto [1]
      apply (rule pred_option_bind [OF FillElement_after [OF ok']])
      using stay apply auto [1]
      apply (rule pred_option_bind [OF BitBufferByteAlign_after [OF ok']])
      using stay apply auto [1]
      done
  qed
qed

section \<open>The loop of Decode\<close>

lemma decode_loop_fuel:
  "\<lbrakk>bb_ok (dbits st); length (bb_mem (dbits st)) < 2 ^ 28;
    8 * bend (dbits st) - bb_pos (dbits st) < fuel; 8 * bend (dbits st) - bb_pos (dbits st) < fuel'\<rbrakk> \<Longrightarrow>
    decode_loop fuel nc st = decode_loop fuel' nc st"
proof (induction fuel arbitrary: fuel' st)
  case (Suc fuel)
  obtain f where f: "fuel' = Suc f" using Suc.prems(4) by (cases fuel') auto
  show ?case
  proof (cases "cur (dbits st) < bend (dbits st)")
    case True
    show ?thesis
    proof (cases "decode_element nc st")
      case (Some r)
      obtain fl st' where r: "r = (fl, st')" by (cases r)
      have "st_after (dbits st) st st' \<and> bb_pos (dbits st) + 3 \<le> bb_pos (dbits st')"
        using decode_element_after [OF Suc.prems(1,2), of nc] Some r by simp
      then have st': "bb_ok (dbits st')" "length (bb_mem (dbits st')) < 2 ^ 28" "bend (dbits st') = bend (dbits st)"
        "bb_pos (dbits st) + 3 \<le> bb_pos (dbits st')"
        using Suc.prems(2) by (auto simp: st_after_def bb_after_def)
      have "bb_pos (dbits st) < 8 * bend (dbits st)"
        using True Suc.prems(1) by (simp add: bb_pos_def bb_ok_def word_less_nat_alt)
      then have "decode_loop fuel nc st' = decode_loop f nc st'"
        using st' Suc.prems(3,4) f by (intro Suc.IH) auto
      then show ?thesis using True Some r f by (simp split: flow.split)
    qed (use True f in simp)
  qed (use f in simp)
qed simp


lemma st_after_trans:
  "\<lbrakk>st_after b0 st st1; bb_after b0 (dbits st1); st_after (dbits st1) st1 st2\<rbrakk> \<Longrightarrow> st_after b0 st st2"
  by (auto simp: st_after_def same_shape_def intro: bb_after_trans)

lemma decode_loop_after:
  "\<lbrakk>bb_ok (dbits st); length (bb_mem (dbits st)) < 2 ^ 28\<rbrakk> \<Longrightarrow>
    pred_option (\<lambda>(s, st'). st_after (dbits st) st st') (decode_loop fuel nc st)"
proof (induction fuel arbitrary: st)
  case (Suc fuel)
  have fin: "pred_option (\<lambda>(s, st'). st_after (dbits st) st st') (finish_channels nc s st1)"
    if "st_after (dbits st) st st1" for s st1
    unfolding finish_channels_def using that
    by (intro pred_option_bind [OF fill_channels_length [OF refl]]) (simp add: st_after_def)
  show ?case
  proof (cases "cur (dbits st) < bend (dbits st)")
    case True
    show ?thesis
      using True
    proof (simp, intro pred_option_bind [OF decode_element_after [OF Suc.prems]] pred_option_case_prod)
      fix x :: "flow \<times> decode_state" and fl st1
      assume "case x of (f, st') \<Rightarrow> st_after (dbits st) st st' \<and> bb_pos (dbits st) + 3 \<le> bb_pos (dbits st')" "x = (fl, st1)"
      then have st1: "st_after (dbits st) st st1" by simp
      then have b1: "bb_ok (dbits st1)" "length (bb_mem (dbits st1)) < 2 ^ 28"
        using Suc.prems(2) by (auto simp: st_after_def bb_after_def)
      have rec: "pred_option (\<lambda>(s, st'). st_after (dbits st) st st') (decode_loop fuel nc st1)"
        using Suc.IH [OF b1] by (rule pred_option_weaken) (auto intro: st_after_trans [OF st1 st_afterD [OF st1]])
      show "pred_option (\<lambda>(s, st'). st_after (dbits st) st st')
         (case fl of Next status \<Rightarrow> if nc \<le> dchan st1 \<or> status \<noteq> ALAC_noErr
            then finish_channels nc status st1 else decode_loop fuel nc st1
          | Exit status \<Rightarrow> Some (status, st1) | NoMoreChannels \<Rightarrow> finish_channels nc ALAC_noErr st1)"
        using st1 rec fin by (cases fl) simp_all
    qed
  qed (use Suc.prems in \<open>simp add: st_after_def same_shape_def bb_after_refl\<close>)
qed simp

lemma Decode_after:
  assumes "bb_ok bits" and "length (bb_mem bits) < 2 ^ 28" and "ALACDecoder_Decode d bits out n nc out0 = Some (s, st)"
  shows "bb_after bits (dbits st) \<and> same_shape d (dec st) \<and> length (dout st) = length out"
proof (cases "nc = 0")
  case True
  then show ?thesis
    using assms by (auto simp: ALACDecoder_Decode_def same_shape_def bb_after_refl)
next
  case False
  then show ?thesis
    using assms decode_loop_after [of "\<lparr>dec = d\<lparr>mActiveElements := 0\<rparr>, dbits = bits, dout = out, dnum = n, dchan = 0, doutnum = n\<rparr>"
        "decode_fuel bits" nc]
    by (auto simp: ALACDecoder_Decode_def st_after_def same_shape_def)
qed

section \<open>The wrapper\<close>

text \<open>The cookie, byte by byte.\<close>

lemma build_alac_magic_cookie_bytes:
  "build_alac_magic_cookie sr bd ch fpp = Some (
     [ucast (drop_bit 24 fpp AND 0xff), ucast (drop_bit 16 fpp AND 0xff), ucast (drop_bit 8 fpp AND 0xff), ucast (fpp AND 0xff),
      0, ucast bd, 40, 10, 14, ucast ch, 0, 255, 0, 0, 0, 0, 0, 0, 0, 0,
      ucast (drop_bit 24 sr AND 0xff), ucast (drop_bit 16 sr AND 0xff), ucast (drop_bit 8 sr AND 0xff), ucast (sr AND 0xff)])"
proof -
  have z: "replicate 24 0 = [0, 0, 0, 0, 0, 0, 0, 0, 0, 0, 0, 0, 0, 0, 0, 0, 0, 0, 0, 0, 0, 0, 0, 0 :: byte]"
    by (simp add: numeral_eq_Suc)
  show ?thesis
    by (simp add: build_alac_magic_cookie_def write_be32_def write_be16_def wr_def z Let_def)
qed

definition stream_config :: "u32 \<Rightarrow> u32 \<Rightarrow> u32 \<Rightarrow> u32 \<Rightarrow> alac_config" where
  "stream_config sr bd ch fpp = \<lparr>frameLength = fpp, compatibleVersion = 0, bitDepth = ucast bd, cfg_pb = 40, cfg_mb = 10,
     cfg_kb = 14, cfg_numChannels = ucast ch, cfg_maxRun = 255, maxFrameBytes = 0, avgBitRate = 0, sampleRate = sr\<rparr>"

lemma Init_cookie:
  assumes "build_alac_magic_cookie sr bd ch fpp = Some cookie"
  shows "ALACDecoder_Init alloc cookie 24 d =
    (let d = d\<lparr>mConfig := stream_config sr bd ch fpp, mMixBufferU := calloc_words alloc 0 fpp,
         mMixBufferV := calloc_words alloc 1 fpp, mPredictor := calloc_words alloc 2 fpp\<rparr>
     in Some (if alloc 0 \<and> alloc 1 \<and> alloc 2 then ALAC_noErr else kALAC_MemFullError, d))"
proof -
  have names: "bytes ''frma'' = [0x66, 0x72, 0x6d, 0x61]" "bytes ''alac'' = [0x61, 0x6c, 0x61, 0x63]"
    by code_simp+
  have atoms: "skip_atom ''frma'' cookie (0, 24) = Some (0, 24)" "skip_atom ''alac'' cookie (0, 24) = Some (0, 24)"
    using assms unfolding build_alac_magic_cookie_bytes
    by (auto simp: skip_atom_def slice_def names)
  have zeros: "be32 0 0 0 0 = 0" "be16 0 255 = 255" by (simp_all add: be32_def be16_def)
  have cfg: "read_config cookie 0 = Some (stream_config sr bd ch fpp)"
    using assms unfolding build_alac_magic_cookie_bytes read_config_def ld_le32_def ld_le16_def
    by (auto simp: Swap32BtoN_def BSWAP32_le Swap16BtoN_def BSWAP16_le be32_bytes stream_config_def rd_def zeros)
  show ?thesis
    unfolding ALACDecoder_Init_def
    by (simp add: atoms cfg Let_def kALACVersion_def stream_config_def calloc_words_def)
qed

text \<open>A wrapper in use: the configuration of its stream and buffers of one packet.\<close>

definition wrapper_ok :: "alac_decoder_wrapper \<Rightarrow> bool" where
  "wrapper_ok w \<longleftrightarrow>
     mConfig (aw_decoder w) = stream_config (aw_sample_rate w) (aw_bit_depth w) (aw_channels w) (aw_frames_per_packet w) \<and>
     map_option length (mMixBufferU (aw_decoder w)) = Some (unat (aw_frames_per_packet w)) \<and>
     map_option length (mMixBufferV (aw_decoder w)) = Some (unat (aw_frames_per_packet w)) \<and>
     map_option length (mPredictor (aw_decoder w)) = Some (unat (aw_frames_per_packet w)) \<and>
     aw_sample_rate w \<noteq> 0 \<and> aw_bit_depth w \<noteq> 0 \<and> aw_channels w \<noteq> 0 \<and> aw_frames_per_packet w \<noteq> 0"

text \<open>The magic cookie round trip: a wrapper is created exactly when all parameters are positive and the five
  allocations succeed, and the decoder then has read back from the cookie the format it was asked for and has
  three zeroed buffers of one packet; otherwise the result is the null pointer, never undefined behaviour.\<close>

theorem alac_wrapper_create_configures:
  "alac_decoder_wrapper_create alloc active sr bd ch fpp = Some
    (if sr \<noteq> 0 \<and> bd \<noteq> 0 \<and> ch \<noteq> 0 \<and> fpp \<noteq> 0 \<and> alloc 0 \<and> alloc 1 \<and> alloc 2 \<and> alloc 3 \<and> alloc 4
     then Some \<lparr>aw_decoder = \<lparr>mConfig = stream_config sr bd ch fpp, mActiveElements = active,
         mMixBufferU = Some (replicate (unat fpp) 0), mMixBufferV = Some (replicate (unat fpp) 0),
         mPredictor = Some (replicate (unat fpp) 0)\<rparr>,
       aw_sample_rate = sr, aw_bit_depth = bd, aw_channels = ch, aw_frames_per_packet = fpp\<rparr>
     else None)"
  unfolding alac_decoder_wrapper_create_def
  using build_alac_magic_cookie_bytes [of sr bd ch fpp] Init_cookie [of sr bd ch fpp _ "\<lambda>i. alloc (i + 2)" "ALACDecoder active"]
  by (auto simp: Let_def calloc_words_def ALACDecoder_def ALAC_noErr_def kALAC_MemFullError_def eval_nat_numeral)

lemma decode_at_offset_ok:
  assumes "wrapper_ok w" and "length inp < 2 ^ 28"
  shows "pred_option (\<lambda>(s, w', res'). wrapper_ok w' \<and> aw_frames_per_packet w' = aw_frames_per_packet w \<and>
      aw_channels w' = aw_channels w \<and> aw_bit_depth w' = aw_bit_depth w \<and> aw_sample_rate w' = aw_sample_rate w \<and>
      length (wo_output res') = length (wo_output res))
    (decode_at_offset w inp isz off osz res)"
proof -
  let ?b = "BitBufferInit (drop off inp) (of_nat (isz - off))"
  have b: "bb_ok ?b" "length (bb_mem ?b) < 2 ^ 28" using assms(2) by (simp_all add: BitBufferInit_def bb_ok_def)
  have d: "pred_option (\<lambda>(s, st). same_shape (aw_decoder w) (dec st) \<and> length (dout st) = length (wo_output res))
      (ALACDecoder_Decode (aw_decoder w) ?b (wo_output res) (aw_frames_per_packet w) (aw_channels w) 0)"
    using Decode_after [OF b] by (auto simp: pred_option_def)
  show ?thesis
    unfolding decode_at_offset_def Let_def
    apply (intro pred_option_if)
    using assms(1) apply simp
    using assms(1) apply simp
    apply (rule pred_option_bind [OF d])
    using assms(1) by (auto simp: wrapper_ok_def same_shape_def)
qed

lemma try_offsets_ok:
  "\<lbrakk>wrapper_ok w; length inp < 2 ^ 28\<rbrakk> \<Longrightarrow>
    pred_option (\<lambda>(s, w', res'). wrapper_ok w' \<and> aw_frames_per_packet w' = aw_frames_per_packet w \<and>
      aw_channels w' = aw_channels w \<and> aw_bit_depth w' = aw_bit_depth w \<and> aw_sample_rate w' = aw_sample_rate w \<and>
      length (wo_output res') = length (wo_output res))
    (try_offsets w inp isz osz first offs res)"
proof (induction offs arbitrary: w first res)
  case (Cons off offs)
  show ?case
    unfolding try_offsets.simps
    apply (rule pred_option_bind [OF decode_at_offset_ok [OF Cons.prems]])
    apply (intro pred_option_case_prod pred_option_if)
     apply simp
    apply (rule pred_option_weaken [OF Cons.IH])
    using Cons.prems(2) by auto
qed simp


text \<open>A packet that starts with the end tag decodes "successfully": the wrapper reports a whole packet of frames
  although no element was decoded and not a byte of the output buffer was written.\<close>

theorem alac_end_tag_reports_frames:
  assumes "wrapper_ok w" and "2 \<le> length inp" and "inp ! 0 \<ge> 0xe0" and "0 < input_size" and "input_size < 2 ^ 29"
    and "unat (aw_frames_per_packet w) * unat (aw_channels w) * unat (aw_bit_depth w div 8) \<le> output_size"
  shows "\<exists>w'. alac_decoder_wrapper_decode (Some w) (Some inp) input_size output_size res =
    Some (ALAC_noErr, Some w', res\<lparr>wo_frames := aw_frames_per_packet w,
      wo_bytes := unat (aw_frames_per_packet w) * unat (aw_channels w) * unat (aw_bit_depth w div 8), wo_offset := 0\<rparr>)"
proof -
  let ?b = "BitBufferInit inp (of_nat input_size)"
  let ?st = "\<lparr>dec = (aw_decoder w)\<lparr>mActiveElements := 0\<rparr>, dbits = ?b, dout = wo_output res, dnum = aw_frames_per_packet w,
    dchan = 0, doutnum = aw_frames_per_packet w\<rparr>"
  obtain b0 b1 rest where inp: "inp = b0 # b1 # rest"
    using assms(2) by (cases inp; cases "tl inp") auto
  have b0: "b0 \<ge> 0xe0" using assms(3) inp by simp
  have "drop_bit 13 (push_bit 8 (ucast b0) OR ucast b1 :: u16) = 7"
  proof -
    have "unat b0 \<ge> 224" "unat b0 < 256" "unat b1 < 256" using b0 unat_byte_less by (auto simp: word_le_nat_alt)
    moreover have "unat (push_bit 8 (ucast b0) OR ucast b1 :: u16) = unat b0 * 2 ^ 8 + unat b1"
      using unat_byte_less [of b0] unat_byte_less [of b1]
      by (subst unat_push_or) (simp_all add: unat_ucast_byte)
    ultimately have "unat (drop_bit 13 (push_bit 8 (ucast b0) OR ucast b1 :: u16)) = 7"
      by (simp add: drop_bit_eq_div unat_div_distrib)
    then show ?thesis by (simp add: word_unat_eq_iff)
  qed
  then have tag: "BitBufferReadSmall 3 ?b = Some (7, bb_step ?b 3)"
    by (simp add: BitBufferReadSmall_def BitBufferInit_def inp Let_def)
  have al: "BitBufferByteAlign False (bb_step ?b 3) = Some (BitBufferAdvance 5 (bb_step ?b 3))"
    by (simp add: BitBufferByteAlign_def bb_step_def BitBufferInit_def Let_def)
  have lt: "cur ?b < bend ?b"
    using assms(4,5) by (simp add: BitBufferInit_def unat_of_nat_u32)
  have "decode_loop (decode_fuel ?b) (aw_channels w) ?st = Some (ALAC_noErr, ?st\<lparr>dbits := BitBufferAdvance 5 (bb_step ?b 3)\<rparr>)"
    using lt by (simp add: decode_fuel_def decode_element_def tag al)
  then have dec: "ALACDecoder_Decode (aw_decoder w) ?b (wo_output res) (aw_frames_per_packet w) (aw_channels w) 0 =
      Some (ALAC_noErr, ?st\<lparr>dbits := BitBufferAdvance 5 (bb_step ?b 3)\<rparr>)"
    using assms(1) by (simp add: ALACDecoder_Decode_def wrapper_ok_def)
  have at: "decode_at_offset w inp input_size 0 output_size res =
      Some (ALAC_noErr, w\<lparr>aw_decoder := (aw_decoder w)\<lparr>mActiveElements := 0\<rparr>\<rparr>, res\<lparr>wo_frames := aw_frames_per_packet w,
        wo_bytes := unat (aw_frames_per_packet w) * unat (aw_channels w) * unat (aw_bit_depth w div 8)\<rparr>)"
    using assms(1,4,6) dec by (simp add: decode_at_offset_def Let_def wrapper_ok_def)
  obtain offs where offs: "decode_offsets inp input_size = Some (0 # offs)"
  proof (cases "input_size > 1")
    case True
    have "b0 \<noteq> 0" using b0 by auto
    then show thesis using that True inp by (simp add: decode_offsets_def)
  qed (simp add: decode_offsets_def that)
  show ?thesis
    using assms(4) offs at by (simp add: alac_decoder_wrapper_decode_def)
qed

section \<open>Witnesses\<close>

definition sample_wrapper :: alac_decoder_wrapper where
  "sample_wrapper = \<lparr>aw_decoder = \<lparr>mConfig = stream_config 44100 16 2 2, mActiveElements = 0,
     mMixBufferU = Some [0, 0], mMixBufferV = Some [0, 0], mPredictor = Some [0, 0]\<rparr>,
     aw_sample_rate = 44100, aw_bit_depth = 16, aw_channels = 2, aw_frames_per_packet = 2\<rparr>"

definition sample_out :: wrapper_out where
  "sample_out = \<lparr>wo_output = [1, 2, 3, 4, 5, 6, 7, 8], wo_frames = 0, wo_bytes = 0, wo_offset = 9\<rparr>"

lemma sample_wrapper_ok: "wrapper_ok sample_wrapper"
  by (simp add: wrapper_ok_def sample_wrapper_def)

text \<open>An uncompressed pair of channels: two samples of each.\<close>

definition sample_packet :: "byte list" where
  "sample_packet = [0x20, 0, 0x02, 0x24, 0x68, 0xac, 0xf1, 0x35, 0x79, 0xbd, 0xf0, 0xff, 0, 0, 0, 0]"

lemma sample_packet_decodes:
  "alac_decoder_wrapper_decode (Some sample_wrapper) (Some sample_packet) 16 8 sample_out =
    Some (0, Some (sample_wrapper\<lparr>aw_decoder := (aw_decoder sample_wrapper)\<lparr>mActiveElements := 1,
        mMixBufferU := Some [0x1234, 0xffff9abc], mMixBufferV := Some [0x5678, 0xffffdef8]\<rparr>\<rparr>),
      sample_out\<lparr>wo_output := [0x34, 0x12, 0x78, 0x56, 0xbc, 0x9a, 0xf8, 0xde], wo_frames := 2, wo_bytes := 8, wo_offset := 0\<rparr>)"
  by code_simp



lemma alac_end_tag_reports_frames_witness:
  "\<exists>w'. alac_decoder_wrapper_decode (Some sample_wrapper) (Some [0xff, 1, 2]) 3 8 sample_out =
    Some (ALAC_noErr, Some w', sample_out\<lparr>wo_frames := 2, wo_bytes := 8, wo_offset := 0\<rparr>)"
proof -
  have "2 \<le> length [0xff, 1, 2 :: byte]" "[0xff, 1, 2 :: byte] ! 0 \<ge> 0xe0" "0 < (3 :: nat)" "(3 :: nat) < 2 ^ 29"
    "unat (aw_frames_per_packet sample_wrapper) * unat (aw_channels sample_wrapper) * unat (aw_bit_depth sample_wrapper div 8) \<le> 8"
    by (simp_all add: sample_wrapper_def)
  moreover have "aw_frames_per_packet sample_wrapper = 2" "aw_channels sample_wrapper = 2" "aw_bit_depth sample_wrapper = 16"
    by (simp_all add: sample_wrapper_def)
  ultimately show ?thesis
    using alac_end_tag_reports_frames [OF sample_wrapper_ok, of "[0xff, 1, 2]" 3 8 sample_out] by simp
qed

end
