(* ===== verification/Alac_Frames.thy ===== *)
theory Alac_Frames
  imports Alac_Progress
begin

text \<open>
  A whole frame: the bits an encoder of the format writes for a pair of 16-bit channels, and the theorem that
  the decoder turns them back into the samples.  The parts are the round trips of the entropy coding, the
  prediction and the mixing; here the header is read and they are put together.
\<close>

unbundle bit_operations_syntax

section \<open>The encoder of a stereo frame\<close>

text \<open>A 16-bit pair of channels as the encoder writes it: mixed, predicted and entropy coded, nothing shifted off.\<close>

definition channel_header :: "channel_params \<Rightarrow> bool list" where
  "channel_header ch = num_bits 8 (unat (ch_denShift ch)) @ num_bits 8 (32 * unat (ch_pbFactor ch) + ch_num ch) @
     concat (map (\<lambda>c. num_bits 16 (unat c)) (ch_coefs ch))"

definition channel_ok :: "nat \<Rightarrow> channel_params \<Rightarrow> bool" where
  "channel_ok n ch \<longleftrightarrow> ch_mode ch = 0 \<and> ch_denShift ch < 16 \<and> ch_pbFactor ch < 8 \<and> ch_num ch < 32 \<and>
     length (ch_coefs ch) = ch_num ch \<and>
     (ch_num ch = 0 \<or> ch_num ch = 31 \<or> ch_num ch < n \<and> 0 < ch_denShift ch)"

definition ag_of :: "alac_config \<Rightarrow> channel_params \<Rightarrow> nat \<Rightarrow> ag_params option" where
  "ag_of cfg ch n = set_ag_params (ucast (cfg_mb cfg)) ((ucast (cfg_pb cfg) * ch_pbFactor ch) div 4) (ucast (cfg_kb cfg))
     (of_nat n) (of_nat n) (ucast (cfg_maxRun cfg))"

definition channel_code :: "alac_config \<Rightarrow> channel_params \<Rightarrow> nat \<Rightarrow> u32 list \<Rightarrow> bool list option" where
  "channel_code cfg ch w xs = do {
     ps \<leftarrow> ag_of cfg ch (length xs);
     ag_encode ps w (ag_mb0 ps) 0 (pc_block xs (ch_coefs ch) (ch_num ch) (of_nat w) (ch_denShift ch))
   }"

definition mix_u :: "nat \<Rightarrow> int \<Rightarrow> nat \<Rightarrow> (nat \<Rightarrow> int) \<Rightarrow> (nat \<Rightarrow> int) \<Rightarrow> u32 list" where
  "mix_u m mr n l r = map (\<lambda>i. word_of_int (fst (alac_mix m mr (l i) (r i)))) [0..<n]"

definition mix_v :: "nat \<Rightarrow> int \<Rightarrow> nat \<Rightarrow> (nat \<Rightarrow> int) \<Rightarrow> (nat \<Rightarrow> int) \<Rightarrow> u32 list" where
  "mix_v m mr n l r = map (\<lambda>i. word_of_int (snd (alac_mix m mr (l i) (r i)))) [0..<n]"

definition cpe_frame ::
  "alac_config \<Rightarrow> nat \<Rightarrow> nat \<Rightarrow> int \<Rightarrow> channel_params \<Rightarrow> channel_params \<Rightarrow> nat \<Rightarrow> (nat \<Rightarrow> int) \<Rightarrow> (nat \<Rightarrow> int) \<Rightarrow> bool list option" where
  "cpe_frame cfg tag m mr chU chV n l r = do {
     u \<leftarrow> channel_code cfg chU 17 (mix_u m mr n l r);
     v \<leftarrow> channel_code cfg chV 17 (mix_v m mr n l r);
     Some (num_bits 3 1 @ num_bits 4 tag @ num_bits 12 0 @ num_bits 4 0 @ num_bits 8 m @ num_bits 8 (nat (mr mod 256)) @
       channel_header chU @ channel_header chV @ u @ v)
   }"

section \<open>Reading the header\<close>

text \<open>\<^verbatim>\<open>bb_at\<close>: the same buffer, at a position, with the given bits ahead and room behind them.\<close>

definition bb_at :: "bit_buffer \<Rightarrow> nat \<Rightarrow> bit_buffer \<Rightarrow> bool" where
  "bb_at b0 p b \<longleftrightarrow> bb_mem b = bb_mem b0 \<and> bend b = bend b0 \<and> byteSize b = byteSize b0 \<and> bb_ok b \<and> bb_pos b = p"

lemma bb_at_step:
  assumes "bb_at b0 p b" and "n \<le> 24"
  shows "bb_at b0 (p + n) (bb_step b (of_nat n))"
proof -
  have u: "unat (of_nat n :: u32) = n" using assms(2) by (intro unat_of_nat_u32) simp
  then have "unat (of_nat n :: u32) < 2 ^ 32 - 8" using assms(2) by simp
  then show ?thesis
    using bb_step_pos [of b "of_nat n"] assms(1) u by (auto simp: bb_at_def)
qed

lemma read_num_bits:
  assumes "bb_at b0 p b" and "stream_has (bb_mem b0) p (num_bits n v)" and "v < 2 ^ n" and "n \<le> 17"
    and "p div 8 + 3 \<le> length (bb_mem b0)"
  shows "\<exists>b'. BitBufferRead n b = Some (of_nat v, b') \<and> bb_at b0 (p + n) b'"
proof (intro exI conjI)
  have "bits_val (bb_mem b0) p n = (of_nat v :: u32)"
    using assms(2,3,4) by (intro bits_val_num_bits) simp_all
  then show "BitBufferRead n b = Some (of_nat v, bb_step b (of_nat n))"
    using BitBufferRead_value [of b n] assms(1,4,5) bb_pos_div [of b] by (simp add: bb_at_def)
  show "bb_at b0 (p + n) (bb_step b (of_nat n))" using assms(1,4) by (intro bb_at_step) simp_all
qed

lemma readsmall_num_bits:
  assumes "bb_at b0 p b" and "stream_has (bb_mem b0) p (num_bits n v)" and "v < 2 ^ n" and "n \<le> 8"
    and "p div 8 + 3 \<le> length (bb_mem b0)"
  shows "\<exists>b'. BitBufferReadSmall n b = Some (of_nat v, b') \<and> bb_at b0 (p + n) b'"
proof (intro exI conjI)
  have "bits_val (bb_mem b0) p n = (of_nat v :: byte)"
    using assms(2,3,4) by (intro bits_val_num_bits) simp_all
  then show "BitBufferReadSmall n b = Some (of_nat v, bb_step b (of_nat n))"
    using BitBufferReadSmall_value [of b n] assms(1,4,5) bb_pos_div [of b] by (simp add: bb_at_def)
  show "bb_at b0 (p + n) (bb_step b (of_nat n))" using assms(1,4) by (intro bb_at_step) simp_all
qed

lemma read_coefs_code:
  "\<lbrakk>bb_at b0 p b; stream_has (bb_mem b0) p (concat (map (\<lambda>c. num_bits 16 (unat c)) cs));
    (p + 16 * length cs) div 8 + 3 \<le> length (bb_mem b0)\<rbrakk> \<Longrightarrow>
    \<exists>b'. read_coefs (length cs) b = Some (cs, b') \<and> bb_at b0 (p + 16 * length cs) b'"
proof (induction cs arbitrary: p b)
  case (Cons c cs)
  have c: "unat c < 2 ^ 16" using unat_less_exp [of c] by simp
  have "p div 8 \<le> (p + 16 * length (c # cs)) div 8" by (rule div_le_mono) simp
  then have room: "p div 8 + 3 \<le> length (bb_mem b0)" using Cons.prems(3) by linarith
  have st: "stream_has (bb_mem b0) p (num_bits 16 (unat c))"
    "stream_has (bb_mem b0) (p + 16) (concat (map (\<lambda>c. num_bits 16 (unat c)) cs))"
    using Cons.prems(2) by (simp_all add: stream_has_append)
  obtain b1 where b1: "BitBufferRead 16 b = Some (of_nat (unat c), b1)" "bb_at b0 (p + 16) b1"
    using read_num_bits [OF Cons.prems(1) st(1) c _ room] by auto
  have cc: "(ucast (of_nat (unat c) :: u32) :: u16) = c"
    by (simp, rule bit_word_eqI) (auto simp: bit_ucast_iff dest: bit_imp_le_length)
  obtain b' where "read_coefs (length cs) b1 = Some (cs, b')" "bb_at b0 (p + 16 + 16 * length cs) b'"
    using Cons.IH [OF b1(2) st(2)] Cons.prems(3) by (auto simp: add.assoc)
  then show ?case using b1(1) cc by (simp add: add.assoc)
qed simp

lemma channel_bytes:
  assumes "channel_ok n ch"
  shows "drop_bit 4 (ch_denShift ch) = 0" "ch_denShift ch AND 0xf = ch_denShift ch"
    "drop_bit 5 (of_nat (32 * unat (ch_pbFactor ch) + ch_num ch)) = ch_pbFactor ch"
    "unat (of_nat (32 * unat (ch_pbFactor ch) + ch_num ch) AND (0x1f :: u32)) = ch_num ch"
    "unat (ch_denShift ch) < 2 ^ 8" "32 * unat (ch_pbFactor ch) + ch_num ch < 2 ^ 8"
proof -
  have b: "unat (ch_denShift ch) < 16" "unat (ch_pbFactor ch) < 8" "ch_num ch < 32"
    using assms by (simp_all add: channel_ok_def word_less_nat_alt)
  show "drop_bit 4 (ch_denShift ch) = 0"
    using b(1) by (simp add: word_unat_eq_iff drop_bit_eq_div unat_div_distrib)
  have "(0xf :: u32) = mask 4" "(0x1f :: u32) = mask 5" by (simp_all add: mask_eq_exp_minus_1)
  then have m: "x AND 0xf = take_bit 4 x" "x AND 0x1f = take_bit 5 x" for x :: u32
    by (simp_all add: take_bit_eq_mask)
  show "ch_denShift ch AND 0xf = ch_denShift ch"
    unfolding m using b(1) by (simp add: word_unat_eq_iff unsigned_take_bit_eq take_bit_nat_eq_self)
  have u: "unat (of_nat (32 * unat (ch_pbFactor ch) + ch_num ch) :: u32) = 32 * unat (ch_pbFactor ch) + ch_num ch"
    using b by (intro unat_of_nat_u32) simp
  show "drop_bit 5 (of_nat (32 * unat (ch_pbFactor ch) + ch_num ch)) = ch_pbFactor ch"
    using b(3) by (simp only: word_unat_eq_iff drop_bit_eq_div unat_div_distrib u) simp
  show "unat (of_nat (32 * unat (ch_pbFactor ch) + ch_num ch) AND (0x1f :: u32)) = ch_num ch"
    unfolding m using b(3) by (simp only: unsigned_take_bit_eq u) (simp add: take_bit_eq_mod)
  show "unat (ch_denShift ch) < 2 ^ 8" "32 * unat (ch_pbFactor ch) + ch_num ch < 2 ^ 8"
    using b by simp_all
qed

lemma length_channel_header [simp]: "length (channel_header ch) = 16 + 16 * length (ch_coefs ch)"
  by (simp add: channel_header_def length_concat o_def sum_list_triv)

lemma read_channel_params_code:
  assumes "bb_at b0 p b" and ok: "channel_ok n ch" and st: "stream_has (bb_mem b0) p (channel_header ch)"
    and room: "(p + length (channel_header ch)) div 8 + 3 \<le> length (bb_mem b0)"
  obtains b' where "read_channel_params b = Some (ch, b')" "bb_at b0 (p + length (channel_header ch)) b'"
proof -
  note cb = channel_bytes [OF ok]
  have le: "q div 8 + 3 \<le> length (bb_mem b0)" if "q \<le> p + length (channel_header ch)" for q
    using div_le_mono [OF that, of 8] room by linarith
  have parts: "stream_has (bb_mem b0) p (num_bits 8 (unat (ch_denShift ch)))"
    "stream_has (bb_mem b0) (p + 8) (num_bits 8 (32 * unat (ch_pbFactor ch) + ch_num ch))"
    "stream_has (bb_mem b0) (p + 16) (concat (map (\<lambda>c. num_bits 16 (unat c)) (ch_coefs ch)))"
    using st by (simp_all add: channel_header_def stream_has_append add.commute [of 16])
  have w: "8 \<le> (17 :: nat)" by simp
  obtain b1 where b1: "BitBufferRead 8 b = Some (of_nat (unat (ch_denShift ch)), b1)" "bb_at b0 (p + 8) b1"
    using read_num_bits [OF assms(1) parts(1) cb(5) w le [OF le_add1]] by blast
  obtain b2 where b2: "BitBufferRead 8 b1 = Some (of_nat (32 * unat (ch_pbFactor ch) + ch_num ch), b2)" "bb_at b0 (p + 16) b2"
    using read_num_bits [OF b1(2) parts(2) cb(6) w le] by (auto simp: add.assoc)
  obtain b3 where b3: "read_coefs (length (ch_coefs ch)) b2 = Some (ch_coefs ch, b3)"
      "bb_at b0 (p + 16 + 16 * length (ch_coefs ch)) b3"
    using read_coefs_code [OF b2(2) parts(3)] le [of "p + 16 + 16 * length (ch_coefs ch)"] by auto
  have n: "length (ch_coefs ch) = ch_num ch" "ch_mode ch = 0" using ok by (simp_all add: channel_ok_def)
  have "read_channel_params b = Some (ch, b3)"
    using cb(1-4) b1(1) b2(1) b3(1) n by (simp add: read_channel_params_def Let_def)
  then show thesis by (rule that) (use b3(2) in \<open>simp add: add.assoc\<close>)
qed

section \<open>Decompressing a channel\<close>

definition frame_room :: "bit_buffer \<Rightarrow> nat \<Rightarrow> bool" where
  "frame_room b0 e \<longleftrightarrow> e + 100 < 2 ^ 31 \<and> e div 8 + 11 \<le> length (bb_mem b0) \<and> e \<le> 8 * bend b0 \<and>
     e \<le> unat (byteSize b0 * 8)"

lemma length_pc_block: "xs \<noteq> [] \<Longrightarrow> n = 0 \<or> n = 31 \<or> n < length xs \<Longrightarrow> length (pc_block xs cs n c d) = length xs"
  by (auto simp: pc_block_def)

lemma decompress_channel_code:
  assumes at: "bb_at b0 p b" and code: "channel_code cfg ch w xs = Some code" and ok: "channel_ok (length xs) ch"
    and st: "stream_has (bb_mem b0) p code" and room: "frame_room b0 (p + length code)"
    and w: "0 < w" "w \<le> 32" and fits: "\<forall>x \<in> set xs. wrap_sample (32 - of_nat w) x = x"
    and len: "xs \<noteq> []" "length xs < 2 ^ 31" "length xs \<le> length pred" "length xs \<le> length mix"
  obtains b' pred' where "decompress_channel cfg ch (of_nat (length xs)) (of_nat w) b pred mix =
      Some (ALAC_noErr, b', pred', xs @ drop (length xs) mix)" "bb_at b0 (p + length code) b'" "length pred' = length pred"
proof -
  let ?n = "length xs" and ?pc = "pc_block xs (ch_coefs ch) (ch_num ch) (of_nat w) (ch_denShift ch)"
  obtain ps where ps: "ag_of cfg ch ?n = Some ps" "ag_encode ps w (ag_mb0 ps) 0 ?pc = Some code"
    using code by (auto simp: channel_code_def bind_eq_Some_conv)
  have n: "unat (of_nat ?n :: u32) = ?n" "sint (of_nat ?n :: u32) = int ?n"
    using len(2) unat_of_nat_u32 [of ?n] sint_small [of "of_nat ?n"] by auto
  have uw: "unat (of_nat w :: u32) = w" using w by (intro unat_of_nat_u32) simp
  have num: "ch_num ch = 0 \<or> ch_num ch = 31 \<or> ch_num ch < ?n"
    using ok by (auto simp: channel_ok_def)
  have lpc: "length ?pc = ?n" by (rule length_pc_block [OF len(1) num])
  have pos: "8 * cur b + unat (bitIndex b) = p" and ok_b: "bb_ok b" and mem: "bb_mem b = bb_mem b0"
    using at by (simp_all add: bb_at_def bb_pos_def)
  have r: "p + length code + 100 < 2 ^ 31" "(p + length code) div 8 + 11 \<le> length (bb_mem b0)"
    "p + length code \<le> 8 * bend b0" "p + length code \<le> unat (byteSize b0 * 8)"
    using room by (simp_all add: frame_room_def)
  have "(unat (bitIndex b) + length code) div 8 + cur b = (p + length code) div 8"
    unfolding pos [symmetric] by (simp add: add.assoc)
  then have sroom: "stream_room (drop (cur b) (bb_mem b)) (unat (bitIndex b) + length code)"
    using r(1,2) pos by (simp add: stream_room_def mem)
  obtain b' where b': "dyn_decomp ps b pred (of_nat ?n) w =
      Some (if cur b' \<le> bend b then ALAC_noErr else kALAC_ParamError, of_nat (length code), b', ?pc @ drop ?n pred)"
      "bb_pos b' = p + length code" "bb_mem b' = bb_mem b0" "bend b' = bend b0" "byteSize b' = byteSize b0" "bb_ok b'"
    using dyn_decomp_code [OF ok_b ps(2) w(1,2), of "of_nat ?n" pred] lpc n len(3) sroom st mem r(4) at pos
    by (auto simp: bb_at_def)
  have at': "bb_at b0 (p + length code) b'"
    using b' at by (simp add: bb_at_def)
  have "cur b' \<le> bend b"
    using b'(2) r(3) at by (simp add: bb_pos_def bb_at_def)
  moreover obtain coefs' where "unpc_block (?pc @ drop ?n pred) mix (int ?n) (ch_coefs ch) (ch_num ch) (of_nat w) (ch_denShift ch) =
      Some (xs @ drop ?n mix, coefs')"
  proof -
    have "0 < (of_nat w :: u32)" "of_nat w \<le> (32 :: u32)"
      using w uw by (auto simp: word_less_nat_alt word_le_nat_alt)
    moreover have "ch_num ch = 0 \<or> ch_num ch = 31 \<or> ch_num ch < ?n \<and> ch_num ch \<le> length (ch_coefs ch) \<and>
        0 < ch_denShift ch \<and> ch_denShift ch < 32"
      using ok by (auto simp: channel_ok_def word_less_nat_alt)
    ultimately show thesis
      using unpc_block_code [OF _ _ len(1) fits _ len(4)] that by blast
  qed
  ultimately have "decompress_channel cfg ch (of_nat ?n) (of_nat w) b pred mix =
      Some (ALAC_noErr, b', ?pc @ drop ?n pred, xs @ drop ?n mix)"
    using ps(1) b'(1) ok n uw by (simp add: decompress_channel_def ag_of_def channel_ok_def)
  moreover have "length (?pc @ drop ?n pred) = length pred" using lpc len(3) by simp
  ultimately show thesis using at' by (intro that)
qed

section \<open>A whole frame\<close>

lemma wrap_sample_fits:
  assumes "- (2 ^ 16) \<le> x" and "x < 2 ^ 16"
  shows "wrap_sample (32 - 17) (word_of_int x) = word_of_int x"
proof -
  have "push_bit 15 (word_of_int x :: u32) = word_of_int (x * 2 ^ 15)"
    by (simp add: push_bit_eq_mult)
  moreover have "sar (word_of_int (x * 2 ^ 15)) (of_nat 15) = word_of_int (x * 2 ^ 15 div 2 ^ 15)"
    using assms by (intro sar_word_of_int) simp_all
  ultimately show ?thesis by (simp add: wrap_sample_def)
qed

lemma alac_mix_range:
  assumes l: "- (2 ^ 15) \<le> l" "l < 2 ^ 15" and r: "- (2 ^ 15) \<le> r" "r < 2 ^ 15" and m: "0 \<le> mr" "mr \<le> 2 ^ m"
  shows "- (2 ^ 16) \<le> fst (alac_mix m mr l r)" "fst (alac_mix m mr l r) < 2 ^ 16"
    "- (2 ^ 16) \<le> snd (alac_mix m mr l r)" "snd (alac_mix m mr l r) < 2 ^ 16"
proof -
  have up: "mr * l + (2 ^ m - mr) * r \<le> (2 ^ 15 - 1) * 2 ^ m"
  proof -
    have "mr * l \<le> mr * (2 ^ 15 - 1)" "(2 ^ m - mr) * r \<le> (2 ^ m - mr) * (2 ^ 15 - 1)"
      using l r m by (intro mult_left_mono; simp)+
    then show ?thesis by (simp add: algebra_simps)
  qed
  have low: "- (2 ^ 15) * 2 ^ m \<le> mr * l + (2 ^ m - mr) * r"
  proof -
    have "mr * (- (2 ^ 15)) \<le> mr * l" "(2 ^ m - mr) * (- (2 ^ 15)) \<le> (2 ^ m - mr) * r"
      using l r m by (intro mult_left_mono; simp)+
    then show ?thesis by (simp add: algebra_simps)
  qed
  have "(mr * l + (2 ^ m - mr) * r) div 2 ^ m \<le> (2 ^ 15 - 1) * 2 ^ m div 2 ^ m"
    using up by (intro zdiv_mono1) simp_all
  moreover have "- (2 ^ 15) * 2 ^ m div 2 ^ m \<le> (mr * l + (2 ^ m - mr) * r) div 2 ^ m"
    using low by (intro zdiv_mono1) simp_all
  moreover have "- (2 ^ 15) * 2 ^ m div 2 ^ m = (- (2 ^ 15) :: int)"
    by (rule nonzero_mult_div_cancel_right) simp
  ultimately have "- (2 ^ 15) \<le> (mr * l + (2 ^ m - mr) * r) div 2 ^ m" "(mr * l + (2 ^ m - mr) * r) div 2 ^ m < 2 ^ 15"
    by simp_all
  with l r show "- (2 ^ 16) \<le> fst (alac_mix m mr l r)" "fst (alac_mix m mr l r) < 2 ^ 16"
    "- (2 ^ 16) \<le> snd (alac_mix m mr l r)" "snd (alac_mix m mr l r) < 2 ^ 16"
    by (auto simp: alac_mix_def)
qed

lemma mixRes_read:
  assumes "- 128 \<le> mr" and "mr < 128"
  shows "scast (ucast (of_nat (nat (mr mod 256)) :: u32) :: byte) = (word_of_int mr :: u32)"
proof -
  have "0 \<le> mr mod 256" by simp
  then have "(of_nat (nat (mr mod 256)) :: u32) = word_of_int (mr mod 256)"
    by (metis of_int_of_nat_eq nat_0_le)
  moreover have "(ucast (word_of_int (mr mod 256) :: u32) :: byte) = word_of_int mr"
    by transfer (simp add: take_bit_eq_mod mod_mod_cancel)
  moreover have "sint (word_of_int mr :: byte) = mr"
    using assms by (simp only: sint_sbintrunc') (simp add: signed_take_bit_int_eq_self)
  then have "(scast (word_of_int mr :: byte) :: u32) = word_of_int mr"
    by (metis of_int_sint)
  ultimately show ?thesis by simp
qed

lemma frame_room_read: "frame_room b0 e \<Longrightarrow> q \<le> e \<Longrightarrow> q div 8 + 3 \<le> length (bb_mem b0)"
  using div_le_mono [of q e 8] by (simp add: frame_room_def)

lemma frame_room_less: "frame_room b0 e \<Longrightarrow> q \<le> e \<Longrightarrow> frame_room b0 q"
  using div_le_mono [of q e 8] by (simp add: frame_room_def)

text \<open>The flags of the header: no partial frame, nothing shifted off, not escaped.\<close>

lemma read_element_header_code:
  assumes at: "bb_at b0 p (dbits st)" and st: "stream_has (bb_mem b0) p (num_bits 4 tag @ num_bits 12 0 @ num_bits 4 0)"
    and tag: "tag < 16" and room: "frame_room b0 (p + 20)"
  obtains b' d' where "read_element_header st = Some (Some \<lparr>eh_unused = 0, eh_partial = 0, eh_bytesShifted = 0, eh_escape = False\<rparr>,
      st\<lparr>dbits := b', dec := d'\<rparr>)" "bb_at b0 (p + 20) b'" "mConfig d' = mConfig (dec st)"
    "mMixBufferU d' = mMixBufferU (dec st)" "mMixBufferV d' = mMixBufferV (dec st)" "mPredictor d' = mPredictor (dec st)"
proof -
  have parts: "stream_has (bb_mem b0) p (num_bits 4 tag)" "stream_has (bb_mem b0) (p + 4) (num_bits 12 0)"
    "stream_has (bb_mem b0) (p + 4 + 12) (num_bits 4 0)"
    using st by (simp_all add: stream_has_append add.commute)
  note rd = frame_room_read [OF room]
  obtain b1 where b1: "BitBufferReadSmall 4 (dbits st) = Some (of_nat tag, b1)" "bb_at b0 (p + 4) b1"
    using readsmall_num_bits [OF at parts(1)] tag rd [of p] by auto
  obtain b2 where b2: "BitBufferRead 12 b1 = Some (of_nat 0, b2)" "bb_at b0 (p + 4 + 12) b2"
    using read_num_bits [OF b1(2) parts(2)] rd [of "p + 4"] by auto
  obtain b3 where b3: "BitBufferRead 4 b2 = Some (of_nat 0, b3)" "bb_at b0 (p + 4 + 12 + 4) b3"
    using read_num_bits [OF b2(2) parts(3)] rd [of "p + 4 + 12"] by auto
  let ?d = "(dec st)\<lparr>mActiveElements := mActiveElements (dec st) OR ucast (push_bit (unat (of_nat tag :: byte)) 1 :: u32)\<rparr>"
  have "read_element_header st = Some (Some \<lparr>eh_unused = 0, eh_partial = 0, eh_bytesShifted = 0, eh_escape = False\<rparr>,
      st\<lparr>dbits := b3, dec := ?d\<rparr>)"
    using b1(1) b2(1) b3(1) by (simp add: read_element_header_def Let_def)
  then show thesis by (rule that) (use b3(2) in \<open>simp_all add: add.commute\<close>)
qed

text \<open>The channels of a compressed pair.\<close>

lemma cpe_samples_code:
  assumes at: "bb_at b0 p b" and cfg: "bitDepth cfg = 16"
    and u: "channel_code cfg chU 17 us = Some cu" and v: "channel_code cfg chV 17 vs = Some cv"
    and oku: "channel_ok n chU" and okv: "channel_ok n chV"
    and st: "stream_has (bb_mem b0) p (num_bits 8 m @ num_bits 8 (nat (mr mod 256)) @ channel_header chU @ channel_header chV @ cu @ cv)"
    and room: "frame_room b0 (p + 16 + length (channel_header chU) + length (channel_header chV) + length cu + length cv)"
    and m: "m < 32" "- 128 \<le> mr" "mr < 128"
    and n: "length us = n" "length vs = n" "0 < n" "n < 2 ^ 31" "n \<le> length pred" "n \<le> length ub" "n \<le> length vb"
    and fits: "\<forall>x \<in> set us \<union> set vs. wrap_sample (32 - 17) x = x"
  obtains b' pred' where "cpe_samples cfg \<lparr>eh_unused = 0, eh_partial = 0, eh_bytesShifted = 0, eh_escape = False\<rparr> (of_nat n) b pred ub vb =
      Some (ALAC_noErr, b', pred', us @ drop n ub, vs @ drop n vb, of_nat m, word_of_int mr, 0)"
    "bb_at b0 (p + 16 + length (channel_header chU) + length (channel_header chV) + length cu + length cv) b'"
    "length pred' = length pred"
proof -
  let ?hU = "length (channel_header chU)" and ?hV = "length (channel_header chV)"
  have parts: "stream_has (bb_mem b0) p (num_bits 8 m)" "stream_has (bb_mem b0) (p + 8) (num_bits 8 (nat (mr mod 256)))"
    "stream_has (bb_mem b0) (p + 8 + 8) (channel_header chU)"
    "stream_has (bb_mem b0) (p + 8 + 8 + ?hU) (channel_header chV)"
    "stream_has (bb_mem b0) (p + 8 + 8 + ?hU + ?hV) cu"
    "stream_has (bb_mem b0) (p + 8 + 8 + ?hU + ?hV + length cu) cv"
    using st unfolding stream_has_append length_num_bits by simp_all
  note rd = frame_room_read [OF room]
  have mr8: "nat (mr mod 256) < 2 ^ 8" by (simp add: nat_less_iff)
  obtain b1 where b1: "BitBufferRead 8 b = Some (of_nat m, b1)" "bb_at b0 (p + 8) b1"
    using read_num_bits [OF at parts(1)] m(1) rd [of p] by auto
  obtain b2 where b2: "BitBufferRead 8 b1 = Some (of_nat (nat (mr mod 256)), b2)" "bb_at b0 (p + 8 + 8) b2"
    using read_num_bits [OF b1(2) parts(2) mr8] rd [of "p + 8"] by auto
  have rU: "(p + 8 + 8 + ?hU) div 8 + 3 \<le> length (bb_mem b0)" and rV: "(p + 8 + 8 + ?hU + ?hV) div 8 + 3 \<le> length (bb_mem b0)"
    by (intro rd; simp)+
  obtain b3 where b3: "read_channel_params b2 = Some (chU, b3)" "bb_at b0 (p + 8 + 8 + ?hU) b3"
    by (rule read_channel_params_code [OF b2(2) oku parts(3) rU])
  obtain b4 where b4: "read_channel_params b3 = Some (chV, b4)" "bb_at b0 (p + 8 + 8 + ?hU + ?hV) b4"
    by (rule read_channel_params_code [OF b3(2) okv parts(4) rV])
  have room5: "frame_room b0 (p + 8 + 8 + ?hU + ?hV + length cu)" and room6: "frame_room b0 (p + 8 + 8 + ?hU + ?hV + length cu + length cv)"
    by (rule frame_room_less [OF room], simp)+
  have okus: "channel_ok (length us) chU" "channel_ok (length vs) chV" using oku okv n by simp_all
  have fu: "\<forall>x \<in> set us. wrap_sample (32 - of_nat 17) x = x" "\<forall>x \<in> set vs. wrap_sample (32 - of_nat 17) x = x"
    using fits by auto
  have ne: "us \<noteq> []" "vs \<noteq> []" using n by auto
  have lu: "length us < 2 ^ 31" "length us \<le> length pred" "length us \<le> length ub" using n by simp_all
  obtain b5 pred5 where b5: "decompress_channel cfg chU (of_nat (length us)) (of_nat 17) b4 pred ub =
      Some (ALAC_noErr, b5, pred5, us @ drop (length us) ub)" "bb_at b0 (p + 8 + 8 + ?hU + ?hV + length cu) b5"
      "length pred5 = length pred"
    by (rule decompress_channel_code [OF b4(2) u okus(1) parts(5) room5 _ _ fu(1) ne(1) lu]) simp_all
  have lv: "length vs < 2 ^ 31" "length vs \<le> length pred5" "length vs \<le> length vb" using n b5(3) by simp_all
  obtain b6 pred6 where b6: "decompress_channel cfg chV (of_nat (length vs)) (of_nat 17) b5 pred5 vb =
      Some (ALAC_noErr, b6, pred6, vs @ drop (length vs) vb)" "bb_at b0 (p + 8 + 8 + ?hU + ?hV + length cu + length cv) b6"
      "length pred6 = length pred5"
    by (rule decompress_channel_code [OF b5(2) v okus(2) parts(6) room6 _ _ fu(2) ne(2) lv]) simp_all
  have "cpe_samples cfg \<lparr>eh_unused = 0, eh_partial = 0, eh_bytesShifted = 0, eh_escape = False\<rparr> (of_nat n) b pred ub vb =
      Some (ALAC_noErr, b6, pred6, us @ drop n ub, vs @ drop n vb, of_nat m, word_of_int mr, 0)"
    using b1(1) b2(1) b3(1) b4(1) b5(1) b6(1) n(1,2) cfg
    by (simp add: cpe_samples_def Let_def mixRes_read [OF m(2,3), simplified])
  then show thesis
    by (rule that) (use b6(2,3) b5(3) in simp_all)
qed

lemma mixed_prefix:
  assumes m: "m < 32" "0 \<le> mr" "mr < 128"
    and range: "\<forall>i < n. - (2 ^ 15) \<le> l i \<and> l i < 2 ^ 15 \<and> - (2 ^ 15) \<le> r i \<and> r i < 2 ^ 15"
  shows "mixed m mr 0 n l r (mix_u m mr n l r @ ub) (mix_v m mr n l r @ vb)"
proof -
  have "- (2 ^ 31) \<le> mr * (l i - r i) \<and> mr * (l i - r i) < 2 ^ 31" if "i < n" for i
  proof -
    have "\<bar>l i - r i\<bar> \<le> 2 ^ 16" using range that by auto
    then have "\<bar>mr * (l i - r i)\<bar> \<le> 128 * 2 ^ 16"
      unfolding abs_mult using m(2,3) by (intro mult_mono) auto
    then show ?thesis by auto
  qed
  then show ?thesis using m by (simp add: mixed_def mix_u_def mix_v_def nth_append)
qed

text \<open>C16: The decoder is lossless on a whole compressed stereo frame: from the bits an encoder writes for 16-bit
  samples of two channels - header, mixing, any predictor settings, adaptive Golomb codes - \<^verbatim>\<open>Decode\<close> returns
  without error, has written exactly these samples interleaved and little-endian to the front of the output
  and nothing else, and stands at the end of the frame.\<close>

theorem alac_stereo_frame_lossless:
  assumes frame: "cpe_frame (mConfig d) tag m mr chU chV n l r = Some code"
    and cfg: "bitDepth (mConfig d) = 16" and tag: "tag < 16" and m: "m < 32" "0 \<le> mr" "mr \<le> 2 ^ m" "mr < 128"
    and ok: "channel_ok n chU" "channel_ok n chV" and n: "0 < n" "n < 2 ^ 31"
    and range: "\<forall>i < n. - (2 ^ 15) \<le> l i \<and> l i < 2 ^ 15 \<and> - (2 ^ 15) \<le> r i \<and> r i < 2 ^ 15"
    and buffers: "mMixBufferU d = Some ub" "mMixBufferV d = Some vb" "mPredictor d = Some pred"
      "n \<le> length ub" "n \<le> length vb" "n \<le> length pred"
    and bits: "bb_ok bits" "stream_has (bb_mem bits) (bb_pos bits) code" "frame_room bits (bb_pos bits + length code)"
    and out: "4 * n \<le> length out"
  shows "\<exists>st. ALACDecoder_Decode d bits out (of_nat n) 2 out0 = Some (ALAC_noErr, st) \<and>
    interleaved (\<lambda>i. le16 (word_of_int (l i)) @ le16 (word_of_int (r i))) 4 4 n 0 out (dout st) \<and>
    doutnum st = of_nat n \<and> bb_pos (dbits st) = bb_pos bits + length code"
proof -
  let ?p = "bb_pos bits" and ?us = "mix_u m mr n l r" and ?vs = "mix_v m mr n l r"
  let ?hU = "length (channel_header chU)" and ?hV = "length (channel_header chV)"
  obtain cu cv where c: "channel_code (mConfig d) chU 17 ?us = Some cu" "channel_code (mConfig d) chV 17 ?vs = Some cv"
    "code = num_bits 3 1 @ (num_bits 4 tag @ num_bits 12 0 @ num_bits 4 0) @
       (num_bits 8 m @ num_bits 8 (nat (mr mod 256)) @ channel_header chU @ channel_header chV @ cu @ cv)"
    using frame by (auto simp: cpe_frame_def bind_eq_Some_conv)
  have len: "length code = 3 + 20 + (16 + ?hU + ?hV + length cu + length cv)"
    unfolding c(3) length_append length_num_bits by simp
  have parts: "stream_has (bb_mem bits) ?p (num_bits 3 1)"
    "stream_has (bb_mem bits) (?p + 3) (num_bits 4 tag @ num_bits 12 0 @ num_bits 4 0)"
    "stream_has (bb_mem bits) (?p + 3 + 20)
       (num_bits 8 m @ num_bits 8 (nat (mr mod 256)) @ channel_header chU @ channel_header chV @ cu @ cv)"
    using bits(2) unfolding c(3) stream_has_append [of _ ?p "num_bits 3 1"]
      stream_has_append [of _ "?p + length (num_bits 3 1)" "num_bits 4 tag @ num_bits 12 0 @ num_bits 4 0"] by simp_all
  have at0: "bb_at bits ?p bits" using bits(1) by (simp add: bb_at_def)
  have fits: "\<forall>x \<in> set ?us \<union> set ?vs. wrap_sample (32 - 17) x = x"
  proof -
    have "wrap_sample (32 - 17) (word_of_int (fst (alac_mix m mr (l i) (r i)))) = word_of_int (fst (alac_mix m mr (l i) (r i)))"
      "wrap_sample (32 - 17) (word_of_int (snd (alac_mix m mr (l i) (r i)))) = word_of_int (snd (alac_mix m mr (l i) (r i)))"
      if "i < n" for i
      using alac_mix_range [of "l i" "r i" mr m] range that m(2,3) by (intro wrap_sample_fits; simp)+
    then show ?thesis by (auto simp: mix_u_def mix_v_def)
  qed
  have lens: "length ?us = n" "length ?vs = n" by (simp_all add: mix_u_def mix_v_def)
  let ?st0 = "\<lparr>dec = d\<lparr>mActiveElements := 0\<rparr>, dbits = bits, dout = out, dnum = of_nat n, dchan = 0, doutnum = of_nat n\<rparr>"
  have lt: "cur bits < bend bits"
    using bits(1,3) len by (simp add: frame_room_def bb_pos_def)
  obtain b1 where b1: "BitBufferReadSmall 3 bits = Some (of_nat 1, b1)" "bb_at bits (?p + 3) b1"
    using readsmall_num_bits [OF at0 parts(1)] frame_room_read [OF bits(3), of ?p] by auto
  let ?st1 = "?st0\<lparr>dbits := b1\<rparr>"
  have at1: "bb_at bits (?p + 3) (dbits ?st1)" using b1(2) by simp
  obtain b2 d2 where b2: "read_element_header ?st1 = Some (Some \<lparr>eh_unused = 0, eh_partial = 0, eh_bytesShifted = 0, eh_escape = False\<rparr>,
      ?st1\<lparr>dbits := b2, dec := d2\<rparr>)" "bb_at bits (?p + 3 + 20) b2" "mConfig d2 = mConfig (dec ?st1)"
    "mMixBufferU d2 = mMixBufferU (dec ?st1)" "mMixBufferV d2 = mMixBufferV (dec ?st1)" "mPredictor d2 = mPredictor (dec ?st1)"
    by (rule read_element_header_code [OF at1 parts(2) tag frame_room_less [OF bits(3)]]) (simp add: len)
  have room: "frame_room bits (?p + 3 + 20 + 16 + ?hU + ?hV + length cu + length cv)"
    using bits(3) len by (simp add: add.assoc)
  have m128: "- 128 \<le> mr" using m by simp
  obtain b3 pred' where b3: "cpe_samples (mConfig d) \<lparr>eh_unused = 0, eh_partial = 0, eh_bytesShifted = 0, eh_escape = False\<rparr> (of_nat n) b2 pred ub vb =
      Some (ALAC_noErr, b3, pred', ?us @ drop n ub, ?vs @ drop n vb, of_nat m, word_of_int mr, 0)"
    "bb_at bits (?p + 3 + 20 + 16 + ?hU + ?hV + length cu + length cv) b3"
    by (rule cpe_samples_code [OF b2(2) cfg c(1,2) ok parts(3) room m(1) m128 m(4) lens n buffers(6,4,5) fits])
  obtain out' where out': "unmix16 (?us @ drop n ub) (?vs @ drop n vb) out 0 2 n (of_nat m) (word_of_int mr) = Some out'"
    "interleaved (\<lambda>i. le16 (word_of_int (l i)) @ le16 (word_of_int (r i))) 4 (2 * 2) n 0 out out'"
    using unmix16_mixed [OF mixed_prefix [OF m(1,2,4) range], of 2 0 out "drop n ub" "drop n vb"] out
    by auto
  have un: "unat (of_nat n :: u32) = n" using n by (intro unat_of_nat_u32) simp
  let ?st3 = "?st1\<lparr>dec := d2\<lparr>mPredictor := Some pred', mMixBufferU := Some (?us @ drop n ub), mMixBufferV := Some (?vs @ drop n vb)\<rparr>,
    dbits := b3, dout := out', dchan := 2, doutnum := of_nat n\<rparr>"
  have el: "cpe_element 2 ?st1 = Some (Next ALAC_noErr, ?st3)"
    using b2 b3(1) buffers cfg out'(1) un
    by (simp add: cpe_element_def read_numSamples_def cpe_output_def Let_def)
  have "decode_loop (decode_fuel bits) 2 ?st0 = Some (ALAC_noErr, ?st3)"
    using lt b1(1) el by (simp add: decode_fuel_def decode_element_def finish_channels_def)
  then have "ALACDecoder_Decode d bits out (of_nat n) 2 out0 = Some (ALAC_noErr, ?st3)"
    by (simp add: ALACDecoder_Decode_def)
  then show ?thesis
    using out'(2) b3(2) len by (intro exI [of _ ?st3]) (simp add: bb_at_def)
qed

section \<open>Witnesses\<close>

text \<open>Bits packed into bytes, the first bit of a byte the highest.\<close>

definition pack_bits :: "bool list \<Rightarrow> byte list" where
  "pack_bits bs = map (\<lambda>j. horner_sum of_bool 2 (map (\<lambda>i. 8 * j + (7 - i) < length bs \<and> bs ! (8 * j + (7 - i))) [0..<8]))
     [0..<(length bs + 7) div 8]"

lemma stream_has_pack_bits: "stream_has (pack_bits bs @ rest) 0 bs"
proof -
  have "mem_bit (pack_bits bs @ rest) i \<longleftrightarrow> bs ! i" if "i < length bs" for i
  proof -
    obtain a r where i: "i = 8 * a + r" "r < 8" by (metis mult_div_mod_eq mod_less_divisor zero_less_numeral)
    then have d: "i div 8 = a" "i mod 8 = r" by simp_all
    have "a < (length bs + 7) div 8" using i that by linarith
    then have "(pack_bits bs @ rest) ! a =
        horner_sum of_bool 2 (map (\<lambda>i. 8 * a + (7 - i) < length bs \<and> bs ! (8 * a + (7 - i))) [0..<8])"
      by (simp add: pack_bits_def nth_append)
    moreover have "8 * a + (7 - (7 - r)) = i" using i by simp
    moreover have "[0..<8] ! (7 - r) = 7 - r" "7 - r < 8" by (subst nth_upt) auto
    ultimately show ?thesis
      using that by (simp add: mem_bit_def d bit_horner_sum_bit_iff)
  qed
  then show ?thesis by (simp add: stream_has_def)
qed

definition sample_chU :: channel_params where
  "sample_chU = \<lparr>ch_mode = 0, ch_denShift = 9, ch_pbFactor = 4, ch_num = 1, ch_coefs = [160]\<rparr>"

definition sample_chV :: channel_params where
  "sample_chV = \<lparr>ch_mode = 0, ch_denShift = 0, ch_pbFactor = 4, ch_num = 0, ch_coefs = []\<rparr>"

definition sample_left :: "nat \<Rightarrow> int" where
  "sample_left i = [3, -1] ! i"

definition sample_right :: "nat \<Rightarrow> int" where
  "sample_right i = [2, 0] ! i"

definition sample_ps :: ag_params where
  "sample_ps = \<lparr> ag_mb = 10, ag_mb0 = 10, ag_pb = 40, ag_kb = 14, ag_wb = 0x3fff, ag_qb = 472, ag_fw = 2, ag_sw = 2,
     ag_maxrun = 255 \<rparr>"

lemma sample_codes:
  "ag_encode sample_ps 17 10 0 [2, -3] = Some [True, True, True, True, False, True, True, True, True, True, False]"
  "ag_encode sample_ps 17 10 0 [1, -1] = Some [True, True, False, False, False, False]"
proof -
  have "ag_code_sample sample_ps 17 10 0 2 = Some ([True, True, True, True, False], 170)"
    "ag_code_sample sample_ps 17 170 0 (-3) = Some ([True, True, True, True, True, False], 357)"
    "ag_code_sample sample_ps 17 10 0 1 = Some ([True, True, False], 90)"
    "ag_code_run sample_ps 90 0 = Some [False, False]"
    "ag_code_sample sample_ps 17 0 1 (-1) = Some ([False], 40)"
    by code_simp+
  moreover have "zero_run [-1] = 0" by (simp add: zero_run_def)
  ultimately show "ag_encode sample_ps 17 10 0 [2, -3] = Some [True, True, True, True, False, True, True, True, True, True, False]"
    "ag_encode sample_ps 17 10 0 [1, -1] = Some [True, True, False, False, False, False]"
    by (simp_all add: MMULSHIFT_def QB_def)
qed

definition sample_header :: "bool list" where
  "sample_header = num_bits 3 1 @ num_bits 4 0 @ num_bits 12 0 @ num_bits 4 0 @ num_bits 8 2 @ num_bits 8 1 @
     channel_header sample_chU @ channel_header sample_chV"

definition sample_frame :: "bool list" where
  "sample_frame = sample_header @ [True, True, True, True, False, True, True, True, True, True, False] @
     [True, True, False, False, False, False]"

lemma sample_frame_code:
  "cpe_frame (stream_config 44100 16 2 2) 0 2 1 sample_chU sample_chV 2 sample_left sample_right = Some sample_frame"
proof -
  have "mix_u 2 1 2 sample_left sample_right = [2, -1]" "mix_v 2 1 2 sample_left sample_right = [1, -1]"
    by (simp_all add: mix_u_def mix_v_def alac_mix_def sample_left_def sample_right_def upt_rec)
  moreover have "ag_of (stream_config 44100 16 2 2) sample_chU 2 = Some sample_ps"
    "ag_of (stream_config 44100 16 2 2) sample_chV 2 = Some sample_ps"
    "pc_block [2, -1] [160] 1 17 9 = [2, -3]" "pc_block [1, -1] [] 0 17 0 = [1, -1]"
    by code_simp+
  moreover have "ch_coefs sample_chU = [160]" "ch_num sample_chU = 1" "ch_denShift sample_chU = 9"
    "ch_coefs sample_chV = []" "ch_num sample_chV = 0" "ch_denShift sample_chV = 0" "ag_mb0 sample_ps = 10"
    by (simp_all add: sample_chU_def sample_chV_def sample_ps_def)
  moreover have "length [2, -1 :: u32] = 2" "length [1, -1 :: u32] = 2" "(of_nat 17 :: u32) = 17" by simp_all
  ultimately show ?thesis
    by (simp only: cpe_frame_def channel_code_def sample_codes sample_frame_def sample_header_def Option.bind.simps
        append_assoc) simp
qed

definition sample_decoder :: alac_decoder where
  "sample_decoder = \<lparr>mConfig = stream_config 44100 16 2 2, mActiveElements = 0,
     mMixBufferU = Some [0, 0], mMixBufferV = Some [0, 0], mPredictor = Some [0, 0]\<rparr>"

theorem alac_stereo_frame_lossless_witness:
  "\<exists>st. ALACDecoder_Decode sample_decoder (BitBufferInit (pack_bits sample_frame @ replicate 20 0) 32) (replicate 10 7) (of_nat 2) 2 0 =
      Some (ALAC_noErr, st) \<and>
    interleaved (\<lambda>i. le16 (word_of_int (sample_left i)) @ le16 (word_of_int (sample_right i))) 4 4 2 0 (replicate 10 7) (dout st) \<and>
    doutnum st = of_nat 2 \<and> 
    bb_pos (dbits st) = bb_pos (BitBufferInit (pack_bits sample_frame @ replicate 20 0) 32) + length sample_frame"
proof -
  let ?b = "BitBufferInit (pack_bits sample_frame @ replicate 20 0) 32"
  have len: "length sample_frame = 104"
    by (simp add: sample_frame_def sample_header_def sample_chU_def sample_chV_def)
  have lp: "length (pack_bits sample_frame) = 13" by (simp add: pack_bits_def len)
  have b: "bb_mem ?b = pack_bits sample_frame @ replicate 20 0" "bb_pos ?b = 0" "bb_ok ?b" "bend ?b = 32" "byteSize ?b = 32"
    by (simp_all add: BitBufferInit_def bb_pos_def bb_ok_def)
  have room: "frame_room ?b (bb_pos ?b + length sample_frame)"
    by (simp add: frame_room_def b len lp)
  have st: "stream_has (bb_mem ?b) (bb_pos ?b) sample_frame"
    unfolding b by (rule stream_has_pack_bits)
  have cfg: "mConfig sample_decoder = stream_config 44100 16 2 2" "bitDepth (mConfig sample_decoder) = 16"
    by (simp_all add: sample_decoder_def stream_config_def)
  show ?thesis
  proof (rule alac_stereo_frame_lossless [OF sample_frame_code [folded cfg(1)] cfg(2)])
    show "channel_ok 2 sample_chU" "channel_ok 2 sample_chV" by (simp_all add: channel_ok_def sample_chU_def sample_chV_def)
    show "\<forall>i < 2. - (2 ^ 15) \<le> sample_left i \<and> sample_left i < 2 ^ 15 \<and> - (2 ^ 15) \<le> sample_right i \<and> sample_right i < 2 ^ 15"
      by (simp add: sample_left_def sample_right_def numeral_2_eq_2 less_Suc_eq)
    show "bb_ok ?b" "stream_has (bb_mem ?b) (bb_pos ?b) sample_frame" "frame_room ?b (bb_pos ?b + length sample_frame)"
      by (rule b(3) st room)+
  qed (simp add: sample_decoder_def)+
qed

end
