(* ===== verification/Crypto_Aes.thy ===== *)
theory Crypto_Aes
  imports Tiny_Aes
begin

text \<open>
  \<^verbatim>\<open>crypto/aes.c\<close> and \<^verbatim>\<open>aes_ctr.c\<close>: the second AES of the program, which decrypts the audio packets and
  encrypts the signatures of the pairing.  It works on big-endian 32-bit words instead of bytes,
  and decrypts with a converted key.  It is compared with the byte version of \<^verbatim>\<open>Tiny_Aes\<close>.
\<close>

section \<open>Tables\<close>

definition aes_sbox :: "byte list" where
  "aes_sbox = [
      0x63, 0x7c, 0x77, 0x7b, 0xf2, 0x6b, 0x6f, 0xc5, 0x30, 0x01, 0x67, 0x2b, 0xfe, 0xd7, 0xab, 0x76,
      0xca, 0x82, 0xc9, 0x7d, 0xfa, 0x59, 0x47, 0xf0, 0xad, 0xd4, 0xa2, 0xaf, 0x9c, 0xa4, 0x72, 0xc0,
      0xb7, 0xfd, 0x93, 0x26, 0x36, 0x3f, 0xf7, 0xcc, 0x34, 0xa5, 0xe5, 0xf1, 0x71, 0xd8, 0x31, 0x15,
      0x04, 0xc7, 0x23, 0xc3, 0x18, 0x96, 0x05, 0x9a, 0x07, 0x12, 0x80, 0xe2, 0xeb, 0x27, 0xb2, 0x75,
      0x09, 0x83, 0x2c, 0x1a, 0x1b, 0x6e, 0x5a, 0xa0, 0x52, 0x3b, 0xd6, 0xb3, 0x29, 0xe3, 0x2f, 0x84,
      0x53, 0xd1, 0x00, 0xed, 0x20, 0xfc, 0xb1, 0x5b, 0x6a, 0xcb, 0xbe, 0x39, 0x4a, 0x4c, 0x58, 0xcf,
      0xd0, 0xef, 0xaa, 0xfb, 0x43, 0x4d, 0x33, 0x85, 0x45, 0xf9, 0x02, 0x7f, 0x50, 0x3c, 0x9f, 0xa8,
      0x51, 0xa3, 0x40, 0x8f, 0x92, 0x9d, 0x38, 0xf5, 0xbc, 0xb6, 0xda, 0x21, 0x10, 0xff, 0xf3, 0xd2,
      0xcd, 0x0c, 0x13, 0xec, 0x5f, 0x97, 0x44, 0x17, 0xc4, 0xa7, 0x7e, 0x3d, 0x64, 0x5d, 0x19, 0x73,
      0x60, 0x81, 0x4f, 0xdc, 0x22, 0x2a, 0x90, 0x88, 0x46, 0xee, 0xb8, 0x14, 0xde, 0x5e, 0x0b, 0xdb,
      0xe0, 0x32, 0x3a, 0x0a, 0x49, 0x06, 0x24, 0x5c, 0xc2, 0xd3, 0xac, 0x62, 0x91, 0x95, 0xe4, 0x79,
      0xe7, 0xc8, 0x37, 0x6d, 0x8d, 0xd5, 0x4e, 0xa9, 0x6c, 0x56, 0xf4, 0xea, 0x65, 0x7a, 0xae, 0x08,
      0xba, 0x78, 0x25, 0x2e, 0x1c, 0xa6, 0xb4, 0xc6, 0xe8, 0xdd, 0x74, 0x1f, 0x4b, 0xbd, 0x8b, 0x8a,
      0x70, 0x3e, 0xb5, 0x66, 0x48, 0x03, 0xf6, 0x0e, 0x61, 0x35, 0x57, 0xb9, 0x86, 0xc1, 0x1d, 0x9e,
      0xe1, 0xf8, 0x98, 0x11, 0x69, 0xd9, 0x8e, 0x94, 0x9b, 0x1e, 0x87, 0xe9, 0xce, 0x55, 0x28, 0xdf,
      0x8c, 0xa1, 0x89, 0x0d, 0xbf, 0xe6, 0x42, 0x68, 0x41, 0x99, 0x2d, 0x0f, 0xb0, 0x54, 0xbb, 0x16]"

definition aes_isbox :: "byte list" where
  "aes_isbox = [
      0x52, 0x09, 0x6a, 0xd5, 0x30, 0x36, 0xa5, 0x38, 0xbf, 0x40, 0xa3, 0x9e, 0x81, 0xf3, 0xd7, 0xfb,
      0x7c, 0xe3, 0x39, 0x82, 0x9b, 0x2f, 0xff, 0x87, 0x34, 0x8e, 0x43, 0x44, 0xc4, 0xde, 0xe9, 0xcb,
      0x54, 0x7b, 0x94, 0x32, 0xa6, 0xc2, 0x23, 0x3d, 0xee, 0x4c, 0x95, 0x0b, 0x42, 0xfa, 0xc3, 0x4e,
      0x08, 0x2e, 0xa1, 0x66, 0x28, 0xd9, 0x24, 0xb2, 0x76, 0x5b, 0xa2, 0x49, 0x6d, 0x8b, 0xd1, 0x25,
      0x72, 0xf8, 0xf6, 0x64, 0x86, 0x68, 0x98, 0x16, 0xd4, 0xa4, 0x5c, 0xcc, 0x5d, 0x65, 0xb6, 0x92,
      0x6c, 0x70, 0x48, 0x50, 0xfd, 0xed, 0xb9, 0xda, 0x5e, 0x15, 0x46, 0x57, 0xa7, 0x8d, 0x9d, 0x84,
      0x90, 0xd8, 0xab, 0x00, 0x8c, 0xbc, 0xd3, 0x0a, 0xf7, 0xe4, 0x58, 0x05, 0xb8, 0xb3, 0x45, 0x06,
      0xd0, 0x2c, 0x1e, 0x8f, 0xca, 0x3f, 0x0f, 0x02, 0xc1, 0xaf, 0xbd, 0x03, 0x01, 0x13, 0x8a, 0x6b,
      0x3a, 0x91, 0x11, 0x41, 0x4f, 0x67, 0xdc, 0xea, 0x97, 0xf2, 0xcf, 0xce, 0xf0, 0xb4, 0xe6, 0x73,
      0x96, 0xac, 0x74, 0x22, 0xe7, 0xad, 0x35, 0x85, 0xe2, 0xf9, 0x37, 0xe8, 0x1c, 0x75, 0xdf, 0x6e,
      0x47, 0xf1, 0x1a, 0x71, 0x1d, 0x29, 0xc5, 0x89, 0x6f, 0xb7, 0x62, 0x0e, 0xaa, 0x18, 0xbe, 0x1b,
      0xfc, 0x56, 0x3e, 0x4b, 0xc6, 0xd2, 0x79, 0x20, 0x9a, 0xdb, 0xc0, 0xfe, 0x78, 0xcd, 0x5a, 0xf4,
      0x1f, 0xdd, 0xa8, 0x33, 0x88, 0x07, 0xc7, 0x31, 0xb1, 0x12, 0x10, 0x59, 0x27, 0x80, 0xec, 0x5f,
      0x60, 0x51, 0x7f, 0xa9, 0x19, 0xb5, 0x4a, 0x0d, 0x2d, 0xe5, 0x7a, 0x9f, 0x93, 0xc9, 0x9c, 0xef,
      0xa0, 0xe0, 0x3b, 0x4d, 0xae, 0x2a, 0xf5, 0xb0, 0xc8, 0xeb, 0xbb, 0x3c, 0x83, 0x53, 0x99, 0x61,
      0x17, 0x2b, 0x04, 0x7e, 0xba, 0x77, 0xd6, 0x26, 0xe1, 0x69, 0x14, 0x63, 0x55, 0x21, 0x0c, 0x7d]"

definition crypto_Rcon :: "byte list" where
  "crypto_Rcon = [
      0x01, 0x02, 0x04, 0x08, 0x10, 0x20, 0x40, 0x80, 0x1b, 0x36, 0x6c, 0xd8, 0xab, 0x4d, 0x9a, 0x2f,
      0x5e, 0xbc, 0x63, 0xc6, 0x97, 0x35, 0x6a, 0xd4, 0xb3, 0x7d, 0xfa, 0xef, 0xc5, 0x91]"

section \<open>Keys\<close>

datatype AES_MODE = AES_MODE_128 | AES_MODE_256

record AES_CTX =
  cx_rounds :: nat
  cx_key_size :: nat
  cx_ks :: "u32 list"
  cx_iv :: "byte list"

definition AES_xtime :: "u32 \<Rightarrow> byte" where
  "AES_xtime x = (if x AND 0x80 \<noteq> 0 then ucast (push_bit 1 x XOR 0x1b) else ucast (push_bit 1 x))"

text \<open>Byte \<^verbatim>\<open>n\<close> of a word, looked up in a table.\<close>

definition tab :: "byte list \<Rightarrow> nat \<Rightarrow> u32 \<Rightarrow> u32" where
  "tab t n w = ucast (t ! unat (drop_bit n w AND 0xff))"

text \<open>The words read from, and written to, a buffer of bytes.\<close>

fun ntohl_words :: "byte list \<Rightarrow> u32 list" where
  "ntohl_words (a # b # c # d # rest) = be32 a b c d # ntohl_words rest"
| "ntohl_words _ = []"

fun htonl_words :: "u32 list \<Rightarrow> byte list" where
  "htonl_words [] = []"
| "htonl_words (w # ws) =
     ucast (drop_bit 24 w) # ucast (drop_bit 16 w) # ucast (drop_bit 8 w) # ucast w # htonl_words ws"

text \<open>One iteration of the loop of \<^verbatim>\<open>AES_set_key\<close>: the words so far and the index of \<^verbatim>\<open>ip\<close> in \<^verbatim>\<open>Rcon\<close>.\<close>

definition set_key_step :: "nat \<Rightarrow> u32 list \<times> nat \<Rightarrow> nat \<Rightarrow> u32 list \<times> nat" where
  "set_key_step words st i = (case st of (W, ip) \<Rightarrow>
     let tmp = W ! (i - 1);
         (tmp, ip) =
           (if i mod words = 0
            then ((push_bit 8 (tab aes_sbox 0 tmp) OR push_bit 16 (tab aes_sbox 8 tmp) OR
                   push_bit 24 (tab aes_sbox 16 tmp) OR tab aes_sbox 24 tmp) XOR
                  push_bit 24 (ucast (crypto_Rcon ! ip)), ip + 1)
            else (tmp, ip));
         tmp =
           (if words = 8 \<and> i mod words = 4
            then tab aes_sbox 0 tmp OR push_bit 8 (tab aes_sbox 8 tmp) OR
                 push_bit 16 (tab aes_sbox 16 tmp) OR push_bit 24 (tab aes_sbox 24 tmp)
            else tmp)
     in (W @ [W ! (i - words) XOR tmp], ip))"

definition AES_set_key :: "byte list \<Rightarrow> byte list \<Rightarrow> AES_MODE \<Rightarrow> AES_CTX" where
  "AES_set_key key iv mode = (
     let (rounds, words) = (case mode of AES_MODE_128 \<Rightarrow> (10, 4) | AES_MODE_256 \<Rightarrow> (14, 8));
         W = ntohl_words (take (4 * words) key);
         (W, ip) = foldl (set_key_step words) (W, 0) [words..<4 * (rounds + 1)]
     in \<lparr> cx_rounds = rounds, cx_key_size = words, cx_ks = W, cx_iv = take 16 iv \<rparr>)"

definition mul2 :: "u32 \<Rightarrow> u32" where
  "mul2 x = (let t = x AND 0x80808080
             in ((x + x) AND 0xfefefefe) XOR ((t - drop_bit 7 t) AND 0x1b1b1b1b))"

definition rot1 :: "u32 \<Rightarrow> u32" where "rot1 x = push_bit 24 x OR drop_bit 8 x"
definition rot2 :: "u32 \<Rightarrow> u32" where "rot2 x = push_bit 16 x OR drop_bit 16 x"
definition rot3 :: "u32 \<Rightarrow> u32" where "rot3 x = push_bit 8 x OR drop_bit 24 x"

definition inv_mix_col :: "u32 \<Rightarrow> u32" where
  "inv_mix_col x = (
     let f2 = mul2 x; f4 = mul2 f2; f8 = mul2 f4; f9 = x XOR f8;
         f8 = f2 XOR f4 XOR f8;
         f2 = f2 XOR f9;
         f4 = f4 XOR f9;
         f8 = f8 XOR rot3 f2;
         f8 = f8 XOR rot2 f4
     in f8 XOR rot1 f9)"

text \<open>The round keys between the first and the last.\<close>

definition AES_convert_key :: "AES_CTX \<Rightarrow> AES_CTX" where
  "AES_convert_key ctx = (
     let n = cx_rounds ctx * 4 - 4
     in ctx\<lparr>cx_ks := take 4 (cx_ks ctx) @ map inv_mix_col (take n (drop 4 (cx_ks ctx))) @ drop (4 + n) (cx_ks ctx)\<rparr>)"

section \<open>One block\<close>

definition add_key :: "u32 list \<Rightarrow> nat \<Rightarrow> u32 list \<Rightarrow> u32 list" where
  "add_key k n dat = map2 (\<lambda>x y. x XOR y) dat (take 4 (drop (4 * n) k))"

definition join4 :: "u32 \<Rightarrow> u32 \<Rightarrow> u32 \<Rightarrow> u32 \<Rightarrow> u32" where
  "join4 a0 a1 a2 a3 = push_bit 24 a0 OR push_bit 16 a1 OR push_bit 8 a2 OR a3"

definition mix_column :: "u32 \<Rightarrow> u32 \<Rightarrow> u32 \<Rightarrow> u32 \<Rightarrow> u32" where
  "mix_column a0 a1 a2 a3 = (
     let tmp1 = a0 XOR a1 XOR a2 XOR a3;
         old_a0 = a0;
         a0 = a0 XOR (tmp1 XOR ucast (AES_xtime (a0 XOR a1)));
         a1 = a1 XOR (tmp1 XOR ucast (AES_xtime (a1 XOR a2)));
         a2 = a2 XOR (tmp1 XOR ucast (AES_xtime (a2 XOR a3)));
         a3 = a3 XOR (tmp1 XOR ucast (AES_xtime (a3 XOR old_a0)))
     in join4 a0 a1 a2 a3)"

definition encrypt_row :: "bool \<Rightarrow> u32 list \<Rightarrow> nat \<Rightarrow> u32" where
  "encrypt_row mix dat row = (
     let a0 = tab aes_sbox 24 (dat ! (row mod 4));
         a1 = tab aes_sbox 16 (dat ! ((row + 1) mod 4));
         a2 = tab aes_sbox 8 (dat ! ((row + 2) mod 4));
         a3 = tab aes_sbox 0 (dat ! ((row + 3) mod 4))
     in if mix then mix_column a0 a1 a2 a3 else join4 a0 a1 a2 a3)"

definition AES_encrypt :: "AES_CTX \<Rightarrow> u32 list \<Rightarrow> u32 list" where
  "AES_encrypt ctx dat =
     foldl (\<lambda>dat curr_rnd. add_key (cx_ks ctx) (curr_rnd + 1)
         (map (encrypt_row (curr_rnd < cx_rounds ctx - 1) dat) [0, 1, 2, 3]))
       (add_key (cx_ks ctx) 0 dat) [0..<cx_rounds ctx]"

definition inv_mix_column :: "u32 \<Rightarrow> u32 \<Rightarrow> u32 \<Rightarrow> u32 \<Rightarrow> u32" where
  "inv_mix_column a0 a1 a2 a3 = (
     let xt0 = ucast (AES_xtime (a0 XOR a1));
         xt1 = ucast (AES_xtime (a1 XOR a2));
         xt2 = ucast (AES_xtime (a2 XOR a3));
         xt3 = ucast (AES_xtime (a3 XOR a0));
         xt4 = ucast (AES_xtime (xt0 XOR xt1));
         xt5 = ucast (AES_xtime (xt1 XOR xt2));
         xt6 = ucast (AES_xtime (xt4 XOR xt5));
         xt0 = xt0 XOR (a1 XOR a2 XOR a3 XOR xt4 XOR xt6);
         xt1 = xt1 XOR (a0 XOR a2 XOR a3 XOR xt5 XOR xt6);
         xt2 = xt2 XOR (a0 XOR a1 XOR a3 XOR xt4 XOR xt6);
         xt3 = xt3 XOR (a0 XOR a1 XOR a2 XOR xt5 XOR xt6)
     in join4 xt0 xt1 xt2 xt3)"

text \<open>\<^verbatim>\<open>row\<close> is the loop variable, 4 down to 1; the word written is \<^verbatim>\<open>row - 1\<close>.\<close>

definition decrypt_row :: "bool \<Rightarrow> u32 list \<Rightarrow> nat \<Rightarrow> u32" where
  "decrypt_row mix dat row = (
     let a0 = tab aes_isbox 24 (dat ! ((row + 3) mod 4));
         a1 = tab aes_isbox 16 (dat ! ((row + 2) mod 4));
         a2 = tab aes_isbox 8 (dat ! ((row + 1) mod 4));
         a3 = tab aes_isbox 0 (dat ! (row mod 4))
     in if mix then inv_mix_column a0 a1 a2 a3 else join4 a0 a1 a2 a3)"

definition AES_decrypt :: "AES_CTX \<Rightarrow> u32 list \<Rightarrow> u32 list" where
  "AES_decrypt ctx dat =
     foldl (\<lambda>dat curr_rnd. add_key (cx_ks ctx) (cx_rounds ctx - 1 - curr_rnd)
         (map (decrypt_row (curr_rnd < cx_rounds ctx - 1) dat) [1, 2, 3, 4]))
       (add_key (cx_ks ctx) (cx_rounds ctx) dat) [0..<cx_rounds ctx]"

section \<open>CBC\<close>

text \<open>Whole blocks only; a rest shorter than a block, or a negative length, is left alone.\<close>

fun crypto_cbc_encrypt :: "AES_CTX \<Rightarrow> u32 list \<Rightarrow> byte list \<Rightarrow> nat \<Rightarrow> (byte list \<times> u32 list) option" where
  "crypto_cbc_encrypt ctx tout msg 0 = Some ([], tout)"
| "crypto_cbc_encrypt ctx tout msg (Suc n) = do {
     blk \<leftarrow> slice 0 16 msg;
     let tin = AES_encrypt ctx (map2 (\<lambda>x y. x XOR y) (ntohl_words blk) tout);
     (out, tout) \<leftarrow> crypto_cbc_encrypt ctx tin (drop 16 msg) n;
     Some (htonl_words tin @ out, tout)
   }"

definition AES_cbc_encrypt :: "AES_CTX \<Rightarrow> byte list \<Rightarrow> int \<Rightarrow> (AES_CTX \<times> byte list) option" where
  "AES_cbc_encrypt ctx msg len = do {
     (out, tout) \<leftarrow> crypto_cbc_encrypt ctx (ntohl_words (cx_iv ctx)) msg (nat len div 16);
     Some (ctx\<lparr>cx_iv := htonl_words tout\<rparr>, out)
   }"

fun crypto_cbc_decrypt :: "AES_CTX \<Rightarrow> u32 list \<Rightarrow> byte list \<Rightarrow> nat \<Rightarrow> (byte list \<times> u32 list) option" where
  "crypto_cbc_decrypt ctx prev msg 0 = Some ([], prev)"
| "crypto_cbc_decrypt ctx prev msg (Suc n) = do {
     blk \<leftarrow> slice 0 16 msg;
     let tin = ntohl_words blk;
     let tout = map2 (\<lambda>x y. x XOR y) (AES_decrypt ctx tin) prev;
     (out, prev) \<leftarrow> crypto_cbc_decrypt ctx tin (drop 16 msg) n;
     Some (htonl_words tout @ out, prev)
   }"

definition AES_cbc_decrypt :: "AES_CTX \<Rightarrow> byte list \<Rightarrow> int \<Rightarrow> (AES_CTX \<times> byte list) option" where
  "AES_cbc_decrypt ctx msg len = do {
     (out, prev) \<leftarrow> crypto_cbc_decrypt ctx (ntohl_words (cx_iv ctx)) msg (nat len div 16);
     Some (ctx\<lparr>cx_iv := htonl_words prev\<rparr>, out)
   }"

section \<open>Words and bytes\<close>

lemma tables_agree: "aes_sbox = sbox" "aes_isbox = rsbox"
  by (simp_all add: aes_sbox_def sbox_def aes_isbox_def rsbox_def)

lemma word32_cases: "n < 32 \<Longrightarrow> \<exists>a r. n = 8 * a + r \<and> r < 8 \<and> (a = 0 \<or> a = 1 \<or> a = 2 \<or> a = (3 :: nat))"
  by (intro exI [of _ "n div 8"] exI [of _ "n mod 8"]) auto

lemma be32_byte:
  "drop_bit 24 (be32 a b c d) AND 0xff = ucast a" "drop_bit 16 (be32 a b c d) AND 0xff = ucast b"
  "drop_bit 8 (be32 a b c d) AND 0xff = ucast c" "drop_bit 0 (be32 a b c d) AND 0xff = ucast d"
proof -
  have m: "(0xff :: u32) = mask 8" by (simp add: mask_eq_exp_minus_1)
  show "drop_bit 24 (be32 a b c d) AND 0xff = ucast a" "drop_bit 16 (be32 a b c d) AND 0xff = ucast b"
    "drop_bit 8 (be32 a b c d) AND 0xff = ucast c" "drop_bit 0 (be32 a b c d) AND 0xff = ucast d"
    by (rule bit_word_eqI; auto simp: be32_def m bit_simps dest: bit_imp_le_length)+
qed

lemma tab_be32:
  "tab t 24 (be32 a b c d) = ucast (t ! unat a)" "tab t 16 (be32 a b c d) = ucast (t ! unat b)"
  "tab t 8 (be32 a b c d) = ucast (t ! unat c)" "tab t 0 (be32 a b c d) = ucast (t ! unat d)"
  by (simp_all only: tab_def be32_byte) (simp_all add: unat_ucast_byte)

lemma join4_bytes: "join4 (ucast a) (ucast b) (ucast c) (ucast d) = be32 a b c d"
  by (simp add: join4_def be32_def)

lemma ucast_xor: "ucast a XOR ucast b = (ucast (a XOR b :: byte) :: u32)"
  by (rule bit_word_eqI) (auto simp: bit_simps)

lemma be32_xor: "be32 a b c d XOR be32 a' b' c' d' = be32 (a XOR a') (b XOR b') (c XOR c') (d XOR d')"
proof (rule bit_word_eqI)
  fix n
  assume "n < LENGTH(32)"
  then obtain k r where n: "n = 8 * k + r" "r < 8" "k = 0 \<or> k = 1 \<or> k = 2 \<or> k = 3" using word32_cases [of n] by auto
  show "bit (be32 a b c d XOR be32 a' b' c' d') n \<longleftrightarrow> bit (be32 (a XOR a') (b XOR b') (c XOR c') (d XOR d')) n"
    using n(3,1,2) by (elim disjE) (auto simp: be32_def bit_simps dest: bit_imp_le_length)
qed

lemma xtime_cases: "xtime x = (if bit x 7 then push_bit 1 x XOR 0x1b else push_bit 1 x)"
proof -
  have "drop_bit 7 x AND 1 = of_bool (bit x 7)"
    by (simp add: and_one_eq bit_iff_odd_drop_bit mod_2_eq_odd)
  then show ?thesis by (simp add: xtime_def)
qed

lemma AES_xtime_ucast: "AES_xtime (ucast x) = xtime x"
proof -
  have "(ucast x :: u32) AND 0x80 \<noteq> 0 \<longleftrightarrow> bit x 7"
    using and_exp_eq_0_iff_not_bit [of "ucast x :: u32" 7] by (simp add: bit_ucast_iff)
  moreover have push: "ucast (push_bit n (ucast x :: u32)) = push_bit n x" for n
    by (rule bit_word_eqI) (auto simp: bit_simps)
  moreover have "ucast (push_bit 1 (ucast x :: u32) XOR w) = push_bit 1 x XOR ucast w" for w
    unfolding push [symmetric] by (rule bit_word_eqI) (simp only: bit_simps, blast)
  ultimately show ?thesis using push [of 1] by (simp add: AES_xtime_def xtime_cases)
qed

section \<open>Encryption\<close>

lemma MixColumns_words:
  "ntohl_words (MixColumns (a # b # c # d # rest)) =
     mix_column (ucast a) (ucast b) (ucast c) (ucast d) # ntohl_words (MixColumns rest)"
  by (simp add: mix_column_def ucast_xor AES_xtime_ucast join4_bytes Let_def xor_ac)

lemma InvMixColumns_words:
  "ntohl_words (InvMixColumns (a # b # c # d # rest)) =
     inv_mix_column (ucast a) (ucast b) (ucast c) (ucast d) # ntohl_words (InvMixColumns rest)"
  by (simp add: inv_mix_column_def ucast_xor AES_xtime_ucast join4_bytes Let_def Multiply_consts xtime_xor xor_ac)

text \<open>The four rows of a state, with the words they take their bytes from.\<close>

lemma four_rows:
  "map (encrypt_row mix [w0, w1, w2, w3]) [0, 1, 2, 3] =
     map (\<lambda>(w0, w1, w2, w3). (if mix then mix_column else join4)
       (tab aes_sbox 24 w0) (tab aes_sbox 16 w1) (tab aes_sbox 8 w2) (tab aes_sbox 0 w3))
       [(w0, w1, w2, w3), (w1, w2, w3, w0), (w2, w3, w0, w1), (w3, w0, w1, w2)]"
  "map (decrypt_row mix [w0, w1, w2, w3]) [1, 2, 3, 4] =
     map (\<lambda>(w0, w1, w2, w3). (if mix then inv_mix_column else join4)
       (tab aes_isbox 24 w0) (tab aes_isbox 16 w1) (tab aes_isbox 8 w2) (tab aes_isbox 0 w3))
       [(w0, w3, w2, w1), (w1, w0, w3, w2), (w2, w1, w0, w3), (w3, w2, w1, w0)]"
  by (simp_all add: encrypt_row_def decrypt_row_def)

lemmas four_rows_list = four_rows [unfolded list.map]

lemma encrypt_rows:
  assumes "length st = 16"
  shows "map (encrypt_row True (ntohl_words st)) [0, 1, 2, 3] = ntohl_words (MixColumns (ShiftRows (SubBytes st)))"
    and "map (encrypt_row False (ntohl_words st)) [0, 1, 2, 3] = ntohl_words (ShiftRows (SubBytes st))"
  using assms
  by (erule_tac [!] state_cases) (simp_all only: ntohl_words.simps four_rows_list SubBytes_def list.map ShiftRows.simps
      MixColumns_words tab_be32 join4_bytes tables_agree getSBoxValue_def prod.case if_True if_False MixColumns.simps(2))

lemma decrypt_rows:
  assumes "length st = 16"
  shows "map (decrypt_row True (ntohl_words st)) [1, 2, 3, 4] = ntohl_words (InvMixColumns (InvSubBytes (InvShiftRows st)))"
    and "map (decrypt_row False (ntohl_words st)) [1, 2, 3, 4] = ntohl_words (InvSubBytes (InvShiftRows st))"
  using assms
  by (erule_tac [!] state_cases) (simp_all only: ntohl_words.simps four_rows_list InvSubBytes_def list.map InvShiftRows.simps
      InvMixColumns_words tab_be32 join4_bytes tables_agree getSBoxInvert_def prod.case if_True if_False InvMixColumns.simps(2))

section \<open>Round keys\<close>

lemma length_ntohl_words: "length (ntohl_words xs) = length xs div 4"
  by (induction xs rule: ntohl_words.induct) simp_all

lemma take_ntohl_words: "take n (ntohl_words xs) = ntohl_words (take (4 * n) xs)"
proof (induction n arbitrary: xs)
  case (Suc n)
  have "4 * Suc n = Suc (Suc (Suc (Suc (4 * n))))" by simp
  then show ?case using Suc by (cases xs rule: ntohl_words.cases) (simp_all del: mult_Suc_right)
qed simp

lemma drop_ntohl_words: "drop n (ntohl_words xs) = ntohl_words (drop (4 * n) xs)"
proof (induction n arbitrary: xs)
  case (Suc n)
  have "4 * Suc n = Suc (Suc (Suc (Suc (4 * n))))" by simp
  then show ?case using Suc by (cases xs rule: ntohl_words.cases) (simp_all del: mult_Suc_right)
qed simp

lemma map2_ntohl_words:
  "length xs = length ys \<Longrightarrow>
     map2 (\<lambda>x y. x XOR y) (ntohl_words xs) (ntohl_words ys) = ntohl_words (map2 (\<lambda>x y. x XOR y) xs ys)"
proof (induction xs arbitrary: ys rule: ntohl_words.induct)
  case (1 a b c d rest)
  then show ?case by (cases ys rule: ntohl_words.cases) (simp_all add: be32_xor)
qed (auto simp: Suc_length_conv length_Suc_conv)

lemma ntohl_words_append: "4 dvd length xs \<Longrightarrow> ntohl_words (xs @ ys) = ntohl_words xs @ ntohl_words ys"
proof (induction xs rule: ntohl_words.induct)
  case (1 a b c d rest)
  have "4 dvd length rest" using "1.prems" by simp presburger
  then show ?case using "1.IH" by simp
qed (auto dest: dvd_imp_le)

lemma nth_ntohl_words:
  assumes "4 * k + 3 < length xs"
  shows "ntohl_words xs ! k = be32 (xs ! (4 * k)) (xs ! (4 * k + 1)) (xs ! (4 * k + 2)) (xs ! (4 * k + 3))"
  using assms
proof (induction k arbitrary: xs)
  case 0
  then show ?case by (cases xs rule: ntohl_words.cases) (simp_all add: numeral_2_eq_2 numeral_3_eq_3)
next
  case (Suc k)
  have eq: "4 * Suc k = Suc (Suc (Suc (Suc (4 * k))))" by simp
  show ?case
    using Suc.IH [of "drop 4 xs"] Suc.prems unfolding eq
    by (cases xs rule: ntohl_words.cases) (simp_all add: add.commute)
qed

lemma add_key_words:
  assumes "schedule rk" "r \<le> 10" "length st = 16"
  shows "add_key (ntohl_words rk) r (ntohl_words st) = ntohl_words (AddRoundKey r st rk)"
  using assms
  by (simp add: add_key_def AddRoundKey_def drop_ntohl_words take_ntohl_words map2_ntohl_words schedule_def)

text \<open>The two key expansions, step by step.\<close>

lemma crypto_Rcon_nth: "q < 10 \<Longrightarrow> crypto_Rcon ! q = Rcon ! Suc q"
  by (auto simp: crypto_Rcon_def Rcon_def less_Suc_eq numeral_eq_Suc)

lemma xor_Rcon: "be32 a b c d XOR push_bit 24 (ucast r) = be32 (a XOR r) b c d"
  using be32_xor [of a b c d r 0 0 0] by (simp add: be32_def)

lemma set_key_step_word:
  assumes i: "4 \<le> i" "i < 44" and len: "length rk = 4 * i" and q: "q = (i - 1) div 4"
  shows "set_key_step 4 (ntohl_words rk, q) i = (ntohl_words (rk @ key_word rk i), i div 4)"
proof -
  define t where "t j = rk ! (4 * (i - 1) + j)" for j
  define u where "u j = rk ! (4 * (i - 4) + j)" for j
  have w: "ntohl_words rk ! (i - Suc 0) = be32 (t 0) (t 1) (t 2) (t 3)"
    "ntohl_words rk ! (i - 4) = be32 (u 0) (u 1) (u 2) (u 3)"
    using i len by (simp_all add: nth_ntohl_words t_def u_def)
  have app: "ntohl_words (rk @ key_word rk i) = ntohl_words rk @ ntohl_words (key_word rk i)"
    using len by (simp add: ntohl_words_append)
  show ?thesis
  proof (cases "i mod 4 = 0")
    case True
    then obtain m where m: "i = 4 * m" by auto
    then have "q = m - 1" "m - 1 < 10" "i div 4 = m" "Suc (m - 1) = m" using q i by auto
    then have "crypto_Rcon ! q = Rcon ! (i div 4)" "Suc q = i div 4" using crypto_Rcon_nth [of q] by simp_all
    moreover have "push_bit 8 (ucast x0) OR push_bit 16 (ucast x1) OR push_bit 24 (ucast x2) OR ucast x3 =
        be32 x2 x1 x0 x3" for x0 x1 x2 x3
      by (simp add: be32_def or.assoc or.left_commute or.commute)
    ultimately show ?thesis
      using True
      by (simp add: set_key_step_def w app tab_be32 tables_agree xor_Rcon Let_def)
        (simp add: key_word_def getSBoxValue_def t_def u_def be32_xor mult.commute add.commute Let_def)
  next
    case False
    then have "i div 4 = q" using q i by presburger
    with False show ?thesis
      by (simp add: set_key_step_def w app Let_def)
        (simp add: key_word_def t_def u_def be32_xor mult.commute add.commute Let_def)
  qed
qed

lemma set_key_words:
  assumes "length key = 16" and "n \<le> 40"
  shows "foldl (set_key_step 4) (ntohl_words key, 0) [4..<n + 4] =
    (ntohl_words (foldl (\<lambda>rk i. rk @ key_word rk i) key [4..<n + 4]), (n + 3) div 4)"
  using assms(2)
proof (induction n)
  case (Suc n)
  let ?rk = "foldl (\<lambda>rk i. rk @ key_word rk i) key [4..<n + 4]"
  have "length ?rk = 4 * (n + 4)" using KeyExpansion_prefix [OF assms(1), of n] assms(1) by simp
  then have "set_key_step 4 (ntohl_words ?rk, (n + 3) div 4) (n + 4) =
      (ntohl_words (?rk @ key_word ?rk (n + 4)), (n + 4) div 4)"
    using Suc.prems by (intro set_key_step_word) simp_all
  moreover have "[4..<Suc n + 4] = [4..<n + 4] @ [n + 4]" by (simp only: add_Suc upt_Suc) simp
  ultimately show ?case
    using Suc by (simp only: foldl_append foldl.simps) simp
qed simp

lemma set_key_schedule:
  assumes "length key = 16"
  shows "AES_set_key key iv AES_MODE_128 =
    \<lparr> cx_rounds = 10, cx_key_size = 4, cx_ks = ntohl_words (KeyExpansion key), cx_iv = take 16 iv \<rparr>"
proof -
  have "4 * (10 + 1) = 40 + (4 :: nat)" "4 * (Nr + 1) = 40 + 4" by (simp_all add: Nr_def)
  then show ?thesis
    using set_key_words [OF assms, of 40] assms
    by (simp only: AES_set_key_def KeyExpansion_def AES_MODE.case Let_def prod.case) simp
qed

section \<open>The two ciphers agree\<close>

definition keyed :: "byte list \<Rightarrow> AES_CTX \<Rightarrow> bool" where
  "keyed rk ctx \<longleftrightarrow> schedule rk \<and> cx_rounds ctx = 10 \<and> cx_ks ctx = ntohl_words rk"

lemma encrypt_rounds:
  assumes "keyed rk ctx" and "length st = 16" and "\<forall>r \<in> set rs. r < 9"
  shows "foldl (\<lambda>dat r. add_key (cx_ks ctx) (r + 1) (map (encrypt_row (r < cx_rounds ctx - 1) dat) [0, 1, 2, 3]))
      (ntohl_words st) rs = ntohl_words (foldl (cipher_round rk) st (map Suc rs))"
  using assms(2,3)
proof (induction rs arbitrary: st)
  case (Cons r rs)
  have rk: "schedule rk" "cx_ks ctx = ntohl_words rk" "cx_rounds ctx = 10" using assms(1) by (simp_all add: keyed_def)
  have r: "r < 9" "Suc r \<le> 10" using Cons.prems(2) by auto
  have "map (encrypt_row True (ntohl_words st)) [0, 1, 2, 3] = ntohl_words (MixColumns (ShiftRows (SubBytes st)))"
    by (rule encrypt_rows(1) [OF Cons.prems(1)])
  then have "add_key (cx_ks ctx) (r + 1) (map (encrypt_row (r < cx_rounds ctx - 1) (ntohl_words st)) [0, 1, 2, 3]) =
      ntohl_words (cipher_round rk st (Suc r))"
    using Cons.prems(1) r add_key_words [OF rk(1) r(2), of "MixColumns (ShiftRows (SubBytes st))"]
    by (simp only: rk(2,3)) (simp add: cipher_round_def)
  moreover have "length (cipher_round rk st (Suc r)) = 16"
    by (rule length_cipher_round [OF rk(1) Cons.prems(1) r(2)])
  ultimately show ?case using Cons.IH [of "cipher_round rk st (Suc r)"] Cons.prems(2) by simp
qed simp

lemma AES_encrypt_Cipher:
  assumes k: "keyed rk ctx" and st: "length st = 16"
  shows "AES_encrypt ctx (ntohl_words st) = ntohl_words (Cipher st rk)"
proof -
  have rk: "schedule rk" "cx_ks ctx = ntohl_words rk" "cx_rounds ctx = 10" using k by (simp_all add: keyed_def)
  let ?s0 = "AddRoundKey 0 st rk"
  have s0: "length ?s0 = 16" by (rule length_AddRoundKey [OF rk(1) _ st]) simp
  have upt: "[0..<10] = [0..<9] @ [9 :: nat]" "[1..<10] = map Suc [0..<9]"
    by (simp_all add: upt_rec numeral_eq_Suc)
  let ?s9 = "foldl (cipher_round rk) ?s0 (map Suc [0..<9])"
  have s9: "length ?s9 = 16" by (rule length_cipher_rounds [OF rk(1) s0]) auto
  have "foldl (\<lambda>dat r. add_key (cx_ks ctx) (r + 1) (map (encrypt_row (r < cx_rounds ctx - 1) dat) [0, 1, 2, 3]))
      (ntohl_words ?s0) [0..<9] = ntohl_words ?s9"
    by (rule encrypt_rounds [OF k s0]) simp
  moreover have "add_key (cx_ks ctx) 0 (ntohl_words st) = ntohl_words ?s0"
    using add_key_words [OF rk(1) _ st, of 0] rk(2) by simp
  moreover have "add_key (cx_ks ctx) (9 + 1) (map (encrypt_row (9 < cx_rounds ctx - 1) (ntohl_words ?s9)) [0, 1, 2, 3]) =
      ntohl_words (AddRoundKey 10 (ShiftRows (SubBytes ?s9)) rk)"
    using encrypt_rows(2) [OF s9] add_key_words [OF rk(1), of 10 "ShiftRows (SubBytes ?s9)"] s9 rk(2,3)
    by (simp del: list.map)
  ultimately show ?thesis
    unfolding AES_encrypt_def Cipher_def Let_def rk(3) Nr_def upt foldl_append by (simp only: rk(3) foldl.simps)
qed

section \<open>The converted key\<close>

lemma be32_and: "be32 a b c d AND be32 a' b' c' d' = be32 (a AND a') (b AND b') (c AND c') (d AND d')"
proof (rule bit_word_eqI)
  fix n
  assume "n < LENGTH(32)"
  then obtain k r where n: "n = 8 * k + r" "r < 8" "k = 0 \<or> k = 1 \<or> k = 2 \<or> k = 3" using word32_cases [of n] by auto
  show "bit (be32 a b c d AND be32 a' b' c' d') n \<longleftrightarrow> bit (be32 (a AND a') (b AND b') (c AND c') (d AND d')) n"
    using n(3,1,2) by (elim disjE) (auto simp: be32_def bit_simps dest: bit_imp_le_length)
qed

lemma push_be32:
  assumes "j < 8"
  shows "push_bit j (be32 a b c d) AND be32 (NOT (mask j)) (NOT (mask j)) (NOT (mask j)) (NOT (mask j)) =
    be32 (push_bit j a) (push_bit j b) (push_bit j c) (push_bit j d)"
proof (rule bit_word_eqI)
  fix n
  assume "n < LENGTH(32)"
  then obtain k r where n: "n = 8 * k + r" "r < 8" "k = 0 \<or> k = 1 \<or> k = 2 \<or> k = 3" using word32_cases [of n] by auto
  show "bit (push_bit j (be32 a b c d) AND be32 (NOT (mask j)) (NOT (mask j)) (NOT (mask j)) (NOT (mask j))) n \<longleftrightarrow>
      bit (be32 (push_bit j a) (push_bit j b) (push_bit j c) (push_bit j d)) n"
    using n(3,1,2) assms by (elim disjE) (auto simp: be32_def bit_simps dest: bit_imp_le_length)
qed

lemma and_0x80: "(a :: byte) AND 0x80 = (if bit a 7 then 0x80 else 0)"
proof (rule bit_word_eqI)
  fix n
  have "bit (0x80 :: byte) n \<longleftrightarrow> n = 7" if "n < 8"
    using bit_exp_iff [where ?'a = "8 word", of 7 n] that by auto
  then show "bit (a AND 0x80) n \<longleftrightarrow> bit (if bit a 7 then 0x80 else 0 :: byte) n" if "n < LENGTH(8)"
    using that by (auto simp: bit_and_iff)
qed

lemma mul2_be32: "mul2 (be32 a b c d) = be32 (xtime a) (xtime b) (xtime c) (xtime d)"
proof -
  let ?x = "be32 a b c d" and ?h = "\<lambda>a :: byte. if bit a 7 then 0x1b else 0 :: byte"
  have "?x AND 0x80808080 = be32 (a AND 0x80) (b AND 0x80) (c AND 0x80) (d AND 0x80)"
    by (subst be32_and [symmetric]) (simp add: be32_def)
  then have "((?x AND 0x80808080) - drop_bit 7 (?x AND 0x80808080)) AND 0x1b1b1b1b = be32 (?h a) (?h b) (?h c) (?h d)"
    by (simp add: and_0x80 be32_def)
  moreover have "be32 (NOT (mask 1)) (NOT (mask 1)) (NOT (mask 1)) (NOT (mask 1)) = 0xfefefefe" by code_simp
  then have "(?x + ?x) AND 0xfefefefe = be32 (push_bit 1 a) (push_bit 1 b) (push_bit 1 c) (push_bit 1 d)"
    using push_be32 [of 1 a b c d] by (simp add: mult_2_right [symmetric])
  ultimately show ?thesis
    by (simp add: mul2_def Let_def be32_xor xtime_cases)
qed

lemma rot1_be32: "rot1 (be32 a b c d) = be32 d a b c"
proof (rule bit_word_eqI)
  fix n
  assume "n < LENGTH(32)"
  then obtain k r where n: "n = 8 * k + r" "r < 8" "k = 0 \<or> k = 1 \<or> k = 2 \<or> k = 3" using word32_cases [of n] by auto
  show "bit (rot1 (be32 a b c d)) n \<longleftrightarrow> bit (be32 d a b c) n"
    using n(3,1,2) by (elim disjE) (auto simp: be32_def rot1_def bit_simps dest: bit_imp_le_length)
qed

lemma rot2_be32: "rot2 (be32 a b c d) = be32 c d a b"
proof (rule bit_word_eqI)
  fix n
  assume "n < LENGTH(32)"
  then obtain k r where n: "n = 8 * k + r" "r < 8" "k = 0 \<or> k = 1 \<or> k = 2 \<or> k = 3" using word32_cases [of n] by auto
  show "bit (rot2 (be32 a b c d)) n \<longleftrightarrow> bit (be32 c d a b) n"
    using n(3,1,2) by (elim disjE) (auto simp: be32_def rot2_def bit_simps dest: bit_imp_le_length)
qed

lemma rot3_be32: "rot3 (be32 a b c d) = be32 b c d a"
proof (rule bit_word_eqI)
  fix n
  assume "n < LENGTH(32)"
  then obtain k r where n: "n = 8 * k + r" "r < 8" "k = 0 \<or> k = 1 \<or> k = 2 \<or> k = 3" using word32_cases [of n] by auto
  show "bit (rot3 (be32 a b c d)) n \<longleftrightarrow> bit (be32 b c d a) n"
    using n(3,1,2) by (elim disjE) (auto simp: be32_def rot3_def bit_simps dest: bit_imp_le_length)
qed

lemma inv_mix_col_bytes: "[inv_mix_col (be32 a b c d)] = ntohl_words (InvMixColumns [a, b, c, d])"
  by (simp add: inv_mix_col_def mul2_be32 be32_xor rot1_be32 rot2_be32 rot3_be32 Let_def Multiply_consts xor_ac)

lemma map_inv_mix_col:
  "4 dvd length xs \<Longrightarrow> map inv_mix_col (ntohl_words xs) = ntohl_words (InvMixColumns xs)"
proof (induction xs rule: ntohl_words.induct)
  case (1 a b c d rest)
  have "4 dvd length rest" using "1.prems" by simp presburger
  moreover have "ntohl_words (InvMixColumns (a # b # c # d # rest)) =
      ntohl_words (InvMixColumns [a, b, c, d]) @ ntohl_words (InvMixColumns rest)" by simp
  ultimately show ?case using "1.IH" inv_mix_col_bytes [of a b c d] by (simp del: InvMixColumns.simps(1))
qed (auto dest: dvd_imp_le)

lemma Multiply_xor:
  "Multiply x 0x0e XOR Multiply y 0x0e = Multiply (x XOR y) 0x0e" "Multiply x 0x0b XOR Multiply y 0x0b = Multiply (x XOR y) 0x0b"
  "Multiply x 0x0d XOR Multiply y 0x0d = Multiply (x XOR y) 0x0d" "Multiply x 0x09 XOR Multiply y 0x09 = Multiply (x XOR y) 0x09"
  by (simp_all add: Multiply_consts xtime_xor xor_ac)

lemma xor_four: "(a XOR b XOR c XOR d) XOR (a' XOR b' XOR c' XOR d') =
    (a XOR a') XOR (b XOR b') XOR (c XOR c') XOR (d XOR d' :: byte)"
  by (simp add: xor_ac)

text \<open>Mixing columns is linear.\<close>

lemma InvMixColumns_xor:
  "length xs = length ys \<Longrightarrow> 4 dvd length xs \<Longrightarrow>
     map2 (\<lambda>x y. x XOR y) (InvMixColumns xs) (InvMixColumns ys) = InvMixColumns (map2 (\<lambda>x y. x XOR y) xs ys)"
proof (induction xs arbitrary: ys rule: InvMixColumns.induct)
  case (1 a b c d rest)
  have "4 dvd length rest" using "1.prems"(2) by simp presburger
  with 1 show ?case
    by (cases ys rule: InvMixColumns.cases) (simp_all only: InvMixColumns.simps list.map zip_Cons_Cons prod.case
        Multiply_xor xor_four list.size, simp_all)
qed (auto dest: dvd_imp_le)

definition convert_rk :: "byte list \<Rightarrow> byte list" where
  "convert_rk rk = take 16 rk @ InvMixColumns (take 144 (drop 16 rk)) @ drop 160 rk"

lemma convert_key_words:
  assumes "keyed rk ctx"
  shows "cx_ks (AES_convert_key ctx) = ntohl_words (convert_rk rk)" and "schedule (convert_rk rk)"
    and "cx_rounds (AES_convert_key ctx) = 10" and "cx_iv (AES_convert_key ctx) = cx_iv ctx"
proof -
  have rk: "length rk = 176" "cx_ks ctx = ntohl_words rk" "cx_rounds ctx = 10"
    using assms by (simp_all add: keyed_def schedule_def)
  show "schedule (convert_rk rk)" using rk by (simp add: schedule_def convert_rk_def)
  show "cx_ks (AES_convert_key ctx) = ntohl_words (convert_rk rk)"
    using rk by (simp add: AES_convert_key_def convert_rk_def Let_def take_ntohl_words drop_ntohl_words
        map_inv_mix_col ntohl_words_append)
qed (use assms in \<open>simp_all add: AES_convert_key_def keyed_def Let_def\<close>)

lemma take_InvMixColumns: "take (4 * n) (InvMixColumns xs) = InvMixColumns (take (4 * n) xs)"
proof (induction n arbitrary: xs)
  case (Suc n)
  have "4 * Suc n = Suc (Suc (Suc (Suc (4 * n))))" by simp
  then show ?case using Suc by (cases xs rule: InvMixColumns.cases) (simp_all del: mult_Suc_right)
qed simp

lemma drop_InvMixColumns: "drop (4 * n) (InvMixColumns xs) = InvMixColumns (drop (4 * n) xs)"
proof (induction n arbitrary: xs)
  case (Suc n)
  have "4 * Suc n = Suc (Suc (Suc (Suc (4 * n))))" by simp
  then show ?case using Suc by (cases xs rule: InvMixColumns.cases) (simp_all del: mult_Suc_right)
qed simp

lemma AddRoundKey_convert:
  assumes "schedule rk" and "1 \<le> r" "r \<le> 9" and "length st = 16"
  shows "AddRoundKey r (InvMixColumns st) (convert_rk rk) = InvMixColumns (AddRoundKey r st rk)"
proof -
  obtain q where q: "r = Suc q" "q \<le> 8" using assms(2,3) by (cases r) auto
  have len: "length rk = 176" using assms(1) by (simp add: schedule_def)
  let ?X = "take 144 (drop 16 rk)"
  have r16: "r * 4 * 4 = 16 + 16 * q" by (simp add: q(1))
  have key: "take 16 (drop (16 * q) ?X) = take 16 (drop (r * 4 * 4) rk)"
  proof (rule nth_equalityI)
    show "length (take 16 (drop (16 * q) ?X)) = length (take 16 (drop (r * 4 * 4) rk))"
      using q(2) len unfolding r16 by simp
    fix i
    assume "i < length (take 16 (drop (16 * q) ?X))"
    then show "take 16 (drop (16 * q) ?X) ! i = take 16 (drop (r * 4 * 4) rk) ! i"
      using len q(2) unfolding r16 by (simp add: add.assoc)
  qed
  have "take 16 (drop (r * 4 * 4) (convert_rk rk)) = take 16 (drop (16 * q) (InvMixColumns ?X))"
  proof (rule nth_equalityI)
    show "length (take 16 (drop (r * 4 * 4) (convert_rk rk))) = length (take 16 (drop (16 * q) (InvMixColumns ?X)))"
      using q(2) len unfolding r16 convert_rk_def by simp
    fix i
    assume "i < length (take 16 (drop (r * 4 * 4) (convert_rk rk)))"
    then show "take 16 (drop (r * 4 * 4) (convert_rk rk)) ! i = take 16 (drop (16 * q) (InvMixColumns ?X)) ! i"
      using len q(2) unfolding r16 convert_rk_def by (simp add: nth_append add.assoc)
  qed
  also have "\<dots> = InvMixColumns (take 16 (drop (16 * q) ?X))"
    using take_InvMixColumns [of 4 "drop (4 * (4 * q)) ?X"] drop_InvMixColumns [of "4 * q" ?X] by simp
  finally have "take 16 (drop (r * 4 * 4) (convert_rk rk)) = InvMixColumns (take 16 (drop (r * 4 * 4) rk))"
    unfolding key .
  moreover have "length (take 16 (drop (r * 4 * 4) rk)) = 16" using len q(2) unfolding r16 by simp
  ultimately show ?thesis
    unfolding AddRoundKey_def using assms(4) by (subst InvMixColumns_xor [symmetric]) (simp_all del: length_take)
qed

lemma AddRoundKey_convert_ends:
  assumes "schedule rk" and "r = 0 \<or> r = 10"
  shows "AddRoundKey r st (convert_rk rk) = AddRoundKey r st rk"
  using assms by (auto simp: AddRoundKey_def schedule_def convert_rk_def)

lemma decrypt_rounds:
  assumes k: "keyed rk ctx" and "length st = 16" and "\<forall>c \<in> set cs. c < 9"
  shows "foldl (\<lambda>dat c. add_key (cx_ks (AES_convert_key ctx)) (10 - 1 - c) (map (decrypt_row (c < 10 - 1) dat) [1, 2, 3, 4]))
      (ntohl_words st) cs = ntohl_words (foldl (inv_cipher_round rk) st (map (\<lambda>c. 9 - c) cs))"
  using assms(2,3)
proof (induction cs arbitrary: st)
  case (Cons c cs)
  have rk: "schedule rk" using k by (simp add: keyed_def)
  have c: "c < 9" "1 \<le> 9 - c" "9 - c \<le> 9" "9 - c \<le> 10" using Cons.prems(2) by auto
  let ?s = "InvSubBytes (InvShiftRows st)"
  have s: "length ?s = 16" "length (InvMixColumns ?s) = 16" using Cons.prems(1) by simp_all
  have "map (decrypt_row True (ntohl_words st)) [1, 2, 3, 4] = ntohl_words (InvMixColumns ?s)"
    by (rule decrypt_rows(1) [OF Cons.prems(1)])
  moreover have "add_key (ntohl_words (convert_rk rk)) (9 - c) (ntohl_words (InvMixColumns ?s)) =
      ntohl_words (inv_cipher_round rk st (9 - c))"
    unfolding add_key_words [OF convert_key_words(2) [OF k] c(4) s(2)] inv_cipher_round_def
    by (simp only: AddRoundKey_convert [OF rk c(2,3) s(1)])
  ultimately have "add_key (cx_ks (AES_convert_key ctx)) (10 - 1 - c) (map (decrypt_row (c < 10 - 1) (ntohl_words st)) [1, 2, 3, 4]) =
      ntohl_words (inv_cipher_round rk st (9 - c))"
    using c(1) by (simp add: convert_key_words(1) [OF k] del: list.map)
  moreover have "length (inv_cipher_round rk st (9 - c)) = 16"
    using rk c(4) s(1) by (simp add: inv_cipher_round_def length_AddRoundKey)
  ultimately show ?case using Cons.IH [of "inv_cipher_round rk st (9 - c)"] Cons.prems(2) by (simp del: list.map add: list.map(2)[of "\<lambda>c. 9 - c"])
qed simp

lemma length_inv_rounds:
  assumes "schedule rk" and "length st = 16" and "\<forall>r \<in> set rs. r \<le> 10"
  shows "length (foldl (inv_cipher_round rk) st rs) = 16"
  using assms(2,3)
  by (induction rs arbitrary: st) (simp_all add: inv_cipher_round_def length_AddRoundKey [OF assms(1)])

lemma AES_decrypt_InvCipher:
  assumes k: "keyed rk ctx" and st: "length st = 16"
  shows "AES_decrypt (AES_convert_key ctx) (ntohl_words st) = ntohl_words (InvCipher st rk)"
proof -
  let ?ctx = "AES_convert_key ctx"
  have rk: "schedule rk" using k by (simp add: keyed_def)
  note conv = convert_key_words [OF k]
  let ?s0 = "AddRoundKey 10 st rk"
  have s0: "length ?s0 = 16" by (rule length_AddRoundKey [OF rk _ st]) simp
  have upt: "[0..<10] = [0..<9] @ [9 :: nat]" "rev [1..<10] = map (\<lambda>c. 9 - c) [0..<9]"
    by (simp_all add: upt_rec numeral_eq_Suc)
  let ?s9 = "foldl (inv_cipher_round rk) ?s0 (map (\<lambda>c. 9 - c) [0..<9])"
  have s9: "length ?s9 = 16" by (rule length_inv_rounds [OF rk s0]) auto
  let ?t = "InvSubBytes (InvShiftRows ?s9)"
  have t: "length ?t = 16" using s9 by simp
  have "foldl (\<lambda>dat c. add_key (cx_ks ?ctx) (10 - 1 - c) (map (decrypt_row (c < 10 - 1) dat) [1, 2, 3, 4]))
      (ntohl_words ?s0) [0..<9] = ntohl_words ?s9"
    by (rule decrypt_rounds [OF k s0]) simp
  moreover have "add_key (cx_ks ?ctx) 10 (ntohl_words st) = ntohl_words ?s0"
    using add_key_words [OF conv(2) _ st, of 10] conv(1) AddRoundKey_convert_ends [OF rk, of 10 st] by simp
  moreover have "add_key (cx_ks ?ctx) (10 - 1 - 9) (map (decrypt_row ((9 :: nat) < 10 - 1) (ntohl_words ?s9)) [1, 2, 3, 4]) =
      ntohl_words (AddRoundKey 0 ?t rk)"
    using decrypt_rows(2) [OF s9] add_key_words [OF conv(2) _ t, of 0] conv(1) AddRoundKey_convert_ends [OF rk, of 0 ?t]
    by (simp del: list.map)
  ultimately show ?thesis
    unfolding AES_decrypt_def InvCipher_def Let_def conv(3) Nr_def upt foldl_append by (simp only: foldl.simps)
qed

section \<open>Chaining\<close>

lemma htonl_ntohl: "4 dvd length xs \<Longrightarrow> htonl_words (ntohl_words xs) = xs"
proof (induction xs rule: ntohl_words.induct)
  case (1 a b c d rest)
  have "4 dvd length rest" using "1.prems" by simp presburger
  moreover have "ucast (drop_bit 24 (be32 a b c d)) = a" "ucast (drop_bit 16 (be32 a b c d)) = b"
    "ucast (drop_bit 8 (be32 a b c d)) = c" "ucast (be32 a b c d) = d"
    by (rule bit_word_eqI; auto simp: be32_def bit_simps dest: bit_imp_le_length)+
  ultimately show ?case using "1.IH" by simp
qed (auto dest: dvd_imp_le)

lemma XorWithIv_words:
  "length blk = 16 \<Longrightarrow> length iv = 16 \<Longrightarrow>
     map2 (\<lambda>x y. x XOR y) (ntohl_words blk) (ntohl_words iv) = ntohl_words (XorWithIv blk iv)"
  by (simp add: map2_ntohl_words XorWithIv_def)

lemma cbc_encrypt_agrees:
  assumes k: "keyed rk ctx" and "length iv = 16" and "16 * n \<le> length msg"
  shows "\<exists>c iv'. crypto_cbc_encrypt ctx (ntohl_words iv) msg n = Some (c, ntohl_words iv') \<and>
    cbc_encrypt_blocks rk iv msg n = Some (c @ drop (16 * n) msg, iv') \<and> length iv' = 16"
  using assms(2,3)
proof (induction n arbitrary: iv msg)
  case (Suc n)
  let ?x = "XorWithIv (take 16 msg) iv"
  have x: "length ?x = 16" using Suc.prems by (simp add: XorWithIv_def)
  have c: "length (Cipher ?x rk) = 16" using x k by (simp add: keyed_def)
  have rest: "16 * n \<le> length (drop 16 msg)" using Suc.prems(2) by simp
  obtain c iv' where ih: "crypto_cbc_encrypt ctx (ntohl_words (Cipher ?x rk)) (drop 16 msg) n = Some (c, ntohl_words iv')"
    "cbc_encrypt_blocks rk (Cipher ?x rk) (drop 16 msg) n = Some (c @ drop (16 * n) (drop 16 msg), iv')" "length iv' = 16"
    using Suc.IH [OF c rest] by blast
  moreover have "slice 0 16 msg = Some (take 16 msg)" "length (take 16 msg) = 16" using Suc.prems(2) by (simp_all add: slice_def)
  ultimately show ?case
    using Suc.prems(1) x c
    by (simp add: Let_def XorWithIv_words AES_encrypt_Cipher [OF k] htonl_ntohl add.commute)
qed simp

lemma cbc_decrypt_agrees:
  assumes k: "keyed rk ctx" and "length iv = 16" and "16 * n \<le> length msg"
  shows "\<exists>c iv'. crypto_cbc_decrypt (AES_convert_key ctx) (ntohl_words iv) msg n = Some (c, ntohl_words iv') \<and>
    cbc_decrypt_blocks rk iv msg n = Some (c @ drop (16 * n) msg, iv') \<and> length iv' = 16"
  using assms(2,3)
proof (induction n arbitrary: iv msg)
  case (Suc n)
  have blk: "slice 0 16 msg = Some (take 16 msg)" "length (take 16 msg) = 16" using Suc.prems(2) by (simp_all add: slice_def)
  have d: "length (InvCipher (take 16 msg) rk) = 16"
    using k blk(2) by (simp add: InvCipher_def Let_def keyed_def length_AddRoundKey length_inv_rounds Nr_def)
  have rest: "16 * n \<le> length (drop 16 msg)" using Suc.prems(2) by simp
  obtain c iv' where ih: "crypto_cbc_decrypt (AES_convert_key ctx) (ntohl_words (take 16 msg)) (drop 16 msg) n = Some (c, ntohl_words iv')"
    "cbc_decrypt_blocks rk (take 16 msg) (drop 16 msg) n = Some (c @ drop (16 * n) (drop 16 msg), iv')" "length iv' = 16"
    using Suc.IH [OF blk(2) rest] by blast
  moreover have "length (XorWithIv (InvCipher (take 16 msg) rk) iv) = 16" using d Suc.prems(1) by (simp add: XorWithIv_def)
  ultimately show ?case
    using Suc.prems(1) blk d
    by (simp add: Let_def AES_decrypt_InvCipher [OF k] XorWithIv_words htonl_ntohl add.commute)
qed simp

lemma keyed_set_key: "length key = 16 \<Longrightarrow> keyed (KeyExpansion key) (AES_set_key key iv AES_MODE_128)"
  by (simp add: keyed_def set_key_schedule schedule_KeyExpansion)

text \<open>C30: The two AES implementations of the program agree: with the same 128-bit key and initialisation
  vector, the word version encrypts, and with its key converted decrypts, any number of whole
  blocks to the bytes of the byte version.\<close>

theorem AES_implementations_agree:
  assumes "length key = 16" and "length iv = 16" and "length msg = 16 * n"
  shows "map_option snd (AES_cbc_encrypt (AES_set_key key iv AES_MODE_128) msg (int (length msg))) =
      map_option snd (AES_CBC_encrypt_buffer (AES_init_ctx_iv key iv) msg (length msg)) \<and>
    map_option snd (AES_cbc_decrypt (AES_convert_key (AES_set_key key iv AES_MODE_128)) msg (int (length msg))) =
      map_option snd (AES_CBC_decrypt_buffer (AES_init_ctx_iv key iv) msg (length msg))"
proof -
  have n: "nat (int (length msg)) div 16 = n" "(length msg + 15) div 16 = n" "16 * n \<le> length msg"
    using assms(3) by simp_all
  let ?ctx = "AES_set_key key iv AES_MODE_128"
  have iv: "cx_iv ?ctx = iv" "cx_iv (AES_convert_key ?ctx) = iv"
    using assms(1,2) by (simp_all add: set_key_schedule AES_convert_key_def Let_def)
  show ?thesis
    using cbc_encrypt_agrees [OF keyed_set_key [OF assms(1)] assms(2) n(3), of iv]
      cbc_decrypt_agrees [OF keyed_set_key [OF assms(1)] assms(2) n(3), of iv] assms(2,3) n(1,2)
    by (auto simp: AES_cbc_encrypt_def AES_CBC_encrypt_buffer_def AES_cbc_decrypt_def AES_CBC_decrypt_buffer_def
        AES_init_ctx_iv_def iv simp del: nat_int)
qed

section \<open>Instances\<close>

theorem AES_implementations_agree_witness:
  "map_option snd (AES_cbc_encrypt (AES_set_key (replicate 16 3) (replicate 16 1) AES_MODE_128) (replicate 32 5) 32) =
      map_option snd (AES_CBC_encrypt_buffer (AES_init_ctx_iv (replicate 16 3) (replicate 16 1)) (replicate 32 5) 32) \<and>
    map_option snd (AES_cbc_decrypt (AES_convert_key (AES_set_key (replicate 16 3) (replicate 16 1) AES_MODE_128))
        (replicate 32 5) 32) =
      map_option snd (AES_CBC_decrypt_buffer (AES_init_ctx_iv (replicate 16 3) (replicate 16 1)) (replicate 32 5) 32)"
  using AES_implementations_agree [of "replicate 16 3" "replicate 16 1" "replicate 32 5" 2] by simp

end
