(* ===== verification/Aes_Ctr.thy ===== *)
theory Aes_Ctr
  imports Crypto_Aes
begin

text \<open>
  \<^verbatim>\<open>aes_ctr.c\<close>: CTR mode on top of \<^verbatim>\<open>crypto/aes.c\<close>.  A context keeps the key stream of the current
  block and how much of it is left, so data may be encrypted in pieces of any length.
\<close>

record AES_CTR_CTX =
  cc_aes :: AES_CTX
  cc_counter :: "byte list"
  cc_state :: "byte list"
  cc_available :: nat

text \<open>The loop of \<^verbatim>\<open>ctr128_inc\<close> runs from the last byte to the first: here the list is given last byte first.\<close>

fun ctr_carry :: "u32 \<Rightarrow> byte list \<Rightarrow> byte list" where
  "ctr_carry c [] = []"
| "ctr_carry c (b # bs) = (let c = c + ucast b in ucast c # ctr_carry (drop_bit 8 c) bs)"

definition ctr128_inc :: "byte list \<Rightarrow> byte list" where
  "ctr128_inc counter = rev (ctr_carry 1 (rev counter))"

definition AES_ctr_set_key :: "byte list \<Rightarrow> byte list \<Rightarrow> AES_MODE \<Rightarrow> AES_CTR_CTX" where
  "AES_ctr_set_key key nonce mode =
     \<lparr> cc_aes = AES_set_key key nonce mode, cc_counter = take 16 nonce, cc_state = replicate 16 0, cc_available = 0 \<rparr>"

text \<open>A new block of key stream, encrypted with a zero initialisation vector.\<close>

definition ctr_refill :: "AES_CTR_CTX \<Rightarrow> AES_CTR_CTX option" where
  "ctr_refill ctx =
     (if cc_available ctx = 0
      then do {
        (aes, state) \<leftarrow> AES_cbc_encrypt ((cc_aes ctx)\<lparr>cx_iv := replicate 16 0\<rparr>) (cc_counter ctx) 16;
        Some (ctx\<lparr>cc_aes := aes, cc_state := state, cc_available := 16, cc_counter := ctr128_inc (cc_counter ctx)\<rparr>)
      }
      else Some ctx)"

lemma ctr_refill_available: "ctr_refill ctx = Some ctx' \<Longrightarrow> 0 < cc_available ctx'"
  by (auto simp: ctr_refill_def bind_eq_Some_conv split: if_splits)

text \<open>The outer loop, over what is left of the message; \<^verbatim>\<open>i\<close> bytes of it use up the block.\<close>

function ctr_loop :: "AES_CTR_CTX \<Rightarrow> byte list \<Rightarrow> (AES_CTR_CTX \<times> byte list) option" where
  "ctr_loop ctx msg =
     (if msg = [] then Some (ctx, [])
      else (case ctr_refill ctx of
              None \<Rightarrow> None
            | Some ctx' \<Rightarrow> do {
                let i = min (cc_available ctx') (length msg);
                require (cc_available ctx' \<le> 16);
                ks \<leftarrow> slice (16 - cc_available ctx') i (cc_state ctx');
                (ctx'', out) \<leftarrow> ctr_loop (ctx'\<lparr>cc_available := cc_available ctx' - i\<rparr>) (drop i msg);
                Some (ctx'', map2 (\<lambda>x y. x XOR y) (take i msg) ks @ out)
              }))"
  by auto
termination
  by (relation "measure (\<lambda>(ctx, msg). length msg)") (auto dest: ctr_refill_available)

declare ctr_loop.simps [simp del]

definition AES_ctr_encrypt :: "AES_CTR_CTX \<Rightarrow> byte list \<Rightarrow> int \<Rightarrow> (AES_CTR_CTX \<times> byte list) option" where
  "AES_ctr_encrypt ctx msg len = do {
     data \<leftarrow> slice 0 (nat len) msg;
     ctr_loop ctx data
   }"

section \<open>The counter\<close>

lemma ctr_carry_zero: "ctr_carry 0 bs = bs"
proof (induction bs)
  case (Cons b bs)
  have "drop_bit 8 (ucast b :: u32) = 0" "ucast (ucast b :: u32) = b"
    by (rule bit_word_eqI; auto simp: bit_simps dest: bit_imp_le_length)+
  then show ?case using Cons by (simp add: Let_def)
qed simp

lemma ctr_carry_one: "ctr_carry 1 bs = inc_rev bs"
proof (induction bs)
  case (Cons b bs)
  show ?case
  proof (cases "b = 255")
    case True
    then show ?thesis using Cons by (simp add: Let_def drop_bit_eq_div)
  next
    case False
    have "unat b < 255"
      using False unat_byte_less [of b] by (simp add: word_unat_eq_iff)
    then have u: "unat (1 + ucast b :: u32) = unat b + 1" by (simp add: unat_word_ariths unat_ucast_byte)
    then have "unat (drop_bit 8 (1 + ucast b :: u32)) = 0" using \<open>unat b < 255\<close> by (simp add: drop_bit_eq_div unat_div)
    then have "drop_bit 8 (1 + ucast b :: u32) = 0" by (simp add: unat_eq_0)
    moreover have "ucast (1 + ucast b :: u32) = b + 1"
      using u \<open>unat b < 255\<close> by (simp add: word_unat_eq_iff unsigned_ucast_eq unat_word_ariths take_bit_eq_mod)
    ultimately show ?thesis using False by (simp add: Let_def ctr_carry_zero)
  qed
qed simp

lemma ctr128_inc_iv: "ctr128_inc counter = inc_iv counter"
  by (simp add: ctr128_inc_def inc_iv_def ctr_carry_one)

section \<open>The key stream\<close>

text \<open>A context set up with a key: what is left of its block, and the blocks to come.\<close>

definition ctr_ok :: "byte list \<Rightarrow> AES_CTR_CTX \<Rightarrow> bool" where
  "ctr_ok rk ctx \<longleftrightarrow> keyed rk (cc_aes ctx) \<and> length (cc_counter ctx) = 16 \<and> length (cc_state ctx) = 16 \<and>
     cc_available ctx \<le> 16"

definition ctr_stream :: "byte list \<Rightarrow> AES_CTR_CTX \<Rightarrow> nat \<Rightarrow> byte" where
  "ctr_stream rk ctx i = (
     let a = cc_available ctx
     in if i < a then cc_state ctx ! (16 - a + i)
        else keystream \<lparr> RoundKey = rk, Iv = cc_counter ctx \<rparr> (i - a))"

lemma XorWithIv_zero: "length blk = 16 \<Longrightarrow> XorWithIv blk (replicate 16 0) = blk"
  by (intro nth_equalityI) (auto simp: XorWithIv_def)

lemma ctr_refill_ok:
  assumes "ctr_ok rk ctx"
  shows "\<exists>ctx'. ctr_refill ctx = Some ctx' \<and> ctr_ok rk ctx' \<and> 0 < cc_available ctx' \<and>
    ctr_stream rk ctx' = ctr_stream rk ctx"
proof (cases "cc_available ctx = 0")
  case False
  then show ?thesis using assms by (simp add: ctr_refill_def)
next
  case True
  have k: "keyed rk (cc_aes ctx)" "schedule rk" "length (cc_counter ctx) = 16"
    using assms by (simp_all add: ctr_ok_def keyed_def)
  let ?zero = "replicate 16 0 :: byte list" and ?aes = "(cc_aes ctx)\<lparr>cx_iv := replicate 16 0\<rparr>"
  let ?blk = "Cipher (cc_counter ctx) rk"
  have "keyed rk ?aes" using k(1) by (simp add: keyed_def)
  then obtain c iv where c: "crypto_cbc_encrypt ?aes (ntohl_words ?zero) (cc_counter ctx) 1 = Some (c, ntohl_words iv)"
    "cbc_encrypt_blocks rk ?zero (cc_counter ctx) 1 = Some (c @ drop (16 * 1) (cc_counter ctx), iv)"
    using cbc_encrypt_agrees [of rk ?aes ?zero 1 "cc_counter ctx"] k(3) by auto
  then have "c = ?blk" using k(3) by (simp add: slice_def XorWithIv_zero Let_def)
  then have enc: "AES_cbc_encrypt ?aes (cc_counter ctx) 16 = Some (?aes\<lparr>cx_iv := htonl_words (ntohl_words iv)\<rparr>, ?blk)"
    using c(1) by (simp add: AES_cbc_encrypt_def)
  have len: "length ?blk = 16" using k by simp
  have "ctr_stream rk (ctx\<lparr>cc_aes := a, cc_state := ?blk, cc_available := 16, cc_counter := inc_iv (cc_counter ctx)\<rparr>) i =
      ctr_stream rk ctx i" for a i
    using keystream_block [of i "\<lparr> RoundKey = rk, Iv = cc_counter ctx \<rparr>"] True
      keystream_advance [of 1 "\<lparr> RoundKey = rk, Iv = cc_counter ctx \<rparr>" "i - 16"]
    by (auto simp: ctr_stream_def Let_def ctr_advance_def)
  then show ?thesis
    using True k len by (auto simp: ctr_refill_def enc ctr128_inc_iv ctr_ok_def keyed_def)
qed

text \<open>The loop encrypts with the stream and moves on in it.\<close>

lemma ctr_loop_spec:
  assumes "ctr_ok rk ctx"
  shows "\<exists>ctx'. ctr_loop ctx msg = Some (ctx', map (\<lambda>i. msg ! i XOR ctr_stream rk ctx i) [0..<length msg]) \<and>
    ctr_ok rk ctx' \<and> (\<forall>i. ctr_stream rk ctx' i = ctr_stream rk ctx (length msg + i))"
  using assms
proof (induction "length msg" arbitrary: ctx msg rule: less_induct)
  case less
  show ?case
  proof (cases "msg = []")
    case True
    then show ?thesis using less.prems by (simp add: ctr_loop.simps)
  next
    case False
    obtain c where c: "ctr_refill ctx = Some c" "ctr_ok rk c" "0 < cc_available c" "ctr_stream rk c = ctr_stream rk ctx"
      using ctr_refill_ok [OF less.prems] by blast
    let ?a = "cc_available c" and ?i = "min (cc_available c) (length msg)"
    let ?c = "c\<lparr>cc_available := ?a - ?i\<rparr>"
    have a: "?a \<le> 16" "length (cc_state c) = 16" using c(2) by (simp_all add: ctr_ok_def)
    have ok: "ctr_ok rk ?c" using c(2) by (auto simp: ctr_ok_def)
    have "length (drop ?i msg) < length msg" using False c(3) by simp
    from less.hyps [OF this ok] obtain c' where c': "ctr_loop ?c (drop ?i msg) =
        Some (c', map (\<lambda>j. drop ?i msg ! j XOR ctr_stream rk ?c j) [0..<length (drop ?i msg)])"
      "ctr_ok rk c'" "\<forall>j. ctr_stream rk c' j = ctr_stream rk ?c (length (drop ?i msg) + j)" by blast
    have str: "ctr_stream rk ?c j = ctr_stream rk ctx (?i + j)" for j
      unfolding c(4) [symmetric] using a(1)
      by (cases "?a \<le> length msg") (auto simp: ctr_stream_def Let_def min_def ac_simps)
    have sl: "slice (16 - ?a) ?i (cc_state c) = Some (take ?i (drop (16 - ?a) (cc_state c)))"
      using a by (simp add: slice_def)
    have front: "map2 (\<lambda>x y. x XOR y) (take ?i msg) (take ?i (drop (16 - ?a) (cc_state c))) =
        map (\<lambda>j. msg ! j XOR ctr_stream rk ctx j) [0..<?i]"
      unfolding c(4) [symmetric] using a by (intro nth_equalityI) (auto simp: ctr_stream_def Let_def)
    have "map (\<lambda>j. drop ?i msg ! j XOR ctr_stream rk ?c j) [0..<length (drop ?i msg)] =
        map (\<lambda>j. msg ! j XOR ctr_stream rk ctx j) [?i..<length msg]"
      unfolding str by (intro nth_equalityI) auto
    moreover have "[0..<length msg] = [0..<?i] @ [?i..<length msg]"
      using upt_add_eq_append [of 0 ?i "length msg - ?i"] by simp
    ultimately have "ctr_loop ctx msg = Some (c', map (\<lambda>j. msg ! j XOR ctr_stream rk ctx j) [0..<length msg])"
      using False a c' sl front c(1) by (simp add: ctr_loop.simps [of ctx] Let_def)
    then show ?thesis
      using c'(2,3) by (auto simp: str)
  qed
qed

lemma AES_ctr_encrypt_all: "AES_ctr_encrypt ctx m (int (length m)) = ctr_loop ctx m"
  by (simp add: AES_ctr_encrypt_def slice_def)

lemma AES_ctr_encrypt_64: "length m = 64 \<Longrightarrow> AES_ctr_encrypt ctx m 64 = ctr_loop ctx m"
  using AES_ctr_encrypt_all [of ctx m] by simp

interpretation aes_ctr: continuous_cipher ctr_loop "ctr_stream rk" "ctr_ok rk" for rk
  by unfold_locales (rule ctr_loop_spec)

lemma ctr_ok_set_key:
  assumes "length key = 16" and "length nonce = 16"
  shows "ctr_ok (KeyExpansion key) (AES_ctr_set_key key nonce AES_MODE_128)"
    and "ctr_stream (KeyExpansion key) (AES_ctr_set_key key nonce AES_MODE_128) = keystream (AES_init_ctx_iv key nonce)"
  using assms keyed_set_key [OF assms(1), of nonce]
  by (auto simp: ctr_ok_def AES_ctr_set_key_def ctr_stream_def AES_init_ctx_iv_def Let_def fun_eq_iff)



end
