(* ===== verification/Http_Request.thy ===== *)
theory Http_Request
  imports Prelude
begin

text \<open>
  \<^verbatim>\<open>http_request.c\<close>: the request as the callbacks of the HTTP parser build it, from pieces of its
  URL, headers and body.  The parser is the bundled third-party \<^verbatim>\<open>http_parser.c\<close>; it is an argument
  here, a function from the bytes received to the callbacks it makes.  Strings are the bytes up
  to the terminating zero; \<^verbatim>\<open>alloc\<close> says whether an allocation of so many bytes succeeds.
\<close>

section \<open>State\<close>

text \<open>
  \<^verbatim>\<open>headers\<close> holds fields at even and values at odd indices; \<^verbatim>\<open>headers_size\<close> is its length.
  \<^verbatim>\<open>None\<close> is the null pointer.
\<close>

record 'p http_request =
  parser :: 'p
  req_method :: "byte list option"
  req_url :: "byte list option"
  headers :: "byte list option list"
  headers_index :: nat
  req_data :: "byte list option"
  req_datalen :: int
  req_complete :: bool

text \<open>The callbacks; the last one carries the name of the method the parser has read.\<close>

datatype http_event =
    On_Url "byte list"
  | On_Header_Field "byte list"
  | On_Header_Value "byte list"
  | On_Body "byte list"
  | On_Message_Complete "byte list"

text \<open>
  The parser: its initial state, one call of \<^verbatim>\<open>http_parser_execute\<close> on a buffer and a length
  (\<^verbatim>\<open>None\<close> where it reads beyond the buffer), and its error number.
\<close>

record 'p http_parser_ops =
  p_init :: 'p
  p_execute :: "'p \<Rightarrow> byte list \<Rightarrow> u64 \<Rightarrow> (http_event list \<times> u64 \<times> 'p) option"
  p_errno :: "'p \<Rightarrow> nat"

text \<open>It is defined on every part of a buffer.\<close>

definition parser_laws :: "'p http_parser_ops \<Rightarrow> bool" where
  "parser_laws ops \<longleftrightarrow> (\<forall>p buf len. unat len \<le> length buf \<longrightarrow> p_execute ops p buf len \<noteq> None)"

section \<open>Callbacks\<close>

text \<open>\<^verbatim>\<open>strncat\<close> stops at a zero byte.\<close>

definition strncat :: "byte list \<Rightarrow> byte list \<Rightarrow> byte list" where
  "strncat dst src = dst @ takeWhile (\<lambda>b. b \<noteq> 0) src"

definition on_url :: "(nat \<Rightarrow> bool) \<Rightarrow> byte list \<Rightarrow> 'p http_request \<Rightarrow> 'p http_request option" where
  "on_url alloc at r = do {
     let old = (case req_url r of None \<Rightarrow> [] | Some u \<Rightarrow> u);
     require (alloc (length old + length at + 1));
     Some (r\<lparr>req_url := Some (strncat old at)\<rparr>)
   }"

text \<open>Both header callbacks end by appending to the string at the current index.\<close>

definition append_header :: "(nat \<Rightarrow> bool) \<Rightarrow> byte list \<Rightarrow> 'p http_request \<Rightarrow> 'p http_request option" where
  "append_header alloc at r = do {
     cur \<leftarrow> rd (headers r) (headers_index r);
     let old = (case cur of None \<Rightarrow> [] | Some s \<Rightarrow> s);
     require (alloc (length old + length at + 1));
     hs \<leftarrow> wr (headers r) (headers_index r) (Some (strncat old at));
     Some (r\<lparr>headers := hs\<rparr>)
   }"

definition on_header_field :: "(nat \<Rightarrow> bool) \<Rightarrow> byte list \<Rightarrow> 'p http_request \<Rightarrow> 'p http_request option" where
  "on_header_field alloc at r = do {
     let r = (if headers_index r mod 2 = 1 then r\<lparr>headers_index := headers_index r + 1\<rparr> else r);
     r \<leftarrow> (if headers_index r = length (headers r)
           then do {
             require (alloc ((length (headers r) + 2) * 8));
             Some (r\<lparr>headers := headers r @ [None, None]\<rparr>)
           }
           else Some r);
     append_header alloc at r
   }"

definition on_header_value :: "(nat \<Rightarrow> bool) \<Rightarrow> byte list \<Rightarrow> 'p http_request \<Rightarrow> 'p http_request option" where
  "on_header_value alloc at r = (
     let r = (if headers_index r mod 2 = 0 then r\<lparr>headers_index := headers_index r + 1\<rparr> else r)
     in append_header alloc at r)"

definition on_body :: "(nat \<Rightarrow> bool) \<Rightarrow> byte list \<Rightarrow> 'p http_request \<Rightarrow> 'p http_request option" where
  "on_body alloc at r = do {
     let old = (case req_data r of None \<Rightarrow> [] | Some d \<Rightarrow> d);
     require (alloc (nat (req_datalen r) + length at));
     require (req_datalen r + int (length at) < 2 ^ 31);
     Some (r\<lparr>req_data := Some (old @ at), req_datalen := req_datalen r + int (length at)\<rparr>)
   }"

definition on_message_complete :: "byte list \<Rightarrow> 'p http_request \<Rightarrow> 'p http_request" where
  "on_message_complete m r = r\<lparr>req_method := Some m, req_complete := True\<rparr>"

fun http_callback :: "(nat \<Rightarrow> bool) \<Rightarrow> http_event \<Rightarrow> 'p http_request \<Rightarrow> 'p http_request option" where
  "http_callback alloc (On_Url at) r = on_url alloc at r"
| "http_callback alloc (On_Header_Field at) r = on_header_field alloc at r"
| "http_callback alloc (On_Header_Value at) r = on_header_value alloc at r"
| "http_callback alloc (On_Body at) r = on_body alloc at r"
| "http_callback alloc (On_Message_Complete m) r = Some (on_message_complete m r)"

fun http_callbacks :: "(nat \<Rightarrow> bool) \<Rightarrow> http_event list \<Rightarrow> 'p http_request \<Rightarrow> 'p http_request option" where
  "http_callbacks alloc [] r = Some r"
| "http_callbacks alloc (e # es) r = do { r \<leftarrow> http_callback alloc e r; http_callbacks alloc es r }"

lemma http_callbacks_append:
  "http_callbacks alloc (es @ fs) r = Option.bind (http_callbacks alloc es r) (http_callbacks alloc fs)"
  by (induction es arbitrary: r) (simp_all split: option.split add: bind_split)

section \<open>Operations\<close>

definition http_request_init :: "'p http_parser_ops \<Rightarrow> bool \<Rightarrow> 'p http_request option" where
  "http_request_init ops allocated =
     (if allocated
      then Some \<lparr> parser = p_init ops, req_method = None, req_url = None, headers = [], headers_index = 0,
                  req_data = None, req_datalen = 0, req_complete = False \<rparr>
      else None)"

text \<open>The length is converted to \<^verbatim>\<open>size_t\<close>: a negative one becomes huge.\<close>

definition http_request_add_data ::
  "'p http_parser_ops \<Rightarrow> (nat \<Rightarrow> bool) \<Rightarrow> 'p http_request \<Rightarrow> byte list \<Rightarrow> int \<Rightarrow> (u64 \<times> 'p http_request) option" where
  "http_request_add_data ops alloc r buf datalen = do {
     (evs, ret, p) \<leftarrow> p_execute ops (parser r) buf (word_of_int datalen);
     r \<leftarrow> http_callbacks alloc evs r;
     Some (ret, r\<lparr>parser := p\<rparr>)
   }"

definition http_request_is_complete :: "'p http_request \<Rightarrow> bool" where
  "http_request_is_complete r = req_complete r"

definition http_request_has_error :: "'p http_parser_ops \<Rightarrow> 'p http_request \<Rightarrow> bool" where
  "http_request_has_error ops r = (p_errno ops (parser r) \<noteq> 0)"

definition http_request_get_method :: "'p http_request \<Rightarrow> byte list option" where
  "http_request_get_method r = req_method r"

definition http_request_get_url :: "'p http_request \<Rightarrow> byte list option" where
  "http_request_get_url r = req_url r"

text \<open>The loop of \<^verbatim>\<open>http_request_get_header\<close>; \<^verbatim>\<open>strcmp\<close> of a null pointer is undefined.\<close>

fun find_header :: "byte list option list \<Rightarrow> byte list \<Rightarrow> byte list option option" where
  "find_header [] name = Some None"
| "find_header [f] name = (case f of None \<Rightarrow> None | Some f \<Rightarrow> if f = name then None else Some None)"
| "find_header (f # v # hs) name =
     (case f of None \<Rightarrow> None | Some f \<Rightarrow> if f = name then Some v else find_header hs name)"

definition http_request_get_header :: "'p http_request \<Rightarrow> byte list \<Rightarrow> byte list option option" where
  "http_request_get_header r name = find_header (headers r) name"

definition http_request_get_data :: "'p http_request \<Rightarrow> byte list option \<times> int" where
  "http_request_get_data r = (req_data r, req_datalen r)"

section \<open>However a message arrives\<close>

text \<open>
  The callbacks for a message whose parts arrive in pieces: every header has a piece of its
  field and a piece of its value at least, which may be empty.
\<close>

definition header_events :: "byte list list \<times> byte list list \<Rightarrow> http_event list" where
  "header_events h = map On_Header_Field (fst h) @ map On_Header_Value (snd h)"

definition message_events ::
  "byte list list \<Rightarrow> (byte list list \<times> byte list list) list \<Rightarrow> byte list list \<Rightarrow> byte list \<Rightarrow> http_event list" where
  "message_events us hs bs m =
     map On_Url us @ concat (map header_events hs) @ map On_Body bs @ [On_Message_Complete m]"

definition no_zero :: "byte list list \<Rightarrow> bool" where
  "no_zero xs \<longleftrightarrow> (\<forall>x \<in> set xs. 0 \<notin> set x)"

lemma strncat_no_zero: "0 \<notin> set at \<Longrightarrow> strncat dst at = dst @ at"
  by (simp add: strncat_def) (metis takeWhile_eq_all_conv)

definition flat_headers :: "(byte list list \<times> byte list list) list \<Rightarrow> byte list option list" where
  "flat_headers hs = concat (map (\<lambda>(fs, vs). [Some (concat fs), Some (concat vs)]) hs)"

lemma url_pieces:
  "\<forall>n. alloc n \<Longrightarrow> no_zero us \<Longrightarrow> http_callbacks alloc (map On_Url us) r =
     Some (if us = [] then r
           else r\<lparr>req_url := Some ((case req_url r of None \<Rightarrow> [] | Some u \<Rightarrow> u) @ concat us)\<rparr>)"
  by (induction us arbitrary: r) (simp_all add: on_url_def no_zero_def strncat_no_zero Let_def)

lemma body_pieces:
  "\<forall>n. alloc n \<Longrightarrow> req_datalen r + int (length (concat bs)) < 2 ^ 31 \<Longrightarrow>
     http_callbacks alloc (map On_Body bs) r =
     Some (if bs = [] then r
           else r\<lparr>req_data := Some ((case req_data r of None \<Rightarrow> [] | Some d \<Rightarrow> d) @ concat bs),
                  req_datalen := req_datalen r + int (length (concat bs))\<rparr>)"
  by (induction bs arbitrary: r) (simp_all add: on_body_def Let_def)

text \<open>The pieces after the first land in the same string.\<close>

lemma field_pieces:
  "\<forall>n. alloc n \<Longrightarrow> no_zero fs \<Longrightarrow> even (length hs) \<Longrightarrow> headers r = hs @ [Some f, None] \<Longrightarrow>
     headers_index r = length hs \<Longrightarrow>
     http_callbacks alloc (map On_Header_Field fs) r = Some (r\<lparr>headers := hs @ [Some (f @ concat fs), None]\<rparr>)"
proof (induction fs arbitrary: r f)
  case (Cons x fs)
  then have "on_header_field alloc x r = Some (r\<lparr>headers := hs @ [Some (f @ x), None]\<rparr>)"
    by (simp add: on_header_field_def append_header_def Let_def no_zero_def strncat_no_zero list_update_append
        nth_append even_iff_mod_2_eq_zero)
  then show ?case using Cons.IH [OF Cons.prems(1)] Cons.prems(2-) by (simp add: no_zero_def)
qed simp

lemma value_pieces:
  "\<forall>n. alloc n \<Longrightarrow> no_zero vs \<Longrightarrow> even (length hs) \<Longrightarrow> headers r = hs @ [f, Some v] \<Longrightarrow>
     headers_index r = length hs + 1 \<Longrightarrow>
     http_callbacks alloc (map On_Header_Value vs) r = Some (r\<lparr>headers := hs @ [f, Some (v @ concat vs)]\<rparr>)"
proof (induction vs arbitrary: r v)
  case (Cons x vs)
  then have "on_header_value alloc x r = Some (r\<lparr>headers := hs @ [f, Some (v @ x)]\<rparr>)"
    by (simp add: on_header_value_def append_header_def Let_def no_zero_def strncat_no_zero list_update_append
        nth_append even_iff_mod_2_eq_zero mod_Suc)
  then show ?case using Cons.IH [OF Cons.prems(1)] Cons.prems(2-) by (simp add: no_zero_def)
qed simp

text \<open>Between two headers the index is at the last value.\<close>

definition between_headers :: "'p http_request \<Rightarrow> bool" where
  "between_headers r \<longleftrightarrow> even (length (headers r)) \<and>
     headers_index r = (if headers r = [] then 0 else length (headers r) - 1)"

lemma first_field:
  assumes "\<forall>n. alloc n" and "0 \<notin> set f" and "between_headers r"
  shows "on_header_field alloc f r =
    Some (r\<lparr>headers := headers r @ [Some f, None], headers_index := length (headers r)\<rparr>)"
proof (cases "headers r = []")
  case True
  then show ?thesis
    using assms by (simp add: on_header_field_def append_header_def between_headers_def strncat_no_zero Let_def)
next
  case False
  then obtain k where k: "length (headers r) = Suc k" "odd k"
    using assms(3) by (cases "length (headers r)") (auto simp: between_headers_def)
  then show ?thesis
    using assms False
    by (simp add: on_header_field_def append_header_def between_headers_def strncat_no_zero Let_def odd_iff_mod_2_eq_one
        nth_append list_update_append)
qed

lemma first_value:
  assumes "\<forall>n. alloc n" and "0 \<notin> set v" and "even (length hs)" "headers r = hs @ [f, None]" "headers_index r = length hs"
  shows "on_header_value alloc v r = Some (r\<lparr>headers := hs @ [f, Some v], headers_index := length hs + 1\<rparr>)"
  using assms
  by (simp add: on_header_value_def append_header_def strncat_no_zero Let_def even_iff_mod_2_eq_zero
      nth_append list_update_append)

lemma header_arrives:
  assumes alloc: "\<forall>n. alloc n" and r: "between_headers r" and h: "fs \<noteq> []" "vs \<noteq> []" "no_zero fs" "no_zero vs"
  shows "http_callbacks alloc (header_events (fs, vs)) r =
    Some (r\<lparr>headers := headers r @ [Some (concat fs), Some (concat vs)], headers_index := length (headers r) + 1\<rparr>)"
proof -
  obtain f fs' where fs: "fs = f # fs'" using h(1) by (cases fs) auto
  obtain v vs' where vs: "vs = v # vs'" using h(2) by (cases vs) auto
  have nz: "0 \<notin> set f" "no_zero fs'" "0 \<notin> set v" "no_zero vs'"
    using h(3,4) by (simp_all add: fs vs no_zero_def)
  have len: "even (length (headers r))" using r by (simp add: between_headers_def)
  let ?r1 = "r\<lparr>headers := headers r @ [Some f, None], headers_index := length (headers r)\<rparr>"
  let ?r2 = "r\<lparr>headers := headers r @ [Some (concat fs), None], headers_index := length (headers r)\<rparr>"
  let ?r3 = "r\<lparr>headers := headers r @ [Some (concat fs), Some v], headers_index := length (headers r) + 1\<rparr>"
  have "http_callbacks alloc (map On_Header_Field fs') ?r1 = Some ?r2"
    using field_pieces [OF alloc nz(2) len, of ?r1 f] by (simp add: fs)
  moreover have "on_header_value alloc v ?r2 = Some ?r3"
    using first_value [OF alloc nz(3) len, of ?r2] by simp
  moreover have "http_callbacks alloc (map On_Header_Value vs') ?r3 =
      Some (?r3\<lparr>headers := headers r @ [Some (concat fs), Some (concat vs)]\<rparr>)"
    using value_pieces [OF alloc nz(4) len, of ?r3] by (simp add: vs)
  ultimately show ?thesis
    using first_field [OF alloc nz(1) r]
    by (simp add: header_events_def http_callbacks_append fs vs)
qed

lemma headers_arrive:
  assumes alloc: "\<forall>n. alloc n" and "\<forall>(fs, vs) \<in> set hs. fs \<noteq> [] \<and> vs \<noteq> [] \<and> no_zero fs \<and> no_zero vs"
    and "between_headers r"
  shows "\<exists>k. http_callbacks alloc (concat (map header_events hs)) r =
    Some (r\<lparr>headers := headers r @ flat_headers hs, headers_index := k\<rparr>)"
  using assms(2,3)
proof (induction hs arbitrary: r)
  case Nil
  then show ?case by (intro exI [of _ "headers_index r"]) (simp add: flat_headers_def)
next
  case (Cons h hs)
  obtain fs vs where h: "h = (fs, vs)" by (cases h)
  let ?r = "r\<lparr>headers := headers r @ [Some (concat fs), Some (concat vs)], headers_index := length (headers r) + 1\<rparr>"
  have "http_callbacks alloc (header_events h) r = Some ?r"
    unfolding h by (rule header_arrives [OF alloc Cons.prems(2)]) (use Cons.prems(1) in \<open>auto simp: h\<close>)
  moreover have "between_headers ?r" using Cons.prems(2) by (simp add: between_headers_def)
  ultimately show ?case
    using Cons.IH [of ?r] Cons.prems(1) by (auto simp: http_callbacks_append flat_headers_def h)
qed

lemma find_flat_headers:
  "find_header (flat_headers hs) name = Some (map_of (map (\<lambda>(fs, vs). (concat fs, concat vs)) hs) name)"
  by (induction hs) (auto simp: flat_headers_def)

text \<open>C33: However the parser cuts a message into pieces, the request holds the whole URL, every header
  under its name (the first of a name wins), the whole body and the method, and is complete.\<close>

theorem http_request_assembles:
  assumes "\<forall>n. alloc n" and "no_zero us" and "\<forall>(fs, vs) \<in> set hs. fs \<noteq> [] \<and> vs \<noteq> [] \<and> no_zero fs \<and> no_zero vs"
    and "int (length (concat bs)) < 2 ^ 31" and "http_request_init ops allocated = Some r0"
  shows "\<exists>r. http_callbacks alloc (message_events us hs bs m) r0 = Some r \<and>
    http_request_is_complete r \<and> http_request_get_method r = Some m \<and>
    http_request_get_url r = (if us = [] then None else Some (concat us)) \<and>
    (\<forall>name. http_request_get_header r name =
       Some (map_of (map (\<lambda>(fs, vs). (concat fs, concat vs)) hs) name)) \<and>
    http_request_get_data r = (if bs = [] then None else Some (concat bs), int (length (concat bs)))"
proof -
  have r0: "headers r0 = []" "headers_index r0 = 0" "req_url r0 = None" "req_data r0 = None" "req_datalen r0 = 0"
    using assms(5) by (auto simp: http_request_init_def split: if_splits)
  let ?r1 = "if us = [] then r0 else r0\<lparr>req_url := Some (concat us)\<rparr>"
  have 1: "http_callbacks alloc (map On_Url us) r0 = Some ?r1"
    using url_pieces [OF assms(1,2), of r0] r0 by simp
  have "between_headers ?r1" using r0 by (simp add: between_headers_def)
  then obtain k where 2: "http_callbacks alloc (concat (map header_events hs)) ?r1 =
      Some (?r1\<lparr>headers := headers ?r1 @ flat_headers hs, headers_index := k\<rparr>)"
    using headers_arrive [OF assms(1,3), of ?r1] by blast
  show ?thesis
    using assms(4) r0
    by (simp add: message_events_def http_callbacks_append 1 2 body_pieces [OF assms(1)] on_message_complete_def
        http_request_is_complete_def http_request_get_method_def http_request_get_url_def http_request_get_header_def
        http_request_get_data_def find_flat_headers)
qed

section \<open>A concrete request\<close>

definition sample_parser :: "unit http_parser_ops" where
  "sample_parser = \<lparr> p_init = (), p_execute = (\<lambda>p buf len. Some ([On_Body (take (unat len) buf)], len, p)),
     p_errno = (\<lambda>p. 0) \<rparr>"

definition sample_request :: "unit http_request" where
  "sample_request = \<lparr> parser = (), req_method = None, req_url = None, headers = [], headers_index = 0,
     req_data = None, req_datalen = 0, req_complete = False \<rparr>"

lemma sample_request_init: "http_request_init sample_parser True = Some sample_request"
  by (simp add: http_request_init_def sample_parser_def sample_request_def)

theorem http_request_assembles_witness:
  "\<exists>r. http_callbacks (\<lambda>n. True)
        (message_events [bytes ''/in'', bytes ''fo''] [([bytes ''CS'', bytes ''eq''], [bytes ''7''])] [[1], [2, 3]] (bytes ''GET''))
        sample_request = Some r \<and>
    http_request_is_complete r \<and> http_request_get_method r = Some (bytes ''GET'') \<and>
    http_request_get_url r = (if [bytes ''/in'', bytes ''fo''] = [] then None else Some (concat [bytes ''/in'', bytes ''fo''])) \<and>
    (\<forall>name. http_request_get_header r name =
       Some (map_of (map (\<lambda>(fs, vs). (concat fs, concat vs)) [([bytes ''CS'', bytes ''eq''], [bytes ''7''])]) name)) \<and>
    http_request_get_data r =
      (if [[1], [2, 3 :: byte]] = [] then None else Some (concat [[1], [2, 3]]), int (length (concat [[1], [2, 3 :: byte]])))"
  by (rule http_request_assembles [OF _ _ _ _ sample_request_init]) (simp_all add: no_zero_def bytes_def)

end
