(* ===== verification/Http_Response.thy ===== *)
theory Http_Response
  imports Prelude
begin

text \<open>
  \<^verbatim>\<open>http_response.c\<close>: the text of a response is collected in a block that is reallocated as it
  grows.  A C string is the list of its bytes up to the terminating zero.  The allocator is an
  argument: what \<^verbatim>\<open>calloc\<close> of the structure, \<^verbatim>\<open>malloc\<close> and \<^verbatim>\<open>realloc\<close> return, with a block as the
  list of its bytes.
\<close>

record heap_env =
  h_calloc :: bool
  h_malloc :: "nat \<Rightarrow> byte list option"
  h_realloc :: "byte list \<Rightarrow> nat \<Rightarrow> byte list option"

text \<open>What the C standard promises of them, when they succeed.\<close>

definition heap_laws :: "heap_env \<Rightarrow> bool" where
  "heap_laws heap \<longleftrightarrow>
     (\<forall>n b. h_malloc heap n = Some b \<longrightarrow> length b = n) \<and>
     (\<forall>b n b'. h_realloc heap b n = Some b' \<longrightarrow> length b' = n \<and>
        take (min n (length b)) b' = take (min n (length b)) b)"

definition heap_succeeds :: "heap_env \<Rightarrow> bool" where
  "heap_succeeds heap \<longleftrightarrow> h_calloc heap \<and> (\<forall>n. h_malloc heap n \<noteq> None) \<and> (\<forall>b n. h_realloc heap b n \<noteq> None)"

lemma heap_lawsD:
  assumes "heap_laws heap"
  shows "h_malloc heap n = Some b \<Longrightarrow> length b = n"
    and "h_realloc heap b n = Some b' \<Longrightarrow> length b' = n"
    and "h_realloc heap b n = Some b' \<Longrightarrow> k \<le> n \<Longrightarrow> k \<le> length b \<Longrightarrow> take k b' = take k b"
proof -
  show "h_malloc heap n = Some b \<Longrightarrow> length b = n" "h_realloc heap b n = Some b' \<Longrightarrow> length b' = n"
    using assms unfolding heap_laws_def by blast+
  assume "h_realloc heap b n = Some b'" and k: "k \<le> n" "k \<le> length b"
  then have "take (min n (length b)) b' = take (min n (length b)) b"
    using assms unfolding heap_laws_def by blast
  then have "take k (take (min n (length b)) b') = take k (take (min n (length b)) b)" by (rule arg_cong)
  with k show "take k b' = take k b" by (simp add: min_def split: if_splits)
qed

section \<open>State\<close>

record http_response =
  complete :: bool
  disconnect :: bool
  resp_data :: "byte list"
  data_size :: int
  data_length :: int

text \<open>What the client reads: the first \<^verbatim>\<open>data_length\<close> bytes.\<close>

definition resp_text :: "http_response \<Rightarrow> byte list" where
  "resp_text r = take (nat (data_length r)) (resp_data r)"

section \<open>Operations\<close>

text \<open>The doubling loop; a size that never gets there, or overflows an \<^verbatim>\<open>int\<close>, is \<^verbatim>\<open>None\<close>.\<close>

partial_function (option) grow_size :: "int \<Rightarrow> int \<Rightarrow> int option" where
  "grow_size needed newdatasize =
     (if needed > newdatasize
      then Option.bind (require (newdatasize * 2 < 2 ^ 31)) (\<lambda>_. grow_size needed (newdatasize * 2))
      else Some newdatasize)"

definition http_response_add_data :: "heap_env \<Rightarrow> http_response \<Rightarrow> byte list \<Rightarrow> int \<Rightarrow> http_response option" where
  "http_response_add_data heap r data datalen = do {
     require (datalen > 0);
     require (data_size r + datalen < 2 ^ 31);
     newdatasize \<leftarrow> grow_size (data_size r + datalen) (data_size r);
     block \<leftarrow> (if newdatasize \<noteq> data_size r then h_realloc heap (resp_data r) (nat newdatasize)
               else Some (resp_data r));
     src \<leftarrow> slice 0 (nat datalen) data;
     block \<leftarrow> memcpy block (nat (data_length r)) src;
     require (data_length r + datalen < 2 ^ 31);
     Some (r\<lparr>resp_data := block, data_length := data_length r + datalen\<rparr>)
   }"

text \<open>Adding a whole string: \<^verbatim>\<open>add_data(response, s, strlen(s))\<close>.\<close>

definition add_string :: "heap_env \<Rightarrow> byte list \<Rightarrow> http_response \<Rightarrow> http_response option" where
  "add_string heap s r = http_response_add_data heap r s (int (length s))"

definition http_response_reset ::
  "heap_env \<Rightarrow> http_response \<Rightarrow> byte list \<Rightarrow> int \<Rightarrow> byte list \<Rightarrow> http_response option" where
  "http_response_reset heap r protocol code message = do {
     require (100 \<le> code \<and> code < 1000);
     let codestr = take 3 (decimal (nat code));
     let r = r\<lparr>complete := False, disconnect := False, data_length := 0\<rparr>;
     r \<leftarrow> add_string heap protocol r;
     r \<leftarrow> add_string heap (bytes '' '') r;
     r \<leftarrow> add_string heap codestr r;
     r \<leftarrow> add_string heap (bytes '' '') r;
     r \<leftarrow> add_string heap message r;
     add_string heap [13, 10] r
   }"

text \<open>The inner option is the pointer returned, \<^verbatim>\<open>None\<close> for \<^verbatim>\<open>NULL\<close>.\<close>

definition http_response_init ::
  "heap_env \<Rightarrow> byte list \<Rightarrow> int \<Rightarrow> byte list \<Rightarrow> http_response option option" where
  "http_response_init heap protocol code message = do {
     require (100 \<le> code \<and> code < 1000);
     if \<not> h_calloc heap then Some None
     else (case h_malloc heap 1024 of
             None \<Rightarrow> Some None
           | Some block \<Rightarrow> do {
               r \<leftarrow> http_response_reset heap
                 \<lparr> complete = False, disconnect = False, resp_data = block, data_size = 1024, data_length = 0 \<rparr>
                 protocol code message;
               Some (Some r)
             })
   }"

definition http_response_add_header ::
  "heap_env \<Rightarrow> byte list \<Rightarrow> byte list \<Rightarrow> http_response \<Rightarrow> http_response option" where
  "http_response_add_header heap name value r = do {
     r \<leftarrow> add_string heap name r;
     r \<leftarrow> add_string heap (bytes '': '') r;
     r \<leftarrow> add_string heap value r;
     add_string heap [13, 10] r
   }"

definition http_response_finish ::
  "heap_env \<Rightarrow> http_response \<Rightarrow> byte list option \<Rightarrow> int \<Rightarrow> http_response option" where
  "http_response_finish heap r data datalen = do {
     require (datalen = 0 \<or> (data \<noteq> None \<and> datalen > 0));
     r \<leftarrow> (if data \<noteq> None \<and> datalen > 0
           then do {
             let hdrvalue = take 14 (decimal (nat datalen));
             r \<leftarrow> add_string heap (bytes ''Content-Length'') r;
             r \<leftarrow> add_string heap (bytes '': '') r;
             r \<leftarrow> add_string heap hdrvalue r;
             r \<leftarrow> add_string heap [13, 10, 13, 10] r;
             http_response_add_data heap r (the data) datalen
           }
           else add_string heap [13, 10] r);
     Some (r\<lparr>complete := True\<rparr>)
   }"

definition http_response_set_disconnect :: "http_response \<Rightarrow> int \<Rightarrow> http_response" where
  "http_response_set_disconnect r d = r\<lparr>disconnect := (d \<noteq> 0)\<rparr>"

definition http_response_get_disconnect :: "http_response \<Rightarrow> bool" where
  "http_response_get_disconnect r = disconnect r"

text \<open>The block and the length the caller may read of it.\<close>

definition http_response_get_data :: "http_response \<Rightarrow> (byte list \<times> int) option" where
  "http_response_get_data r = do {
     require (complete r);
     Some (resp_data r, data_length r)
   }"

section \<open>Growing\<close>

text \<open>The size that is asked for is a power of two times the size there was, and large enough.\<close>

lemma grow_size_result:
  assumes "0 < n" and "needed \<le> 2 ^ k * n" and "2 ^ k * n < 2 ^ 31"
  shows "\<exists>m. grow_size needed n = Some m \<and> needed \<le> m \<and> n \<le> m \<and> m < 2 ^ 31"
  using assms
proof (induction k arbitrary: n)
  case 0
  then show ?case by (subst grow_size.simps) simp
next
  case (Suc k)
  show ?case
  proof (cases "needed > n")
    case True
    have le: "n * 2 \<le> 2 ^ Suc k * n"
      using Suc.prems(1) by simp
    then have "n * 2 < 2 ^ 31" using Suc.prems(3) by linarith
    moreover have "\<exists>m. grow_size needed (n * 2) = Some m \<and> needed \<le> m \<and> n * 2 \<le> m \<and> m < 2 ^ 31"
      using Suc.prems by (intro Suc.IH) (simp_all add: ac_simps)
    ultimately show ?thesis
      using True Suc.prems(1) by (subst grow_size.simps) (auto simp del: power_Suc)
  next
    case False
    have "1 * n \<le> 2 ^ Suc k * n" using Suc.prems(1) by (intro mult_right_mono one_le_power) simp_all
    then have "n < 2 ^ 31" using Suc.prems(3) by linarith
    then show ?thesis using False by (subst grow_size.simps) (simp del: power_Suc)
  qed
qed

lemma grow_size_ok:
  assumes "0 < n" and "n \<le> 2 ^ 29"
  shows "\<exists>m. grow_size (1024 + n) 1024 = Some m \<and> 1024 + n \<le> m \<and> m < 2 ^ 31"
  using grow_size_result [of 1024 "1024 + n" 20] assms by auto

lemma grow_size_short: "0 < n \<Longrightarrow> n \<le> 1024 \<Longrightarrow> grow_size (1024 + n) 1024 = Some 2048"
  by (subst grow_size.simps, subst grow_size.simps) simp

section \<open>The text of a response\<close>

definition resp_ok :: "http_response \<Rightarrow> bool" where
  "resp_ok r \<longleftrightarrow> data_size r = 1024 \<and> 0 \<le> data_length r \<and> data_length r \<le> int (length (resp_data r))"

lemma length_resp_text: "resp_ok r \<Longrightarrow> int (length (resp_text r)) = data_length r"
  by (auto simp: resp_ok_def resp_text_def min_def)

text \<open>
  Data of any length can be added as long as the text before it has at most 1024 bytes: the
  block is reallocated to the smallest doubling of 1024 that holds 1024 bytes and the data.
\<close>

lemma add_data_text:
  assumes heap: "heap_laws heap" "heap_succeeds heap" and ok: "resp_ok r"
    and room: "data_length r \<le> 1024" and data: "data \<noteq> []" "int (length data) \<le> 2 ^ 29"
  shows "\<exists>r'. add_string heap data r = Some r' \<and> resp_ok r' \<and> resp_text r' = resp_text r @ data \<and>
    complete r' = complete r \<and> disconnect r' = disconnect r"
proof -
  let ?n = "int (length data)"
  have pos: "0 < ?n" using data(1) by simp
  obtain m where m: "grow_size (1024 + ?n) 1024 = Some m" "1024 + ?n \<le> m" "m < 2 ^ 31"
    using grow_size_ok [OF pos data(2)] by blast
  obtain b where b: "h_realloc heap (resp_data r) (nat m) = Some b"
    using heap(2) unfolding heap_succeeds_def by fast
  have size: "data_size r = 1024" and len: "0 \<le> data_length r" "data_length r \<le> int (length (resp_data r))"
    using ok by (auto simp: resp_ok_def)
  have lb: "length b = nat m" by (rule heap_lawsD(2) [OF heap(1) b])
  have keep: "take (nat (data_length r)) b = take (nat (data_length r)) (resp_data r)"
    by (rule heap_lawsD(3) [OF heap(1) b]) (use len room m(2) pos in linarith)+
  have fits: "nat (data_length r) + length data \<le> length b" using lb len room m(2) by linarith
  have bound: "data_length r + ?n < 2 ^ 31" using room m(2,3) by linarith
  show ?thesis
    unfolding add_string_def http_response_add_data_def size m(1)
    using pos m(2,3) b fits bound keep len
    by (auto simp: slice_def memcpy_def resp_ok_def resp_text_def nat_add_distrib size)
qed

text \<open>The other case: the block shrinks, or stays too small, and the copy runs over its end.\<close>

lemma add_string_overruns:
  assumes "heap_laws heap" and "data_size r = 1024" and "length data \<le> 1024"
    and "2048 < data_length r + int (length data)" and "0 \<le> data_length r"
  shows "add_string heap data r = None"
proof (cases "data = []")
  case True
  then show ?thesis by (simp add: add_string_def http_response_add_data_def)
next
  case False
  then have grow: "grow_size (1024 + int (length data)) 1024 = Some 2048"
    using assms(3) by (intro grow_size_short) simp_all
  have "memcpy b (nat (data_length r)) data = None" if "h_realloc heap (resp_data r) 2048 = Some b" for b
    using heap_lawsD(2) [OF assms(1) that] assms(4,5) by (simp add: memcpy_def)
  then show ?thesis
    unfolding add_string_def http_response_add_data_def assms(2) grow
    using False assms(3) by (cases "h_realloc heap (resp_data r) 2048") (simp_all add: slice_def)
qed

lemma add_string_adds:
  "add_string heap s r = Some r' \<Longrightarrow>
     s \<noteq> [] \<and> data_size r' = data_size r \<and> data_length r' = data_length r + int (length s)"
  by (auto simp: add_string_def http_response_add_data_def bind_eq_Some_conv require_Some_iff)

section \<open>Whole responses\<close>

fun add_headers :: "heap_env \<Rightarrow> (byte list \<times> byte list) list \<Rightarrow> http_response \<Rightarrow> http_response option" where
  "add_headers heap [] r = Some r"
| "add_headers heap ((n, v) # hs) r = do { r \<leftarrow> http_response_add_header heap n v r; add_headers heap hs r }"

text \<open>The operations add strings one after the other.\<close>

fun add_strings :: "heap_env \<Rightarrow> byte list list \<Rightarrow> http_response \<Rightarrow> http_response option" where
  "add_strings heap [] r = Some r"
| "add_strings heap (s # ss) r = do { r \<leftarrow> add_string heap s r; add_strings heap ss r }"

lemma add_strings_eqs:
  "add_strings heap [] = Some"
  "add_strings heap (s # ss) = (\<lambda>r. Option.bind (add_string heap s r) (add_strings heap ss))"
  by (simp_all add: fun_eq_iff)

lemma add_strings_append:
  "add_strings heap (ss @ ts) r = Option.bind (add_strings heap ss r) (add_strings heap ts)"
  by (induction ss arbitrary: r) (simp_all split: option.split add: bind_split)

lemma add_strings_text:
  assumes "heap_laws heap" "heap_succeeds heap" "resp_ok r" and "\<forall>s \<in> set ss. s \<noteq> [] \<and> int (length s) \<le> 2 ^ 29"
    and "length (resp_text r) + length (concat (butlast ss)) \<le> 1024"
  shows "\<exists>r'. add_strings heap ss r = Some r' \<and> resp_ok r' \<and> resp_text r' = resp_text r @ concat ss \<and>
    complete r' = complete r \<and> disconnect r' = disconnect r"
  using assms(3-)
proof (induction ss arbitrary: r)
  case (Cons s ss)
  have "data_length r \<le> 1024" using Cons.prems(1,3) length_resp_text [OF Cons.prems(1)] by linarith
  then obtain r1 where r1: "add_string heap s r = Some r1" "resp_ok r1" "resp_text r1 = resp_text r @ s"
    "complete r1 = complete r" "disconnect r1 = disconnect r"
    using add_data_text [OF assms(1,2) Cons.prems(1), of s] Cons.prems(2) by auto
  then show ?case
    using Cons.IH [of r1] Cons.prems(2,3) by (cases "ss = []") auto
qed simp

definition header_strings :: "byte list \<times> byte list \<Rightarrow> byte list list" where
  "header_strings h = [fst h, bytes '': '', snd h, [13, 10]]"

lemma add_headers_strings: "add_headers heap hs r = add_strings heap (concat (map header_strings hs)) r"
proof (induction hs arbitrary: r)
  case (Cons h hs)
  then show ?case
    by (cases h) (simp add: header_strings_def add_strings_append http_response_add_header_def cong: bind_option_cong)
qed simp

definition status_strings :: "byte list \<Rightarrow> int \<Rightarrow> byte list \<Rightarrow> byte list list" where
  "status_strings protocol code message =
     [protocol, bytes '' '', decimal (nat code), bytes '' '', message, [13, 10]]"

lemma take_decimal: "0 \<le> n \<Longrightarrow> n < 10 ^ k \<Longrightarrow> 0 < k \<Longrightarrow> k \<le> l \<Longrightarrow> take l (decimal (nat n)) = decimal (nat n)"
  using length_decimal [of "nat n" k] by (simp add: nat_less_iff)

lemma reset_strings:
  assumes "100 \<le> code" "code < 1000"
  shows "http_response_reset heap r protocol code message =
    add_strings heap (status_strings protocol code message)
      (r\<lparr>complete := False, disconnect := False, data_length := 0\<rparr>)"
  using assms take_decimal [of code 3 3] by (simp add: http_response_reset_def status_strings_def Let_def add_strings_eqs)

text \<open>What the parts of a response spell.\<close>

definition status_line :: "byte list \<Rightarrow> int \<Rightarrow> byte list \<Rightarrow> byte list" where
  "status_line protocol code message = concat (status_strings protocol code message)"

definition header_lines :: "(byte list \<times> byte list) list \<Rightarrow> byte list" where
  "header_lines hs = concat (map (\<lambda>(n, v). n @ bytes '': '' @ v @ [13, 10]) hs)"

definition body_text :: "byte list \<Rightarrow> byte list" where
  "body_text body =
     (if body = [] then [13, 10]
      else header_lines [(bytes ''Content-Length'', decimal (length body))] @ [13, 10] @ body)"

lemma concat_header_strings: "concat (concat (map header_strings hs)) = header_lines hs"
  by (induction hs) (auto simp: header_lines_def header_strings_def)

definition finish_strings :: "byte list \<Rightarrow> byte list list" where
  "finish_strings body =
     (if body = [] then [[13, 10]]
      else [bytes ''Content-Length'', bytes '': '', decimal (length body), [13, 10, 13, 10], body])"

lemma concat_finish_strings: "concat (finish_strings body) = body_text body"
  by (simp add: finish_strings_def body_text_def header_lines_def)

lemma finish_as_strings:
  assumes "int (length body) < 2 ^ 31"
  shows "http_response_finish heap r (if body = [] then None else Some body) (int (length body)) =
    map_option (\<lambda>r. r\<lparr>complete := True\<rparr>) (add_strings heap (finish_strings body) r)"
proof -
  have "length body < 10 ^ 10" using assms by simp
  then have "take 14 (decimal (length body)) = decimal (length body)"
    using length_decimal [of "length body" 10] by simp
  then show ?thesis
    by (simp add: http_response_finish_def finish_strings_def Let_def add_strings_eqs add_string_def [of _ body]
        map_conv_bind_option comp_def)
qed

lemma length_status_strings: "s \<in> set (butlast (status_strings protocol code message)) \<Longrightarrow>
    length s \<le> length (status_line protocol code message)"
  by (auto simp: status_strings_def status_line_def)

definition answer_strings ::
  "byte list \<Rightarrow> int \<Rightarrow> byte list \<Rightarrow> (byte list \<times> byte list) list \<Rightarrow> byte list \<Rightarrow> byte list list" where
  "answer_strings protocol code message hs body =
     status_strings protocol code message @ concat (map header_strings hs) @ finish_strings body"

lemma concat_answer_strings:
  "concat (answer_strings protocol code message hs body) =
     status_line protocol code message @ header_lines hs @ body_text body"
  by (simp add: answer_strings_def status_line_def concat_header_strings concat_finish_strings)

text \<open>A string of the answer before the body is no longer than what comes before the body.\<close>

lemma length_in_concat: "s \<in> set ss \<Longrightarrow> length s \<le> length (concat ss)"
  by (induction ss) auto

lemma length_before_body:
  assumes "int (length body) < 2 ^ 31"
  shows "length (concat (butlast (answer_strings protocol code message hs body))) \<le>
    length (status_line protocol code message) + length (header_lines hs) + 30"
proof -
  have "length body < 10 ^ 10" using assms by simp
  then have "length (decimal (length body)) \<le> 10" by (intro length_decimal) simp_all
  then show ?thesis
    by (simp add: answer_strings_def butlast_append finish_strings_def concat_header_strings status_line_def)
qed

lemma answer_strings_short:
  assumes "\<forall>(n, v) \<in> set hs. n \<noteq> [] \<and> v \<noteq> []" "protocol \<noteq> []" "message \<noteq> []"
    and "length (status_line protocol code message) + length (header_lines hs) + 30 \<le> 1024" "int (length body) \<le> 2 ^ 29"
    and s: "s \<in> set (answer_strings protocol code message hs body)"
  shows "s \<noteq> [] \<and> int (length s) \<le> 2 ^ 29"
proof
  let ?ss = "answer_strings protocol code message hs body"
  show "s \<noteq> []"
    using assms by (auto simp: answer_strings_def status_strings_def header_strings_def finish_strings_def bytes_def split: if_splits)
  have last: "last ?ss = (if body = [] then [13, 10] else body)" "?ss \<noteq> []"
    by (simp_all add: answer_strings_def finish_strings_def)
  have "s \<in> set (butlast ?ss) \<or> s = last ?ss"
    using s last(2) by (metis append_butlast_last_id Un_iff empty_iff empty_set set_ConsD set_append)
  then show "int (length s) \<le> 2 ^ 29"
  proof
    assume "s \<in> set (butlast ?ss)"
    then have "length s \<le> length (concat (butlast ?ss))" by (rule length_in_concat)
    also have "\<dots> \<le> 1024" using length_before_body [of body protocol code message hs] assms(4,5) by simp
    finally show ?thesis by simp
  next
    assume "s = last ?ss"
    then show ?thesis using last(1) assms(5) by simp
  qed
qed

text \<open>C35: A response with its status line and headers in the first 1024 bytes is what HTTP says: the
  status line, the headers in the order they were added, and the body with its length, or an
  empty line; every block stays in bounds, whatever the length of the body.\<close>

theorem http_response_message:
  assumes "heap_laws heap" and "heap_succeeds heap" and "100 \<le> code" "code < 1000"
    and "protocol \<noteq> []" "message \<noteq> []" and "\<forall>(n, v) \<in> set hs. n \<noteq> [] \<and> v \<noteq> []"
    and "length (status_line protocol code message) + length (header_lines hs) + 30 \<le> 1024"
    and "int (length body) \<le> 2 ^ 29"
  shows "\<exists>r block n. do {
      p \<leftarrow> http_response_init heap protocol code message;
      r \<leftarrow> p;
      r \<leftarrow> add_headers heap hs r;
      http_response_finish heap r (if body = [] then None else Some body) (int (length body)) } = Some r \<and>
    http_response_get_data r = Some (block, int n) \<and> \<not> http_response_get_disconnect r \<and>
    take n block = status_line protocol code message @ header_lines hs @ body_text body"
proof -
  obtain block where block: "h_malloc heap 1024 = Some block" "h_calloc heap"
    using assms(2) unfolding heap_succeeds_def by fast
  let ?ss = "answer_strings protocol code message hs body"
  let ?r0 = "\<lparr> complete = False, disconnect = False, resp_data = block, data_size = 1024, data_length = 0 \<rparr>"
  have "resp_ok ?r0" by (simp add: resp_ok_def)
  moreover have "length (resp_text ?r0) + length (concat (butlast ?ss)) \<le> 1024"
    using length_before_body [of body protocol code message hs] assms(8,9) by (simp add: resp_text_def)
  ultimately obtain r1 where r1: "add_strings heap ?ss ?r0 = Some r1" "resp_ok r1"
    "resp_text r1 = concat ?ss" "\<not> disconnect r1"
    using add_strings_text [OF assms(1,2), of ?r0 ?ss] answer_strings_short [OF assms(7,5,6,8,9)]
    by (auto simp: resp_text_def)
  have "http_response_init heap protocol code message =
      map_option Some (add_strings heap (status_strings protocol code message) ?r0)"
    using assms(3,4) block by (simp add: http_response_init_def reset_strings map_conv_bind_option comp_def)
  moreover have "int (length body) < 2 ^ 31" using assms(9) by simp
  ultimately have "do { p \<leftarrow> http_response_init heap protocol code message; r \<leftarrow> p; r \<leftarrow> add_headers heap hs r;
      http_response_finish heap r (if body = [] then None else Some body) (int (length body)) } =
    map_option (\<lambda>r. r\<lparr>complete := True\<rparr>) (add_strings heap ?ss ?r0)"
    by (simp add: add_headers_strings finish_as_strings answer_strings_def add_strings_append bind_map_option
        map_conv_bind_option comp_def)
  with r1 show ?thesis
    by (intro exI [of _ "r1\<lparr>complete := True\<rparr>"] exI [of _ "resp_data r1"] exI [of _ "nat (data_length r1)"])
      (auto simp: http_response_get_data_def http_response_get_disconnect_def resp_text_def resp_ok_def concat_answer_strings)
qed

text \<open>C36: A header value of 2047 bytes or more makes the next string run over the end of the block (the
  recorded size never changes, so the block shrinks back to 2048 bytes), and an empty one fails
  the assertion on the length; the sequence number of a request, which any sender chooses, is
  such a value.\<close>

theorem http_response_header_overruns:
  assumes "heap_laws heap" and "data_size r = 1024" and "0 \<le> data_length r"
    and "value = [] \<or> 2047 \<le> length value"
  shows "http_response_add_header heap name value r = None"
proof (rule ccontr)
  assume "http_response_add_header heap name value r \<noteq> None"
  then obtain r1 r2 r3 r4 where r: "add_string heap name r = Some r1" "add_string heap (bytes '': '') r1 = Some r2"
    "add_string heap value r2 = Some r3" "add_string heap [13, 10] r3 = Some r4"
    unfolding http_response_add_header_def by (auto simp: bind_eq_Some_conv)
  have "value \<noteq> []" "data_size r3 = 1024" "2047 \<le> data_length r3"
    using r(1-3) [THEN add_string_adds] assms(2-4) by auto
  then show False
    using add_string_overruns [OF assms(1), of r3 "[13, 10]"] r(4) by simp
qed

section \<open>A concrete allocator\<close>

definition sample_heap :: heap_env where
  "sample_heap = \<lparr> h_calloc = True, h_malloc = (\<lambda>n. Some (replicate n 0)),
     h_realloc = (\<lambda>b n. Some (take n b @ replicate (n - length b) 0)) \<rparr>"

lemma sample_heap_laws: "heap_laws sample_heap" "heap_succeeds sample_heap"
  by (auto simp: heap_laws_def heap_succeeds_def sample_heap_def min_def)

lemma decimal_200: "decimal 200 = bytes ''200''"
  by (simp add: decimal.simps bytes_def)

theorem http_response_message_witness:
  "\<exists>r block n. do {
      p \<leftarrow> http_response_init sample_heap (bytes ''RTSP/1.0'') 200 (bytes ''OK'');
      r \<leftarrow> p;
      r \<leftarrow> add_headers sample_heap [(bytes ''CSeq'', bytes ''7'')] r;
      http_response_finish sample_heap r (if [1, 2 :: byte] = [] then None else Some [1, 2]) (int (length [1, 2 :: byte])) } = Some r \<and>
    http_response_get_data r = Some (block, int n) \<and> \<not> http_response_get_disconnect r \<and>
    take n block = status_line (bytes ''RTSP/1.0'') 200 (bytes ''OK'') @
      header_lines [(bytes ''CSeq'', bytes ''7'')] @ body_text [1, 2]"
  by (rule http_response_message [OF sample_heap_laws])
    (simp_all add: bytes_def status_line_def status_strings_def header_lines_def decimal_200 [unfolded bytes_def])

theorem http_response_header_overruns_witness:
  "http_response_add_header sample_heap (bytes ''CSeq'') (replicate 2047 49)
     \<lparr> complete = False, disconnect = False, resp_data = replicate 2048 0, data_size = 1024, data_length = 17 \<rparr> = None"
  by (rule http_response_header_overruns [OF sample_heap_laws(1)]) simp_all

end
