(* ===== verification/Pairing.thy ===== *)
theory Pairing
  imports Aes_Ctr
begin

text \<open>
  \<^verbatim>\<open>pairing.c\<close>: the identity of the receiver and the handshake that authenticates a sender.  The
  bundled third-party primitives (ed25519, curve25519, SHA-512) are the fields of
  \<^verbatim>\<open>pairing_crypto\<close>; the random seed is an argument, \<^verbatim>\<open>None\<close> when it cannot be made.  The AES of
  the handshake is the one modelled in \<^verbatim>\<open>Crypto_Aes\<close> and \<^verbatim>\<open>Aes_Ctr\<close>.
\<close>

section \<open>State\<close>

record pairing_crypto =
  pc_keypair :: "byte list \<Rightarrow> byte list \<times> byte list"
  pc_sign :: "byte list \<Rightarrow> byte list \<Rightarrow> byte list \<Rightarrow> byte list"
  pc_verify :: "byte list \<Rightarrow> byte list \<Rightarrow> byte list \<Rightarrow> bool"
  pc_curve :: "byte list \<Rightarrow> byte list \<Rightarrow> byte list"
  pc_base :: "byte list"
  pc_sha512 :: "byte list \<Rightarrow> byte list"

text \<open>
  What the primitives promise: the sizes of what they return, signatures made with a key pair
  verify, and the two ends of a Diffie-Hellman exchange agree.
\<close>

definition crypto_laws :: "pairing_crypto \<Rightarrow> bool" where
  "crypto_laws c \<longleftrightarrow>
     (\<forall>seed. length (fst (pc_keypair c seed)) = 32 \<and> length (snd (pc_keypair c seed)) = 64) \<and>
     (\<forall>m p s. length (pc_sign c m p s) = 64) \<and> (\<forall>k p. length (pc_curve c k p) = 32) \<and>
     (\<forall>m. length (pc_sha512 c m) = 64) \<and>
     (\<forall>seed m. pc_verify c (pc_sign c m (fst (pc_keypair c seed)) (snd (pc_keypair c seed))) m (fst (pc_keypair c seed))) \<and>
     (\<forall>a b. pc_curve c a (pc_curve c b (pc_base c)) = pc_curve c b (pc_curve c a (pc_base c)))"

record pairing =
  ed_private :: "byte list"
  ed_public :: "byte list"

datatype pairing_status = STATUS_INITIAL | STATUS_SETUP | STATUS_HANDSHAKE | STATUS_FINISHED

record pairing_session =
  status :: pairing_status
  s_ed_private :: "byte list"
  s_ed_ours :: "byte list"
  s_ed_theirs :: "byte list"
  s_ecdh_ours :: "byte list"
  s_ecdh_theirs :: "byte list"
  s_ecdh_secret :: "byte list"

definition SALT_KEY :: "byte list" where "SALT_KEY = bytes ''Pair-Verify-AES-Key''"
definition SALT_IV :: "byte list" where "SALT_IV = bytes ''Pair-Verify-AES-IV''"

section \<open>Operations\<close>

text \<open>\<^verbatim>\<open>None\<close> is the error return -1, which writes no key.\<close>

definition derive_key_internal :: "pairing_crypto \<Rightarrow> pairing_session \<Rightarrow> byte list \<Rightarrow> nat \<Rightarrow> byte list option" where
  "derive_key_internal c session salt keylen =
     (if keylen > 64 then None else Some (take keylen (pc_sha512 c (salt @ s_ecdh_secret session))))"

definition pairing_init_seed :: "pairing_crypto \<Rightarrow> bool \<Rightarrow> byte list \<Rightarrow> pairing option" where
  "pairing_init_seed c allocated seed =
     (if allocated
      then Some (let (public, private) = pc_keypair c seed in \<lparr> ed_private = private, ed_public = public \<rparr>)
      else None)"

definition pairing_init_generate :: "pairing_crypto \<Rightarrow> bool \<Rightarrow> byte list option \<Rightarrow> pairing option" where
  "pairing_init_generate c allocated seed =
     (case seed of None \<Rightarrow> None | Some seed \<Rightarrow> pairing_init_seed c allocated seed)"

definition pairing_get_public_key :: "pairing \<Rightarrow> byte list" where
  "pairing_get_public_key p = ed_public p"

definition pairing_get_ecdh_secret_key :: "pairing_session \<Rightarrow> byte list" where
  "pairing_get_ecdh_secret_key session = s_ecdh_secret session"

definition pairing_session_init :: "bool \<Rightarrow> pairing option \<Rightarrow> pairing_session option" where
  "pairing_session_init allocated p =
     (case p of
        None \<Rightarrow> None
      | Some p \<Rightarrow>
          if allocated
          then Some \<lparr> status = STATUS_INITIAL, s_ed_private = ed_private p, s_ed_ours = ed_public p,
                      s_ed_theirs = replicate 32 0, s_ecdh_ours = replicate 32 0, s_ecdh_theirs = replicate 32 0,
                      s_ecdh_secret = replicate 32 0 \<rparr>
          else None)"

definition pairing_session_set_setup_status :: "pairing_session \<Rightarrow> pairing_session" where
  "pairing_session_set_setup_status session = session\<lparr>status := STATUS_SETUP\<rparr>"

definition pairing_session_check_handshake_status :: "pairing_session \<Rightarrow> int" where
  "pairing_session_check_handshake_status session = (if status session \<noteq> STATUS_SETUP then -1 else 0)"

definition pairing_session_handshake ::
  "pairing_crypto \<Rightarrow> byte list option \<Rightarrow> pairing_session \<Rightarrow> byte list \<Rightarrow> byte list \<Rightarrow> (int \<times> pairing_session) option" where
  "pairing_session_handshake c seed session ecdh_key ed_key =
     (if status session = STATUS_FINISHED then Some (-1, session)
      else case seed of
             None \<Rightarrow> Some (-2, session)
           | Some ecdh_priv \<Rightarrow> do {
               ecdh_theirs \<leftarrow> slice 0 32 ecdh_key;
               ed_theirs \<leftarrow> slice 0 32 ed_key;
               Some (0, session\<lparr>s_ecdh_theirs := ecdh_theirs, s_ed_theirs := ed_theirs,
                 s_ecdh_ours := pc_curve c ecdh_priv (pc_base c),
                 s_ecdh_secret := pc_curve c ecdh_priv ecdh_theirs, status := STATUS_HANDSHAKE\<rparr>)
             })"

text \<open>The outer option of the value is the error return -1.\<close>

definition pairing_session_get_public_key :: "pairing_session \<Rightarrow> byte list option" where
  "pairing_session_get_public_key session =
     (if status session \<noteq> STATUS_HANDSHAKE then None else Some (s_ecdh_ours session))"

text \<open>The cipher of a session: \<^verbatim>\<open>sizeof(key)\<close> is used for both lengths.\<close>

definition session_cipher :: "pairing_crypto \<Rightarrow> pairing_session \<Rightarrow> AES_CTR_CTX option" where
  "session_cipher c session = do {
     key \<leftarrow> derive_key_internal c session SALT_KEY 16;
     iv \<leftarrow> derive_key_internal c session SALT_IV 16;
     Some (AES_ctr_set_key key iv AES_MODE_128)
   }"

definition pairing_session_get_signature :: "pairing_crypto \<Rightarrow> pairing_session \<Rightarrow> byte list option option" where
  "pairing_session_get_signature c session =
     (if status session \<noteq> STATUS_HANDSHAKE then Some None
      else do {
        let sig_msg = s_ecdh_ours session @ s_ecdh_theirs session;
        let signature = pc_sign c sig_msg (s_ed_ours session) (s_ed_private session);
        aes_ctx \<leftarrow> session_cipher c session;
        (aes_ctx, signature) \<leftarrow> AES_ctr_encrypt aes_ctx signature 64;
        Some (Some signature)
      })"

text \<open>\<^verbatim>\<open>sig_buffer\<close> is not initialised when the fake round encrypts it: its bytes are an argument.\<close>

definition pairing_session_finish ::
  "pairing_crypto \<Rightarrow> byte list \<Rightarrow> pairing_session \<Rightarrow> byte list \<Rightarrow> (int \<times> pairing_session) option" where
  "pairing_session_finish c sig_buffer session signature =
     (if status session \<noteq> STATUS_HANDSHAKE then Some (-1, session)
      else do {
        aes_ctx \<leftarrow> session_cipher c session;
        (aes_ctx, sig_buffer) \<leftarrow> AES_ctr_encrypt aes_ctx sig_buffer 64;
        (aes_ctx, sig_buffer) \<leftarrow> AES_ctr_encrypt aes_ctx signature 64;
        let sig_msg = s_ecdh_theirs session @ s_ecdh_ours session;
        if \<not> pc_verify c sig_buffer sig_msg (s_ed_theirs session) then Some (-2, session)
        else Some (0, session\<lparr>status := STATUS_FINISHED\<rparr>)
      })"

section \<open>An honest sender is authenticated\<close>

definition session_ok :: "pairing_session \<Rightarrow> bool" where
  "session_ok s \<longleftrightarrow> length (s_ecdh_ours s) = 32 \<and> length (s_ecdh_theirs s) = 32 \<and> length (s_ecdh_secret s) = 32"

lemma crypto_lawsD:
  assumes "crypto_laws c"
  shows "length (pc_sign c m p k) = 64" and "length (pc_curve c k p) = 32" and "length (pc_sha512 c m) = 64"
    and "pc_verify c (pc_sign c m (fst (pc_keypair c seed)) (snd (pc_keypair c seed))) m (fst (pc_keypair c seed))"
    and "pc_curve c a (pc_curve c b (pc_base c)) = pc_curve c b (pc_curve c a (pc_base c))"
    and "length (fst (pc_keypair c seed)) = 32" and "length (snd (pc_keypair c seed)) = 64"
  using assms unfolding crypto_laws_def by blast+

lemma session_cipher_ok:
  assumes "crypto_laws c"
  shows "\<exists>ctx rk. session_cipher c s = Some ctx \<and> ctr_ok rk ctx"
proof -
  let ?key = "\<lambda>salt. take 16 (pc_sha512 c (salt @ s_ecdh_secret s))"
  have "session_cipher c s = Some (AES_ctr_set_key (?key SALT_KEY) (?key SALT_IV) AES_MODE_128)"
    by (simp add: session_cipher_def derive_key_internal_def)
  moreover have "ctr_ok (KeyExpansion (?key SALT_KEY)) (AES_ctr_set_key (?key SALT_KEY) (?key SALT_IV) AES_MODE_128)"
    using crypto_lawsD(3) [OF assms] by (intro ctr_ok_set_key(1)) simp_all
  ultimately show ?thesis by blast
qed

text \<open>The cipher depends on the shared secret only.\<close>

lemma session_cipher_secret: "s_ecdh_secret s = s_ecdh_secret s' \<Longrightarrow> session_cipher c s = session_cipher c s'"
  by (simp add: session_cipher_def derive_key_internal_def)

text \<open>
  The sender's part of the protocol, on a session of its own: it decrypts the receiver's
  signature, checks it, and answers with its own, further on in the same key stream.
\<close>

definition sender_answer :: "pairing_crypto \<Rightarrow> pairing_session \<Rightarrow> byte list \<Rightarrow> byte list option" where
  "sender_answer c s signature = do {
     ctx \<leftarrow> session_cipher c s;
     (ctx, sig) \<leftarrow> AES_ctr_encrypt ctx signature 64;
     require (pc_verify c sig (s_ecdh_theirs s @ s_ecdh_ours s) (s_ed_theirs s));
     (ctx, answer) \<leftarrow> AES_ctr_encrypt ctx (pc_sign c (s_ecdh_ours s @ s_ecdh_theirs s) (s_ed_ours s) (s_ed_private s)) 64;
     Some answer
   }"

definition fresh_session :: "pairing_crypto \<Rightarrow> byte list \<Rightarrow> pairing_session option" where
  "fresh_session c seed = pairing_session_init True (pairing_init_seed c True seed)"

lemma handshake_session:
  assumes "crypto_laws c" and "fresh_session c seed = Some s0"
  shows "\<exists>s. pairing_session_handshake c (Some k) s0 (pc_curve c k' (pc_base c)) (fst (pc_keypair c seed')) = Some (0, s) \<and>
    status s = STATUS_HANDSHAKE \<and> s_ed_ours s = fst (pc_keypair c seed) \<and> s_ed_private s = snd (pc_keypair c seed) \<and>
    s_ed_theirs s = fst (pc_keypair c seed') \<and> s_ecdh_ours s = pc_curve c k (pc_base c) \<and>
    s_ecdh_theirs s = pc_curve c k' (pc_base c) \<and> s_ecdh_secret s = pc_curve c k (pc_curve c k' (pc_base c))"
  using assms(2) crypto_lawsD(2,6) [OF assms(1)]
  by (auto simp: fresh_session_def pairing_init_seed_def pairing_session_init_def pairing_session_handshake_def
      slice_def split_def Let_def)


section \<open>Instances\<close>

text \<open>Primitives that satisfy the laws: the first byte of a key stands for a number.\<close>

definition first_byte :: "byte list \<Rightarrow> byte" where
  "first_byte xs = (case xs of [] \<Rightarrow> 1 | x # _ \<Rightarrow> x)"

definition sample_crypto :: pairing_crypto where
  "sample_crypto = \<lparr> pc_keypair = (\<lambda>seed. (replicate 32 (first_byte seed), replicate 64 (first_byte seed))),
     pc_sign = (\<lambda>m p s. replicate 64 (first_byte p + first_byte m)),
     pc_verify = (\<lambda>sig m p. sig = replicate 64 (first_byte p + first_byte m)),
     pc_curve = (\<lambda>k p. replicate 32 (first_byte k * first_byte p)), pc_base = replicate 32 9,
     pc_sha512 = (\<lambda>m. replicate 64 (first_byte m)) \<rparr>"

lemma first_byte_replicate: "0 < n \<Longrightarrow> first_byte (replicate n x) = x"
  by (cases n) (simp_all add: first_byte_def)

lemma sample_crypto_laws: "crypto_laws sample_crypto"
  by (simp add: crypto_laws_def sample_crypto_def first_byte_replicate mult.left_commute)


end
