(* ===== verification/Plist.thy ===== *)
theory Plist
  imports Prelude
begin

text \<open>
  Property lists (\<^verbatim>\<open>plist/plist.c\<close>): a node with its data, and the accessors the handlers use.  A node
  that is not there (\<^verbatim>\<open>NULL\<close>) is \<^verbatim>\<open>None\<close>.  A dictionary is the list of its keys and values in order;
  a number is its bits, a \<^verbatim>\<open>double\<close> its bit pattern.  A string is the \<^verbatim>\<open>length\<close> bytes of \<^verbatim>\<open>strval\<close>, among
  them possibly a zero, at which the functions that take a C string stop.  The hash table that
  \<^verbatim>\<open>plist_dict_set_item\<close> adds to a dictionary of more than 250 entries is not modelled.
\<close>

datatype plist =
    Plist_Boolean bool
  | Plist_Uint u64
  | Plist_Uint16 u64  \<comment> \<open>\<^verbatim>\<open>PLIST_UINT\<close> with a length of 16 bytes, of which the lower eight are kept\<close>
  | Plist_Real u64
  | Plist_String "byte list"
  | Plist_Array "plist list"
  | Plist_Dict "(byte list \<times> plist) list"
  | Plist_Date u64
  | Plist_Data "byte list"
  | Plist_Uid u64

definition c_str :: "byte list \<Rightarrow> byte list" where
  "c_str s = takeWhile (\<lambda>c. c \<noteq> 0) s"

section \<open>Dictionaries\<close>

fun find_item :: "byte list \<Rightarrow> (byte list \<times> plist) list \<Rightarrow> plist option" where
  "find_item key [] = None"
| "find_item key ((k, v) # kvs) = (if c_str k = c_str key then Some v else find_item key kvs)"

definition plist_dict_get_item :: "plist option \<Rightarrow> byte list \<Rightarrow> plist option" where
  "plist_dict_get_item node key = (case node of Some (Plist_Dict kvs) \<Rightarrow> find_item key kvs | _ \<Rightarrow> None)"

text \<open>An item that is there is replaced where it stands, a new one goes to the end.\<close>

fun set_entry :: "byte list \<Rightarrow> plist \<Rightarrow> (byte list \<times> plist) list \<Rightarrow> (byte list \<times> plist) list" where
  "set_entry key item [] = [(c_str key, item)]"
| "set_entry key item ((k, v) # kvs) =
     (if c_str k = c_str key then (k, item) # kvs else (k, v) # set_entry key item kvs)"

definition plist_dict_set_item :: "plist \<Rightarrow> byte list \<Rightarrow> plist \<Rightarrow> plist" where
  "plist_dict_set_item node key item =
     (case node of Plist_Dict kvs \<Rightarrow> Plist_Dict (set_entry key item kvs) | _ \<Rightarrow> node)"

fun drop_entry :: "byte list \<Rightarrow> (byte list \<times> plist) list \<Rightarrow> (byte list \<times> plist) list" where
  "drop_entry key [] = []"
| "drop_entry key ((k, v) # kvs) = (if c_str k = c_str key then kvs else (k, v) # drop_entry key kvs)"

definition plist_dict_remove_item :: "plist \<Rightarrow> byte list \<Rightarrow> plist" where
  "plist_dict_remove_item node key =
     (case node of Plist_Dict kvs \<Rightarrow> Plist_Dict (drop_entry key kvs) | _ \<Rightarrow> node)"

definition plist_dict_get_size :: "plist option \<Rightarrow> nat" where
  "plist_dict_get_size node = (case node of Some (Plist_Dict kvs) \<Rightarrow> length kvs | _ \<Rightarrow> 0)"

section \<open>Arrays\<close>

definition plist_array_get_size :: "plist option \<Rightarrow> nat" where
  "plist_array_get_size node = (case node of Some (Plist_Array xs) \<Rightarrow> length xs | _ \<Rightarrow> 0)"

definition plist_array_get_item :: "plist option \<Rightarrow> nat \<Rightarrow> plist option" where
  "plist_array_get_item node n =
     (case node of Some (Plist_Array xs) \<Rightarrow> if n < length xs then Some (xs ! n) else None | _ \<Rightarrow> None)"

definition plist_array_set_item :: "plist \<Rightarrow> plist \<Rightarrow> nat \<Rightarrow> plist" where
  "plist_array_set_item node item n =
     (case node of Plist_Array xs \<Rightarrow> Plist_Array (if n < length xs then xs[n := item] else xs) | _ \<Rightarrow> node)"

definition plist_array_append_item :: "plist \<Rightarrow> plist \<Rightarrow> plist" where
  "plist_array_append_item node item =
     (case node of Plist_Array xs \<Rightarrow> Plist_Array (xs @ [item]) | _ \<Rightarrow> node)"

definition plist_array_insert_item :: "plist \<Rightarrow> plist \<Rightarrow> nat \<Rightarrow> plist" where
  "plist_array_insert_item node item n =
     (case node of
        Plist_Array xs \<Rightarrow> Plist_Array (if n < length xs then take n xs @ item # drop n xs else xs @ [item])
      | _ \<Rightarrow> node)"

definition plist_array_remove_item :: "plist \<Rightarrow> nat \<Rightarrow> plist" where
  "plist_array_remove_item node n =
     (case node of
        Plist_Array xs \<Rightarrow> Plist_Array (if n < length xs then take n xs @ drop (Suc n) xs else xs)
      | _ \<Rightarrow> node)"

section \<open>Values\<close>

text \<open>
  The accessors assert that the length of the data is the one of the type; it stays 0 when the
  node is of another type.  A string or key with a zero inside is longer than its C string.
\<close>

definition plist_get_uint_val :: "plist \<Rightarrow> u64 option" where
  "plist_get_uint_val node = (case node of Plist_Uint v \<Rightarrow> Some v | Plist_Uint16 v \<Rightarrow> Some v | _ \<Rightarrow> None)"

definition plist_get_bool_val :: "plist \<Rightarrow> bool option" where
  "plist_get_bool_val node = (case node of Plist_Boolean b \<Rightarrow> Some b | _ \<Rightarrow> None)"

definition plist_get_uid_val :: "plist \<Rightarrow> u64 option" where
  "plist_get_uid_val node = (case node of Plist_Uid v \<Rightarrow> Some v | _ \<Rightarrow> None)"

definition plist_get_real_val :: "plist \<Rightarrow> u64 option" where
  "plist_get_real_val node = (case node of Plist_Real d \<Rightarrow> Some d | _ \<Rightarrow> None)"

definition plist_get_key_val :: "byte list \<Rightarrow> byte list option" where
  "plist_get_key_val key = (if c_str key = key then Some key else None)"

definition plist_get_string_val :: "plist \<Rightarrow> byte list option" where
  "plist_get_string_val node =
     (case node of Plist_String s \<Rightarrow> if c_str s = s then Some s else None | _ \<Rightarrow> None)"

text \<open>The accessor of data leaves the pointer \<^verbatim>\<open>NULL\<close> when the node is something else.\<close>

definition plist_get_data_val :: "plist \<Rightarrow> byte list option" where
  "plist_get_data_val node = (case node of Plist_Data d \<Rightarrow> Some d | _ \<Rightarrow> None)"

section \<open>What they do\<close>

lemma c_str_idem [simp]: "c_str (c_str s) = c_str s"
  by (simp add: c_str_def)

lemma find_set_entry:
  "find_item k (set_entry key item kvs) = (if c_str k = c_str key then Some item else find_item k kvs)"
  by (induction kvs) auto

lemma plist_set_get:
  "plist_dict_get_item (Some (plist_dict_set_item (Plist_Dict kvs) key item)) k =
     (if c_str k = c_str key then Some item else plist_dict_get_item (Some (Plist_Dict kvs)) k)"
  by (simp add: plist_dict_get_item_def plist_dict_set_item_def find_set_entry)

lemma set_entry_dict: "\<exists>kvs'. plist_dict_set_item (Plist_Dict kvs) key item = Plist_Dict kvs'"
  by (simp add: plist_dict_set_item_def)

lemma find_drop_entry:
  "distinct (map (c_str \<circ> fst) kvs) \<Longrightarrow>
     find_item k (drop_entry key kvs) = (if c_str k = c_str key then None else find_item k kvs)"
proof (induction kvs)
  case (Cons e kvs)
  obtain l v where e: "e = (l, v)" by (cases e)
  have "find_item k kvs = None" if "c_str l \<notin> (c_str \<circ> fst) ` set kvs" "c_str k = c_str l"
    using that by (induction kvs) auto
  then show ?case using Cons by (auto simp: e)
qed simp

end
