(* ===== verification/Mirror_Setup.thy ===== *)
theory Mirror_Setup
  imports Mirror_Stream Byte_Utils
begin

text \<open>
  The rest of \<^verbatim>\<open>raop_rtp_mirror.c\<close>: creating and destroying the receiver, and the thread that asks
  the sender for the time.
\<close>

section \<open>Creation\<close>

text \<open>
  \<^verbatim>\<open>parse_address\<close> stands for \<^verbatim>\<open>netutils_parse_address\<close>, given the family (IPv6 or not) and the
  dotted quad of the first four bytes.
\<close>

definition mirror_parse_remote ::
  "(bool \<Rightarrow> byte \<times> byte \<times> byte \<times> byte \<Rightarrow> byte list option) \<Rightarrow> byte list \<Rightarrow> int \<Rightarrow> byte list option option" where
  "mirror_parse_remote parse_address remote remotelen =
     (if remotelen = 4 \<or> remotelen = 16
      then do {
        q \<leftarrow> slice 0 4 remote;
        Some (parse_address (remotelen = 16) (q ! 0, q ! 1, q ! 2, q ! 3))
      }
      else Some None)"

text \<open>\<^verbatim>\<open>allocated\<close>: whether the two structures could be allocated.\<close>

definition raop_rtp_mirror_init ::
  "bool \<times> bool \<Rightarrow> (bool \<Rightarrow> byte \<times> byte \<times> byte \<times> byte \<Rightarrow> byte list option)
     \<Rightarrow> byte list \<Rightarrow> int \<Rightarrow> byte list \<Rightarrow> byte list \<Rightarrow> u16 \<Rightarrow> raop_rtp_mirror option option" where
  "raop_rtp_mirror_init allocated parse_address remote remotelen aeskey ecdh timing_rport =
     (if \<not> fst allocated \<or> \<not> snd allocated then Some None
      else do {
        addr \<leftarrow> mirror_parse_remote parse_address remote remotelen;
        Some (map_option (\<lambda>a.
          \<lparr> mirror_buf = mirror_buffer_init aeskey ecdh, mirror_running = False, mirror_joined = True,
            mirror_flush = -42, mirror_data_sock = -1, mirror_time_sock = -1, stream_fd = -1,
            mirror_data_lport = 0, mirror_timing_rport = timing_rport, mirror_timing_lport = 0, mirror_remote = a,
            payload_in_buffer = [], payload_buffer = [], payload_capacity = 0 \<rparr>) addr)
      })"

definition raop_rtp_init_mirror_aes :: "(byte list \<Rightarrow> byte list) \<Rightarrow> raop_rtp_mirror \<Rightarrow> u64 \<Rightarrow> raop_rtp_mirror" where
  "raop_rtp_init_mirror_aes sha512 rm streamConnectionID =
     rm\<lparr>mirror_buf := mirror_buffer_init_aes sha512 (mirror_buf rm) streamConnectionID\<rparr>"

section \<open>The time thread\<close>

text \<open>
  One round: the request is sent with the time in its last 8 bytes; an answer of at least 48
  bytes sets the time of the next request.  The environment is the clock and the answer: the
  buffer of 128 bytes and the length \<^verbatim>\<open>recvfrom\<close> returned.
\<close>

definition mirror_time_packet :: "byte list" where
  "mirror_time_packet = 35 # replicate 47 0"

definition mirror_time_round ::
  "u64 \<Rightarrow> byte list \<times> u64 \<Rightarrow> u64 \<times> byte list \<times> int \<Rightarrow> (byte list \<times> u64) option" where
  "mirror_time_round base st env = (case (st, env) of ((time, rec_pts), (now, packet, packetlen)) \<Rightarrow> do {
     let send_time = now - base + rec_pts;
     time \<leftarrow> byteutils_put_timeStamp time 40 send_time;
     if packetlen < 48 then Some (time, rec_pts)
     else do {
       reference \<leftarrow> byteutils_read_timeStamp packet 16;
       origin \<leftarrow> byteutils_read_timeStamp packet 24;
       receive \<leftarrow> byteutils_read_timeStamp packet 32;
       transmit \<leftarrow> byteutils_read_timeStamp packet 40;
       Some (time, receive)
     }
   })"

text \<open>The packets sent, while \<^verbatim>\<open>running\<close> is set.\<close>

fun mirror_time_rounds :: "u64 \<Rightarrow> byte list \<times> u64 \<Rightarrow> (u64 \<times> byte list \<times> int) list \<Rightarrow> byte list list option" where
  "mirror_time_rounds base st [] = Some []"
| "mirror_time_rounds base st (env # envs) = do {
     (time, rec_pts) \<leftarrow> mirror_time_round base st env;
     ps \<leftarrow> mirror_time_rounds base (time, rec_pts) envs;
     Some (time # ps)
   }"

definition raop_rtp_mirror_thread_time :: "u64 \<Rightarrow> (u64 \<times> byte list \<times> int) list \<Rightarrow> byte list list option" where
  "raop_rtp_mirror_thread_time base envs = mirror_time_rounds base (mirror_time_packet, 0) envs"

section \<open>Stop\<close>

text \<open>
  Both parts of a stop with the exit of the mirror thread between them, when it is still there:
  \<^verbatim>\<open>running\<close> is only cleared by the exit and by a stop.
\<close>

definition raop_rtp_mirror_stop :: "raop_rtp_mirror \<Rightarrow> raop_rtp_mirror \<times> mirror_event list" where
  "raop_rtp_mirror_stop rm = (case raop_rtp_mirror_stop_request rm of
       None \<Rightarrow> (rm, [])
     | Some (rm1, evs1) \<Rightarrow> (
         let (rm2, evs2) = (if mirror_running rm then mirror_thread_exit (stream_fd rm) rm1 else (rm1, []));
             (rm3, evs3) = raop_rtp_mirror_stop_finish rm2
         in (rm3, evs1 @ evs2 @ evs3)))"

text \<open>Stopping joins both threads, and reports the end of the stream if the thread had not yet.\<close>

lemma mirror_stop_joins:
  "mirror_joined (fst (raop_rtp_mirror_stop rm))"
  "Stream_Stopped \<in> set (snd (raop_rtp_mirror_stop rm)) \<longleftrightarrow> mirror_running rm \<and> \<not> mirror_joined rm"
  by (auto simp: raop_rtp_mirror_stop_def raop_rtp_mirror_stop_request_def mirror_thread_exit_def
      raop_rtp_mirror_stop_finish_def shutdown_if_def close_if_def Let_def)

section \<open>Facts\<close>

text \<open>A receiver that was just made is consistent once its stream key is set, and has nothing running.\<close>

lemma mirror_init_ok:
  assumes "raop_rtp_mirror_init allocated parse_address remote remotelen aeskey ecdh timing_rport = Some (Some rm)"
    and "\<forall>m. length (sha512 m) = 64"
  shows "rm_ok (raop_rtp_init_mirror_aes sha512 rm sid)" and "\<not> mirror_running rm" and "mirror_joined rm"
  using assms mirror_ok_init_aes [of sha512]
  by (auto simp: raop_rtp_mirror_init_def raop_rtp_init_mirror_aes_def rm_ok_def bind_eq_Some_conv mirror_buffer_init_def
      split: if_splits)

end
