(* ===== verification/Raop_Sessions.thy ===== *)
theory Raop_Sessions
  imports Raop_Rtp Mirror_Setup Pairing Fair_Play Plist Http_Request Http_Response
begin

text \<open>
  The first half of \<^verbatim>\<open>raop.c\<close>: the receiver, its connections, and the tables that keep media
  sessions alive when the control connection that made them is gone.  Sessions live in a store:
  an address is a number, and the store maps the live ones to their state.  A pointer in a table
  or a connection is \<^verbatim>\<open>None\<close> for \<^verbatim>\<open>NULL\<close>, or an address, which may be dangling.  Freeing or using an
  address that is not live is \<^verbatim>\<open>None\<close>.
\<close>

section \<open>State\<close>

definition MAX_ACTIVE_SESSIONS :: nat where
  "MAX_ACTIVE_SESSIONS = 16"

text \<open>
  The callbacks of the application that this code calls, with \<^verbatim>\<open>None\<close> for a null pointer; a call of
  \<^verbatim>\<open>stream_stopped\<close> goes to the log.
\<close>

record raop_callbacks =
  cb_video_width :: "int option"
  cb_video_height :: "int option"
  cb_sender_should_connect :: "(byte list \<Rightarrow> byte list \<Rightarrow> bool) option"
  cb_stream_stopped :: bool

datatype raop_event =
    App_Stream_Stopped
  | Rtp_Destroyed nat "int list"
  | Mirror_Destroyed nat "mirror_event list"

record ('aes, 'alac, 'aac) raop =
  raop_callbacks :: raop_callbacks
  raop_pairing :: "pairing option"
  active_rtps :: "nat option list"
  active_mirrors :: "nat option list"
  raop_port :: u16
  rtps :: "nat \<rightharpoonup> ('aes, 'alac, 'aac) raop_rtp"
  mirrors :: "nat \<rightharpoonup> raop_rtp_mirror"
  raop_log :: "raop_event list"

record raop_conn =
  conn_rtp :: "nat option"
  conn_mirror :: "nat option"
  conn_fairplay :: fairplay
  conn_pairing :: pairing_session
  conn_local :: "byte list"
  conn_remote :: "byte list"
  conn_remotelen :: int
  conn_setup :: int
  audio_started :: bool
  mirror_started :: bool
  stream_stopped_notified :: bool

section \<open>The tables of active sessions\<close>

definition table_has :: "nat option list \<Rightarrow> nat \<Rightarrow> bool" where
  "table_has slots a \<longleftrightarrow> Some a \<in> set slots"

text \<open>The first free slot; a full table stays as it is.\<close>

fun table_add :: "nat option list \<Rightarrow> nat \<Rightarrow> nat option list" where
  "table_add [] a = []"
| "table_add (None # slots) a = Some a # slots"
| "table_add (Some b # slots) a = Some b # table_add slots a"

definition table_remove :: "nat option list \<Rightarrow> nat \<Rightarrow> nat option list" where
  "table_remove slots a = map (\<lambda>x. if x = Some a then None else x) slots"

definition raop_has_active_rtp :: "('aes, 'alac, 'aac) raop \<Rightarrow> nat \<Rightarrow> bool" where
  "raop_has_active_rtp raop rtp = table_has (active_rtps raop) rtp"

definition raop_has_active_mirror :: "('aes, 'alac, 'aac) raop \<Rightarrow> nat \<Rightarrow> bool" where
  "raop_has_active_mirror raop mirror = table_has (active_mirrors raop) mirror"

definition raop_add_active_rtp :: "('aes, 'alac, 'aac) raop \<Rightarrow> nat option \<Rightarrow> ('aes, 'alac, 'aac) raop" where
  "raop_add_active_rtp raop rtp = (case rtp of
       None \<Rightarrow> raop
     | Some a \<Rightarrow> if raop_has_active_rtp raop a then raop
                else raop\<lparr>active_rtps := table_add (active_rtps raop) a\<rparr>)"

definition raop_add_active_mirror :: "('aes, 'alac, 'aac) raop \<Rightarrow> nat option \<Rightarrow> ('aes, 'alac, 'aac) raop" where
  "raop_add_active_mirror raop mirror = (case mirror of
       None \<Rightarrow> raop
     | Some a \<Rightarrow> if raop_has_active_mirror raop a then raop
                else raop\<lparr>active_mirrors := table_add (active_mirrors raop) a\<rparr>)"

definition raop_remove_active_rtp :: "('aes, 'alac, 'aac) raop \<Rightarrow> nat \<Rightarrow> ('aes, 'alac, 'aac) raop" where
  "raop_remove_active_rtp raop rtp = raop\<lparr>active_rtps := table_remove (active_rtps raop) rtp\<rparr>"

definition raop_remove_active_mirror :: "('aes, 'alac, 'aac) raop \<Rightarrow> nat \<Rightarrow> ('aes, 'alac, 'aac) raop" where
  "raop_remove_active_mirror raop mirror = raop\<lparr>active_mirrors := table_remove (active_mirrors raop) mirror\<rparr>"

section \<open>Freeing sessions\<close>

text \<open>
  Destroying stops the threads of the session first; what that does outside is logged.  A null
  pointer is left alone.
\<close>

definition raop_rtp_destroy ::
  "nat option \<Rightarrow> ('aes, 'alac, 'aac) raop \<Rightarrow> ('aes, 'alac, 'aac) raop option" where
  "raop_rtp_destroy rtp raop = (case rtp of
       None \<Rightarrow> Some raop
     | Some a \<Rightarrow> do {
         r \<leftarrow> rtps raop a;
         Some (raop\<lparr>rtps := (rtps raop)(a := None),
                    raop_log := raop_log raop @ [Rtp_Destroyed a (snd (raop_rtp_stop r))]\<rparr>)
       })"

definition raop_rtp_mirror_destroy ::
  "nat option \<Rightarrow> ('aes, 'alac, 'aac) raop \<Rightarrow> ('aes, 'alac, 'aac) raop option" where
  "raop_rtp_mirror_destroy mirror raop = (case mirror of
       None \<Rightarrow> Some raop
     | Some a \<Rightarrow> do {
         rm \<leftarrow> mirrors raop a;
         Some (raop\<lparr>mirrors := (mirrors raop)(a := None),
                    raop_log := raop_log raop @ [Mirror_Destroyed a (snd (raop_rtp_mirror_stop rm))]\<rparr>)
       })"

definition destroy_slot :: "('aes, 'alac, 'aac) raop \<Rightarrow> nat \<Rightarrow> ('aes, 'alac, 'aac) raop option" where
  "destroy_slot raop i = do {
     raop \<leftarrow> raop_rtp_destroy (active_rtps raop ! i) raop;
     let raop = raop\<lparr>active_rtps := (active_rtps raop)[i := None]\<rparr>;
     raop \<leftarrow> raop_rtp_mirror_destroy (active_mirrors raop ! i) raop;
     Some (raop\<lparr>active_mirrors := (active_mirrors raop)[i := None]\<rparr>)
   }"

fun destroy_slots :: "nat list \<Rightarrow> ('aes, 'alac, 'aac) raop \<Rightarrow> ('aes, 'alac, 'aac) raop option" where
  "destroy_slots [] raop = Some raop"
| "destroy_slots (i # is) raop = do { raop \<leftarrow> destroy_slot raop i; destroy_slots is raop }"

definition raop_destroy_active_sessions ::
  "('aes, 'alac, 'aac) raop \<Rightarrow> ('aes, 'alac, 'aac) raop option" where
  "raop_destroy_active_sessions raop = destroy_slots [0..<MAX_ACTIVE_SESSIONS] raop"

section \<open>Connections\<close>

definition conn_notify_stream_stopped ::
  "('aes, 'alac, 'aac) raop \<Rightarrow> raop_conn \<Rightarrow> ('aes, 'alac, 'aac) raop \<times> raop_conn" where
  "conn_notify_stream_stopped raop conn =
     (if stream_stopped_notified conn then (raop, conn)
      else (if cb_stream_stopped (raop_callbacks raop)
            then raop\<lparr>raop_log := raop_log raop @ [App_Stream_Stopped]\<rparr> else raop,
            conn\<lparr>stream_stopped_notified := True\<rparr>))"

text \<open>\<^verbatim>\<open>snprintf\<close> with the formats \<^verbatim>\<open>%u\<close> and \<^verbatim>\<open>%02x\<close>; the result is cut to the size of the buffer.\<close>

definition hex_digit :: "nat \<Rightarrow> byte" where
  "hex_digit n = (if n < 10 then of_nat (48 + n) else of_nat (87 + n))"

definition hex2 :: "byte \<Rightarrow> byte list" where
  "hex2 b = [hex_digit (unat b div 16), hex_digit (unat b mod 16)]"

fun hex_groups :: "byte list \<Rightarrow> byte list" where
  "hex_groups [] = []"
| "hex_groups [a] = hex2 a"
| "hex_groups [a, b] = hex2 a @ hex2 b"
| "hex_groups (a # b # xs) = hex2 a @ hex2 b @ [58] @ hex_groups xs"

definition raop_address_to_string :: "byte list \<Rightarrow> int \<Rightarrow> nat \<Rightarrow> byte list option" where
  "raop_address_to_string address address_len out_len =
     (if address_len = 4 then do {
        a \<leftarrow> slice 0 4 address;
        Some (take (out_len - 1) (decimal (unat (a ! 0)) @ [46] @ decimal (unat (a ! 1)) @ [46]
          @ decimal (unat (a ! 2)) @ [46] @ decimal (unat (a ! 3))))
      }
      else if address_len = 16 then do {
        a \<leftarrow> slice 0 16 address;
        Some (take (out_len - 1) (hex_groups a))
      }
      else Some (take (out_len - 1) (bytes ''unknown'')))"

text \<open>
  A new connection.  The flags say whether the allocations of the connection, of the FairPlay and
  of the pairing state, and of the two addresses succeed (the last are asserted).  \<^verbatim>\<open>None\<close> inside
  is the null pointer that refuses the connection.
\<close>

definition conn_init ::
  "bool \<Rightarrow> bool \<Rightarrow> bool \<Rightarrow> bool \<Rightarrow> ('aes, 'alac, 'aac) raop \<Rightarrow> byte list \<Rightarrow> byte list \<Rightarrow> int \<Rightarrow> raop_conn option option" where
  "conn_init ok_conn ok_fairplay ok_pairing ok_addr raop local remote remotelen = do {
     remote_id \<leftarrow> raop_address_to_string remote remotelen 64;
     if (case cb_sender_should_connect (raop_callbacks raop) of None \<Rightarrow> False | Some f \<Rightarrow> \<not> f remote_id remote_id)
     then Some None
     else if \<not> ok_conn then Some None
     else (case fairplay_init ok_fairplay of
         None \<Rightarrow> Some None
       | Some fp \<Rightarrow> (case pairing_session_init ok_pairing (raop_pairing raop) of
           None \<Rightarrow> Some None
         | Some ps \<Rightarrow> do {
             require ok_addr;
             remote \<leftarrow> slice 0 (nat remotelen) remote;
             Some (Some \<lparr> conn_rtp = None, conn_mirror = None, conn_fairplay = fp, conn_pairing = ps,
               conn_local = local, conn_remote = remote, conn_remotelen = remotelen, conn_setup = 0,
               audio_started = False, mirror_started = False, stream_stopped_notified = False \<rparr>)
           }))
   }"

text \<open>A closed control connection leaves the sessions of the tables alone.\<close>

definition conn_destroy ::
  "('aes, 'alac, 'aac) raop \<Rightarrow> raop_conn \<Rightarrow> ('aes, 'alac, 'aac) raop option" where
  "conn_destroy raop conn = do {
     raop \<leftarrow> (case conn_rtp conn of
         None \<Rightarrow> Some raop
       | Some a \<Rightarrow> if \<not> raop_has_active_rtp raop a then raop_rtp_destroy (Some a) raop else Some raop);
     (case conn_mirror conn of
         None \<Rightarrow> Some raop
       | Some a \<Rightarrow> if \<not> raop_has_active_mirror raop a then raop_rtp_mirror_destroy (Some a) raop else Some raop)
   }"

text \<open>
  A fresh receiver: no callbacks are missing that its start needs (\<^verbatim>\<open>audio_process\<close>), and its pairing
  identity was made.  The HTTP daemon is a component of its own.
\<close>

definition raop_init ::
  "bool \<Rightarrow> bool \<Rightarrow> bool \<Rightarrow> pairing option \<Rightarrow> bool \<Rightarrow> int \<Rightarrow> raop_callbacks \<Rightarrow> ('aes, 'alac, 'aac) raop option option" where
  "raop_init net_ok audio_process ok_raop pairing httpd_ok max_clients cbs = do {
     require (0 < max_clients \<and> max_clients < 100);
     if \<not> net_ok \<or> \<not> audio_process \<or> \<not> ok_raop \<or> pairing = None \<or> \<not> httpd_ok then Some None
     else Some (Some \<lparr> raop_callbacks = cbs, raop_pairing = pairing,
       active_rtps = replicate MAX_ACTIVE_SESSIONS None, active_mirrors = replicate MAX_ACTIVE_SESSIONS None,
       raop_port = 0, rtps = (\<lambda>_. None), mirrors = (\<lambda>_. None), raop_log = [] \<rparr>)
   }"

definition raop_set_port :: "('aes, 'alac, 'aac) raop \<Rightarrow> u16 \<Rightarrow> ('aes, 'alac, 'aac) raop" where
  "raop_set_port raop port = raop\<lparr>raop_port := port\<rparr>"

definition raop_get_port :: "('aes, 'alac, 'aac) raop \<Rightarrow> u16" where
  "raop_get_port raop = raop_port raop"

section \<open>Which sessions are accounted for\<close>

text \<open>
  The ownership of sessions, the same for both kinds: a table, the pointers of the connections and
  the store.  Pointers are live, no two of them (slots, or connections) are equal, and every live
  session can be reached from one.
\<close>

definition unshared :: "nat option list \<Rightarrow> bool" where
  "unshared ps \<longleftrightarrow> (\<forall>i j a. i < length ps \<longrightarrow> j < length ps \<longrightarrow> ps ! i = Some a \<longrightarrow> ps ! j = Some a \<longrightarrow> i = j)"

definition reach :: "nat option list \<Rightarrow> nat set" where
  "reach ps = {a. Some a \<in> set ps}"

definition owned :: "nat option list \<Rightarrow> nat option list \<Rightarrow> nat set \<Rightarrow> bool" where
  "owned slots ptrs live \<longleftrightarrow> unshared slots \<and> unshared ptrs \<and> reach slots \<union> reach ptrs = live"

text \<open>The live addresses of a store; changing a live session keeps them.\<close>

definition live_set :: "('a \<rightharpoonup> 'b) \<Rightarrow> 'a set" where
  "live_set m = dom m"

lemma live_update [simp]: "m a = Some r \<Longrightarrow> live_set (m(a \<mapsto> r')) = live_set m"
  by (auto simp: live_set_def)

lemma live_free [simp]: "live_set (m(a := None)) = live_set m - {a}"
  by (auto simp: live_set_def)

lemma live_new: "live_set (m(a \<mapsto> r)) = insert a (live_set m)"
  by (auto simp: live_set_def)

lemma liveD: "a \<in> live_set m \<Longrightarrow> \<exists>r. m a = Some r"
  by (auto simp: live_set_def)

lemma unsharedD: "unshared ps \<Longrightarrow> i < length ps \<Longrightarrow> j < length ps \<Longrightarrow> ps ! i = Some a \<Longrightarrow> ps ! j = Some a \<Longrightarrow> i = j"
  unfolding unshared_def by blast

lemma reach_update_None: "unshared ps \<Longrightarrow> i < length ps \<Longrightarrow> reach (ps[i := None]) = reach ps - set_option (ps ! i)"
  by (auto simp: reach_def in_set_conv_nth nth_list_update split: if_splits dest: unsharedD)

lemma reach_update_Some: "ps ! i = None \<Longrightarrow> i < length ps \<Longrightarrow> reach (ps[i := Some a]) = insert a (reach ps)"
  by (auto simp: reach_def in_set_conv_nth nth_list_update split: if_splits) (metis option.distinct(1))

lemma reach_nth: "i < length ps \<Longrightarrow> ps ! i = Some a \<Longrightarrow> a \<in> reach ps"
  by (auto simp: reach_def in_set_conv_nth)

lemma unshared_update_None: "unshared ps \<Longrightarrow> unshared (ps[i := None])"
  unfolding unshared_def by (cases "i < length ps") (auto simp: nth_list_update split: if_splits)

lemma unshared_update_Some: "unshared ps \<Longrightarrow> a \<notin> reach ps \<Longrightarrow> unshared (ps[i := Some a])"
  unfolding unshared_def by (cases "i < length ps") (auto simp: nth_list_update dest: reach_nth split: if_splits)

lemma table_add_slot:
  "table_add slots a = slots \<or> (\<exists>k < length slots. slots ! k = None \<and> table_add slots a = slots[k := Some a])"
proof (induction slots a rule: table_add.induct)
  case (3 b slots a)
  then show ?case
  proof
    assume "\<exists>k < length slots. slots ! k = None \<and> table_add slots a = slots[k := Some a]"
    then obtain k where "k < length slots" "slots ! k = None" "table_add slots a = slots[k := Some a]" by blast
    then show ?thesis by (intro disjI2 exI [of _ "Suc k"]) simp
  qed simp
qed auto

lemma length_table_add [simp]: "length (table_add slots a) = length slots"
  by (induction slots a rule: table_add.induct) simp_all

lemma length_table_remove [simp]: "length (table_remove slots a) = length slots"
  by (simp add: table_remove_def)

lemma reach_table_remove: "reach (table_remove slots a) = reach slots - {a}"
  by (auto simp: reach_def table_remove_def image_iff split: if_splits)

lemma unshared_table_remove: "unshared slots \<Longrightarrow> unshared (table_remove slots a)"
  by (auto simp: unshared_def table_remove_def split: if_splits)

text \<open>What the operations do to ownership.\<close>

lemma owned_live: "owned slots ptrs live \<Longrightarrow> i < length ptrs \<Longrightarrow> ptrs ! i = Some a \<Longrightarrow> a \<in> live"
  by (auto simp: owned_def dest: reach_nth)

lemma owned_add:
  assumes "owned slots ptrs live" and "a \<notin> live" and "i < length ptrs" "ptrs ! i = None"
  shows "owned (table_add slots a) (ptrs[i := Some a]) (insert a live)"
  using table_add_slot [of slots a] assms
  by (auto simp: owned_def reach_update_Some unshared_update_Some)

lemma owned_remove:
  assumes "owned slots ptrs live" and "i < length ptrs" "ptrs ! i = Some a"
  shows "owned (table_remove slots a) (ptrs[i := None]) (live - {a})"
  using assms by (auto simp: owned_def reach_update_None unshared_update_None unshared_table_remove reach_table_remove)

lemma owned_leave:
  assumes "owned slots ptrs live" and "i < length ptrs" "ptrs ! i = Some a"
  shows "owned slots (ptrs[i := None]) (if table_has slots a then live else live - {a})"
proof -
  have "table_has slots a \<longleftrightarrow> a \<in> reach slots" by (simp add: table_has_def reach_def)
  with assms show ?thesis by (auto simp: owned_def reach_update_None unshared_update_None)
qed

lemma owned_slot:
  assumes "owned slots ptrs live" and "reach ptrs = {}" and "i < length slots"
  shows "owned (slots[i := None]) ptrs (live - set_option (slots ! i))" and "set_option (slots ! i) \<subseteq> live"
  using assms reach_nth [of i slots] by (auto simp: owned_def reach_update_None unshared_update_None)

end
