(* ===== verification/Bplist_Numbers.thy ===== *)
theory Bplist_Numbers
  imports Endian_Portable
begin

text \<open>
  The numbers of binary property lists (\<^verbatim>\<open>plist/bplist.c\<close>): big-endian integers of any width, and
  reals, which are written as \<^verbatim>\<open>float\<close> where that loses nothing.  A \<^verbatim>\<open>float\<close> or \<^verbatim>\<open>double\<close> is its bit
  pattern; memory is that of a little-endian machine, as on all targets of the app.
\<close>

unbundle bit_operations_syntax

section \<open>Integers\<close>

definition bswap16 :: "u16 \<Rightarrow> u16" where
  "bswap16 x = drop_bit 8 (x AND 0xFF00) OR push_bit 8 (x AND 0x00FF)"

definition bswap32 :: "u32 \<Rightarrow> u32" where
  "bswap32 x = drop_bit 24 (x AND 0xFF000000) OR drop_bit 8 (x AND 0x00FF0000) OR
     push_bit 8 (x AND 0x0000FF00) OR push_bit 24 (x AND 0x000000FF)"

definition bswap64 :: "u64 \<Rightarrow> u64" where
  "bswap64 x = drop_bit 56 (x AND 0xFF00000000000000) OR drop_bit 40 (x AND 0x00FF000000000000) OR
     drop_bit 24 (x AND 0x0000FF0000000000) OR drop_bit 8 (x AND 0x000000FF00000000) OR
     push_bit 8 (x AND 0x00000000FF000000) OR push_bit 24 (x AND 0x0000000000FF0000) OR
     push_bit 40 (x AND 0x000000000000FF00) OR push_bit 56 (x AND 0x00000000000000FF)"

text \<open>A load of n bytes of memory, and the bytes a number has in memory.\<close>

fun le_word :: "byte list \<Rightarrow> 'a::len word" where
  "le_word [] = 0"
| "le_word (b # bs) = ucast b OR push_bit 8 (le_word bs)"

definition load_le :: "byte list \<Rightarrow> nat \<Rightarrow> nat \<Rightarrow> 'a::len word option" where
  "load_le bin p n = map_option le_word (slice p n bin)"

definition memory_of :: "'a::len word \<Rightarrow> byte list" where
  "memory_of w = map (\<lambda>i. ucast (drop_bit (8 * i) w)) [0..<LENGTH('a) div 8]"

definition beNtoh :: "u64 \<Rightarrow> nat \<Rightarrow> u64" where
  "beNtoh x n = bswap64 (push_bit ((8 - n) * 8) x)"

text \<open>
  The number of n bytes at \<^verbatim>\<open>x\<close>.  Of more than eight bytes it takes the last eight; where n is neither
  1, 2, 4 nor 8 it loads eight bytes and shifts the first n of them out.
\<close>

definition UINT_TO_HOST :: "byte list \<Rightarrow> nat \<Rightarrow> nat \<Rightarrow> u64 option" where
  "UINT_TO_HOST bin x n =
     (let up = if n > 8 then x + (n - 8) else x
      in if n \<ge> 8 then map_option bswap64 (load_le bin up 8)
         else if n = 4 then map_option (\<lambda>w. ucast (bswap32 w)) (load_le bin up 4)
         else if n = 2 then map_option (\<lambda>w. ucast (bswap16 w)) (load_le bin up 2)
         else if n = 1 then map_option ucast (rd bin up)
         else if n = 0 then None
         else map_option (\<lambda>w. beNtoh w n) (load_le bin up 8))"

definition get_needed_bytes :: "u64 \<Rightarrow> nat" where
  "get_needed_bytes x =
     (if x < push_bit 8 1 then 1 else if x < push_bit 16 1 then 2
      else if x < push_bit 24 1 then 3 else if x < push_bit 32 1 then 4 else 8)"

text \<open>The writer takes the last bytes of the swapped number: \<^verbatim>\<open>(uint8_t*)&val + (8-size)\<close>.\<close>

definition tail_bytes :: "nat \<Rightarrow> u64 \<Rightarrow> byte list" where
  "tail_bytes n x = drop (8 - n) (memory_of (bswap64 x))"

section \<open>Reals\<close>

text \<open>The sign, the exponent and the fraction of a \<^verbatim>\<open>float\<close> and of a \<^verbatim>\<open>double\<close>.\<close>

definition float_parts :: "u32 \<Rightarrow> nat \<times> nat \<times> nat" where
  "float_parts f = (unat f div 2 ^ 31, unat f div 2 ^ 23 mod 2 ^ 8, unat f mod 2 ^ 23)"

definition float_of :: "nat \<times> nat \<times> nat \<Rightarrow> u32" where
  "float_of = (\<lambda>(s, e, m). of_nat (s * 2 ^ 31 + e * 2 ^ 23 + m))"

definition double_parts :: "u64 \<Rightarrow> nat \<times> nat \<times> nat" where
  "double_parts d = (unat d div 2 ^ 63, unat d div 2 ^ 52 mod 2 ^ 11, unat d mod 2 ^ 52)"

definition double_of :: "nat \<times> nat \<times> nat \<Rightarrow> u64" where
  "double_of = (\<lambda>(s, e, m). of_nat (s * 2 ^ 63 + e * 2 ^ 52 + m))"

fun top_bit :: "nat \<Rightarrow> nat" where
  "top_bit n = (if n < 2 then 0 else Suc (top_bit (n div 2)))"

declare top_bit.simps [simp del]

text \<open>
  The conversion of a \<^verbatim>\<open>float\<close> to a \<^verbatim>\<open>double\<close> is exact: a number below the normal range of \<^verbatim>\<open>float\<close> is
  normalised, a NaN becomes quiet.
\<close>

definition widen_parts :: "nat \<times> nat \<times> nat \<Rightarrow> nat \<times> nat \<times> nat" where
  "widen_parts = (\<lambda>(s, e, m).
     if e = 255 then (s, 2047, if m = 0 then 0 else (m * 2 ^ 29) OR 2 ^ 51)
     else if e = 0 then
       (if m = 0 then (s, 0, 0)
        else (s, 874 + top_bit m, (m - 2 ^ top_bit m) * 2 ^ (52 - top_bit m)))
     else (s, e + 896, m * 2 ^ 29))"

definition double_of_float :: "u32 \<Rightarrow> u64" where
  "double_of_float f = double_of (widen_parts (float_parts f))"

text \<open>
  \<^verbatim>\<open>x == (float) x\<close>: the \<^verbatim>\<open>float\<close> that has the value of the \<^verbatim>\<open>double\<close>, when there is one.  A NaN equals
  nothing.
\<close>

definition narrow_parts :: "nat \<times> nat \<times> nat \<Rightarrow> (nat \<times> nat \<times> nat) option" where
  "narrow_parts = (\<lambda>(s, e, m).
     if e = 2047 then (if m = 0 then Some (s, 255, 0) else None)
     else if e = 0 then (if m = 0 then Some (s, 0, 0) else None)
     else if 897 \<le> e \<and> e \<le> 1150 then
       (if m mod 2 ^ 29 = 0 then Some (s, e - 896, m div 2 ^ 29) else None)
     else if 874 \<le> e \<and> e \<le> 896 then
       (if (2 ^ 52 + m) mod 2 ^ (926 - e) = 0 then Some (s, 0, (2 ^ 52 + m) div 2 ^ (926 - e)) else None)
     else None)"

definition exact_float :: "u64 \<Rightarrow> u32 option" where
  "exact_float d = map_option float_of (narrow_parts (double_parts d))"

definition get_real_bytes :: "u64 \<Rightarrow> nat" where
  "get_real_bytes x = (if exact_float x \<noteq> None then 4 else 8)"

section \<open>What the integers mean\<close>

text \<open>Numbers are read and written most significant byte first.\<close>

abbreviation be_word :: "byte list \<Rightarrow> 'a::len word" where
  "be_word bs \<equiv> le_word (rev bs)"

lemma bit_le_word:
  "bit (le_word bs :: 'a::len word) n \<longleftrightarrow>
     n < LENGTH('a) \<and> n div 8 < length bs \<and> bit (bs ! (n div 8)) (n mod 8)"
proof (induction bs arbitrary: n)
  case (Cons b bs)
  show ?case
  proof (cases "n < 8")
    case True
    then show ?thesis by (auto simp: bit_simps)
  next
    case False
    then have "n div 8 = Suc ((n - 8) div 8)" "n mod 8 = (n - 8) mod 8"
      using le_div_geq [of 8 n] by (simp_all add: le_mod_geq)
    moreover have "\<not> bit b n" using False bit_imp_le_length [of b n] by auto
    ultimately show ?thesis
      using False by (auto simp: bit_simps Cons.IH)
  qed
qed simp

lemma bswap_masks:
  "(0xFF00 :: u16) = push_bit 8 (mask 8)" "(0x00FF :: u16) = mask 8"
  "(0xFF000000 :: u32) = push_bit 24 (mask 8)" "(0x00FF0000 :: u32) = push_bit 16 (mask 8)"
  "(0x0000FF00 :: u32) = push_bit 8 (mask 8)" "(0x000000FF :: u32) = mask 8"
  "(0xFF00000000000000 :: u64) = push_bit 56 (mask 8)" "(0x00FF000000000000 :: u64) = push_bit 48 (mask 8)"
  "(0x0000FF0000000000 :: u64) = push_bit 40 (mask 8)" "(0x000000FF00000000 :: u64) = push_bit 32 (mask 8)"
  "(0x00000000FF000000 :: u64) = push_bit 24 (mask 8)" "(0x0000000000FF0000 :: u64) = push_bit 16 (mask 8)"
  "(0x000000000000FF00 :: u64) = push_bit 8 (mask 8)" "(0x00000000000000FF :: u64) = mask 8"
  by (simp_all add: mask_eq_exp_minus_1 push_bit_eq_mult)

lemma bit_bswap64:
  assumes "a < 8" and "r < 8"
  shows "bit (bswap64 x) (8 * a + r) \<longleftrightarrow> bit x (8 * (7 - a) + r)"
proof -
  have "a = 0 \<or> a = 1 \<or> a = 2 \<or> a = 3 \<or> a = 4 \<or> a = 5 \<or> a = 6 \<or> a = 7" using assms(1) by linarith
  then show ?thesis
    using assms(2) by (elim disjE) (simp_all add: bswap64_def bswap_masks bit_simps)
qed

lemma bit_bswap32:
  assumes "a < 4" and "r < 8"
  shows "bit (bswap32 x) (8 * a + r) \<longleftrightarrow> bit x (8 * (3 - a) + r)"
proof -
  have "a = 0 \<or> a = 1 \<or> a = 2 \<or> a = 3" using assms(1) by linarith
  then show ?thesis
    using assms(2) by (elim disjE) (simp_all add: bswap32_def bswap_masks bit_simps)
qed

lemma bit_bswap16:
  assumes "a < 2" and "r < 8"
  shows "bit (bswap16 x) (8 * a + r) \<longleftrightarrow> bit x (8 * (1 - a) + r)"
proof -
  have "a = 0 \<or> a = 1" using assms(1) by linarith
  then show ?thesis
    using assms(2) by (elim disjE) (simp_all add: bswap16_def bswap_masks bit_simps)
qed

lemma bswap64_le_word:
  assumes "length bs = 8"
  shows "bswap64 (le_word bs) = be_word bs"
proof (rule bit_word_eqI)
  fix n
  assume "n < LENGTH(64)"
  then obtain a r where n: "n = 8 * a + r" "a < 8" "r < 8" using byte_cases [of n 8] by auto
  moreover have "8 * (7 - a) + r < 64" "7 - a < 8" using n by linarith+
  ultimately show "bit (bswap64 (le_word bs)) n \<longleftrightarrow> bit (be_word bs :: u64) n"
    using assms by (simp add: bit_bswap64 bit_le_word rev_nth)
qed

lemma bswap32_le_word:
  assumes "length bs = 4"
  shows "bswap32 (le_word bs) = be_word bs"
proof (rule bit_word_eqI)
  fix n
  assume "n < LENGTH(32)"
  then obtain a r where n: "n = 8 * a + r" "a < 4" "r < 8" using byte_cases [of n 4] by auto
  moreover have "8 * (3 - a) + r < 32" "3 - a < 4" using n by linarith+
  ultimately show "bit (bswap32 (le_word bs)) n \<longleftrightarrow> bit (be_word bs :: u32) n"
    using assms by (simp add: bit_bswap32 bit_le_word rev_nth)
qed

lemma bswap16_le_word:
  assumes "length bs = 2"
  shows "bswap16 (le_word bs) = be_word bs"
proof (rule bit_word_eqI)
  fix n
  assume "n < LENGTH(16)"
  then obtain a r where n: "n = 8 * a + r" "a < 2" "r < 8" using byte_cases [of n 2] by auto
  moreover have "8 * (Suc 0 - a) + r < 16" "Suc 0 - a < 2" using n by linarith+
  ultimately show "bit (bswap16 (le_word bs)) n \<longleftrightarrow> bit (be_word bs :: u16) n"
    using assms by (simp add: bit_bswap16 bit_le_word rev_nth)
qed

lemma ucast_le_word:
  assumes "8 * length bs \<le> LENGTH('a)" and "LENGTH('a) \<le> LENGTH('b)"
  shows "ucast (le_word bs :: 'a::len word) = (le_word bs :: 'b::len word)"
proof (rule bit_word_eqI)
  fix n
  assume "n < LENGTH('b)"
  moreover have "n < 8 * length bs" if "n div 8 < length bs" using that by (simp add: div_less_iff_less_mult mult.commute)
  ultimately show "bit (ucast (le_word bs :: 'a word) :: 'b word) n \<longleftrightarrow> bit (le_word bs :: 'b word) n"
    using assms by (auto simp: bit_simps bit_le_word)
qed

text \<open>An eight-byte load, shifted, is the number of the first n bytes.\<close>

lemma beNtoh_le_word:
  assumes len: "length bs = 8" and n: "0 < n" "n \<le> 8"
  shows "beNtoh (le_word bs) n = be_word (take n bs)"
proof (rule bit_word_eqI)
  fix m
  assume "m < LENGTH(64)"
  then obtain a r where m: "m = 8 * a + r" "a < 8" "r < 8" using byte_cases [of m 8] by auto
  have shift: "(8 * (7 - a) + r - (8 - n) * 8) div 8 = 7 - a - (8 - n)"
      "(8 * (7 - a) + r - (8 - n) * 8) mod 8 = r" if "8 - n \<le> 7 - a"
  proof -
    have "8 * (7 - a) + r - (8 - n) * 8 = 8 * (7 - a - (8 - n)) + r" using that by (simp add: algebra_simps)
    then show "(8 * (7 - a) + r - (8 - n) * 8) div 8 = 7 - a - (8 - n)"
      "(8 * (7 - a) + r - (8 - n) * 8) mod 8 = r" using m(3) by simp_all
  qed
  have bd: "8 * (7 - a) + r < 64" "8 * (7 - a) + r - (8 - n) * 8 < 64" "n - Suc a < 8" using m n by linarith+
  have lo: "(8 - n) * 8 \<le> 8 * (7 - a) + r \<longleftrightarrow> a < n" using m n by auto
  let ?k = "8 * (7 - a) + r"
  have "bit (beNtoh (le_word bs) n) m \<longleftrightarrow> bit (push_bit ((8 - n) * 8) (le_word bs :: u64)) ?k"
    using m by (simp only: beNtoh_def bit_bswap64)
  also have "\<dots> \<longleftrightarrow> a < n \<and> bit (bs ! (7 - a - (8 - n))) r"
    using shift lo bd len m n by (cases "a < n") (simp_all add: bit_push_bit_iff bit_le_word)
  also have "\<dots> \<longleftrightarrow> bit (be_word (take n bs) :: u64) m"
    using m n len bd(3) by (cases "a < n") (simp_all add: bit_le_word rev_nth)
  finally show "bit (beNtoh (le_word bs) n) m \<longleftrightarrow> bit (be_word (take n bs) :: u64) m" .
qed

lemma load_le_Some:
  "load_le bin p n = Some w \<longleftrightarrow> p + n \<le> length bin \<and> w = le_word (take n (drop p bin))"
  by (auto simp: load_le_def mem_simps)

lemma UINT_TO_HOST_value:
  assumes "0 < n" and "p + n \<le> length bin" and "n < 8 \<Longrightarrow> p + 8 \<le> length bin"
  shows "UINT_TO_HOST bin p n = Some (be_word (drop (n - 8) (take n (drop p bin))))"
proof -
  let ?t = "take n (drop p bin)"
  have len: "length ?t = n" using assms(2) by simp
  consider "8 \<le> n" | "n = 4" | "n = 2" | "n = 1" | "n < 8" "n \<noteq> 4" "n \<noteq> 2" "n \<noteq> 1" by linarith
  then show ?thesis
  proof cases
    case 1
    let ?up = "if n > 8 then p + (n - 8) else p"
    have "drop (n - 8) ?t = take 8 (drop ?up bin)"
    proof (cases "n = 8")
      case False
      then have "n - (n - 8) = 8" "n - 8 + p = p + (n - 8)" using 1 by simp_all
      then show ?thesis using False 1 by (simp only: drop_take drop_drop) simp
    qed simp
    moreover have "?up + 8 \<le> length bin" using 1 assms(2) by auto
    ultimately have "load_le bin ?up 8 = Some (le_word (drop (n - 8) ?t) :: u64)" by (simp only: load_le_Some)
    moreover have "length (drop (n - 8) ?t) = 8" using 1 len by simp
    ultimately have "map_option bswap64 (load_le bin ?up 8) = Some (be_word (drop (n - 8) ?t))"
      by (simp only: bswap64_le_word option.map)
    then show ?thesis unfolding UINT_TO_HOST_def Let_def by (simp only: 1 if_True)
  next
    case 2
    then show ?thesis using assms(2)
      by (simp add: UINT_TO_HOST_def load_le_def slice_def bswap32_le_word ucast_le_word)
  next
    case 3
    then show ?thesis using assms(2)
      by (simp add: UINT_TO_HOST_def load_le_def slice_def bswap16_le_word ucast_le_word)
  next
    case 4
    then have "drop p bin = bin ! p # drop (Suc p) bin" using assms(2) by (simp add: Cons_nth_drop_Suc)
    then show ?thesis using 4 assms(2) by (simp add: UINT_TO_HOST_def)
  next
    case 5
    have "length (take 8 (drop p bin)) = 8" using 5(1) assms(3) by simp
    then have "beNtoh (le_word (take 8 (drop p bin))) n = be_word (take n (take 8 (drop p bin)))"
      using assms(1) 5(1) by (intro beNtoh_le_word) simp_all
    then show ?thesis using 5 assms(1,3)
      by (simp add: UINT_TO_HOST_def load_le_def slice_def min_absorb1)
  qed
qed

lemma length_memory_of [simp]: "length (memory_of (w :: 'a::len word)) = LENGTH('a) div 8"
  by (simp add: memory_of_def)

lemma le_word_memory_of:
  assumes "LENGTH('a) = 8 * k"
  shows "le_word (memory_of (w :: 'a::len word)) = w"
proof (rule bit_word_eqI)
  fix n
  assume n: "n < LENGTH('a)"
  then have "n div 8 < LENGTH('a) div 8" using assms by (simp add: less_mult_imp_div_less)
  moreover have "8 * (n div 8) + n mod 8 = n" by simp
  ultimately show "bit (le_word (memory_of w) :: 'a word) n \<longleftrightarrow> bit w n"
    using n by (simp add: bit_le_word memory_of_def bit_simps)
qed

lemma memory_of_le_word:
  assumes "LENGTH('a) = 8 * length bs"
  shows "memory_of (le_word bs :: 'a::len word) = bs"
proof (rule nth_equalityI)
  show "length (memory_of (le_word bs :: 'a word)) = length bs" using assms by simp
  fix i
  assume "i < length (memory_of (le_word bs :: 'a word))"
  then have i: "i < length bs" using assms by simp
  show "memory_of (le_word bs :: 'a word) ! i = bs ! i"
  proof (rule bit_word_eqI)
    fix r
    assume "r < LENGTH(8)"
    then have "(8 * i + r) div 8 = i" "(8 * i + r) mod 8 = r" "8 * i + r < LENGTH('a)"
      using i assms by simp_all
    then show "bit (memory_of (le_word bs :: 'a word) ! i) r \<longleftrightarrow> bit (bs ! i) r"
      using i assms \<open>r < LENGTH(8)\<close> by (simp add: memory_of_def bit_simps bit_le_word)
  qed
qed

lemma bswap64_twice: "bswap64 (bswap64 x) = x"
proof (rule bit_word_eqI)
  fix n
  assume "n < LENGTH(64)"
  then obtain a r where "n = 8 * a + r" "a < 8" "r < 8" using byte_cases [of n 8] by auto
  then show "bit (bswap64 (bswap64 x)) n \<longleftrightarrow> bit x n" by (simp add: bit_bswap64)
qed

lemma memory_of_bswap64: "memory_of (bswap64 x) = rev (memory_of x)"
proof -
  have "bswap64 x = bswap64 (le_word (memory_of x))" by (simp add: le_word_memory_of [of 8])
  also have "\<dots> = be_word (memory_of x)" by (simp add: bswap64_le_word)
  finally show ?thesis by (simp add: memory_of_le_word)
qed

lemma tail_bytes_eq: "n \<le> 8 \<Longrightarrow> tail_bytes n x = rev (take n (memory_of x))"
  by (simp add: tail_bytes_def memory_of_bswap64 rev_take)

lemma length_tail_bytes [simp]: "length (tail_bytes n x) = min n 8"
  by (simp add: tail_bytes_def)

text \<open>The bytes of a number that fits in them give it back.\<close>

lemma be_word_tail_bytes:
  assumes "n \<le> 8" and "unat x < 2 ^ (8 * n)"
  shows "be_word (tail_bytes n x) = x"
proof (rule bit_word_eqI)
  fix m
  assume m: "m < LENGTH(64)"
  have "unat (take_bit (8 * n) x) = unat x"
    using assms(2) by (simp only: unsigned_take_bit_eq take_bit_nat_eq_self)
  then have "take_bit (8 * n) x = x" by (rule unsigned_word_eqI)
  then have top: "m < 8 * n" if "bit x m" using that by (metis bit_take_bit_iff)
  have "m div 8 < n \<longleftrightarrow> m < 8 * n" by (simp add: div_less_iff_less_mult mult.commute)
  moreover have "8 * (m div 8) + m mod 8 = m" by simp
  ultimately show "bit (be_word (tail_bytes n x) :: u64) m \<longleftrightarrow> bit x m"
    using assms(1) m top by (auto simp: tail_bytes_eq bit_le_word memory_of_def bit_simps)
qed

text \<open>A number written in n bytes is read back, whatever follows.\<close>

lemma UINT_TO_HOST_tail:
  assumes "drop p bin = tail_bytes n x @ rest" and "0 < n" and "n \<le> 8" and "unat x < 2 ^ (8 * n)"
    and "n < 8 \<Longrightarrow> p + 8 \<le> length bin"
  shows "UINT_TO_HOST bin p n = Some x"
proof -
  have "length (drop p bin) = length (tail_bytes n x @ rest)" using assms(1) by simp
  then have "p + n \<le> length bin" using assms(2,3) by simp
  then have "UINT_TO_HOST bin p n = Some (be_word (drop (n - 8) (take n (drop p bin))))"
    using assms(2,5) by (intro UINT_TO_HOST_value)
  also have "take n (drop p bin) = tail_bytes n x" using assms(1,3) by simp
  finally show ?thesis using assms(3,4) by (simp add: be_word_tail_bytes)
qed

lemma get_needed_bytes_range:
  "get_needed_bytes x \<in> {1, 2, 3, 4, 8}" "0 < get_needed_bytes x" "get_needed_bytes x \<le> 8"
  by (auto simp: get_needed_bytes_def)

lemma get_needed_bytes_enough: "unat x < 2 ^ (8 * get_needed_bytes x)"
proof -
  have "unat x < 2 ^ 64" using unat_less_exp [of x] by simp
  then show ?thesis
    by (auto simp: get_needed_bytes_def word_less_nat_alt)
qed

section \<open>What the reals mean\<close>

lemma top_bit_eq: "2 ^ h \<le> n \<Longrightarrow> n < 2 ^ Suc h \<Longrightarrow> top_bit n = h"
proof (induction h arbitrary: n)
  case 0
  then have "n < 2" by simp
  then show ?case by (simp add: top_bit.simps [of n])
next
  case (Suc h)
  have "(2 :: nat) ^ 1 \<le> 2 ^ Suc h" by (rule power_increasing) simp_all
  then have "2 \<le> n" using Suc.prems(1) by (simp only: power_one_right)
  then have "\<not> n < 2" by simp
  moreover have "2 ^ h \<le> n div 2" "n div 2 < 2 ^ Suc h" using Suc.prems by simp_all
  ultimately show ?case by (simp add: top_bit.simps [of n] Suc.IH)
qed

definition float_shape :: "nat \<times> nat \<times> nat \<Rightarrow> bool" where
  "float_shape = (\<lambda>(s, e, m). s < 2 \<and> e < 256 \<and> m < 2 ^ 23)"

definition double_shape :: "nat \<times> nat \<times> nat \<Rightarrow> bool" where
  "double_shape = (\<lambda>(s, e, m). s < 2 \<and> e < 2048 \<and> m < 2 ^ 52)"

lemma float_parts_of: "float_shape p \<Longrightarrow> float_parts (float_of p) = p"
proof -
  assume "float_shape p"
  then obtain s e m where p: "p = (s, e, m)" "s < 2" "e < 256" "m < 2 ^ 23"
    by (auto simp: float_shape_def split: prod.splits)
  then have "s * 2 ^ 31 + e * 2 ^ 23 + m < 2 ^ 32" by simp
  then have u: "unat (float_of p) = s * 2 ^ 31 + e * 2 ^ 23 + m"
    unfolding p float_of_def by (simp only: prod.case unat_of_nat_u32)
  have "(s * 2 ^ 31 + e * 2 ^ 23 + m) div 2 ^ 23 = s * 2 ^ 8 + e" using p(4) by simp
  moreover have "(s * 2 ^ 31 + e * 2 ^ 23 + m) div 2 ^ 31 = s" using p(3,4) by simp
  moreover have "(s * 2 ^ 31 + e * 2 ^ 23 + m) mod 2 ^ 23 = m"
  proof -
    have "(s * 2 ^ 31 + e * 2 ^ 23 + m) = (s * 2 ^ 8 + e) * 2 ^ 23 + m" by simp
    then show ?thesis using p(4) by (simp only: mod_mult_self3 mod_less)
  qed
  ultimately show "float_parts (float_of p) = p" unfolding float_parts_def u using p(3) by (simp add: p(1))
qed

lemma double_of_parts: "double_of (double_parts d) = d"
proof -
  define a where "a = unat d div 2 ^ 52"
  have "a div 2 ^ 11 = unat d div 2 ^ 63" by (simp add: a_def div_mult2_eq [symmetric])
  then have "unat d div 2 ^ 63 * 2 ^ 11 + a mod 2 ^ 11 = a" by (metis div_mult_mod_eq)
  moreover have "unat d div 2 ^ 63 * 2 ^ 63 = unat d div 2 ^ 63 * 2 ^ 11 * 2 ^ 52" by simp
  ultimately have "unat d div 2 ^ 63 * 2 ^ 63 + a mod 2 ^ 11 * 2 ^ 52 = a * 2 ^ 52"
    by (metis distrib_right)
  then have "unat d div 2 ^ 63 * 2 ^ 63 + unat d div 2 ^ 52 mod 2 ^ 11 * 2 ^ 52 + unat d mod 2 ^ 52 = unat d"
    by (simp only: a_def [symmetric] div_mult_mod_eq) (simp only: a_def div_mult_mod_eq)
  then show ?thesis unfolding double_of_def double_parts_def by (simp only: prod.case unsigned_of_nat of_nat_unat ucast_id)
qed

lemma double_parts_shape: "double_shape (double_parts d)"
  using unat_less_exp [of d] by (simp add: double_shape_def double_parts_def less_mult_imp_div_less)

lemma narrow_widen:
  assumes "narrow_parts p = Some q" and "double_shape p"
  shows "float_shape q \<and> widen_parts q = p"
proof -
  obtain s e m where p: "p = (s, e, m)" by (cases p)
  have sh: "s < 2" "e < 2048" "m < 2 ^ 52" using assms(2) by (auto simp: p double_shape_def)
  consider "e = 2047" | "e = 0" | "897 \<le> e" "e \<le> 1150" | "874 \<le> e" "e \<le> 896"
    using assms(1) by (fastforce simp: p narrow_parts_def split: if_splits)
  then show ?thesis
  proof cases
    case 1
    then show ?thesis using assms(1) sh by (auto simp: p narrow_parts_def widen_parts_def float_shape_def split: if_splits)
  next
    case 2
    then show ?thesis using assms(1) sh by (auto simp: p narrow_parts_def widen_parts_def float_shape_def split: if_splits)
  next
    case 3
    then have q: "q = (s, e - 896, m div 2 ^ 29)" "m mod 2 ^ 29 = 0"
      using assms(1) by (auto simp: p narrow_parts_def split: if_splits)
    then have "m div 2 ^ 29 * 2 ^ 29 = m" using div_mult_mod_eq [of m "2 ^ 29"] by (simp only: add_0_right)
    moreover have "m div 2 ^ 29 < 2 ^ 23" using sh(3) by (intro less_mult_imp_div_less) simp
    moreover have "e - 896 \<noteq> 255" "e - 896 \<noteq> 0" "e - 896 < 256" "e - 896 + 896 = e" using 3 by linarith+
    ultimately show ?thesis using sh unfolding p q by (simp add: widen_parts_def float_shape_def)
  next
    case 4
    define k where "k = 926 - e"
    define M where "M = 2 ^ 52 + m"
    have k: "30 \<le> k" "k \<le> 52" "e = 926 - k" using 4 by (simp_all add: k_def)
    have q: "q = (s, 0, M div 2 ^ k)" "M mod 2 ^ k = 0"
      using assms(1) 4 by (auto simp: p narrow_parts_def k_def M_def split: if_splits)
    have pow: "(2 :: nat) ^ 52 = 2 ^ (52 - k) * 2 ^ k" "(2 :: nat) ^ 53 = 2 ^ (53 - k) * 2 ^ k"
      using k by (simp_all add: power_add [symmetric])
    have M: "M div 2 ^ k * 2 ^ k = M" using q(2) by (simp add: mod_eq_0_iff_dvd)
    have lo: "2 ^ (52 - k) \<le> M div 2 ^ k"
    proof (rule ccontr)
      assume "\<not> ?thesis"
      then have "M div 2 ^ k < 2 ^ (52 - k)" by (simp only: not_le)
      then have "M div 2 ^ k * 2 ^ k < 2 ^ (52 - k) * 2 ^ k" by (rule mult_strict_right_mono) simp
      then have "M < 2 ^ 52" by (simp only: M pow(1))
      then show False by (simp add: M_def)
    qed
    have "M < 2 ^ 53" using sh(3) by (simp add: M_def)
    then have hi: "M div 2 ^ k < 2 ^ (53 - k)" using pow(2) by (intro less_mult_imp_div_less) simp
    have "53 - k = Suc (52 - k)" using k by simp
    then have t: "top_bit (M div 2 ^ k) = 52 - k" using lo hi by (intro top_bit_eq) simp_all
    have "(M div 2 ^ k - 2 ^ (52 - k)) * 2 ^ k = M - 2 ^ 52"
      using M pow(1) by (simp add: diff_mult_distrib)
    moreover have "(2 :: nat) ^ (53 - k) \<le> 2 ^ 23" using k by (intro power_increasing) simp_all
    moreover have "0 < M div 2 ^ k" using lo by (rule less_le_trans [rotated]) simp
    ultimately show ?thesis using k t hi sh unfolding p q
      by (simp add: widen_parts_def float_shape_def M_def)
  qed
qed

text \<open>A real written as a \<^verbatim>\<open>float\<close> is read back as the same \<^verbatim>\<open>double\<close>.\<close>

lemma exact_float_widens:
  assumes "exact_float d = Some f"
  shows "double_of_float f = d"
proof -
  obtain q where q: "narrow_parts (double_parts d) = Some q" "f = float_of q"
    using assms by (auto simp: exact_float_def)
  have "float_shape q" "widen_parts q = double_parts d"
    using narrow_widen [OF q(1) double_parts_shape] by simp_all
  then show ?thesis by (simp add: double_of_float_def q(2) float_parts_of double_of_parts)
qed

end
