(* ===== verification/Bplist_Strings.thy ===== *)
theory Bplist_Strings
  imports Bplist_Numbers
begin

text \<open>
  The strings of binary property lists (\<^verbatim>\<open>plist/bplist.c\<close>): strings that are not ASCII are stored in
  UTF-16, big-endian, and kept in memory in UTF-8.  The arithmetic of the C code is that of
  \<^verbatim>\<open>int\<close>, here of 32-bit words.
\<close>

unbundle bit_operations_syntax

definition is_ascii_string :: "byte list \<Rightarrow> bool" where
  "is_ascii_string s = list_all (\<lambda>c. c < 0x80) s"

text \<open>
  \<^verbatim>\<open>plist_utf16be_to_utf8\<close>.  The first argument of the loop is \<^verbatim>\<open>w\<close> while \<^verbatim>\<open>read_lead_surrogate\<close> is set.  A
  second lead surrogate drops both, a trail surrogate on its own is skipped, and a character
  that is no surrogate leaves the pending one as it is.
\<close>

definition out_byte :: "u32 \<Rightarrow> byte" where
  "out_byte x = ucast x"

fun utf16_loop :: "u32 option \<Rightarrow> u16 list \<Rightarrow> byte list" where
  "utf16_loop lead [] = []"
| "utf16_loop lead (u # us) =
     (let wc = ucast u :: u32
      in if 0xD800 \<le> wc \<and> wc \<le> 0xDBFF then
           (case lead of
              None \<Rightarrow> utf16_loop (Some (0x010000 + push_bit 10 (wc AND 0x3FF))) us
            | Some w \<Rightarrow> utf16_loop None us)
         else if 0xDC00 \<le> wc \<and> wc \<le> 0xDFFF then
           (case lead of
              Some w \<Rightarrow>
                (let w = w OR (wc AND 0x3FF)
                 in [out_byte (0xF0 + (drop_bit 18 w AND 0x7)), out_byte (0x80 + (drop_bit 12 w AND 0x3F)),
                     out_byte (0x80 + (drop_bit 6 w AND 0x3F)), out_byte (0x80 + (w AND 0x3F))] @ utf16_loop None us)
            | None \<Rightarrow> utf16_loop None us)
         else if wc \<ge> 0x800 then
           [out_byte (0xE0 + (drop_bit 12 wc AND 0xF)), out_byte (0x80 + (drop_bit 6 wc AND 0x3F)),
            out_byte (0x80 + (wc AND 0x3F))] @ utf16_loop lead us
         else if wc \<ge> 0x80 then
           [out_byte (0xC0 + (drop_bit 6 wc AND 0x1F)), out_byte (0x80 + (wc AND 0x3F))] @ utf16_loop lead us
         else [out_byte (wc AND 0x7F)] @ utf16_loop lead us)"

text \<open>Without any unit it returns \<^verbatim>\<open>NULL\<close>, the inner \<^verbatim>\<open>None\<close>.\<close>

definition plist_utf16be_to_utf8 :: "byte list \<Rightarrow> nat \<Rightarrow> nat \<Rightarrow> byte list option option" where
  "plist_utf16be_to_utf8 bin unistr len =
     (if len = 0 then Some None
      else do {
        units \<leftarrow> those (map (\<lambda>i. load_le bin (unistr + 2 * i) 2) [0..<len]);
        Some (Some (utf16_loop None (map bswap16 units)))
      })"

text \<open>
  \<^verbatim>\<open>plist_utf8_to_utf16be\<close>: the units as they are in memory.  It stops at an invalid sequence; a byte
  past the end counts as 0.
\<close>

definition nth_or_0 :: "byte list \<Rightarrow> nat \<Rightarrow> u32" where
  "nth_or_0 s i = (if i < length s then ucast (s ! i) else 0)"

definition out_unit :: "u32 \<Rightarrow> u16" where
  "out_unit x = bswap16 (ucast x)"

function plist_utf8_to_utf16be :: "byte list \<Rightarrow> u16 list" where
  "plist_utf8_to_utf16be s =
     (if s = [] then []
      else
        let c0 = nth_or_0 s 0; c1 = nth_or_0 s 1; c2 = nth_or_0 s 2; c3 = nth_or_0 s 3
        in if c0 \<ge> 0xF0 \<and> length s > 3 \<and> c1 \<ge> 0x80 \<and> c2 \<ge> 0x80 \<and> c3 \<ge> 0x80 then
             (let w = ((push_bit 18 (c0 AND 7) + push_bit 12 (c1 AND 0x3F) + push_bit 6 (c2 AND 0x3F) +
                         (c3 AND 0x3F)) AND 0x1FFFFF) - 0x010000
              in [out_unit (0xD800 + drop_bit 10 w), out_unit (0xDC00 + (w AND 0x3FF))]
                 @ plist_utf8_to_utf16be (drop 4 s))
           else if c0 \<ge> 0xE0 \<and> length s > 2 \<and> c1 \<ge> 0x80 \<and> c2 \<ge> 0x80 then
             [out_unit (((c2 AND 0x3F) + push_bit 6 (c1 AND 3)) + push_bit 8 (drop_bit 2 c1 AND 15) +
                push_bit 12 (c0 AND 15))] @ plist_utf8_to_utf16be (drop 3 s)
           else if c0 \<ge> 0xC0 \<and> length s > 1 \<and> c1 \<ge> 0x80 then
             [out_unit (((c1 AND 0x3F) + push_bit 6 (c0 AND 3)) + push_bit 8 (drop_bit 2 c0 AND 7))]
             @ plist_utf8_to_utf16be (drop 2 s)
           else if c0 < 0x80 then [out_unit c0] @ plist_utf8_to_utf16be (drop 1 s)
           else [])"
  by pat_completeness auto

termination
  by (relation "measure length") auto

declare plist_utf8_to_utf16be.simps [simp del]

section \<open>Valid text survives\<close>

text \<open>UTF-8 as the standard defines it, for a code point that is not a surrogate.\<close>

definition scalar_value :: "nat \<Rightarrow> bool" where
  "scalar_value n \<longleftrightarrow> n < 0xD800 \<or> 0xE000 \<le> n \<and> n < 0x110000"

definition utf8_encode :: "nat \<Rightarrow> byte list" where
  "utf8_encode n =
     (if n < 0x80 then [of_nat n]
      else if n < 0x800 then [of_nat (0xC0 + n div 64), of_nat (0x80 + n mod 64)]
      else if n < 0x10000 then
        [of_nat (0xE0 + n div 4096), of_nat (0x80 + n div 64 mod 64), of_nat (0x80 + n mod 64)]
      else
        [of_nat (0xF0 + n div 262144), of_nat (0x80 + n div 4096 mod 64), of_nat (0x80 + n div 64 mod 64),
         of_nat (0x80 + n mod 64)])"

definition utf8_string :: "nat list \<Rightarrow> byte list" where
  "utf8_string cps = concat (map utf8_encode cps)"

text \<open>The bit operations on small numbers, as arithmetic.\<close>

lemma mask_numerals:
  "(0x3FF :: u32) = mask 10" "(0x7 :: u32) = mask 3" "(0x3F :: u32) = mask 6" "(0xF :: u32) = mask 4"
  "(0x1F :: u32) = mask 5" "(0x7F :: u32) = mask 7" "(3 :: u32) = mask 2" "(0x1FFFFF :: u32) = mask 21"
  by (simp_all add: mask_eq_exp_minus_1)

lemma and_mask_of_nat: "(of_nat n :: u32) AND mask k = of_nat (n mod 2 ^ k)"
  by (simp only: take_bit_eq_mask [symmetric] take_bit_of_nat take_bit_eq_mod [symmetric])

lemma drop_bit_of_nat_u32: "n < 2 ^ 32 \<Longrightarrow> drop_bit k (of_nat n :: u32) = of_nat (n div 2 ^ k)"
proof -
  assume n: "n < 2 ^ 32"
  have "unat (drop_bit k (of_nat n :: u32)) = n div 2 ^ k"
    using n by (simp add: unat_drop_bit_eq drop_bit_eq_div [where 'a = nat] unat_of_nat_u32 del: drop_bit_eq_div)
  moreover have "n div 2 ^ k < 2 ^ 32" using n div_le_dividend [of n "2 ^ k"] by linarith
  then have "unat (of_nat (n div 2 ^ k) :: u32) = n div 2 ^ k" by (rule unat_of_nat_u32)
  ultimately show ?thesis by (simp only: word_unat_eq_iff)
qed

lemma push_bit_of_nat_u32: "push_bit k (of_nat n :: u32) = of_nat (n * 2 ^ k)"
  by (simp add: push_bit_eq_mult)

lemma le_of_nat_u32: "n < 2 ^ 32 \<Longrightarrow> m < 2 ^ 32 \<Longrightarrow> (of_nat m :: u32) \<le> of_nat n \<longleftrightarrow> m \<le> n"
  by (simp only: word_le_nat_alt unat_of_nat_u32)

lemma ucast_byte_of_nat: "n < 256 \<Longrightarrow> (ucast (of_nat n :: byte) :: u32) = of_nat n"
  by (simp add: word_unat_eq_iff unsigned_ucast_eq take_bit_nat_eq_self unat_of_nat)

lemma out_byte_of_nat: "n < 2 ^ 32 \<Longrightarrow> out_byte (of_nat n) = of_nat n"
  by (simp add: out_byte_def word_unat_eq_iff unsigned_ucast_eq unat_of_nat take_bit_nat_eq_self take_bit_eq_mod)

lemma u32_numerals: "(numeral k :: u32) = of_nat (numeral k)"
  by simp

text \<open>The code points in UTF-16.\<close>

definition utf16_encode :: "nat \<Rightarrow> u16 list" where
  "utf16_encode n =
     (if n < 0x10000 then [of_nat n]
      else [of_nat (0xD800 + (n - 0x10000) div 1024), of_nat (0xDC00 + (n - 0x10000) mod 1024)])"

lemma ucast_u16_of_nat: "n < 65536 \<Longrightarrow> (ucast (of_nat n :: u16) :: u32) = of_nat n"
  by (simp add: word_unat_eq_iff unsigned_ucast_eq take_bit_nat_eq_self unat_of_nat)

lemma nat_le_u32 [simp]:
  "n < 2 ^ 32 \<Longrightarrow> numeral k \<le> (of_nat n :: u32) \<longleftrightarrow> unat (numeral k :: u32) \<le> n"
  "n < 2 ^ 32 \<Longrightarrow> (of_nat n :: u32) \<le> numeral k \<longleftrightarrow> n \<le> unat (numeral k :: u32)"
  by (simp_all only: word_le_nat_alt unat_of_nat_u32)

lemma out_byte_add: "out_byte (x + y) = out_byte x + out_byte y"
proof -
  have "take_bit 8 (a + b) = take_bit 8 (take_bit 32 a + take_bit 32 b)" for a b :: int
    using take_bit_add [of 8 a b] take_bit_add [of 8 "take_bit 32 a" "take_bit 32 b"] by simp
  then show ?thesis unfolding out_byte_def by transfer simp
qed

lemma out_byte_heads:
  "out_byte 0xF0 = 0xF0" "out_byte 0xE0 = 0xE0" "out_byte 0xC0 = 0xC0" "out_byte 0x80 = 0x80"
  by (simp_all add: out_byte_def)

lemma out_byte_field:
  assumes "n < 2 ^ 32"
  shows "out_byte (drop_bit a (of_nat n) AND mask b) = of_nat (n div 2 ^ a mod 2 ^ b)"
    and "out_byte (of_nat n AND mask b) = of_nat (n mod 2 ^ b)"
proof -
  have "n div 2 ^ a < 2 ^ 32" using assms div_le_dividend [of n "2 ^ a"] by linarith
  then have "n div 2 ^ a mod 2 ^ b < 2 ^ 32" using mod_less_eq_dividend [of "n div 2 ^ a" "2 ^ b"] by linarith
  then show "out_byte (drop_bit a (of_nat n) AND mask b) = of_nat (n div 2 ^ a mod 2 ^ b)"
    using assms by (simp only: drop_bit_of_nat_u32 and_mask_of_nat out_byte_of_nat)
  have "n mod 2 ^ b < 2 ^ 32" using assms mod_less_eq_dividend [of n "2 ^ b"] by linarith
  then show "out_byte (of_nat n AND mask b) = of_nat (n mod 2 ^ b)"
    using assms by (simp only: and_mask_of_nat out_byte_of_nat)
qed

lemmas out_fields = out_byte_add out_byte_heads out_byte_field

lemma utf16_one:
  assumes "n < 0x10000" and "scalar_value n"
  shows "utf16_loop lead (of_nat n # us) = utf8_encode n @ utf16_loop lead us"
proof -
  have u: "(ucast (of_nat n :: u16) :: u32) = of_nat n" using assms(1) by (simp add: ucast_u16_of_nat)
  have n: "n < 2 ^ 32" using assms(1) by simp
  have e: "n div 4096 mod 16 = n div 4096" using assms(1) by simp
  consider "n < 0x80" | "0x80 \<le> n" "n < 0x800" | "0x800 \<le> n" "n < 0xD800" | "0xE000 \<le> n"
    using assms(2) by (force simp: scalar_value_def)
  then show ?thesis
    using n e assms(1) unfolding utf16_loop.simps Let_def u mask_numerals
    by cases (simp_all add: out_fields utf8_encode_def)
qed

lemma utf16_two:
  assumes "0x10000 \<le> n" and "n < 0x110000"
  shows "utf16_loop None (utf16_encode n @ us) = utf8_encode n @ utf16_loop None us"
proof -
  define v where "v = n - 0x10000"
  have v: "n = v + 65536" "v < 0x100000" using assms by (simp_all add: v_def)
  define h l where "h = v div 1024" and "l = v mod 1024"
  have hl: "h < 1024" "l < 1024" "v = h * 1024 + l" using v(2) by (simp_all add: h_def l_def)
  have hi: "(ucast (of_nat (0xD800 + h) :: u16) :: u32) = of_nat (0xD800 + h)"
    and lo: "(ucast (of_nat (0xDC00 + l) :: u16) :: u32) = of_nat (0xDC00 + l)"
    using hl by (simp_all only: ucast_u16_of_nat)
  have "(54 * 1024 + h) mod 1024 = h" "(55 * 1024 + l) mod 1024 = l"
    using hl(1,2) by (simp_all only: mod_mult_self3 mod_less)
  then have m: "(0xD800 + h) mod 2 ^ 10 = h" "(0xDC00 + l) mod 2 ^ 10 = l" by simp_all
  define w where "w = (0x010000 :: u32) + push_bit 10 (of_nat (0xD800 + h) AND mask 10)"
  have lead: "of_nat (0xD800 + h) AND mask 10 = (of_nat h :: u32)"
    and trail: "of_nat (0xDC00 + l) AND mask 10 = (of_nat l :: u32)"
    by (simp_all only: and_mask_of_nat m)
  have "w = push_bit 10 (of_nat (64 + h))"
    unfolding w_def lead push_bit_of_nat_u32 u32_numerals of_nat_add [symmetric] by simp
  moreover have "unat (of_nat l :: u32) < 2 ^ 10" using hl(2) by (simp add: unat_of_nat_u32)
  ultimately have "w OR of_nat l = push_bit 10 (of_nat (64 + h)) + of_nat l"
    by (simp only: or_push_bit_low)
  also have "\<dots> = of_nat n"
    unfolding push_bit_of_nat_u32 of_nat_add [symmetric] v(1) hl(3) by (simp add: algebra_simps)
  finally have w: "w OR (of_nat (0xDC00 + l) AND mask 10) = of_nat n" by (simp only: trail)
  have n: "n < 2 ^ 32" "n div 262144 mod 8 = n div 262144" using assms(2) by simp_all
  have step1: "utf16_loop None (of_nat (0xD800 + h) # xs) = utf16_loop (Some w) xs" for xs
    using hl(1) unfolding utf16_loop.simps Let_def hi mask_numerals by (simp add: w_def del: of_nat_add)
  have step2: "utf16_loop (Some w) (of_nat (0xDC00 + l) # us) = utf8_encode n @ utf16_loop None us"
    using hl(2) n assms unfolding utf16_loop.simps Let_def lo mask_numerals option.case w
    by (simp add: out_fields utf8_encode_def del: of_nat_add) simp
  show ?thesis
    using assms(1) by (simp add: utf16_encode_def v_def [symmetric] h_def [symmetric] l_def [symmetric] step1 step2 del: of_nat_add utf16_loop.simps)
qed

lemma utf16_loop_encode:
  "list_all scalar_value cps \<Longrightarrow> utf16_loop None (concat (map utf16_encode cps)) = utf8_string cps"
proof (induction cps)
  case (Cons n cps)
  then show ?case
    using utf16_one [of n None] utf16_two [of n]
    by (cases "n < 0x10000") (auto simp: utf8_string_def utf16_encode_def scalar_value_def)
qed (simp add: utf8_string_def)

lemma nth_or_0_Cons [simp]:
  "nth_or_0 (c # s) 0 = ucast c" "0 < i \<Longrightarrow> nth_or_0 (c # s) i = nth_or_0 s (i - 1)"
  by (auto simp: nth_or_0_def nth_Cons')

text \<open>The bits of the bytes, as arithmetic: a lead byte \<^verbatim>\<open>base + a\<close> and a continuation \<^verbatim>\<open>0x80 + b\<close>.\<close>

lemma tail_byte:
  assumes "b < 64"
  shows "ucast (of_nat (0x80 + b) :: byte) AND mask 6 = (of_nat b :: u32)"
    and "ucast (of_nat (0x80 + b) :: byte) AND mask 2 = (of_nat (b mod 4) :: u32)"
    and "drop_bit 2 (ucast (of_nat (0x80 + b) :: byte)) AND mask 4 = (of_nat (b div 4) :: u32)"
    and "(0x80 :: u32) \<le> ucast (of_nat (0x80 + b) :: byte)"
proof -
  have u: "ucast (of_nat (0x80 + b) :: byte) = (of_nat (0x80 + b) :: u32)"
    using assms by (intro ucast_byte_of_nat) simp
  have "(2 * 64 + b) mod 64 = b" using assms by (simp only: mod_mult_self3 mod_less)
  then show "ucast (of_nat (0x80 + b) :: byte) AND mask 6 = (of_nat b :: u32)"
    unfolding u and_mask_of_nat by simp
  have "(32 * 4 + b) mod 4 = b mod 4" by (simp only: mod_mult_self3)
  then show "ucast (of_nat (0x80 + b) :: byte) AND mask 2 = (of_nat (b mod 4) :: u32)"
    unfolding u and_mask_of_nat by simp
  have "(32 * 4 + b) div 4 = 32 + b div 4" by (simp only: div_mult_self3)
  moreover have "(2 * 16 + b div 4) mod 16 = b div 4" using assms by (simp only: mod_mult_self3 mod_less)
  ultimately have "(0x80 + b) div 2 ^ 2 mod 2 ^ 4 = b div 4" by simp
  moreover have "0x80 + b < 2 ^ 32" using assms by simp
  ultimately show "drop_bit 2 (ucast (of_nat (0x80 + b) :: byte)) AND mask 4 = (of_nat (b div 4) :: u32)"
    unfolding u by (simp only: drop_bit_of_nat_u32 and_mask_of_nat)
  show "(0x80 :: u32) \<le> ucast (of_nat (0x80 + b) :: byte)"
    unfolding u u32_numerals using assms by (intro iffD2 [OF le_of_nat_u32]) simp_all
qed

lemma utf8_one:
  assumes "n < 0x80"
  shows "plist_utf8_to_utf16be (utf8_encode n @ rest) = out_unit (of_nat n) # plist_utf8_to_utf16be rest"
proof -
  have u: "ucast (of_nat n :: byte) = (of_nat n :: u32)" using assms by (intro ucast_byte_of_nat) simp
  have "\<not> (numeral k :: u32) \<le> of_nat n" if "0x80 \<le> unat (numeral k :: u32)" for k
    using that assms by simp
  moreover have "(of_nat n :: u32) < 0x80" using assms by (simp add: word_less_nat_alt unat_of_nat_u32)
  ultimately show ?thesis
    using assms by (subst plist_utf8_to_utf16be.simps) (simp add: utf8_encode_def u)
qed

lemma utf8_two:
  assumes "0x80 \<le> n" and "n < 0x800"
  shows "plist_utf8_to_utf16be (utf8_encode n @ rest) = out_unit (of_nat n) # plist_utf8_to_utf16be rest"
proof -
  define a b where "a = n div 64" and "b = n mod 64"
  have ab: "a < 32" "b < 64" "n = a * 64 + b" using assms by (simp_all add: a_def b_def)
  have u: "ucast (of_nat (0xC0 + a) :: byte) = (of_nat (0xC0 + a) :: u32)"
    using ab by (intro ucast_byte_of_nat) simp
  have "\<not> (0xF0 :: u32) \<le> of_nat (0xC0 + a)" "\<not> (0xE0 :: u32) \<le> of_nat (0xC0 + a)"
     "(0xC0 :: u32) \<le> of_nat (0xC0 + a)"
    using ab by (simp_all del: of_nat_add)
  moreover have "of_nat (0xC0 + a) AND mask 2 = (of_nat (a mod 4) :: u32)"
    unfolding and_mask_of_nat using mod_mult_self3 [of 48 4 a] by simp
  moreover have "drop_bit 2 (of_nat (0xC0 + a)) AND mask 3 = (of_nat (a div 4) :: u32)"
  proof -
    have "(48 * 4 + a) div 4 = 48 + a div 4" by (simp only: div_mult_self3)
    moreover have "(6 * 8 + a div 4) mod 8 = a div 4" using ab by (simp only: mod_mult_self3 mod_less)
    ultimately have "(0xC0 + a) div 2 ^ 2 mod 2 ^ 3 = a div 4" by simp
    moreover have "0xC0 + a < 2 ^ 32" using ab by simp
    ultimately show ?thesis by (simp only: drop_bit_of_nat_u32 and_mask_of_nat)
  qed
  moreover have "(of_nat b + push_bit 6 (of_nat (a mod 4))) + push_bit 8 (of_nat (a div 4)) = (of_nat n :: u32)"
  proof -
    have "a mod 4 * 64 + a div 4 * 256 = a * 64" using div_mult_mod_eq [of a 4] by linarith
    then have "b + a mod 4 * 2 ^ 6 + a div 4 * 2 ^ 8 = n" using ab(3) by simp
    then show ?thesis unfolding push_bit_of_nat_u32 of_nat_add [symmetric] by (simp only:)
  qed
  ultimately show ?thesis
    using assms tail_byte [OF ab(2)]
    by (subst plist_utf8_to_utf16be.simps)
      (simp add: utf8_encode_def a_def [symmetric] b_def [symmetric] u mask_numerals del: of_nat_add)
qed

lemma utf8_three:
  assumes "0x800 \<le> n" and "n < 0x10000"
  shows "plist_utf8_to_utf16be (utf8_encode n @ rest) = out_unit (of_nat n) # plist_utf8_to_utf16be rest"
proof -
  define a b c where "a = n div 4096" and "b = n div 64 mod 64" and "c = n mod 64"
  have abc: "a < 16" "b < 64" "c < 64" using assms by (simp_all add: a_def b_def c_def)
  have "n div 64 div 64 = a" by (simp add: a_def div_mult2_eq [symmetric])
  then have "n div 64 = a * 64 + b" unfolding b_def using div_mult_mod_eq [of "n div 64" 64] by simp
  then have n: "n = a * 4096 + b * 64 + c" unfolding c_def using div_mult_mod_eq [of n 64] by simp
  have u: "ucast (of_nat (0xE0 + a) :: byte) = (of_nat (0xE0 + a) :: u32)"
    using abc by (intro ucast_byte_of_nat) simp
  have "\<not> (0xF0 :: u32) \<le> of_nat (0xE0 + a)" "(0xE0 :: u32) \<le> of_nat (0xE0 + a)"
    using abc by (simp_all del: of_nat_add)
  moreover have "of_nat (0xE0 + a) AND mask 4 = (of_nat a :: u32)"
  proof -
    have "(14 * 16 + a) mod 16 = a" using abc by (simp only: mod_mult_self3 mod_less)
    then show ?thesis unfolding and_mask_of_nat by simp
  qed
  moreover have "(of_nat c + push_bit 6 (of_nat (b mod 4))) + push_bit 8 (of_nat (b div 4)) + push_bit 12 (of_nat a)
      = (of_nat n :: u32)"
  proof -
    have "b mod 4 * 64 + b div 4 * 256 = b * 64" using div_mult_mod_eq [of b 4] by linarith
    then have "c + b mod 4 * 2 ^ 6 + b div 4 * 2 ^ 8 + a * 2 ^ 12 = n" using n by simp
    then show ?thesis unfolding push_bit_of_nat_u32 of_nat_add [symmetric] by (simp only:)
  qed
  ultimately show ?thesis
    using assms tail_byte [OF abc(2)] tail_byte [OF abc(3)]
    by (subst plist_utf8_to_utf16be.simps)
      (simp add: utf8_encode_def a_def [symmetric] b_def [symmetric] c_def [symmetric] u mask_numerals del: of_nat_add)
qed

lemma utf8_four:
  assumes "0x10000 \<le> n" and "n < 0x110000"
  shows "plist_utf8_to_utf16be (utf8_encode n @ rest) =
    [out_unit (of_nat (0xD800 + (n - 0x10000) div 1024)), out_unit (of_nat (0xDC00 + (n - 0x10000) mod 1024))]
    @ plist_utf8_to_utf16be rest"
proof -
  define a b c d where "a = n div 262144" and "b = n div 4096 mod 64" and "c = n div 64 mod 64" and "d = n mod 64"
  have abcd: "a < 5" "b < 64" "c < 64" "d < 64" using assms by (simp_all add: a_def b_def c_def d_def)
  have "n div 4096 div 64 = a" "n div 64 div 64 = n div 4096" by (simp_all add: a_def div_mult2_eq [symmetric])
  then have "n div 4096 = a * 64 + b" "n div 64 = n div 4096 * 64 + c" unfolding b_def c_def
    using div_mult_mod_eq [of "n div 4096" 64] div_mult_mod_eq [of "n div 64" 64] by simp_all
  then have n: "n = a * 262144 + b * 4096 + c * 64 + d" unfolding d_def using div_mult_mod_eq [of n 64] by simp
  have u: "ucast (of_nat (0xF0 + a) :: byte) = (of_nat (0xF0 + a) :: u32)"
    using abcd by (intro ucast_byte_of_nat) simp
  define w where "w = n - 0x10000"
  have w: "w < 2 ^ 32" "n < 2 ^ 32" "n < 2 ^ 21" using assms by (simp_all add: w_def)
  have "(0xF0 :: u32) \<le> of_nat (0xF0 + a)" using abcd by (simp del: of_nat_add)
  moreover have "of_nat (0xF0 + a) AND mask 3 = (of_nat a :: u32)"
  proof -
    have "(30 * 8 + a) mod 8 = a" using abcd by (simp only: mod_mult_self3 mod_less)
    then show ?thesis unfolding and_mask_of_nat by simp
  qed
  moreover have "((push_bit 18 (of_nat a) + push_bit 12 (of_nat b) + push_bit 6 (of_nat c) + of_nat d) AND mask 21)
      - 0x010000 = (of_nat w :: u32)"
  proof -
    have "a * 2 ^ 18 + b * 2 ^ 12 + c * 2 ^ 6 + d = n" using n by simp
    moreover have "n mod 2 ^ 21 = n" using w(3) by (rule mod_less)
    moreover have "(of_nat n :: u32) = of_nat w + 0x010000" using assms unfolding w_def by simp
    ultimately show ?thesis
      unfolding push_bit_of_nat_u32 of_nat_add [symmetric] and_mask_of_nat by (simp only: add_diff_cancel_right')
  qed
  moreover have "(0xD800 :: u32) + drop_bit 10 (of_nat w) = of_nat (0xD800 + w div 1024)"
    "(0xDC00 :: u32) + (of_nat w AND mask 10) = of_nat (0xDC00 + w mod 1024)"
    using w(1) by (simp_all add: drop_bit_of_nat_u32 and_mask_of_nat)
  ultimately show ?thesis
    using assms tail_byte [OF abcd(2)] tail_byte [OF abcd(3)] tail_byte [OF abcd(4)]
    by (subst plist_utf8_to_utf16be.simps)
      (simp add: utf8_encode_def a_def [symmetric] b_def [symmetric] c_def [symmetric] d_def [symmetric]
        w_def [symmetric] u mask_numerals Let_def del: of_nat_add)
qed

lemma out_unit_of_nat: "n < 65536 \<Longrightarrow> out_unit (of_nat n) = bswap16 (of_nat n)"
proof -
  assume "n < 65536"
  then have "ucast (of_nat n :: u32) = (of_nat n :: u16)"
    by (simp add: word_unat_eq_iff unsigned_ucast_eq unat_of_nat take_bit_nat_eq_self)
  then show ?thesis by (simp only: out_unit_def)
qed

lemma utf8_char:
  assumes "scalar_value n"
  shows "plist_utf8_to_utf16be (utf8_encode n @ rest) = map bswap16 (utf16_encode n) @ plist_utf8_to_utf16be rest"
proof -
  consider "n < 0x80" | "0x80 \<le> n" "n < 0x800" | "0x800 \<le> n" "n < 0x10000" | "0x10000 \<le> n" "n < 0x110000"
    using assms by (force simp: scalar_value_def)
  then show ?thesis
    by cases (simp_all add: utf8_one utf8_two utf8_three utf8_four out_unit_of_nat utf16_encode_def del: of_nat_add)
qed

lemma utf8_units:
  "list_all scalar_value cps \<Longrightarrow>
    plist_utf8_to_utf16be (utf8_string cps) = map bswap16 (concat (map utf16_encode cps))"
proof (induction cps)
  case Nil
  then show ?case by (simp add: utf8_string_def plist_utf8_to_utf16be.simps [of "[]"])
next
  case (Cons n cps)
  then show ?case using utf8_char [of n "utf8_string cps"] by (simp add: utf8_string_def)
qed

end
