(* ===== verification/Bplist_Parse.thy ===== *)
theory Bplist_Parse
  imports Plist Bplist_Strings
begin

text \<open>
  The reader of binary property lists (\<^verbatim>\<open>plist/bplist.c\<close>).  Pointers are offsets from \<^verbatim>\<open>plist_bin\<close>; the
  file is shorter than 2 ^ 32 bytes and does not wrap around the address space, so the tests for
  a wrapped pointer and the comparisons they guard are those of the natural numbers.  A result is
  \<^verbatim>\<open>None\<close> where the C code would read outside the file, and an inner \<^verbatim>\<open>None\<close> where it returns \<^verbatim>\<open>NULL\<close>.
  Allocations succeed.
\<close>

unbundle bit_operations_syntax

record bplist_data =
  bp_data :: "byte list"
  bp_num_objects :: u64
  bp_ref_size :: nat
  bp_offset_size :: nat
  bp_offset_table :: nat

section \<open>The leaves\<close>

text \<open>\<^verbatim>\<open>size = 1 << size\<close> in a \<^verbatim>\<open>uint8_t\<close>.\<close>

definition shifted_size :: "nat \<Rightarrow> nat" where
  "shifted_size sz = 2 ^ sz mod 256"

definition parse_uint_node :: "byte list \<Rightarrow> nat \<Rightarrow> nat \<Rightarrow> plist option option" where
  "parse_uint_node bin bnode sz =
     (let sz = shifted_size sz
      in if sz = 1 \<or> sz = 2 \<or> sz = 4 \<or> sz = 8 then
           map_option (\<lambda>v. Some (Plist_Uint v)) (UINT_TO_HOST bin bnode sz)
         else if sz = 16 then map_option (\<lambda>v. Some (Plist_Uint16 v)) (UINT_TO_HOST bin bnode sz)
         else Some None)"

definition parse_real_node :: "byte list \<Rightarrow> nat \<Rightarrow> nat \<Rightarrow> plist option option" where
  "parse_real_node bin bnode sz =
     (let sz = shifted_size sz
      in if sz = 4 then
           map_option (\<lambda>w. Some (Plist_Real (double_of_float (bswap32 w)))) (load_le bin bnode 4)
         else if sz = 8 then map_option (\<lambda>w. Some (Plist_Real (bswap64 w))) (load_le bin bnode 8)
         else Some None)"

text \<open>The node is used without a test for \<^verbatim>\<open>NULL\<close>.\<close>

definition parse_date_node :: "byte list \<Rightarrow> nat \<Rightarrow> nat \<Rightarrow> plist option option" where
  "parse_date_node bin bnode sz =
     (case parse_real_node bin bnode sz of
        Some (Some (Plist_Real d)) \<Rightarrow> Some (Some (Plist_Date d))
      | _ \<Rightarrow> None)"

definition parse_string_node :: "byte list \<Rightarrow> nat \<Rightarrow> nat \<Rightarrow> plist option option" where
  "parse_string_node bin bnode sz =
     map_option (\<lambda>s. Some (Plist_String (c_str s))) (slice bnode sz bin)"

definition parse_unicode_node :: "byte list \<Rightarrow> nat \<Rightarrow> nat \<Rightarrow> plist option option" where
  "parse_unicode_node bin bnode sz =
     map_option (map_option Plist_String) (plist_utf16be_to_utf8 bin bnode sz)"

definition parse_data_node :: "byte list \<Rightarrow> nat \<Rightarrow> nat \<Rightarrow> plist option option" where
  "parse_data_node bin bnode sz = map_option (\<lambda>d. Some (Plist_Data d)) (slice bnode sz bin)"

definition parse_uid_node :: "byte list \<Rightarrow> nat \<Rightarrow> nat \<Rightarrow> plist option option" where
  "parse_uid_node bin bnode sz =
     map_option (\<lambda>v. if v > 0xFFFFFFFF then None else Some (Plist_Uid v)) (UINT_TO_HOST bin bnode (sz + 1))"

section \<open>Containers\<close>

text \<open>
  \<^verbatim>\<open>parse\<close> is the call of \<^verbatim>\<open>parse_bin_node_at_index\<close> one level down.  The loop over the entries stops
  at the first that gives \<^verbatim>\<open>NULL\<close>.
\<close>

fun collect :: "(nat \<Rightarrow> 'a option option) \<Rightarrow> nat list \<Rightarrow> 'a list option option" where
  "collect f [] = Some (Some [])"
| "collect f (j # js) =
     (case f j of
        None \<Rightarrow> None
      | Some None \<Rightarrow> Some None
      | Some (Some x) \<Rightarrow> map_option (map_option (\<lambda>xs. x # xs)) (collect f js))"

definition array_item ::
  "bplist_data \<Rightarrow> (u32 \<Rightarrow> plist option option) \<Rightarrow> nat \<Rightarrow> nat \<Rightarrow> plist option option" where
  "array_item bplist parse bnode j =
     (let index1_ptr = bnode + j * bp_ref_size bplist
      in if index1_ptr + bp_ref_size bplist > bp_offset_table bplist then Some None
         else do {
           index1 \<leftarrow> UINT_TO_HOST (bp_data bplist) index1_ptr (bp_ref_size bplist);
           if index1 \<ge> bp_num_objects bplist then Some None else parse (ucast index1)
         })"

definition parse_array_node ::
  "bplist_data \<Rightarrow> (u32 \<Rightarrow> plist option option) \<Rightarrow> nat \<Rightarrow> nat \<Rightarrow> plist option option" where
  "parse_array_node bplist parse bnode sz =
     map_option (map_option Plist_Array) (collect (array_item bplist parse bnode) [0..<sz])"

definition dict_entry ::
  "bplist_data \<Rightarrow> (u32 \<Rightarrow> plist option option) \<Rightarrow> nat \<Rightarrow> nat \<Rightarrow> nat \<Rightarrow> (byte list \<times> plist) option option" where
  "dict_entry bplist parse bnode sz j =
     (let index1_ptr = bnode + j * bp_ref_size bplist;
          index2_ptr = bnode + (j + sz) * bp_ref_size bplist
      in if index1_ptr + bp_ref_size bplist > bp_offset_table bplist
           \<or> index2_ptr + bp_ref_size bplist > bp_offset_table bplist then Some None
         else do {
           index1 \<leftarrow> UINT_TO_HOST (bp_data bplist) index1_ptr (bp_ref_size bplist);
           index2 \<leftarrow> UINT_TO_HOST (bp_data bplist) index2_ptr (bp_ref_size bplist);
           if index1 \<ge> bp_num_objects bplist then Some None
           else if index2 \<ge> bp_num_objects bplist then Some None
           else do {
             key \<leftarrow> parse (ucast index1);
             case key of
               Some (Plist_String k) \<Rightarrow> map_option (map_option (\<lambda>val. (k, val))) (parse (ucast index2))
             | _ \<Rightarrow> Some None
           }
         })"

definition parse_dict_node ::
  "bplist_data \<Rightarrow> (u32 \<Rightarrow> plist option option) \<Rightarrow> nat \<Rightarrow> nat \<Rightarrow> plist option option" where
  "parse_dict_node bplist parse bnode sz =
     map_option (map_option Plist_Dict) (collect (dict_entry bplist parse bnode sz) [0..<sz])"

section \<open>Objects\<close>

text \<open>The size of an object: 15 stands for an integer object that follows, for the types that have a length.\<close>

definition object_size :: "bplist_data \<Rightarrow> byte \<Rightarrow> nat \<Rightarrow> nat \<Rightarrow> (nat \<times> nat) option option" where
  "object_size bplist type sz pos =
     (if sz = 0x0F \<and> type \<in> {0x40, 0x50, 0x60, 0xA0, 0xC0, 0xD0} then do {
        b \<leftarrow> rd (bp_data bplist) pos;
        let next_size = 2 ^ unat (b AND 0x0F);
        if b AND 0xF0 \<noteq> 0x10 then Some None
        else if pos + 1 + next_size > bp_offset_table bplist then Some None
        else do {
          sz \<leftarrow> UINT_TO_HOST (bp_data bplist) (pos + 1) next_size;
          Some (Some (unat sz, pos + 1 + next_size))
        }
      } else Some (Some (sz, pos)))"

definition parse_object ::
  "bplist_data \<Rightarrow> (u32 \<Rightarrow> plist option option) \<Rightarrow> byte \<Rightarrow> nat \<Rightarrow> nat \<Rightarrow> plist option option" where
  "parse_object bplist parse type sz pos =
     (let bin = bp_data bplist; offset_table = bp_offset_table bplist
      in if type = 0x00 then
           (if sz = 0x09 then Some (Some (Plist_Boolean True))
            else if sz = 0x08 then Some (Some (Plist_Boolean False))
            else Some None)
         else if type = 0x10 then
           (if pos + 2 ^ sz > offset_table then Some None else parse_uint_node bin pos sz)
         else if type = 0x20 then
           (if pos + 2 ^ sz > offset_table then Some None else parse_real_node bin pos sz)
         else if type = 0x30 then
           (if 3 \<noteq> sz then Some None
            else if pos + 2 ^ sz > offset_table then Some None else parse_date_node bin pos sz)
         else if type = 0x40 then
           (if pos + sz > offset_table then Some None else parse_data_node bin pos sz)
         else if type = 0x50 then
           (if pos + sz > offset_table then Some None else parse_string_node bin pos sz)
         else if type = 0x60 then
           (if pos + sz * 2 > offset_table then Some None else parse_unicode_node bin pos sz)
         else if type = 0xC0 \<or> type = 0xA0 then
           (if pos + sz > offset_table then Some None else parse_array_node bplist parse pos sz)
         else if type = 0x80 then
           (if pos + sz + 1 > offset_table then Some None else parse_uid_node bin pos sz)
         else if type = 0xD0 then
           (if pos + sz > offset_table then Some None else parse_dict_node bplist parse pos sz)
         else Some None)"

definition parse_bin_node ::
  "bplist_data \<Rightarrow> (u32 \<Rightarrow> plist option option) \<Rightarrow> nat \<Rightarrow> plist option option" where
  "parse_bin_node bplist parse object = do {
     b \<leftarrow> rd (bp_data bplist) object;
     let type = b AND 0xF0;
     sized \<leftarrow> object_size bplist type (unat (b AND 0x0F)) (object + 1);
     case sized of
       None \<Rightarrow> Some None
     | Some (sz, pos) \<Rightarrow> parse_object bplist parse type sz pos
   }"

text \<open>
  \<^verbatim>\<open>used\<close> holds the first \<^verbatim>\<open>level\<close> entries of \<^verbatim>\<open>used_indexes\<close>, the indices of the objects this one lies
  in; the entries after them are left from siblings, and overwritten before they are read.
\<close>

function parse_bin_node_at_index :: "bplist_data \<Rightarrow> u32 list \<Rightarrow> u32 \<Rightarrow> plist option option" where
  "parse_bin_node_at_index bplist used node_index =
     (if ucast node_index \<ge> bp_num_objects bplist then Some None
      else
        let idx_ptr = bp_offset_table bplist + unat (node_index * of_nat (bp_offset_size bplist))
        in if idx_ptr \<ge> bp_offset_table bplist + unat (bp_num_objects bplist * of_nat (bp_offset_size bplist))
           then Some None
           else
             case UINT_TO_HOST (bp_data bplist) idx_ptr (bp_offset_size bplist) of
               None \<Rightarrow> None
             | Some ptr \<Rightarrow>
                 if unat ptr \<ge> bp_offset_table bplist then Some None
                 else if node_index \<in> set used then Some None
                 else parse_bin_node bplist (parse_bin_node_at_index bplist (used @ [node_index])) (unat ptr))"
  by pat_completeness auto

termination
proof (relation "measure (\<lambda>(bplist, used, node_index). card ({i :: u32. ucast i < bp_num_objects bplist} - set used))",
    goal_cases)
  case (2 bplist used node_index idx_ptr ptr i)
  let ?S = "{i :: u32. ucast i < bp_num_objects bplist} - set used"
  have "node_index \<in> ?S" using 2 by (simp add: not_le)
  then have "card (?S - {node_index}) < card ?S" by (intro card_Diff1_less) simp_all
  moreover have "{i. ucast i < bp_num_objects bplist} - set (used @ [node_index]) = ?S - {node_index}" by auto
  ultimately show ?case by simp
qed simp

declare parse_bin_node_at_index.simps [simp del]

section \<open>The file\<close>

definition be64_at :: "byte list \<Rightarrow> nat \<Rightarrow> u64 option" where
  "be64_at bin p = map_option bswap64 (load_le bin p 8)"

text \<open>\<^verbatim>\<open>bplist00\<close>; the trailer has the last 32 bytes.\<close>

definition plist_from_bin :: "byte list \<Rightarrow> nat \<Rightarrow> plist option option" where
  "plist_from_bin plist_bin len =
     (if \<not> len \<ge> 6 + 2 + 32 then Some None
      else do {
        magic \<leftarrow> slice 0 6 plist_bin;
        version \<leftarrow> slice 6 2 plist_bin;
        if magic \<noteq> bytes ''bplist'' then Some None
        else if version \<noteq> bytes ''00'' then Some None
        else do {
          let end_data = len - 32;
          offset_size \<leftarrow> rd plist_bin (end_data + 6);
          ref_size \<leftarrow> rd plist_bin (end_data + 7);
          num_objects \<leftarrow> be64_at plist_bin (end_data + 8);
          root_object \<leftarrow> be64_at plist_bin (end_data + 16);
          table \<leftarrow> be64_at plist_bin (end_data + 24);
          let offset_table = unat table;
          let offset_table_size = unat num_objects * unat offset_size;
          if num_objects = 0 then Some None
          else if offset_size = 0 then Some None
          else if ref_size = 0 then Some None
          else if root_object \<ge> num_objects then Some None
          else if offset_table < 8 \<or> offset_table \<ge> end_data then Some None
          else if offset_table_size \<ge> 2 ^ 64 then Some None
          else if offset_table + offset_table_size > end_data then Some None
          else parse_bin_node_at_index
            \<lparr>bp_data = plist_bin, bp_num_objects = num_objects, bp_ref_size = unat ref_size,
             bp_offset_size = unat offset_size, bp_offset_table = offset_table\<rparr> [] (ucast root_object)
        }
      })"

section \<open>No file makes the reader leave the file\<close>

definition bplist_ok :: "bplist_data \<Rightarrow> bool" where
  "bplist_ok bplist \<longleftrightarrow>
     0 < bp_ref_size bplist \<and> 0 < bp_offset_size bplist \<and> bp_offset_size bplist < 256 \<and>
     bp_offset_table bplist + unat (bp_num_objects bplist) * bp_offset_size bplist + 32 \<le> length (bp_data bplist) \<and>
     length (bp_data bplist) < 2 ^ 32"

lemma number_defined:
  "0 < n \<Longrightarrow> p + n + 32 \<le> length bin \<Longrightarrow> \<exists>v. UINT_TO_HOST bin p n = Some v"
  using UINT_TO_HOST_value [of n p bin] by auto

lemma slice_defined: "p + n \<le> length bin \<Longrightarrow> slice p n bin \<noteq> None"
  by (simp add: slice_def)

lemma load_defined: "p + n \<le> length bin \<Longrightarrow> load_le bin p n \<noteq> None"
  by (simp add: load_le_def slice_def)

lemma those_defined: "(\<And>x. x \<in> set xs \<Longrightarrow> x \<noteq> None) \<Longrightarrow> those xs \<noteq> None"
proof (induction xs)
  case (Cons x xs)
  then show ?case by (cases x) auto
qed simp

lemma collect_defined: "(\<And>j. j \<in> set js \<Longrightarrow> f j \<noteq> None) \<Longrightarrow> collect f js \<noteq> None"
proof (induction js)
  case (Cons j js)
  then have "f j \<noteq> None" "collect f js \<noteq> None" by auto
  then show ?case by (auto split: option.splits)
qed simp

named_theorems leaf_defs \<open>the parsers of objects without parts\<close>

lemmas [leaf_defs] = parse_uint_node_def parse_real_node_def parse_date_node_def parse_string_node_def
  parse_unicode_node_def parse_data_node_def parse_uid_node_def

lemma shifted_size_le: "shifted_size n \<le> 2 ^ n"
  by (simp add: shifted_size_def)

lemma bplist_end: "bplist_ok bplist \<Longrightarrow> bp_offset_table bplist + 32 \<le> length (bp_data bplist)"
  by (simp add: bplist_ok_def)

lemma uint_defined:
  assumes "pos + 2 ^ n + 32 \<le> length bin"
  shows "parse_uint_node bin pos n \<noteq> None"
proof -
  have "pos + shifted_size n + 32 \<le> length bin" using assms shifted_size_le [of n] by linarith
  then show ?thesis
    using number_defined [of "shifted_size n" pos bin] by (auto simp: parse_uint_node_def Let_def)
qed

lemma real_defined:
  assumes "pos + 2 ^ n + 32 \<le> length bin"
  shows "parse_real_node bin pos n \<noteq> None"
proof -
  have "pos + shifted_size n + 32 \<le> length bin" using assms shifted_size_le [of n] by linarith
  then show ?thesis by (auto simp: parse_real_node_def Let_def load_le_def slice_def)
qed

lemma date_defined:
  assumes "pos + 8 + 32 \<le> length bin"
  shows "parse_date_node bin pos 3 \<noteq> None"
  using assms by (simp add: parse_date_node_def parse_real_node_def shifted_size_def load_le_def slice_def)

lemma unicode_defined:
  assumes "pos + n * 2 \<le> length bin"
  shows "parse_unicode_node bin pos n \<noteq> None"
proof -
  have "those (map (\<lambda>i. load_le bin (pos + 2 * i) 2 :: u16 option) [0..<n]) \<noteq> None"
    using assms by (intro those_defined) (auto simp: load_le_def slice_def)
  then show ?thesis by (auto simp: parse_unicode_node_def plist_utf16be_to_utf8_def)
qed

lemma if_defined: "(c \<Longrightarrow> a \<noteq> None) \<Longrightarrow> (\<not> c \<Longrightarrow> b \<noteq> None) \<Longrightarrow> (if c then a else b) \<noteq> None"
  by simp

lemma array_item_defined:
  assumes "bplist_ok bplist" and "\<And>i. parse i \<noteq> None"
  shows "array_item bplist parse bnode j \<noteq> None"
  using number_defined [of "bp_ref_size bplist" "bnode + j * bp_ref_size bplist" "bp_data bplist"]
    bplist_end [OF assms(1)] assms
  by (auto simp: array_item_def Let_def bplist_ok_def not_le)

lemma dict_entry_defined:
  assumes ok: "bplist_ok bplist" and parse: "\<And>i. parse i \<noteq> None"
  shows "dict_entry bplist parse bnode sz j \<noteq> None"
proof (cases "bnode + j * bp_ref_size bplist + bp_ref_size bplist > bp_offset_table bplist
    \<or> bnode + (j + sz) * bp_ref_size bplist + bp_ref_size bplist > bp_offset_table bplist")
  case True
  then show ?thesis by (auto simp: dict_entry_def Let_def)
next
  case False
  let ?p1 = "bnode + j * bp_ref_size bplist"
  let ?p2 = "bnode + (j + sz) * bp_ref_size bplist"
  have "0 < bp_ref_size bplist" using ok by (simp add: bplist_ok_def)
  moreover have "?p1 + bp_ref_size bplist + 32 \<le> length (bp_data bplist)"
    "?p2 + bp_ref_size bplist + 32 \<le> length (bp_data bplist)"
    using False bplist_end [OF ok] by linarith+
  ultimately obtain i1 i2 where i: "UINT_TO_HOST (bp_data bplist) ?p1 (bp_ref_size bplist) = Some i1"
    "UINT_TO_HOST (bp_data bplist) ?p2 (bp_ref_size bplist) = Some i2"
    using number_defined by blast
  obtain k v where kv: "parse (ucast i1) = Some k" "parse (ucast i2) = Some v" using parse by blast
  have "(case k of Some (Plist_String k) \<Rightarrow> map_option (map_option (\<lambda>val. (k, val))) (parse (ucast i2))
      | _ \<Rightarrow> Some None) \<noteq> None"
    by (simp add: kv(2) split: option.splits plist.splits)
  then show ?thesis
    unfolding dict_entry_def Let_def i bind.bind_lunit kv(1) by (intro if_defined) simp_all
qed

lemma object_size_defined:
  assumes ok: "bplist_ok bplist" and pos: "pos \<le> bp_offset_table bplist"
  shows "object_size bplist type sz pos \<noteq> None"
proof -
  have "pos < length (bp_data bplist)" using bplist_end [OF ok] pos by simp
  then show ?thesis
    using number_defined [of "2 ^ unat (bp_data bplist ! pos AND 0x0F)" "pos + 1" "bp_data bplist"] bplist_end [OF ok]
    by (auto simp: object_size_def Let_def)
qed

lemma parse_object_defined:
  assumes ok: "bplist_ok bplist" and parse: "\<And>i. parse i \<noteq> None"
  shows "parse_object bplist parse type sz pos \<noteq> None"
proof -
  note E = bplist_end [OF ok]
  have "parse_uint_node (bp_data bplist) pos sz \<noteq> None" "parse_real_node (bp_data bplist) pos sz \<noteq> None"
    if "pos + 2 ^ sz \<le> bp_offset_table bplist"
    using that E by (intro uint_defined real_defined; linarith)+
  moreover have "parse_date_node (bp_data bplist) pos 3 \<noteq> None" if "pos + 8 \<le> bp_offset_table bplist"
    using that E by (intro date_defined) linarith
  moreover have "parse_data_node (bp_data bplist) pos sz \<noteq> None" "parse_string_node (bp_data bplist) pos sz \<noteq> None"
    if "pos + sz \<le> bp_offset_table bplist"
    using that E by (simp_all add: parse_data_node_def parse_string_node_def slice_def)
  moreover have "parse_unicode_node (bp_data bplist) pos sz \<noteq> None" if "pos + sz * 2 \<le> bp_offset_table bplist"
    using that E by (intro unicode_defined) linarith
  moreover have "parse_uid_node (bp_data bplist) pos sz \<noteq> None" if "pos + sz + 1 \<le> bp_offset_table bplist"
    using that E number_defined [of "sz + 1" pos "bp_data bplist"] by (auto simp: parse_uid_node_def)
  moreover have "parse_array_node bplist parse pos sz \<noteq> None" "parse_dict_node bplist parse pos sz \<noteq> None"
    using collect_defined [of "[0..<sz]" "array_item bplist parse pos"] array_item_defined [OF ok parse]
      collect_defined [of "[0..<sz]" "dict_entry bplist parse pos sz"] dict_entry_defined [OF ok parse]
    by (simp_all add: parse_array_node_def parse_dict_node_def)
  ultimately show ?thesis
    unfolding parse_object_def Let_def by (intro if_defined) (simp_all add: not_less)
qed

lemma parse_bin_node_defined:
  assumes ok: "bplist_ok bplist" and parse: "\<And>i. parse i \<noteq> None" and obj: "obj < bp_offset_table bplist"
  shows "parse_bin_node bplist parse obj \<noteq> None"
proof -
  let ?b = "bp_data bplist ! obj"
  have b: "rd (bp_data bplist) obj = Some ?b" using bplist_end [OF ok] obj by simp
  obtain s where s: "object_size bplist (?b AND 0xF0) (unat (?b AND 0x0F)) (obj + 1) = Some s"
    using object_size_defined [OF ok, of "obj + 1"] obj by fastforce
  show ?thesis
    using parse_object_defined [of bplist parse, OF ok parse]
    by (cases s) (auto simp only: parse_bin_node_def Let_def b s bind.bind_lunit option.case prod.case)
qed

lemma unat_u32_u64: "unat (ucast (i :: u32) :: u64) = unat i"
proof -
  have "unat i < 2 ^ 64" by (rule less_trans [OF unat_less_exp]) simp
  then show ?thesis by (simp only: unsigned_ucast_eq) (simp add: take_bit_nat_eq_self)
qed

lemma index_defined: "bplist_ok bplist \<Longrightarrow> parse_bin_node_at_index bplist used node_index \<noteq> None"
proof (induction bplist used node_index rule: parse_bin_node_at_index.induct)
  case (1 bplist used node_index)
  note ok = "1.prems"
  let ?off = "bp_offset_size bplist"
  show ?case
  proof (cases "ucast node_index \<ge> bp_num_objects bplist")
    case True
    then show ?thesis by (simp add: parse_bin_node_at_index.simps [of bplist])
  next
    case False
    then have n: "unat node_index < unat (bp_num_objects bplist)"
      by (simp add: not_le word_less_nat_alt unat_u32_u64)
    have "Suc (unat node_index) * ?off \<le> unat (bp_num_objects bplist) * ?off"
      using n by (intro mult_le_mono1) simp
    then have in_table: "unat node_index * ?off + ?off \<le> unat (bp_num_objects bplist) * ?off" by simp
    then have "unat node_index * ?off < 2 ^ 32" using ok by (simp add: bplist_ok_def)
    moreover have "unat (of_nat ?off :: u32) = ?off" using ok by (simp add: bplist_ok_def unat_of_nat_u32)
    ultimately have ptr: "unat (node_index * of_nat ?off) = unat node_index * ?off"
      by (simp add: unat_mult_nowrap)
    have "0 < ?off" using ok by (simp add: bplist_ok_def)
    then obtain v where v:
      "UINT_TO_HOST (bp_data bplist) (bp_offset_table bplist + unat node_index * ?off) ?off = Some v"
      using number_defined [of ?off "bp_offset_table bplist + unat node_index * ?off" "bp_data bplist"]
        in_table ok by (auto simp: bplist_ok_def)
    show ?thesis
      using "1.IH" [OF False refl _ _ _ _ ok] False v ptr parse_bin_node_defined [OF ok]
      by (simp add: parse_bin_node_at_index.simps [of bplist used] Let_def not_le)
  qed
qed

lemma plist_from_bin_defined:
  assumes "len \<le> length plist_bin" and "length plist_bin < 2 ^ 32"
  shows "plist_from_bin plist_bin len \<noteq> None"
proof (cases "len \<ge> 6 + 2 + 32")
  case True
  let ?e = "len - 32"
  have e: "?e + 32 \<le> length plist_bin" "8 \<le> length plist_bin" using True assms(1) by linarith+
  obtain magic version where m: "slice 0 6 plist_bin = Some magic" "slice 6 2 plist_bin = Some version"
    using e(2) by (simp add: slice_def)
  have r: "rd plist_bin (?e + 6) = Some (plist_bin ! (?e + 6))" "rd plist_bin (?e + 7) = Some (plist_bin ! (?e + 7))"
    using e(1) by simp_all
  obtain n r' t where w: "be64_at plist_bin (?e + 8) = Some n" "be64_at plist_bin (?e + 16) = Some r'"
    "be64_at plist_bin (?e + 24) = Some t"
    using e(1) by (simp add: be64_at_def load_le_def slice_def)
  have "bplist_ok \<lparr>bp_data = plist_bin, bp_num_objects = n, bp_ref_size = unat (plist_bin ! (?e + 7)),
      bp_offset_size = unat (plist_bin ! (?e + 6)), bp_offset_table = unat t\<rparr>"
    if "plist_bin ! (?e + 6) \<noteq> 0" "plist_bin ! (?e + 7) \<noteq> 0"
      "unat t + unat n * unat (plist_bin ! (?e + 6)) \<le> ?e"
    using that e(1) assms(2) unat_byte_less by (simp add: bplist_ok_def unat_gt_0)
  then show ?thesis
    unfolding plist_from_bin_def Let_def m r w bind.bind_lunit
    by (intro if_defined index_defined) simp_all
qed (simp add: plist_from_bin_def)

text \<open>C8: The reader of any file of fewer than 2 ^ 32 bytes stays inside it and returns.\<close>

theorem plist_from_bin_safe:
  assumes "len \<le> length plist_bin" and "length plist_bin < 2 ^ 32"
  shows "plist_from_bin plist_bin len \<noteq> None"
  using assms by (rule plist_from_bin_defined)

text \<open>A file of one object with the table and the trailer; here an array that holds itself.\<close>

definition one_object_file :: "byte list \<Rightarrow> byte list" where
  "one_object_file objects = bytes ''bplist00'' @ objects @ [8] @
     replicate 6 0 @ [1, 1] @ memory_of (bswap64 1) @ memory_of (bswap64 0) @ memory_of (bswap64 (8 + of_nat (length objects)))"

lemma plist_from_bin_safe_witness:
  "length (one_object_file [0xA1, 0]) = 43 \<and> plist_from_bin (one_object_file [0xA1, 0]) 43 \<noteq> None"
  using plist_from_bin_safe [of 43 "one_object_file [0xA1, 0]"] by (simp add: one_object_file_def)

end
