(* ===== verification/Hash_Table.thy ===== *)
theory Hash_Table
  imports Prelude
begin

text \<open>
  The hash table of the property lists (\<^verbatim>\<open>plist/hashtable.c\<close>): 4096 chains, the functions that hash
  and compare keys are arguments.  Its contract is the locale \<open>hash_keys\<close>: the comparison is an
  equivalence.  Nothing is asked of the hash function, so keys that compare equal may have
  entries of their own in different chains.
\<close>

unbundle bit_operations_syntax

type_synonym ('k, 'v) hashtable = "('k \<times> 'v) list list"

definition hash_table_new :: "('k, 'v) hashtable" where
  "hash_table_new = replicate 4096 []"

definition chain_of :: "('k \<Rightarrow> u32) \<Rightarrow> 'k \<Rightarrow> nat" where
  "chain_of hash key = unat (hash key AND 0xFFF)"

fun find_entry :: "('k \<Rightarrow> 'k \<Rightarrow> bool) \<Rightarrow> 'k \<Rightarrow> ('k \<times> 'v) list \<Rightarrow> 'v option" where
  "find_entry compare key [] = None"
| "find_entry compare key ((k, v) # es) = (if compare k key then Some v else find_entry compare key es)"

definition hash_table_lookup ::
  "('k \<Rightarrow> u32) \<Rightarrow> ('k \<Rightarrow> 'k \<Rightarrow> bool) \<Rightarrow> ('k, 'v) hashtable \<Rightarrow> 'k \<Rightarrow> 'v option" where
  "hash_table_lookup hash compare ht key = find_entry compare key (ht ! chain_of hash key)"

text \<open>An entry that is present gets the new value, a new one goes to the front of its chain.\<close>

fun replace_entry :: "('k \<Rightarrow> 'k \<Rightarrow> bool) \<Rightarrow> 'k \<Rightarrow> 'v \<Rightarrow> ('k \<times> 'v) list \<Rightarrow> ('k \<times> 'v) list option" where
  "replace_entry compare key val [] = None"
| "replace_entry compare key val ((k, v) # es) =
     (if compare k key then Some ((k, val) # es)
      else map_option (\<lambda>es. (k, v) # es) (replace_entry compare key val es))"

definition hash_table_insert ::
  "('k \<Rightarrow> u32) \<Rightarrow> ('k \<Rightarrow> 'k \<Rightarrow> bool) \<Rightarrow> ('k, 'v) hashtable \<Rightarrow> 'k \<Rightarrow> 'v \<Rightarrow> ('k, 'v) hashtable" where
  "hash_table_insert hash compare ht key val =
     (let idx0 = chain_of hash key; e = ht ! idx0
      in ht[idx0 := (case replace_entry compare key val e of
                       Some es \<Rightarrow> es
                     | None \<Rightarrow> (key, val) # e)])"

fun remove_entry :: "('k \<Rightarrow> 'k \<Rightarrow> bool) \<Rightarrow> 'k \<Rightarrow> ('k \<times> 'v) list \<Rightarrow> ('k \<times> 'v) list" where
  "remove_entry compare key [] = []"
| "remove_entry compare key ((k, v) # es) = (if compare k key then es else (k, v) # remove_entry compare key es)"

definition hash_table_remove ::
  "('k \<Rightarrow> u32) \<Rightarrow> ('k \<Rightarrow> 'k \<Rightarrow> bool) \<Rightarrow> ('k, 'v) hashtable \<Rightarrow> 'k \<Rightarrow> ('k, 'v) hashtable" where
  "hash_table_remove hash compare ht key =
     (let idx0 = chain_of hash key in ht[idx0 := remove_entry compare key (ht ! idx0)])"

lemma chain_of_less: "chain_of hash key < 4096"
proof -
  have "hash key AND 0xFFF \<le> 0xFFF" by (rule word_and_le1)
  then show ?thesis by (simp add: chain_of_def word_le_nat_alt)
qed

section \<open>The contract\<close>

text \<open>What a client may rely on; the comparison need not be equality.\<close>

locale hash_keys =
  fixes hash :: "'k \<Rightarrow> u32" and compare :: "'k \<Rightarrow> 'k \<Rightarrow> bool"
  assumes compare_refl: "compare k k"
    and compare_sym: "compare k l \<Longrightarrow> compare l k"
    and compare_trans: "compare k l \<Longrightarrow> compare l m \<Longrightarrow> compare k m"
begin

lemma compare_left: "compare k l \<Longrightarrow> compare m k \<longleftrightarrow> compare m l"
  using compare_sym compare_trans by blast

lemma find_replace:
  "replace_entry compare key val es = Some es' \<Longrightarrow>
     find_entry compare l es' = (if compare key l then Some val else find_entry compare l es)"
proof (induction es arbitrary: es')
  case (Cons e es)
  obtain k v where e: "e = (k, v)" by (cases e)
  show ?case
  proof (cases "compare k key")
    case True
    then have "compare k l \<longleftrightarrow> compare key l" using compare_left compare_sym compare_trans by blast
    then show ?thesis using Cons.prems True by (auto simp: e)
  next
    case False
    then have "\<not> compare k l" if "compare key l" using that compare_sym compare_trans by blast
    then show ?thesis using Cons.prems False Cons.IH by (auto simp: e)
  qed
qed simp

lemma lookup_new: "hash_table_lookup hash compare hash_table_new l = None"
  using chain_of_less [of hash l] by (simp add: hash_table_lookup_def hash_table_new_def)

text \<open>An insertion is seen by the keys of its chain that compare equal, and by no other.\<close>

lemma lookup_insert:
  assumes "length ht = 4096"
  shows "hash_table_lookup hash compare (hash_table_insert hash compare ht key val) l =
    (if chain_of hash key = chain_of hash l \<and> compare key l then Some val
     else hash_table_lookup hash compare ht l)"
proof (cases "chain_of hash key = chain_of hash l")
  case True
  show ?thesis
  proof (cases "replace_entry compare key val (ht ! chain_of hash l)")
    case None
    then show ?thesis
      using True assms chain_of_less [of hash l]
      by (simp add: hash_table_lookup_def hash_table_insert_def Let_def)
  next
    case (Some es)
    then show ?thesis
      using True assms chain_of_less [of hash l] find_replace [OF Some]
      by (simp add: hash_table_lookup_def hash_table_insert_def Let_def)
  qed
next
  case False
  then show ?thesis by (simp add: hash_table_lookup_def hash_table_insert_def Let_def)
qed

text \<open>Keys of one chain that compare equal are found together.\<close>

lemma find_cong: "compare k l \<Longrightarrow> find_entry compare k es = find_entry compare l es"
proof (induction es)
  case (Cons e es)
  then show ?case using compare_left by (cases e) auto
qed simp

lemma lookup_cong:
  "chain_of hash k = chain_of hash l \<Longrightarrow> compare k l \<Longrightarrow>
     hash_table_lookup hash compare ht k = hash_table_lookup hash compare ht l"
  by (simp add: hash_table_lookup_def find_cong)

lemma lookup_inserted:
  "length ht = 4096 \<Longrightarrow>
     hash_table_lookup hash compare (hash_table_insert hash compare ht key val) key = Some val"
  by (simp add: lookup_insert compare_refl)

end

lemma length_hash_table [simp]:
  "length hash_table_new = 4096" "length (hash_table_insert hash compare ht key val) = length ht"
  "length (hash_table_remove hash compare ht key) = length ht"
  by (simp_all add: hash_table_new_def hash_table_insert_def hash_table_remove_def Let_def)

end
