(* ===== verification/Byte_Array.thy ===== *)
theory Byte_Array
  imports Prelude
begin

text \<open>
  The growing buffer of the writer (\<^verbatim>\<open>plist/bytearray.c\<close>): a block of \<^verbatim>\<open>capacity\<close> bytes, of which the first
  \<^verbatim>\<open>len\<close> are in use.  What \<^verbatim>\<open>malloc\<close> and \<^verbatim>\<open>realloc\<close> leave in new memory is an argument.  A buffer is the list
  of its bytes in use: an append never leaves the block and appends to that list.
\<close>

record bytearray =
  ba_data :: "byte list"
  ba_len :: nat

definition PAGE_SIZE :: nat where "PAGE_SIZE = 4096"

definition pages :: "nat \<Rightarrow> nat" where
  "pages n = (if n > PAGE_SIZE then (n + (PAGE_SIZE - 1)) div PAGE_SIZE * PAGE_SIZE else PAGE_SIZE)"

definition byte_array_new :: "(nat \<Rightarrow> byte list) \<Rightarrow> nat \<Rightarrow> bytearray" where
  "byte_array_new fresh initial = \<lparr>ba_data = fresh (pages initial), ba_len = 0\<rparr>"

definition byte_array_grow :: "(nat \<Rightarrow> byte list) \<Rightarrow> bytearray \<Rightarrow> nat \<Rightarrow> bytearray" where
  "byte_array_grow fresh ba amount = ba\<lparr>ba_data := ba_data ba @ fresh (pages amount)\<rparr>"

definition byte_array_append :: "(nat \<Rightarrow> byte list) \<Rightarrow> bytearray \<Rightarrow> byte list \<Rightarrow> bytearray option" where
  "byte_array_append fresh ba buf =
     (if buf = [] then Some ba
      else
        let remaining = length (ba_data ba) - ba_len ba;
            ba = (if length buf > remaining then byte_array_grow fresh ba (length buf - remaining) else ba)
        in map_option (\<lambda>data. ba\<lparr>ba_data := data, ba_len := ba_len ba + length buf\<rparr>)
             (memcpy (ba_data ba) (ba_len ba) buf))"

definition ba_ok :: "bytearray \<Rightarrow> bool" where
  "ba_ok ba \<longleftrightarrow> ba_len ba \<le> length (ba_data ba)"

definition ba_bytes :: "bytearray \<Rightarrow> byte list" where
  "ba_bytes ba = take (ba_len ba) (ba_data ba)"

lemma pages_enough: "n \<le> pages n"
proof -
  have "n + 4095 = (n + 4095) div 4096 * 4096 + (n + 4095) mod 4096" by (simp only: div_mult_mod_eq)
  moreover have "(n + 4095) mod 4096 < 4096" by simp
  ultimately have "n \<le> (n + 4095) div 4096 * 4096" by linarith
  then show ?thesis by (simp add: pages_def PAGE_SIZE_def)
qed

lemma byte_array_new_ok: "ba_ok (byte_array_new fresh n)" "ba_bytes (byte_array_new fresh n) = []"
  by (simp_all add: ba_ok_def ba_bytes_def byte_array_new_def)

lemma byte_array_append_ok:
  assumes ok: "ba_ok ba" and fresh: "\<And>n. length (fresh n) = n"
  shows "\<exists>ba'. byte_array_append fresh ba buf = Some ba' \<and> ba_ok ba' \<and> ba_bytes ba' = ba_bytes ba @ buf"
proof -
  define rest where "rest = length (ba_data ba) - ba_len ba"
  define ba1 where "ba1 = (if length buf > rest then byte_array_grow fresh ba (length buf - rest) else ba)"
  have len: "ba_len ba1 = ba_len ba" by (simp add: ba1_def byte_array_grow_def)
  have front: "take (ba_len ba) (ba_data ba1) = ba_bytes ba"
    using ok by (simp add: ba1_def byte_array_grow_def ba_bytes_def ba_ok_def)
  have room: "ba_len ba + length buf \<le> length (ba_data ba1)"
  proof (cases "length buf > rest")
    case True
    then have "length (ba_data ba1) = length (ba_data ba) + pages (length buf - rest)"
      by (simp add: ba1_def byte_array_grow_def fresh)
    then show ?thesis using pages_enough [of "length buf - rest"] True ok by (simp add: rest_def ba_ok_def)
  next
    case False
    then show ?thesis using ok by (simp add: ba1_def rest_def ba_ok_def)
  qed
  show ?thesis
  proof (cases "buf = []")
    case True
    then show ?thesis using ok by (simp add: byte_array_append_def)
  next
    case False
    then show ?thesis
      using room front len ok [unfolded ba_ok_def]
      by (simp add: byte_array_append_def Let_def rest_def [symmetric] ba1_def [symmetric] memcpy_def ba_ok_def ba_bytes_def)
  qed
qed

text \<open>A sequence of appends writes the concatenation.\<close>

fun byte_array_appends :: "(nat \<Rightarrow> byte list) \<Rightarrow> bytearray \<Rightarrow> byte list list \<Rightarrow> bytearray option" where
  "byte_array_appends fresh ba [] = Some ba"
| "byte_array_appends fresh ba (buf # bufs) =
     Option.bind (byte_array_append fresh ba buf) (\<lambda>ba. byte_array_appends fresh ba bufs)"

lemma byte_array_appends_ok:
  assumes "ba_ok ba" and fresh: "\<And>n. length (fresh n) = n"
  shows "\<exists>ba'. byte_array_appends fresh ba bufs = Some ba' \<and> ba_ok ba' \<and> ba_bytes ba' = ba_bytes ba @ concat bufs"
  using assms(1)
proof (induction bufs arbitrary: ba)
  case (Cons buf bufs)
  obtain ba1 where "byte_array_append fresh ba buf = Some ba1" "ba_ok ba1" "ba_bytes ba1 = ba_bytes ba @ buf"
    using byte_array_append_ok [OF Cons.prems fresh] by blast
  then show ?case using Cons.IH [of ba1] by simp
qed simp

end
