(* ===== verification/Bplist_Write.thy ===== *)
theory Bplist_Write
  imports Plist Bplist_Strings Hash_Table Byte_Array
begin

text \<open>
  The writer of binary property lists (\<^verbatim>\<open>plist/bplist.c\<close>).  The nodes of a list are those of its tree,
  the keys of dictionaries among them; a node is identified by its place in the tree, which stands
  for its address.  Nodes that compare equal are written once, so the file is a graph.
  The buffer is the list of its bytes (\<open>Byte_Array.byte_array_append_ok\<close>); what the code computes
  beforehand as its capacity has no influence on them.
\<close>

unbundle bit_operations_syntax

datatype node_data = Key_Node "byte list" | Value_Node plist

type_synonym node = "nat list \<times> node_data"

fun node_children :: "node \<Rightarrow> node list" where
  "node_children (p, Value_Node (Plist_Array xs)) = map (\<lambda>(i, x). (i # p, Value_Node x)) (enumerate 0 xs)"
| "node_children (p, Value_Node (Plist_Dict kvs)) =
     concat (map (\<lambda>(i, k, v). [((2 * i) # p, Key_Node k), ((2 * i + 1) # p, Value_Node v)]) (enumerate 0 kvs))"
| "node_children _ = []"

section \<open>Which nodes are the same\<close>

definition plist_type :: "node_data \<Rightarrow> nat" where
  "plist_type d = (case d of
     Key_Node _ \<Rightarrow> 8
   | Value_Node v \<Rightarrow> (case v of
       Plist_Boolean _ \<Rightarrow> 0 | Plist_Uint _ \<Rightarrow> 1 | Plist_Uint16 _ \<Rightarrow> 1 | Plist_Real _ \<Rightarrow> 2
     | Plist_String _ \<Rightarrow> 3 | Plist_Array _ \<Rightarrow> 4 | Plist_Dict _ \<Rightarrow> 5 | Plist_Date _ \<Rightarrow> 6
     | Plist_Data _ \<Rightarrow> 7 | Plist_Uid _ \<Rightarrow> 9))"

text \<open>What is hashed: the value, or for data and containers the address.  A \<^verbatim>\<open>char\<close> is unsigned, as on ARM.\<close>

definition hashed_bytes :: "(nat list \<Rightarrow> u64) \<Rightarrow> node \<Rightarrow> byte list" where
  "hashed_bytes addr = (\<lambda>(p, d). case d of
     Key_Node k \<Rightarrow> k
   | Value_Node v \<Rightarrow> (case v of
       Plist_Boolean b \<Rightarrow> memory_of (if b then 1 else 0 :: u64)
     | Plist_Uint w \<Rightarrow> memory_of w | Plist_Uint16 w \<Rightarrow> memory_of w | Plist_Real w \<Rightarrow> memory_of w
     | Plist_Date w \<Rightarrow> memory_of w | Plist_Uid w \<Rightarrow> memory_of w
     | Plist_String s \<Rightarrow> s
     | _ \<Rightarrow> memory_of (addr p)))"

definition plist_data_hash :: "(nat list \<Rightarrow> u64) \<Rightarrow> node \<Rightarrow> u32" where
  "plist_data_hash addr key =
     foldl (\<lambda>hash c. (push_bit 5 hash + hash) + ucast c) (of_nat (plist_type (snd key)) + 5381) (hashed_bytes addr key)"

text \<open>Strings are compared as C strings, containers by address.\<close>

definition plist_data_compare :: "node \<Rightarrow> node \<Rightarrow> bool" where
  "plist_data_compare = (\<lambda>(p, a) (q, b). case (a, b) of
     (Key_Node k, Key_Node l) \<Rightarrow> c_str k = c_str l
   | (Value_Node v, Value_Node w) \<Rightarrow> (case (v, w) of
       (Plist_Boolean x, Plist_Boolean y) \<Rightarrow> x = y
     | (Plist_Uint x, Plist_Uint y) \<Rightarrow> x = y
     | (Plist_Uint16 x, Plist_Uint16 y) \<Rightarrow> x = y
     | (Plist_Real x, Plist_Real y) \<Rightarrow> x = y
     | (Plist_Date x, Plist_Date y) \<Rightarrow> x = y
     | (Plist_Uid x, Plist_Uid y) \<Rightarrow> x = y
     | (Plist_String x, Plist_String y) \<Rightarrow> c_str x = c_str y
     | (Plist_Data x, Plist_Data y) \<Rightarrow> x = y
     | (Plist_Array _, Plist_Array _) \<Rightarrow> p = q
     | (Plist_Dict _, Plist_Dict _) \<Rightarrow> p = q
     | _ \<Rightarrow> False)
   | _ \<Rightarrow> False)"

section \<open>Collecting the objects\<close>

record serialize_s =
  objects :: "node list"
  ref_table :: "(node, nat) hashtable"

definition node_weight :: "node \<Rightarrow> nat" where
  "node_weight n = (case snd n of Key_Node _ \<Rightarrow> 0 | Value_Node v \<Rightarrow> Suc (size v))"

lemma dict_value_size: "(k, v) \<in> set kvs \<Longrightarrow> size v < size_list (size_prod (\<lambda>_. 0) size) kvs"
proof -
  assume "(k, v) \<in> set kvs"
  moreover have "size v < Suc (size_prod (\<lambda>_. 0) size (k, v))" by simp
  ultimately show ?thesis by (intro size_list_estimation) auto
qed

lemma child_weight: "c \<in> set (node_children n) \<Longrightarrow> node_weight c < node_weight n"
proof (induction n rule: node_children.induct)
  case (1 p xs)
  then obtain i x where "c = (i # p, Value_Node x)" "x \<in> set xs" by (auto simp: in_set_enumerate_eq)
  then show ?case by (auto simp: node_weight_def less_Suc_eq_le intro: size_list_estimation' [OF _ order_refl])
next
  case (2 p kvs)
  then obtain i k v where "(k, v) \<in> set kvs" "c = ((2 * i) # p, Key_Node k) \<or> c = ((2 * i + 1) # p, Value_Node v)"
    by (auto simp: in_set_enumerate_eq) (metis nth_mem)+
  then show ?case using dict_value_size [of k v kvs] by (auto simp: node_weight_def)
qed simp_all

function serialize_plist :: "(nat list \<Rightarrow> u64) \<Rightarrow> node \<Rightarrow> serialize_s \<Rightarrow> serialize_s" where
  "serialize_plist addr node ser =
     (if hash_table_lookup (plist_data_hash addr) plist_data_compare (ref_table ser) node \<noteq> None then ser
      else
        let current_index = length (objects ser);
            ser = \<lparr>objects = objects ser @ [node],
                   ref_table = hash_table_insert (plist_data_hash addr) plist_data_compare
                     (ref_table ser) node current_index\<rparr>
        in fold (\<lambda>ch ser. serialize_plist addr ch ser) (node_children node) ser)"
  by pat_completeness auto

termination
  by (relation "measure (\<lambda>(addr, node, ser). node_weight node)") (auto dest: child_weight)

declare serialize_plist.simps [simp del]

section \<open>Writing an object\<close>

definition Log2 :: "nat \<Rightarrow> byte" where
  "Log2 x = (if x = 8 then 3 else if x = 4 then 2 else if x = 2 then 1 else 0)"

text \<open>There are no integers of three bytes.\<close>

definition int_bytes :: "u64 \<Rightarrow> nat" where
  "int_bytes val = (if get_needed_bytes val = 3 then 4 else get_needed_bytes val)"

definition write_int :: "u64 \<Rightarrow> byte list" where
  "write_int val = (0x10 OR Log2 (int_bytes val)) # tail_bytes (int_bytes val) val"

definition write_uint :: "u64 \<Rightarrow> byte list" where
  "write_uint val = (0x10 OR 4) # replicate 8 0 @ memory_of (bswap64 val)"

definition write_real :: "u64 \<Rightarrow> byte list" where
  "write_real val =
     (0x20 OR Log2 (get_real_bytes val)) #
     (case exact_float val of
        Some floatval \<Rightarrow> memory_of (bswap32 floatval)
      | None \<Rightarrow> memory_of (bswap64 val))"

definition write_date :: "u64 \<Rightarrow> byte list" where
  "write_date val = (0x30 OR 3) # memory_of (bswap64 val)"

definition size_marker :: "byte \<Rightarrow> nat \<Rightarrow> byte list" where
  "size_marker mark sz = (mark OR (if sz < 15 then of_nat sz else 0xf)) # (if sz \<ge> 15 then write_int (of_nat sz) else [])"

definition write_raw_data :: "byte \<Rightarrow> byte list \<Rightarrow> nat \<Rightarrow> byte list" where
  "write_raw_data mark val sz = size_marker mark sz @ val"

definition write_data :: "byte list \<Rightarrow> byte list" where
  "write_data val = write_raw_data 0x40 val (length val)"

definition write_string :: "byte list \<Rightarrow> byte list" where
  "write_string val = write_raw_data 0x50 val (length val)"

definition write_unicode :: "byte list \<Rightarrow> byte list" where
  "write_unicode val =
     (let unicodestr = plist_utf8_to_utf16be val
      in write_raw_data 0x60 (concat (map memory_of unicodestr)) (length unicodestr))"

definition write_key_or_string :: "byte list \<Rightarrow> byte list" where
  "write_key_or_string val = (if is_ascii_string val then write_string val else write_unicode val)"

text \<open>The references of a container; the lookups are dereferenced.\<close>

definition write_refs :: "(node \<Rightarrow> nat option) \<Rightarrow> nat \<Rightarrow> node list \<Rightarrow> byte list option" where
  "write_refs lookup ref_size ns =
     map_option (\<lambda>is. concat (map (\<lambda>i. tail_bytes ref_size (of_nat i)) is)) (those (map lookup ns))"

definition write_array :: "(node \<Rightarrow> nat option) \<Rightarrow> nat \<Rightarrow> node \<Rightarrow> byte list option" where
  "write_array lookup ref_size node =
     (let ns = node_children node
      in map_option (\<lambda>refs. size_marker 0xA0 (length ns) @ refs) (write_refs lookup ref_size ns))"

fun every_other :: "'a list \<Rightarrow> 'a list" where
  "every_other [] = []"
| "every_other [x] = [x]"
| "every_other (x # y # xs) = x # every_other xs"

definition write_dict :: "(node \<Rightarrow> nat option) \<Rightarrow> nat \<Rightarrow> node \<Rightarrow> byte list option" where
  "write_dict lookup ref_size node =
     (let ns = node_children node
      in do {
        keys \<leftarrow> write_refs lookup ref_size (every_other ns);
        vals \<leftarrow> write_refs lookup ref_size (every_other (tl ns));
        Some (size_marker 0xD0 (length ns div 2) @ keys @ vals)
      })"

definition write_uid :: "u64 \<Rightarrow> byte list" where
  "write_uid val =
     (let val = ucast (ucast val :: u32) :: u64
      in (0x80 OR of_nat (int_bytes val - 1)) # tail_bytes (int_bytes val) val)"

definition write_object :: "(node \<Rightarrow> nat option) \<Rightarrow> nat \<Rightarrow> node \<Rightarrow> byte list option" where
  "write_object lookup ref_size node =
     (case snd node of
        Key_Node k \<Rightarrow> Some (write_key_or_string k)
      | Value_Node v \<Rightarrow> (case v of
          Plist_Boolean b \<Rightarrow> Some [if b then 0x09 else 0x08]
        | Plist_Uint w \<Rightarrow> Some (write_int w)
        | Plist_Uint16 w \<Rightarrow> Some (write_uint w)
        | Plist_Real d \<Rightarrow> Some (write_real d)
        | Plist_String s \<Rightarrow> Some (write_key_or_string s)
        | Plist_Data d \<Rightarrow> Some (write_data d)
        | Plist_Array _ \<Rightarrow> write_array lookup ref_size node
        | Plist_Dict _ \<Rightarrow> write_dict lookup ref_size node
        | Plist_Date d \<Rightarrow> Some (write_date d)
        | Plist_Uid w \<Rightarrow> Some (write_uid w)))"

section \<open>Writing the file\<close>

fun offsets_from :: "nat \<Rightarrow> byte list list \<Rightarrow> nat list" where
  "offsets_from n [] = []"
| "offsets_from n (b # bs) = n # offsets_from (n + length b) bs"

definition write_trailer :: "nat \<Rightarrow> nat \<Rightarrow> nat \<Rightarrow> nat \<Rightarrow> byte list" where
  "write_trailer offset_size ref_size num_objects offset_table_index =
     replicate 6 0 @ [of_nat offset_size, of_nat ref_size] @ memory_of (bswap64 (of_nat num_objects)) @
     memory_of (bswap64 0) @ memory_of (bswap64 (of_nat offset_table_index))"

definition plist_to_bin :: "(nat list \<Rightarrow> u64) \<Rightarrow> plist \<Rightarrow> byte list option" where
  "plist_to_bin addr plist = (
     let ser = serialize_plist addr ([], Value_Node plist) \<lparr>objects = [], ref_table = hash_table_new\<rparr>;
         lookup = hash_table_lookup (plist_data_hash addr) plist_data_compare (ref_table ser);
         num_objects = length (objects ser);
         ref_size = get_needed_bytes (of_nat num_objects)
     in do {
       bodies \<leftarrow> those (map (write_object lookup ref_size) (objects ser));
       let buff = bytes ''bplist00'' @ concat bodies;
           offset_size = get_needed_bytes (of_nat (length buff));
           offsets = offsets_from 8 bodies
       in Some (buff @ concat (map (\<lambda>offset. tail_bytes offset_size (of_nat offset)) offsets) @
                write_trailer offset_size ref_size num_objects (length buff))
     })"

section \<open>The table of the nodes\<close>

text \<open>Two nodes are the same if they have the same key.\<close>

definition node_key :: "node \<Rightarrow> node" where
  "node_key = (\<lambda>(p, d). case d of
     Key_Node k \<Rightarrow> ([], Key_Node (c_str k))
   | Value_Node v \<Rightarrow> (case v of
       Plist_String s \<Rightarrow> ([], Value_Node (Plist_String (c_str s)))
     | Plist_Array _ \<Rightarrow> (p, Value_Node (Plist_Array []))
     | Plist_Dict _ \<Rightarrow> (p, Value_Node (Plist_Dict []))
     | _ \<Rightarrow> ([], d)))"

lemma plist_data_compare_key: "plist_data_compare m n \<longleftrightarrow> node_key m = node_key n"
  by (auto simp: plist_data_compare_def node_key_def split: prod.splits node_data.splits plist.splits)

interpretation nodes: hash_keys "plist_data_hash addr" plist_data_compare for addr
  by unfold_locales (simp_all add: plist_data_compare_key)

end
