(* ===== verification/Raop_Handlers.thy ===== *)
theory Raop_Handlers
  imports Raop_Sessions Bplist_Parse Bplist_Write
begin

text \<open>
  \<^verbatim>\<open>raop_handlers.h\<close>: the handlers of the control connection.  A handler gets the request and works
  on an exchange: the receiver, the connection, the response under construction and the body of
  the answer.  Everything a request depends on beside these is in the environment: allocation
  results, random bytes, what uninitialised variables hold, the addresses of the nodes of a
  property list (they decide how it is hashed), the address parser, the results of the socket calls, and the bytes behind the
  body of the request in memory.
\<close>

section \<open>The environment and the exchange\<close>

record ('aes, 'alac, 'aac) raop_env =
  e_heap :: heap_env
  e_codec :: "('aes, 'alac, 'aac) codec_ops"
  e_crypto :: pairing_crypto
  e_seed :: "byte list option"
  e_sig_buffer :: "byte list"
  e_public_key :: "byte list"
  e_signature :: "byte list"
  e_aeskey :: "byte list"
  e_progress :: "u32 \<times> u32 \<times> u32"
  e_addr :: "nat list \<Rightarrow> u64"
  e_playfair :: "byte list \<Rightarrow> byte list \<Rightarrow> byte list"
  e_parse_address :: "bool \<Rightarrow> byte \<times> byte \<times> byte \<times> byte \<Rightarrow> byte list option"
  e_new_rtp :: "nat option"
  e_new_mirror :: "nat option"
  e_mirror_buffer :: bool
  e_audio_sockets :: "(int \<times> u16) \<times> (int \<times> u16) \<times> (int \<times> u16)"
  e_mirror_sockets :: "(int \<times> u16) \<times> (int \<times> u16) \<times> int"
  e_behind :: "byte list"
  e_scan_float :: "byte list \<Rightarrow> rat option"

record ('aes, 'alac, 'aac) exchange =
  x_raop :: "('aes, 'alac, 'aac) raop"
  x_conn :: raop_conn
  x_response :: http_response
  x_data :: "byte list option"
  x_datalen :: int

definition x_header ::
  "('aes, 'alac, 'aac) raop_env \<Rightarrow> string \<Rightarrow> string \<Rightarrow> ('aes, 'alac, 'aac) exchange \<Rightarrow> ('aes, 'alac, 'aac) exchange option" where
  "x_header env name value x = do {
     r \<leftarrow> http_response_add_header (e_heap env) (bytes name) (bytes value) (x_response x);
     Some (x\<lparr>x_response := r\<rparr>)
   }"

definition x_reset ::
  "('aes, 'alac, 'aac) raop_env \<Rightarrow> int \<Rightarrow> string \<Rightarrow> ('aes, 'alac, 'aac) exchange \<Rightarrow> ('aes, 'alac, 'aac) exchange option" where
  "x_reset env code message x = do {
     r \<leftarrow> http_response_reset (e_heap env) (x_response x) (bytes ''RTSP/1.0'') code (bytes message);
     Some (x\<lparr>x_response := r\<rparr>)
   }"

definition x_disconnect :: "('aes, 'alac, 'aac) exchange \<Rightarrow> ('aes, 'alac, 'aac) exchange" where
  "x_disconnect x = x\<lparr>x_response := http_response_set_disconnect (x_response x) 1\<rparr>"

definition x_pairing :: "pairing_session \<Rightarrow> ('aes, 'alac, 'aac) exchange \<Rightarrow> ('aes, 'alac, 'aac) exchange" where
  "x_pairing ps x = x\<lparr>x_conn := (x_conn x)\<lparr>conn_pairing := ps\<rparr>\<rparr>"

text \<open>Work on the audio session the connection points to.\<close>

definition with_rtp ::
  "(('aes, 'alac, 'aac) raop_rtp \<Rightarrow> ('aes, 'alac, 'aac) raop_rtp option) \<Rightarrow> ('aes, 'alac, 'aac) exchange
     \<Rightarrow> ('aes, 'alac, 'aac) exchange option" where
  "with_rtp f x = (case conn_rtp (x_conn x) of
       None \<Rightarrow> Some x
     | Some a \<Rightarrow> do {
         r \<leftarrow> rtps (x_raop x) a;
         r \<leftarrow> f r;
         Some (x\<lparr>x_raop := (x_raop x)\<lparr>rtps := (rtps (x_raop x))(a \<mapsto> r)\<rparr>\<rparr>)
       })"

section \<open>Numbers in property lists\<close>

text \<open>The value and whether it is there.\<close>

definition body_plist :: "byte list option \<Rightarrow> int \<Rightarrow> plist option option" where
  "body_plist data datalen =
     plist_from_bin (case data of None \<Rightarrow> [] | Some d \<Rightarrow> d) (unat (word_of_int datalen :: u32))"

definition raop_handler_get_uint :: "plist option \<Rightarrow> byte list \<Rightarrow> u64 \<times> bool" where
  "raop_handler_get_uint dict key =
     (case Option.bind (plist_dict_get_item dict key) plist_get_uint_val of
        Some v \<Rightarrow> (v, True) | None \<Rightarrow> (0, False))"

definition raop_handler_get_uint_or_default :: "plist option \<Rightarrow> byte list \<Rightarrow> u32 \<Rightarrow> u32" where
  "raop_handler_get_uint_or_default dict key default_value =
     (case raop_handler_get_uint dict key of (v, has_value) \<Rightarrow>
        if \<not> has_value \<or> v > 0xffffffff then default_value else ucast v)"

text \<open>The audio configuration of a SETUP request; \<^verbatim>\<open>None\<close> when the stream is not supported.\<close>

definition raop_handler_audio_config_from_setup :: "plist option \<Rightarrow> raop_audio_config option" where
  "raop_handler_audio_config_from_setup stream_note = (
     let (ct, has_ct) = raop_handler_get_uint stream_note (bytes ''ct'');
         (fmt, has_fmt) = raop_handler_get_uint stream_note (bytes ''audioFormat'');
         (spf, has_spf) = raop_handler_get_uint stream_note (bytes ''spf'')
     in if stream_note = None then None
        else if has_ct \<and> ct = RAOP_COMPRESSION_TYPE_ALAC \<or> has_fmt \<and> fmt = RAOP_AUDIO_FORMAT_ALAC_44100_STEREO
        then (let config = raop_audio_config_default_alac
                \<lparr>compression_type := (if has_ct then ct else RAOP_COMPRESSION_TYPE_ALAC),
                 audio_format := (if has_fmt then fmt else RAOP_AUDIO_FORMAT_ALAC_44100_STEREO),
                 frames_per_packet := (if has_spf then ucast spf else 352),
                 sample_rate := raop_handler_get_uint_or_default stream_note (bytes ''sr'') 44100,
                 bit_depth := raop_handler_get_uint_or_default stream_note (bytes ''ss'') 16,
                 channels := raop_handler_get_uint_or_default stream_note (bytes ''ch'') 2\<rparr>
              in if sample_rate config \<noteq> 44100 \<or> bit_depth config \<noteq> 16 \<or> channels config \<noteq> 2
                   \<or> frames_per_packet config = 0
                 then None else Some config)
        else if has_fmt \<and> fmt \<noteq> RAOP_AUDIO_FORMAT_AAC_ELD_44100_STEREO then None
        else if has_ct \<and> ct \<noteq> RAOP_COMPRESSION_TYPE_AAC_ELD then None
        else (let config = raop_audio_config_default_aac_eld
                \<lparr>compression_type := (if has_ct then ct else RAOP_COMPRESSION_TYPE_AAC_ELD),
                 audio_format := (if has_fmt then fmt else RAOP_AUDIO_FORMAT_AAC_ELD_44100_STEREO),
                 frames_per_packet := (if has_spf then ucast spf else 480)\<rparr>
              in if frames_per_packet config \<noteq> 480 then None else Some config))"

definition restrict_format :: "plist \<Rightarrow> plist" where
  "restrict_format format = (
     let v = Plist_Uint (RAOP_AUDIO_FORMAT_ALAC_44100_STEREO OR RAOP_AUDIO_FORMAT_AAC_ELD_44100_STEREO)
     in plist_dict_set_item (plist_dict_set_item format (bytes ''audioInputFormats'') v) (bytes ''audioOutputFormats'') v)"

definition raop_handler_restrict_audio_formats :: "plist \<Rightarrow> plist" where
  "raop_handler_restrict_audio_formats root_node =
     (case plist_dict_get_item (Some root_node) (bytes ''audioFormats'') of
        Some (Plist_Array fs) \<Rightarrow>
          plist_dict_set_item root_node (bytes ''audioFormats'') (Plist_Array (map restrict_format fs))
      | _ \<Rightarrow> root_node)"

section \<open>Text in the bodies of requests\<close>

text \<open>
  \<^verbatim>\<open>strncmp\<close> with a literal of the compared length, and \<^verbatim>\<open>strstr\<close> for the end of a line, on memory
  that may end before they stop: reading on there is \<^verbatim>\<open>None\<close>.
\<close>

fun strncmp_eq :: "byte list \<Rightarrow> byte list \<Rightarrow> bool option" where
  "strncmp_eq mem [] = Some True"
| "strncmp_eq [] (c # cs) = None"
| "strncmp_eq (x # mem) (c # cs) = (if x = c then strncmp_eq mem cs else Some False)"

fun strstr_crlf :: "byte list \<Rightarrow> byte list option option" where
  "strstr_crlf [] = None"
| "strstr_crlf [x] = (if x = 0 then Some None else None)"
| "strstr_crlf (x # y # mem) =
     (if x = 0 then Some None else if x = 13 \<and> y = 10 then Some (Some mem) else strstr_crlf (y # mem))"

lemma strstr_crlf_shorter: "strstr_crlf mem = Some (Some rest) \<Longrightarrow> length rest < length mem"
  by (induction mem rule: strstr_crlf.induct) (auto split: if_splits)

definition is_space :: "byte \<Rightarrow> bool" where
  "is_space c \<longleftrightarrow> c = 32 \<or> 9 \<le> c \<and> c \<le> 13"

definition is_digit :: "byte \<Rightarrow> bool" where
  "is_digit c \<longleftrightarrow> 48 \<le> c \<and> c \<le> 57"

fun digits_value :: "nat \<Rightarrow> byte list \<Rightarrow> nat" where
  "digits_value n [] = n"
| "digits_value n (c # cs) = digits_value (10 * n + (unat c - 48)) cs"

text \<open>An optional sign and digits after white space: the sign, the value, and the rest.\<close>

definition scan_number :: "byte list \<Rightarrow> (bool \<times> nat \<times> byte list) option" where
  "scan_number s = (
     let s = dropWhile is_space s;
         neg = (s \<noteq> [] \<and> hd s = 45);
         s = (if s \<noteq> [] \<and> (hd s = 45 \<or> hd s = 43) then tl s else s)
     in if takeWhile is_digit s = [] then None
        else Some (neg, digits_value 0 (takeWhile is_digit s), dropWhile is_digit s))"

text \<open>\<^verbatim>\<open>%u\<close>: the 64-bit value is cut to 32 bits; a value beyond 64 bits is the largest one.\<close>

definition scan_uint :: "byte list \<Rightarrow> (u32 \<times> byte list) option" where
  "scan_uint s = map_option (\<lambda>(neg, n, rest).
     (ucast (if n \<ge> 2 ^ 64 then -1 else if neg then - of_nat n else of_nat n :: u64), rest)) (scan_number s)"

text \<open>\<^verbatim>\<open>sscanf\<close> with \<^verbatim>\<open>%u/%u/%u\<close>: variables that are not reached keep what they hold.\<close>

definition scan_progress :: "byte list \<Rightarrow> u32 \<times> u32 \<times> u32 \<Rightarrow> u32 \<times> u32 \<times> u32" where
  "scan_progress s old = (case scan_uint s of
       None \<Rightarrow> old
     | Some (st, s1) \<Rightarrow> (
         if s1 = [] \<or> hd s1 \<noteq> 47 then (st, snd old)
         else (case scan_uint (tl s1) of
             None \<Rightarrow> (st, snd old)
           | Some (cu, s2) \<Rightarrow> (
               if s2 = [] \<or> hd s2 \<noteq> 47 then (st, cu, snd (snd old))
               else (case scan_uint (tl s2) of
                   None \<Rightarrow> (st, cu, snd (snd old))
                 | Some (en, _) \<Rightarrow> (st, cu, en))))))"

text \<open>\<^verbatim>\<open>strtol\<close> base 10, its \<^verbatim>\<open>long\<close> then assigned to an \<^verbatim>\<open>int\<close>.\<close>

definition strtol10 :: "byte list \<Rightarrow> int" where
  "strtol10 s = (case scan_number s of
       None \<Rightarrow> 0
     | Some (neg, n, _) \<Rightarrow>
         sint (word_of_int (if neg then max (- (2 ^ 63)) (- int n) else min (2 ^ 63 - 1) (int n)) :: u32))"

section \<open>The handlers of pairing and of the receiver's description\<close>

definition info_plist :: "byte list" where
  "info_plist = [
    0x62, 0x70, 0x6c, 0x69, 0x73, 0x74, 0x30, 0x30, 0x10, 0x0e, 0x12, 0x01, 0xff, 0xff, 0xfc, 0x59, 0x61, 0x75,
    0x64, 0x69, 0x6f, 0x54, 0x79, 0x70, 0x65, 0xdf, 0x10, 0x0f, 0x01, 0x03, 0x05, 0x07, 0x08, 0x0a, 0x0c, 0x0e,
    0x0f, 0x11, 0x1b, 0x24, 0x26, 0x28, 0x2a, 0x02, 0x04, 0x06, 0x06, 0x09, 0x0b, 0x0d, 0x0d, 0x10, 0x12, 0x1c,
    0x25, 0x27, 0x29, 0x2b, 0x54, 0x74, 0x79, 0x70, 0x65, 0x58, 0x64, 0x69, 0x73, 0x70, 0x6c, 0x61, 0x79, 0x73,
    0x54, 0x75, 0x75, 0x69, 0x64, 0x5f, 0x10, 0x11, 0x61, 0x75, 0x64, 0x69, 0x6f, 0x49, 0x6e, 0x70, 0x75, 0x74,
    0x46, 0x6f, 0x72, 0x6d, 0x61, 0x74, 0x73, 0x58, 0x66, 0x65, 0x61, 0x74, 0x75, 0x72, 0x65, 0x73, 0x5b, 0x72,
    0x65, 0x66, 0x72, 0x65, 0x73, 0x68, 0x52, 0x61, 0x74, 0x65, 0xd4, 0x1e, 0x20, 0x22, 0x16, 0x1f, 0x21, 0x21,
    0x1a, 0x5f, 0x10, 0x11, 0x61, 0x61, 0x3a, 0x35, 0x34, 0x3a, 0x30, 0x31, 0x3a, 0x61, 0x66, 0x3a, 0x63, 0x33,
    0x3a, 0x63, 0x31, 0x10, 0x1e, 0x10, 0x64, 0x55, 0x6d, 0x6f, 0x64, 0x65, 0x6c, 0x10, 0x3c, 0x56, 0x68, 0x65,
    0x69, 0x67, 0x68, 0x74, 0x5a, 0x41, 0x70, 0x70, 0x6c, 0x65, 0x54, 0x56, 0x32, 0x2c, 0x31, 0x5d, 0x73, 0x6f,
    0x75, 0x72, 0x63, 0x65, 0x56, 0x65, 0x72, 0x73, 0x69, 0x6f, 0x6e, 0x5f, 0x10, 0x11, 0x6b, 0x65, 0x65, 0x70,
    0x41, 0x6c, 0x69, 0x76, 0x65, 0x4c, 0x6f, 0x77, 0x50, 0x6f, 0x77, 0x65, 0x72, 0xdc, 0x2d, 0x2f, 0x31, 0x32,
    0x33, 0x34, 0x35, 0x36, 0x28, 0x39, 0x3b, 0x3c, 0x2e, 0x30, 0x21, 0x21, 0x21, 0x30, 0x2e, 0x37, 0x38, 0x3a,
    0x21, 0x3d, 0x5d, 0x77, 0x69, 0x64, 0x74, 0x68, 0x50, 0x68, 0x79, 0x73, 0x69, 0x63, 0x61, 0x6c, 0x56, 0x32,
    0x32, 0x30, 0x2e, 0x36, 0x38, 0xd3, 0x14, 0x16, 0x18, 0x15, 0x17, 0x15, 0x5b, 0x6f, 0x76, 0x65, 0x72, 0x73,
    0x63, 0x61, 0x6e, 0x6e, 0x65, 0x64, 0x5b, 0x77, 0x69, 0x64, 0x74, 0x68, 0x50, 0x69, 0x78, 0x65, 0x6c, 0x73,
    0x4f, 0x10, 0x20, 0xb0, 0x77, 0x27, 0xd6, 0xf6, 0xcd, 0x6e, 0x08, 0xb5, 0x8e, 0xde, 0x52, 0x5e, 0xc3, 0xcd,
    0xea, 0xa2, 0x52, 0xad, 0x9f, 0x68, 0x3f, 0xeb, 0x21, 0x2e, 0xf8, 0xa2, 0x05, 0x24, 0x65, 0x54, 0xe7, 0x5a,
    0x6d, 0x61, 0x63, 0x41, 0x64, 0x64, 0x72, 0x65, 0x73, 0x73, 0x10, 0x02, 0xa1, 0x2c, 0x10, 0x04, 0xa2, 0x13,
    0x19, 0x5c, 0x61, 0x75, 0x64, 0x69, 0x6f, 0x46, 0x6f, 0x72, 0x6d, 0x61, 0x74, 0x73, 0x54, 0x6e, 0x61, 0x6d,
    0x65, 0x08, 0x52, 0x76, 0x76, 0x13, 0x00, 0x00, 0x00, 0x1e, 0x5a, 0x7f, 0xff, 0xf7, 0x5f, 0x10, 0x12, 0x69,
    0x6e, 0x70, 0x75, 0x74, 0x4c, 0x61, 0x74, 0x65, 0x6e, 0x63, 0x79, 0x4d, 0x69, 0x63, 0x72, 0x6f, 0x73, 0x5b,
    0x73, 0x74, 0x61, 0x74, 0x75, 0x73, 0x46, 0x6c, 0x61, 0x67, 0x73, 0x57, 0x41, 0x70, 0x70, 0x6c, 0x65, 0x54,
    0x56, 0xd4, 0x1e, 0x20, 0x22, 0x16, 0x1f, 0x21, 0x21, 0x17, 0x57, 0x64, 0x65, 0x66, 0x61, 0x75, 0x6c, 0x74,
    0x5f, 0x10, 0x24, 0x32, 0x65, 0x33, 0x38, 0x38, 0x30, 0x30, 0x36, 0x2d, 0x31, 0x33, 0x62, 0x61, 0x2d, 0x34,
    0x30, 0x34, 0x31, 0x2d, 0x39, 0x61, 0x36, 0x37, 0x2d, 0x32, 0x35, 0x64, 0x64, 0x34, 0x61, 0x34, 0x33, 0x64,
    0x35, 0x33, 0x36, 0xd3, 0x14, 0x16, 0x18, 0x15, 0x1a, 0x15, 0x5f, 0x10, 0x13, 0x6f, 0x75, 0x74, 0x70, 0x75,
    0x74, 0x4c, 0x61, 0x74, 0x65, 0x6e, 0x63, 0x79, 0x4d, 0x69, 0x63, 0x72, 0x6f, 0x73, 0x5e, 0x61, 0x75, 0x64,
    0x69, 0x6f, 0x4c, 0x61, 0x74, 0x65, 0x6e, 0x63, 0x69, 0x65, 0x73, 0x58, 0x72, 0x6f, 0x74, 0x61, 0x74, 0x69,
    0x6f, 0x6e, 0x10, 0x01, 0x5c, 0x68, 0x65, 0x69, 0x67, 0x68, 0x74, 0x50, 0x69, 0x78, 0x65, 0x6c, 0x73, 0x56,
    0x6d, 0x61, 0x78, 0x46, 0x50, 0x53, 0x58, 0x64, 0x65, 0x76, 0x69, 0x63, 0x65, 0x49, 0x44, 0x5f, 0x10, 0x12,
    0x61, 0x75, 0x64, 0x69, 0x6f, 0x4f, 0x75, 0x74, 0x70, 0x75, 0x74, 0x46, 0x6f, 0x72, 0x6d, 0x61, 0x74, 0x73,
    0x5f, 0x10, 0x24, 0x65, 0x30, 0x66, 0x66, 0x38, 0x61, 0x32, 0x37, 0x2d, 0x36, 0x37, 0x33, 0x38, 0x2d, 0x33,
    0x64, 0x35, 0x36, 0x2d, 0x38, 0x61, 0x31, 0x36, 0x2d, 0x63, 0x63, 0x35, 0x33, 0x61, 0x61, 0x63, 0x65, 0x65,
    0x39, 0x32, 0x35, 0x5f, 0x10, 0x18, 0x6b, 0x65, 0x65, 0x70, 0x41, 0x6c, 0x69, 0x76, 0x65, 0x53, 0x65, 0x6e,
    0x64, 0x53, 0x74, 0x61, 0x74, 0x73, 0x41, 0x73, 0x42, 0x6f, 0x64, 0x79, 0x5e, 0x68, 0x65, 0x69, 0x67, 0x68,
    0x74, 0x50, 0x68, 0x79, 0x73, 0x69, 0x63, 0x61, 0x6c, 0x10, 0x65, 0x55, 0x77, 0x69, 0x64, 0x74, 0x68, 0x52,
    0x70, 0x69, 0x52, 0x70, 0x6b, 0xa2, 0x1d, 0x23, 0x11, 0x04, 0x38, 0x11, 0x07, 0x80, 0x00, 0x19, 0x00, 0xb1,
    0x00, 0xfa, 0x01, 0x8b, 0x01, 0x52, 0x01, 0x43, 0x00, 0x7f, 0x02, 0x22, 0x01, 0x64, 0x01, 0x97, 0x01, 0x6a,
    0x01, 0x4e, 0x00, 0xbf, 0x02, 0x0c, 0x02, 0x67, 0x02, 0x99, 0x01, 0xb0, 0x01, 0x57, 0x01, 0x54, 0x01, 0x01,
    0x02, 0x2b, 0x00, 0x0a, 0x00, 0x3a, 0x00, 0x95, 0x00, 0x4d, 0x01, 0xd7, 0x02, 0x91, 0x01, 0xf4, 0x02, 0x9f,
    0x01, 0x9f, 0x00, 0x0f, 0x01, 0xa8, 0x01, 0x76, 0x01, 0x69, 0x01, 0xde, 0x00, 0x76, 0x02, 0x9c, 0x01, 0x20,
    0x00, 0x97, 0x00, 0xa6, 0x00, 0x61, 0x01, 0x6d, 0x00, 0x3f, 0x01, 0x50, 0x00, 0xd3, 0x00, 0x9f, 0x02, 0xa2,
    0x02, 0x93, 0x02, 0xa5, 0x02, 0x03, 0x00, 0xec, 0x02, 0x82, 0x01, 0x14, 0x02, 0x0e, 0x00, 0x6a, 0x00, 0x9d,
    0x00, 0x08, 0x02, 0x1b, 0x00, 0x93, 0x01, 0x08, 0x00, 0x48, 0x02, 0x40, 0x00, 0x00, 0x00, 0x00, 0x00, 0x00,
    0x02, 0x01, 0x00, 0x00, 0x00, 0x00, 0x00, 0x00, 0x00, 0x3e, 0x00, 0x00, 0x00, 0x00, 0x00, 0x00, 0x00, 0x00,
    0x00, 0x00, 0x00, 0x00, 0x00, 0x00, 0x02, 0xa8]"

definition info_bin ::
  "('aes, 'alac, 'aac) raop_env \<Rightarrow> raop_callbacks \<Rightarrow> byte list option option" where
  "info_bin env cbs = do {
     info_node \<leftarrow> plist_from_bin info_plist (length info_plist);
     case info_node of
       None \<Rightarrow> Some None
     | Some root_node \<Rightarrow> (
         let w = (case cb_video_width cbs of None \<Rightarrow> 1280 | Some w \<Rightarrow> w);
             h = (case cb_video_height cbs of None \<Rightarrow> 720 | Some h \<Rightarrow> h);
             w = (if w \<le> 0 then 1280 else w);
             h = (if h \<le> 0 then 720 else h);
             root_node = plist_dict_set_item root_node (bytes ''widthPixels'') (Plist_Uint (word_of_int w));
             root_node = plist_dict_set_item root_node (bytes ''heightPixels'') (Plist_Uint (word_of_int h))
         in map_option Some (plist_to_bin (e_addr env) (raop_handler_restrict_audio_formats root_node)))
   }"

definition raop_handler_info ::
  "('aes, 'alac, 'aac) raop_env \<Rightarrow> 'p http_request \<Rightarrow> ('aes, 'alac, 'aac) exchange \<Rightarrow> ('aes, 'alac, 'aac) exchange option" where
  "raop_handler_info env request x = do {
     rsp \<leftarrow> info_bin env (raop_callbacks (x_raop x));
     case rsp of
       Some bin \<Rightarrow> x_header env ''Content-Type'' ''application/x-apple-binary-plist''
                     (x\<lparr>x_data := Some bin, x_datalen := int (length bin)\<rparr>)
     | None \<Rightarrow> do {
         block \<leftarrow> h_malloc (e_heap env) (length info_plist);
         x_header env ''Content-Type'' ''application/x-apple-binary-plist''
           (x\<lparr>x_data := Some info_plist, x_datalen := int (length info_plist)\<rparr>)
       }
   }"

definition raop_handler_pairsetup ::
  "('aes, 'alac, 'aac) raop_env \<Rightarrow> 'p http_request \<Rightarrow> ('aes, 'alac, 'aac) exchange \<Rightarrow> ('aes, 'alac, 'aac) exchange option" where
  "raop_handler_pairsetup env request x =
     (if snd (http_request_get_data request) \<noteq> 32 then Some x
      else do {
        pairing \<leftarrow> raop_pairing (x_raop x);
        let public_key = pairing_get_public_key pairing;
        let x = x_pairing (pairing_session_set_setup_status (conn_pairing (x_conn x))) x;
        case h_malloc (e_heap env) 32 of
          None \<Rightarrow> Some x
        | Some _ \<Rightarrow> do {
            x \<leftarrow> x_header env ''Content-Type'' ''application/octet-stream'' x;
            Some (x\<lparr>x_data := Some public_key, x_datalen := 32\<rparr>)
          }
      })"

text \<open>The two messages of pair-verify; errors of the first are only logged.\<close>

definition pairverify_start ::
  "('aes, 'alac, 'aac) raop_env \<Rightarrow> byte list \<Rightarrow> ('aes, 'alac, 'aac) exchange \<Rightarrow> ('aes, 'alac, 'aac) exchange option" where
  "pairverify_start env data x = do {
     (ret, ps) \<leftarrow> pairing_session_handshake (e_crypto env) (e_seed env) (conn_pairing (x_conn x))
                   (take 32 (drop 4 data)) (take 32 (drop 36 data));
     let x = x_pairing ps x;
     let public_key = (case pairing_session_get_public_key ps of None \<Rightarrow> e_public_key env | Some k \<Rightarrow> k);
     sig \<leftarrow> pairing_session_get_signature (e_crypto env) ps;
     let signature = (case sig of None \<Rightarrow> e_signature env | Some s \<Rightarrow> s);
     case h_malloc (e_heap env) (32 + 64) of
       None \<Rightarrow> Some x
     | Some _ \<Rightarrow> do {
         x \<leftarrow> x_header env ''Content-Type'' ''application/octet-stream'' x;
         Some (x\<lparr>x_data := Some (public_key @ signature), x_datalen := 32 + 64\<rparr>)
       }
   }"

definition pairverify_finish ::
  "('aes, 'alac, 'aac) raop_env \<Rightarrow> byte list \<Rightarrow> ('aes, 'alac, 'aac) exchange \<Rightarrow> ('aes, 'alac, 'aac) exchange option" where
  "pairverify_finish env data x = do {
     (ret, ps) \<leftarrow> pairing_session_finish (e_crypto env) (e_sig_buffer env) (conn_pairing (x_conn x)) (take 64 (drop 4 data));
     let x = x_pairing ps x;
     if ret \<noteq> 0 then Some (x_disconnect x)
     else x_header env ''Content-Type'' ''application/octet-stream'' x
   }"

definition raop_handler_pairverify ::
  "('aes, 'alac, 'aac) raop_env \<Rightarrow> 'p http_request \<Rightarrow> ('aes, 'alac, 'aac) exchange \<Rightarrow> ('aes, 'alac, 'aac) exchange option" where
  "raop_handler_pairverify env request x =
     (if pairing_session_check_handshake_status (conn_pairing (x_conn x)) \<noteq> 0 then Some x
      else (case http_request_get_data request of (data, datalen) \<Rightarrow>
        if datalen < 4 then Some x
        else do {
          data \<leftarrow> data;
          kind \<leftarrow> rd data 0;
          if kind = 1 then (if datalen \<noteq> 4 + 32 + 32 then Some x else pairverify_start env data x)
          else if kind = 0 then (if datalen \<noteq> 4 + 64 then Some x else pairverify_finish env data x)
          else Some x
        }))"

text \<open>An answer of the FairPlay handshake replaces the block; on an error the block is freed again.\<close>

definition fp_answer ::
  "('aes, 'alac, 'aac) raop_env \<Rightarrow> (fairplay \<Rightarrow> byte list \<Rightarrow> (int \<times> byte list \<times> fairplay) option) \<Rightarrow> byte list option
     \<Rightarrow> nat \<Rightarrow> ('aes, 'alac, 'aac) exchange \<Rightarrow> ('aes, 'alac, 'aac) exchange option" where
  "fp_answer env f data n x =
     (case h_malloc (e_heap env) n of
        None \<Rightarrow> Some x
      | Some _ \<Rightarrow> do {
          x \<leftarrow> x_header env ''Content-Type'' ''application/octet-stream'' x;
          data \<leftarrow> data;
          (ret, res, fp) \<leftarrow> f (conn_fairplay (x_conn x)) data;
          let x = x\<lparr>x_conn := (x_conn x)\<lparr>conn_fairplay := fp\<rparr>\<rparr>;
          if ret = 0 then Some (x\<lparr>x_data := Some res, x_datalen := int n\<rparr>) else Some x
        })"

definition raop_handler_fpsetup ::
  "('aes, 'alac, 'aac) raop_env \<Rightarrow> 'p http_request \<Rightarrow> ('aes, 'alac, 'aac) exchange \<Rightarrow> ('aes, 'alac, 'aac) exchange option" where
  "raop_handler_fpsetup env request x =
     (case http_request_get_data request of (data, datalen) \<Rightarrow>
        if datalen = 16 then fp_answer env fairplay_setup data 142 x
        else if datalen = 164 then fp_answer env fairplay_handshake data 32 x
        else Some x)"

definition raop_handler_options ::
  "('aes, 'alac, 'aac) raop_env \<Rightarrow> 'p http_request \<Rightarrow> ('aes, 'alac, 'aac) exchange \<Rightarrow> ('aes, 'alac, 'aac) exchange option" where
  "raop_handler_options env request x =
     x_header env ''Public'' ''SETUP, RECORD, PAUSE, FLUSH, TEARDOWN, OPTIONS, GET_PARAMETER, SET_PARAMETER'' x"

section \<open>SETUP\<close>

text \<open>The first SETUP: the keys of the streams, and the two sessions.\<close>

definition setup_refuse :: "('aes, 'alac, 'aac) exchange \<Rightarrow> ('aes, 'alac, 'aac) exchange" where
  "setup_refuse x = x_disconnect x"

definition new_rtp ::
  "('aes, 'alac, 'aac) raop_env \<Rightarrow> raop_conn \<Rightarrow> byte list \<Rightarrow> byte list \<Rightarrow> u16
     \<Rightarrow> (nat \<times> ('aes, 'alac, 'aac) raop_rtp) option option" where
  "new_rtp env conn aes_key aes_iv time_port = (case e_new_rtp env of
       None \<Rightarrow> Some None
     | Some a \<Rightarrow> map_option (map_option (Pair a)) (raop_rtp_init (e_codec env) (e_parse_address env)
         (conn_remote conn) (conn_remotelen conn) aes_key aes_iv
         (pairing_get_ecdh_secret_key (conn_pairing conn)) time_port))"

definition new_mirror ::
  "('aes, 'alac, 'aac) raop_env \<Rightarrow> raop_conn \<Rightarrow> byte list \<Rightarrow> u16 \<Rightarrow> (nat \<times> raop_rtp_mirror) option option" where
  "new_mirror env conn aes_key time_port = (case e_new_mirror env of
       None \<Rightarrow> Some None
     | Some a \<Rightarrow> map_option (map_option (Pair a)) (raop_rtp_mirror_init (True, e_mirror_buffer env) (e_parse_address env)
         (conn_remote conn) (conn_remotelen conn) aes_key
         (pairing_get_ecdh_secret_key (conn_pairing conn)) time_port))"

definition publish_rtp ::
  "(nat \<times> ('aes, 'alac, 'aac) raop_rtp) option \<Rightarrow> ('aes, 'alac, 'aac) raop \<Rightarrow> ('aes, 'alac, 'aac) raop" where
  "publish_rtp rtp raop = (case rtp of
       None \<Rightarrow> raop
     | Some (a, r) \<Rightarrow> raop_add_active_rtp (raop\<lparr>rtps := (rtps raop)(a \<mapsto> r)\<rparr>) (Some a))"

definition publish_mirror ::
  "(nat \<times> raop_rtp_mirror) option \<Rightarrow> ('aes, 'alac, 'aac) raop \<Rightarrow> ('aes, 'alac, 'aac) raop" where
  "publish_mirror mirror raop = (case mirror of
       None \<Rightarrow> raop
     | Some (a, rm) \<Rightarrow> raop_add_active_mirror (raop\<lparr>mirrors := (mirrors raop)(a \<mapsto> rm)\<rparr>) (Some a))"

definition setup_sessions ::
  "('aes, 'alac, 'aac) raop_env \<Rightarrow> byte list \<Rightarrow> byte list \<Rightarrow> u16 \<Rightarrow> ('aes, 'alac, 'aac) exchange
     \<Rightarrow> ('aes, 'alac, 'aac) exchange option" where
  "setup_sessions env aes_key aes_iv time_port x = do {
     rtp \<leftarrow> new_rtp env (x_conn x) aes_key aes_iv time_port;
     mirror \<leftarrow> new_mirror env (x_conn x) aes_key time_port;
     Some (x\<lparr>x_raop := publish_mirror mirror (publish_rtp rtp (x_raop x)),
             x_conn := (x_conn x)\<lparr>conn_rtp := map_option fst rtp, conn_mirror := map_option fst mirror\<rparr>\<rparr>)
   }"

definition setup_keys ::
  "('aes, 'alac, 'aac) raop_env \<Rightarrow> plist \<Rightarrow> plist \<Rightarrow> plist \<Rightarrow> ('aes, 'alac, 'aac) exchange \<Rightarrow> ('aes, 'alac, 'aac) exchange option" where
  "setup_keys env root_node eiv_note ekey_note x = do {
     let x = x\<lparr>x_conn := (x_conn x)\<lparr>conn_setup := conn_setup (x_conn x) + 1\<rparr>\<rparr>;
     case plist_get_data_val eiv_note of
       None \<Rightarrow> Some (setup_refuse x)
     | Some eiv \<Rightarrow> (
         if length eiv < 16 then Some (setup_refuse x)
         else (case plist_get_data_val ekey_note of
             None \<Rightarrow> Some (setup_refuse x)
           | Some ekey \<Rightarrow> do {
               time_port \<leftarrow> (case plist_dict_get_item (Some root_node) (bytes ''timingPort'') of
                   None \<Rightarrow> Some 0 | Some time_note \<Rightarrow> plist_get_uint_val time_note);
               key \<leftarrow> fairplay_decrypt (e_playfair env) (conn_fairplay (x_conn x)) ekey;
               let aes_key = (case key of None \<Rightarrow> e_aeskey env | Some k \<Rightarrow> k);
               setup_sessions env aes_key (take 16 eiv) (ucast time_port) x
             }))
   }"

text \<open>The SETUP of the mirror stream.\<close>

definition mirror_answer :: "u16 \<Rightarrow> u16 \<Rightarrow> u16 \<Rightarrow> plist" where
  "mirror_answer dport tport port = (
     let s_sub_node = plist_dict_set_item (Plist_Dict []) (bytes ''dataPort'') (Plist_Uint (ucast dport));
         s_sub_node = plist_dict_set_item s_sub_node (bytes ''type'') (Plist_Uint 110);
         s_node = Plist_Array [s_sub_node];
         r_node = plist_dict_set_item (Plist_Dict []) (bytes ''eventPort'') (Plist_Uint (ucast port));
         r_node = plist_dict_set_item r_node (bytes ''timingPort'') (Plist_Uint (ucast tport))
     in plist_dict_set_item r_node (bytes ''streams'') s_node)"

definition plist_answer ::
  "('aes, 'alac, 'aac) raop_env \<Rightarrow> plist \<Rightarrow> ('aes, 'alac, 'aac) exchange \<Rightarrow> ('aes, 'alac, 'aac) exchange option" where
  "plist_answer env node x = do {
     x \<leftarrow> x_header env ''Content-Type'' ''application/x-apple-binary-plist'' x;
     bin \<leftarrow> plist_to_bin (e_addr env) node;
     Some (x\<lparr>x_data := Some bin, x_datalen := int (length bin)\<rparr>)
   }"

definition start_mirror ::
  "('aes, 'alac, 'aac) raop_env \<Rightarrow> u64 \<Rightarrow> ('aes, 'alac, 'aac) exchange \<Rightarrow> (u16 \<times> u16 \<times> ('aes, 'alac, 'aac) exchange) option" where
  "start_mirror env streamConnectionID x = (case conn_mirror (x_conn x) of
       None \<Rightarrow> Some (0, 0, x_disconnect x)
     | Some a \<Rightarrow> do {
         rm \<leftarrow> mirrors (x_raop x) a;
         let rm = raop_rtp_init_mirror_aes (op_sha512 (e_codec env)) rm streamConnectionID;
         let (dres, tres, listen_ret) = e_mirror_sockets env;
         let (rm, ports) = raop_rtp_start_mirror dres tres listen_ret rm;
         let (tport, dport) = (case ports of None \<Rightarrow> (0, 0) | Some ps \<Rightarrow> ps);
         let conn = (x_conn x)\<lparr>mirror_started := True, stream_stopped_notified := False\<rparr>;
         let raop = (x_raop x)\<lparr>mirrors := (mirrors (x_raop x))(a \<mapsto> rm)\<rparr>;
         Some (tport, dport, x\<lparr>x_raop := raop, x_conn := conn\<rparr>)
       })"

definition setup_mirror ::
  "('aes, 'alac, 'aac) raop_env \<Rightarrow> plist option \<Rightarrow> ('aes, 'alac, 'aac) exchange \<Rightarrow> ('aes, 'alac, 'aac) exchange option" where
  "setup_mirror env stream_note x = do {
     let n = conn_setup (x_conn x);
     let x = x\<lparr>x_conn := (x_conn x)\<lparr>conn_setup := (if n < 2 then 2 else n + 1)\<rparr>\<rparr>;
     if stream_note = None then Some (setup_refuse x)
     else (case plist_dict_get_item stream_note (bytes ''streamConnectionID'') of
         None \<Rightarrow> Some (setup_refuse x)
       | Some stream_id_note \<Rightarrow> do {
           streamConnectionID \<leftarrow> plist_get_uint_val stream_id_note;
           (tport, dport, x) \<leftarrow> start_mirror env streamConnectionID x;
           plist_answer env (mirror_answer dport tport (raop_port (x_raop x))) x
         })
   }"

text \<open>The SETUP of the audio stream.\<close>

definition audio_answer :: "u16 \<Rightarrow> u16 \<Rightarrow> u16 \<Rightarrow> plist" where
  "audio_answer dport cport tport = (
     let s_sub_node = plist_dict_set_item (Plist_Dict []) (bytes ''dataPort'') (Plist_Uint (ucast dport));
         s_sub_node = plist_dict_set_item s_sub_node (bytes ''type'') (Plist_Uint 96);
         s_sub_node = plist_dict_set_item s_sub_node (bytes ''controlPort'') (Plist_Uint (ucast cport));
         s_node = Plist_Array [s_sub_node];
         r_node = plist_dict_set_item (Plist_Dict []) (bytes ''timingPort'') (Plist_Uint (ucast tport))
     in plist_dict_set_item r_node (bytes ''streams'') s_node)"

text \<open>
  The audio session is configured and started; a configuration that fails makes the answer 415.
  The remote control port that is passed on is a variable of the handler that stays 0.
\<close>

definition start_audio ::
  "('aes, 'alac, 'aac) raop_env \<Rightarrow> raop_audio_config \<Rightarrow> ('aes, 'alac, 'aac) exchange \<Rightarrow> ('aes, 'alac, 'aac) exchange option" where
  "start_audio env config x = (case conn_rtp (x_conn x) of
       None \<Rightarrow> plist_answer env (audio_answer 0 0 0) (x_disconnect x)
     | Some a \<Rightarrow> do {
         r \<leftarrow> rtps (x_raop x) a;
         (ret, r) \<leftarrow> raop_rtp_configure_audio (e_codec env) r config;
         let x = x\<lparr>x_raop := (x_raop x)\<lparr>rtps := (rtps (x_raop x))(a \<mapsto> r)\<rparr>\<rparr>;
         if ret < 0 then x_reset env 415 ''Unsupported Media Type'' x
         else do {
           let (c, t, d) = e_audio_sockets env;
           let (r, ports) = raop_rtp_start_audio c t d r 0;
           let (cport, tport, dport) = (case ports of None \<Rightarrow> (0, 0, 0) | Some ps \<Rightarrow> ps);
           let x = x\<lparr>x_raop := (x_raop x)\<lparr>rtps := (rtps (x_raop x))(a \<mapsto> r)\<rparr>,
                     x_conn := (x_conn x)\<lparr>audio_started := True\<rparr>\<rparr>;
           plist_answer env (audio_answer dport cport tport) x
         }
       })"

definition setup_audio ::
  "('aes, 'alac, 'aac) raop_env \<Rightarrow> plist option \<Rightarrow> ('aes, 'alac, 'aac) exchange \<Rightarrow> ('aes, 'alac, 'aac) exchange option" where
  "setup_audio env stream_note x =
     (case raop_handler_audio_config_from_setup stream_note of
        None \<Rightarrow> x_reset env 415 ''Unsupported Media Type'' x
      | Some config \<Rightarrow> (
          let n = conn_setup (x_conn x)
          in start_audio env config (x\<lparr>x_conn := (x_conn x)\<lparr>conn_setup := (if n < 3 then 3 else n + 1)\<rparr>\<rparr>)))"

definition setup_remote_control ::
  "'p http_request \<Rightarrow> ('aes, 'alac, 'aac) exchange \<Rightarrow> ('aes, 'alac, 'aac) exchange option" where
  "setup_remote_control request x = do {
     dacp \<leftarrow> http_request_get_header request (bytes ''DACP-ID'');
     active_remote \<leftarrow> http_request_get_header request (bytes ''Active-Remote'');
     if dacp \<noteq> None \<and> active_remote \<noteq> None
     then with_rtp (\<lambda>r. Some (raop_rtp_remote_control_id r dacp active_remote)) x
     else Some x
   }"

text \<open>
  The summary only writes to the log, but its accessors assert that the keys and strings of the
  request have no zero byte inside.
\<close>

definition log_dict_item :: "byte list \<times> plist \<Rightarrow> unit option" where
  "log_dict_item = (\<lambda>(key, val). do {
     key \<leftarrow> plist_get_key_val key;
     case val of
       Plist_String _ \<Rightarrow> map_option (\<lambda>v. ()) (plist_get_string_val val)
     | _ \<Rightarrow> Some ()
   })"

definition raop_handler_log_dict_summary :: "plist option \<Rightarrow> unit option" where
  "raop_handler_log_dict_summary dict =
     (case dict of
        Some (Plist_Dict kvs) \<Rightarrow> map_option (\<lambda>us. ()) (those (map log_dict_item kvs))
      | _ \<Rightarrow> Some ())"

text \<open>The type of the first stream of the request; a type that is no number aborts.\<close>

definition setup_stream_type :: "plist option \<Rightarrow> u64 option option" where
  "setup_stream_type stream_note =
     (case plist_dict_get_item stream_note (bytes ''type'') of
        None \<Rightarrow> Some None
      | Some type_note \<Rightarrow> map_option Some (plist_get_uint_val type_note))"

text \<open>The transport header only decides how the sockets are opened; their results are in the environment.\<close>

definition raop_handler_setup ::
  "('aes, 'alac, 'aac) raop_env \<Rightarrow> 'p http_request \<Rightarrow> ('aes, 'alac, 'aac) exchange \<Rightarrow> ('aes, 'alac, 'aac) exchange option" where
  "raop_handler_setup env request x = do {
     let (data, datalen) = http_request_get_data request;
     x \<leftarrow> setup_remote_control request x;
     transport \<leftarrow> http_request_get_header request (bytes ''Transport'');
     root \<leftarrow> body_plist data datalen;
     case root of
       None \<Rightarrow> Some (setup_refuse x)
     | Some root_node \<Rightarrow> do {
         raop_handler_log_dict_summary (Some root_node);
         let streams_note = plist_dict_get_item (Some root_node) (bytes ''streams'');
         let stream_note = plist_array_get_item streams_note 0;
         raop_handler_log_dict_summary stream_note;
         stream_type \<leftarrow> setup_stream_type stream_note;
         let eiv_note = plist_dict_get_item (Some root_node) (bytes ''eiv'');
         let ekey_note = plist_dict_get_item (Some root_node) (bytes ''ekey'');
         if conn_setup (x_conn x) = 0 then
           (case (eiv_note, ekey_note) of
              (Some eiv, Some ekey) \<Rightarrow> setup_keys env root_node eiv ekey x
            | _ \<Rightarrow> Some (setup_refuse x))
         else if stream_type = Some 110 \<or> stream_type = None \<and> conn_setup (x_conn x) = 1 then
           setup_mirror env stream_note x
         else if stream_type = Some 96 \<or> conn_setup (x_conn x) \<ge> 2 then
           setup_audio env stream_note x
         else Some (setup_refuse x)
       }
   }"

section \<open>Parameters\<close>

text \<open>
  GET_PARAMETER looks at the lines of the body, which is not terminated: \<^verbatim>\<open>current\<close> is the memory
  from a position of the body on.
\<close>

function get_parameter_loop ::
  "('aes, 'alac, 'aac) raop_env \<Rightarrow> byte list \<Rightarrow> ('aes, 'alac, 'aac) exchange \<Rightarrow> ('aes, 'alac, 'aac) exchange option" where
  "get_parameter_loop env current x = do {
     is_volume \<leftarrow> strncmp_eq current (bytes ''volume'' @ [13, 10]);
     x \<leftarrow> (if is_volume then do {
              x \<leftarrow> x_header env ''Content-Type'' ''text/parameters'' x;
              let answer = bytes ''volume: 0.0'' @ [13, 10];
              Some (case h_malloc (e_heap env) (length answer + 1) of
                  None \<Rightarrow> x\<lparr>x_data := None\<rparr>
                | Some _ \<Rightarrow> x\<lparr>x_data := Some answer, x_datalen := int (length answer)\<rparr>)
            }
            else Some x);
     case strstr_crlf current of
       None \<Rightarrow> None
     | Some None \<Rightarrow> Some x
     | Some (Some rest) \<Rightarrow> get_parameter_loop env rest x
   }"
  by pat_completeness auto
termination
  by (relation "measure (\<lambda>(env, current, x). length current)") (auto dest: strstr_crlf_shorter)

declare get_parameter_loop.simps [simp del]

definition raop_handler_get_parameter ::
  "('aes, 'alac, 'aac) raop_env \<Rightarrow> 'p http_request \<Rightarrow> ('aes, 'alac, 'aac) exchange \<Rightarrow> ('aes, 'alac, 'aac) exchange option" where
  "raop_handler_get_parameter env request x = do {
     ct \<leftarrow> http_request_get_header request (bytes ''Content-Type'');
     content_type \<leftarrow> ct;
     if content_type = bytes ''text/parameters''
     then (case fst (http_request_get_data request) of
             None \<Rightarrow> Some x
           | Some data \<Rightarrow> get_parameter_loop env (data @ e_behind env) x)
     else Some x
   }"

text \<open>SET_PARAMETER: the text is copied and terminated, the other bodies are handed over.\<close>

definition set_text_parameter ::
  "('aes, 'alac, 'aac) raop_env \<Rightarrow> byte list \<Rightarrow> ('aes, 'alac, 'aac) raop_rtp \<Rightarrow> ('aes, 'alac, 'aac) raop_rtp option" where
  "set_text_parameter env data r = do {
     let datastr = takeWhile (\<lambda>b. b \<noteq> 0) data;
     if take 8 datastr = bytes ''volume: '' then
       Some (raop_rtp_set_volume r (case e_scan_float env (drop 8 datastr) of None \<Rightarrow> 0 | Some v \<Rightarrow> v))
     else if take 10 datastr = bytes ''progress: '' then
       (case scan_progress (drop 10 datastr) (e_progress env) of (st, cu, en) \<Rightarrow> Some (raop_rtp_set_progress r st cu en))
     else Some r
   }"

definition raop_handler_set_parameter ::
  "('aes, 'alac, 'aac) raop_env \<Rightarrow> 'p http_request \<Rightarrow> ('aes, 'alac, 'aac) exchange \<Rightarrow> ('aes, 'alac, 'aac) exchange option" where
  "raop_handler_set_parameter env request x = do {
     ct \<leftarrow> http_request_get_header request (bytes ''Content-Type'');
     content_type \<leftarrow> ct;
     let (data, datalen) = http_request_get_data request;
     let body = (case data of None \<Rightarrow> [] | Some d \<Rightarrow> d);
     if content_type = bytes ''text/parameters'' then
       (if data \<noteq> None \<and> h_calloc (e_heap env) then with_rtp (set_text_parameter env body) x else Some x)
     else if content_type = bytes ''image/jpeg'' \<or> content_type = bytes ''image/png'' then
       with_rtp (\<lambda>r. raop_rtp_set_coverart r body datalen) x
     else if content_type = bytes ''application/x-dmap-tagged'' then
       with_rtp (\<lambda>r. raop_rtp_set_metadata r body datalen) x
     else Some x
   }"

definition raop_handler_feedback ::
  "('aes, 'alac, 'aac) raop_env \<Rightarrow> 'p http_request \<Rightarrow> ('aes, 'alac, 'aac) exchange \<Rightarrow> ('aes, 'alac, 'aac) exchange option" where
  "raop_handler_feedback env request x = Some x"

definition raop_handler_record ::
  "('aes, 'alac, 'aac) raop_env \<Rightarrow> 'p http_request \<Rightarrow> ('aes, 'alac, 'aac) exchange \<Rightarrow> ('aes, 'alac, 'aac) exchange option" where
  "raop_handler_record env request x = do {
     x \<leftarrow> x_header env ''Audio-Latency'' ''11025'' x;
     x_header env ''Audio-Jack-Status'' ''connected; type=analog'' x
   }"

end
