(* ===== verification/Raop_Conn.thy ===== *)
theory Raop_Conn
  imports Raop_Handlers
begin

text \<open>
  The second half of \<^verbatim>\<open>raop.c\<close>: one request on a control connection, TEARDOWN and FLUSH among them,
  and the receiver with all its connections as a step relation: which media sessions are alive, who
  points to them, and that none is lost, used after it was freed, or freed twice.
\<close>

section \<open>Requests\<close>

text \<open>The stream types a TEARDOWN names: whether there is one, and which; a type that is no number aborts.\<close>

fun stream_types :: "plist list \<Rightarrow> bool \<times> bool \<times> bool \<Rightarrow> (bool \<times> bool \<times> bool) option" where
  "stream_types [] st = Some st"
| "stream_types (stream_note # notes) (found, audio, mirror) =
     (case plist_dict_get_item (Some stream_note) (bytes ''type'') of
        None \<Rightarrow> stream_types notes (found, audio, mirror)
      | Some type_note \<Rightarrow> do {
          stream_type \<leftarrow> plist_get_uint_val type_note;
          stream_types notes (if stream_type = 96 then (True, True, mirror)
                              else if stream_type = 110 then (True, audio, True)
                              else (found, audio, mirror))
        })"

definition request_get_stream_types ::
  "('aes, 'alac, 'aac) raop_env \<Rightarrow> 'p http_request \<Rightarrow> (bool \<times> bool \<times> bool) option" where
  "request_get_stream_types env request =
     (case http_request_get_data request of (data, datalen) \<Rightarrow>
        if data = None \<or> datalen \<le> 0 then Some (False, False, False)
        else (case body_plist data datalen of
                None \<Rightarrow> None
              | Some None \<Rightarrow> Some (False, False, False)
              | Some (Some root_node) \<Rightarrow>
                  (case plist_dict_get_item (Some root_node) (bytes ''streams'') of
                     Some (Plist_Array notes) \<Rightarrow> stream_types notes (False, False, False)
                   | _ \<Rightarrow> Some (False, False, False))))"

definition conn_flush ::
  "'p http_request \<Rightarrow> ('aes, 'alac, 'aac) exchange \<Rightarrow> ('aes, 'alac, 'aac) exchange option" where
  "conn_flush request x = do {
     rtpinfo \<leftarrow> http_request_get_header request (bytes ''RTP-Info'');
     let next_seq = (case rtpinfo of
         None \<Rightarrow> -1
       | Some info \<Rightarrow> if take 4 info = bytes ''seq='' then strtol10 (drop 4 info) else -1);
     with_rtp (\<lambda>r. Some (raop_rtp_flush r next_seq)) x
   }"

text \<open>The parts of TEARDOWN: a session leaves its table, is destroyed, and its pointer is cleared.\<close>

definition teardown_rtp :: "('aes, 'alac, 'aac) exchange \<Rightarrow> ('aes, 'alac, 'aac) exchange option" where
  "teardown_rtp x = (case conn_rtp (x_conn x) of
       None \<Rightarrow> Some x
     | Some a \<Rightarrow> do {
         raop \<leftarrow> raop_rtp_destroy (Some a) (raop_remove_active_rtp (x_raop x) a);
         Some (x\<lparr>x_raop := raop, x_conn := (x_conn x)\<lparr>conn_rtp := None, audio_started := False\<rparr>\<rparr>)
       })"

definition teardown_mirror :: "bool \<Rightarrow> ('aes, 'alac, 'aac) exchange \<Rightarrow> ('aes, 'alac, 'aac) exchange option" where
  "teardown_mirror started x = (case conn_mirror (x_conn x) of
       None \<Rightarrow> Some x
     | Some a \<Rightarrow> do {
         raop \<leftarrow> raop_rtp_mirror_destroy (Some a) (raop_remove_active_mirror (x_raop x) a);
         Some (x\<lparr>x_raop := raop, x_conn := (x_conn x)\<lparr>conn_mirror := None, mirror_started := started\<rparr>\<rparr>)
       })"

definition conn_teardown ::
  "('aes, 'alac, 'aac) raop_env \<Rightarrow> 'p http_request \<Rightarrow> ('aes, 'alac, 'aac) exchange \<Rightarrow> ('aes, 'alac, 'aac) exchange option" where
  "conn_teardown env request x = do {
     x \<leftarrow> x_header env ''Connection'' ''close'' x;
     (has_type, audio, mirror) \<leftarrow> request_get_stream_types env request;
     let audio = (audio \<or> \<not> has_type);
     let mirror = (mirror \<or> \<not> has_type);
     let had_mirror_stream = (mirror \<and> mirror_started (x_conn x) \<and> conn_mirror (x_conn x) \<noteq> None);
     x \<leftarrow> (if audio then teardown_rtp x else Some x);
     x \<leftarrow> (if audio \<and> \<not> mirror_started (x_conn x)
           then teardown_mirror (mirror_started (x_conn x)) x else Some x);
     x \<leftarrow> (if mirror then teardown_mirror False x else Some x);
     Some (if had_mirror_stream
           then (case conn_notify_stream_stopped (x_raop x) (x_conn x) of
                   (raop, conn) \<Rightarrow> x\<lparr>x_raop := raop, x_conn := conn\<rparr>)
           else x)
   }"

datatype request_kind =
    Req_Info | Req_Pairsetup | Req_Pairverify | Req_Fpsetup | Req_Options | Req_Setup | Req_Get_Parameter
  | Req_Set_Parameter | Req_Feedback | Req_Record | Req_Flush | Req_Teardown | Req_Unknown

text \<open>The order of the comparisons; the URL is only compared for GET and POST, where it must be there.\<close>

definition request_kind :: "byte list \<Rightarrow> byte list option \<Rightarrow> request_kind option" where
  "request_kind method url =
     (if method = bytes ''GET'' then do {
        u \<leftarrow> url;
        Some (if u = bytes ''/info'' then Req_Info else Req_Unknown)
      }
      else if method = bytes ''POST'' then do {
        u \<leftarrow> url;
        Some (if u = bytes ''/pair-setup'' then Req_Pairsetup
              else if u = bytes ''/pair-verify'' then Req_Pairverify
              else if u = bytes ''/fp-setup'' then Req_Fpsetup
              else if u = bytes ''/feedback'' then Req_Feedback
              else Req_Unknown)
      }
      else Some (if method = bytes ''OPTIONS'' then Req_Options
                 else if method = bytes ''SETUP'' then Req_Setup
                 else if method = bytes ''GET_PARAMETER'' then Req_Get_Parameter
                 else if method = bytes ''SET_PARAMETER'' then Req_Set_Parameter
                 else if method = bytes ''RECORD'' then Req_Record
                 else if method = bytes ''FLUSH'' then Req_Flush
                 else if method = bytes ''TEARDOWN'' then Req_Teardown
                 else Req_Unknown))"

fun handle_request ::
  "request_kind \<Rightarrow> ('aes, 'alac, 'aac) raop_env \<Rightarrow> 'p http_request \<Rightarrow> ('aes, 'alac, 'aac) exchange
     \<Rightarrow> ('aes, 'alac, 'aac) exchange option" where
  "handle_request Req_Info env request x = raop_handler_info env request x"
| "handle_request Req_Pairsetup env request x = raop_handler_pairsetup env request x"
| "handle_request Req_Pairverify env request x = raop_handler_pairverify env request x"
| "handle_request Req_Fpsetup env request x = raop_handler_fpsetup env request x"
| "handle_request Req_Options env request x = raop_handler_options env request x"
| "handle_request Req_Setup env request x = raop_handler_setup env request x"
| "handle_request Req_Get_Parameter env request x = raop_handler_get_parameter env request x"
| "handle_request Req_Set_Parameter env request x = raop_handler_set_parameter env request x"
| "handle_request Req_Feedback env request x = raop_handler_feedback env request x"
| "handle_request Req_Record env request x = raop_handler_record env request x"
| "handle_request Req_Flush env request x = conn_flush request x"
| "handle_request Req_Teardown env request x = conn_teardown env request x"
| "handle_request Req_Unknown env request x = Some x"

text \<open>One request: the new state, and the response unless the request has no method or number.\<close>

definition conn_request ::
  "('aes, 'alac, 'aac) raop_env \<Rightarrow> ('aes, 'alac, 'aac) raop \<Rightarrow> raop_conn \<Rightarrow> 'p http_request
     \<Rightarrow> (('aes, 'alac, 'aac) raop \<times> raop_conn \<times> http_response option) option" where
  "conn_request env raop conn request = do {
     cseq \<leftarrow> http_request_get_header request (bytes ''CSeq'');
     case (http_request_get_method request, cseq) of
       (Some method, Some cseq) \<Rightarrow> do {
         r \<leftarrow> http_response_init (e_heap env) (bytes ''RTSP/1.0'') 200 (bytes ''OK'');
         r \<leftarrow> r;
         r \<leftarrow> http_response_add_header (e_heap env) (bytes ''CSeq'') cseq r;
         r \<leftarrow> http_response_add_header (e_heap env) (bytes ''Server'') (bytes ''AirTunes/220.68'') r;
         kind \<leftarrow> request_kind method (http_request_get_url request);
         x \<leftarrow> handle_request kind env request
                \<lparr> x_raop = raop, x_conn = conn, x_response = r, x_data = None, x_datalen = 0 \<rparr>;
         r \<leftarrow> http_response_finish (e_heap env) (x_response x) (x_data x) (x_datalen x);
         Some (x_raop x, x_conn x, Some r)
       }
     | _ \<Rightarrow> Some (raop, conn, None)
   }"

section \<open>The receiver and its connections\<close>

text \<open>
  The slots of the HTTP daemon hold the connections.  Between requests the threads of the sessions
  change them, but never free or make one.  A request carries the state of its parser, which
  no handler looks at.
\<close>

definition fresh_addresses :: "('aes, 'alac, 'aac) raop_env \<Rightarrow> ('aes, 'alac, 'aac) raop \<Rightarrow> bool" where
  "fresh_addresses env raop \<longleftrightarrow>
     (case e_new_rtp env of None \<Rightarrow> True | Some a \<Rightarrow> rtps raop a = None) \<and>
     (case e_new_mirror env of None \<Rightarrow> True | Some a \<Rightarrow> mirrors raop a = None)"

inductive raop_step ::
  "('aes, 'alac, 'aac) raop \<times> raop_conn option list \<Rightarrow> ('aes, 'alac, 'aac) raop \<times> raop_conn option list \<Rightarrow> bool" where
  step_connect:
    "i < length conns \<Longrightarrow> conns ! i = None \<Longrightarrow> conn_init a b c d raop local remote len = Some (Some conn) \<Longrightarrow>
     raop_step (raop, conns) (raop, conns[i := Some conn])"
| step_request:
    "i < length conns \<Longrightarrow> conns ! i = Some conn \<Longrightarrow> fresh_addresses env raop \<Longrightarrow>
     conn_request env raop conn (request :: unit http_request) = Some (raop', conn', resp) \<Longrightarrow>
     raop_step (raop, conns) (raop', conns[i := Some conn'])"
| step_close:
    "i < length conns \<Longrightarrow> conns ! i = Some conn \<Longrightarrow> conn_destroy raop conn = Some raop' \<Longrightarrow>
     raop_step (raop, conns) (raop', conns[i := None])"
| step_threads:
    "live_set rs = live_set (rtps raop) \<Longrightarrow> live_set ms = live_set (mirrors raop) \<Longrightarrow>
     raop_step (raop, conns) (raop\<lparr>rtps := rs, mirrors := ms\<rparr>, conns)"

definition rtp_ptr :: "raop_conn option \<Rightarrow> nat option" where
  "rtp_ptr c = Option.bind c conn_rtp"

definition mirror_ptr :: "raop_conn option \<Rightarrow> nat option" where
  "mirror_ptr c = Option.bind c conn_mirror"

lemma ptr_simps [simp]:
  "rtp_ptr None = None" "rtp_ptr (Some c) = conn_rtp c"
  "mirror_ptr None = None" "mirror_ptr (Some c) = conn_mirror c"
  by (simp_all add: rtp_ptr_def mirror_ptr_def)

definition conn_fine :: "raop_conn \<Rightarrow> bool" where
  "conn_fine c \<longleftrightarrow> 0 \<le> conn_setup c \<and> (conn_setup c = 0 \<longrightarrow> conn_rtp c = None \<and> conn_mirror c = None) \<and>
     (mirror_started c \<longrightarrow> conn_mirror c \<noteq> None) \<and> status (conn_pairing c) \<noteq> STATUS_FINISHED"

definition accounted :: "('aes, 'alac, 'aac) raop \<Rightarrow> raop_conn option list \<Rightarrow> bool" where
  "accounted raop conns \<longleftrightarrow>
     length (active_rtps raop) = MAX_ACTIVE_SESSIONS \<and> length (active_mirrors raop) = MAX_ACTIVE_SESSIONS \<and>
     owned (active_rtps raop) (map rtp_ptr conns) (live_set (rtps raop)) \<and>
     owned (active_mirrors raop) (map mirror_ptr conns) (live_set (mirrors raop)) \<and>
     (\<forall>i < length conns. pred_option conn_fine (conns ! i))"

section \<open>What handlers do to sessions\<close>

text \<open>
  Most of them neither make nor free a session, and keep every pointer.
\<close>

definition same_media :: "('aes, 'alac, 'aac) exchange \<Rightarrow> ('aes, 'alac, 'aac) exchange \<Rightarrow> bool" where
  "same_media x x' \<longleftrightarrow>
     active_rtps (x_raop x') = active_rtps (x_raop x) \<and> active_mirrors (x_raop x') = active_mirrors (x_raop x) \<and>
     live_set (rtps (x_raop x')) = live_set (rtps (x_raop x)) \<and> live_set (mirrors (x_raop x')) = live_set (mirrors (x_raop x)) \<and>
     conn_rtp (x_conn x') = conn_rtp (x_conn x) \<and> conn_mirror (x_conn x') = conn_mirror (x_conn x) \<and>
     conn_setup (x_conn x) \<le> conn_setup (x_conn x') \<and>
     (mirror_started (x_conn x') \<longrightarrow> mirror_started (x_conn x) \<or> conn_mirror (x_conn x) \<noteq> None) \<and>
     (status (conn_pairing (x_conn x')) = STATUS_FINISHED \<longrightarrow> status (conn_pairing (x_conn x)) = STATUS_FINISHED)"

lemma same_media_refl [simp]: "same_media x x"
  by (simp add: same_media_def)

lemma same_media_trans: "same_media x y \<Longrightarrow> same_media y z \<Longrightarrow> same_media x z"
  unfolding same_media_def by auto

named_theorems media \<open>handlers that keep the sessions as they are\<close>

lemmas handler_unfold = bind_eq_Some_conv x_disconnect_def x_pairing_def setup_refuse_def same_media_def

text \<open>What only works on the answer.\<close>

definition same_state :: "('aes, 'alac, 'aac) exchange \<Rightarrow> ('aes, 'alac, 'aac) exchange \<Rightarrow> bool" where
  "same_state x x' \<longleftrightarrow> x_raop x' = x_raop x \<and> x_conn x' = x_conn x"

lemma same_stateD: "same_state x y \<Longrightarrow> x_raop y = x_raop x \<and> x_conn y = x_conn x"
  by (simp add: same_state_def)

lemma answer_same_state:
  "x_header env n v x = Some y \<Longrightarrow> same_state x y"
  "x_reset env c m x = Some y \<Longrightarrow> same_state x y"
  "plist_answer env node x = Some y \<Longrightarrow> same_state x y"
  by (auto simp: x_header_def x_reset_def plist_answer_def same_state_def bind_eq_Some_conv split: option.splits)

lemma get_parameter_loop_state: "get_parameter_loop env current x = Some y \<Longrightarrow> same_state x y"
proof (induction env current x rule: get_parameter_loop.induct)
  case (1 env current x)
  from "1.prems" obtain v x' where v: "strncmp_eq current (bytes ''volume'' @ [13, 10]) = Some v"
    and x': "(if v then do {
              x \<leftarrow> x_header env ''Content-Type'' ''text/parameters'' x;
              let answer = bytes ''volume: 0.0'' @ [13, 10];
              Some (case h_malloc (e_heap env) (length answer + 1) of
                  None \<Rightarrow> x\<lparr>x_data := None\<rparr>
                | Some _ \<Rightarrow> x\<lparr>x_data := Some answer, x_datalen := int (length answer)\<rparr>)
            } else Some x) = Some x'"
    and rest: "(case strstr_crlf current of None \<Rightarrow> None | Some None \<Rightarrow> Some x'
       | Some (Some rest) \<Rightarrow> get_parameter_loop env rest x') = Some y"
    by (subst (asm) get_parameter_loop.simps) (auto simp: bind_eq_Some_conv)
  have "same_state x x'"
    using x' by (auto simp: bind_eq_Some_conv same_state_def Let_def split: if_splits option.splits
        dest!: answer_same_state [THEN same_stateD])
  moreover have "same_state x' y"
    using rest "1.IH" [OF v x'] by (auto simp: same_state_def split: option.splits)
  ultimately show ?case by (simp add: same_state_def)
qed

lemmas answers = answer_same_state [THEN same_stateD] get_parameter_loop_state [THEN same_stateD]

lemma with_rtp_media [media]: "with_rtp f x = Some y \<Longrightarrow> same_media x y"
  by (auto simp: with_rtp_def handler_unfold split: option.splits)

lemma info_media [media]: "raop_handler_info env q x = Some y \<Longrightarrow> same_media x y"
  by (auto simp: raop_handler_info_def Let_def handler_unfold split: option.splits dest!: answers)

lemma pairsetup_media [media]: "raop_handler_pairsetup env q x = Some y \<Longrightarrow> same_media x y"
  by (auto simp: raop_handler_pairsetup_def pairing_session_set_setup_status_def Let_def handler_unfold split: option.splits if_splits dest!: answers)

text \<open>
  The second message of pair-verify only passes the check at its start in the state before the first,
  where finishing refuses it.
\<close>

lemma handshake_status:
  "pairing_session_handshake c seed ps k l = Some (ret, ps') \<Longrightarrow> status ps \<noteq> STATUS_FINISHED \<Longrightarrow> status ps' \<noteq> STATUS_FINISHED"
  by (auto simp: pairing_session_handshake_def bind_eq_Some_conv split: option.splits)

lemma pairverify_start_media:
  assumes "pairverify_start env d x = Some y"
  shows "same_media x y"
proof -
  obtain ret ps where ps: "pairing_session_handshake (e_crypto env) (e_seed env) (conn_pairing (x_conn x))
      (take 32 (drop 4 d)) (take 32 (drop 36 d)) = Some (ret, ps)"
    using assms by (auto simp: pairverify_start_def bind_eq_Some_conv)
  have "same_state (x_pairing ps x) y"
    using assms ps unfolding pairverify_start_def Let_def
    by (auto simp: bind_eq_Some_conv same_state_def split: option.splits dest!: answers)
  then have "x_raop y = x_raop x" "x_conn y = (x_conn x)\<lparr>conn_pairing := ps\<rparr>"
    by (simp_all add: same_state_def x_pairing_def)
  then show ?thesis using handshake_status [OF ps] by (auto simp: same_media_def)
qed

lemma pairverify_finish_media:
  "pairverify_finish env d x = Some y \<Longrightarrow> status (conn_pairing (x_conn x)) = STATUS_SETUP \<Longrightarrow> same_media x y"
  by (auto simp: pairverify_finish_def pairing_session_finish_def Let_def handler_unfold
      split: option.splits if_splits prod.splits dest!: answers)

lemma pairverify_media [media]: "raop_handler_pairverify env q x = Some y \<Longrightarrow> same_media x y"
  by (cases "status (conn_pairing (x_conn x)) = STATUS_SETUP")
    (auto simp: raop_handler_pairverify_def pairing_session_check_handshake_status_def bind_eq_Some_conv
      split: if_splits prod.splits dest: pairverify_start_media pairverify_finish_media)

lemma fp_answer_media: "fp_answer env f data n x = Some y \<Longrightarrow> same_media x y"
  by (auto simp: fp_answer_def Let_def handler_unfold split: option.splits if_splits prod.splits dest!: answers)

lemma fpsetup_media [media]: "raop_handler_fpsetup env q x = Some y \<Longrightarrow> same_media x y"
  by (auto simp: raop_handler_fpsetup_def split: if_splits prod.splits dest: fp_answer_media)

lemma simple_handlers_media [media]:
  "raop_handler_options env q x = Some y \<Longrightarrow> same_media x y"
  "raop_handler_feedback env q x = Some y \<Longrightarrow> same_media x y"
  "raop_handler_record env q x = Some y \<Longrightarrow> same_media x y"
  by (auto simp: raop_handler_options_def raop_handler_feedback_def raop_handler_record_def handler_unfold dest!: answers)

lemma get_parameter_media [media]: "raop_handler_get_parameter env q x = Some y \<Longrightarrow> same_media x y"
  by (auto simp: raop_handler_get_parameter_def handler_unfold split: option.splits if_splits dest!: answers)

lemma set_parameter_media [media]: "raop_handler_set_parameter env q x = Some y \<Longrightarrow> same_media x y"
  unfolding raop_handler_set_parameter_def Let_def split_def bind_eq_Some_conv
  by (elim exE conjE) (auto split: if_splits intro: with_rtp_media)

lemma conn_flush_media [media]: "conn_flush q x = Some y \<Longrightarrow> same_media x y"
  unfolding conn_flush_def Let_def bind_eq_Some_conv by (elim exE conjE) (rule with_rtp_media)

lemma start_mirror_media: "start_mirror env sid x = Some (t, d, y) \<Longrightarrow> same_media x y"
  by (auto simp: start_mirror_def handler_unfold Let_def split_def split: option.splits)

lemma answer_media: "same_state x y \<Longrightarrow> same_media x y"
  by (simp add: same_media_def same_state_def)

lemma setup_count_media:
  "0 \<le> conn_setup (x_conn x) \<Longrightarrow> same_media x (x\<lparr>x_conn := (x_conn x)\<lparr>conn_setup :=
     (if conn_setup (x_conn x) < n then n else conn_setup (x_conn x) + 1)\<rparr>\<rparr>)"
  by (simp add: same_media_def)

lemma refuse_media: "same_media x (setup_refuse x)"
  by (simp add: handler_unfold)

lemma setup_mirror_media: "setup_mirror env sn x = Some y \<Longrightarrow> 0 \<le> conn_setup (x_conn x) \<Longrightarrow> same_media x y"
  using setup_count_media [of x 2]
  by (auto simp: setup_mirror_def Let_def bind_eq_Some_conv split: option.splits if_splits
      intro: same_media_trans refuse_media
      dest!: start_mirror_media answer_same_state(3) [THEN answer_media])

lemma start_audio_media: "start_audio env config x = Some y \<Longrightarrow> same_media x y"
  unfolding start_audio_def Let_def split_def
  by (cases "conn_rtp (x_conn x)")
    (auto simp: handler_unfold simp del: same_media_refl split: if_splits dest!: answers)

lemma setup_audio_media:
  assumes "setup_audio env sn x = Some y" and "0 \<le> conn_setup (x_conn x)"
  shows "same_media x y"
proof (cases "raop_handler_audio_config_from_setup sn")
  case None
  then show ?thesis
    using assms(1) answer_same_state(2) [THEN answer_media] by (simp add: setup_audio_def)
next
  case (Some config)
  then show ?thesis
    using assms(1) same_media_trans [OF setup_count_media [OF assms(2), of 3] start_audio_media]
    by (simp add: setup_audio_def Let_def)
qed

section \<open>Every session is accounted for\<close>

definition x_accounted :: "nat \<Rightarrow> raop_conn option list \<Rightarrow> ('aes, 'alac, 'aac) exchange \<Rightarrow> bool" where
  "x_accounted i conns x \<longleftrightarrow> i < length conns \<and> accounted (x_raop x) (conns[i := Some (x_conn x)])"

lemma fine_update:
  "i < length conns \<Longrightarrow> (\<forall>j < length (conns[i := c]). pred_option conn_fine (conns[i := c] ! j)) \<longleftrightarrow>
     pred_option conn_fine c \<and> (\<forall>j < length conns. j \<noteq> i \<longrightarrow> pred_option conn_fine (conns ! j))"
  by (auto simp: nth_list_update)

lemma x_accounted_iff:
  "x_accounted i conns x \<longleftrightarrow> i < length conns \<and>
     length (active_rtps (x_raop x)) = MAX_ACTIVE_SESSIONS \<and> length (active_mirrors (x_raop x)) = MAX_ACTIVE_SESSIONS \<and>
     owned (active_rtps (x_raop x)) ((map rtp_ptr conns)[i := conn_rtp (x_conn x)]) (live_set (rtps (x_raop x))) \<and>
     owned (active_mirrors (x_raop x)) ((map mirror_ptr conns)[i := conn_mirror (x_conn x)]) (live_set (mirrors (x_raop x))) \<and>
     conn_fine (x_conn x) \<and> (\<forall>j < length conns. j \<noteq> i \<longrightarrow> pred_option conn_fine (conns ! j))"
  by (auto simp: x_accounted_def accounted_def map_update nth_list_update)

lemma accounted_same: "same_media x y \<Longrightarrow> x_accounted i conns x \<Longrightarrow> x_accounted i conns y"
  by (auto simp: x_accounted_iff same_media_def conn_fine_def)

lemma owned_remove':
  assumes "owned slots (ptrs[i := Some a]) alive" and "i < length ptrs"
  shows "owned (table_remove slots a) (ptrs[i := None]) (alive - {a})" and "a \<in> alive"
  using owned_remove [OF assms(1), of i a] owned_live [OF assms(1), of i a] assms(2) by simp_all

lemma owned_add':
  assumes "owned slots (ptrs[i := None]) alive" and "i < length ptrs" and "a \<notin> alive"
  shows "owned (table_add slots a) (ptrs[i := Some a]) (insert a alive)"
    and "\<not> table_has slots a"
  using owned_add [OF assms(1,3), of i] assms by (auto simp: table_has_def owned_def reach_def)

lemma owned_leave':
  assumes "owned slots (ptrs[i := Some a]) alive" and "i < length ptrs"
  shows "owned slots (ptrs[i := None]) (if table_has slots a then alive else alive - {a})"
  using owned_leave [OF assms(1), of i a] assms(2) by simp

lemma teardown_rtp_accounted:
  assumes "x_accounted i conns x"
  shows "\<exists>y. teardown_rtp x = Some y \<and> x_accounted i conns y \<and> conn_rtp (x_conn y) = None \<and>
    conn_mirror (x_conn y) = conn_mirror (x_conn x) \<and> mirror_started (x_conn y) = mirror_started (x_conn x)"
proof (cases "conn_rtp (x_conn x)")
  case None
  then show ?thesis using assms by (simp add: teardown_rtp_def)
next
  case (Some a)
  note own = owned_remove' [where ptrs = "map rtp_ptr conns" and i = i and a = a and slots = "active_rtps (x_raop x)"]
  obtain r where "rtps (x_raop x) a = Some r"
    using own(2) liveD assms Some by (force simp: x_accounted_iff)
  then show ?thesis
    using Some own(1) assms
    by (auto simp: teardown_rtp_def raop_rtp_destroy_def raop_remove_active_rtp_def x_accounted_iff conn_fine_def)
qed

lemma teardown_mirror_accounted:
  assumes "x_accounted i conns x" and "st \<longrightarrow> conn_mirror (x_conn x) = None"
  shows "\<exists>y. teardown_mirror st x = Some y \<and> x_accounted i conns y \<and> conn_mirror (x_conn y) = None \<and>
    conn_rtp (x_conn y) = conn_rtp (x_conn x)"
proof (cases "conn_mirror (x_conn x)")
  case None
  then show ?thesis using assms by (simp add: teardown_mirror_def)
next
  case (Some a)
  note own = owned_remove' [where ptrs = "map mirror_ptr conns" and i = i and a = a and slots = "active_mirrors (x_raop x)"]
  obtain rm where "mirrors (x_raop x) a = Some rm"
    using own(2) liveD assms Some by (force simp: x_accounted_iff)
  then show ?thesis
    using Some own(1) assms
    by (auto simp: teardown_mirror_def raop_rtp_mirror_destroy_def raop_remove_active_mirror_def x_accounted_iff conn_fine_def)
qed

lemma notify_accounted:
  "conn_notify_stream_stopped (x_raop x) (x_conn x) = (raop, conn) \<Longrightarrow> same_media x (x\<lparr>x_raop := raop, x_conn := conn\<rparr>)"
  by (auto simp: conn_notify_stream_stopped_def same_media_def split: if_splits)

lemma conn_teardown_accounted:
  assumes "conn_teardown env q x = Some y" and "x_accounted i conns x"
  shows "x_accounted i conns y"
proof -
  obtain x1 has_type audio mirror where x1: "x_header env ''Connection'' ''close'' x = Some x1"
    and types: "request_get_stream_types env q = Some (has_type, audio, mirror)"
    using assms(1) by (auto simp: conn_teardown_def bind_eq_Some_conv)
  have acc1: "x_accounted i conns x1"
    using x1 assms(2) accounted_same answer_media answer_same_state(1) by blast
  define audio' mirror' where "audio' = (audio \<or> \<not> has_type)" and "mirror' = (mirror \<or> \<not> has_type)"
  obtain x2 where x2: "(if audio' then teardown_rtp x1 else Some x1) = Some x2" "x_accounted i conns x2"
    using teardown_rtp_accounted [OF acc1] acc1 by (cases audio') auto
  obtain x3 where x3: "(if audio' \<and> \<not> mirror_started (x_conn x2) then teardown_mirror (mirror_started (x_conn x2)) x2
      else Some x2) = Some x3" "x_accounted i conns x3"
    using teardown_mirror_accounted [OF x2(2), of False] x2(2) by (cases "audio' \<and> \<not> mirror_started (x_conn x2)") auto
  obtain x4 where x4: "(if mirror' then teardown_mirror False x3 else Some x3) = Some x4" "x_accounted i conns x4"
    using teardown_mirror_accounted [OF x3(2), of False] x3(2) by (cases mirror') auto
  obtain raop conn where nt: "conn_notify_stream_stopped (x_raop x4) (x_conn x4) = (raop, conn)" by force
  have "y = x4 \<or> y = x4\<lparr>x_raop := raop, x_conn := conn\<rparr>"
    using assms(1) x1 types x2(1) x3(1) x4(1) nt
    by (auto simp: conn_teardown_def audio'_def [symmetric] mirror'_def [symmetric] split: if_splits)
  then show ?thesis
    using x4(2) accounted_same [OF notify_accounted [OF nt]] by auto
qed

lemma new_session_address:
  "new_rtp env conn k iv p = Some (Some (a, r)) \<Longrightarrow> e_new_rtp env = Some a"
  "new_mirror env conn k p = Some (Some (a, rm)) \<Longrightarrow> e_new_mirror env = Some a"
  by (auto simp: new_rtp_def new_mirror_def split: option.splits)

lemma publish_rtp_accounted:
  assumes "x_accounted i conns x" and "conn_rtp (x_conn x) = None" and "0 < conn_setup (x_conn x)"
    and "\<And>a r. rtp = Some (a, r) \<Longrightarrow> a \<notin> live_set (rtps (x_raop x))"
  shows "x_accounted i conns (x\<lparr>x_raop := publish_rtp rtp (x_raop x),
    x_conn := (x_conn x)\<lparr>conn_rtp := map_option fst rtp\<rparr>\<rparr>)"
proof (cases rtp)
  case None
  then show ?thesis using assms(1-3) by (simp add: publish_rtp_def x_accounted_iff conn_fine_def)
next
  case (Some ar)
  then obtain a r where rtp: "rtp = Some (a, r)" by (cases ar) simp
  note own = owned_add' [where ptrs = "map rtp_ptr conns" and i = i and slots = "active_rtps (x_raop x)" and a = a
      and alive = "live_set (rtps (x_raop x))"]
  show ?thesis
    using assms(1-3) assms(4) [OF rtp] own rtp
    by (auto simp: publish_rtp_def x_accounted_iff raop_add_active_rtp_def raop_has_active_rtp_def live_new conn_fine_def)
qed

lemma publish_mirror_accounted:
  assumes "x_accounted i conns x" and "conn_mirror (x_conn x) = None" and "0 < conn_setup (x_conn x)"
    and "\<And>a r. mirror = Some (a, r) \<Longrightarrow> a \<notin> live_set (mirrors (x_raop x))"
  shows "x_accounted i conns (x\<lparr>x_raop := publish_mirror mirror (x_raop x),
    x_conn := (x_conn x)\<lparr>conn_mirror := map_option fst mirror\<rparr>\<rparr>)"
proof (cases mirror)
  case None
  then show ?thesis using assms(1-3) by (simp add: publish_mirror_def x_accounted_iff conn_fine_def)
next
  case (Some ar)
  then obtain a r where mirror: "mirror = Some (a, r)" by (cases ar) simp
  note own = owned_add' [where ptrs = "map mirror_ptr conns" and i = i and slots = "active_mirrors (x_raop x)" and a = a
      and alive = "live_set (mirrors (x_raop x))"]
  show ?thesis
    using assms(1-3) assms(4) [OF mirror] own mirror
    by (auto simp: publish_mirror_def x_accounted_iff raop_add_active_mirror_def raop_has_active_mirror_def live_new conn_fine_def)
qed

lemma publish_rtp_mirrors [simp]: "mirrors (publish_rtp rtp raop) = mirrors raop"
  by (auto simp: publish_rtp_def raop_add_active_rtp_def split: option.splits)

lemma setup_sessions_accounted:
  assumes "setup_sessions env k iv p x = Some y" and acc: "x_accounted i conns x"
    and fresh: "fresh_addresses env (x_raop x)" and none: "conn_rtp (x_conn x) = None" "conn_mirror (x_conn x) = None"
    and pos: "0 < conn_setup (x_conn x)"
  shows "x_accounted i conns y"
proof -
  obtain rtp mirror where new: "new_rtp env (x_conn x) k iv p = Some rtp" "new_mirror env (x_conn x) k p = Some mirror"
    and y: "y = x\<lparr>x_raop := publish_mirror mirror (publish_rtp rtp (x_raop x)),
      x_conn := (x_conn x)\<lparr>conn_rtp := map_option fst rtp, conn_mirror := map_option fst mirror\<rparr>\<rparr>"
    using assms(1) by (auto simp: setup_sessions_def bind_eq_Some_conv)
  let ?x = "x\<lparr>x_raop := publish_rtp rtp (x_raop x), x_conn := (x_conn x)\<lparr>conn_rtp := map_option fst rtp\<rparr>\<rparr>"
  have "a \<notin> live_set (rtps (x_raop x))" if "rtp = Some (a, r)" for a r
    using new_session_address(1) [of env "x_conn x" k iv p a r] new(1) fresh that
    by (auto simp: fresh_addresses_def live_set_def)
  then have "x_accounted i conns ?x" by (rule publish_rtp_accounted [OF acc none(1) pos])
  moreover have "a \<notin> live_set (mirrors (x_raop ?x))" if "mirror = Some (a, r)" for a r
    using new_session_address(2) [of env "x_conn x" k p a r] new(2) fresh that
    by (auto simp: fresh_addresses_def live_set_def)
  ultimately show ?thesis
    using publish_mirror_accounted [of i conns ?x mirror] none(2) pos by (simp add: y)
qed

lemma setup_keys_accounted:
  assumes "setup_keys env rn eiv ekey x = Some y" and "x_accounted i conns x"
    and "fresh_addresses env (x_raop x)" and "conn_setup (x_conn x) = 0"
  shows "x_accounted i conns y"
proof -
  let ?x = "x\<lparr>x_conn := (x_conn x)\<lparr>conn_setup := conn_setup (x_conn x) + 1\<rparr>\<rparr>"
  have "same_media x ?x" by (simp add: same_media_def)
  then have acc: "x_accounted i conns ?x" using accounted_same assms(2) by blast
  have none: "conn_rtp (x_conn x) = None" "conn_mirror (x_conn x) = None"
    using assms(2,4) by (auto simp: x_accounted_iff conn_fine_def)
  have "y = setup_refuse ?x \<or> (\<exists>k iv p. setup_sessions env k iv p ?x = Some y)"
    using assms(1) by (auto simp: setup_keys_def Let_def bind_eq_Some_conv split: option.splits if_splits)
  then show ?thesis
    using accounted_same [OF refuse_media acc] setup_sessions_accounted [OF _ acc] assms(3,4) none by auto
qed

lemma setup_remote_control_media: "setup_remote_control q x = Some y \<Longrightarrow> same_media x y"
  by (auto simp: setup_remote_control_def bind_eq_Some_conv split: if_splits intro: with_rtp_media)

lemma fresh_iff: "fresh_addresses env raop \<longleftrightarrow>
    (\<forall>a. e_new_rtp env = Some a \<longrightarrow> a \<notin> live_set (rtps raop)) \<and>
    (\<forall>a. e_new_mirror env = Some a \<longrightarrow> a \<notin> live_set (mirrors raop))"
  by (auto simp: fresh_addresses_def live_set_def split: option.splits)

lemma fresh_same: "same_media x y \<Longrightarrow> fresh_addresses env (x_raop x) = fresh_addresses env (x_raop y)"
  by (simp add: fresh_iff same_media_def)

lemma setup_cases:
  assumes "raop_handler_setup env q x = Some y" and "setup_remote_control q x = Some x1"
  shows "y = setup_refuse x1 \<or> (\<exists>rn eiv ekey. setup_keys env rn eiv ekey x1 = Some y \<and> conn_setup (x_conn x1) = 0) \<or>
      (\<exists>sn. setup_mirror env sn x1 = Some y) \<or> (\<exists>sn. setup_audio env sn x1 = Some y)"
proof -
  obtain transport where hd: "http_request_get_header q (bytes ''Transport'') = Some transport"
    using assms by (auto simp: raop_handler_setup_def Let_def split_def bind_eq_Some_conv)
  obtain root where root: "body_plist (fst (http_request_get_data q)) (snd (http_request_get_data q)) = Some root"
    using assms hd by (cases "body_plist (fst (http_request_get_data q)) (snd (http_request_get_data q))")
      (simp_all add: raop_handler_setup_def Let_def split_def)
  show ?thesis
  proof (cases root)
    case None
    then show ?thesis using assms hd root by (simp add: raop_handler_setup_def Let_def split_def)
  next
    case (Some rn)
    let ?sn = "plist_array_get_item (plist_dict_get_item (Some rn) (bytes ''streams'')) 0"
    have logs: "raop_handler_log_dict_summary (Some rn) = Some ()" "raop_handler_log_dict_summary ?sn = Some ()"
      using assms hd root Some by (simp_all add: raop_handler_setup_def Let_def split_def bind_eq_Some_conv del: not_None_eq)
    obtain ty where "setup_stream_type ?sn = Some ty"
      using assms hd root Some logs by (simp add: raop_handler_setup_def Let_def split_def bind_eq_Some_conv) blast
    then show ?thesis
      using assms hd root Some logs by (auto simp: raop_handler_setup_def Let_def split_def split: option.splits if_splits)
  qed
qed

lemma raop_handler_setup_accounted:
  assumes "raop_handler_setup env q x = Some y" and "x_accounted i conns x" and "fresh_addresses env (x_raop x)"
  shows "x_accounted i conns y"
proof -
  obtain x1 where x1: "setup_remote_control q x = Some x1"
    using assms(1) by (auto simp: raop_handler_setup_def Let_def split_def bind_eq_Some_conv)
  have acc: "x_accounted i conns x1" and fresh: "fresh_addresses env (x_raop x1)"
    using setup_remote_control_media [OF x1] accounted_same fresh_same assms(2,3) by blast+
  have pos: "0 \<le> conn_setup (x_conn x1)" using acc by (simp add: x_accounted_iff conn_fine_def)
  consider (refuse) "y = setup_refuse x1"
    | (keys) rn eiv ekey where "setup_keys env rn eiv ekey x1 = Some y" "conn_setup (x_conn x1) = 0"
    | (mirror) sn where "setup_mirror env sn x1 = Some y"
    | (audio) sn where "setup_audio env sn x1 = Some y"
    using setup_cases [OF assms(1) x1] by blast
  then show ?thesis
  proof cases
    case refuse
    then show ?thesis using accounted_same [OF refuse_media acc] by simp
  next
    case keys
    then show ?thesis using setup_keys_accounted acc fresh by blast
  next
    case mirror
    then show ?thesis using accounted_same [OF setup_mirror_media acc] pos by simp
  next
    case audio
    then show ?thesis using accounted_same [OF setup_audio_media acc] pos by simp
  qed
qed

lemma handle_request_accounted:
  assumes "handle_request kind env q x = Some y" and "x_accounted i conns x" and "fresh_addresses env (x_raop x)"
  shows "x_accounted i conns y"
proof (cases "kind = Req_Setup \<or> kind = Req_Teardown")
  case True
  then show ?thesis
    using assms raop_handler_setup_accounted conn_teardown_accounted by fastforce
next
  case False
  then have "same_media x y" using assms(1) by (cases kind) (auto dest: media)
  then show ?thesis using assms(2) by (rule accounted_same)
qed

lemma conn_request_accounted:
  assumes "conn_request env raop conn q = Some (raop', conn', resp)" and "accounted raop conns"
    and "i < length conns" "conns ! i = Some conn" and "fresh_addresses env raop"
  shows "accounted raop' (conns[i := Some conn'])"
proof -
  have "conns[i := Some conn] = conns" using assms(3,4) by (metis list_update_id)
  then have acc: "x_accounted i conns \<lparr> x_raop = raop, x_conn = conn, x_response = r, x_data = None, x_datalen = 0 \<rparr>" for r
    using assms(2,3) by (simp add: x_accounted_def)
  obtain cseq where cseq: "http_request_get_header q (bytes ''CSeq'') = Some cseq"
    using assms(1) by (auto simp: conn_request_def bind_eq_Some_conv)
  have "raop' = raop \<and> conn' = conn \<or> (\<exists>r kind y. handle_request kind env q
      \<lparr> x_raop = raop, x_conn = conn, x_response = r, x_data = None, x_datalen = 0 \<rparr> = Some y \<and>
      raop' = x_raop y \<and> conn' = x_conn y)"
    using assms(1) unfolding conn_request_def cseq
    by (cases "http_request_get_method q"; cases cseq) (auto simp: bind_eq_Some_conv)
  then show ?thesis
  proof
    assume "raop' = raop \<and> conn' = conn"
    then show ?thesis using acc by (simp add: x_accounted_def)
  next
    assume "\<exists>r kind y. handle_request kind env q
      \<lparr> x_raop = raop, x_conn = conn, x_response = r, x_data = None, x_datalen = 0 \<rparr> = Some y \<and>
      raop' = x_raop y \<and> conn' = x_conn y"
    then obtain r kind y where "handle_request kind env q
      \<lparr> x_raop = raop, x_conn = conn, x_response = r, x_data = None, x_datalen = 0 \<rparr> = Some y"
      and y: "raop' = x_raop y" "conn' = x_conn y" by blast
    from handle_request_accounted [OF this(1) acc] assms(5) show ?thesis by (simp add: x_accounted_def y)
  qed
qed

lemma conn_init_fine:
  "conn_init a b c d raop local remote len = Some (Some conn) \<Longrightarrow>
     conn_fine conn \<and> conn_rtp conn = None \<and> conn_mirror conn = None \<and>
     status (conn_pairing conn) = STATUS_INITIAL"
  by (auto simp: conn_init_def conn_fine_def pairing_session_init_def bind_eq_Some_conv split: option.splits if_splits)

lemma accounted_slot:
  assumes "accounted raop conns" and "i < length conns" "conns ! i = Some conn"
  shows "accounted raop conns \<longleftrightarrow> x_accounted i conns \<lparr> x_raop = raop, x_conn = conn, x_response = r, x_data = d, x_datalen = n \<rparr>"
  using assms by (metis exchange.select_convs(1,2) list_update_id x_accounted_def)

lemma accounted_none:
  assumes "accounted raop conns" and "i < length conns" "rtp_ptr (conns ! i) = None" "mirror_ptr (conns ! i) = None"
    and "pred_option conn_fine c" "rtp_ptr c = None" "mirror_ptr c = None"
  shows "accounted raop (conns[i := c])"
proof -
  have "(map rtp_ptr conns)[i := None] = map rtp_ptr conns" "(map mirror_ptr conns)[i := None] = map mirror_ptr conns"
    using assms(2-4) by (metis list_update_id nth_map)+
  then show ?thesis
    using assms by (auto simp: accounted_def map_update nth_list_update)
qed

lemma conn_destroy_accounted:
  assumes "accounted raop conns" and "i < length conns" "conns ! i = Some conn"
  shows "\<exists>raop'. conn_destroy raop conn = Some raop' \<and> accounted raop' (conns[i := None])"
proof -
  have acc: "length (active_rtps raop) = MAX_ACTIVE_SESSIONS" "length (active_mirrors raop) = MAX_ACTIVE_SESSIONS"
    "owned (active_rtps raop) ((map rtp_ptr conns)[i := conn_rtp conn]) (live_set (rtps raop))"
    "owned (active_mirrors raop) ((map mirror_ptr conns)[i := conn_mirror conn]) (live_set (mirrors raop))"
    "\<forall>j < length conns. j \<noteq> i \<longrightarrow> pred_option conn_fine (conns ! j)"
    using accounted_slot [OF assms] assms(1) by (auto simp: x_accounted_iff)
  have rtp: "\<exists>raop1. (case conn_rtp conn of None \<Rightarrow> Some raop
      | Some a \<Rightarrow> if \<not> raop_has_active_rtp raop a then raop_rtp_destroy (Some a) raop else Some raop) = Some raop1 \<and>
      active_rtps raop1 = active_rtps raop \<and> active_mirrors raop1 = active_mirrors raop \<and> mirrors raop1 = mirrors raop \<and>
      owned (active_rtps raop) ((map rtp_ptr conns)[i := None]) (live_set (rtps raop1))"
  proof (cases "conn_rtp conn")
    case (Some a)
    have "a \<in> live_set (rtps raop)"
      using owned_remove'(2) [where ptrs = "map rtp_ptr conns" and i = i] acc(3) Some assms(2) by auto
    then show ?thesis
      using owned_leave' [where ptrs = "map rtp_ptr conns" and i = i and a = a and slots = "active_rtps raop"
          and alive = "live_set (rtps raop)"] acc(3) Some assms(2)
      by (auto simp: raop_rtp_destroy_def raop_has_active_rtp_def dest!: liveD split: if_splits)
  qed (use acc(3) in simp)
  then obtain raop1 where raop1: "(case conn_rtp conn of None \<Rightarrow> Some raop
      | Some a \<Rightarrow> if \<not> raop_has_active_rtp raop a then raop_rtp_destroy (Some a) raop else Some raop) = Some raop1"
      "active_rtps raop1 = active_rtps raop" "active_mirrors raop1 = active_mirrors raop" "mirrors raop1 = mirrors raop"
      "owned (active_rtps raop) ((map rtp_ptr conns)[i := None]) (live_set (rtps raop1))" by blast
  have "\<exists>raop2. (case conn_mirror conn of None \<Rightarrow> Some raop1
      | Some a \<Rightarrow> if \<not> raop_has_active_mirror raop1 a then raop_rtp_mirror_destroy (Some a) raop1 else Some raop1) = Some raop2 \<and>
      active_rtps raop2 = active_rtps raop \<and> active_mirrors raop2 = active_mirrors raop \<and> rtps raop2 = rtps raop1 \<and>
      owned (active_mirrors raop) ((map mirror_ptr conns)[i := None]) (live_set (mirrors raop2))"
  proof (cases "conn_mirror conn")
    case (Some a)
    have "a \<in> live_set (mirrors raop)"
      using owned_remove'(2) [where ptrs = "map mirror_ptr conns" and i = i] acc(4) Some assms(2) by auto
    then show ?thesis
      using owned_leave' [where ptrs = "map mirror_ptr conns" and i = i and a = a and slots = "active_mirrors raop"
          and alive = "live_set (mirrors raop)"] acc(4) Some assms(2) raop1(2-4)
      by (auto simp: raop_rtp_mirror_destroy_def raop_has_active_mirror_def dest!: liveD split: if_splits)
  qed (use acc(4) raop1(2-4) in simp)
  then obtain raop2 where "(case conn_mirror conn of None \<Rightarrow> Some raop1
      | Some a \<Rightarrow> if \<not> raop_has_active_mirror raop1 a then raop_rtp_mirror_destroy (Some a) raop1 else Some raop1) = Some raop2"
      "active_rtps raop2 = active_rtps raop" "active_mirrors raop2 = active_mirrors raop" "rtps raop2 = rtps raop1"
      "owned (active_mirrors raop) ((map mirror_ptr conns)[i := None]) (live_set (mirrors raop2))" by blast
  with raop1 show ?thesis
    using acc assms(2) by (auto simp: conn_destroy_def accounted_def map_update nth_list_update)
qed

lemma raop_step_accounted:
  assumes "raop_step s t" and "accounted (fst s) (snd s)"
  shows "accounted (fst t) (snd t)"
  using assms
proof cases
  case (step_connect i conns a b c d raop local remote len conn)
  then show ?thesis
    using conn_init_fine [OF step_connect(5)] accounted_none [of raop conns i "Some conn"] assms(2) by simp
next
  case (step_request i conns conn env raop request raop' conn' resp)
  then show ?thesis using conn_request_accounted assms(2) by simp
next
  case (step_close i conns conn raop raop')
  then show ?thesis using conn_destroy_accounted assms(2) by fastforce
next
  case (step_threads rs raop ms conns)
  then show ?thesis using assms(2) by (simp add: accounted_def)
qed

lemma raop_init_accounted:
  "raop_init a b c p d n cbs = Some (Some raop) \<Longrightarrow> accounted raop (replicate k None)"
  by (auto simp: raop_init_def accounted_def owned_def unshared_def reach_def live_set_def bind_eq_Some_conv
      split: if_splits)

text \<open>Emptying the tables, when no connection is left: the slots below \<open>k\<close> are empty.\<close>

definition tables_only :: "nat \<Rightarrow> ('aes, 'alac, 'aac) raop \<Rightarrow> bool" where
  "tables_only k raop \<longleftrightarrow>
     length (active_rtps raop) = MAX_ACTIVE_SESSIONS \<and> length (active_mirrors raop) = MAX_ACTIVE_SESSIONS \<and>
     owned (active_rtps raop) [] (live_set (rtps raop)) \<and> owned (active_mirrors raop) [] (live_set (mirrors raop)) \<and>
     (\<forall>j < k. active_rtps raop ! j = None \<and> active_mirrors raop ! j = None)"

lemma destroy_rtp_slot:
  assumes "owned (active_rtps raop) [] (live_set (rtps raop))" and "i < length (active_rtps raop)"
  shows "\<exists>raop'. raop_rtp_destroy (active_rtps raop ! i) raop = Some raop' \<and> active_rtps raop' = active_rtps raop \<and>
    active_mirrors raop' = active_mirrors raop \<and> mirrors raop' = mirrors raop \<and>
    owned ((active_rtps raop)[i := None]) [] (live_set (rtps raop'))"
  using owned_slot [OF assms(1) _ assms(2)]
  by (cases "active_rtps raop ! i") (auto simp: raop_rtp_destroy_def reach_def dest: liveD)

lemma destroy_mirror_slot:
  assumes "owned (active_mirrors raop) [] (live_set (mirrors raop))" and "i < length (active_mirrors raop)"
  shows "\<exists>raop'. raop_rtp_mirror_destroy (active_mirrors raop ! i) raop = Some raop' \<and> active_rtps raop' = active_rtps raop \<and>
    active_mirrors raop' = active_mirrors raop \<and> rtps raop' = rtps raop \<and>
    owned ((active_mirrors raop)[i := None]) [] (live_set (mirrors raop'))"
  using owned_slot [OF assms(1) _ assms(2)]
  by (cases "active_mirrors raop ! i") (auto simp: raop_rtp_mirror_destroy_def reach_def dest: liveD)

lemma destroy_slot_tables:
  assumes "tables_only k raop" and "k < MAX_ACTIVE_SESSIONS"
  shows "\<exists>raop'. destroy_slot raop k = Some raop' \<and> tables_only (Suc k) raop'"
proof -
  obtain raop1 where 1: "raop_rtp_destroy (active_rtps raop ! k) raop = Some raop1" "active_rtps raop1 = active_rtps raop"
    "active_mirrors raop1 = active_mirrors raop" "mirrors raop1 = mirrors raop"
    "owned ((active_rtps raop)[k := None]) [] (live_set (rtps raop1))"
    using destroy_rtp_slot [of raop k] assms by (auto simp: tables_only_def)
  let ?raop1 = "raop1\<lparr>active_rtps := (active_rtps raop1)[k := None]\<rparr>"
  obtain raop2 where 2: "raop_rtp_mirror_destroy (active_mirrors raop ! k) ?raop1 = Some raop2"
    "active_rtps raop2 = (active_rtps raop)[k := None]" "active_mirrors raop2 = active_mirrors raop"
    "rtps raop2 = rtps raop1" "owned ((active_mirrors raop)[k := None]) [] (live_set (mirrors raop2))"
    using destroy_mirror_slot [of ?raop1 k] assms 1 by (auto simp: tables_only_def)
  from 1 2 assms show ?thesis
    by (auto simp: destroy_slot_def tables_only_def less_Suc_eq)
qed

lemma destroy_slots_tables:
  "k \<le> MAX_ACTIVE_SESSIONS \<Longrightarrow> tables_only k raop \<Longrightarrow>
     \<exists>raop'. destroy_slots [k..<MAX_ACTIVE_SESSIONS] raop = Some raop' \<and> tables_only MAX_ACTIVE_SESSIONS raop'"
proof (induction "MAX_ACTIVE_SESSIONS - k" arbitrary: k raop)
  case (Suc n)
  have k: "k < MAX_ACTIVE_SESSIONS" "n = MAX_ACTIVE_SESSIONS - Suc k" "Suc k \<le> MAX_ACTIVE_SESSIONS"
    using Suc.hyps(2) by auto
  obtain raop1 where 1: "destroy_slot raop k = Some raop1" "tables_only (Suc k) raop1"
    using destroy_slot_tables [OF Suc.prems(2) k(1)] by blast
  show ?case using Suc.hyps(1) [OF k(2,3) 1(2)] 1(1) k(1) by (simp add: upt_conv_Cons)
qed auto

lemma tables_empty: "tables_only MAX_ACTIVE_SESSIONS raop \<Longrightarrow> live_set (rtps raop) = {} \<and> live_set (mirrors raop) = {}"
  by (auto simp: tables_only_def owned_def reach_def in_set_conv_nth)

lemma destroy_active_frees:
  assumes "tables_only 0 raop"
  shows "\<exists>raop'. raop_destroy_active_sessions raop = Some raop' \<and> rtps raop' = Map.empty \<and> mirrors raop' = Map.empty"
  using destroy_slots_tables [OF _ assms] tables_empty by (force simp: raop_destroy_active_sessions_def live_set_def)

lemma accounted_tables_only:
  assumes "accounted raop conns" and "\<forall>j < length conns. conns ! j = None"
  shows "tables_only 0 raop"
proof -
  have "conns = replicate (length conns) None" using assms(2) by (simp add: list_eq_iff_nth_eq)
  then obtain n where "conns = replicate n None" ..
  with assms(1) show ?thesis by (auto simp: accounted_def tables_only_def owned_def reach_def unshared_def)
qed

lemma raop_steps_accounted:
  assumes "raop_step\<^sup>*\<^sup>* s t" and "accounted (fst s) (snd s)"
  shows "accounted (fst t) (snd t)"
  using assms by (induction rule: rtranclp_induct) (auto intro: raop_step_accounted)

section \<open>Claims\<close>

text \<open>C2: In every state the receiver can reach, whatever requests arrive on whatever connections in
  whatever order, connections close, and session threads run: each media session in memory is
  reachable from a table or from exactly one connection, every pointer to one is live, no two
  connections (and no two slots of a table) share one, and a connection without keys has none.\<close>

theorem raop_sessions_accounted:
  assumes "raop_init net_ok audio_process allocated pairing httpd_ok max_clients cbs = Some (Some raop0)"
    and "raop_step\<^sup>*\<^sup>* (raop0, replicate k None) (raop, conns)"
  shows "accounted raop conns"
  using raop_steps_accounted [OF assms(2)] raop_init_accounted [OF assms(1)] by simp

text \<open>C18: No connection ever reaches the verified state of pairing: the handler of pair-verify asks for the
  state before the first message at its start, so the signature of the sender, in the second message,
  is never looked at.\<close>

theorem raop_sender_never_verified:
  assumes "raop_init net_ok audio_process allocated pairing httpd_ok max_clients cbs = Some (Some raop0)"
    and "raop_step\<^sup>*\<^sup>* (raop0, replicate k None) (raop, conns)" and "i < length conns" "conns ! i = Some conn"
  shows "status (conn_pairing conn) \<noteq> STATUS_FINISHED"
  using raop_steps_accounted [OF assms(2)] raop_init_accounted [OF assms(1)] assms(3,4)
  by (auto simp: accounted_def conn_fine_def dest!: spec [of _ i])

text \<open>C21: A TEARDOWN that names no stream frees both sessions of its connection, takes them out of the
  tables, and clears the pointers; the application is told that the stream stopped, once by the
  thread of the mirror session and once more by the connection.\<close>

theorem conn_teardown_frees:
  assumes "conn_teardown env q x = Some y" and "request_get_stream_types env q = Some (False, False, False)"
    and "conn_rtp (x_conn x) = Some a" "rtps (x_raop x) a = Some r"
    and "conn_mirror (x_conn x) = Some b" "mirrors (x_raop x) b = Some rm"
    and "mirror_started (x_conn x)" "mirror_running rm" "\<not> mirror_joined rm"
    and "\<not> stream_stopped_notified (x_conn x)" "cb_stream_stopped (raop_callbacks (x_raop x))"
  shows "conn_rtp (x_conn y) = None \<and> conn_mirror (x_conn y) = None \<and>
    rtps (x_raop y) = (rtps (x_raop x))(a := None) \<and> mirrors (x_raop y) = (mirrors (x_raop x))(b := None) \<and>
    Some a \<notin> set (active_rtps (x_raop y)) \<and> Some b \<notin> set (active_mirrors (x_raop y)) \<and>
    (\<exists>evs. raop_log (x_raop y) = raop_log (x_raop x) @
      [Rtp_Destroyed a (snd (raop_rtp_stop r)), Mirror_Destroyed b evs, App_Stream_Stopped] \<and> Stream_Stopped \<in> set evs)"
proof -
  obtain x1 where x1: "x_header env ''Connection'' ''close'' x = Some x1"
    using assms(1) by (auto simp: conn_teardown_def bind_eq_Some_conv)
  then have x1_state: "x_raop x1 = x_raop x" "x_conn x1 = x_conn x" using answers(1) by blast+
  have "Stream_Stopped \<in> set (snd (raop_rtp_mirror_stop rm))" using mirror_stop_joins(2) assms(8,9) by blast
  with assms x1 x1_state show ?thesis
    by (auto simp: conn_teardown_def teardown_rtp_def teardown_mirror_def raop_rtp_destroy_def raop_rtp_mirror_destroy_def
        raop_remove_active_rtp_def raop_remove_active_mirror_def conn_notify_stream_stopped_def table_remove_def)
qed

section \<open>A concrete receiver\<close>

definition sample_callbacks :: raop_callbacks where
  "sample_callbacks = \<lparr> cb_video_width = None, cb_video_height = None, cb_sender_should_connect = None,
     cb_stream_stopped = True \<rparr>"

definition sample_pairing :: pairing where
  "sample_pairing = \<lparr> ed_private = replicate 64 1, ed_public = replicate 32 2 \<rparr>"

definition sample_raop :: "(unit, unit, unit) raop" where
  "sample_raop = \<lparr> raop_callbacks = sample_callbacks, raop_pairing = Some sample_pairing,
     active_rtps = replicate MAX_ACTIVE_SESSIONS None, active_mirrors = replicate MAX_ACTIVE_SESSIONS None,
     raop_port = 0, rtps = (\<lambda>_. None), mirrors = (\<lambda>_. None), raop_log = [] \<rparr>"

definition sample_conn :: raop_conn where
  "sample_conn = \<lparr> conn_rtp = None, conn_mirror = None,
     conn_fairplay = \<lparr> keymsg = replicate 164 0, keymsglen = 0 \<rparr>,
     conn_pairing = \<lparr> status = STATUS_INITIAL, s_ed_private = replicate 64 1, s_ed_ours = replicate 32 2,
       s_ed_theirs = replicate 32 0, s_ecdh_ours = replicate 32 0, s_ecdh_theirs = replicate 32 0,
       s_ecdh_secret = replicate 32 0 \<rparr>,
     conn_local = [192, 168, 0, 1], conn_remote = [192, 168, 0, 2], conn_remotelen = 4, conn_setup = 0,
     audio_started = False, mirror_started = False, stream_stopped_notified = False \<rparr>"

lemma sample_init: "raop_init True True True (Some sample_pairing) True 5 sample_callbacks = Some (Some sample_raop)"
  by (simp add: raop_init_def sample_raop_def)

lemma sample_connect:
  "raop_step\<^sup>*\<^sup>* (sample_raop, replicate 2 None) (sample_raop, [None, Some sample_conn])"
proof -
  have "conn_init True True True True sample_raop [192, 168, 0, 1] [192, 168, 0, 2] 4 = Some (Some sample_conn)"
    by (simp add: conn_init_def raop_address_to_string_def slice_def sample_raop_def sample_callbacks_def
        fairplay_init_def pairing_session_init_def sample_pairing_def sample_conn_def)
  from step_connect [OF _ _ this, of 1 "replicate 2 None"]
  have "raop_step (sample_raop, replicate 2 None) (sample_raop, [None, Some sample_conn])"
    by (simp add: numeral_2_eq_2)
  then show ?thesis ..
qed

theorem raop_sessions_accounted_witness: "accounted sample_raop [None, Some sample_conn]"
  by (rule raop_sessions_accounted [OF sample_init sample_connect])

theorem raop_sender_never_verified_witness: "status (conn_pairing sample_conn) \<noteq> STATUS_FINISHED"
  using raop_sender_never_verified [OF sample_init sample_connect, of 1] by simp

text \<open>A connection in the middle of a mirror session, and a TEARDOWN without a body.\<close>

definition conn_sample_env :: "(unit, unit, unit) raop_env" where
  "conn_sample_env = \<lparr> e_heap = sample_heap, e_codec = sample_ops, e_crypto = sample_crypto, e_seed = None,
     e_sig_buffer = replicate 64 0, e_public_key = replicate 32 0, e_signature = replicate 64 0, e_aeskey = replicate 16 0,
     e_progress = (0, 0, 0), e_addr = (\<lambda>p. 0),
     e_playfair = (\<lambda>k i. replicate 16 0), e_parse_address = (\<lambda>v q. Some []), e_new_rtp = Some 1, e_new_mirror = Some 2,
     e_mirror_buffer = True, e_audio_sockets = ((3, 5000), (4, 5001), (5, 5002)),
     e_mirror_sockets = ((6, 5003), (7, 5004), 0), e_behind = [0], e_scan_float = (\<lambda>s. None) \<rparr>"

definition teardown_request :: "unit http_request" where
  "teardown_request = \<lparr> parser = (), req_method = Some (bytes ''TEARDOWN''), req_url = None,
     headers = [Some (bytes ''CSeq''), Some (bytes ''9'')], headers_index = 1, req_data = None, req_datalen = 0,
     req_complete = True \<rparr>"

definition sample_exchange :: "(unit, unit, unit) exchange" where
  "sample_exchange =
     \<lparr> x_raop = sample_raop\<lparr>active_rtps := Some 1 # replicate 15 None, active_mirrors := Some 2 # replicate 15 None,
         rtps := [1 \<mapsto> sample_rtp], mirrors := [2 \<mapsto> sample_rm\<lparr>mirror_running := True, mirror_joined := False\<rparr>]\<rparr>,
       x_conn = sample_conn\<lparr>conn_rtp := Some 1, conn_mirror := Some 2, conn_setup := 2, mirror_started := True\<rparr>,
       x_response = \<lparr> complete = False, disconnect = False, resp_data = replicate 1024 0, data_size = 1024, data_length = 0 \<rparr>,
       x_data = None, x_datalen = 0 \<rparr>"

lemma add_header_defined:
  assumes "heap_laws heap" "heap_succeeds heap" "resp_ok r" "n \<noteq> []" "v \<noteq> []"
    and "length (resp_text r) + length n + length v + 2 \<le> 1024"
  shows "\<exists>r'. http_response_add_header heap n v r = Some r'"
proof -
  have "http_response_add_header heap n v r = add_strings heap (header_strings (n, v)) r"
    using add_headers_strings [of heap "[(n, v)]" r] by (cases "http_response_add_header heap n v r") simp_all
  moreover have "\<exists>r'. add_strings heap (header_strings (n, v)) r = Some r'"
    using add_strings_text [OF assms(1-3), of "header_strings (n, v)"] assms(4-6)
    by (auto simp: header_strings_def bytes_def)
  ultimately show ?thesis by simp
qed

lemma sample_teardown: "\<exists>y. conn_teardown conn_sample_env teardown_request sample_exchange = Some y"
proof -
  have "resp_ok (x_response sample_exchange)" "resp_text (x_response sample_exchange) = []"
    by (simp_all add: sample_exchange_def resp_ok_def resp_text_def)
  then obtain r where "http_response_add_header sample_heap (bytes ''Connection'') (bytes ''close'') (x_response sample_exchange) = Some r"
    using add_header_defined [OF sample_heap_laws, of "x_response sample_exchange" "bytes ''Connection''" "bytes ''close''"]
    by (auto simp: bytes_def)
  moreover have "e_heap conn_sample_env = sample_heap" by (simp add: conn_sample_env_def)
  moreover have "request_get_stream_types conn_sample_env teardown_request = Some (False, False, False)"
    by (simp add: request_get_stream_types_def http_request_get_data_def teardown_request_def)
  ultimately show ?thesis
    by (auto simp: conn_teardown_def x_header_def sample_exchange_def sample_conn_def teardown_rtp_def teardown_mirror_def
        raop_rtp_destroy_def raop_rtp_mirror_destroy_def raop_remove_active_rtp_def raop_remove_active_mirror_def
        conn_notify_stream_stopped_def)
qed

theorem conn_teardown_frees_witness:
  "\<exists>y. conn_teardown conn_sample_env teardown_request sample_exchange = Some y \<and>
    conn_rtp (x_conn y) = None \<and> conn_mirror (x_conn y) = None \<and>
    (\<exists>evs. raop_log (x_raop y) =
      [Rtp_Destroyed 1 (snd (raop_rtp_stop sample_rtp)), Mirror_Destroyed 2 evs, App_Stream_Stopped] \<and> Stream_Stopped \<in> set evs)"
proof -
  obtain y where y: "conn_teardown conn_sample_env teardown_request sample_exchange = Some y" using sample_teardown by blast
  have "request_get_stream_types conn_sample_env teardown_request = Some (False, False, False)"
    by (simp add: request_get_stream_types_def http_request_get_data_def teardown_request_def)
  from conn_teardown_frees [OF y this, of 1 sample_rtp 2 "sample_rm\<lparr>mirror_running := True, mirror_joined := False\<rparr>"] y
  show ?thesis by (simp add: sample_exchange_def sample_conn_def sample_raop_def sample_callbacks_def)
qed

end
