(* ===== verification/Httpd.thy ===== *)
theory Httpd
  imports Interfaces Http_Request Http_Response
begin

text \<open>
  \<^verbatim>\<open>httpd.c\<close>: the thread that serves the control connections.  What the callbacks stand for is not
  known here: they work on the state behind the \<^verbatim>\<open>opaque\<close> pointer, and on the state a connection keeps in
  its \<^verbatim>\<open>user_data\<close>.  What the sockets yield is an argument of each wake-up of the thread.
\<close>

section \<open>State\<close>

record ('w, 'u, 'p, 'e) httpd_callbacks =
  cb_conn_init :: "'e \<Rightarrow> 'w \<Rightarrow> byte list \<Rightarrow> byte list \<Rightarrow> int \<Rightarrow> ('w \<times> 'u option) option"
  cb_conn_request :: "'e \<Rightarrow> 'w \<Rightarrow> 'u \<Rightarrow> 'p http_request \<Rightarrow> ('w \<times> 'u \<times> http_response option) option"
  cb_conn_destroy :: "'w \<Rightarrow> 'u \<Rightarrow> 'w option"

record ('u, 'p) http_connection =
  connected :: bool
  socket_fd :: int
  user_data :: "'u option"
  conn_req :: "'p http_request option"

datatype httpd_event =
    Sent_Bytes int "byte list"
  | Fd_Closed int

record ('w, 'u, 'p) httpd =
  opaque :: 'w
  max_connections :: nat
  open_connections :: int
  connections :: "('u, 'p) http_connection list"
  httpd_running :: bool
  httpd_joined :: bool
  server_fd4 :: int
  server_fd6 :: int
  httpd_log :: "httpd_event list"

text \<open>
  What \<^verbatim>\<open>accept\<close> yields: an error, a connection whose own address cannot be read, or a connection
  with the two addresses and the environment in which it is set up.
\<close>

datatype ('w, 'e) accept_result =
    Accept_Error
  | Accept_No_Name int
  | Accepted int "byte list" "byte list" int "'w \<Rightarrow> 'e"

text \<open>
  A wake-up from \<^verbatim>\<open>select\<close>: for the server sockets what \<^verbatim>\<open>accept\<close> will yield, if they are readable; for
  a descriptor that is readable the result of \<^verbatim>\<open>recv\<close> and the buffer, the environment of the
  request, and the results of \<^verbatim>\<open>send\<close>.
\<close>

datatype ('w, 'e) httpd_wakeup =
    Httpd_Timeout
  | Httpd_Select_Error
  | Httpd_Ready "('w, 'e) accept_result option" "('w, 'e) accept_result option"
      "int \<Rightarrow> (int \<times> byte list \<times> ('w \<Rightarrow> 'e) \<times> int list) option"

section \<open>Operations\<close>

definition empty_connection :: "('u, 'p) http_connection" where
  "empty_connection = \<lparr> connected = False, socket_fd = 0, user_data = None, conn_req = None \<rparr>"

text \<open>The two flags are the results of the allocations.\<close>

definition httpd_init :: "bool \<Rightarrow> bool \<Rightarrow> 'w \<Rightarrow> nat \<Rightarrow> ('w, 'u, 'p) httpd option option" where
  "httpd_init ok_httpd ok_connections raop max_conns = do {
     require (max_conns > 0);
     if \<not> ok_httpd \<or> \<not> ok_connections then Some None
     else Some (Some \<lparr> opaque = raop, max_connections = max_conns, open_connections = 0,
       connections = replicate max_conns empty_connection, httpd_running = False, httpd_joined = True,
       server_fd4 = 0, server_fd6 = 0, httpd_log = [] \<rparr>)
   }"

fun first_free :: "('u, 'p) http_connection list \<Rightarrow> nat" where
  "first_free [] = 0"
| "first_free (c # cs) = (if connected c then Suc (first_free cs) else 0)"

definition httpd_add_connection ::
  "('w, 'u, 'p, 'e) httpd_callbacks \<Rightarrow> ('w, 'u, 'p) httpd \<Rightarrow> int \<Rightarrow> byte list \<Rightarrow> byte list \<Rightarrow> int \<Rightarrow> ('w \<Rightarrow> 'e)
     \<Rightarrow> (int \<times> ('w, 'u, 'p) httpd) option" where
  "httpd_add_connection cbs httpd fd local remote remote_len env = (
     let i = first_free (connections httpd)
     in if i = max_connections httpd then Some (-1, httpd)
        else do {
          (w, user) \<leftarrow> cb_conn_init cbs (env (opaque httpd)) (opaque httpd) local remote remote_len;
          case user of
            None \<Rightarrow> Some (-1, httpd\<lparr>opaque := w\<rparr>)
          | Some u \<Rightarrow> Some (0, httpd\<lparr>opaque := w, open_connections := open_connections httpd + 1,
              connections := (connections httpd)
                [i := (connections httpd ! i)\<lparr>socket_fd := fd, connected := True, user_data := Some u\<rparr>]\<rparr>)
        })"

definition close_fd :: "int \<Rightarrow> ('w, 'u, 'p) httpd \<Rightarrow> ('w, 'u, 'p) httpd" where
  "close_fd fd httpd = httpd\<lparr>httpd_log := httpd_log httpd @ [Fd_Closed fd]\<rparr>"

definition httpd_accept_connection ::
  "('w, 'u, 'p, 'e) httpd_callbacks \<Rightarrow> ('w, 'u, 'p) httpd \<Rightarrow> ('w, 'e) accept_result
     \<Rightarrow> (int \<times> ('w, 'u, 'p) httpd) option" where
  "httpd_accept_connection cbs httpd a = (case a of
       Accept_Error \<Rightarrow> Some (-1, httpd)
     | Accept_No_Name fd \<Rightarrow> Some (0, close_fd fd httpd)
     | Accepted fd local remote remote_len env \<Rightarrow> do {
         (ret, httpd) \<leftarrow> httpd_add_connection cbs httpd fd local remote remote_len env;
         Some (if ret = -1 then (0, close_fd fd httpd) else (1, httpd))
       })"

text \<open>The slot keeps the stale pointer to the user data, which is only looked at when it is connected.\<close>

definition httpd_remove_connection ::
  "('w, 'u, 'p, 'e) httpd_callbacks \<Rightarrow> ('w, 'u, 'p) httpd \<Rightarrow> nat \<Rightarrow> ('w, 'u, 'p) httpd option" where
  "httpd_remove_connection cbs httpd i = do {
     c \<leftarrow> rd (connections httpd) i;
     u \<leftarrow> user_data c;
     w \<leftarrow> cb_conn_destroy cbs (opaque httpd) u;
     Some (close_fd (socket_fd c) (httpd\<lparr>opaque := w, open_connections := open_connections httpd - 1,
       connections := (connections httpd)[i := c\<lparr>conn_req := None, connected := False\<rparr>]\<rparr>))
   }"

text \<open>The sending loop: how much was written; \<^verbatim>\<open>None\<close> when the results of \<^verbatim>\<open>send\<close> are used up before.\<close>

fun send_loop :: "int \<Rightarrow> int \<Rightarrow> int list \<Rightarrow> int option" where
  "send_loop written datalen sends =
     (if written < datalen
      then (case sends of
              [] \<Rightarrow> None
            | ret # sends \<Rightarrow> if ret = -1 then Some written else send_loop (written + ret) datalen sends)
      else Some written)"

declare send_loop.simps [simp del]

text \<open>A complete request is handed over, its response sent, and the connection closed if that says so.\<close>

definition httpd_answer ::
  "('w, 'u, 'p, 'e) httpd_callbacks \<Rightarrow> ('w, 'u, 'p) httpd \<Rightarrow> nat \<Rightarrow> ('w \<Rightarrow> 'e) \<Rightarrow> int list \<Rightarrow> 'p http_request
     \<Rightarrow> ('w, 'u, 'p) httpd option" where
  "httpd_answer cbs httpd i env sends request = do {
     c \<leftarrow> rd (connections httpd) i;
     u \<leftarrow> user_data c;
     (w, u, response) \<leftarrow> cb_conn_request cbs (env (opaque httpd)) (opaque httpd) u request;
     let httpd = httpd\<lparr>opaque := w, connections := (connections httpd)[i := c\<lparr>user_data := Some u, conn_req := None\<rparr>]\<rparr>;
     case response of
       None \<Rightarrow> Some httpd
     | Some r \<Rightarrow> do {
         (data, datalen) \<leftarrow> http_response_get_data r;
         written \<leftarrow> send_loop 0 datalen sends;
         sent \<leftarrow> slice 0 (nat (min written datalen)) data;
         let httpd = httpd\<lparr>httpd_log := httpd_log httpd @ [Sent_Bytes (socket_fd c) sent]\<rparr>;
         if http_response_get_disconnect r then httpd_remove_connection cbs httpd i else Some httpd
       }
   }"

text \<open>
  One slot of the loop over the connections.  The result of \<^verbatim>\<open>recv\<close> is only compared with 0: an error
  (-1) goes on to the parser as a length.
\<close>

definition serve_connection ::
  "'p http_parser_ops \<Rightarrow> (nat \<Rightarrow> bool) \<Rightarrow> ('w, 'u, 'p, 'e) httpd_callbacks
     \<Rightarrow> (int \<Rightarrow> (int \<times> byte list \<times> ('w \<Rightarrow> 'e) \<times> int list) option) \<Rightarrow> ('w, 'u, 'p) httpd \<Rightarrow> nat
     \<Rightarrow> ('w, 'u, 'p) httpd option" where
  "serve_connection ops alloc cbs readable httpd i = do {
     c \<leftarrow> rd (connections httpd) i;
     if \<not> connected c then Some httpd
     else (case readable (socket_fd c) of
         None \<Rightarrow> Some httpd
       | Some (ret, buf, env, sends) \<Rightarrow> do {
           request \<leftarrow> (case conn_req c of None \<Rightarrow> http_request_init ops (alloc 0) | Some r \<Rightarrow> Some r);
           if ret = 0 then
             httpd_remove_connection cbs (httpd\<lparr>connections := (connections httpd)[i := c\<lparr>conn_req := Some request\<rparr>]\<rparr>) i
           else do {
             (_, request) \<leftarrow> http_request_add_data ops alloc request buf ret;
             let httpd = httpd\<lparr>connections := (connections httpd)[i := c\<lparr>conn_req := Some request\<rparr>]\<rparr>;
             if http_request_has_error ops request then httpd_remove_connection cbs httpd i
             else if http_request_is_complete request then httpd_answer cbs httpd i env sends request
             else Some httpd
           }
         })
   }"

fun serve_connections ::
  "'p http_parser_ops \<Rightarrow> (nat \<Rightarrow> bool) \<Rightarrow> ('w, 'u, 'p, 'e) httpd_callbacks
     \<Rightarrow> (int \<Rightarrow> (int \<times> byte list \<times> ('w \<Rightarrow> 'e) \<times> int list) option) \<Rightarrow> nat list \<Rightarrow> ('w, 'u, 'p) httpd
     \<Rightarrow> ('w, 'u, 'p) httpd option" where
  "serve_connections ops alloc cbs readable [] httpd = Some httpd"
| "serve_connections ops alloc cbs readable (i # is) httpd = do {
     httpd \<leftarrow> serve_connection ops alloc cbs readable httpd i;
     serve_connections ops alloc cbs readable is httpd
   }"

text \<open>
  Accepting on one server socket: -1 leaves the loop, 0 starts it again, 1 goes on.  It is only
  looked at when it is there, readable, and a slot is free.
\<close>

definition httpd_accept_on ::
  "('w, 'u, 'p, 'e) httpd_callbacks \<Rightarrow> int \<Rightarrow> ('w, 'e) accept_result option \<Rightarrow> ('w, 'u, 'p) httpd
     \<Rightarrow> (int \<times> ('w, 'u, 'p) httpd) option" where
  "httpd_accept_on cbs server_fd a httpd =
     (if open_connections httpd < int (max_connections httpd) \<and> server_fd \<noteq> -1
      then (case a of None \<Rightarrow> Some (1, httpd) | Some a \<Rightarrow> httpd_accept_connection cbs httpd a)
      else Some (1, httpd))"

text \<open>One turn of the thread: whether it goes on, and the new state.\<close>

definition httpd_iteration ::
  "'p http_parser_ops \<Rightarrow> (nat \<Rightarrow> bool) \<Rightarrow> ('w, 'u, 'p, 'e) httpd_callbacks \<Rightarrow> ('w, 'e) httpd_wakeup
     \<Rightarrow> ('w, 'u, 'p) httpd \<Rightarrow> (bool \<times> ('w, 'u, 'p) httpd) option" where
  "httpd_iteration ops alloc cbs wake httpd = (case wake of
       Httpd_Timeout \<Rightarrow> Some (True, httpd)
     | Httpd_Select_Error \<Rightarrow> Some (False, httpd)
     | Httpd_Ready a4 a6 readable \<Rightarrow> do {
         (ret, httpd) \<leftarrow> httpd_accept_on cbs (server_fd4 httpd) a4 httpd;
         if ret = -1 then Some (False, httpd)
         else if ret = 0 then Some (True, httpd)
         else do {
           (ret, httpd) \<leftarrow> httpd_accept_on cbs (server_fd6 httpd) a6 httpd;
           if ret = -1 then Some (False, httpd)
           else if ret = 0 then Some (True, httpd)
           else do {
             httpd \<leftarrow> serve_connections ops alloc cbs readable [0..<max_connections httpd] httpd;
             Some (True, httpd)
           }
         }
       })"

text \<open>After the loop: all connections are removed and the server sockets closed.\<close>

fun remove_connections ::
  "('w, 'u, 'p, 'e) httpd_callbacks \<Rightarrow> nat list \<Rightarrow> ('w, 'u, 'p) httpd \<Rightarrow> ('w, 'u, 'p) httpd option" where
  "remove_connections cbs [] httpd = Some httpd"
| "remove_connections cbs (i # is) httpd = do {
     c \<leftarrow> rd (connections httpd) i;
     httpd \<leftarrow> (if connected c then httpd_remove_connection cbs httpd i else Some httpd);
     remove_connections cbs is httpd
   }"

definition httpd_thread_exit ::
  "('w, 'u, 'p, 'e) httpd_callbacks \<Rightarrow> ('w, 'u, 'p) httpd \<Rightarrow> ('w, 'u, 'p) httpd option" where
  "httpd_thread_exit cbs httpd = do {
     httpd \<leftarrow> remove_connections cbs [0..<max_connections httpd] httpd;
     let httpd = (if server_fd4 httpd \<noteq> -1 then close_fd (server_fd4 httpd) httpd\<lparr>server_fd4 := -1\<rparr> else httpd);
     let httpd = (if server_fd6 httpd \<noteq> -1 then close_fd (server_fd6 httpd) httpd\<lparr>server_fd6 := -1\<rparr> else httpd);
     Some httpd
   }"

text \<open>
  The thread against what happens around it: a stop request of another thread, changes of the state
  behind the callbacks by other threads, and its own wake-ups.  The flag tells whether it has ended.
\<close>

datatype ('w, 'e) httpd_action =
    Stop_Httpd
  | World_Change "'w \<Rightarrow> 'w"
  | Httpd_Wake "('w, 'e) httpd_wakeup"

fun httpd_thread ::
  "'p http_parser_ops \<Rightarrow> (nat \<Rightarrow> bool) \<Rightarrow> ('w, 'u, 'p, 'e) httpd_callbacks \<Rightarrow> ('w, 'u, 'p) httpd
     \<Rightarrow> ('w, 'e) httpd_action list \<Rightarrow> (bool \<times> ('w, 'u, 'p) httpd) option" where
  "httpd_thread ops alloc cbs httpd [] = Some (False, httpd)"
| "httpd_thread ops alloc cbs httpd (Stop_Httpd # xs) =
     httpd_thread ops alloc cbs (httpd\<lparr>httpd_running := False\<rparr>) xs"
| "httpd_thread ops alloc cbs httpd (World_Change f # xs) =
     httpd_thread ops alloc cbs (httpd\<lparr>opaque := f (opaque httpd)\<rparr>) xs"
| "httpd_thread ops alloc cbs httpd (Httpd_Wake wake # xs) =
     (if \<not> httpd_running httpd then map_option (Pair True) (httpd_thread_exit cbs httpd)
      else do {
        (goes_on, httpd) \<leftarrow> httpd_iteration ops alloc cbs wake httpd;
        if goes_on then httpd_thread ops alloc cbs httpd xs
        else map_option (Pair True) (httpd_thread_exit cbs httpd)
      })"

section \<open>Start and stop\<close>

text \<open>
  Starting: the result of opening the socket and of \<^verbatim>\<open>listen\<close>.  There is no IPv6 socket.  A daemon
  that is running, or whose thread was not joined yet, is left as it is.
\<close>

definition httpd_start :: "int \<Rightarrow> int \<Rightarrow> ('w, 'u, 'p) httpd \<Rightarrow> int \<times> ('w, 'u, 'p) httpd" where
  "httpd_start fd4 listen_ret httpd =
     (if httpd_running httpd \<or> \<not> httpd_joined httpd then (0, httpd)
      else (
        let httpd = httpd\<lparr>server_fd4 := fd4\<rparr>
        in if fd4 = -1 then (-1, httpd)
           else (
             let httpd = httpd\<lparr>server_fd6 := -1\<rparr>
             in if listen_ret = -1 then (-2, close_fd (-1) (close_fd fd4 httpd))
                else (1, httpd\<lparr>httpd_running := True, httpd_joined := False\<rparr>))))"

definition httpd_is_running :: "('w, 'u, 'p) httpd \<Rightarrow> bool" where
  "httpd_is_running httpd \<longleftrightarrow> httpd_running httpd \<or> \<not> httpd_joined httpd"

text \<open>Stopping, before and after the join of the thread.\<close>

definition httpd_stop_request :: "('w, 'u, 'p) httpd \<Rightarrow> ('w, 'u, 'p) httpd option" where
  "httpd_stop_request httpd =
     (if \<not> httpd_running httpd \<or> httpd_joined httpd then None else Some (httpd\<lparr>httpd_running := False\<rparr>))"

definition httpd_stop_finish :: "('w, 'u, 'p) httpd \<Rightarrow> ('w, 'u, 'p) httpd" where
  "httpd_stop_finish httpd = httpd\<lparr>httpd_joined := True\<rparr>"

section \<open>The connections of the daemon\<close>

text \<open>The user data of the slots that are connected.\<close>

definition slot_data :: "('u, 'p) http_connection \<Rightarrow> 'u option" where
  "slot_data c = (if connected c then user_data c else None)"

definition slots :: "('w, 'u, 'p) httpd \<Rightarrow> 'u option list" where
  "slots httpd = map slot_data (connections httpd)"

definition httpd_ok :: "('w, 'u, 'p) httpd \<Rightarrow> bool" where
  "httpd_ok httpd \<longleftrightarrow> length (connections httpd) = max_connections httpd \<and>
     open_connections httpd = int (length (filter connected (connections httpd))) \<and>
     (\<forall>i < max_connections httpd. connected (connections httpd ! i) \<longrightarrow> user_data (connections httpd ! i) \<noteq> None)"

lemma slots_simps [simp]:
  "length (slots httpd) = length (connections httpd)"
  "i < length (connections httpd) \<Longrightarrow> slots httpd ! i = slot_data (connections httpd ! i)"
  by (simp_all add: slots_def)

lemma open_le_max: "httpd_ok httpd \<Longrightarrow> open_connections httpd \<le> int (max_connections httpd)"
  unfolding httpd_ok_def by (metis length_filter_le of_nat_mono)

lemma first_free_free: "first_free cs < length cs \<Longrightarrow> \<not> connected (cs ! first_free cs)"
  by (induction cs) auto

lemma first_free_le: "first_free cs \<le> length cs"
  by (induction cs) auto

text \<open>Replacing one slot.\<close>

lemma httpd_ok_update:
  assumes "httpd_ok httpd" and "i < max_connections httpd"
    and "connected c \<longrightarrow> user_data c \<noteq> None"
    and "n = open_connections httpd - (if connected (connections httpd ! i) then 1 else 0) + (if connected c then 1 else 0)"
  shows "httpd_ok (httpd\<lparr>connections := (connections httpd)[i := c], open_connections := n\<rparr>)"
  using assms by (auto simp: httpd_ok_def nth_list_update count_update)

lemma slots_update: "slots (httpd\<lparr>connections := (connections httpd)[i := c]\<rparr>) = (slots httpd)[i := slot_data c]"
  by (simp add: slots_def map_update)

definition handler_callbacks ::
  "('e \<Rightarrow> 'w \<Rightarrow> byte list \<Rightarrow> byte list \<Rightarrow> int \<Rightarrow> ('w \<times> 'u option) option)
     \<Rightarrow> ('e \<Rightarrow> 'w \<Rightarrow> 'u \<Rightarrow> 'p http_request \<Rightarrow> ('w \<times> 'u \<times> http_response option) option)
     \<Rightarrow> ('w \<Rightarrow> 'u \<Rightarrow> 'w option) \<Rightarrow> ('w, 'u, 'p, 'e) httpd_callbacks" where
  "handler_callbacks i r d = \<lparr> cb_conn_init = i, cb_conn_request = r, cb_conn_destroy = d \<rparr>"

lemma handler_callbacks_simps [simp]:
  "cb_conn_init (handler_callbacks i r d) = i" "cb_conn_request (handler_callbacks i r d) = r"
  "cb_conn_destroy (handler_callbacks i r d) = d"
  by (simp_all add: handler_callbacks_def)

text \<open>The environments that come with a wake-up fit the state they are used in.\<close>

fun httpd_wakeup_fits :: "('e \<Rightarrow> 'w \<Rightarrow> bool) \<Rightarrow> ('w, 'e) httpd_wakeup \<Rightarrow> bool" where
  "httpd_wakeup_fits env_ok (Httpd_Ready a4 a6 readable) \<longleftrightarrow>
     (\<forall>fd ret buf env sends w. readable fd = Some (ret, buf, env, sends) \<longrightarrow> env_ok (env w) w)"
| "httpd_wakeup_fits env_ok _ \<longleftrightarrow> True"

fun httpd_action_fits :: "('e \<Rightarrow> 'w \<Rightarrow> bool) \<Rightarrow> ('w \<Rightarrow> 'w \<Rightarrow> bool) \<Rightarrow> ('w, 'e) httpd_action \<Rightarrow> bool" where
  "httpd_action_fits env_ok drift Stop_Httpd \<longleftrightarrow> True"
| "httpd_action_fits env_ok drift (World_Change f) \<longleftrightarrow> (\<forall>w. drift w (f w))"
| "httpd_action_fits env_ok drift (Httpd_Wake wake) \<longleftrightarrow> httpd_wakeup_fits env_ok wake"

lemma httpd_thread_append:
  assumes "httpd_thread ops alloc cbs h xs = Some (False, h')"
  shows "httpd_thread ops alloc cbs h (xs @ ys) = httpd_thread ops alloc cbs h' ys"
  using assms
proof (induction xs arbitrary: h)
  case (Cons x xs)
  show ?case
  proof (cases x)
    case (Httpd_Wake wake)
    then have run: "httpd_running h" using Cons.prems by (auto split: if_splits)
    have "httpd_iteration ops alloc cbs wake h \<noteq> None" using Cons.prems Httpd_Wake run by (intro notI) simp
    then obtain goes_on h1 where it: "httpd_iteration ops alloc cbs wake h = Some (goes_on, h1)" by fast
    then have "goes_on" using Cons.prems Httpd_Wake run by (auto split: if_splits)
    then show ?thesis using Cons.IH [of h1] Cons.prems Httpd_Wake run it by simp
  qed (use Cons in simp_all)
qed simp

lemma slot_connected: "httpd_ok h \<Longrightarrow> i < max_connections h \<Longrightarrow> connected (connections h ! i) \<longleftrightarrow> slots h ! i \<noteq> None"
  by (auto simp: httpd_ok_def slot_data_def)

lemma no_open:
  assumes "httpd_ok h" and "\<forall>i < max_connections h. slots h ! i = None"
  shows "open_connections h = 0"
proof -
  have "\<not> connected c" if "c \<in> set (connections h)" for c
  proof -
    obtain i where i: "i < length (connections h)" "connections h ! i = c" using \<open>c \<in> set (connections h)\<close>
      by (auto simp: in_set_conv_nth)
    then have "i < max_connections h" using assms(1) by (simp add: httpd_ok_def)
    then show ?thesis using slot_connected [OF assms(1)] assms(2) i(2) by blast
  qed
  then have "filter connected (connections h) = []" by (simp add: filter_empty_conv)
  then show ?thesis using assms(1) by (simp add: httpd_ok_def)
qed

text \<open>Handlers of HTTP requests.\<close>

locale http_handler = connection_handler conn_new serve drop_conn env_ok drift holds
  for conn_new :: "'e \<Rightarrow> 'w \<Rightarrow> byte list \<Rightarrow> byte list \<Rightarrow> int \<Rightarrow> ('w \<times> 'u option) option"
    and serve :: "'e \<Rightarrow> 'w \<Rightarrow> 'u \<Rightarrow> 'p http_request \<Rightarrow> ('w \<times> 'u \<times> http_response option) option"
    and drop_conn :: "'w \<Rightarrow> 'u \<Rightarrow> 'w option"
    and env_ok :: "'e \<Rightarrow> 'w \<Rightarrow> bool"
    and drift :: "'w \<Rightarrow> 'w \<Rightarrow> bool"
    and holds :: "'w \<Rightarrow> 'u option list \<Rightarrow> bool"
begin

definition served :: "('w, 'u, 'p) httpd \<Rightarrow> bool" where
  "served h \<longleftrightarrow> httpd_ok h \<and> holds (opaque h) (slots h)"

definition follows :: "('w, 'u, 'p) httpd \<Rightarrow> ('w, 'u, 'p) httpd \<Rightarrow> bool" where
  "follows h h' \<longleftrightarrow> served h' \<and> max_connections h' = max_connections h \<and> httpd_running h' = httpd_running h"

lemma follows_refl: "served h \<Longrightarrow> follows h h"
  by (simp add: follows_def)

lemma follows_trans: "follows h h1 \<Longrightarrow> follows h1 h2 \<Longrightarrow> follows h h2"
  by (simp add: follows_def)

lemma close_fd_follows: "follows h h1 \<Longrightarrow> follows h (close_fd fd h1)"
  by (simp add: follows_def served_def httpd_ok_def close_fd_def slots_def)

lemma add_connection_follows:
  assumes "served h" and "httpd_add_connection (handler_callbacks conn_new serve drop_conn) h fd l r n env = Some (ret, h')"
  shows "follows h h'"
proof -
  let ?i = "first_free (connections h)"
  have len: "length (connections h) = max_connections h" using assms(1) by (simp add: served_def httpd_ok_def)
  show ?thesis
  proof (cases "?i = max_connections h")
    case True
    then show ?thesis using assms by (simp add: httpd_add_connection_def follows_refl)
  next
    case False
    then have i: "?i < max_connections h" using first_free_le [of "connections h"] len by simp
    then have free: "\<not> connected (connections h ! ?i)" using first_free_free len by metis
    obtain w v where new: "conn_new (env (opaque h)) (opaque h) l r n = Some (w, v)"
      using assms(2) False by (auto simp: httpd_add_connection_def Let_def bind_eq_Some_conv)
    have "holds w ((slots h)[?i := v])"
      using new_holds [OF _ _ _ new] assms(1) i free len by (simp add: served_def slot_data_def)
    moreover have "(slots h)[?i := None] = slots h"
      using free i len list_update_id [of "slots h" ?i] by (simp add: slot_data_def)
    ultimately show ?thesis
      using assms new False i free len
      by (cases v) (auto simp: httpd_add_connection_def Let_def follows_def served_def httpd_ok_def slots_def map_update
        slot_data_def nth_list_update count_update)
  qed
qed

lemma accept_follows:
  assumes "served h" and "httpd_accept_on (handler_callbacks conn_new serve drop_conn) fd a h = Some (ret, h')"
  shows "follows h h'"
  using assms follows_refl [OF assms(1)] add_connection_follows [OF assms(1)]
  by (auto simp: httpd_accept_on_def httpd_accept_connection_def bind_eq_Some_conv close_fd_follows
      split: if_splits option.splits accept_result.splits)

lemma remove_connection_follows:
  assumes "served h" and "i < max_connections h" and "connected (connections h ! i)"
  shows "\<exists>h'. httpd_remove_connection (handler_callbacks conn_new serve drop_conn) h i = Some h' \<and> follows h h' \<and>
    slots h' = (slots h)[i := None]"
proof -
  have len: "length (connections h) = max_connections h" using assms(1) by (simp add: served_def httpd_ok_def)
  obtain u where u: "user_data (connections h ! i) = Some u" using assms by (auto simp: served_def httpd_ok_def)
  then have "slots h ! i = Some u" using assms(2,3) len by (simp add: slot_data_def)
  then obtain w where w: "drop_conn (opaque h) u = Some w" "holds w ((slots h)[i := None])"
    using drop_holds [of "opaque h" "slots h" i u] assms(1,2) len by (auto simp: served_def)
  then show ?thesis
    using assms u len
    by (auto simp: httpd_remove_connection_def close_fd_def follows_def served_def httpd_ok_def slots_def map_update
        slot_data_def nth_list_update count_update)
qed

lemma request_kept:
  assumes "served h" and "i < max_connections h"
  shows "follows h (h\<lparr>connections := (connections h)[i := (connections h ! i)\<lparr>conn_req := q\<rparr>]\<rparr>)"
proof -
  let ?c = "(connections h ! i)\<lparr>conn_req := q\<rparr>"
  have i: "i < length (connections h)" using assms by (simp add: served_def httpd_ok_def)
  have "slot_data ?c = slots h ! i" using i by (simp add: slot_data_def)
  then have "slots (h\<lparr>connections := (connections h)[i := ?c]\<rparr>) = slots h" by (simp only: slots_update list_update_id)
  then show ?thesis using assms by (auto simp: follows_def served_def httpd_ok_def nth_list_update count_update)
qed

lemma answer_follows:
  assumes "served h" and "i < max_connections h" and "connected (connections h ! i)" and "\<And>w. env_ok (env w) w"
    and "httpd_answer (handler_callbacks conn_new serve drop_conn) h i env sends q = Some h'"
  shows "follows h h'"
proof -
  let ?c = "connections h ! i"
  have i: "i < length (connections h)" using assms(1,2) by (simp add: served_def httpd_ok_def)
  obtain u w u' resp where u: "user_data ?c = Some u" and sv: "serve (env (opaque h)) (opaque h) u q = Some (w, u', resp)"
    using assms(5) i by (auto simp: httpd_answer_def bind_eq_Some_conv)
  have "slots h ! i = Some u" using u i assms(3) by (simp add: slot_data_def)
  then have held: "holds w ((slots h)[i := Some u'])"
    using serve_holds [OF _ _ _ assms(4) sv] assms(1) i by (simp add: served_def)
  define h1 where "h1 = h\<lparr>opaque := w, connections := (connections h)[i := ?c\<lparr>user_data := Some u', conn_req := None\<rparr>]\<rparr>"
  have "slots h1 = (slots h)[i := Some u']" using assms(3) by (simp add: h1_def slots_def map_update slot_data_def)
  then have h1: "follows h h1" "connected (connections h1 ! i)"
    using held assms(1-3) i by (auto simp: h1_def follows_def served_def httpd_ok_def nth_list_update count_update)
  show ?thesis
  proof (cases resp)
    case None
    then show ?thesis using assms(5) i u sv h1(1) by (simp add: httpd_answer_def h1_def)
  next
    case (Some r)
    then obtain sent where sent: "(let httpd = h1\<lparr>httpd_log := httpd_log h1 @ [Sent_Bytes (socket_fd ?c) sent]\<rparr> in
        if http_response_get_disconnect r then httpd_remove_connection (handler_callbacks conn_new serve drop_conn) httpd i
        else Some httpd) = Some h'"
      using assms(5) i u sv by (auto simp: httpd_answer_def h1_def bind_eq_Some_conv Let_def)
    let ?h2 = "h1\<lparr>httpd_log := httpd_log h1 @ [Sent_Bytes (socket_fd ?c) sent]\<rparr>"
    have h2: "follows h ?h2" "connected (connections ?h2 ! i)"
      using h1 by (auto simp: follows_def served_def httpd_ok_def slots_def)
    then obtain h3 where "httpd_remove_connection (handler_callbacks conn_new serve drop_conn) ?h2 i = Some h3" "follows ?h2 h3"
      using remove_connection_follows [of ?h2 i] assms(2) by (auto simp: follows_def)
    then show ?thesis using sent h2(1) follows_trans by (auto simp: Let_def split: if_splits)
  qed
qed

lemma serve_connection_follows:
  assumes "served h" and "i < max_connections h" and "httpd_wakeup_fits env_ok (Httpd_Ready a4 a6 readable)"
    and "serve_connection ops alloc (handler_callbacks conn_new serve drop_conn) readable h i = Some h'"
  shows "follows h h'"
proof -
  let ?c = "connections h ! i"
  let ?remove = "httpd_remove_connection (handler_callbacks conn_new serve drop_conn)"
  have i: "i < length (connections h)" using assms(1,2) by (simp add: served_def httpd_ok_def)
  show ?thesis
  proof (cases "connected ?c \<and> readable (socket_fd ?c) \<noteq> None")
    case False
    then show ?thesis using assms(1,4) i by (auto simp: serve_connection_def follows_refl split: option.splits)
  next
    case True
    then obtain ret buf env sends where rdy: "readable (socket_fd ?c) = Some (ret, buf, env, sends)" by force
    have fits: "env_ok (env w) w" for w using assms(3) rdy unfolding httpd_wakeup_fits.simps by blast
    define hq where "hq q = h\<lparr>connections := (connections h)[i := ?c\<lparr>conn_req := Some q\<rparr>]\<rparr>" for q
    have hq: "follows h (hq q)" "connected (connections (hq q) ! i)" "i < max_connections (hq q)" for q
      using request_kept [OF assms(1,2), of "Some q"] True i assms(2) by (auto simp: hq_def)
    have remove: "follows h h'" if "?remove (hq q) i = Some h'" for q
      using remove_connection_follows [of "hq q" i] hq [of q] that follows_trans by (auto simp: follows_def)
    have answer: "follows h h'"
      if "httpd_answer (handler_callbacks conn_new serve drop_conn) (hq q) i env sends q = Some h'" for q
      using answer_follows [OF _ hq(3,2) fits that] hq(1) follows_trans by (auto simp: follows_def)
    have "(\<exists>q. ?remove (hq q) i = Some h') \<or>
        (\<exists>q. httpd_answer (handler_callbacks conn_new serve drop_conn) (hq q) i env sends q = Some h') \<or> (\<exists>q. h' = hq q)"
      using assms(4) i True rdy
      by (auto simp: serve_connection_def hq_def bind_eq_Some_conv Let_def split: if_splits option.splits)
    then show ?thesis using remove answer hq(1) by blast
  qed
qed

lemma serve_connections_follows:
  assumes "served h" and "\<forall>i \<in> set is. i < max_connections h" and "httpd_wakeup_fits env_ok (Httpd_Ready a4 a6 readable)"
    and "serve_connections ops alloc (handler_callbacks conn_new serve drop_conn) readable is h = Some h'"
  shows "follows h h'"
  using assms
proof (induction "is" arbitrary: h)
  case (Cons i "is")
  then obtain h1 where h1: "serve_connection ops alloc (handler_callbacks conn_new serve drop_conn) readable h i = Some h1"
    "serve_connections ops alloc (handler_callbacks conn_new serve drop_conn) readable is h1 = Some h'"
    by (auto simp: bind_eq_Some_conv)
  have "follows h h1" using serve_connection_follows [OF Cons.prems(1) _ Cons.prems(3) h1(1)] Cons.prems(2) by simp
  then show ?case using Cons.IH [OF _ _ Cons.prems(3) h1(2)] Cons.prems(2) follows_trans by (simp add: follows_def)
qed (simp add: follows_refl)

lemma iteration_follows:
  assumes "served h" and "httpd_wakeup_fits env_ok wake"
    and "httpd_iteration ops alloc (handler_callbacks conn_new serve drop_conn) wake h = Some (goes_on, h')"
  shows "follows h h'"
proof (cases wake)
  case (Httpd_Ready a4 a6 readable)
  then obtain ret1 h1 where h1: "httpd_accept_on (handler_callbacks conn_new serve drop_conn) (server_fd4 h) a4 h = Some (ret1, h1)"
    using assms(3) by (auto simp: httpd_iteration_def bind_eq_Some_conv)
  have f1: "follows h h1" by (rule accept_follows [OF assms(1) h1])
  then have s1: "served h1" "max_connections h1 = max_connections h" by (simp_all add: follows_def)
  have f2: "follows h h2" if "httpd_accept_on (handler_callbacks conn_new serve drop_conn) (server_fd6 h1) a6 h1 = Some (ret2, h2)"
    for ret2 h2 using accept_follows [OF s1(1) that] f1 follows_trans by blast
  have f3: "follows h h3" if "follows h h2"
    and "serve_connections ops alloc (handler_callbacks conn_new serve drop_conn) readable [0..<max_connections h2] h2 = Some h3"
    for h2 h3
    using serve_connections_follows [OF _ _ _ that(2), of a4 a6] that(1) assms(2) Httpd_Ready follows_trans
    by (auto simp: follows_def)
  show ?thesis
    using assms(3) h1 f1 f2 f3 unfolding Httpd_Ready httpd_iteration_def
    by (auto simp: bind_eq_Some_conv split: if_splits)
qed (use assms in \<open>auto simp: httpd_iteration_def follows_refl\<close>)

lemma remove_connections_follows:
  assumes "served h" and "\<forall>i \<in> set is. i < max_connections h"
  shows "\<exists>h'. remove_connections (handler_callbacks conn_new serve drop_conn) is h = Some h' \<and> follows h h' \<and>
    (\<forall>i < max_connections h. i \<in> set is \<or> slots h ! i = None \<longrightarrow> slots h' ! i = None)"
  using assms
proof (induction "is" arbitrary: h)
  case (Cons i "is")
  have i: "i < max_connections h" "i < length (connections h)" and ok: "httpd_ok h"
    using Cons.prems by (auto simp: served_def httpd_ok_def)
  obtain h1 where h1: "(if connected (connections h ! i) then httpd_remove_connection (handler_callbacks conn_new serve drop_conn) h i
      else Some h) = Some h1" "follows h h1" "slots h1 = (slots h)[i := None]"
  proof (cases "connected (connections h ! i)")
    case True
    then show ?thesis using remove_connection_follows [OF Cons.prems(1) i(1)] that by auto
  next
    case False
    then have "slots h ! i = None" using i(2) by (simp add: slot_data_def)
    then have "(slots h)[i := None] = slots h" using list_update_id [of "slots h" i] by (simp only:)
    then show ?thesis using False that follows_refl [OF Cons.prems(1)] by simp
  qed
  have "served h1" "max_connections h1 = max_connections h" using h1(2) by (simp_all add: follows_def)
  with Cons.IH [of h1] Cons.prems(2) obtain h2 where
    "remove_connections (handler_callbacks conn_new serve drop_conn) is h1 = Some h2" "follows h1 h2"
    "\<forall>j < max_connections h. j \<in> set is \<or> slots h1 ! j = None \<longrightarrow> slots h2 ! j = None" by auto
  then show ?case
    using h1 i follows_trans [OF h1(2)] by (fastforce simp: nth_list_update slots_def)
qed (simp add: follows_refl)

definition closed :: "('w, 'u, 'p) httpd \<Rightarrow> bool" where
  "closed h \<longleftrightarrow> served h \<and> open_connections h = 0 \<and> slots h = replicate (max_connections h) None"

lemma thread_exit_closed:
  assumes "served h"
  shows "\<exists>h'. httpd_thread_exit (handler_callbacks conn_new serve drop_conn) h = Some h' \<and> closed h' \<and>
    max_connections h' = max_connections h \<and>
    server_fd4 h' = -1 \<and> server_fd6 h' = -1"
proof -
  obtain h1 where h1: "remove_connections (handler_callbacks conn_new serve drop_conn) [0..<max_connections h] h = Some h1"
    "follows h h1" "\<forall>i < max_connections h. slots h1 ! i = None"
    using remove_connections_follows [OF assms, of "[0..<max_connections h]"] by auto
  then have ok: "httpd_ok h1" and m: "max_connections h1 = max_connections h" by (simp_all add: follows_def served_def)
  from ok m have "length (slots h1) = max_connections h" by (simp add: httpd_ok_def)
  then have "closed h1"
    using h1(2,3) no_open [of h1] ok m by (auto simp: closed_def follows_def list_eq_iff_nth_eq)
  then show ?thesis
    using h1(1) m by (auto simp: httpd_thread_exit_def closed_def served_def httpd_ok_def slots_def close_fd_def)
qed

lemma thread_serves:
  assumes "served h" and "list_all (httpd_action_fits env_ok drift) xs"
    and "httpd_thread ops alloc (handler_callbacks conn_new serve drop_conn) h xs = Some (ended, h')"
  shows "served h' \<and> max_connections h' = max_connections h \<and> (ended \<longrightarrow> closed h')"
  using assms
proof (induction xs arbitrary: h)
  case (Cons x xs)
  show ?case
  proof (cases x)
    case Stop_Httpd
    then show ?thesis
      using Cons.IH [of "h\<lparr>httpd_running := False\<rparr>"] Cons.prems by (simp add: served_def httpd_ok_def slots_def)
  next
    case (World_Change f)
    then have "drift (opaque h) (f (opaque h))" using Cons.prems(2) by simp
    then have "served (h\<lparr>opaque := f (opaque h)\<rparr>)"
      using drift_holds Cons.prems(1) by (auto simp: served_def httpd_ok_def slots_def)
    then show ?thesis using Cons.IH Cons.prems(2,3) World_Change by simp
  next
    case (Httpd_Wake wake)
    show ?thesis
    proof (cases "httpd_running h")
      case False
      then show ?thesis
        using thread_exit_closed [OF Cons.prems(1)] Cons.prems(3) Httpd_Wake by (auto simp: closed_def)
    next
      case True
      then obtain goes_on h1 where it: "httpd_iteration ops alloc (handler_callbacks conn_new serve drop_conn) wake h = Some (goes_on, h1)"
        using Cons.prems(3) Httpd_Wake by (auto simp: bind_eq_Some_conv)
      have "served h1" "max_connections h1 = max_connections h"
        using iteration_follows [OF Cons.prems(1) _ it] Cons.prems(2) Httpd_Wake by (simp_all add: follows_def)
      then show ?thesis
        using thread_exit_closed [of h1] Cons.IH [of h1] Cons.prems(2,3) Httpd_Wake True it
        by (cases goes_on) (auto simp: closed_def)
    qed
  qed
qed simp

lemma thread_stops:
  assumes "served h" and "list_all (httpd_action_fits env_ok drift) xs"
    and "httpd_thread ops alloc (handler_callbacks conn_new serve drop_conn) h xs = Some (False, h')"
  shows "\<exists>h''. httpd_thread ops alloc (handler_callbacks conn_new serve drop_conn) h (xs @ [Stop_Httpd, Httpd_Wake wake]) =
      Some (True, h'') \<and> closed h''"
proof -
  have "served (h'\<lparr>httpd_running := False\<rparr>)"
    using thread_serves [OF assms] by (simp add: served_def httpd_ok_def slots_def)
  then show ?thesis
    using thread_exit_closed by (fastforce simp: httpd_thread_append [OF assms(3)])
qed

end

lemma httpd_init_ok:
  "httpd_init a b w n = Some (Some h) \<Longrightarrow> httpd_ok h \<and> opaque h = w \<and> max_connections h = n \<and>
     slots h = replicate n None \<and> httpd_joined h \<and> \<not> httpd_running h"
  by (auto simp: httpd_init_def httpd_ok_def slots_def slot_data_def empty_connection_def bind_eq_Some_conv split: if_splits)

lemma httpd_start_keeps:
  "httpd_start fd l h = (r, h') \<Longrightarrow> connections h' = connections h \<and> open_connections h' = open_connections h \<and>
     max_connections h' = max_connections h \<and> opaque h' = opaque h"
  by (auto simp: httpd_start_def close_fd_def Let_def split: if_splits)

end
