(* ===== verification/Raop_Server.thy ===== *)
theory Raop_Server
  imports Raop_Conn Httpd
begin

text \<open>
  The HTTP daemon with the connections of the receiver behind its callbacks: \<^verbatim>\<open>raop_init\<close>, \<^verbatim>\<open>raop_start\<close>,
  the thread that serves requests, \<^verbatim>\<open>raop_stop\<close> and \<^verbatim>\<open>raop_destroy\<close>.
\<close>

section \<open>The callbacks\<close>

text \<open>
  The environment of a callback: the allocations of a new connection, and what a request depends on.
\<close>

type_synonym ('aes, 'alac, 'aac) server_env = "(bool \<times> bool \<times> bool \<times> bool) \<times> ('aes, 'alac, 'aac) raop_env"

definition raop_conn_init ::
  "('aes, 'alac, 'aac) server_env \<Rightarrow> ('aes, 'alac, 'aac) raop \<Rightarrow> byte list \<Rightarrow> byte list \<Rightarrow> int
     \<Rightarrow> (('aes, 'alac, 'aac) raop \<times> raop_conn option) option" where
  "raop_conn_init env raop local remote remotelen =
     (case fst env of (ok_conn, ok_fairplay, ok_pairing, ok_addr) \<Rightarrow>
        map_option (Pair raop) (conn_init ok_conn ok_fairplay ok_pairing ok_addr raop local remote remotelen))"

definition raop_conn_request ::
  "('aes, 'alac, 'aac) server_env \<Rightarrow> ('aes, 'alac, 'aac) raop \<Rightarrow> raop_conn \<Rightarrow> 'p http_request
     \<Rightarrow> (('aes, 'alac, 'aac) raop \<times> raop_conn \<times> http_response option) option" where
  "raop_conn_request env raop conn request = conn_request (snd env) raop conn request"

definition httpd_cbs :: "(('aes, 'alac, 'aac) raop, raop_conn, 'p, ('aes, 'alac, 'aac) server_env) httpd_callbacks" where
  "httpd_cbs = handler_callbacks raop_conn_init raop_conn_request conn_destroy"

text \<open>The allocator never hands out the address of a live session; the threads of the sessions change them.\<close>

definition server_env_ok :: "('aes, 'alac, 'aac) server_env \<Rightarrow> ('aes, 'alac, 'aac) raop \<Rightarrow> bool" where
  "server_env_ok env raop \<longleftrightarrow> fresh_addresses (snd env) raop"

definition session_drift :: "('aes, 'alac, 'aac) raop \<Rightarrow> ('aes, 'alac, 'aac) raop \<Rightarrow> bool" where
  "session_drift raop raop' \<longleftrightarrow> (\<exists>rs ms. raop' = raop\<lparr>rtps := rs, mirrors := ms\<rparr> \<and>
     live_set rs = live_set (rtps raop) \<and> live_set ms = live_set (mirrors raop))"

interpretation raop_handler: connection_handler raop_conn_init raop_conn_request conn_destroy server_env_ok session_drift accounted
proof
  fix w :: "('a, 'b, 'c) raop" and us i e l r n w' v
  assume acc: "accounted w us" and i: "i < length us" "us ! i = None" and new: "raop_conn_init e w l r n = Some (w', v)"
  then obtain a b c d where w: "w' = w" and v: "conn_init a b c d w l r n = Some v"
    by (auto simp: raop_conn_init_def split: prod.splits)
  have "pred_option conn_fine v" "rtp_ptr v = None" "mirror_ptr v = None"
    using v by (cases v; simp add: conn_init_fine)+
  then show "accounted w' (us[i := v])"
    using accounted_none [OF acc i(1), of v] i(2) w by simp
next
  fix w :: "('a, 'b, 'c) raop" and us i u e and q :: "'p http_request" and w' u' resp
  assume "accounted w us" "i < length us" "us ! i = Some u" "server_env_ok e w"
    "raop_conn_request e w u q = Some (w', u', resp)"
  then show "accounted w' (us[i := Some u'])"
    using conn_request_accounted by (simp add: server_env_ok_def raop_conn_request_def)
next
  fix w :: "('a, 'b, 'c) raop" and us i u
  assume "accounted w us" "i < length us" "us ! i = Some u"
  then show "\<exists>w'. conn_destroy w u = Some w' \<and> accounted w' (us[i := None])" by (rule conn_destroy_accounted)
next
  fix w w' :: "('a, 'b, 'c) raop" and us
  assume "accounted w us" "session_drift w w'"
  then show "accounted w' us" by (auto simp: session_drift_def accounted_def)
qed

interpretation raop_server: http_handler raop_conn_init raop_conn_request conn_destroy server_env_ok session_drift accounted
  by unfold_locales

section \<open>The whole receiver\<close>

text \<open>The receiver after \<^verbatim>\<open>raop_init\<close> and \<^verbatim>\<open>raop_start\<close>.\<close>

definition raop_start ::
  "int \<Rightarrow> int \<Rightarrow> (('aes, 'alac, 'aac) raop, raop_conn, 'p) httpd
     \<Rightarrow> int \<times> (('aes, 'alac, 'aac) raop, raop_conn, 'p) httpd" where
  "raop_start fd4 listen_ret httpd = httpd_start fd4 listen_ret httpd"

definition server_started ::
  "int \<Rightarrow> (('aes, 'alac, 'aac) raop, raop_conn, 'p) httpd \<Rightarrow> bool" where
  "server_started max_clients h \<longleftrightarrow> (\<exists>net_ok audio_process allocated pairing cbs raop h0 fd4 listen_ret.
     raop_init net_ok audio_process allocated pairing True max_clients cbs = Some (Some raop) \<and>
     httpd_init True True raop (nat max_clients) = Some (Some h0) \<and> raop_start fd4 listen_ret h0 = (1, h))"

lemma started_served: "server_started n h \<Longrightarrow> raop_server.served h \<and> max_connections h = nat n"
proof -
  assume "server_started n h"
  then obtain a b c p cbs raop h0 fd l where init: "raop_init a b c p True n cbs = Some (Some raop)"
    "httpd_init True True raop (nat n) = Some (Some h0)" "httpd_start fd l h0 = (1, h)"
    by (auto simp: server_started_def raop_start_def)
  have "accounted raop (slots h0)" "httpd_ok h0" "opaque h0 = raop" "max_connections h0 = nat n"
    using raop_init_accounted [OF init(1)] httpd_init_ok [OF init(2)] by simp_all
  moreover have "slots h = slots h0" "httpd_ok h = httpd_ok h0" "opaque h = opaque h0" "max_connections h = max_connections h0"
    using httpd_start_keeps [OF init(3)] by (auto simp: slots_def httpd_ok_def)
  ultimately show ?thesis by (simp add: raop_server.served_def)
qed

abbreviation server_action_fits ::
  "(('aes, 'alac, 'aac) raop, ('aes, 'alac, 'aac) server_env) httpd_action \<Rightarrow> bool" where
  "server_action_fits \<equiv> httpd_action_fits server_env_ok session_drift"

text \<open>C12: The daemon's thread, over any sequence of wake-ups (connections, requests in any fragments, closed
  and failing sockets) and of changes by the session threads: the number of open connections is
  the number of used slots and within the limit, every used slot has its connection, and every media
  session is accounted for.\<close>

theorem raop_server_invariant:
  assumes "server_started max_clients h" and "list_all server_action_fits xs"
    and "httpd_thread ops alloc httpd_cbs h xs = Some (ended, h')"
  shows "httpd_ok h' \<and> open_connections h' \<le> max_clients \<and> accounted (opaque h') (slots h')"
proof -
  note started = started_served [OF assms(1)]
  have ok: "httpd_ok h'" "accounted (opaque h') (slots h')" "max_connections h' = nat max_clients"
    using raop_server.thread_serves [OF conjunct1 [OF started] assms(2)] assms(3) started
    unfolding httpd_cbs_def by (auto simp: raop_server.served_def)
  moreover have "0 < max_clients"
    using assms(1) by (auto simp: server_started_def raop_init_def bind_eq_Some_conv require_Some_iff)
  ultimately show ?thesis using open_le_max [OF ok(1)] by simp
qed

text \<open>C1: A receiver that is stopped ends: at the next wake-up of its thread (a second at most) every
  connection is closed, each exactly once, and destroying the receiver then frees every media
  session, those that outlived their connection included, without touching a freed one.\<close>

theorem raop_server_shutdown:
  assumes "server_started max_clients h" and "list_all server_action_fits xs"
    and "httpd_thread ops alloc httpd_cbs h xs = Some (False, h')"
  shows "\<exists>h'' raop'. httpd_thread ops alloc httpd_cbs h (xs @ [Stop_Httpd, Httpd_Wake wake]) = Some (True, h'') \<and>
    open_connections h'' = 0 \<and> (\<forall>c \<in> set (connections h''). \<not> http_connection.connected c) \<and>
    raop_destroy_active_sessions (opaque h'') = Some raop' \<and> rtps raop' = Map.empty \<and> mirrors raop' = Map.empty"
proof -
  obtain h'' where h'': "httpd_thread ops alloc httpd_cbs h (xs @ [Stop_Httpd, Httpd_Wake wake]) = Some (True, h'')"
    "raop_server.closed h''"
    using raop_server.thread_stops [OF conjunct1 [OF started_served [OF assms(1)]] assms(2)] assms(3)
    unfolding httpd_cbs_def by blast
  then have ok: "httpd_ok h''" "accounted (opaque h'') (slots h'')" "open_connections h'' = 0"
    "slots h'' = replicate (max_connections h'') None"
    unfolding raop_server.closed_def raop_server.served_def by blast+
  have "filter http_connection.connected (connections h'') = []" using ok(1,3) by (simp add: httpd_ok_def)
  then have "\<forall>c \<in> set (connections h''). \<not> http_connection.connected c" by (simp add: filter_empty_conv)
  moreover have "tables_only 0 (opaque h'')" by (rule accounted_tables_only [OF ok(2)]) (simp add: ok(4))
  ultimately show ?thesis using h''(1) ok(3) destroy_active_frees by blast
qed

section \<open>A concrete run\<close>

definition sample_wakeup :: "((unit, unit, unit) raop, (unit, unit, unit) server_env) httpd_wakeup" where
  "sample_wakeup = Httpd_Ready
     (Some (Accepted 5 [192, 168, 0, 1] [192, 168, 0, 2] 4 (\<lambda>w. ((True, True, True, True), conn_sample_env)))) None (\<lambda>fd. None)"

definition sample_httpd :: "((unit, unit, unit) raop, raop_conn, unit) httpd" where
  "sample_httpd = \<lparr> opaque = sample_raop, max_connections = 2, open_connections = 0,
     connections = replicate 2 empty_connection, httpd_running = True, httpd_joined = False,
     server_fd4 = 3, server_fd6 = -1, httpd_log = [] \<rparr>"

definition sample_served :: "((unit, unit, unit) raop, raop_conn, unit) httpd" where
  "sample_served = sample_httpd\<lparr>open_connections := 1, connections :=
     [\<lparr> connected = True, socket_fd = 5, user_data = Some sample_conn, conn_req = None \<rparr>, empty_connection]\<rparr>"

lemma sample_started: "server_started 2 sample_httpd"
proof -
  have "raop_init True True True (Some sample_pairing) True 2 sample_callbacks = Some (Some sample_raop)"
    by (simp add: raop_init_def sample_raop_def)
  moreover have "\<exists>h0. httpd_init True True sample_raop (nat 2) = Some (Some h0) \<and> raop_start 3 0 h0 = (1, sample_httpd)"
    by (simp add: httpd_init_def raop_start_def httpd_start_def sample_httpd_def)
  ultimately show ?thesis unfolding server_started_def by blast
qed

lemma sample_actions_fit: "list_all server_action_fits [Httpd_Wake sample_wakeup, Httpd_Wake Httpd_Timeout]"
  by (simp add: sample_wakeup_def)

lemma sample_thread:
  "httpd_thread sample_parser (\<lambda>n. True) httpd_cbs sample_httpd [Httpd_Wake sample_wakeup, Httpd_Wake Httpd_Timeout] =
     Some (False, sample_served)"
proof -
  have "conn_init True True True True sample_raop [192, 168, 0, 1] [192, 168, 0, 2] 4 = Some (Some sample_conn)"
    by (simp add: conn_init_def raop_address_to_string_def slice_def sample_raop_def sample_callbacks_def
        fairplay_init_def pairing_session_init_def sample_pairing_def sample_conn_def)
  then show ?thesis
    by (simp add: sample_wakeup_def sample_httpd_def sample_served_def httpd_iteration_def httpd_accept_on_def
        httpd_accept_connection_def httpd_add_connection_def httpd_cbs_def raop_conn_init_def empty_connection_def
        numeral_2_eq_2 serve_connection_def)
qed

theorem raop_server_invariant_witness:
  "httpd_ok sample_served \<and> open_connections sample_served \<le> 2 \<and> accounted (opaque sample_served) (slots sample_served)"
  by (rule raop_server_invariant [OF sample_started sample_actions_fit sample_thread])

theorem raop_server_shutdown_witness:
  "\<exists>h'' raop'. httpd_thread sample_parser (\<lambda>n. True) httpd_cbs sample_httpd
      ([Httpd_Wake sample_wakeup, Httpd_Wake Httpd_Timeout] @ [Stop_Httpd, Httpd_Wake Httpd_Timeout]) = Some (True, h'') \<and>
    open_connections h'' = 0 \<and> (\<forall>c \<in> set (connections h''). \<not> http_connection.connected c) \<and>
    raop_destroy_active_sessions (opaque h'') = Some raop' \<and> rtps raop' = Map.empty \<and> mirrors raop' = Map.empty"
  by (rule raop_server_shutdown [OF sample_started sample_actions_fit sample_thread])

end
