(* ===== verification/Bplist_Objects.thy ===== *)
theory Bplist_Objects
  imports Bplist_Write
begin

text \<open>
  What \<^verbatim>\<open>serialize_plist\<close> collects: every node of the tree is in the table, its index is that of an object
  that is the same, and the objects are nodes of the tree.
\<close>

declare split_paired_All [simp del] split_paired_Ex [simp del]

section \<open>Places in the tree\<close>

fun child_data :: "node_data \<Rightarrow> nat \<Rightarrow> node_data option" where
  "child_data (Value_Node (Plist_Array xs)) i = (if i < length xs then Some (Value_Node (xs ! i)) else None)"
| "child_data (Value_Node (Plist_Dict kvs)) i =
     (if i div 2 < length kvs
      then Some (if even i then Key_Node (fst (kvs ! (i div 2))) else Value_Node (snd (kvs ! (i div 2))))
      else None)"
| "child_data _ i = None"

fun data_at :: "node_data \<Rightarrow> nat list \<Rightarrow> node_data option" where
  "data_at root [] = Some root"
| "data_at root (i # p) = Option.bind (data_at root p) (\<lambda>d. child_data d i)"

definition in_tree :: "plist \<Rightarrow> node \<Rightarrow> bool" where
  "in_tree plist n \<longleftrightarrow> data_at (Value_Node plist) (fst n) = Some (snd n)"

lemma in_tree_root: "in_tree plist ([], Value_Node plist)"
  by (simp add: in_tree_def)

lemma child_place:
  "c \<in> set (node_children n) \<Longrightarrow> \<exists>i. fst c = i # fst n \<and> child_data (snd n) i = Some (snd c)"
proof (induction n rule: node_children.induct)
  case (1 p xs)
  then obtain i x where "c = (i # p, Value_Node x)" "i < length xs" "xs ! i = x" by (auto simp: in_set_enumerate_eq)
  then show ?case by auto
next
  case (2 p kvs)
  then obtain i k v where "i < length kvs" "kvs ! i = (k, v)"
    "c = ((2 * i) # p, Key_Node k) \<or> c = ((2 * i + 1) # p, Value_Node v)"
    by (auto simp: in_set_enumerate_eq)
  then show ?case by auto
qed simp_all

lemma in_tree_child: "in_tree plist n \<Longrightarrow> c \<in> set (node_children n) \<Longrightarrow> in_tree plist c"
  using child_place by (fastforce simp: in_tree_def)

lemma in_tree_same: "in_tree plist m \<Longrightarrow> in_tree plist n \<Longrightarrow> fst m = fst n \<Longrightarrow> m = n"
  by (simp add: in_tree_def prod_eq_iff)

section \<open>The invariant of the collection\<close>

abbreviation index_of :: "(nat list \<Rightarrow> u64) \<Rightarrow> serialize_s \<Rightarrow> node \<Rightarrow> nat option" where
  "index_of addr ser \<equiv> hash_table_lookup (plist_data_hash addr) plist_data_compare (ref_table ser)"

definition ser_ok :: "(nat list \<Rightarrow> u64) \<Rightarrow> plist \<Rightarrow> serialize_s \<Rightarrow> bool" where
  "ser_ok addr plist ser \<longleftrightarrow>
     length (ref_table ser) = 4096 \<and>
     (\<forall>n i. index_of addr ser n = Some i \<longrightarrow> i < length (objects ser) \<and> plist_data_compare (objects ser ! i) n) \<and>
     (\<forall>n \<in> set (objects ser). in_tree plist n)"

text \<open>A later state knows what an earlier one knew, and the children of the objects added between them.\<close>

definition ser_grows :: "(nat list \<Rightarrow> u64) \<Rightarrow> serialize_s \<Rightarrow> serialize_s \<Rightarrow> bool" where
  "ser_grows addr ser ser' \<longleftrightarrow>
     (\<forall>n i. index_of addr ser n = Some i \<longrightarrow> index_of addr ser' n = Some i) \<and>
     (\<exists>new. objects ser' = objects ser @ new \<and>
        (\<forall>n \<in> set new. \<forall>c \<in> set (node_children n). index_of addr ser' c \<noteq> None))"

lemma ser_grows_refl: "ser_grows addr ser ser"
  by (simp add: ser_grows_def)

lemma ser_grows_trans:
  assumes "ser_grows addr a b" and "ser_grows addr b c"
  shows "ser_grows addr a c"
proof -
  obtain x y where "objects b = objects a @ x" "objects c = objects b @ y"
    "\<forall>n \<in> set x. \<forall>m \<in> set (node_children n). index_of addr b m \<noteq> None"
    "\<forall>n \<in> set y. \<forall>m \<in> set (node_children n). index_of addr c m \<noteq> None"
    using assms unfolding ser_grows_def by blast
  moreover have "index_of addr c m \<noteq> None" if "index_of addr b m \<noteq> None" for m
    using that assms(2) by (auto simp: ser_grows_def)
  ultimately show ?thesis
    using assms by (auto simp: ser_grows_def)
qed

lemma fold_grows:
  assumes "\<And>c s. c \<in> set cs \<Longrightarrow> ser_ok addr plist s \<Longrightarrow>
      ser_ok addr plist (f c s) \<and> ser_grows addr s (f c s) \<and> index_of addr (f c s) c \<noteq> None"
    and "ser_ok addr plist ser"
  shows "ser_ok addr plist (fold f cs ser) \<and> ser_grows addr ser (fold f cs ser) \<and>
    (\<forall>c \<in> set cs. index_of addr (fold f cs ser) c \<noteq> None)"
  using assms
proof (induction cs arbitrary: ser)
  case (Cons c cs)
  have c: "ser_ok addr plist (f c ser)" "ser_grows addr ser (f c ser)" "index_of addr (f c ser) c \<noteq> None"
    using Cons.prems by auto
  have IH: "ser_ok addr plist (fold f cs (f c ser)) \<and> ser_grows addr (f c ser) (fold f cs (f c ser)) \<and>
    (\<forall>d \<in> set cs. index_of addr (fold f cs (f c ser)) d \<noteq> None)"
    by (rule Cons.IH [OF Cons.prems(1) c(1)]) simp
  obtain i where "index_of addr (f c ser) c = Some i" using c(3) by blast
  then have "index_of addr (fold f cs (f c ser)) c = Some i" using IH by (simp add: ser_grows_def)
  then show ?case using IH ser_grows_trans [OF c(2)] by simp
qed (simp add: ser_grows_refl)

lemma add_object:
  assumes ok: "ser_ok addr plist ser" and new: "index_of addr ser node = None" and tree: "in_tree plist node"
    and ser1: "ser1 = \<lparr>objects = objects ser @ [node],
      ref_table = hash_table_insert (plist_data_hash addr) plist_data_compare (ref_table ser) node (length (objects ser))\<rparr>"
  shows "ser_ok addr plist ser1" and "index_of addr ser1 node = Some (length (objects ser))"
    and "index_of addr ser n = Some i \<Longrightarrow> index_of addr ser1 n = Some i"
proof -
  have len: "length (ref_table ser) = 4096" using ok by (simp add: ser_ok_def)
  have look: "index_of addr ser1 n =
      (if chain_of (plist_data_hash addr) node = chain_of (plist_data_hash addr) n \<and> plist_data_compare node n
       then Some (length (objects ser)) else index_of addr ser n)" for n
    using nodes.lookup_insert [OF len] by (simp add: ser1)
  show "index_of addr ser1 node = Some (length (objects ser))"
    using nodes.lookup_inserted [OF len] by (simp add: ser1)
  show "index_of addr ser n = Some i \<Longrightarrow> index_of addr ser1 n = Some i"
    using nodes.lookup_cong [of addr node n "ref_table ser"] new by (auto simp: look)
  show "ser_ok addr plist ser1"
    unfolding ser_ok_def
  proof (intro conjI allI impI ballI)
    show "length (ref_table ser1) = 4096" using len by (simp add: ser1)
    show "in_tree plist n" if "n \<in> set (objects ser1)" for n
      using that ok tree by (auto simp: ser1 ser_ok_def)
    fix n i
    assume "index_of addr ser1 n = Some i"
    then have "i = length (objects ser) \<and> plist_data_compare node n \<or> index_of addr ser n = Some i"
      by (auto simp: look split: if_splits)
    then have "i < length (objects ser1) \<and> plist_data_compare (objects ser1 ! i) n"
      using ok by (auto simp: ser1 ser_ok_def nth_append)
    then show "i < length (objects ser1)" "plist_data_compare (objects ser1 ! i) n" by simp_all
  qed
qed

lemma serialize_grows:
  "ser_ok addr plist ser \<Longrightarrow> in_tree plist node \<Longrightarrow>
     ser_ok addr plist (serialize_plist addr node ser) \<and> ser_grows addr ser (serialize_plist addr node ser) \<and>
     index_of addr (serialize_plist addr node ser) node =
       Some (case index_of addr ser node of Some i \<Rightarrow> i | None \<Rightarrow> length (objects ser))"
proof (induction addr node ser rule: serialize_plist.induct)
  case (1 addr node ser)
  show ?case
  proof (cases "index_of addr ser node")
    case (Some i)
    then have "serialize_plist addr node ser = ser" by (simp add: serialize_plist.simps [of addr node])
    then show ?thesis using Some "1.prems" by (simp add: ser_grows_refl)
  next
    case None
    define ser1 where "ser1 = \<lparr>objects = objects ser @ [node],
      ref_table = hash_table_insert (plist_data_hash addr) plist_data_compare (ref_table ser) node (length (objects ser))\<rparr>"
    define ser2 where "ser2 = fold (serialize_plist addr) (node_children node) ser1"
    have eq: "serialize_plist addr node ser = ser2"
      by (simp add: serialize_plist.simps [of addr node] None ser1_def ser2_def Let_def)
    note add = add_object [OF "1.prems"(1) None "1.prems"(2) ser1_def]
    have kids: "ser_ok addr plist ser2 \<and> ser_grows addr ser1 ser2 \<and>
        (\<forall>c \<in> set (node_children node). index_of addr ser2 c \<noteq> None)"
      unfolding ser2_def
    proof (rule fold_grows [OF _ add(1)])
      fix c s
      assume "c \<in> set (node_children node)" and "ser_ok addr plist s"
      then show "ser_ok addr plist (serialize_plist addr c s) \<and> ser_grows addr s (serialize_plist addr c s) \<and>
          index_of addr (serialize_plist addr c s) c \<noteq> None"
        using "1.IH" None in_tree_child [OF "1.prems"(2)] by simp
    qed
    obtain new where new: "objects ser2 = objects ser1 @ new"
      "\<forall>n \<in> set new. \<forall>c \<in> set (node_children n). index_of addr ser2 c \<noteq> None"
      "\<And>n i. index_of addr ser1 n = Some i \<Longrightarrow> index_of addr ser2 n = Some i"
      using kids unfolding ser_grows_def by blast
    have "ser_grows addr ser ser2"
      unfolding ser_grows_def
    proof (intro conjI allI impI exI)
      show "objects ser2 = objects ser @ (node # new)" by (simp add: new(1) ser1_def)
      show "\<forall>n \<in> set (node # new). \<forall>c \<in> set (node_children n). index_of addr ser2 c \<noteq> None"
        using kids new(2) by simp
    qed (rule new(3) [OF add(3)])
    then show ?thesis using kids new(3) [OF add(2)] by (simp add: eq None)
  qed
qed

section \<open>The objects of a list\<close>

definition objects_of :: "(nat list \<Rightarrow> u64) \<Rightarrow> plist \<Rightarrow> serialize_s" where
  "objects_of addr plist = serialize_plist addr ([], Value_Node plist) \<lparr>objects = [], ref_table = hash_table_new\<rparr>"

lemma objects_of_ok:
  shows "index_of addr (objects_of addr plist) n = Some i \<Longrightarrow> i < length (objects (objects_of addr plist))"
    and "index_of addr (objects_of addr plist) n = Some i \<Longrightarrow> plist_data_compare (objects (objects_of addr plist) ! i) n"
    and "n \<in> set (objects (objects_of addr plist)) \<Longrightarrow> in_tree plist n"
    and "n \<in> set (objects (objects_of addr plist)) \<Longrightarrow> c \<in> set (node_children n) \<Longrightarrow>
      index_of addr (objects_of addr plist) c \<noteq> None"
    and "index_of addr (objects_of addr plist) ([], Value_Node plist) = Some 0"
proof -
  let ?empty = "\<lparr>objects = [], ref_table = hash_table_new\<rparr>"
  have none: "index_of addr ?empty n = None" for n by (simp add: nodes.lookup_new)
  have empty: "ser_ok addr plist ?empty" by (simp add: ser_ok_def nodes.lookup_new)
  note all = serialize_grows [OF empty in_tree_root, folded objects_of_def]
  show "index_of addr (objects_of addr plist) n = Some i \<Longrightarrow> i < length (objects (objects_of addr plist))"
    "index_of addr (objects_of addr plist) n = Some i \<Longrightarrow> plist_data_compare (objects (objects_of addr plist) ! i) n"
    "n \<in> set (objects (objects_of addr plist)) \<Longrightarrow> in_tree plist n"
    using all by (auto simp: ser_ok_def)
  show "n \<in> set (objects (objects_of addr plist)) \<Longrightarrow> c \<in> set (node_children n) \<Longrightarrow>
      index_of addr (objects_of addr plist) c \<noteq> None"
    using all by (auto simp: ser_grows_def)
  show "index_of addr (objects_of addr plist) ([], Value_Node plist) = Some 0"
    using all none by simp
qed

end
