(* ===== verification/Bplist_Roundtrip.thy ===== *)
theory Bplist_Roundtrip
  imports Bplist_Parse Bplist_Objects
begin

text \<open>
  Reading back what was written: the reader turns the objects that the writer shared back into the
  tree, for every list whose strings are valid text.
\<close>

unbundle bit_operations_syntax

section \<open>Lists that can be written\<close>

definition text_ok :: "byte list \<Rightarrow> bool" where
  "text_ok s \<longleftrightarrow> 0 \<notin> set s \<and> (is_ascii_string s \<or> (\<exists>cps. list_all scalar_value cps \<and> s = utf8_string cps))"

fun plist_ok :: "plist \<Rightarrow> bool" where
  "plist_ok (Plist_String s) = text_ok s"
| "plist_ok (Plist_Array xs) = (\<forall>x \<in> set xs. plist_ok x)"
| "plist_ok (Plist_Dict kvs) = (\<forall>kv \<in> set kvs. text_ok (fst kv) \<and> plist_ok (snd kv))"
| "plist_ok (Plist_Uid w) = (w \<le> 0xFFFFFFFF)"
| "plist_ok _ = True"

definition data_ok :: "node_data \<Rightarrow> bool" where
  "data_ok d = (case d of Key_Node k \<Rightarrow> text_ok k | Value_Node v \<Rightarrow> plist_ok v)"

lemma child_data_ok: "data_ok d \<Longrightarrow> child_data d i = Some e \<Longrightarrow> data_ok e"
  by (induction d i rule: child_data.induct) (auto simp: data_ok_def split: if_splits)

lemma data_at_ok: "data_ok root \<Longrightarrow> data_at root p = Some d \<Longrightarrow> data_ok d"
  by (induction p arbitrary: d) (auto simp: bind_eq_Some_conv intro: child_data_ok)

lemma in_tree_ok: "plist_ok plist \<Longrightarrow> in_tree plist n \<Longrightarrow> data_ok (snd n)"
  unfolding in_tree_def by (rule data_at_ok [of "Value_Node plist"]) (simp_all add: data_ok_def)

section \<open>Bytes at a place of the file\<close>

definition bp_at :: "bplist_data \<Rightarrow> nat \<Rightarrow> byte list \<Rightarrow> bool" where
  "bp_at bplist p xs \<longleftrightarrow>
     take (length xs) (drop p (bp_data bplist)) = xs \<and> p + length xs \<le> bp_offset_table bplist"

lemma bp_at_append:
  assumes "bplist_ok bplist"
  shows "bp_at bplist p (xs @ ys) \<longleftrightarrow> bp_at bplist p xs \<and> bp_at bplist (p + length xs) ys"
proof (cases "p + length xs + length ys \<le> bp_offset_table bplist")
  case True
  then have "length (take (length xs) (drop p (bp_data bplist))) = length xs"
    using bplist_end [OF assms] by simp
  then show ?thesis
    using True by (auto simp: bp_at_def take_add add.commute)
next
  case False
  then show ?thesis by (auto simp: bp_at_def)
qed

lemma bp_at_Cons:
  assumes "bplist_ok bplist" and "bp_at bplist p (x # xs)"
  shows "bp_at bplist p [x]" and "bp_at bplist (Suc p) xs"
  using bp_at_append [OF assms(1), of p "[x]" xs] assms(2) by simp_all

lemma bp_at_rd: "bplist_ok bplist \<Longrightarrow> bp_at bplist p [x] \<Longrightarrow> rd (bp_data bplist) p = Some x"
  using bplist_end [of bplist] by (auto simp: bp_at_def rd_def take_Suc_conv_app_nth hd_drop_conv_nth take_Suc)

lemma bp_at_slice: "bplist_ok bplist \<Longrightarrow> bp_at bplist p xs \<Longrightarrow> slice p (length xs) (bp_data bplist) = Some xs"
  using bplist_end [of bplist] by (simp add: bp_at_def slice_def)

lemma bp_at_number:
  assumes "bplist_ok bplist" and "bp_at bplist p (tail_bytes n x)" and "0 < n" and "n \<le> 8" and "unat x < 2 ^ (8 * n)"
  shows "UINT_TO_HOST (bp_data bplist) p n = Some x"
proof (rule UINT_TO_HOST_tail)
  show "drop p (bp_data bplist) = tail_bytes n x @ drop (length (tail_bytes n x)) (drop p (bp_data bplist))"
    using assms(2) by (metis append_take_drop_id bp_at_def)
  show "n < 8 \<Longrightarrow> p + 8 \<le> length (bp_data bplist)"
    using assms(2) bplist_end [OF assms(1)] by (simp add: bp_at_def)
qed (use assms in simp_all)

section \<open>Sizes\<close>

lemma marker_bits:
  assumes "mark AND 0x0F = 0" and "n < 16"
  shows "(mark OR of_nat n) AND 0xF0 = mark AND (0xF0 :: byte)" and "unat ((mark OR of_nat n) AND (0x0F :: byte)) = n"
proof -
  have m: "(0x0F :: byte) = mask 4" by (simp add: mask_eq_exp_minus_1)
  have "take_bit 4 n = n" using assms(2) by (simp add: take_bit_nat_eq_self)
  then have low: "of_nat n AND (0x0F :: byte) = of_nat n"
    by (simp only: m take_bit_eq_mask [symmetric] take_bit_of_nat)
  have "of_nat n AND (0xF0 :: byte) = (of_nat n AND 0x0F) AND 0xF0" by (simp only: low)
  also have "\<dots> = 0" by (simp add: and.assoc)
  finally have high: "of_nat n AND (0xF0 :: byte) = 0" .
  show "(mark OR of_nat n) AND 0xF0 = mark AND (0xF0 :: byte)" by (simp add: bit.conj_disj_distrib2 high)
  have "unat ((mark OR of_nat n) AND (0x0F :: byte)) = unat (of_nat n :: byte)"
    by (simp add: bit.conj_disj_distrib2 low assms(1))
  also have "\<dots> = n" using assms(2) by (simp add: unat_of_nat take_bit_nat_eq_self)
  finally show "unat ((mark OR of_nat n) AND (0x0F :: byte)) = n" .
qed

lemma int_bytes_cases: "int_bytes v \<in> {1, 2, 4, 8}"
  using get_needed_bytes_range(1) [of v] by (auto simp: int_bytes_def)

lemma int_bytes_enough: "unat v < 2 ^ (8 * int_bytes v)"
  using get_needed_bytes_enough [of v] by (auto simp: int_bytes_def)

lemma int_marker:
  "(0x10 OR Log2 (int_bytes v)) AND 0xF0 = 0x10" "2 ^ unat ((0x10 OR Log2 (int_bytes v)) AND 0x0F) = int_bytes v"
  "unat ((0x10 OR Log2 (int_bytes v)) AND 0x0F) < 15"
proof -
  consider "int_bytes v = 1" | "int_bytes v = 2" | "int_bytes v = 4" | "int_bytes v = 8"
    using int_bytes_cases [of v] by blast
  then show "(0x10 OR Log2 (int_bytes v)) AND 0xF0 = 0x10"
    "2 ^ unat ((0x10 OR Log2 (int_bytes v)) AND 0x0F) = int_bytes v"
    "unat ((0x10 OR Log2 (int_bytes v)) AND 0x0F) < 15"
    by (cases; simp add: Log2_def)+
qed

lemma write_int_at:
  assumes ok: "bplist_ok bplist" and at: "bp_at bplist p (write_int v)"
  shows "rd (bp_data bplist) p = Some (0x10 OR Log2 (int_bytes v))"
    and "UINT_TO_HOST (bp_data bplist) (Suc p) (int_bytes v) = Some v"
    and "p + 1 + int_bytes v \<le> bp_offset_table bplist" and "length (write_int v) = 1 + int_bytes v"
proof -
  have r: "0 < int_bytes v" "int_bytes v \<le> 8" using int_bytes_cases [of v] by auto
  have a: "bp_at bplist p [0x10 OR Log2 (int_bytes v)]" "bp_at bplist (Suc p) (tail_bytes (int_bytes v) v)"
    using at [unfolded write_int_def] by (rule bp_at_Cons [OF ok])+
  show "rd (bp_data bplist) p = Some (0x10 OR Log2 (int_bytes v))" by (rule bp_at_rd [OF ok a(1)])
  show "UINT_TO_HOST (bp_data bplist) (Suc p) (int_bytes v) = Some v"
    using r int_bytes_enough by (intro bp_at_number [OF ok a(2)])
  show "length (write_int v) = 1 + int_bytes v" using r by (simp add: write_int_def)
  show "p + 1 + int_bytes v \<le> bp_offset_table bplist" using a(2) r by (simp add: bp_at_def)
qed

abbreviation sized_types :: "byte set" where
  "sized_types \<equiv> {0x40, 0x50, 0x60, 0xA0, 0xC0, 0xD0}"

text \<open>An object that starts with a marker and a size is parsed as what follows them.\<close>

lemma parse_sized:
  assumes ok: "bplist_ok bplist" and at: "bp_at bplist p (size_marker mark sz)"
    and mark: "mark \<in> sized_types" and sz: "sz < 2 ^ 64"
  shows "parse_bin_node bplist parse p = parse_object bplist parse mark sz (p + length (size_marker mark sz))"
proof -
  define k where "k = (if sz < 15 then sz else 15)"
  have k: "size_marker mark sz = (mark OR of_nat k) # (if sz \<ge> 15 then write_int (of_nat sz) else [])" "k < 16"
    by (simp_all add: size_marker_def k_def)
  have m: "mark AND 0x0F = 0" "mark AND 0xF0 = mark" using mark by auto
  note b = marker_bits [OF m(1) k(2), unfolded m(2)]
  have at': "bp_at bplist p [mark OR of_nat k]" "sz \<ge> 15 \<Longrightarrow> bp_at bplist (Suc p) (write_int (of_nat sz))"
    using bp_at_Cons [OF ok at [unfolded k(1)]] by auto
  have "object_size bplist mark k (Suc p) = Some (Some (sz, p + length (size_marker mark sz)))"
  proof (cases "sz \<ge> 15")
    case True
    then have "k = 15" by (simp add: k_def)
    then show ?thesis
      using True mark write_int_at [OF ok at'(2)] int_marker sz
      by (simp add: object_size_def k(1) unat_of_nat take_bit_nat_eq_self del: insert_iff)
  next
    case False
    then show ?thesis by (simp add: object_size_def k(1)) (simp add: k_def)
  qed
  then show ?thesis
    by (simp add: parse_bin_node_def bp_at_rd [OF ok at'(1)] Let_def b)
qed

section \<open>Leaves\<close>

lemma bswap32_twice: "bswap32 (bswap32 x) = x"
proof (rule bit_word_eqI)
  fix n
  assume "n < LENGTH(32)"
  then obtain a r where "n = 8 * a + r" "a < 4" "r < 8" using byte_cases [of n 4] by auto
  then show "bit (bswap32 (bswap32 x)) n \<longleftrightarrow> bit x n" by (simp add: bit_bswap32)
qed

lemma bswap16_twice: "bswap16 (bswap16 x) = x"
proof (rule bit_word_eqI)
  fix n
  assume "n < LENGTH(16)"
  then obtain a r where n: "n = 8 * a + r" "a < 2" "r < 8" using byte_cases [of n 2] by auto
  then have "a = 0 \<or> a = 1" by linarith
  then show "bit (bswap16 (bswap16 x)) n \<longleftrightarrow> bit x n"
    using n(3) bit_bswap16 [of 0 r] bit_bswap16 [of 1 r] by (auto simp: n(1))
qed

lemma bp_at_load:
  assumes "bplist_ok bplist" and "bp_at bplist p (memory_of (w :: 'a::len word))" and "LENGTH('a) = 8 * k"
  shows "load_le (bp_data bplist) p k = Some w"
  using bp_at_slice [OF assms(1,2)] assms(3) by (simp add: load_le_def le_word_memory_of)

lemma parse_leaf:
  assumes "bplist_ok bplist" and "bp_at bplist p [b]" and "b AND 0xF0 = type" and "unat (b AND 0x0F) = sz"
    and "sz \<noteq> 15 \<or> type \<notin> sized_types"
  shows "parse_bin_node bplist parse p = parse_object bplist parse type sz (Suc p)"
  using bp_at_rd [OF assms(1,2)] assms(3-5) by (auto simp: parse_bin_node_def Let_def object_size_def)

lemma bp_at_end: "bp_at bplist p xs \<Longrightarrow> p + length xs \<le> bp_offset_table bplist"
  by (simp add: bp_at_def)

lemma parse_boolean:
  "bplist_ok bplist \<Longrightarrow> bp_at bplist p [if b then 0x09 else 0x08] \<Longrightarrow>
     parse_bin_node bplist parse p = Some (Some (Plist_Boolean b))"
  by (subst parse_leaf) (auto simp: parse_object_def split: if_splits)

lemma parse_uint:
  assumes ok: "bplist_ok bplist" and at: "bp_at bplist p (write_int w)"
  shows "parse_bin_node bplist parse p = Some (Some (Plist_Uint w))"
proof -
  define k where "k = unat ((0x10 OR Log2 (int_bytes w)) AND 0x0F)"
  have k: "2 ^ k = int_bytes w" "k < 15" using int_marker [of w] by (simp_all add: k_def)
  have sz: "shifted_size k = int_bytes w" using int_bytes_cases [of w] by (auto simp: shifted_size_def k)
  have "bp_at bplist p [0x10 OR Log2 (int_bytes w)]"
    using at [unfolded write_int_def] by (rule bp_at_Cons [OF ok])
  then have "parse_bin_node bplist parse p = parse_object bplist parse 0x10 k (Suc p)"
    using int_marker(1) [of w] by (rule parse_leaf [OF ok]) (auto simp: k_def)
  then show ?thesis
    using write_int_at [OF ok at] k int_bytes_cases [of w] sz
    by (auto simp: parse_object_def parse_uint_node_def Let_def)
qed

lemma parse_uint16:
  assumes ok: "bplist_ok bplist" and at: "bp_at bplist p (write_uint w)"
  shows "parse_bin_node bplist parse p = Some (Some (Plist_Uint16 w))"
proof -
  have parts: "bp_at bplist p [0x14]" "bp_at bplist (Suc p) (replicate 8 0 @ memory_of (bswap64 w))"
    using bp_at_Cons [OF ok at [unfolded write_uint_def]] by simp_all
  have "UINT_TO_HOST (bp_data bplist) (Suc p) 16 =
      Some (be_word (drop (16 - 8) (take 16 (drop (Suc p) (bp_data bplist)))))"
    using bp_at_end [OF parts(2)] bplist_end [OF ok] by (intro UINT_TO_HOST_value) simp_all
  moreover have "take 16 (drop (Suc p) (bp_data bplist)) = replicate 8 0 @ memory_of (bswap64 w)"
    using parts(2) by (simp add: bp_at_def)
  ultimately have "UINT_TO_HOST (bp_data bplist) (Suc p) 16 = Some w"
    by (simp add: memory_of_bswap64 le_word_memory_of [of 8])
  moreover have "parse_bin_node bplist parse p = parse_object bplist parse 0x10 4 (Suc p)"
    using parts(1) by (rule parse_leaf [OF ok]) simp_all
  ultimately show ?thesis
    using bp_at_end [OF parts(2)] by (simp add: parse_object_def parse_uint_node_def Let_def shifted_size_def)
qed

lemma parse_real:
  assumes ok: "bplist_ok bplist" and at: "bp_at bplist p (write_real d)"
  shows "parse_bin_node bplist parse p = Some (Some (Plist_Real d))"
proof (cases "exact_float d")
  case None
  then have parts: "bp_at bplist p [0x23]" "bp_at bplist (Suc p) (memory_of (bswap64 d))"
    using bp_at_Cons [OF ok at [unfolded write_real_def]] by (simp_all add: get_real_bytes_def Log2_def)
  have "parse_bin_node bplist parse p = parse_object bplist parse 0x20 3 (Suc p)"
    using parts(1) by (rule parse_leaf [OF ok]) simp_all
  moreover have "load_le (bp_data bplist) (Suc p) 8 = Some (bswap64 d)"
    by (rule bp_at_load [OF ok parts(2)]) simp
  ultimately show ?thesis
    using bp_at_end [OF parts(2)]
    by (simp add: parse_object_def parse_real_node_def Let_def shifted_size_def bswap64_twice)
next
  case (Some f)
  then have parts: "bp_at bplist p [0x22]" "bp_at bplist (Suc p) (memory_of (bswap32 f))"
    using bp_at_Cons [OF ok at [unfolded write_real_def]] by (simp_all add: get_real_bytes_def Log2_def)
  have "parse_bin_node bplist parse p = parse_object bplist parse 0x20 2 (Suc p)"
    using parts(1) by (rule parse_leaf [OF ok]) simp_all
  moreover have "load_le (bp_data bplist) (Suc p) 4 = Some (bswap32 f)"
    by (rule bp_at_load [OF ok parts(2)]) simp
  ultimately show ?thesis
    using bp_at_end [OF parts(2)] exact_float_widens [OF Some]
    by (simp add: parse_object_def parse_real_node_def Let_def shifted_size_def bswap32_twice)
qed

lemma parse_date:
  assumes ok: "bplist_ok bplist" and at: "bp_at bplist p (write_date d)"
  shows "parse_bin_node bplist parse p = Some (Some (Plist_Date d))"
proof -
  have parts: "bp_at bplist p [0x33]" "bp_at bplist (Suc p) (memory_of (bswap64 d))"
    using bp_at_Cons [OF ok at [unfolded write_date_def]] by simp_all
  have "parse_bin_node bplist parse p = parse_object bplist parse 0x30 3 (Suc p)"
    using parts(1) by (rule parse_leaf [OF ok]) simp_all
  moreover have "load_le (bp_data bplist) (Suc p) 8 = Some (bswap64 d)"
    by (rule bp_at_load [OF ok parts(2)]) simp
  ultimately show ?thesis
    using bp_at_end [OF parts(2)]
    by (simp add: parse_object_def parse_date_node_def parse_real_node_def Let_def shifted_size_def bswap64_twice)
qed

lemma parse_uid:
  assumes ok: "bplist_ok bplist" and at: "bp_at bplist p (write_uid w)" and w: "w \<le> 0xFFFFFFFF"
  shows "parse_bin_node bplist parse p = Some (Some (Plist_Uid w))"
proof -
  have "unat w \<le> unat (0xFFFFFFFF :: u64)" using w by (simp only: word_le_nat_alt)
  then have small: "unat w < 2 ^ 32" by simp
  have "ucast (ucast w :: u32) = w"
  proof -
    have "unat (ucast w :: u32) = unat w"
      using small by (simp only: unsigned_ucast_eq) (simp add: take_bit_nat_eq_self)
    then show ?thesis by (simp only: word_unat_eq_iff unat_u32_u64)
  qed
  then have body: "write_uid w = (0x80 OR of_nat (int_bytes w - 1)) # tail_bytes (int_bytes w) w"
    by (simp add: write_uid_def)
  have r: "0 < int_bytes w" "int_bytes w \<le> 8" using int_bytes_cases [of w] by auto
  have parts: "bp_at bplist p [0x80 OR of_nat (int_bytes w - 1)]" "bp_at bplist (Suc p) (tail_bytes (int_bytes w) w)"
    using at [unfolded body] by (rule bp_at_Cons [OF ok])+
  have m: "(0x80 :: byte) AND 0x0F = 0" "(0x80 :: byte) AND 0xF0 = 0x80" "int_bytes w - 1 < 16" using r by simp_all
  have "parse_bin_node bplist parse p = parse_object bplist parse 0x80 (int_bytes w - 1) (Suc p)"
    using parts(1) marker_bits [OF m(1,3)] by (intro parse_leaf [OF ok]) (simp_all only: m(2), simp)
  moreover have "UINT_TO_HOST (bp_data bplist) (Suc p) (int_bytes w) = Some w"
    using r int_bytes_enough by (intro bp_at_number [OF ok parts(2)])
  ultimately show ?thesis
    using bp_at_end [OF parts(2)] r w by (simp add: parse_object_def parse_uid_node_def Let_def not_less)
qed

lemma bp_at_small: "bplist_ok bplist \<Longrightarrow> bp_at bplist p xs \<Longrightarrow> length xs < 2 ^ 64"
  using bp_at_end [of bplist p xs] bplist_end [of bplist] by (simp add: bplist_ok_def)

lemma parse_data:
  assumes ok: "bplist_ok bplist" and at: "bp_at bplist p (write_data d)"
  shows "parse_bin_node bplist parse p = Some (Some (Plist_Data d))"
proof -
  have parts: "bp_at bplist p (size_marker 0x40 (length d))"
    "bp_at bplist (p + length (size_marker 0x40 (length d))) d"
    using at bp_at_append [OF ok] by (simp_all add: write_data_def write_raw_data_def)
  have "parse_bin_node bplist parse p =
      parse_object bplist parse 0x40 (length d) (p + length (size_marker 0x40 (length d)))"
    using bp_at_small [OF ok parts(2)] by (intro parse_sized [OF ok parts(1)]) simp_all
  then show ?thesis
    using bp_at_end [OF parts(2)] bp_at_slice [OF ok parts(2)] by (simp add: parse_object_def parse_data_node_def Let_def)
qed

lemma those_Some: "those (map (\<lambda>i. Some (f i)) xs) = Some (map f xs)"
  by (induction xs) simp_all

lemma drop_units: "drop (2 * i) (concat (map (memory_of :: u16 \<Rightarrow> byte list) us)) = concat (map memory_of (drop i us))"
proof (induction us arbitrary: i)
  case (Cons u us)
  then show ?case by (cases i) simp_all
qed simp

lemma load_units:
  assumes ok: "bplist_ok bplist" and at: "bp_at bplist p (concat (map memory_of us))"
  shows "those (map (\<lambda>i. load_le (bp_data bplist) (p + 2 * i) 2) [0..<length us]) = Some (us :: u16 list)"
proof -
  have "load_le (bp_data bplist) (p + 2 * i) 2 = Some (us ! i)" if i: "i < length us" for i
  proof (rule bp_at_load [OF ok])
    let ?front = "take (2 * i) (concat (map memory_of us))"
    have "concat (map memory_of us) = ?front @ memory_of (us ! i) @ concat (map memory_of (drop (Suc i) us))"
      using drop_units [of i us] i by (metis append_take_drop_id Cons_nth_drop_Suc list.simps(9) concat.simps(2))
    moreover have "length (concat (map memory_of us)) = 2 * length us" by (induction us) simp_all
    then have "length ?front = 2 * i" using i by simp
    ultimately show "bp_at bplist (p + 2 * i) (memory_of (us ! i))"
      using at bp_at_append [OF ok] by metis
  qed simp
  then have "map (\<lambda>i. load_le (bp_data bplist) (p + 2 * i) 2) [0..<length us] = map (\<lambda>i. Some (us ! i)) [0..<length us]"
    by simp
  then show ?thesis by (simp only: those_Some map_nth)
qed

lemma length_units: "length (concat (map memory_of (us :: u16 list))) = 2 * length us"
  by (induction us) simp_all

lemma ascii_empty: "is_ascii_string []"
  by (simp add: is_ascii_string_def)

lemma parse_string:
  assumes ok: "bplist_ok bplist" and at: "bp_at bplist p (write_key_or_string s)" and valid: "text_ok s"
  shows "parse_bin_node bplist parse p = Some (Some (Plist_String s))"
proof (cases "is_ascii_string s")
  case True
  then have parts: "bp_at bplist p (size_marker 0x50 (length s))"
    "bp_at bplist (p + length (size_marker 0x50 (length s))) s"
    using at bp_at_append [OF ok] by (simp_all add: write_key_or_string_def write_string_def write_unicode_def write_raw_data_def)
  have "parse_bin_node bplist parse p =
      parse_object bplist parse 0x50 (length s) (p + length (size_marker 0x50 (length s)))"
    using bp_at_small [OF ok parts(2)] by (intro parse_sized [OF ok parts(1)]) simp_all
  moreover have "c_str s = s" using valid by (auto simp: c_str_def text_ok_def)
  ultimately show ?thesis
    using bp_at_end [OF parts(2)] bp_at_slice [OF ok parts(2)] by (simp add: parse_object_def parse_string_node_def Let_def)
next
  case False
  then obtain cps where cps: "list_all scalar_value cps" "s = utf8_string cps" using valid by (auto simp: text_ok_def)
  define us where "us = concat (map utf16_encode cps)"
  have units: "plist_utf8_to_utf16be s = map bswap16 us" by (simp add: cps utf8_units us_def)
  have ne: "us \<noteq> []"
    using False cps(2) ascii_empty by (cases cps) (auto simp: us_def utf16_encode_def utf8_string_def split: if_splits)
  have parts: "bp_at bplist p (size_marker 0x60 (length us))"
    "bp_at bplist (p + length (size_marker 0x60 (length us))) (concat (map memory_of (map bswap16 us)))"
    using at bp_at_append [OF ok] False by (simp_all add: write_key_or_string_def write_string_def write_unicode_def write_raw_data_def units Let_def)
  note len = length_units [of "map bswap16 us"]
  have "parse_bin_node bplist parse p =
      parse_object bplist parse 0x60 (length us) (p + length (size_marker 0x60 (length us)))"
    using bp_at_small [OF ok parts(2), unfolded len] by (intro parse_sized [OF ok parts(1)]) simp_all
  moreover have "map bswap16 (map bswap16 us) = us" by (simp add: bswap16_twice o_def)
  ultimately show ?thesis
    using bp_at_end [OF parts(2), unfolded len] load_units [OF ok parts(2)] ne utf16_loop_encode [OF cps(1)]
    by (simp add: parse_object_def parse_unicode_node_def plist_utf16be_to_utf8_def Let_def cps(2) us_def [symmetric] mult.commute)
qed

section \<open>Containers\<close>

lemma collect_Some: "(\<And>j. j \<in> set js \<Longrightarrow> f j = Some (Some (g j))) \<Longrightarrow> collect f js = Some (Some (map g js))"
  by (induction js) simp_all

lemma length_refs: "r \<le> 8 \<Longrightarrow> length (concat (map (\<lambda>i. tail_bytes r (f i)) ks)) = length ks * r"
  by (induction ks) simp_all

lemma refs_at:
  assumes ok: "bplist_ok bplist" and r: "bp_ref_size bplist = r" "r \<le> 8"
    and at: "bp_at bplist p (concat (map (\<lambda>i. tail_bytes r (of_nat i)) is))" and j: "j < length is"
    and fits: "is ! j < 2 ^ (8 * r)"
  shows "p + j * r + r \<le> bp_offset_table bplist"
    and "UINT_TO_HOST (bp_data bplist) (p + j * r) r = Some (of_nat (is ! j))"
proof -
  have split: "concat (map (\<lambda>i. tail_bytes r (of_nat i)) is) =
      concat (map (\<lambda>i. tail_bytes r (of_nat i)) (take j is)) @ tail_bytes r (of_nat (is ! j)) @
      concat (map (\<lambda>i. tail_bytes r (of_nat i)) (drop (Suc j) is))"
    using j by (subst id_take_nth_drop [OF j]) simp
  have "length (concat (map (\<lambda>i. tail_bytes r (of_nat i)) (take j is))) = j * r"
    using j by (simp add: length_refs [OF r(2)] del: length_concat)
  then have place: "bp_at bplist (p + j * r) (tail_bytes r (of_nat (is ! j)))"
    using at bp_at_append [OF ok] unfolding split by simp
  show "p + j * r + r \<le> bp_offset_table bplist" using bp_at_end [OF place] r(2) by simp
  have "is ! j < 2 ^ 64" using fits r(2) power_increasing [of "8 * r" 64 "2 :: nat"] by simp
  then have "unat (of_nat (is ! j) :: u64) = is ! j" by (simp add: unat_of_nat take_bit_nat_eq_self)
  moreover have "0 < r" using ok r(1) by (simp add: bplist_ok_def)
  ultimately show "UINT_TO_HOST (bp_data bplist) (p + j * r) r = Some (of_nat (is ! j))"
    using r(2) fits by (intro bp_at_number [OF ok place]) simp_all
qed

text \<open>What a table of references has to satisfy: its indices are those of objects, and fit.\<close>

definition refs_ok :: "bplist_data \<Rightarrow> nat list \<Rightarrow> bool" where
  "refs_ok bplist is \<longleftrightarrow> (\<forall>i \<in> set is. of_nat i < bp_num_objects bplist \<and> i < 2 ^ 32 \<and> i < 2 ^ (8 * bp_ref_size bplist))"

lemma ucast_index: "i < 2 ^ 32 \<Longrightarrow> ucast (of_nat i :: u64) = (of_nat i :: u32)"
  by (simp add: word_unat_eq_iff unsigned_ucast_eq unat_of_nat take_bit_nat_eq_self)

lemma parse_array:
  assumes ok: "bplist_ok bplist" and r: "bp_ref_size bplist = r" "r \<le> 8"
    and at: "bp_at bplist p (size_marker 0xA0 (length is) @ concat (map (\<lambda>i. tail_bytes r (of_nat i)) is))"
    and refs: "refs_ok bplist is"
    and parse: "\<And>j. j < length is \<Longrightarrow> parse (of_nat (is ! j)) = Some (Some (xs ! j))" and len: "length xs = length is"
  shows "parse_bin_node bplist parse p = Some (Some (Plist_Array xs))"
proof -
  let ?p = "p + length (size_marker 0xA0 (length is))"
  have parts: "bp_at bplist p (size_marker 0xA0 (length is))"
    "bp_at bplist ?p (concat (map (\<lambda>i. tail_bytes r (of_nat i)) is))"
    using at bp_at_append [OF ok] by simp_all
  have "length (concat (map (\<lambda>i. tail_bytes r (of_nat i)) is)) = length is * r"
    by (rule length_refs [OF r(2)])
  moreover have "0 < r" using ok r(1) by (simp add: bplist_ok_def)
  ultimately have "length is \<le> length (concat (map (\<lambda>i. tail_bytes r (of_nat i)) is))" by simp
  then have room: "?p + length is \<le> bp_offset_table bplist" using bp_at_end [OF parts(2)] by linarith
  have small: "length is < 2 ^ 64" using room bplist_end [OF ok] ok by (simp add: bplist_ok_def)
  have item: "array_item bplist parse ?p j = Some (Some (xs ! j))" if j: "j \<in> set [0..<length is]" for j
  proof -
    have j: "j < length is" using j by simp
    then have i: "of_nat (is ! j) < bp_num_objects bplist" "is ! j < 2 ^ 32" "is ! j < 2 ^ (8 * r)"
      using refs r(1) by (auto simp: refs_ok_def)
    show ?thesis
      using refs_at [OF ok r parts(2) j i(3)] i parse [OF j]
      by (simp add: array_item_def Let_def r(1) not_le ucast_index)
  qed
  have "collect (array_item bplist parse ?p) [0..<length is] = Some (Some (map ((!) xs) [0..<length xs]))"
    unfolding len by (rule collect_Some [OF item])
  then have "collect (array_item bplist parse ?p) [0..<length is] = Some (Some xs)" by (simp only: map_nth)
  moreover have "parse_bin_node bplist parse p = parse_object bplist parse 0xA0 (length is) ?p"
    using small by (intro parse_sized [OF ok parts(1)]) simp_all
  ultimately show ?thesis
    using room by (simp add: parse_object_def parse_array_node_def Let_def)
qed

lemma parse_dict:
  assumes ok: "bplist_ok bplist" and r: "bp_ref_size bplist = r" "r \<le> 8"
    and at: "bp_at bplist p (size_marker 0xD0 (length ks) @ concat (map (\<lambda>i. tail_bytes r (of_nat i)) ks) @
      concat (map (\<lambda>i. tail_bytes r (of_nat i)) vs))"
    and refs: "refs_ok bplist ks" "refs_ok bplist vs" and len: "length ks = length kvs" "length vs = length kvs"
    and parse: "\<And>j. j < length kvs \<Longrightarrow> parse (of_nat (ks ! j)) = Some (Some (Plist_String (fst (kvs ! j))))"
      "\<And>j. j < length kvs \<Longrightarrow> parse (of_nat (vs ! j)) = Some (Some (snd (kvs ! j)))"
  shows "parse_bin_node bplist parse p = Some (Some (Plist_Dict kvs))"
proof -
  let ?n = "length kvs"
  let ?p = "p + length (size_marker 0xD0 ?n)"
  have lens: "length (concat (map (\<lambda>i. tail_bytes r (of_nat i)) ks)) = ?n * r"
    by (simp only: length_refs [OF r(2)] len)
  have parts: "bp_at bplist p (size_marker 0xD0 ?n)"
    "bp_at bplist ?p (concat (map (\<lambda>i. tail_bytes r (of_nat i)) ks))"
    "bp_at bplist (?p + ?n * r) (concat (map (\<lambda>i. tail_bytes r (of_nat i)) vs))"
    using at bp_at_append [OF ok] lens by (simp_all add: len add.assoc)
  have "0 < r" using ok r(1) by (simp add: bplist_ok_def)
  then have "?n \<le> ?n * r" by simp
  then have room: "?p + ?n \<le> bp_offset_table bplist" using bp_at_end [OF parts(2)] lens by linarith
  have small: "?n < 2 ^ 64" using room bplist_end [OF ok] ok by (simp add: bplist_ok_def)
  have entry: "dict_entry bplist parse ?p ?n j = Some (Some (kvs ! j))" if j: "j \<in> set [0..<?n]" for j
  proof -
    have j: "j < length ks" "j < length vs" "j < ?n" using j len by simp_all
    then have k: "of_nat (ks ! j) < bp_num_objects bplist" "ks ! j < 2 ^ 32" "ks ! j < 2 ^ (8 * r)"
      and v: "of_nat (vs ! j) < bp_num_objects bplist" "vs ! j < 2 ^ 32" "vs ! j < 2 ^ (8 * r)"
      using refs r(1) by (auto simp: refs_ok_def)
    have e: "?p + ?n * r + j * r = ?p + (j + ?n) * r" by (simp add: algebra_simps)
    show ?thesis
      using refs_at [OF ok r parts(2) j(1) k(3)] refs_at [OF ok r parts(3) j(2) v(3), unfolded e] k v parse j(3)
      by (simp add: dict_entry_def Let_def r(1) not_le not_less ucast_index)
  qed
  have "collect (dict_entry bplist parse ?p ?n) [0..<?n] = Some (Some (map ((!) kvs) [0..<?n]))"
    by (rule collect_Some [OF entry])
  then have "collect (dict_entry bplist parse ?p ?n) [0..<?n] = Some (Some kvs)" by (simp only: map_nth)
  moreover have "parse_bin_node bplist parse p = parse_object bplist parse 0xD0 ?n ?p"
    using small by (intro parse_sized [OF ok parts(1)]) simp_all
  ultimately show ?thesis
    using room by (simp add: parse_object_def parse_dict_node_def Let_def)
qed

section \<open>The layout of the file\<close>

lemma length_offsets_from [simp]: "length (offsets_from n bs) = length bs"
  by (induction n bs rule: offsets_from.induct) simp_all

lemma offsets_from_nth:
  "i < length bs \<Longrightarrow> offsets_from n bs ! i = n + length (concat (take i bs))"
proof (induction n bs arbitrary: i rule: offsets_from.induct)
  case (2 n b bs)
  then show ?case by (cases i) simp_all
qed simp

lemma body_place:
  assumes "i < length bs"
  shows "\<exists>rest. drop (offsets_from (length pre) bs ! i) (pre @ concat bs) = bs ! i @ rest"
    and "offsets_from (length pre) bs ! i + length (bs ! i) \<le> length pre + length (concat bs)"
proof -
  have split: "concat bs = concat (take i bs) @ bs ! i @ concat (drop (Suc i) bs)"
    using assms by (subst id_take_nth_drop [OF assms]) simp
  have off: "offsets_from (length pre) bs ! i = length pre + length (concat (take i bs))"
    by (rule offsets_from_nth [OF assms])
  show "\<exists>rest. drop (offsets_from (length pre) bs ! i) (pre @ concat bs) = bs ! i @ rest"
    unfolding off by (subst split) simp
  show "offsets_from (length pre) bs ! i + length (bs ! i) \<le> length pre + length (concat bs)"
    unfolding off by (subst split) simp
qed

lemma UINT_TO_HOST_pieces:
  assumes pieces: "bin = pre @ concat (map (\<lambda>x. tail_bytes n (f x)) xs) @ rest" and i: "i < length xs"
    and n: "0 < n" "n \<le> 8" and fits: "unat (f (xs ! i)) < 2 ^ (8 * n)" and slack: "8 \<le> length rest"
  shows "UINT_TO_HOST bin (length pre + i * n) n = Some (f (xs ! i))"
proof (rule UINT_TO_HOST_tail)
  let ?c = "\<lambda>ys. concat (map (\<lambda>x. tail_bytes n (f x)) ys)"
  have "?c xs = ?c (take i xs) @ tail_bytes n (f (xs ! i)) @ ?c (drop (Suc i) xs)"
    using i by (subst id_take_nth_drop [OF i]) simp
  then have bin: "bin = (pre @ ?c (take i xs)) @ tail_bytes n (f (xs ! i)) @ ?c (drop (Suc i) xs) @ rest"
    by (simp add: pieces)
  have "length (?c (take i xs)) = i * n" using i n(2) by (simp add: length_refs del: length_concat)
  then have len: "length (pre @ ?c (take i xs)) = length pre + i * n" by (simp del: length_concat)
  show "drop (length pre + i * n) bin = tail_bytes n (f (xs ! i)) @ ?c (drop (Suc i) xs) @ rest"
    unfolding bin len [symmetric] by simp
  show "length pre + i * n + 8 \<le> length bin"
    unfolding bin len [symmetric] using slack by (simp del: length_concat)
qed (use n fits in simp_all)

text \<open>The file that \<^verbatim>\<open>plist_to_bin\<close> writes, and how the reader takes it apart.\<close>

definition file_of :: "byte list list \<Rightarrow> nat \<Rightarrow> byte list" where
  "file_of bodies ref_size = (
     let buff = bytes ''bplist00'' @ concat bodies;
         offset_size = get_needed_bytes (of_nat (length buff))
     in buff @ concat (map (\<lambda>offset. tail_bytes offset_size (of_nat offset)) (offsets_from 8 bodies)) @
        write_trailer offset_size ref_size (length bodies) (length buff))"

definition reader_of :: "byte list list \<Rightarrow> nat \<Rightarrow> bplist_data" where
  "reader_of bodies ref_size = (
     let buff = bytes ''bplist00'' @ concat bodies
     in \<lparr>bp_data = file_of bodies ref_size, bp_num_objects = of_nat (length bodies), bp_ref_size = ref_size,
         bp_offset_size = get_needed_bytes (of_nat (length buff)), bp_offset_table = length buff\<rparr>)"

lemma length_trailer [simp]: "length (write_trailer a b c d) = 32"
  by (simp add: write_trailer_def)

lemma length_file_of:
  "length (file_of bodies ref_size) =
     8 + length (concat bodies) + length bodies * get_needed_bytes (of_nat (8 + length (concat bodies))) + 32"
  using get_needed_bytes_range(3) by (simp add: file_of_def Let_def length_refs del: length_concat)

lemma unat_small64: "n < 2 ^ 32 \<Longrightarrow> unat (of_nat n :: u64) = n"
  by (simp add: unat_of_nat take_bit_nat_eq_self)

lemma file_bounds:
  assumes "length (file_of bodies ref_size) < 2 ^ 32"
  shows "8 + length (concat bodies) < 2 ^ 32" and "length bodies < 2 ^ 32"
proof -
  let ?o = "get_needed_bytes (of_nat (8 + length (concat bodies)))"
  show "8 + length (concat bodies) < 2 ^ 32" using assms length_file_of [of bodies ref_size] by linarith
  have "length bodies * 1 \<le> length bodies * ?o"
    using get_needed_bytes_range(2) by (intro mult_le_mono2) (simp add: Suc_le_eq)
  then show "length bodies < 2 ^ 32" using assms length_file_of [of bodies ref_size] by linarith
qed

lemma length_buff: "length (bytes ''bplist00'' @ concat bodies) = 8 + length (concat bodies)"
  by simp

lemma file_parts:
  "file_of bodies ref_size = (bytes ''bplist00'' @ concat bodies) @
     concat (map (\<lambda>offset. tail_bytes (get_needed_bytes (of_nat (8 + length (concat bodies)))) (of_nat offset))
       (offsets_from 8 bodies)) @
     write_trailer (get_needed_bytes (of_nat (8 + length (concat bodies)))) ref_size (length bodies)
       (8 + length (concat bodies))"
  by (simp only: file_of_def Let_def length_buff)

lemma reader_fields [simp]:
  "bp_data (reader_of bodies ref_size) = file_of bodies ref_size"
  "bp_num_objects (reader_of bodies ref_size) = of_nat (length bodies)"
  "bp_ref_size (reader_of bodies ref_size) = ref_size"
  "bp_offset_size (reader_of bodies ref_size) = get_needed_bytes (of_nat (8 + length (concat bodies)))"
  "bp_offset_table (reader_of bodies ref_size) = 8 + length (concat bodies)"
  by (simp_all add: reader_of_def Let_def del: length_concat)

lemma reader_ok:
  assumes "length (file_of bodies ref_size) < 2 ^ 32" and "0 < ref_size" and "ref_size \<le> 8"
  shows "bplist_ok (reader_of bodies ref_size)"
proof -
  have "get_needed_bytes x < 256" for x using get_needed_bytes_range(3) [of x] by linarith
  then show ?thesis
    using assms file_bounds [OF assms(1)] get_needed_bytes_range(2) length_file_of [of bodies ref_size]
    by (simp add: bplist_ok_def reader_of_def Let_def unat_small64 del: length_concat)
qed

lemma reader_at:
  assumes "i < length bodies"
  shows "bp_at (reader_of bodies ref_size) (offsets_from 8 bodies ! i) (bodies ! i)"
proof -
  let ?buff = "bytes ''bplist00'' @ concat bodies"
  let ?off = "offsets_from 8 bodies ! i"
  have l8: "length (bytes ''bplist00'') = 8" by simp
  have len: "?off + length (bodies ! i) \<le> length ?buff"
    using body_place(2) [OF assms, of "bytes ''bplist00''"] by (simp only: l8 length_append)
  obtain rest where rest: "drop ?off ?buff = bodies ! i @ rest"
    using body_place(1) [OF assms, of "bytes ''bplist00''"] unfolding l8 by blast
  obtain T where F: "file_of bodies ref_size = ?buff @ T" by (simp add: file_of_def Let_def)
  have o: "?off - length ?buff = 0" using len by linarith
  have "drop ?off (file_of bodies ref_size) = drop ?off ?buff @ drop (?off - length ?buff) T"
    unfolding F by (rule drop_append)
  then have "drop ?off (file_of bodies ref_size) = bodies ! i @ rest @ T"
    by (simp only: o drop_0 rest append_assoc)
  moreover have "?off + length (bodies ! i) \<le> 8 + length (concat bodies)"
    using len by (simp only: length_append l8)
  ultimately show ?thesis unfolding bp_at_def by (simp only: reader_fields) simp
qed

lemma parse_step:
  assumes "\<not> ucast i \<ge> bp_num_objects bplist"
    and "p = bp_offset_table bplist + unat (i * of_nat (bp_offset_size bplist))"
    and "p < bp_offset_table bplist + unat (bp_num_objects bplist * of_nat (bp_offset_size bplist))"
    and "UINT_TO_HOST (bp_data bplist) p (bp_offset_size bplist) = Some ptr"
    and "unat ptr < bp_offset_table bplist" and "i \<notin> set used"
  shows "parse_bin_node_at_index bplist used i =
    parse_bin_node bplist (parse_bin_node_at_index bplist (used @ [i])) (unat ptr)"
  using assms by (subst parse_bin_node_at_index.simps) (simp add: Let_def)

text \<open>The trailer gives the reader what it needs, and the table the place of each object.\<close>

lemma parse_at_index:
  assumes len: "length (file_of bodies ref_size) < 2 ^ 32" and ref: "0 < ref_size" "ref_size \<le> 8"
    and i: "i < length bodies" "bodies ! i \<noteq> []" and new: "of_nat i \<notin> set used"
  shows "parse_bin_node_at_index (reader_of bodies ref_size) used (of_nat i) =
    parse_bin_node (reader_of bodies ref_size)
      (parse_bin_node_at_index (reader_of bodies ref_size) (used @ [of_nat i])) (offsets_from 8 bodies ! i)"
proof -
  let ?bp = "reader_of bodies ref_size"
  let ?n = "length bodies"
  let ?ot = "8 + length (concat bodies)"
  let ?o = "get_needed_bytes (of_nat ?ot)"
  let ?off = "offsets_from 8 bodies ! i"
  note bounds = file_bounds [OF len]
  have len32: "LENGTH(32) = 32" and len64: "LENGTH(64) = 64" by simp_all
  have o: "0 < ?o" "?o \<le> 8" by (rule get_needed_bytes_range)+
  have n: "unat (of_nat ?n :: u64) = ?n" by (rule unat_small64 [OF bounds(2)])
  have "i < 2 ^ 32" using i(1) bounds(2) by simp
  then have ui: "unat (of_nat i :: u32) = i" by (rule unat_of_nat_u32)
  then have guard: "\<not> bp_num_objects ?bp \<le> ucast (of_nat i :: u32)"
    using i(1) n by (simp add: word_le_nat_alt unat_u32_u64 not_le)
  have size: "?n * ?o < 2 ^ 32" using len length_file_of [of bodies ref_size] by linarith
  have "i * ?o < ?n * ?o" using i(1) o(1) by simp
  then have io: "i * ?o < 2 ^ 32" using size by (rule less_trans)
  have "unat (of_nat ?o :: u32) = ?o" using o(2) by (intro unat_of_nat_u32) simp
  then have ptr: "unat (of_nat i * of_nat ?o :: u32) = i * ?o"
    using unat_mult_nowrap [of "of_nat i :: u32" "of_nat ?o"] ui io by (simp only: len32 if_True)
  have "unat (of_nat ?o :: u64) = ?o" using o(2) by (intro unat_small64) simp
  then have "unat (of_nat ?n * of_nat ?o :: u64) = ?n * ?o"
    using unat_mult_nowrap [of "of_nat ?n :: u64" "of_nat ?o"] n less_trans [OF size, of "2 ^ 64"]
    by (simp only: len64) simp
  then have inside: "\<not> ?ot + i * ?o \<ge> ?ot + unat (of_nat ?n * of_nat ?o :: u64)"
    using \<open>i * ?o < ?n * ?o\<close> by simp
  have place: "?off + length (bodies ! i) \<le> ?ot"
    using bp_at_end [OF reader_at [OF i(1), of ref_size]] by simp
  have "0 < length (bodies ! i)" using i(2) by simp
  then have off: "?off < ?ot" using place by linarith
  have u_off: "unat (of_nat ?off :: u64) = ?off" using off bounds(1) by (intro unat_small64) linarith
  have "unat (of_nat ?ot :: u64) = ?ot" by (rule unat_small64 [OF bounds(1)])
  then have "?ot < 2 ^ (8 * ?o)" using get_needed_bytes_enough [of "of_nat ?ot"] by simp
  then have fits: "unat (of_nat ?off :: u64) < 2 ^ (8 * ?o)" using off u_off by linarith
  have "UINT_TO_HOST (file_of bodies ref_size) (length (bytes ''bplist00'' @ concat bodies) + i * ?o) ?o = Some (of_nat ?off)"
  proof (rule UINT_TO_HOST_pieces [where f = of_nat and xs = "offsets_from 8 bodies" and
        rest = "write_trailer ?o ref_size (length bodies) ?ot"])
    show "file_of bodies ref_size = (bytes ''bplist00'' @ concat bodies) @
        concat (map (\<lambda>offset. tail_bytes ?o (of_nat offset)) (offsets_from 8 bodies)) @
        write_trailer ?o ref_size (length bodies) ?ot"
      by (rule file_parts)
  qed (use i(1) o fits in simp_all)
  then have entry: "UINT_TO_HOST (bp_data ?bp) (?ot + i * ?o) ?o = Some (of_nat ?off)"
    by (simp only: length_buff reader_fields)
  have "parse_bin_node_at_index ?bp used (of_nat i) =
      parse_bin_node ?bp (parse_bin_node_at_index ?bp (used @ [of_nat i])) (unat (of_nat ?off :: u64))"
  proof (rule parse_step [OF guard _ _ _ _ new])
    show "?ot + i * ?o = bp_offset_table ?bp + unat (of_nat i * of_nat (bp_offset_size ?bp) :: u32)"
      by (simp only: reader_fields ptr)
    show "?ot + i * ?o < bp_offset_table ?bp + unat (bp_num_objects ?bp * of_nat (bp_offset_size ?bp))"
      using inside by (simp only: reader_fields not_le)
    show "UINT_TO_HOST (bp_data ?bp) (?ot + i * ?o) (bp_offset_size ?bp) = Some (of_nat ?off)"
      using entry by (simp only: reader_fields)
    show "unat (of_nat ?off :: u64) < bp_offset_table ?bp" using off by (simp only: reader_fields u_off)
  qed
  then show ?thesis by (simp only: u_off)
qed

lemma slice_append_right: "slice (length xs + k) n (xs @ ys) = slice k n ys"
  by (simp add: slice_def)

lemma rd_append_right: "rd (xs @ ys) (length xs + k) = rd ys k"
  by (simp add: rd_def nth_append)

lemma be64_at_memory: "drop k ys = memory_of (bswap64 w) @ zs \<Longrightarrow> be64_at (xs @ ys) (length xs + k) = Some w"
proof -
  assume d: "drop k ys = memory_of (bswap64 w) @ zs"
  then have "length (drop k ys) = length (memory_of (bswap64 w) @ zs)" by simp
  then have "8 \<le> length ys - k" by simp
  then have "slice k 8 ys = Some (memory_of (bswap64 w))" by (simp add: slice_def d)
  then show ?thesis
    by (simp add: be64_at_def load_le_def slice_append_right le_word_memory_of [of 8] bswap64_twice)
qed

lemma from_bin_step:
  assumes "6 + 2 + 32 \<le> len" and "slice 0 6 bin = Some (bytes ''bplist'')" "slice 6 2 bin = Some (bytes ''00'')"
    and "len - 32 = e" and "rd bin (e + 6) = Some osz" "rd bin (e + 7) = Some r"
    and "be64_at bin (e + 8) = Some n" "be64_at bin (e + 16) = Some root" "be64_at bin (e + 24) = Some t"
    and "n \<noteq> 0" "osz \<noteq> 0" "r \<noteq> 0" and "\<not> root \<ge> n" and "8 \<le> unat t" "unat t < e"
    and "unat n * unat osz < 2 ^ 64" "unat t + unat n * unat osz \<le> e"
    and "bplist = \<lparr>bp_data = bin, bp_num_objects = n, bp_ref_size = unat r, bp_offset_size = unat osz, bp_offset_table = unat t\<rparr>"
  shows "plist_from_bin bin len = parse_bin_node_at_index bplist [] (ucast root)"
  unfolding plist_from_bin_def using assms by (simp add: Let_def)

lemma plist_from_file:
  assumes len: "length (file_of bodies ref_size) < 2 ^ 32" and ref: "0 < ref_size" "ref_size \<le> 8" and ne: "bodies \<noteq> []"
  shows "plist_from_bin (file_of bodies ref_size) (length (file_of bodies ref_size)) =
    parse_bin_node_at_index (reader_of bodies ref_size) [] 0"
proof -
  let ?F = "file_of bodies ref_size"
  let ?n = "length bodies"
  let ?ot = "8 + length (concat bodies)"
  let ?o = "get_needed_bytes (of_nat ?ot)"
  define front where "front = (bytes ''bplist00'' @ concat bodies) @
    concat (map (\<lambda>offset. tail_bytes ?o (of_nat offset)) (offsets_from 8 bodies))"
  have o: "0 < ?o" "?o \<le> 8" by (rule get_needed_bytes_range)+
  have F: "?F = front @ write_trailer ?o ref_size ?n ?ot"
    unfolding front_def by (simp only: file_parts append_assoc)
  have lf: "length front = ?ot + ?n * ?o"
    unfolding front_def length_append [of "bytes ''bplist00'' @ concat bodies"] length_buff
    by (simp only: length_refs [OF o(2)] length_offsets_from)
  have lF: "length ?F = ?ot + ?n * ?o + 32" using length_file_of [of bodies ref_size] by simp
  then have e: "length ?F - 32 = length front" using lf by simp
  note bounds = file_bounds [OF len]
  have n: "unat (of_nat ?n :: u64) = ?n" "unat (of_nat ?ot :: u64) = ?ot"
    by (rule unat_small64 [OF bounds(2)], rule unat_small64 [OF bounds(1)])
  have small: "unat (of_nat ?o :: byte) = ?o" "unat (of_nat ref_size :: byte) = ref_size"
    using o(2) ref(2) by (simp_all add: unat_of_nat take_bit_nat_eq_self)
  have magic: "slice 0 6 ?F = Some (bytes ''bplist'')" "slice 6 2 ?F = Some (bytes ''00'')"
    unfolding file_parts by (simp_all add: slice_def bytes_def)
  have sizes: "rd ?F (length front + 6) = Some (of_nat ?o)" "rd ?F (length front + 7) = Some (of_nat ref_size)"
    unfolding F rd_append_right by (simp_all add: write_trailer_def rd_def nth_append)
  have words: "be64_at ?F (length front + 8) = Some (of_nat ?n)" "be64_at ?F (length front + 16) = Some 0"
    "be64_at ?F (length front + 24) = Some (of_nat ?ot)"
    unfolding F by (rule be64_at_memory; simp add: write_trailer_def; fail)+
  have "0 < ?n * ?o" using ne o(1) by simp
  then have "?ot < length front" "?ot + ?n * ?o \<le> length front" using lf by simp_all
  moreover have "?n * ?o < 2 ^ 64" using len lF by simp
  moreover have "of_nat ?n \<noteq> (0 :: u64)" using n(1) ne by auto
  moreover have "of_nat ?o \<noteq> (0 :: byte)" "of_nat ref_size \<noteq> (0 :: byte)" using small o(1) ref(1) by auto
  moreover have "6 + 2 + 32 \<le> length ?F" using lF by simp
  ultimately have "plist_from_bin ?F (length ?F) = parse_bin_node_at_index (reader_of bodies ref_size) [] (ucast (0 :: u64))"
    by (intro from_bin_step [OF _ magic e sizes words])
      (simp_all only: small n reader_of_def Let_def length_buff, simp_all)
  then show ?thesis by simp
qed

section \<open>Shared nodes are the same\<close>

definition is_container :: "node \<Rightarrow> bool" where
  "is_container n = (case snd n of Value_Node (Plist_Array _) \<Rightarrow> True | Value_Node (Plist_Dict _) \<Rightarrow> True | _ \<Rightarrow> False)"

lemma c_str_text: "text_ok s \<Longrightarrow> c_str s = s"
  by (auto simp: c_str_def text_ok_def)

lemma same_node:
  assumes cmp: "plist_data_compare m n" and ok: "data_ok (snd m)" "data_ok (snd n)"
  shows "is_container m \<Longrightarrow> fst m = fst n" and "is_container m \<longleftrightarrow> is_container n"
    and "\<not> is_container m \<Longrightarrow> snd m = snd n"
proof -
  have key: "node_key m = node_key n" using cmp by (simp add: plist_data_compare_key)
  show "is_container m \<Longrightarrow> fst m = fst n" "is_container m \<longleftrightarrow> is_container n"
    using key by (auto simp: node_key_def is_container_def split: prod.splits node_data.splits plist.splits)
  show "\<not> is_container m \<Longrightarrow> snd m = snd n"
    using key ok c_str_text
    by (auto simp: node_key_def is_container_def data_ok_def split: prod.splits node_data.splits plist.splits)
qed

lemma those_nth: "those xs = Some ys \<Longrightarrow> length ys = length xs \<and> (\<forall>i < length xs. xs ! i = Some (ys ! i))"
proof (induction xs arbitrary: ys)
  case (Cons x xs)
  then obtain y zs where "x = Some y" "those xs = Some zs" "ys = y # zs" by (auto split: option.splits)
  then show ?case using Cons.IH [of zs] by (auto simp: nth_Cons' less_Suc_eq_0_disj)
qed simp

lemma every_other_pairs:
  "every_other (concat (map (\<lambda>x. [f x, g x]) xs)) = map f xs"
  "every_other (tl (concat (map (\<lambda>x. [f x, g x]) xs))) = map g xs"
proof (induction xs)
  case (Cons x xs)
  case 2
  have "every_other (g x # concat (map (\<lambda>x. [f x, g x]) xs)) = g x # every_other (tl (concat (map (\<lambda>x. [f x, g x]) xs)))"
    by (cases xs) simp_all
  then show ?case using Cons.IH(2) by simp
qed simp_all

lemma dict_children:
  "node_children (p, Value_Node (Plist_Dict kvs)) =
     concat (map (\<lambda>i. [((2 * i) # p, Key_Node (fst (kvs ! i))), ((2 * i + 1) # p, Value_Node (snd (kvs ! i)))]) [0..<length kvs])"
  by (simp add: enumerate_eq_zip zip_map_fst_snd [symmetric] split_def o_def)
    (rule arg_cong [where f = concat], rule nth_equalityI, simp_all)

lemma array_children:
  "node_children (p, Value_Node (Plist_Array xs)) = map (\<lambda>i. (i # p, Value_Node (xs ! i))) [0..<length xs]"
  by (rule nth_equalityI) (simp_all add: nth_enumerate_eq)

section \<open>Every object is read back\<close>

text \<open>What is known of a written file.\<close>

definition written :: "(nat list \<Rightarrow> u64) \<Rightarrow> plist \<Rightarrow> byte list list \<Rightarrow> nat \<Rightarrow> bool" where
  "written addr plist bodies ref_size \<longleftrightarrow>
     ref_size = get_needed_bytes (of_nat (length (objects (objects_of addr plist)))) \<and>
     those (map (write_object (index_of addr (objects_of addr plist)) ref_size) (objects (objects_of addr plist))) = Some bodies \<and>
     length (file_of bodies ref_size) < 2 ^ 32 \<and> plist_ok plist"

definition value_of :: "node_data \<Rightarrow> plist" where
  "value_of d = (case d of Key_Node k \<Rightarrow> Plist_String k | Value_Node v \<Rightarrow> v)"

lemma size_marker_not_Nil [simp]: "size_marker mark sz \<noteq> []"
  by (simp add: size_marker_def)

lemma write_object_not_Nil: "write_object lookup ref_size n = Some b \<Longrightarrow> b \<noteq> []"
  by (auto simp: write_object_def write_array_def write_dict_def write_key_or_string_def write_string_def write_unicode_def write_raw_data_def write_int_def
      write_uint_def write_real_def write_date_def write_data_def write_uid_def Let_def bind_eq_Some_conv
      split: node_data.splits plist.splits if_splits)

lemma written_facts:
  assumes "written addr plist bodies r"
  shows "length bodies = length (objects (objects_of addr plist))" and "0 < r" and "r \<le> 8" and "bplist_ok (reader_of bodies r)"
    and "i < length bodies \<Longrightarrow>
      write_object (index_of addr (objects_of addr plist)) r (objects (objects_of addr plist) ! i) = Some (bodies ! i)"
    and "i < length bodies \<Longrightarrow> i < 2 ^ 32 \<and> i < 2 ^ (8 * r) \<and> of_nat i < bp_num_objects (reader_of bodies r)"
proof -
  let ?os = "objects (objects_of addr plist)"
  have w: "r = get_needed_bytes (of_nat (length ?os))"
    "those (map (write_object (index_of addr (objects_of addr plist)) r) ?os) = Some bodies"
    "length (file_of bodies r) < 2 ^ 32"
    using assms unfolding written_def by blast+
  show len: "length bodies = length ?os" using those_nth [OF w(2)] by simp
  show r: "0 < r" "r \<le> 8" unfolding w(1) by (rule get_needed_bytes_range)+
  show "bplist_ok (reader_of bodies r)" by (rule reader_ok [OF w(3) r])
  show "i < length bodies \<Longrightarrow> write_object (index_of addr (objects_of addr plist)) r (?os ! i) = Some (bodies ! i)"
    using those_nth [OF w(2)] by simp
  note n = unat_small64 [OF file_bounds(2) [OF w(3)]]
  have "length ?os < 2 ^ (8 * r)" using get_needed_bytes_enough [of "of_nat (length ?os)"] n unfolding w(1) len by simp
  then show "i < 2 ^ 32 \<and> i < 2 ^ (8 * r) \<and> of_nat i < bp_num_objects (reader_of bodies r)" if "i < length bodies"
    using that file_bounds(2) [OF w(3)] n unat_small64 [of i] len by (simp add: word_less_nat_alt)
qed

lemma refs_of_children:
  assumes "written addr plist bodies r"
    and "write_refs (index_of addr (objects_of addr plist)) r ns = Some refs"
  shows "\<exists>is. refs = concat (map (\<lambda>i. tail_bytes r (of_nat i)) is) \<and> length is = length ns \<and>
    (\<forall>j < length ns. index_of addr (objects_of addr plist) (ns ! j) = Some (is ! j)) \<and> refs_ok (reader_of bodies r) is"
proof -
  obtain "is" where "is": "those (map (index_of addr (objects_of addr plist)) ns) = Some is"
    "refs = concat (map (\<lambda>i. tail_bytes r (of_nat i)) is)"
    using assms(2) by (auto simp: write_refs_def)
  then have n: "length is = length ns" "\<forall>j < length ns. index_of addr (objects_of addr plist) (ns ! j) = Some (is ! j)"
    using those_nth [OF "is"(1)] by simp_all
  have "i < length bodies" if "i \<in> set is" for i
    using that n objects_of_ok(1) written_facts(1) [OF assms(1)] by (metis in_set_conv_nth)
  then have "refs_ok (reader_of bodies r) is"
    using written_facts(6) [OF assms(1)] by (simp add: refs_ok_def)
  then show ?thesis using "is"(2) n by blast
qed

lemma parse_container:
  assumes w: "written addr plist bodies r" and i: "i < length bodies"
    and n: "objects (objects_of addr plist) ! i = n" "is_container n"
    and kids: "\<And>c j. c \<in> set (node_children n) \<Longrightarrow> index_of addr (objects_of addr plist) c = Some j \<Longrightarrow>
        parse (of_nat j) = Some (Some (value_of (snd c)))"
  shows "parse_bin_node (reader_of bodies r) parse (offsets_from 8 bodies ! i) = Some (Some (value_of (snd n)))"
proof -
  note F = written_facts [OF w]
  let ?bp = "reader_of bodies r"
  obtain p d where nd: "n = (p, d)" by (cases n)
  have body: "write_object (index_of addr (objects_of addr plist)) r n = Some (bodies ! i)"
    using F(5) [OF i] n(1) by simp
  note at = reader_at [OF i, of r]
  consider xs where "d = Value_Node (Plist_Array xs)" | kvs where "d = Value_Node (Plist_Dict kvs)"
    using n(2) by (auto simp: nd is_container_def split: node_data.splits plist.splits)
  then show ?thesis
  proof cases
    case (1 xs)
    let ?ns = "node_children n"
    have ns: "length ?ns = length xs" "\<And>j. j < length xs \<Longrightarrow> ?ns ! j = (j # p, Value_Node (xs ! j))"
      by (simp_all add: nd 1 nth_enumerate_eq)
    obtain refs where refs: "write_refs (index_of addr (objects_of addr plist)) r ?ns = Some refs"
      "bodies ! i = size_marker 0xA0 (length ?ns) @ refs"
      using body by (auto simp: nd 1 write_object_def write_array_def Let_def)
    obtain "is" where "is": "refs = concat (map (\<lambda>i. tail_bytes r (of_nat i)) is)" "length is = length xs"
      "\<forall>j < length xs. index_of addr (objects_of addr plist) (?ns ! j) = Some (is ! j)" "refs_ok ?bp is"
      using refs_of_children [OF w refs(1)] ns(1) by auto
    have "parse_bin_node ?bp parse (offsets_from 8 bodies ! i) = Some (Some (Plist_Array xs))"
    proof (rule parse_array [OF F(4) _ F(3) _ "is"(4)])
      show "bp_at ?bp (offsets_from 8 bodies ! i) (size_marker 0xA0 (length is) @ concat (map (\<lambda>i. tail_bytes r (of_nat i)) is))"
        using at by (simp add: refs(2) "is"(1,2) ns(1) del: map_concat)
      show "parse (of_nat (is ! j)) = Some (Some (xs ! j))" if "j < length is" for j
        using that kids [of "?ns ! j" "is ! j"] "is"(2,3) ns nth_mem [of j ?ns] by (simp add: value_of_def)
    qed (simp_all add: "is"(2))
    then show ?thesis by (simp add: nd 1 value_of_def)
  next
    case (2 kvs)
    let ?ks = "map (\<lambda>j. ((2 * j) # p, Key_Node (fst (kvs ! j)))) [0..<length kvs]"
    let ?vs = "map (\<lambda>j. ((2 * j + 1) # p, Value_Node (snd (kvs ! j)))) [0..<length kvs]"
    have ns: "every_other (node_children n) = ?ks" "every_other (tl (node_children n)) = ?vs"
      "set ?ks \<subseteq> set (node_children n)" "set ?vs \<subseteq> set (node_children n)" "length (node_children n) = 2 * length kvs"
      unfolding nd 2 dict_children by (simp_all only: every_other_pairs) (auto simp: length_concat o_def sum_list_triv)
    obtain rk rv where refs: "write_refs (index_of addr (objects_of addr plist)) r ?ks = Some rk"
      "write_refs (index_of addr (objects_of addr plist)) r ?vs = Some rv"
      "bodies ! i = size_marker 0xD0 (length kvs) @ rk @ rv"
      using body by (auto simp: nd 2 write_object_def write_dict_def Let_def bind_eq_Some_conv
        ns [unfolded nd 2] simp del: node_children.simps)
    obtain ks where ks: "rk = concat (map (\<lambda>i. tail_bytes r (of_nat i)) ks)" "length ks = length kvs"
      "\<forall>j < length kvs. index_of addr (objects_of addr plist) (?ks ! j) = Some (ks ! j)" "refs_ok ?bp ks"
      using refs_of_children [OF w refs(1)] by auto
    obtain vs where vs: "rv = concat (map (\<lambda>i. tail_bytes r (of_nat i)) vs)" "length vs = length kvs"
      "\<forall>j < length kvs. index_of addr (objects_of addr plist) (?vs ! j) = Some (vs ! j)" "refs_ok ?bp vs"
      using refs_of_children [OF w refs(2)] by auto
    have "parse_bin_node ?bp parse (offsets_from 8 bodies ! i) = Some (Some (Plist_Dict kvs))"
    proof (rule parse_dict [OF F(4) _ F(3) _ ks(4) vs(4) ks(2) vs(2)])
      show "bp_at ?bp (offsets_from 8 bodies ! i) (size_marker 0xD0 (length ks) @
          concat (map (\<lambda>i. tail_bytes r (of_nat i)) ks) @ concat (map (\<lambda>i. tail_bytes r (of_nat i)) vs))"
        using at by (simp add: refs(3) ks(1,2) vs(1))
      fix j
      assume j: "j < length kvs"
      then have "?ks ! j \<in> set (node_children n)" "?vs ! j \<in> set (node_children n)"
        using ns(3,4) nth_mem [of j ?ks] nth_mem [of j ?vs] by auto
      then show "parse (of_nat (ks ! j)) = Some (Some (Plist_String (fst (kvs ! j))))"
        "parse (of_nat (vs ! j)) = Some (Some (snd (kvs ! j)))"
        using j ks(3) vs(3) kids [of "?ks ! j" "ks ! j"] kids [of "?vs ! j" "vs ! j"] by (simp_all add: value_of_def)
    qed simp
    then show ?thesis by (simp add: nd 2 value_of_def)
  qed
qed

lemma parse_leaf_node:
  assumes ok: "bplist_ok bplist" and body: "write_object lookup r n = Some b" and at: "bp_at bplist p b"
    and leaf: "\<not> is_container n" and valid: "data_ok (snd n)"
  shows "parse_bin_node bplist parse p = Some (Some (value_of (snd n)))"
proof (cases "snd n")
  case (Key_Node k)
  then show ?thesis using parse_string [OF ok] body at valid by (simp add: write_object_def value_of_def data_ok_def)
next
  case (Value_Node v)
  note facts = parse_boolean [OF ok] parse_uint [OF ok] parse_uint16 [OF ok] parse_real [OF ok] parse_string [OF ok]
    parse_date [OF ok] parse_data [OF ok] parse_uid [OF ok]
  show ?thesis
    using body at leaf valid unfolding write_object_def is_container_def data_ok_def Value_Node value_of_def
    by (cases v) (auto intro: facts)
qed

lemma object_read_back:
  assumes w: "written addr plist bodies r"
  shows "in_tree plist n \<Longrightarrow> index_of addr (objects_of addr plist) n = Some i \<Longrightarrow>
    (\<forall>j \<in> set used. unat j < length bodies \<and> is_container (objects (objects_of addr plist) ! unat j) \<and>
       length (fst (objects (objects_of addr plist) ! unat j)) < length (fst n)) \<Longrightarrow>
    parse_bin_node_at_index (reader_of bodies r) used (of_nat i) = Some (Some (value_of (snd n)))"
proof (induction n arbitrary: i used rule: measure_induct_rule [where f = node_weight])
  case (less n)
  let ?os = "objects (objects_of addr plist)"
  let ?bp = "reader_of bodies r"
  note F = written_facts [OF w]
  have ok: "plist_ok plist" and len: "length (file_of bodies r) < 2 ^ 32" using w unfolding written_def by blast+
  have i: "i < length bodies" using objects_of_ok(1) [OF less.prems(2)] F(1) by simp
  have cmp: "plist_data_compare (?os ! i) n" by (rule objects_of_ok(2) [OF less.prems(2)])
  have tree: "in_tree plist (?os ! i)" using i F(1) by (intro objects_of_ok(3) [of _ addr] nth_mem) simp
  note valid = in_tree_ok [OF ok tree] in_tree_ok [OF ok less.prems(1)]
  note same = same_node [OF cmp valid]
  have u: "unat (of_nat i :: u32) = i" using F(6) [OF i] by (intro unat_of_nat_u32) simp
  have new: "of_nat i \<notin> set used"
  proof
    assume "of_nat i \<in> set used"
    then have "is_container (?os ! i)" "length (fst (?os ! i)) < length (fst n)" using less.prems(3) u by auto
    then show False using same(1) by simp
  qed
  have body: "write_object (index_of addr (objects_of addr plist)) r (?os ! i) = Some (bodies ! i)" by (rule F(5) [OF i])
  have step: "parse_bin_node_at_index ?bp used (of_nat i) =
      parse_bin_node ?bp (parse_bin_node_at_index ?bp (used @ [of_nat i])) (offsets_from 8 bodies ! i)"
    by (rule parse_at_index [OF len F(2,3) i write_object_not_Nil [OF body] new])
  show ?case
  proof (cases "is_container (?os ! i)")
    case False
    then show ?thesis
      unfolding step same(3) [OF False, symmetric] using valid(1)
      by (intro parse_leaf_node [OF F(4) body reader_at [OF i]])
  next
    case True
    have n: "?os ! i = n" by (rule in_tree_same [OF tree less.prems(1) same(1) [OF True]])
    show ?thesis
      unfolding step
    proof (rule parse_container [OF w i n])
      show "is_container n" using True n by simp
      fix c j
      assume c: "c \<in> set (node_children n)" "index_of addr (objects_of addr plist) c = Some j"
      have deeper: "length (fst c) = Suc (length (fst n))" using child_place [OF c(1)] by auto
      show "parse_bin_node_at_index ?bp (used @ [of_nat i]) (of_nat j) = Some (Some (value_of (snd c)))"
      proof (rule less.IH [OF child_weight [OF c(1)] in_tree_child [OF less.prems(1) c(1)] c(2)], intro ballI)
        fix k
        assume "k \<in> set (used @ [of_nat i])"
        then consider "k \<in> set used" | "k = of_nat i" by auto
        then show "unat k < length bodies \<and> is_container (?os ! unat k) \<and> length (fst (?os ! unat k)) < length (fst c)"
        proof cases
          case 1
          then show ?thesis using bspec [OF less.prems(3) 1] deeper by simp
        next
          case 2
          then show ?thesis using i u n True deeper by simp
        qed
      qed
    qed
  qed
qed

lemma plist_to_bin_file:
  "plist_to_bin addr plist = Some bin \<Longrightarrow> plist_ok plist \<Longrightarrow> length bin < 2 ^ 32 \<Longrightarrow>
     \<exists>bodies r. written addr plist bodies r \<and> bin = file_of bodies r"
proof -
  assume bin: "plist_to_bin addr plist = Some bin" and ok: "plist_ok plist" "length bin < 2 ^ 32"
  let ?r = "get_needed_bytes (of_nat (length (objects (objects_of addr plist))))"
  obtain bodies where b: "those (map (write_object (index_of addr (objects_of addr plist)) ?r)
      (objects (objects_of addr plist))) = Some bodies"
    and out: "bin = (let buff = bytes ''bplist00'' @ concat bodies; offset_size = get_needed_bytes (of_nat (length buff))
      in buff @ concat (map (\<lambda>offset. tail_bytes offset_size (of_nat offset)) (offsets_from 8 bodies)) @
         write_trailer offset_size ?r (length (objects (objects_of addr plist))) (length buff))"
    using bin by (auto simp: plist_to_bin_def objects_of_def [symmetric] bind_eq_Some_conv Let_def)
  have "length (objects (objects_of addr plist)) = length bodies" using those_nth [OF b] by simp
  then have "bin = file_of bodies ?r" unfolding out file_of_def Let_def by simp
  then show ?thesis using b ok unfolding written_def by blast
qed

lemma written_read_back:
  assumes "plist_ok plist" and "plist_to_bin addr plist = Some bin" and "length bin < 2 ^ 32"
  shows "plist_from_bin bin (length bin) = Some (Some plist)"
proof -
  obtain bodies r where w: "written addr plist bodies r" "bin = file_of bodies r"
    using plist_to_bin_file [OF assms(2,1,3)] by blast
  note F = written_facts [OF w(1)]
  have root: "index_of addr (objects_of addr plist) ([], Value_Node plist) = Some 0" by (rule objects_of_ok(5))
  then have "bodies \<noteq> []" using objects_of_ok(1) [OF root] F(1) by auto
  then have "plist_from_bin bin (length bin) = parse_bin_node_at_index (reader_of bodies r) [] 0"
    using F(2,3) assms(3) unfolding w(2) by (intro plist_from_file)
  also have "\<dots> = Some (Some plist)"
    using object_read_back [OF w(1) in_tree_root root, of "[]"] by (simp add: value_of_def)
  finally show ?thesis .
qed

text \<open>The writer always finds its nodes.\<close>

lemma those_map_defined: "(\<And>x. x \<in> set xs \<Longrightarrow> f x \<noteq> None) \<Longrightarrow> those (map f xs) \<noteq> None"
  by (intro those_defined) auto

lemma plist_to_bin_defined: "plist_to_bin addr plist \<noteq> None"
proof -
  let ?L = "index_of addr (objects_of addr plist)"
  have "write_object ?L r n \<noteq> None" if n: "n \<in> set (objects (objects_of addr plist))" for r n
  proof -
    have kids: "write_refs ?L r ns \<noteq> None" if "set ns \<subseteq> set (node_children n)" for ns
    proof -
      have "those (map ?L ns) \<noteq> None" using that objects_of_ok(4) [OF n] by (intro those_map_defined) blast
      then show ?thesis by (simp add: write_refs_def)
    qed
    have "set (every_other xs) \<subseteq> set xs" for xs :: "node list" by (induction xs rule: every_other.induct) auto
    then have "set (every_other (node_children n)) \<subseteq> set (node_children n)"
      "set (every_other (tl (node_children n))) \<subseteq> set (node_children n)"
      by (auto dest: list.set_sel(2) [rotated] simp: subset_iff) (metis list.sel(2) list.set_sel(2))+
    then have "write_array ?L r n \<noteq> None" "write_dict ?L r n \<noteq> None"
      using kids by (auto simp: write_array_def write_dict_def Let_def bind_eq_None_conv)
    then show ?thesis by (simp add: write_object_def split: node_data.splits plist.splits)
  qed
  then have "those (map (write_object ?L r) (objects (objects_of addr plist))) \<noteq> None" for r
    by (rule those_map_defined)
  then show ?thesis by (simp add: plist_to_bin_def objects_of_def [symmetric] Let_def bind_eq_None_conv del: not_None_eq)
qed

text \<open>C7: 
  C1: What \<^verbatim>\<open>plist_to_bin\<close> writes, \<^verbatim>\<open>plist_from_bin\<close> reads back.  For every property list whose strings are
  valid text and whose user identifiers have 32 bits the writer produces a file (it finds every
  node it refers to), and when the file is shorter than 2 ^ 32 bytes the reader returns the same
  list, however the nodes share objects in the file and whatever their addresses, which decide
  what is shared.
\<close>

theorem plist_bin_roundtrip:
  assumes "plist_ok plist"
  shows "\<exists>bin. plist_to_bin addr plist = Some bin \<and>
    (length bin < 2 ^ 32 \<longrightarrow> plist_from_bin bin (length bin) = Some (Some plist))"
  using plist_to_bin_defined [of addr plist] written_read_back [OF assms] by fastforce

definition sample_list :: plist where
  "sample_list = Plist_Array [Plist_Boolean True, Plist_Boolean True]"

lemma sample_serialized:
  "objects (objects_of addr sample_list) =
     [([], Value_Node sample_list), ([0], Value_Node (Plist_Boolean True))]"
  "i < 2 \<Longrightarrow> index_of addr (objects_of addr sample_list) ([i], Value_Node (Plist_Boolean True)) = Some 1"
  by (simp_all add: objects_of_def sample_list_def serialize_plist.simps nodes.lookup_insert nodes.lookup_new
      plist_data_compare_key node_key_def chain_of_def plist_data_hash_def hashed_bytes_def)

lemma sample_refs: "tail_bytes (Suc 0) (1 :: u64) = [1]" "get_needed_bytes (2 :: u64) = 1"
  by code_simp+

lemma sample_bin: "plist_to_bin addr sample_list = Some (file_of [[0xA2, 1, 1], [0x09]] 1)"
proof -
  have "write_object (index_of addr (objects_of addr sample_list)) 1 ([], Value_Node sample_list) = Some [0xA2, 1, 1]"
    using sample_serialized(2) [of 0 addr] sample_serialized(2) [of 1 addr]
    by (simp add: write_object_def sample_list_def write_array_def write_refs_def size_marker_def sample_refs)
  then show ?thesis
    by (simp add: plist_to_bin_def objects_of_def [symmetric] sample_serialized sample_refs write_object_def Let_def file_of_def)
qed

lemma plist_bin_roundtrip_witness:
  "\<exists>bin. plist_to_bin (\<lambda>p. 0) sample_list = Some bin \<and> length bin < 2 ^ 32 \<and>
     plist_from_bin bin (length bin) = Some (Some sample_list)"
proof -
  have "plist_ok sample_list" by (simp add: sample_list_def)
  from plist_bin_roundtrip [OF this, of "\<lambda>p. 0"] obtain bin where
    bin: "plist_to_bin (\<lambda>p. 0) sample_list = Some bin"
      "length bin < 2 ^ 32 \<longrightarrow> plist_from_bin bin (length bin) = Some (Some sample_list)" by blast
  have "length bin = 8 + 4 + 2 * get_needed_bytes 12 + 32"
    using bin(1) length_file_of [of "[[0xA2, 1, 1], [0x09]]" 1] by (simp add: sample_bin)
  moreover have "get_needed_bytes (12 :: u64) \<le> 8" by (rule get_needed_bytes_range)
  ultimately have "length bin < 2 ^ 32" by simp
  then show ?thesis using bin by blast
qed

end
