(* ===== verification/Setup_Summary.thy ===== *)
theory Setup_Summary
  imports Raop_Handlers Bplist_Roundtrip
begin

text \<open>
  The two places where the handlers meet the binary property lists: the answer to \<^verbatim>\<open>GET /info\<close>, which
  always comes about, and the summary of a \<^verbatim>\<open>SETUP\<close> request in the log, whose assertions a sender
  can make fail.
\<close>

section \<open>The receiver's own property list\<close>

lemma length_info_plist: "length info_plist < 2 ^ 32"
  by (simp add: info_plist_def)

lemma info_bin_defined: "info_bin env cbs \<noteq> None"
proof -
  have "plist_from_bin info_plist (length info_plist) \<noteq> None"
    by (rule plist_from_bin_defined [OF order_refl length_info_plist])
  then show ?thesis
    using plist_to_bin_defined by (auto simp: info_bin_def Let_def split: option.splits)
qed

section \<open>A zero byte in a string of SETUP\<close>

lemma log_dict_item_zero: "0 \<in> set key \<or> (\<exists>s. val = Plist_String s \<and> 0 \<in> set s) \<Longrightarrow> log_dict_item (key, val) = None"
  by (cases "c_str key = key") (auto simp: log_dict_item_def plist_get_key_val_def plist_get_string_val_def c_str_def takeWhile_eq_all_conv)

lemma those_None: "x \<in> set xs \<Longrightarrow> f x = None \<Longrightarrow> those (map f xs) = None"
  by (induction xs) (auto split: option.splits)

text \<open>C19: 
  A \<^verbatim>\<open>SETUP\<close> request whose property list has a zero byte inside a key or a string of the outer
  dictionary aborts the receiver, in every state of the connection: whoever can connect can send it.
\<close>

theorem setup_zero_byte_aborts:
  assumes "body_plist (fst (http_request_get_data request)) (snd (http_request_get_data request)) = Some (Some (Plist_Dict kvs))"
    and "(key, val) \<in> set kvs" and "0 \<in> set key \<or> (\<exists>s. val = Plist_String s \<and> 0 \<in> set s)"
  shows "raop_handler_setup env request x = None"
proof -
  have "raop_handler_log_dict_summary (Some (Plist_Dict kvs)) = None"
    using those_None [OF assms(2), of log_dict_item] log_dict_item_zero [OF assms(3)]
    by (simp add: raop_handler_log_dict_summary_def)
  then show ?thesis
    using assms(1) by (auto simp: raop_handler_setup_def split_def Let_def bind_eq_None_conv)
qed

text \<open>Such a list: the key \<^verbatim>\<open>k\<close> with a string of one UTF-16 unit, zero.\<close>

definition zero_string_file :: "byte list" where
  "zero_string_file =
     [0x62, 0x70, 0x6C, 0x69, 0x73, 0x74, 0x30, 0x30, 0xD1, 1, 2, 0x51, 0x6B, 0x61, 0, 0, 8, 11, 13,
      0, 0, 0, 0, 0, 0, 1, 1, 0, 0, 0, 0, 0, 0, 0, 3, 0, 0, 0, 0, 0, 0, 0, 0, 0, 0, 0, 0, 0, 0, 0, 16]"

definition zero_reader :: bplist_data where
  "zero_reader = \<lparr>bp_data = zero_string_file, bp_num_objects = 3, bp_ref_size = 1, bp_offset_size = 1, bp_offset_table = 16\<rparr>"

lemma zero_objects:
  "parse_bin_node zero_reader parse 11 = Some (Some (Plist_String [0x6B]))"
  "parse_bin_node zero_reader parse 13 = Some (Some (Plist_String [0]))"
  by code_simp+

lemma zero_places:
  "UINT_TO_HOST zero_string_file 16 (Suc 0) = Some 8" "UINT_TO_HOST zero_string_file 17 (Suc 0) = Some 11"
  "UINT_TO_HOST zero_string_file 18 (Suc 0) = Some 13" "UINT_TO_HOST zero_string_file 9 (Suc 0) = Some 1"
  "UINT_TO_HOST zero_string_file 10 (Suc 0) = Some 2" "\<not> (3 :: u64) \<le> 1" "\<not> (3 :: u64) \<le> 2"
  by code_simp+

lemma zero_key: "parse_bin_node_at_index zero_reader [0] 1 = Some (Some (Plist_String [0x6B]))"
  by (subst parse_step [where p = 17 and ptr = 11]) (simp_all add: zero_places zero_objects, simp_all add: zero_reader_def zero_places)

lemma zero_value: "parse_bin_node_at_index zero_reader [0] 2 = Some (Some (Plist_String [0]))"
  by (subst parse_step [where p = 18 and ptr = 13]) (simp_all add: zero_places zero_objects, simp_all add: zero_reader_def zero_places)

lemma zero_dict:
  assumes "parse 1 = Some (Some (Plist_String [0x6B]))" and "parse 2 = Some (Some (Plist_String [0]))"
  shows "parse_bin_node zero_reader parse 8 = Some (Some (Plist_Dict [([0x6B], Plist_String [0])]))"
proof -
  have "dict_entry zero_reader parse 9 1 0 = Some (Some ([0x6B], Plist_String [0]))"
    using assms by (simp add: dict_entry_def Let_def zero_reader_def zero_places)
  then have "parse_object zero_reader parse 0xD0 1 9 = Some (Some (Plist_Dict [([0x6B], Plist_String [0])]))"
    by (simp add: parse_object_def parse_dict_node_def zero_reader_def)
  moreover have "rd (bp_data zero_reader) 8 = Some 0xD1" by code_simp
  ultimately show ?thesis by (simp add: parse_bin_node_def object_size_def)
qed

lemma zero_root: "parse_bin_node_at_index zero_reader [] 0 = Some (Some (Plist_Dict [([0x6B], Plist_String [0])]))"
  by (subst parse_step [where p = 16 and ptr = 8]) (simp_all add: zero_places zero_dict zero_key zero_value, simp_all add: zero_reader_def zero_places)

lemma zero_fields:
  "slice 0 6 zero_string_file = Some (bytes ''bplist'')" "slice 6 2 zero_string_file = Some (bytes ''00'')"
  "rd zero_string_file (19 + 6) = Some 1" "rd zero_string_file (19 + 7) = Some 1"
  "be64_at zero_string_file (19 + 8) = Some 3" "be64_at zero_string_file (19 + 16) = Some 0"
  "be64_at zero_string_file (19 + 24) = Some 16"
  by code_simp+

lemma zero_file_read: "plist_from_bin zero_string_file 51 = Some (Some (Plist_Dict [([0x6B], Plist_String [0])]))"
  by (subst from_bin_step [OF _ zero_fields(1,2) _ zero_fields(3-7) _ _ _ _ _ _ _ _ refl])
    (simp_all add: zero_root [unfolded zero_reader_def One_nat_def])

definition zero_request :: "unit http_request" where
  "zero_request = \<lparr> parser = (), req_method = Some (bytes ''SETUP''), req_url = None, headers = [], headers_index = 0,
     req_data = Some zero_string_file, req_datalen = 51, req_complete = True \<rparr>"

lemma setup_zero_byte_aborts_witness:
  "\<forall>(env :: (unit, unit, unit) raop_env) x. raop_handler_setup env zero_request x = None"
proof (intro allI, rule setup_zero_byte_aborts)
  show "body_plist (fst (http_request_get_data zero_request)) (snd (http_request_get_data zero_request)) =
      Some (Some (Plist_Dict [([0x6B], Plist_String [0])]))"
    by (simp add: body_plist_def http_request_get_data_def zero_request_def zero_file_read)
  show "([0x6B], Plist_String [0]) \<in> set [([0x6B], Plist_String [0])]" by simp
qed simp

end
