(* ===== verification/Node_List.thy ===== *)
theory Node_List
  imports Prelude
begin

text \<open>
  The doubly linked lists of nodes under the property lists (\<^verbatim>\<open>plist/node_list.c\<close>, \<^verbatim>\<open>plist/list.c\<close>), on an
  explicit memory.  A list has a header, and the code gives it the layout of a node: \<^verbatim>\<open>begin\<close> lies where
  a node has \<^verbatim>\<open>next\<close>, \<^verbatim>\<open>end\<close> where it has \<^verbatim>\<open>prev\<close>.  An empty list ends in itself, so that adding the
  first node through \<^verbatim>\<open>last->next\<close> sets \<^verbatim>\<open>begin\<close>.  One type of cells serves for both; address 0 is \<^verbatim>\<open>NULL\<close>,
  and the data a node points to is represented by its \<^verbatim>\<open>plist_type\<close>.
\<close>

type_synonym addr = nat

record cell =
  c_next :: addr
  c_prev :: addr
  c_count :: nat
  c_data :: nat
  c_parent :: addr
  c_children :: addr

type_synonym memory = "addr \<rightharpoonup> cell"

definition upd :: "memory \<Rightarrow> addr \<Rightarrow> (cell \<Rightarrow> cell) \<Rightarrow> memory option" where
  "upd h a f = map_option (\<lambda>c. h(a \<mapsto> f c)) (h a)"

definition list_init :: "memory \<Rightarrow> addr \<Rightarrow> memory option" where
  "list_init h l = upd h l (\<lambda>c. c\<lparr>c_next := 0, c_prev := l\<rparr>)"

text \<open>\<^verbatim>\<open>malloc\<close> yields the address that is an argument.\<close>

definition node_list_create :: "memory \<Rightarrow> addr \<Rightarrow> memory option" where
  "node_list_create h l =
     list_init (h(l \<mapsto> \<lparr>c_next = 0, c_prev = 0, c_count = 0, c_data = 0, c_parent = 0, c_children = 0\<rparr>)) l"

definition node_list_add :: "memory \<Rightarrow> addr \<Rightarrow> addr \<Rightarrow> (memory \<times> int) option" where
  "node_list_add h l node =
     (if l = 0 \<or> node = 0 then Some (h, -1)
      else do {
        list \<leftarrow> h l;
        let prev_end = c_prev list;
        h \<leftarrow> upd h node (\<lambda>c. c\<lparr>c_next := 0, c_prev := prev_end\<rparr>);
        h \<leftarrow> (if prev_end \<noteq> 0 then upd h prev_end (\<lambda>c. c\<lparr>c_next := node\<rparr>) else Some h);
        h \<leftarrow> upd h l (\<lambda>c. c\<lparr>c_prev := node, c_count := c_count c + 1\<rparr>);
        Some (h, 0)
      })"

text \<open>\<^verbatim>\<open>while (pos < node_index) { prev = cur; cur = cur->next; pos++; }\<close>\<close>

fun walk :: "memory \<Rightarrow> addr \<Rightarrow> addr \<Rightarrow> nat \<Rightarrow> addr option" where
  "walk h prv cur 0 = Some prv"
| "walk h prv cur (Suc k) = do { c \<leftarrow> h cur; walk h cur (c_next c) k }"

definition node_list_insert :: "memory \<Rightarrow> addr \<Rightarrow> nat \<Rightarrow> addr \<Rightarrow> (memory \<times> int) option" where
  "node_list_insert h l node_index node =
     (if l = 0 \<or> node = 0 then Some (h, -1)
      else do {
        list \<leftarrow> h l;
        if node_index \<ge> c_count list then node_list_add h l node
        else do {
          prv \<leftarrow> walk h 0 (c_next list) node_index;
          h \<leftarrow> (if prv \<noteq> 0 then do {
              p \<leftarrow> h prv;
              h \<leftarrow> upd h node (\<lambda>c. c\<lparr>c_prev := prv, c_next := c_next p\<rparr>);
              upd h prv (\<lambda>c. c\<lparr>c_next := node\<rparr>)
            } else do {
              h \<leftarrow> upd h node (\<lambda>c. c\<lparr>c_prev := 0, c_next := c_next list\<rparr>);
              upd h l (\<lambda>c. c\<lparr>c_next := node\<rparr>)
            });
          nxt \<leftarrow> map_option c_next (h node);
          h \<leftarrow> (if nxt = 0 then upd h l (\<lambda>c. c\<lparr>c_prev := node\<rparr>) else upd h nxt (\<lambda>c. c\<lparr>c_prev := node\<rparr>));
          h \<leftarrow> upd h l (\<lambda>c. c\<lparr>c_count := c_count c + 1\<rparr>);
          Some (h, 0)
        }
      })"

text \<open>The search for a node from \<^verbatim>\<open>n\<close> on; \<^verbatim>\<open>None\<close> stands for a walk that leaves the memory or does not end.\<close>

partial_function (option) position_from :: "memory \<Rightarrow> addr \<Rightarrow> addr \<Rightarrow> nat \<Rightarrow> nat option option" where
  "position_from h n node node_index =
     (if n = 0 then Some None
      else if n = node then Some (Some node_index)
      else do { c \<leftarrow> h n; position_from h (c_next c) node (Suc node_index) })"

definition unlink :: "memory \<Rightarrow> addr \<Rightarrow> addr \<Rightarrow> memory option" where
  "unlink h l node = do {
     c \<leftarrow> h node;
     let newnode = c_next c;
     h \<leftarrow> (if c_prev c \<noteq> 0 then do {
         h \<leftarrow> upd h (c_prev c) (\<lambda>p. p\<lparr>c_next := newnode\<rparr>);
         if newnode \<noteq> 0 then upd h newnode (\<lambda>m. m\<lparr>c_prev := c_prev c\<rparr>)
         else upd h l (\<lambda>m. m\<lparr>c_prev := c_prev c\<rparr>)
       } else do {
         h \<leftarrow> (if newnode \<noteq> 0 then upd h newnode (\<lambda>m. m\<lparr>c_prev := 0\<rparr>) else Some h);
         upd h l (\<lambda>m. m\<lparr>c_next := newnode\<rparr>)
       });
     upd h l (\<lambda>m. m\<lparr>c_count := c_count m - 1\<rparr>)
   }"

definition node_list_remove :: "memory \<Rightarrow> addr \<Rightarrow> addr \<Rightarrow> (memory \<times> int) option" where
  "node_list_remove h l node =
     (if l = 0 \<or> node = 0 then Some (h, -1)
      else do {
        list \<leftarrow> h l;
        if c_count list = 0 then Some (h, -1)
        else do {
          pos \<leftarrow> position_from h (c_next list) node 0;
          case pos of
            None \<Rightarrow> Some (h, -1)
          | Some node_index \<Rightarrow> map_option (\<lambda>h. (h, int node_index)) (unlink h l node)
        }
      })"

section \<open>What a list holds\<close>

text \<open>The nodes from one with the predecessor \<^verbatim>\<open>p\<close> on, to the one before \<^verbatim>\<open>e\<close>.\<close>

fun segment :: "memory \<Rightarrow> addr \<Rightarrow> addr list \<Rightarrow> addr \<Rightarrow> bool" where
  "segment h p [] e = True"
| "segment h p (x # xs) e =
     ((\<exists>c. h x = Some c \<and> c_prev c = p \<and> c_next c = hd (xs @ [e])) \<and> segment h x xs e)"

text \<open>
  The predecessor of the first node is the header when the node was added, \<^verbatim>\<open>NULL\<close> when it was
  inserted at the front.
\<close>

definition node_list :: "memory \<Rightarrow> addr \<Rightarrow> addr \<Rightarrow> addr list \<Rightarrow> bool" where
  "node_list h l first xs \<longleftrightarrow>
     distinct (0 # l # xs) \<and> (first = l \<or> first = 0) \<and> segment h first xs 0 \<and>
     (\<exists>c. h l = Some c \<and> c_next c = hd (xs @ [0]) \<and> c_prev c = last (l # xs) \<and> c_count c = length xs)"

lemma segment_append:
  "segment h p (xs @ ys) e \<longleftrightarrow> segment h p xs (hd (ys @ [e])) \<and> segment h (last (p # xs)) ys e"
proof (induction xs arbitrary: p)
  case (Cons x xs)
  then show ?case by (cases xs) auto
qed simp

lemma segment_frame [simp]: "a \<notin> set xs \<Longrightarrow> segment (h(a := v)) p xs e = segment h p xs e"
  by (induction xs arbitrary: p) auto

lemma segment_in: "segment h p xs e \<Longrightarrow> x \<in> set xs \<Longrightarrow> \<exists>c. h x = Some c"
  by (induction xs arbitrary: p) auto

lemma upd_Some: "h a = Some c \<Longrightarrow> upd h a f = Some (h(a \<mapsto> f c))"
  by (simp add: upd_def)

lemma node_list_create_ok: "l \<noteq> 0 \<Longrightarrow> \<exists>h'. node_list_create h l = Some h' \<and> node_list h' l l []"
  by (auto simp: node_list_create_def list_init_def upd_def node_list_def)

lemma node_list_count: "node_list h l first xs \<Longrightarrow> \<exists>c. h l = Some c \<and> c_count c = length xs"
  by (auto simp: node_list_def)

text \<open>A new last node.\<close>

lemma segment_new_end:
  assumes "segment h p (xs @ [z]) 0" and "h z = Some c" and "distinct (xs @ [z])" and "n \<notin> set (xs @ [z])"
  shows "segment (h(n \<mapsto> d, z \<mapsto> c\<lparr>c_next := n\<rparr>)) p (xs @ [z]) n"
  using assms by (auto simp: segment_append)

lemma node_list_add_ok:
  assumes xs: "node_list h l first xs" and n: "n \<notin> set (0 # l # xs)" "h n = Some d"
  shows "\<exists>h'. node_list_add h l n = Some (h', 0) \<and> node_list h' l (if xs = [] then l else first) (xs @ [n]) \<and>
    (\<forall>a. a \<notin> set (l # n # xs) \<longrightarrow> h' a = h a)"
proof -
  obtain c where c: "h l = Some c" "c_next c = hd (xs @ [0])" "c_prev c = last (l # xs)" "c_count c = length xs"
    using xs by (auto simp: node_list_def)
  have l: "l \<noteq> 0" "n \<noteq> 0" "l \<noteq> n" using xs n by (auto simp: node_list_def)
  show ?thesis
  proof (cases xs rule: rev_cases)
    case Nil
    then show ?thesis using c l n by (auto simp: node_list_add_def upd_def node_list_def Let_def)
  next
    case (snoc ys z)
    have z: "z \<noteq> 0" "z \<noteq> l" "z \<noteq> n" using xs n snoc by (auto simp: node_list_def)
    obtain cz where cz: "h z = Some cz" using xs snoc segment_in [of h first xs 0 z] by (auto simp: node_list_def)
    let ?d = "d\<lparr>c_next := 0, c_prev := z\<rparr>"
    let ?h = "h(n \<mapsto> ?d, z \<mapsto> cz\<lparr>c_next := n\<rparr>)"
    let ?h' = "?h(l \<mapsto> c\<lparr>c_prev := n, c_count := c_count c + 1\<rparr>)"
    have add: "node_list_add h l n = Some (?h', 0)"
      using c cz z l n snoc by (simp add: node_list_add_def upd_def Let_def)
    have "segment ?h first xs n"
      using segment_new_end [of h first ys z cz n ?d] xs cz n snoc by (simp add: node_list_def)
    then have "segment ?h' first xs n" using xs by (simp add: node_list_def)
    moreover have "segment ?h' z [n] 0" using z l by simp
    ultimately have "segment ?h' first (xs @ [n]) 0" by (simp add: segment_append snoc)
    then have "node_list ?h' l first (xs @ [n])"
      using xs n c l z snoc by (auto simp: node_list_def hd_append)
    then show ?thesis using add snoc by auto
  qed
qed

text \<open>A node in the middle or at the front.\<close>

lemma walk_segment:
  "segment h p (xs @ ys) e \<Longrightarrow> xs \<noteq> [] \<Longrightarrow> walk h q (hd xs) (length xs) = Some (last xs)"
proof (induction xs arbitrary: p q)
  case (Cons x xs)
  then obtain c where c: "h x = Some c" "c_next c = hd (xs @ ys @ [e])" by auto
  show ?case
  proof (cases "xs = []")
    case False
    then have "walk h x (hd xs) (length xs) = Some (last xs)" using Cons.IH [of x x] Cons.prems by simp
    then show ?thesis using c False by simp
  qed (simp add: c)
qed simp

lemma segment_replace_prev:
  "segment h p (y # ys) e \<Longrightarrow> h y = Some c \<Longrightarrow> distinct (y # ys) \<Longrightarrow> segment (h(y \<mapsto> c\<lparr>c_prev := n\<rparr>)) n (y # ys) e"
  by auto

lemma node_list_insert_front:
  assumes xs: "node_list h l first (y # ys)" and n: "n \<notin> set (0 # l # y # ys)" "h n = Some d"
  shows "\<exists>h'. node_list_insert h l 0 n = Some (h', 0) \<and> node_list h' l 0 (n # y # ys) \<and>
    (\<forall>a. a \<notin> set (l # n # y # ys) \<longrightarrow> h' a = h a)"
proof -
  obtain c where c: "h l = Some c" "c_next c = y" "c_prev c = last (y # ys)" "c_count c = Suc (length ys)"
    using xs by (auto simp: node_list_def)
  obtain cy where cy: "h y = Some cy" using xs by (auto simp: node_list_def)
  have dist: "l \<noteq> 0" "n \<noteq> 0" "y \<noteq> 0" "l \<noteq> n" "y \<noteq> n" "l \<noteq> y" "distinct (y # ys)" "l \<notin> set ys" "n \<notin> set ys"
    using xs n by (auto simp: node_list_def)
  let ?h1 = "h(n \<mapsto> d\<lparr>c_prev := 0, c_next := y\<rparr>, l \<mapsto> c\<lparr>c_next := n\<rparr>, y \<mapsto> cy\<lparr>c_prev := n\<rparr>)"
  let ?h' = "?h1(l \<mapsto> c\<lparr>c_next := n, c_count := c_count c + 1\<rparr>)"
  have ins: "node_list_insert h l 0 n = Some (?h', 0)"
    using c cy dist n by (simp add: node_list_insert_def upd_def)
  have "segment (h(y \<mapsto> cy\<lparr>c_prev := n\<rparr>)) n (y # ys) 0"
    using segment_replace_prev [of h first y ys 0 cy n] xs cy dist(7) by (simp add: node_list_def)
  then have "segment ?h' n (y # ys) 0" using dist by (auto simp: fun_upd_twist)
  then have "segment ?h' 0 (n # y # ys) 0" using dist by simp
  then have "node_list ?h' l 0 (n # y # ys)"
    using xs n c dist by (auto simp: node_list_def)
  then show ?thesis using ins by auto
qed

lemma node_list_insert_middle:
  assumes xs: "node_list h l first (ys @ z # w # zs)" and n: "n \<notin> set (0 # l # ys @ z # w # zs)" "h n = Some d"
  shows "\<exists>h'. node_list_insert h l (Suc (length ys)) n = Some (h', 0) \<and> node_list h' l first (ys @ z # n # w # zs) \<and>
    (\<forall>a. a \<notin> set (l # n # ys @ z # w # zs) \<longrightarrow> h' a = h a)"
proof -
  obtain c where c: "h l = Some c" "c_next c = hd (ys @ [z])" "c_prev c = last (w # zs)" "c_count c = length ys + 2 + length zs"
    using xs by (cases ys) (auto simp: node_list_def)
  have seg: "segment h first (ys @ z # w # zs) 0" using xs by (simp add: node_list_def)
  obtain cz where cz: "h z = Some cz" "c_next cz = w" using seg by (auto simp: segment_append)
  obtain cw where cw: "h w = Some cw" using seg by (auto simp: segment_append)
  have dist: "l \<noteq> 0" "n \<noteq> 0" "z \<noteq> 0" "w \<noteq> 0" "l \<noteq> n" "z \<noteq> n" "w \<noteq> n" "l \<noteq> z" "l \<noteq> w" "z \<noteq> w"
    "l \<notin> set ys" "l \<notin> set zs" "n \<notin> set ys" "n \<notin> set zs" "z \<notin> set ys" "z \<notin> set zs" "w \<notin> set ys" "w \<notin> set zs"
    using xs n by (auto simp: node_list_def)
  have walk: "walk h 0 (c_next c) (Suc (length ys)) = Some z"
    using walk_segment [of h first "ys @ [z]" "w # zs" 0 0] seg c by (cases ys) simp_all
  let ?h1 = "h(n \<mapsto> d\<lparr>c_prev := z, c_next := w\<rparr>, z \<mapsto> cz\<lparr>c_next := n\<rparr>, w \<mapsto> cw\<lparr>c_prev := n\<rparr>)"
  let ?h' = "?h1(l \<mapsto> c\<lparr>c_count := c_count c + 1\<rparr>)"
  have ins: "node_list_insert h l (Suc (length ys)) n = Some (?h', 0)"
    using c cz cw dist n walk by (simp add: node_list_insert_def upd_def del: walk.simps)
  have "segment ?h' first (ys @ [z]) n" using seg dist cz by (auto simp: segment_append)
  moreover have "segment ?h' z (n # w # zs) 0" using seg dist cw by (auto simp: segment_append)
  ultimately have "segment ?h' first ((ys @ [z]) @ n # w # zs) 0" by (simp add: segment_append)
  then have "node_list ?h' l first (ys @ z # n # w # zs)"
    using xs n c dist by (auto simp: node_list_def hd_append)
  then show ?thesis using ins by auto
qed

text \<open>Insertion in general: past the end it is an addition.\<close>

lemma node_list_insert_ok:
  assumes xs: "node_list h l first xs" and n: "n \<notin> set (0 # l # xs)" "h n = Some d"
  shows "\<exists>h' first'. node_list_insert h l i n = Some (h', 0) \<and> node_list h' l first' (take i xs @ n # drop i xs) \<and>
    (i = 0 \<and> xs \<noteq> [] \<longrightarrow> first' = 0) \<and> (\<forall>a. a \<notin> set (l # n # xs) \<longrightarrow> h' a = h a)"
proof (cases "i \<ge> length xs")
  case True
  then have "node_list_insert h l i n = node_list_add h l n"
    using node_list_count [OF xs] n xs by (auto simp: node_list_insert_def node_list_add_def node_list_def)
  then show ?thesis using node_list_add_ok [OF xs n] True by auto
next
  case False
  show ?thesis
  proof (cases i)
    case 0
    then obtain y ys where y: "xs = y # ys" using False by (cases xs) auto
    then show ?thesis using node_list_insert_front [of h l first y ys n d] xs n 0 by auto
  next
    case (Suc k)
    let ?ys = "take k xs" and ?z = "xs ! k" and ?w = "xs ! Suc k" and ?zs = "drop (Suc (Suc k)) xs"
    have split: "xs = ?ys @ ?z # ?w # ?zs" "length ?ys = k"
      using False Suc id_take_nth_drop [of k xs] Cons_nth_drop_Suc [of "Suc k" xs] by simp_all
    have "take i xs @ n # drop i xs = ?ys @ ?z # n # ?w # ?zs"
      using False Suc take_Suc_conv_app_nth [of k xs] Cons_nth_drop_Suc [of "Suc k" xs] by simp
    then show ?thesis
      using node_list_insert_middle [of h l first ?ys ?z ?w ?zs n d] xs n Suc split by auto
  qed
qed

text \<open>The search finds the position of a node.\<close>

lemma position_from_segment:
  "segment h p xs 0 \<Longrightarrow> 0 \<notin> set xs \<Longrightarrow> distinct xs \<Longrightarrow>
     position_from h (hd (xs @ [0])) node k =
       Some (if node \<in> set xs then Some (k + length (takeWhile (\<lambda>x. x \<noteq> node) xs)) else None)"
proof (induction xs arbitrary: p k)
  case Nil
  then show ?case by (simp add: position_from.simps)
next
  case (Cons x xs)
  show ?case
  proof (cases "x = node")
    case True
    then show ?thesis using Cons.prems by (simp add: position_from.simps)
  next
    case False
    obtain c where c: "h x = Some c" "c_next c = hd (xs @ [0])" using Cons.prems by auto
    have "position_from h (hd (xs @ [0])) node (Suc k) =
        Some (if node \<in> set xs then Some (Suc k + length (takeWhile (\<lambda>x. x \<noteq> node) xs)) else None)"
      using Cons.IH [of x "Suc k"] Cons.prems by simp
    then show ?thesis using c False Cons.prems by (simp add: position_from.simps [of h x])
  qed
qed

text \<open>
  Removal.  The node before the removed one is another node, or for the first node the header or
  \<^verbatim>\<open>NULL\<close>; in the last case \<^verbatim>\<open>end\<close> is only right when another node follows.
\<close>

lemma unlink_segment:
  assumes xs: "node_list h l first (ys @ n # zs)" and other: "first = l \<or> ys @ zs \<noteq> []"
  shows "\<exists>h'. unlink h l n = Some h' \<and> node_list h' l first (ys @ zs) \<and>
    (\<forall>a. a \<notin> set (l # ys @ zs) \<longrightarrow> h' a = h a)"
proof -
  obtain c where c: "h l = Some c" "c_next c = hd (ys @ [n])" "c_prev c = last (n # zs)" "c_count c = Suc (length ys + length zs)"
    using xs by (cases ys) (auto simp: node_list_def)
  have seg: "segment h first (ys @ n # zs) 0" using xs by (simp add: node_list_def)
  obtain cn where cn: "h n = Some cn" "c_prev cn = last (first # ys)" "c_next cn = hd (zs @ [0])"
    using seg by (auto simp: segment_append)
  have dist: "l \<noteq> 0" "n \<noteq> 0" "n \<noteq> l" "0 \<notin> set (ys @ zs)" "l \<notin> set (ys @ zs)" "n \<notin> set (ys @ zs)" "distinct (ys @ zs)"
    using xs by (auto simp: node_list_def)
  let ?p = "last (first # ys)"
  define h1 where "h1 = (case zs of [] \<Rightarrow> h | w # _ \<Rightarrow> h(w \<mapsto> (the (h w))\<lparr>c_prev := ?p\<rparr>))"
  have h1: "h1 a = h a" if "a \<notin> set zs" for a using that by (auto simp: h1_def split: list.splits)
  have zs: "segment h1 ?p zs 0"
    using seg dist by (cases zs) (auto simp: segment_append h1_def)
  have "segment h first ys n" using seg by (simp add: segment_append)
  have ys1: "segment h1 first ys n"
    using \<open>segment h first ys n\<close> dist by (cases zs) (auto simp: h1_def)
  let ?c = "if zs = [] then c\<lparr>c_prev := ?p\<rparr> else c"
  consider (front) "ys = []" "first = l" | (null) "ys = []" "first = 0" "zs \<noteq> []" | (inner) us u where "ys = us @ [u]"
    using other xs by (cases ys rule: rev_cases) (auto simp: node_list_def)
  then show ?thesis
  proof cases
    case front
    let ?h' = "h1(l \<mapsto> ?c\<lparr>c_next := hd (zs @ [0]), c_count := c_count c - 1\<rparr>)"
    have "unlink h l n = Some ?h'"
      using front c cn dist seg
      by (cases zs) (auto simp: unlink_def upd_def h1_def fun_upd_twist segment_append)
    moreover have "node_list ?h' l first (ys @ zs)"
      using front zs dist c xs by (auto simp: node_list_def)
    ultimately show ?thesis using h1 by auto
  next
    case null
    let ?h' = "h1(l \<mapsto> c\<lparr>c_next := hd (zs @ [0]), c_count := c_count c - 1\<rparr>)"
    have "unlink h l n = Some ?h'"
      using null c cn dist seg
      by (cases zs) (auto simp: unlink_def upd_def h1_def fun_upd_twist segment_append)
    moreover have "node_list ?h' l first (ys @ zs)"
      using null zs dist c xs by (auto simp: node_list_def)
    ultimately show ?thesis using h1 by auto
  next
    case inner
    obtain cu where cu: "h u = Some cu" using seg inner by (auto simp: segment_append)
    let ?h2 = "h1(u \<mapsto> cu\<lparr>c_next := hd (zs @ [0])\<rparr>)"
    let ?h' = "?h2(l \<mapsto> ?c\<lparr>c_count := c_count c - 1\<rparr>)"
    have u: "u \<noteq> 0" "u \<noteq> l" "u \<noteq> n" "u \<notin> set zs" "u \<notin> set us" using inner dist by auto
    have "unlink h l n = Some ?h'"
      using inner c cn cu dist seg u
      by (cases zs) (auto simp: unlink_def upd_def h1_def fun_upd_twist segment_append)
    moreover have "segment ?h' first ys (hd (zs @ [0]))"
      using ys1 inner dist u cu h1 [OF u(4)] by (auto simp: segment_append)
    moreover have "segment ?h' ?p zs 0" using zs u dist by simp
    ultimately show ?thesis
      using xs dist c inner h1 by (auto simp: node_list_def segment_append hd_append)
  qed
qed

lemma node_list_remove_ok:
  assumes xs: "node_list h l first xs" and n: "n \<in> set xs" and other: "first = l \<or> xs \<noteq> [n]"
  shows "\<exists>h'. node_list_remove h l n = Some (h', int (length (takeWhile (\<lambda>x. x \<noteq> n) xs))) \<and>
    node_list h' l first (remove1 n xs) \<and> (\<forall>a. a \<notin> set (l # remove1 n xs) \<longrightarrow> h' a = h a)"
proof -
  obtain c where c: "h l = Some c" "c_next c = hd (xs @ [0])" "c_count c = length xs"
    using xs by (auto simp: node_list_def)
  obtain ys zs where split: "xs = ys @ n # zs" "n \<notin> set ys" using n split_list_first by fast
  then have rem: "remove1 n xs = ys @ zs" by (simp add: remove1_append)
  have "position_from h (c_next c) n 0 = Some (Some (length (takeWhile (\<lambda>x. x \<noteq> n) xs)))"
    using position_from_segment [of h first xs n 0] xs n c by (simp add: node_list_def)
  moreover obtain h' where "unlink h l n = Some h'" "node_list h' l first (ys @ zs)"
    "\<forall>a. a \<notin> set (l # ys @ zs) \<longrightarrow> h' a = h a"
    using unlink_segment [of h l first ys n zs] xs other split by auto
  moreover have "l \<noteq> 0" "n \<noteq> 0" "xs \<noteq> []" using xs n split(1) by (auto simp: node_list_def)
  ultimately show ?thesis using c rem by (auto simp: node_list_remove_def)
qed

lemma node_list_remove_absent:
  assumes xs: "node_list h l first xs" and n: "n \<notin> set xs"
  shows "node_list_remove h l n = Some (h, -1)"
proof -
  obtain c where c: "h l = Some c" "c_next c = hd (xs @ [0])" "c_count c = length xs"
    using xs by (auto simp: node_list_def)
  have "position_from h (c_next c) n 0 = Some None"
    using position_from_segment [of h first xs n 0] xs n c by (simp add: node_list_def)
  then show ?thesis using c by (auto simp: node_list_remove_def)
qed

text \<open>A list whose only node was inserted at the front still ends in it after its removal.\<close>

lemma node_list_end_left:
  assumes xs: "node_list h l 0 [n]"
  shows "\<exists>h' c. node_list_remove h l n = Some (h', 0) \<and> h' l = Some c \<and> c_count c = 0 \<and> c_next c = 0 \<and> c_prev c = n"
  using xs by (auto simp: node_list_def node_list_remove_def unlink_def upd_def position_from.simps)

lemma node_list_add_dangling:
  assumes "node_list h l 0 [n]" and "node_list_remove h l n = Some (h', r)" and "m \<noteq> n" "m \<noteq> 0"
  shows "node_list_add (h'(n := None)) l m = None"
proof -
  obtain c where "h' l = Some c" "c_prev c = n" using node_list_end_left [OF assms(1)] assms(2) by auto
  moreover have "n \<noteq> 0" "n \<noteq> l" "l \<noteq> 0" using assms(1) by (auto simp: node_list_def)
  ultimately show ?thesis using assms(3,4) by (auto simp: node_list_add_def upd_def Let_def bind_eq_None_conv)
qed

section \<open>What stays as it is\<close>

text \<open>Beside the header, only the links of nodes change.\<close>

definition payload :: "cell \<Rightarrow> nat \<times> nat \<times> addr \<times> addr" where
  "payload c = (c_count c, c_data c, c_parent c, c_children c)"

definition same_payload :: "addr \<Rightarrow> memory \<Rightarrow> memory \<Rightarrow> bool" where
  "same_payload l h h' \<longleftrightarrow> (\<forall>a. a \<noteq> l \<longrightarrow> map_option payload (h' a) = map_option payload (h a))"

lemma same_payload_refl: "same_payload l h h"
  by (simp add: same_payload_def)

lemma same_payload_trans: "same_payload l h h' \<Longrightarrow> same_payload l h' h'' \<Longrightarrow> same_payload l h h''"
  by (simp add: same_payload_def)

lemma upd_payload: "upd h a f = Some h' \<Longrightarrow> (a = l \<or> (\<forall>c. payload (f c) = payload c)) \<Longrightarrow> same_payload l h h'"
  by (auto simp: upd_def same_payload_def)

lemma payload_links [simp]:
  "payload (c\<lparr>c_next := x\<rparr>) = payload c" "payload (c\<lparr>c_prev := x\<rparr>) = payload c"
  by (simp_all add: payload_def)

lemma same_payloadD: "same_payload l h h' \<Longrightarrow> a \<noteq> l \<Longrightarrow> h a = Some c \<Longrightarrow> \<exists>c'. h' a = Some c' \<and> payload c' = payload c"
  unfolding same_payload_def by (metis map_option_eq_Some option.simps(9))

lemmas payload_unfold = upd_def Let_def bind_eq_Some_conv same_payload_def payload_def

lemma node_list_add_payload: "node_list_add h l n = Some (h', r) \<Longrightarrow> same_payload l h h'"
  by (auto simp: node_list_add_def payload_unfold split: if_splits)

lemma node_list_insert_payload:
  assumes "node_list_insert h l i n = Some (h', r)"
  shows "same_payload l h h'"
proof (cases "l = 0 \<or> n = 0 \<or> (\<exists>c. h l = Some c \<and> i \<ge> c_count c)")
  case True
  then show ?thesis
    using assms by (auto simp: node_list_insert_def same_payload_refl split: if_splits intro: node_list_add_payload)
next
  case False
  then obtain c where c: "h l = Some c" "\<not> i \<ge> c_count c" "l \<noteq> 0" "n \<noteq> 0"
    using assms by (auto simp: node_list_insert_def bind_eq_Some_conv)
  let ?front = "\<lambda>prv. if prv \<noteq> 0 then do {
      p \<leftarrow> h prv; h \<leftarrow> upd h n (\<lambda>c. c\<lparr>c_prev := prv, c_next := c_next p\<rparr>); upd h prv (\<lambda>c. c\<lparr>c_next := n\<rparr>) }
    else do { h \<leftarrow> upd h n (\<lambda>d. d\<lparr>c_prev := 0, c_next := c_next c\<rparr>); upd h l (\<lambda>c. c\<lparr>c_next := n\<rparr>) }"
  obtain prv h1 nxt h2 where h1: "?front prv = Some h1"
    and h2: "(if nxt = 0 then upd h1 l (\<lambda>c. c\<lparr>c_prev := n\<rparr>) else upd h1 nxt (\<lambda>c. c\<lparr>c_prev := n\<rparr>)) = Some h2"
    and h': "upd h2 l (\<lambda>c. c\<lparr>c_count := c_count c + 1\<rparr>) = Some h'"
    using assms c unfolding node_list_insert_def
    by (simp only: if_False simp_thms option.inject prod.inject bind.bind_lunit bind_eq_Some_conv) blast
  have "same_payload l h h1" using h1 by (cases "prv = 0") (auto simp: payload_unfold)
  moreover have "same_payload l h1 h2" using h2 by (auto simp: payload_unfold split: if_splits)
  moreover have "same_payload l h2 h'" using h' by (auto simp: payload_unfold)
  ultimately show ?thesis by (blast intro: same_payload_trans)
qed

lemma unlink_payload: "unlink h l n = Some h' \<Longrightarrow> same_payload l h h'"
  by (auto simp: unlink_def payload_unfold split: if_splits)

lemma node_list_remove_payload: "node_list_remove h l n = Some (h', r) \<Longrightarrow> same_payload l h h'"
  by (auto simp: node_list_remove_def bind_eq_Some_conv same_payload_refl split: if_splits option.splits dest: unlink_payload)

section \<open>Taking a list apart from the front\<close>

text \<open>Without what \<^verbatim>\<open>end\<close> holds.\<close>

definition chain :: "memory \<Rightarrow> addr \<Rightarrow> addr \<Rightarrow> addr list \<Rightarrow> bool" where
  "chain h l first xs \<longleftrightarrow>
     distinct (0 # l # xs) \<and> (first = l \<or> first = 0) \<and> segment h first xs 0 \<and>
     (\<exists>c. h l = Some c \<and> c_next c = hd (xs @ [0]) \<and> c_count c = length xs)"

lemma node_list_chain: "node_list h l first xs \<Longrightarrow> chain h l first xs"
  by (auto simp: node_list_def chain_def)

lemma remove_first:
  assumes xs: "chain h l first (n # zs)"
  shows "\<exists>h'. node_list_remove h l n = Some (h', 0) \<and> chain h' l first zs \<and> (\<forall>a. a \<notin> set (l # zs) \<longrightarrow> h' a = h a)"
proof -
  obtain c cn where c: "h l = Some c" "c_next c = n" "c_count c = Suc (length zs)"
    and cn: "h n = Some cn" "c_prev cn = first" "c_next cn = hd (zs @ [0])" and zs: "segment h n zs 0"
    using xs by (auto simp: chain_def)
  have dist: "l \<noteq> 0" "n \<noteq> 0" "n \<noteq> l" "0 \<notin> set zs" "l \<notin> set zs" "n \<notin> set zs" "distinct zs" "first = l \<or> first = 0"
    using xs by (auto simp: chain_def)
  define h1 where "h1 = (case zs of [] \<Rightarrow> h | w # _ \<Rightarrow> h(w \<mapsto> (the (h w))\<lparr>c_prev := first\<rparr>))"
  let ?c = "if zs = [] \<and> first = l then c\<lparr>c_prev := first\<rparr> else c"
  let ?h' = "h1(l \<mapsto> ?c\<lparr>c_next := hd (zs @ [0]), c_count := c_count c - 1\<rparr>)"
  have h1: "h1 a = h a" if "a \<notin> set zs" for a using that by (auto simp: h1_def split: list.splits)
  have "unlink h l n = Some ?h'"
    using c cn dist zs by (cases zs) (auto simp: unlink_def upd_def h1_def fun_upd_twist)
  moreover have "position_from h n n 0 = Some (Some 0)" using dist by (simp add: position_from.simps)
  ultimately have "node_list_remove h l n = Some (?h', 0)" using c dist by (simp add: node_list_remove_def)
  moreover have "segment h1 first zs 0" using zs dist by (cases zs) (auto simp: h1_def)
  then have "chain ?h' l first zs" using dist c by (auto simp: chain_def)
  ultimately show ?thesis using h1 by auto
qed

lemma chain_frame:
  assumes "chain h l first xs" and "\<And>a. a \<in> set (l # xs) \<Longrightarrow> h' a = h a"
  shows "chain h' l first xs"
proof -
  have "segment h p ys e = segment h' p ys e" if "\<And>a. a \<in> set ys \<Longrightarrow> h' a = h a" for p ys e
    using that by (induction ys arbitrary: p) auto
  then show ?thesis using assms by (auto simp: chain_def)
qed

end
