(* ===== verification/Node_Tree.thy ===== *)
theory Node_Tree
  imports Node_List
begin

text \<open>
  The trees of nodes (\<^verbatim>\<open>plist/node.c\<close>) and the functions of \<^verbatim>\<open>plist/plist.c\<close> that change them: a node
  points to its parent and to the list of its children, which is created with the first child.
  Freeing a tree is shown to release every node and every list header once and to touch nothing
  else.
\<close>

section \<open>Nodes\<close>

definition free_cell :: "memory \<Rightarrow> addr \<Rightarrow> memory option" where
  "free_cell h a = (if a = 0 then Some h else if h a = None then None else Some (h(a := None)))"

text \<open>\<^verbatim>\<open>fresh\<close> is the address of a list that has to be created.\<close>

definition own_list :: "memory \<Rightarrow> addr \<Rightarrow> addr \<Rightarrow> addr \<Rightarrow> (memory \<times> addr) option" where
  "own_list h fresh parent child = do {
     h \<leftarrow> upd h child (\<lambda>c. c\<lparr>c_parent := parent\<rparr>);
     p \<leftarrow> h parent;
     if c_children p = 0 then do {
       h \<leftarrow> node_list_create h fresh;
       h \<leftarrow> upd h parent (\<lambda>c. c\<lparr>c_children := fresh\<rparr>);
       Some (h, fresh)
     } else Some (h, c_children p)
   }"

definition node_attach :: "memory \<Rightarrow> addr \<Rightarrow> addr \<Rightarrow> addr \<Rightarrow> (memory \<times> int) option" where
  "node_attach h fresh parent child =
     (if parent = 0 \<or> child = 0 then Some (h, -1)
      else do {
        (h, l) \<leftarrow> own_list h fresh parent child;
        (h, res) \<leftarrow> node_list_add h l child;
        h \<leftarrow> (if res = 0 then upd h parent (\<lambda>c. c\<lparr>c_count := c_count c + 1\<rparr>) else Some h);
        Some (h, res)
      })"

definition node_insert :: "memory \<Rightarrow> addr \<Rightarrow> addr \<Rightarrow> nat \<Rightarrow> addr \<Rightarrow> (memory \<times> int) option" where
  "node_insert h fresh parent node_index child =
     (if parent = 0 \<or> child = 0 then Some (h, -1)
      else do {
        (h, l) \<leftarrow> own_list h fresh parent child;
        (h, res) \<leftarrow> node_list_insert h l node_index child;
        h \<leftarrow> (if res = 0 then upd h parent (\<lambda>c. c\<lparr>c_count := c_count c + 1\<rparr>) else Some h);
        Some (h, res)
      })"

definition node_detach :: "memory \<Rightarrow> addr \<Rightarrow> addr \<Rightarrow> (memory \<times> int) option" where
  "node_detach h parent child =
     (if parent = 0 \<or> child = 0 then Some (h, -1)
      else do {
        p \<leftarrow> h parent;
        (h, node_index) \<leftarrow> node_list_remove h (c_children p) child;
        h \<leftarrow> (if node_index \<ge> 0 then upd h parent (\<lambda>c. c\<lparr>c_count := c_count c - 1\<rparr>) else Some h);
        Some (h, node_index)
      })"

definition node_first_child :: "memory \<Rightarrow> addr \<Rightarrow> addr option" where
  "node_first_child h node =
     (if node = 0 then Some 0
      else do {
        c \<leftarrow> h node;
        if c_children c = 0 then Some 0 else map_option c_next (h (c_children c))
      })"

definition node_prev_sibling :: "memory \<Rightarrow> addr \<Rightarrow> addr option" where
  "node_prev_sibling h node = (if node = 0 then Some 0 else map_option c_prev (h node))"

definition node_next_sibling :: "memory \<Rightarrow> addr \<Rightarrow> addr option" where
  "node_next_sibling h node = (if node = 0 then Some 0 else map_option c_next (h node))"

definition node_n_children :: "memory \<Rightarrow> addr \<Rightarrow> nat option" where
  "node_n_children h node = (if node = 0 then Some 0 else map_option c_count (h node))"

partial_function (option) nth_from :: "memory \<Rightarrow> addr \<Rightarrow> nat \<Rightarrow> nat \<Rightarrow> addr option" where
  "nth_from h ch node_index n =
     (if ch = 0 then Some 0
      else if node_index = n then Some ch
      else do { nxt \<leftarrow> node_next_sibling h ch; nth_from h nxt (Suc node_index) n })"

definition node_nth_child :: "memory \<Rightarrow> addr \<Rightarrow> nat \<Rightarrow> addr option" where
  "node_nth_child h node n = do { ch \<leftarrow> node_first_child h node; nth_from h ch 0 n }"

definition node_child_position :: "memory \<Rightarrow> addr \<Rightarrow> addr \<Rightarrow> int option" where
  "node_child_position h parent child =
     (if child = 0 then Some (-1)
      else do {
        ch \<leftarrow> node_first_child h parent;
        pos \<leftarrow> position_from h ch child 0;
        Some (case pos of None \<Rightarrow> -1 | Some i \<Rightarrow> int i)
      })"

text \<open>
  \<^verbatim>\<open>node_destroy\<close>: as long as its list has a first node, that one is removed and destroyed.  \<^verbatim>\<open>Inl\<close>
  is the function, \<^verbatim>\<open>Inr\<close> its loop over a list.
\<close>

partial_function (option) destroy_walk :: "addr + addr \<Rightarrow> memory \<Rightarrow> memory option" where
  "destroy_walk work h =
     (case work of
        Inl node \<Rightarrow>
          if node = 0 then Some h
          else do {
            c \<leftarrow> h node;
            n \<leftarrow> (if c_children c = 0 then Some 0 else map_option c_count (h (c_children c)));
            h \<leftarrow> (if n > 0 then destroy_walk (Inr (c_children c)) h else Some h);
            h \<leftarrow> free_cell h (c_children c);
            free_cell h node
          }
      | Inr l \<Rightarrow> do {
          list \<leftarrow> h l;
          let ch = c_next list;
          if ch = 0 then Some h
          else do {
            (h, i) \<leftarrow> node_list_remove h l ch;
            h \<leftarrow> destroy_walk (Inl ch) h;
            destroy_walk (Inr l) h
          }
        })"

definition node_destroy :: "memory \<Rightarrow> addr \<Rightarrow> memory option" where
  "node_destroy h node = destroy_walk (Inl node) h"

text \<open>A new node: \<^verbatim>\<open>node\<close> is what \<^verbatim>\<open>malloc\<close> yields for it, possibly \<^verbatim>\<open>NULL\<close>.\<close>

definition node_create :: "memory \<Rightarrow> addr \<Rightarrow> addr \<Rightarrow> addr \<Rightarrow> nat \<Rightarrow> (memory \<times> addr) option" where
  "node_create h fresh node parent data =
     (if node = 0 then Some (h, 0)
      else
        let h = h(node \<mapsto> \<lparr>c_next = 0, c_prev = 0, c_count = 0, c_data = data, c_parent = 0, c_children = 0\<rparr>)
        in if parent \<noteq> 0 then do {
             (h, error) \<leftarrow> node_attach h fresh parent node;
             if error < 0 then map_option (\<lambda>h. (h, 0)) (node_destroy h node) else Some (h, node)
           } else Some (h, node))"

text \<open>
  \<^verbatim>\<open>node_copy_deep\<close>, and under \<^verbatim>\<open>Inr\<close> its loop over the children from \<^verbatim>\<open>ch\<close> on; \<^verbatim>\<open>alloc\<close> yields the
  address of a new block.
\<close>

partial_function (option) copy_walk ::
  "(memory \<Rightarrow> addr) \<Rightarrow> (nat \<Rightarrow> nat) \<Rightarrow> addr + addr \<times> addr \<Rightarrow> memory \<Rightarrow> (memory \<times> addr) option" where
  "copy_walk alloc copy_func work h =
     (case work of
        Inl node \<Rightarrow>
          if node = 0 then Some (h, 0)
          else do {
            c \<leftarrow> h node;
            (h, copy) \<leftarrow> node_create h 0 (alloc h) 0 (copy_func (c_data c));
            ch \<leftarrow> node_first_child h node;
            copy_walk alloc copy_func (Inr (ch, copy)) h
          }
      | Inr (ch, copy) \<Rightarrow>
          if ch = 0 then Some (h, copy)
          else do {
            (h, cc) \<leftarrow> copy_walk alloc copy_func (Inl ch) h;
            (h, i) \<leftarrow> node_attach h (alloc h) copy cc;
            nxt \<leftarrow> node_next_sibling h ch;
            copy_walk alloc copy_func (Inr (nxt, copy)) h
          })"

section \<open>Freeing a property list\<close>

definition PLIST_ARRAY :: nat where "PLIST_ARRAY = 4"
definition PLIST_NONE :: nat where "PLIST_NONE = 10"

text \<open>\<^verbatim>\<open>plist_free_node\<close>, and under \<^verbatim>\<open>Inr\<close> its loop over the children from \<^verbatim>\<open>ch\<close> on.\<close>

partial_function (option) free_walk :: "addr + addr \<Rightarrow> memory \<Rightarrow> (memory \<times> int) option" where
  "free_walk work h =
     (case work of
        Inl node \<Rightarrow> do {
          c \<leftarrow> h node;
          (h, node_index) \<leftarrow> node_detach h (c_parent c) node;
          h \<leftarrow> upd h node (\<lambda>c. c\<lparr>c_data := PLIST_NONE\<rparr>);
          ch \<leftarrow> node_first_child h node;
          (h, i) \<leftarrow> free_walk (Inr ch) h;
          h \<leftarrow> node_destroy h node;
          Some (h, node_index)
        }
      | Inr ch \<Rightarrow>
          if ch = 0 then Some (h, 0)
          else do {
            nxt \<leftarrow> node_next_sibling h ch;
            (h, i) \<leftarrow> free_walk (Inl ch) h;
            free_walk (Inr nxt) h
          })"

definition plist_free_node :: "memory \<Rightarrow> addr \<Rightarrow> (memory \<times> int) option" where
  "plist_free_node h node = free_walk (Inl node) h"

definition plist_free :: "memory \<Rightarrow> addr \<Rightarrow> memory option" where
  "plist_free h plist = (if plist = 0 then Some h else map_option fst (plist_free_node h plist))"

section \<open>What a tree holds\<close>

text \<open>The address of a node, the address of its list or 0, and the trees of its children.\<close>

datatype tree = Tree (root_of: addr) (list_of: addr) (kids: "tree list")

fun cells :: "tree \<Rightarrow> addr list" where
  "cells (Tree a l ts) = a # (if l = 0 then [] else [l]) @ concat (map cells ts)"

fun holds :: "memory \<Rightarrow> addr \<Rightarrow> tree \<Rightarrow> bool" where
  "holds h p (Tree a l ts) \<longleftrightarrow>
     (\<exists>c. h a = Some c \<and> c_parent c = p \<and> c_children c = l \<and> c_count c = length ts) \<and>
     (if l = 0 then ts = [] else \<exists>first. chain h l first (map root_of ts)) \<and>
     (\<forall>t \<in> set ts. holds h a t)"

lemma root_in_cells [simp]: "root_of t \<in> set (cells t)"
  by (cases t) simp

lemma hd_cells: "hd (cells t) = root_of t"
  by (cases t) simp

lemma roots_subset: "root_of ` set ts \<subseteq> set (concat (map cells ts))"
proof
  fix b
  assume "b \<in> root_of ` set ts"
  then obtain t where "t \<in> set ts" "b = root_of t" by blast
  then show "b \<in> set (concat (map cells ts))" using root_in_cells [of t] by (simp del: root_in_cells) blast
qed

lemma roots_in_cells: "b \<in> set (l # map root_of ts) \<Longrightarrow> b \<in> set (l # concat (map cells ts))"
  using roots_subset [of ts] by auto

text \<open>A tree may move to another parent; otherwise only the links of its root change.\<close>

lemma holds_move:
  assumes "holds h p t" and "\<And>a. a \<in> set (cells t) \<Longrightarrow> a \<noteq> root_of t \<Longrightarrow> h' a = h a"
    and "h (root_of t) = Some c" "h' (root_of t) = Some c'"
    and "c_parent c' = p'" "c_children c' = c_children c" "c_count c' = c_count c"
    and "distinct (cells t)"
  shows "holds h' p' t"
  using assms
proof (induction t arbitrary: p p' c c')
  case (Tree a l ts)
  have inner: "h' b = h b" if "b \<in> set (cells t)" "t \<in> set ts" for b t
    using Tree.prems(2,8) that by auto
  have kids: "holds h' a t" if t: "t \<in> set ts" for t
  proof -
    have "holds h a t" using Tree.prems(1) t by simp
    moreover then obtain d where "h (root_of t) = Some d" "c_parent d = a" by (cases t) auto
    moreover have "distinct (cells t)" using Tree.prems(8) t by (auto simp: distinct_concat_iff split: if_splits)
    ultimately show ?thesis using Tree.IH [OF t, of a d d a] inner t inner [OF root_in_cells t] by simp
  qed
  have "chain h' l first (map root_of ts)" if "chain h l first (map root_of ts)" "l \<noteq> 0" for first
    using that(1)
  proof (rule chain_frame)
    fix b
    assume "b \<in> set (l # map root_of ts)"
    then show "h' b = h b" using inner [OF root_in_cells] Tree.prems(2,8) that(2) by auto
  qed
  then have "if l = 0 then ts = [] else \<exists>first. chain h' l first (map root_of ts)"
    using Tree.prems(1) by (cases "l = 0") auto
  then show ?case using Tree.prems(1,3-7) kids by auto
qed

lemma holds_root: "holds h p t \<Longrightarrow> \<exists>c. h (root_of t) = Some c \<and> c_parent c = p \<and> c_children c = list_of t \<and> c_count c = length (kids t)"
  by (cases t) simp

lemma holds_frame:
  assumes "holds h p t" and "\<And>a. a \<in> set (cells t) \<Longrightarrow> a \<noteq> root_of t \<Longrightarrow> h' a = h a"
    and "map_option payload (h' (root_of t)) = map_option payload (h (root_of t))"
    and "distinct (cells t)"
  shows "holds h' p t"
proof -
  obtain c where c: "h (root_of t) = Some c" "c_parent c = p" using holds_root [OF assms(1)] by auto
  then obtain c' where "h' (root_of t) = Some c'" "payload c' = payload c"
    using assms(3) by (auto simp: map_option_eq_Some)
  then show ?thesis using holds_move [OF assms(1,2) c(1)] assms(4) c(2) by (simp add: payload_def)
qed

section \<open>Freeing releases the tree\<close>

definition without :: "memory \<Rightarrow> addr set \<Rightarrow> memory" where
  "without h A = (\<lambda>a. if a \<in> A then None else h a)"

lemma node_detach_first:
  assumes l: "chain h l first (root_of t # map root_of ts)" "h p = Some c" "c_children c = l"
    and p: "p \<noteq> 0" "p \<noteq> l" "p \<noteq> root_of t" "p \<notin> root_of ` set ts"
  shows "\<exists>h'. node_detach h p (root_of t) = Some (h', 0) \<and> chain h' l first (map root_of ts) \<and>
    h' p = Some (c\<lparr>c_count := c_count c - 1\<rparr>) \<and> (\<forall>a. a \<notin> {p, l} \<union> root_of ` set ts \<longrightarrow> h' a = h a) \<and>
    (\<forall>a. a \<notin> {p, l} \<longrightarrow> map_option payload (h' a) = map_option payload (h a))"
proof -
  obtain h1 where h1: "node_list_remove h l (root_of t) = Some (h1, 0)" "chain h1 l first (map root_of ts)"
    "\<forall>a. a \<notin> set (l # map root_of ts) \<longrightarrow> h1 a = h a"
    using remove_first [OF l(1)] by blast
  let ?h' = "h1(p \<mapsto> c\<lparr>c_count := c_count c - 1\<rparr>)"
  have "h1 p = Some c" using h1(3) l p by auto
  moreover have "root_of t \<noteq> 0" using l(1) by (auto simp: chain_def)
  ultimately have "node_detach h p (root_of t) = Some (?h', 0)"
    using l(2,3) h1(1) p by (simp add: node_detach_def upd_def)
  moreover have "chain ?h' l first (map root_of ts)"
    using h1(2) by (rule chain_frame) (use p in auto)
  ultimately show ?thesis
    using h1(3) node_list_remove_payload [OF h1(1)] by (auto simp: same_payload_def)
qed

text \<open>A node without children left is freed with its list.\<close>

lemma node_destroy_empty:
  assumes "h a = Some c" and "a \<noteq> 0" and "c_children c \<noteq> a"
    and "c_children c = 0 \<or> (\<exists>d. h (c_children c) = Some d \<and> c_count d = 0)"
  shows "node_destroy h a = Some (without h ({a, c_children c} - {0}))"
  using assms by (auto simp: node_destroy_def destroy_walk.simps free_cell_def without_def fun_eq_iff)

lemma free_kids:
  assumes free: "\<And>t h p h1 i. t \<in> set ts \<Longrightarrow> holds h p t \<Longrightarrow> distinct (0 # cells t) \<Longrightarrow>
      node_detach h p (root_of t) = Some (h1, i) \<Longrightarrow> (\<And>b. b \<in> set (cells t) \<Longrightarrow> h1 b = h b) \<Longrightarrow>
      free_walk (Inl (root_of t)) h = Some (without h1 (set (cells t)), i)"
    and chain: "chain h l first (map root_of ts)" and a: "h a = Some c" "c_children c = l"
    and holds: "\<And>t. t \<in> set ts \<Longrightarrow> holds h a t" and dist: "distinct (0 # a # l # concat (map cells ts))"
  shows "\<exists>h' d. free_walk (Inr (hd (map root_of ts @ [0]))) h = Some (h', 0) \<and>
    h' a = Some (c\<lparr>c_count := c_count c - length ts\<rparr>) \<and> h' l = Some d \<and> c_count d = 0 \<and>
    (\<forall>b. b \<notin> {a, l} \<longrightarrow> h' b = without h (set (concat (map cells ts))) b)"
  using assms
proof (induction ts arbitrary: h c)
  case Nil
  then show ?case by (auto simp: free_walk.simps chain_def without_def)
next
  case (Cons t us)
  let ?us = "set (concat (map cells us))"
  have dd: "0 \<notin> set (cells t)" "a \<notin> set (cells t)" "l \<notin> set (cells t)" "a \<noteq> 0" "a \<noteq> l" "l \<noteq> 0" "distinct (cells t)"
    "set (cells t) \<inter> ?us = {}" "a \<notin> ?us" "l \<notin> ?us" "0 \<notin> ?us" "distinct (concat (map cells us))"
    using Cons.prems(6) by simp_all
  have rt: "root_of t \<noteq> 0" "root_of t \<noteq> a" "root_of t \<noteq> l" using dd(1-3) root_in_cells [of t] by metis+
  have roots: "b \<in> root_of ` set us \<Longrightarrow> b \<in> ?us" for b using roots_subset by blast
  have apart: "b \<notin> set (cells t)" if "b \<in> {a, l} \<union> ?us" for b
    using that dd(2,3,8) by blast
  obtain h1 where h1: "node_detach h a (root_of t) = Some (h1, 0)" "chain h1 l first (map root_of us)"
    "h1 a = Some (c\<lparr>c_count := c_count c - 1\<rparr>)" "\<forall>b. b \<notin> {a, l} \<union> root_of ` set us \<longrightarrow> h1 b = h b"
    "\<forall>b. b \<notin> {a, l} \<longrightarrow> map_option payload (h1 b) = map_option payload (h b)"
  proof -
    have "chain h l first (root_of t # map root_of us)" using Cons.prems(2) by simp
    moreover have "a \<noteq> 0" "a \<noteq> l" "a \<noteq> root_of t" "a \<notin> root_of ` set us" using dd(4,5,9) rt roots by blast+
    ultimately show thesis using node_detach_first [of h l first t us a c] Cons.prems(3,4) that by blast
  qed
  let ?h2 = "without h1 (set (cells t))"
  have t: "free_walk (Inl (root_of t)) h = Some (?h2, 0)"
  proof (rule Cons.prems(1) [of t h a])
    show "h1 b = h b" if "b \<in> set (cells t)" for b using h1(4) that apart roots by blast
  qed (use Cons.prems(5) dd(1,7) h1(1) in simp_all)
  have "chain ?h2 l first (map root_of us)"
  proof (rule chain_frame [OF h1(2)])
    fix b
    assume "b \<in> set (l # map root_of us)"
    then have "b \<notin> set (cells t)" using apart roots by auto
    then show "?h2 b = h1 b" by (simp add: without_def)
  qed
  moreover have "?h2 a = Some (c\<lparr>c_count := c_count c - 1\<rparr>)" using h1(3) apart by (simp add: without_def)
  moreover have "holds ?h2 a u" if u: "u \<in> set us" for u
  proof (rule holds_frame [of h])
    show "holds h a u" using Cons.prems(5) u by simp
    show "distinct (cells u)" using dd(12) u by (simp add: distinct_concat_iff)
    have in_us: "b \<in> ?us" if "b \<in> set (cells u)" for b using u that by auto
    have "root_of u \<notin> set (cells t)" "root_of u \<notin> {a, l}" using apart dd(9,10) in_us [OF root_in_cells] by blast+
    then show "map_option payload (?h2 (root_of u)) = map_option payload (h (root_of u))"
      using h1(5) by (simp add: without_def)
    show "?h2 b = h b" if b: "b \<in> set (cells u)" "b \<noteq> root_of u" for b
    proof -
      have "b \<noteq> root_of v" if "v \<in> set us" for v
      proof
        assume "b = root_of v"
        then have "b \<in> set (cells v)" "cells u \<noteq> cells v" using b(2) root_in_cells [of v] hd_cells [of u] hd_cells [of v] by auto
        then have "set (cells u) \<inter> set (cells v) = {}" using dd(12) u that by (simp add: distinct_concat_iff)
        then show False using b(1) \<open>b \<in> set (cells v)\<close> by blast
      qed
      then have "b \<notin> {a, l} \<union> root_of ` set us" "b \<notin> set (cells t)" using dd(9,10) apart in_us b(1) by blast+
      then show ?thesis using h1(4) by (simp add: without_def)
    qed
  qed
  ultimately obtain h' d where h': "free_walk (Inr (hd (map root_of us @ [0]))) ?h2 = Some (h', 0)"
    "h' a = Some (c\<lparr>c_count := c_count c - 1 - length us\<rparr>)" "h' l = Some d" "c_count d = 0"
    "\<forall>b. b \<notin> {a, l} \<longrightarrow> h' b = without ?h2 (set (concat (map cells us))) b"
    using Cons.IH [of ?h2 "c\<lparr>c_count := c_count c - 1\<rparr>"] Cons.prems(1,4,6) by auto
  have "node_next_sibling h (root_of t) = Some (hd (map root_of us @ [0]))"
    using Cons.prems(2) rt by (auto simp: node_next_sibling_def chain_def)
  then have "free_walk (Inr (root_of t)) h = Some (h', 0)"
    using t h'(1) rt by (simp add: free_walk.simps [of "Inr (root_of t)"])
  moreover have "h' b = without h (set (concat (map cells (t # us)))) b" if "b \<notin> {a, l}" for b
    using h'(5) h1(4) that roots [of b] by (cases "b \<in> root_of ` set us") (simp_all add: without_def)
  ultimately show ?case using h'(2-4) by auto
qed

lemma free_tree:
  assumes "holds h p t" and "distinct (0 # cells t)" and "node_detach h p (root_of t) = Some (h1, i)"
    and "\<And>b. b \<in> set (cells t) \<Longrightarrow> h1 b = h b"
  shows "free_walk (Inl (root_of t)) h = Some (without h1 (set (cells t)), i)"
  using assms
proof (induction t arbitrary: h p h1 i)
  case (Tree a l ts)
  obtain c where c: "h a = Some c" "c_parent c = p" "c_children c = l" "c_count c = length ts"
    using Tree.prems(1) by auto
  let ?h2 = "h1(a \<mapsto> c\<lparr>c_data := PLIST_NONE\<rparr>)"
  have a: "a \<noteq> 0" "a \<noteq> l" using Tree.prems(2) by auto
  have h1a: "h1 a = Some c" using Tree.prems(4) [of a] c by simp
  have out: "free_walk (Inl a) h = (do {
      ch \<leftarrow> node_first_child ?h2 a; (h, j) \<leftarrow> free_walk (Inr ch) ?h2; h \<leftarrow> node_destroy h a; Some (h, i) })"
    using Tree.prems(3) c h1a by (simp add: free_walk.simps [of "Inl a"] upd_def)
  show ?case
  proof (cases "l = 0")
    case True
    then have ts: "ts = []" using Tree.prems(1) by simp
    have "node_destroy ?h2 a = Some (without ?h2 ({a, l} - {0}))"
      using node_destroy_empty [of ?h2 a "c\<lparr>c_data := PLIST_NONE\<rparr>"] a c True by simp
    moreover have "node_first_child ?h2 a = Some 0" using a c True by (simp add: node_first_child_def)
    moreover have "without ?h2 ({a, l} - {0}) = without h1 (set (cells (Tree a l ts)))"
      using True ts a by (auto simp: without_def fun_eq_iff)
    ultimately show ?thesis using out by (simp add: free_walk.simps [of "Inr 0"])
  next
    case False
    obtain first where first: "chain h l first (map root_of ts)" using Tree.prems(1) False by auto
    have apart: "b \<noteq> a" if "b \<in> set (l # concat (map cells ts))" for b using that Tree.prems(2) False by auto
    have same: "?h2 b = h b" if "b \<in> set (l # concat (map cells ts))" for b
      using that Tree.prems(4) [of b] apart [OF that] False by auto
    have "chain ?h2 l first (map root_of ts)"
      by (rule chain_frame [OF first same [OF roots_in_cells]])
    moreover have "holds ?h2 a t" if t: "t \<in> set ts" for t
    proof (rule holds_frame [of h])
      show "?h2 b = h b" if "b \<in> set (cells t)" for b
      proof (rule same)
        show "b \<in> set (l # concat (map cells ts))" using that t by auto
      qed
      then show "map_option payload (?h2 (root_of t)) = map_option payload (h (root_of t))" by simp
    qed (use Tree.prems(1,2) t False in \<open>auto simp: distinct_concat_iff\<close>)
    ultimately obtain h3 d where h3: "free_walk (Inr (hd (map root_of ts @ [0]))) ?h2 = Some (h3, 0)"
      "h3 a = Some (c\<lparr>c_data := PLIST_NONE, c_count := c_count c - length ts\<rparr>)" "h3 l = Some d" "c_count d = 0"
      "\<forall>b. b \<notin> {a, l} \<longrightarrow> h3 b = without ?h2 (set (concat (map cells ts))) b"
      using free_kids [of ts ?h2 l first a "c\<lparr>c_data := PLIST_NONE\<rparr>"] Tree.IH Tree.prems(2) c False by auto
    have "node_destroy h3 a = Some (without h3 ({a, l} - {0}))"
      using node_destroy_empty [of h3 a] h3(2-4) a c by simp
    moreover have "node_first_child ?h2 a = Some (hd (map root_of ts @ [0]))"
      using a c False \<open>chain ?h2 l first (map root_of ts)\<close> by (auto simp: node_first_child_def chain_def)
    moreover have "without h3 ({a, l} - {0}) = without h1 (set (cells (Tree a l ts)))"
      using h3(5) a False by (auto simp: without_def fun_eq_iff)
    ultimately show ?thesis using out h3(1) by simp
  qed
qed

text \<open>\<close>

lemma plist_free_root:
  assumes "holds h 0 t" and "distinct (0 # cells t)"
  shows "plist_free h (root_of t) = Some (without h (set (cells t)))"
proof -
  have "root_of t \<noteq> 0" using assms(2) root_in_cells [of t] by (metis distinct.simps(2))
  moreover have "node_detach h 0 (root_of t) = Some (h, -1)" by (simp add: node_detach_def)
  then have "free_walk (Inl (root_of t)) h = Some (without h (set (cells t)), -1)"
    by (rule free_tree [OF assms]) simp
  ultimately show ?thesis by (simp add: plist_free_def plist_free_node_def)
qed

section \<open>Arrays\<close>

definition node_type :: "memory \<Rightarrow> addr \<Rightarrow> nat option" where
  "node_type h node = (if node = 0 then Some PLIST_NONE else map_option c_data (h node))"

definition array_get_item :: "memory \<Rightarrow> addr \<Rightarrow> nat \<Rightarrow> addr option" where
  "array_get_item h node n = do {
     t \<leftarrow> node_type h node;
     if t = PLIST_ARRAY then node_nth_child h node n else Some 0
   }"

definition array_set_item :: "memory \<Rightarrow> addr \<Rightarrow> addr \<Rightarrow> addr \<Rightarrow> nat \<Rightarrow> memory option" where
  "array_set_item h fresh node item n = do {
     t \<leftarrow> node_type h node;
     if t = PLIST_ARRAY then do {
       old_item \<leftarrow> array_get_item h node n;
       if old_item \<noteq> 0 then do {
         (h, idx) \<leftarrow> plist_free_node h old_item;
         map_option fst (if idx < 0 then node_attach h fresh node item else node_insert h fresh node (nat idx) item)
       } else Some h
     } else Some h
   }"

definition array_append_item :: "memory \<Rightarrow> addr \<Rightarrow> addr \<Rightarrow> addr \<Rightarrow> memory option" where
  "array_append_item h fresh node item = do {
     t \<leftarrow> node_type h node;
     if t = PLIST_ARRAY then map_option fst (node_attach h fresh node item) else Some h
   }"

definition array_insert_item :: "memory \<Rightarrow> addr \<Rightarrow> addr \<Rightarrow> addr \<Rightarrow> nat \<Rightarrow> memory option" where
  "array_insert_item h fresh node item n = do {
     t \<leftarrow> node_type h node;
     if t = PLIST_ARRAY then map_option fst (node_insert h fresh node n item) else Some h
   }"

definition array_remove_item :: "memory \<Rightarrow> addr \<Rightarrow> nat \<Rightarrow> memory option" where
  "array_remove_item h node n = do {
     t \<leftarrow> node_type h node;
     if t = PLIST_ARRAY then do {
       old_item \<leftarrow> array_get_item h node n;
       if old_item \<noteq> 0 then plist_free h old_item else Some h
     } else Some h
   }"

text \<open>An array in memory whose list also ends where it should; \<^verbatim>\<open>first\<close> is the predecessor of its first item.\<close>

definition array :: "memory \<Rightarrow> addr \<Rightarrow> addr \<Rightarrow> tree \<Rightarrow> bool" where
  "array h q first t \<longleftrightarrow>
     holds h q t \<and> distinct (0 # cells t) \<and> node_type h (root_of t) = Some PLIST_ARRAY \<and>
     (list_of t \<noteq> 0 \<longrightarrow> node_list h (list_of t) first (map root_of (kids t)))"

lemma own_list_ok:
  assumes "h a = Some c" "c_children c = l" and "h n = Some d" and "distinct [0, a, n, fresh]" and "l \<notin> {a, n, fresh}"
    and "if l = 0 then xs = [] else node_list h l first xs" and "a \<notin> set xs" "n \<notin> set xs"
  shows "\<exists>h' l' first'. own_list h fresh a n = Some (h', l') \<and> l' = (if l = 0 then fresh else l) \<and>
    first' = (if l = 0 then fresh else first) \<and> node_list h' l' first' xs \<and>
    h' a = Some (c\<lparr>c_children := l'\<rparr>) \<and> h' n = Some (d\<lparr>c_parent := a\<rparr>) \<and>
    (\<forall>b. b \<notin> {a, n, fresh} \<longrightarrow> h' b = h b) \<and> (l \<noteq> 0 \<longrightarrow> h' fresh = h fresh)"
proof (cases "l = 0")
  case True
  then show ?thesis
    using assms by (auto simp: own_list_def upd_def node_list_create_def list_init_def node_list_def)
next
  case False
  let ?h = "h(n \<mapsto> d\<lparr>c_parent := a\<rparr>)"
  have "c\<lparr>c_children := l\<rparr> = c" using assms(2) by auto
  moreover have "node_list ?h l first xs"
    using assms False by (auto simp: node_list_def)
  ultimately show ?thesis using False assms by (auto simp: own_list_def upd_def)
qed

lemma disjoint_kids:
  "distinct (concat (map cells ts)) \<Longrightarrow> u \<in> set ts \<Longrightarrow> b \<in> set (cells u) \<Longrightarrow> b \<noteq> root_of u \<Longrightarrow> b \<notin> root_of ` set ts"
proof
  assume d: "distinct (concat (map cells ts))" "u \<in> set ts" "b \<in> set (cells u)" "b \<noteq> root_of u" and "b \<in> root_of ` set ts"
  then obtain v where v: "v \<in> set ts" "b = root_of v" by blast
  then have "b \<in> set (cells v)" "cells u \<noteq> cells v" using d(4) root_in_cells [of v] hd_cells [of u] hd_cells [of v] by auto
  then have "set (cells u) \<inter> set (cells v) = {}" using d(1,2) v(1) by (simp add: distinct_concat_iff)
  then show False using d(3) \<open>b \<in> set (cells v)\<close> by blast
qed

text \<open>
  Insertion, which past the end is attaching.  \<^verbatim>\<open>h1\<close> is the memory in which the item knows its parent and
  the array its list.
\<close>

lemma item_apart:
  assumes dist: "distinct (0 # fresh # cells (Tree a l ts) @ cells u)"
  shows "a \<noteq> 0" "a \<noteq> l" "a \<noteq> fresh" "fresh \<noteq> 0" "a \<notin> set (concat (map cells ts))" "a \<notin> set (cells u)"
    "fresh \<notin> set (concat (map cells ts))" "fresh \<notin> set (cells u)" "l \<noteq> fresh" "l \<notin> set (concat (map cells ts))"
    "l \<notin> set (cells u)" "set (concat (map cells ts)) \<inter> set (cells u) = {}"
    "distinct (concat (map cells ts))" "distinct (cells u)" "0 \<notin> set (concat (map cells ts))" "0 \<notin> set (cells u)"
    "root_of u \<noteq> 0" "root_of u \<noteq> a" "root_of u \<noteq> l" "root_of u \<noteq> fresh" "root_of u \<notin> set (concat (map cells ts))"
proof -
  show a: "a \<noteq> 0" "a \<noteq> l" "a \<noteq> fresh" "fresh \<noteq> 0" "a \<notin> set (concat (map cells ts))" "a \<notin> set (cells u)"
    "fresh \<notin> set (concat (map cells ts))" "fresh \<notin> set (cells u)" "l \<noteq> fresh" "l \<notin> set (concat (map cells ts))"
    "l \<notin> set (cells u)" "set (concat (map cells ts)) \<inter> set (cells u) = {}"
    "distinct (concat (map cells ts))" "distinct (cells u)" "0 \<notin> set (concat (map cells ts))" "0 \<notin> set (cells u)"
    using dist by (simp_all split: if_splits)
  show "root_of u \<noteq> 0" "root_of u \<noteq> a" "root_of u \<noteq> l" "root_of u \<noteq> fresh" "root_of u \<notin> set (concat (map cells ts))"
    using a root_in_cells [of u] by (metis disjoint_iff)+
qed

lemma own_list_item:
  assumes arr: "array h q first (Tree a l ts)" and u: "holds h r u"
    and dist: "distinct (0 # fresh # cells (Tree a l ts) @ cells u)"
  shows "\<exists>h1 first1 c d. own_list h fresh a (root_of u) = Some (h1, if l = 0 then fresh else l) \<and>
    node_list h1 (if l = 0 then fresh else l) first1 (map root_of ts) \<and>
    h a = Some c \<and> c_parent c = q \<and> c_count c = length ts \<and> c_data c = PLIST_ARRAY \<and>
    h (root_of u) = Some d \<and> c_children d = list_of u \<and> c_count d = length (kids u) \<and>
    h1 a = Some (c\<lparr>c_children := (if l = 0 then fresh else l)\<rparr>) \<and> h1 (root_of u) = Some (d\<lparr>c_parent := a\<rparr>) \<and>
    (\<forall>b. b \<notin> {a, root_of u, fresh} \<longrightarrow> h1 b = h b)"
proof -
  note ap = item_apart [OF dist]
  obtain c where c: "h a = Some c" "c_parent c = q" "c_children c = l" "c_count c = length ts" "c_data c = PLIST_ARRAY"
    using arr by (auto simp: array_def node_type_def)
  obtain d where d: "h (root_of u) = Some d" "c_children d = list_of u" "c_count d = length (kids u)" using holds_root [OF u] by auto
  have roots: "b \<notin> set (map root_of ts)" if "b \<notin> set (concat (map cells ts))" for b using that roots_subset [of ts] by auto
  have "if l = 0 then map root_of ts = [] else node_list h l first (map root_of ts)" using arr by (simp add: array_def)
  then show ?thesis
    using own_list_ok [OF c(1,3) d(1), of fresh "map root_of ts" first] ap roots [OF ap(5)] roots [OF ap(21)] c d by auto blast+
qed

lemma insert_item:
  assumes arr: "array h q first (Tree a l ts)" and u: "holds h r u"
    and dist: "distinct (0 # fresh # cells (Tree a l ts) @ cells u)"
  shows "\<exists>h' first'. node_insert h fresh a i (root_of u) = Some (h', 0) \<and>
    array h' q first' (Tree a (if l = 0 then fresh else l) (take i ts @ u # drop i ts)) \<and>
    (i = 0 \<and> ts \<noteq> [] \<longrightarrow> first' = 0) \<and>
    (\<forall>b. b \<notin> set (fresh # cells (Tree a l ts) @ cells u) \<longrightarrow> h' b = h b)"
proof -
  let ?n = "root_of u" and ?l = "if l = 0 then fresh else l" and ?xs = "map root_of ts" and ?ts = "set (concat (map cells ts))"
  note a = item_apart(1-16) [OF dist] and n = item_apart(17-21) [OF dist]
  have roots: "b \<in> ?ts" if "b \<in> set ?xs" for b using that roots_subset [of ts] by auto
  obtain h1 first1 c d where own: "own_list h fresh a ?n = Some (h1, ?l)" and list1: "node_list h1 ?l first1 ?xs"
    and c: "h a = Some c" "c_parent c = q" "c_count c = length ts" "c_data c = PLIST_ARRAY"
    and d: "h ?n = Some d" "c_children d = list_of u" "c_count d = length (kids u)"
    and h1: "h1 a = Some (c\<lparr>c_children := ?l\<rparr>)" "h1 ?n = Some (d\<lparr>c_parent := a\<rparr>)" "\<forall>b. b \<notin> {a, ?n, fresh} \<longrightarrow> h1 b = h b"
    using own_list_item [OF arr u dist] by blast
  have n_list: "?n \<notin> set (0 # ?l # ?xs)" using n roots by auto
  obtain h2 first2 where ins: "node_list_insert h1 ?l i ?n = Some (h2, 0)"
    and list2: "node_list h2 ?l first2 (take i ?xs @ ?n # drop i ?xs)"
    and front: "i = 0 \<and> ?xs \<noteq> [] \<longrightarrow> first2 = 0"
    and h2: "\<forall>b. b \<notin> set (?l # ?n # ?xs) \<longrightarrow> h2 b = h1 b"
    using node_list_insert_ok [OF list1 n_list h1(2), of i] by blast
  have pay: "map_option payload (h2 b) = map_option payload (h1 b)" if "b \<noteq> ?l" for b
    using node_list_insert_payload [OF ins] that by (simp add: same_payload_def)
  have l: "?l \<noteq> a" "?l \<noteq> 0" "?l \<notin> ?ts" "?l \<notin> set (cells u)" using a by auto
  have nl: "?n \<noteq> ?l" using n by simp
  have fresh_xs: "a \<notin> set ?xs" "?l \<notin> set ?xs" "?n \<notin> set ?xs" using roots a(5) l(3) n(5) by blast+
  have h2a: "h2 a = Some (c\<lparr>c_children := ?l\<rparr>)" using h2 [rule_format, of a] h1(1) l n fresh_xs by simp
  let ?h3 = "h2(a \<mapsto> c\<lparr>c_children := ?l, c_count := c_count c + 1\<rparr>)"
  let ?t' = "Tree a ?l (take i ts @ u # drop i ts)"
  have out: "node_insert h fresh a i ?n = Some (?h3, 0)"
    using own ins h2a a n by (simp add: node_insert_def upd_def)
  have far: "?h3 b = h b" if "b \<notin> {a, ?n, ?l, fresh} \<union> set ?xs" for b
    using that h2 h1(3) by auto
  have "holds ?h3 a t" if t: "t \<in> set ts" for t
  proof (rule holds_frame [of h])
    show "holds h a t" using arr t by (simp add: array_def)
    show "distinct (cells t)" using a(13) t by (simp add: distinct_concat_iff)
    have in_ts: "b \<in> ?ts" if "b \<in> set (cells t)" for b using that t by auto
    show "?h3 b = h b" if b: "b \<in> set (cells t)" "b \<noteq> root_of t" for b
    proof (rule far)
      have "b \<notin> set ?xs" using disjoint_kids [OF a(13) t b] by simp
      moreover have "b \<in> ?ts" by (rule in_ts [OF b(1)])
      ultimately show "b \<notin> {a, ?n, ?l, fresh} \<union> set ?xs" using a n l by auto
    qed
    have "root_of t \<in> ?ts" by (rule in_ts [OF root_in_cells])
    then have "root_of t \<noteq> ?l" "root_of t \<noteq> a" "root_of t \<noteq> ?n" "root_of t \<noteq> fresh" using a n l by auto
    then show "map_option payload (?h3 (root_of t)) = map_option payload (h (root_of t))"
      using pay h1(3) by simp
  qed
  moreover have "holds ?h3 a u"
  proof -
    obtain d' where d': "h2 ?n = Some d'" "payload d' = payload (d\<lparr>c_parent := a\<rparr>)"
      using pay [OF nl] h1(2) by (auto simp: map_option_eq_Some)
    have "?h3 b = h b" if b: "b \<in> set (cells u)" "b \<noteq> ?n" for b
    proof (rule far)
      have "b \<notin> ?ts" using a(12) b(1) by blast
      then have "b \<notin> set ?xs" using roots by blast
      then show "b \<notin> {a, ?n, ?l, fresh} \<union> set ?xs" using a l b by auto
    qed
    then show ?thesis
      using holds_move [OF u, of ?h3 d d' a] d d' n a by (simp add: payload_def)
  qed
  ultimately have kids: "holds ?h3 a t" if "t \<in> set (take i ts @ u # drop i ts)" for t
    using that set_take_subset [of i ts] set_drop_subset [of i ts] by auto
  have xs': "map root_of (take i ts @ u # drop i ts) = take i ?xs @ ?n # drop i ?xs" by (simp add: take_map drop_map)
  have "a \<notin> set (take i ?xs @ ?n # drop i ?xs)"
    using n fresh_xs set_take_subset [of i ?xs] set_drop_subset [of i ?xs] by auto
  then have list3: "node_list ?h3 ?l first2 (map root_of (take i ts @ u # drop i ts))"
    using list2 l unfolding xs' by (simp add: node_list_def)
  have split: "concat (map cells ts) = concat (map cells (take i ts)) @ concat (map cells (drop i ts))"
    by (metis append_take_drop_id concat_append map_append)
  have "distinct (0 # cells ?t')"
    using a l unfolding split by auto
  then have "array ?h3 q first2 ?t'"
    using c kids list3 node_list_chain [OF list3] l a by (auto simp: array_def node_type_def)
  moreover have "?h3 b = h b" if "b \<notin> set (fresh # cells (Tree a l ts) @ cells u)" for b
    using that root_in_cells [of u] roots by (intro far) (auto split: if_splits)
  ultimately show ?thesis using out front by auto
qed

lemma remove1_nth: "distinct xs \<Longrightarrow> i < length xs \<Longrightarrow> remove1 (xs ! i) xs = take i xs @ drop (Suc i) xs"
proof (induction xs arbitrary: i)
  case (Cons x xs)
  then show ?case by (cases i) auto
qed simp

lemma takeWhile_nth: "distinct xs \<Longrightarrow> i < length xs \<Longrightarrow> length (takeWhile (\<lambda>x. x \<noteq> xs ! i) xs) = i"
proof (induction xs arbitrary: i)
  case (Cons x xs)
  then show ?case by (cases i) auto
qed simp

lemma array_facts:
  assumes "array h q first (Tree a l ts)" and "ts \<noteq> []"
  shows "a \<noteq> 0" "l \<noteq> 0" "a \<noteq> l" "a \<notin> set (concat (map cells ts))" "l \<notin> set (concat (map cells ts))"
    "0 \<notin> set (concat (map cells ts))" "distinct (concat (map cells ts))" "node_list h l first (map root_of ts)"
    "distinct (map root_of ts)" "t \<in> set ts \<Longrightarrow> holds h a t"
    "\<exists>c. h a = Some c \<and> c_parent c = q \<and> c_children c = l \<and> c_count c = length ts \<and> c_data c = PLIST_ARRAY"
  using assms by (auto simp: array_def node_type_def node_list_def split: if_splits)

text \<open>Detaching an item leaves its tree alone.\<close>

lemma detach_item:
  assumes arr: "array h q first (Tree a l ts)" and i: "i < length ts" and other: "first = l \<or> 1 < length ts"
  shows "\<exists>h1. node_detach h a (root_of (ts ! i)) = Some (h1, int i) \<and>
    node_list h1 l first (map root_of (take i ts @ drop (Suc i) ts)) \<and>
    (\<exists>c. h1 a = Some c \<and> c_parent c = q \<and> c_children c = l \<and> c_count c = length ts - 1 \<and> c_data c = PLIST_ARRAY) \<and>
    (\<forall>b. b \<notin> {a, l} \<union> root_of ` set (take i ts @ drop (Suc i) ts) \<longrightarrow> h1 b = h b) \<and>
    (\<forall>b. b \<notin> {a, l} \<longrightarrow> map_option payload (h1 b) = map_option payload (h b))"
proof -
  have ne: "ts \<noteq> []" using i by auto
  note f = array_facts [OF arr ne]
  let ?n = "root_of (ts ! i)" and ?xs = "map root_of ts" and ?ys = "map root_of (take i ts @ drop (Suc i) ts)"
  obtain c where c: "h a = Some c" "c_parent c = q" "c_children c = l" "c_count c = length ts" "c_data c = PLIST_ARRAY"
    using f(11) by blast
  have "?n \<in> set ?xs" using i by simp
  moreover have "0 \<notin> set ?xs" using f(8) by (simp add: node_list_def)
  ultimately have n: "?n \<in> set ?xs" "?n \<noteq> 0" by (simp, metis)
  have ys: "remove1 ?n ?xs = ?ys" using remove1_nth [OF f(9), of i] i by (simp add: take_map drop_map)
  have "?xs \<noteq> [?n] \<or> first = l" using other by (cases ts) auto
  then obtain h1 where h1: "node_list_remove h l ?n = Some (h1, int i)" "node_list h1 l first ?ys"
    "\<forall>b. b \<notin> set (l # ?ys) \<longrightarrow> h1 b = h b"
    using node_list_remove_ok [OF f(8) n(1)] takeWhile_nth [OF f(9), of i] i ys by (auto simp del: map_append)
  have "a \<notin> set ?xs" using f(4) roots_subset [of ts] by auto
  then have a: "a \<notin> set ?ys" unfolding ys [symmetric] using set_remove1_subset by fast
  let ?h1 = "h1(a \<mapsto> c\<lparr>c_count := c_count c - 1\<rparr>)"
  have h1a: "h1 a = Some c" using h1(3) [rule_format, of a] f(3) a c(1) by simp
  have "node_detach h a ?n = Some (?h1, int i)"
    using c h1(1) h1a f(1) n(2) by (simp add: node_detach_def upd_def)
  moreover have "node_list ?h1 l first ?ys" using h1(2) a f(3) by (simp add: node_list_def)
  moreover have "?h1 b = h b" if "b \<notin> {a, l} \<union> root_of ` set (take i ts @ drop (Suc i) ts)" for b
    using h1(3) [rule_format, of b] that by auto
  moreover have "map_option payload (?h1 b) = map_option payload (h b)" if "b \<notin> {a, l}" for b
    using node_list_remove_payload [OF h1(1)] that by (simp add: same_payload_def)
  ultimately show ?thesis using c by auto
qed

lemma free_item:
  assumes arr: "array h q first (Tree a l ts)" and i: "i < length ts" and other: "first = l \<or> 1 < length ts"
  shows "\<exists>h'. plist_free_node h (root_of (ts ! i)) = Some (h', int i) \<and>
    array h' q first (Tree a l (take i ts @ drop (Suc i) ts)) \<and>
    (\<forall>b \<in> set (cells (ts ! i)). h' b = None) \<and> (\<forall>b. b \<notin> set (cells (Tree a l ts)) \<longrightarrow> h' b = h b)"
proof -
  have ne: "ts \<noteq> []" using i by auto
  note f = array_facts [OF arr ne]
  let ?u = "ts ! i" and ?rest = "take i ts @ drop (Suc i) ts"
  obtain h1 c where h1: "node_detach h a (root_of ?u) = Some (h1, int i)" "node_list h1 l first (map root_of ?rest)"
    and c: "h1 a = Some c" "c_parent c = q" "c_children c = l" "c_count c = length ts - 1" "c_data c = PLIST_ARRAY"
    and far: "\<forall>b. b \<notin> {a, l} \<union> root_of ` set ?rest \<longrightarrow> h1 b = h b"
    and pay: "\<forall>b. b \<notin> {a, l} \<longrightarrow> map_option payload (h1 b) = map_option payload (h b)"
    using detach_item [OF arr i other] by blast
  have ts: "ts = take i ts @ ?u # drop (Suc i) ts" by (rule id_take_nth_drop [OF i])
  have all: "concat (map cells ts) = concat (map cells (take i ts)) @ cells ?u @ concat (map cells (drop (Suc i) ts))"
    by (subst ts) simp
  let ?R = "set (concat (map cells ?rest))"
  have sets: "set (concat (map cells ts)) = set (cells ?u) \<union> ?R" unfolding all by auto
  have d: "set (cells ?u) \<inter> ?R = {}" "distinct (cells ?u)" "distinct (concat (map cells ?rest))"
    using f(7) unfolding all by auto
  have u: "?u \<in> set ts" using i by simp
  have out: "a \<notin> set (cells ?u)" "l \<notin> set (cells ?u)" "a \<notin> ?R" "l \<notin> ?R" "0 \<notin> set (cells ?u)" "0 \<notin> ?R"
    using f(4-6) unfolding sets by blast+
  have roots: "root_of ` set ?rest \<subseteq> ?R" by (rule roots_subset)
  let ?h' = "without h1 (set (cells ?u))"
  have "free_walk (Inl (root_of ?u)) h = Some (?h', int i)"
  proof (rule free_tree [OF f(10) [OF u] _ h1(1)])
    show "distinct (0 # cells ?u)" using out d by simp
    fix b
    assume b: "b \<in> set (cells ?u)"
    then have "b \<notin> {a, l}" "b \<notin> ?R" using out d(1) by blast+
    then have "b \<notin> {a, l} \<union> root_of ` set ?rest" using roots by blast
    then show "h1 b = h b" using far by simp
  qed
  moreover have "holds ?h' a t" if t: "t \<in> set ?rest" for t
  proof (rule holds_frame [of h])
    have t': "t \<in> set ts" using t by (subst ts) auto
    show "holds h a t" by (rule f(10) [OF t'])
    show "distinct (cells t)" using f(7) t' by (simp add: distinct_concat_iff)
    have in_R: "b \<in> ?R" if "b \<in> set (cells t)" for b using that t by auto
    show "?h' b = h b" if b: "b \<in> set (cells t)" "b \<noteq> root_of t" for b
    proof -
      have "b \<notin> root_of ` set ?rest" by (rule disjoint_kids [OF d(3) t b])
      moreover have "b \<notin> {a, l}" "b \<notin> set (cells ?u)" using in_R [OF b(1)] out d(1) by blast+
      ultimately show ?thesis using far by (simp add: without_def)
    qed
    have "root_of t \<in> ?R" by (rule in_R [OF root_in_cells])
    then have "root_of t \<notin> {a, l}" "root_of t \<notin> set (cells ?u)" using out d(1) by blast+
    then show "map_option payload (?h' (root_of t)) = map_option payload (h (root_of t))"
      using pay by (simp add: without_def)
  qed
  moreover have list': "node_list ?h' l first (map root_of ?rest)"
  proof -
    have "segment h1 p xs e \<Longrightarrow> set xs \<inter> set (cells ?u) = {} \<Longrightarrow> segment ?h' p xs e" for p xs e
      by (induction xs arbitrary: p) (auto simp: without_def)
    moreover have "set (map root_of ?rest) \<inter> set (cells ?u) = {}" using roots d(1) by auto
    ultimately show ?thesis using h1(2) out(2) by (auto simp: node_list_def without_def)
  qed
  moreover have "distinct (0 # cells (Tree a l ?rest))"
    using f(1-3) out d(3) by simp
  ultimately have "array ?h' q first (Tree a l ?rest)"
    using c out f(1,2) i node_list_chain [OF list'] by (auto simp: array_def node_type_def without_def)
  moreover have "?h' b = h b" if "b \<notin> set (cells (Tree a l ts))" for b
  proof -
    have "b \<notin> {a, l}" "b \<notin> set (concat (map cells ts))" using that f(2) by auto
    then have "b \<notin> {a, l}" "b \<notin> set (cells ?u)" "b \<notin> ?R" unfolding sets by blast+
    moreover then have "b \<notin> {a, l} \<union> root_of ` set ?rest" using roots by blast
    ultimately show ?thesis using far by (simp add: without_def)
  qed
  ultimately show ?thesis
    using \<open>free_walk (Inl (root_of ?u)) h = Some (?h', int i)\<close> by (auto simp: plist_free_node_def without_def)
qed

lemma nth_from_segment:
  "segment h p xs 0 \<Longrightarrow> 0 \<notin> set xs \<Longrightarrow> k \<le> n \<Longrightarrow>
     nth_from h (hd (xs @ [0])) k n = Some (if n - k < length xs then xs ! (n - k) else 0)"
proof (induction xs arbitrary: p k)
  case Nil
  then show ?case by (simp add: nth_from.simps)
next
  case (Cons x xs)
  obtain c where c: "h x = Some c" "c_next c = hd (xs @ [0])" using Cons.prems by auto
  show ?case
  proof (cases "k = n")
    case True
    then show ?thesis using Cons.prems by (simp add: nth_from.simps)
  next
    case False
    have "nth_from h (hd (xs @ [0])) (Suc k) n = Some (if n - Suc k < length xs then xs ! (n - Suc k) else 0)"
      using Cons.IH [of x "Suc k"] Cons.prems False by simp
    moreover have "n - k = Suc (n - Suc k)" using False Cons.prems by simp
    ultimately show ?thesis using False Cons.prems c by (simp add: nth_from.simps [of h x] node_next_sibling_def)
  qed
qed

lemma array_get_item_ok:
  assumes arr: "array h q first (Tree a l ts)"
  shows "array_get_item h a i = Some (if i < length ts then root_of (ts ! i) else 0)"
proof -
  obtain c where c: "h a = Some c" "c_children c = l" "node_type h a = Some PLIST_ARRAY" "a \<noteq> 0"
    using arr by (auto simp: array_def)
  show ?thesis
  proof (cases "l = 0")
    case True
    then show ?thesis using arr c by (simp add: array_def array_get_item_def node_nth_child_def node_first_child_def nth_from.simps)
  next
    case False
    then have "node_list h l first (map root_of ts)" using arr by (simp add: array_def)
    then have "nth_from h (hd (map root_of ts @ [0])) 0 i = Some (if i < length ts then root_of (ts ! i) else 0)"
      "map_option c_next (h l) = Some (hd (map root_of ts @ [0]))"
      using nth_from_segment [of h first "map root_of ts" 0 i] by (auto simp: node_list_def)
    then show ?thesis using c False by (simp add: array_get_item_def node_nth_child_def node_first_child_def map_option_case)
  qed
qed

lemma node_attach_insert:
  assumes "array h q first (Tree a l ts)" and "holds h r u" and "distinct (0 # fresh # cells (Tree a l ts) @ cells u)"
  shows "node_attach h fresh a (root_of u) = node_insert h fresh a (length ts) (root_of u)"
proof -
  obtain h1 l' first1 where "own_list h fresh a (root_of u) = Some (h1, l')" "node_list h1 l' first1 (map root_of ts)"
    using own_list_item [OF assms] by blast
  moreover then obtain c where "h1 l' = Some c" "c_count c = length ts" using node_list_count by fastforce
  ultimately show ?thesis by (auto simp: node_attach_def node_insert_def node_list_insert_def node_list_add_def)
qed

lemma array_type: "array h q first (Tree a l ts) \<Longrightarrow> node_type h a = Some PLIST_ARRAY \<and> a \<noteq> 0"
  by (auto simp: array_def)

lemma item_root:
  assumes "array h q first (Tree a l ts)" and "i < length ts"
  shows "root_of (ts ! i) \<noteq> 0"
proof -
  have "ts \<noteq> []" using assms(2) by auto
  moreover have "ts ! i \<in> set ts" using assms(2) by simp
  ultimately have "0 \<notin> set (cells (ts ! i))" using array_facts(6) [OF assms(1)] by simp
  then show ?thesis using root_in_cells [of "ts ! i"] by metis
qed

lemma array_insert_item_ok:
  assumes "array h q first (Tree a l ts)" and "holds h r u" and "distinct (0 # fresh # cells (Tree a l ts) @ cells u)"
  shows "\<exists>h' first'. array_insert_item h fresh a (root_of u) i = Some h' \<and>
    array h' q first' (Tree a (if l = 0 then fresh else l) (take i ts @ u # drop i ts)) \<and>
    (i = 0 \<and> ts \<noteq> [] \<longrightarrow> first' = 0) \<and> (\<forall>b. b \<notin> set (fresh # cells (Tree a l ts) @ cells u) \<longrightarrow> h' b = h b)"
proof -
  obtain h' first' where "node_insert h fresh a i (root_of u) = Some (h', 0)"
    and rest: "array h' q first' (Tree a (if l = 0 then fresh else l) (take i ts @ u # drop i ts))"
      "i = 0 \<and> ts \<noteq> [] \<longrightarrow> first' = 0" "\<forall>b. b \<notin> set (fresh # cells (Tree a l ts) @ cells u) \<longrightarrow> h' b = h b"
    using insert_item [OF assms, of i] by blast
  then have "array_insert_item h fresh a (root_of u) i = Some h'"
    using array_type [OF assms(1)] by (simp add: array_insert_item_def)
  then show ?thesis using rest by blast
qed

lemma array_append_item_ok:
  assumes "array h q first (Tree a l ts)" and "holds h r u" and "distinct (0 # fresh # cells (Tree a l ts) @ cells u)"
  shows "\<exists>h' first'. array_append_item h fresh a (root_of u) = Some h' \<and>
    array h' q first' (Tree a (if l = 0 then fresh else l) (ts @ [u])) \<and>
    (\<forall>b. b \<notin> set (fresh # cells (Tree a l ts) @ cells u) \<longrightarrow> h' b = h b)"
  using insert_item [OF assms, of "length ts"] node_attach_insert [OF assms] array_type [OF assms(1)]
  by (auto simp: array_append_item_def)

lemma array_remove_item_ok:
  assumes arr: "array h q first (Tree a l ts)" and i: "i < length ts" and other: "first = l \<or> 1 < length ts"
  shows "\<exists>h'. array_remove_item h a i = Some h' \<and> array h' q first (Tree a l (take i ts @ drop (Suc i) ts)) \<and>
    (\<forall>b \<in> set (cells (ts ! i)). h' b = None) \<and> (\<forall>b. b \<notin> set (cells (Tree a l ts)) \<longrightarrow> h' b = h b)"
  using free_item [OF arr i other] array_get_item_ok [OF arr, of i] i array_type [OF arr] item_root [OF arr i]
  by (auto simp: array_remove_item_def plist_free_def)

lemma array_set_item_ok:
  assumes arr: "array h q first (Tree a l ts)" and u: "holds h r u"
    and dist: "distinct (0 # fresh # cells (Tree a l ts) @ cells u)"
    and i: "i < length ts" and other: "first = l \<or> 1 < length ts"
  shows "\<exists>h' first'. array_set_item h fresh a (root_of u) i = Some h' \<and> array h' q first' (Tree a l (ts[i := u])) \<and>
    (i = 0 \<and> 1 < length ts \<longrightarrow> first' = 0) \<and>
    (\<forall>b \<in> set (cells (ts ! i)). h' b = None) \<and> (\<forall>b. b \<notin> set (fresh # cells (Tree a l ts) @ cells u) \<longrightarrow> h' b = h b)"
proof -
  let ?rest = "take i ts @ drop (Suc i) ts"
  have ts: "ts = take i ts @ ts ! i # drop (Suc i) ts" by (rule id_take_nth_drop [OF i])
  have ne: "ts \<noteq> []" using i by auto
  note l = array_facts(2) [OF arr ne]
  obtain h1 where h1: "plist_free_node h (root_of (ts ! i)) = Some (h1, int i)" "array h1 q first (Tree a l ?rest)"
    "\<forall>b \<in> set (cells (ts ! i)). h1 b = None" "\<forall>b. b \<notin> set (cells (Tree a l ts)) \<longrightarrow> h1 b = h b"
    using free_item [OF arr i other] by blast
  have all: "concat (map cells ts) = concat (map cells (take i ts)) @ cells (ts ! i) @ concat (map cells (drop (Suc i) ts))"
    by (subst ts) simp
  have sub: "set (cells (Tree a l ?rest)) \<subseteq> set (cells (Tree a l ts))" "set (cells (ts ! i)) \<subseteq> set (cells (Tree a l ts))"
    using all by auto
  have apart: "set (cells (ts ! i)) \<inter> set (fresh # cells (Tree a l ?rest) @ cells u) = {}"
    "distinct (0 # fresh # cells (Tree a l ?rest) @ cells u)"
    using dist l unfolding cells.simps all by auto
  have u1: "holds h1 r u"
  proof (rule holds_frame [OF u])
    have "set (cells u) \<inter> set (cells (Tree a l ts)) = {}" using dist by (simp only: distinct.simps distinct_append) blast
    then have eq: "h1 b = h b" if "b \<in> set (cells u)" for b using h1(4) that by blast
    then show "h1 b = h b" if "b \<in> set (cells u)" for b using that by blast
    show "map_option payload (h1 (root_of u)) = map_option payload (h (root_of u))" using eq by simp
    show "distinct (cells u)" using dist by simp
  qed
  obtain h' first' where h': "node_insert h1 fresh a i (root_of u) = Some (h', 0)"
    "array h' q first' (Tree a l (take i ?rest @ u # drop i ?rest))" "i = 0 \<and> ?rest \<noteq> [] \<longrightarrow> first' = 0"
    "\<forall>b. b \<notin> set (fresh # cells (Tree a l ?rest) @ cells u) \<longrightarrow> h' b = h1 b"
    using insert_item [OF h1(2) u1 apart(2), of i] l by auto
  have "take i ?rest @ u # drop i ?rest = ts[i := u]" using i by (simp add: upd_conv_take_nth_drop)
  moreover have "array_set_item h fresh a (root_of u) i = Some h'"
    using h1(1) h'(1) array_get_item_ok [OF arr, of i] i array_type [OF arr] item_root [OF arr i]
    by (simp add: array_set_item_def)
  moreover have "h' b = None" if "b \<in> set (cells (ts ! i))" for b
  proof -
    have "b \<notin> set (fresh # cells (Tree a l ?rest) @ cells u)" using apart(1) [unfolded disjoint_iff] that by blast
    then have "h' b = h1 b" by (rule h'(4) [rule_format])
    then show ?thesis using h1(3) that by simp
  qed
  moreover have "h' b = h b" if b: "b \<notin> set (fresh # cells (Tree a l ts) @ cells u)" for b
  proof -
    have "b \<notin> set (cells (Tree a l ts))" using b unfolding list.set set_append by blast
    moreover then have "b \<notin> set (fresh # cells (Tree a l ?rest) @ cells u)"
      using b sub(1) unfolding list.set(2) [of fresh] set_append by blast
    ultimately show ?thesis using h'(4) [rule_format] h1(4) [rule_format] by metis
  qed
  moreover have "?rest \<noteq> []" if "1 < length ts" "i = 0" using that by (cases ts) auto
  then have "i = 0 \<and> 1 < length ts \<longrightarrow> first' = 0" using h'(3) by blast
  ultimately show ?thesis using h'(2) by metis
qed

text \<open>The position of an item, and the number of them.\<close>

lemma node_child_position_ok:
  assumes arr: "array h q first (Tree a l ts)" and i: "i < length ts"
  shows "node_child_position h a (root_of (ts ! i)) = Some (int i)" and "node_n_children h a = Some (length ts)"
proof -
  have ne: "ts \<noteq> []" using i by auto
  note f = array_facts [OF arr ne]
  obtain c where c: "h a = Some c" "c_children c = l" "c_count c = length ts" using f(11) by blast
  obtain d where d: "h l = Some d" "c_next d = hd (map root_of ts @ [0])" "segment h first (map root_of ts) 0"
    using f(8) by (auto simp: node_list_def)
  have "root_of (ts ! i) \<in> set (map root_of ts)" using i by simp
  moreover have "length (takeWhile (\<lambda>x. x \<noteq> root_of (ts ! i)) (map root_of ts)) = i"
    using takeWhile_nth [OF f(9), of i] i by simp
  moreover have "0 \<notin> set (map root_of ts)" using f(8) by (simp add: node_list_def)
  ultimately have "position_from h (hd (map root_of ts @ [0])) (root_of (ts ! i)) 0 = Some (Some i)"
    using position_from_segment [OF d(3) _ f(9), of "root_of (ts ! i)" 0] by simp
  then show "node_child_position h a (root_of (ts ! i)) = Some (int i)"
    using c d(1,2) f(1,2) item_root [OF arr i] by (simp add: node_child_position_def node_first_child_def)
  show "node_n_children h a = Some (length ts)" using c f(1) by (simp add: node_n_children_def)
qed

end
