(* ===== verification/Node_Arrays.thy ===== *)
theory Node_Arrays
  imports Node_Tree
begin

text \<open>
  What the functions of \<^verbatim>\<open>plist/plist.c\<close> do to arrays in memory: they change the list of items as
  \<open>Plist\<close> says, free exactly the items they drop, and leave all other memory alone, except in one
  case, in which a list goes on ending in a node that is gone.
\<close>

section \<open>Freeing\<close>

text \<open>C9: 
  Freeing a property list releases every node and every list header of it exactly once (a second
  release of a cell would be undefined) and changes nothing else, whatever the shape of the list.
\<close>

theorem plist_free_releases:
  assumes "holds h 0 t" and "distinct (0 # cells t)"
  shows "plist_free h (root_of t) = Some (\<lambda>a. if a \<in> set (cells t) then None else h a)"
  using plist_free_root [OF assms] by (simp add: without_def)

text \<open>An array at 1 with its list at 2 and two numbers, and a number of its own at 5.\<close>

definition sample_memory :: memory where
  "sample_memory = [
     1 \<mapsto> \<lparr>c_next = 0, c_prev = 0, c_count = 2, c_data = PLIST_ARRAY, c_parent = 0, c_children = 2\<rparr>,
     2 \<mapsto> \<lparr>c_next = 3, c_prev = 4, c_count = 2, c_data = 0, c_parent = 0, c_children = 0\<rparr>,
     3 \<mapsto> \<lparr>c_next = 4, c_prev = 2, c_count = 0, c_data = 1, c_parent = 1, c_children = 0\<rparr>,
     4 \<mapsto> \<lparr>c_next = 0, c_prev = 3, c_count = 0, c_data = 1, c_parent = 1, c_children = 0\<rparr>,
     5 \<mapsto> \<lparr>c_next = 0, c_prev = 0, c_count = 0, c_data = 1, c_parent = 0, c_children = 0\<rparr>]"

definition sample_array :: tree where
  "sample_array = Tree 1 2 [Tree 3 0 [], Tree 4 0 []]"

lemma sample_holds: "node_list sample_memory 2 2 [3, 4]" "holds sample_memory 0 sample_array" "holds sample_memory 0 (Tree 5 0 [])"
proof -
  show l: "node_list sample_memory 2 2 [3, 4]" by (simp add: sample_memory_def node_list_def)
  show "holds sample_memory 0 (Tree 5 0 [])" by (simp add: sample_memory_def)
  show "holds sample_memory 0 sample_array"
    using node_list_chain [OF l] by (auto simp: sample_array_def) (simp_all add: sample_memory_def)
qed

lemma sample_is_array: "array sample_memory 0 2 sample_array"
  using sample_holds by (simp add: array_def sample_array_def node_type_def) (simp add: sample_memory_def)

theorem plist_free_releases_witness:
  "plist_free sample_memory 1 = Some (\<lambda>a. if a \<in> {1, 2, 3, 4} then None else sample_memory a)"
proof -
  have "distinct (0 # cells sample_array)" by (simp add: sample_array_def)
  then show ?thesis
    using plist_free_releases [OF sample_holds(2)] by (simp add: sample_array_def)
qed

section \<open>Arrays\<close>

text \<open>C10: 
  Appending, inserting and replacing an item do to the items of an array in memory what the
  functions of \<open>Plist\<close> do to its list; the replaced item is freed, the new one belongs to the array,
  and only the array, both items and the cell for a new list change.  The only item of an array may
  only be replaced if its list still has it behind the header.
\<close>

theorem array_items_refine:
  assumes "array h q first (Tree a l ts)" and "holds h r u"
    and "distinct (0 # fresh # cells (Tree a l ts) @ cells u)" and "first = l \<or> 1 < length ts"
  shows
    "(\<exists>h' first'. array_append_item h fresh a (root_of u) = Some h' \<and>
       array h' q first' (Tree a (if l = 0 then fresh else l) (ts @ [u]))) \<and>
     (\<forall>i. \<exists>h' first'. array_insert_item h fresh a (root_of u) i = Some h' \<and>
       array h' q first' (Tree a (if l = 0 then fresh else l) (take i ts @ u # drop i ts))) \<and>
     (\<forall>i < length ts. \<exists>h' first'. array_set_item h fresh a (root_of u) i = Some h' \<and>
       array h' q first' (Tree a l (ts[i := u])) \<and> (\<forall>b \<in> set (cells (ts ! i)). h' b = None) \<and>
       (\<forall>b. b \<notin> set (fresh # cells (Tree a l ts) @ cells u) \<longrightarrow> h' b = h b)) \<and>
     (\<forall>i < length ts. \<exists>h'. array_remove_item h a i = Some h' \<and>
       array h' q first (Tree a l (take i ts @ drop (Suc i) ts)) \<and> (\<forall>b \<in> set (cells (ts ! i)). h' b = None))"
proof (intro conjI allI impI)
  show "\<exists>h' first'. array_append_item h fresh a (root_of u) = Some h' \<and>
      array h' q first' (Tree a (if l = 0 then fresh else l) (ts @ [u]))"
    using array_append_item_ok [OF assms(1-3)] by blast
  show "\<exists>h' first'. array_insert_item h fresh a (root_of u) i = Some h' \<and>
      array h' q first' (Tree a (if l = 0 then fresh else l) (take i ts @ u # drop i ts))" for i
    using array_insert_item_ok [OF assms(1-3), of i] by blast
  show "\<exists>h' first'. array_set_item h fresh a (root_of u) i = Some h' \<and>
      array h' q first' (Tree a l (ts[i := u])) \<and> (\<forall>b \<in> set (cells (ts ! i)). h' b = None) \<and>
      (\<forall>b. b \<notin> set (fresh # cells (Tree a l ts) @ cells u) \<longrightarrow> h' b = h b)" if "i < length ts" for i
    using array_set_item_ok [OF assms(1-3) that assms(4)] by blast
  show "\<exists>h'. array_remove_item h a i = Some h' \<and>
      array h' q first (Tree a l (take i ts @ drop (Suc i) ts)) \<and> (\<forall>b \<in> set (cells (ts ! i)). h' b = None)"
    if "i < length ts" for i
    using array_remove_item_ok [OF assms(1) that assms(4)] by blast
qed

theorem array_items_refine_witness:
  "\<exists>h' first'. array_set_item sample_memory 6 1 5 0 = Some h' \<and> array h' 0 first' (Tree 1 2 [Tree 5 0 [], Tree 4 0 []]) \<and> h' 3 = None"
proof -
  have "distinct (0 # 6 # cells (Tree 1 2 [Tree 3 0 [], Tree 4 0 []]) @ cells (Tree 5 0 []))" by simp
  from array_items_refine [OF sample_is_array [unfolded sample_array_def] sample_holds(3) this]
  show ?thesis by fastforce
qed

section \<open>A list that ends in a freed node\<close>

lemma remove_only_front_item:
  assumes arr: "array h q 0 (Tree a l [u])"
  shows "\<exists>h' c d. array_remove_item h a 0 = Some h' \<and> h' (root_of u) = None \<and> h' l = Some c \<and> c_prev c = root_of u \<and>
    h' a = Some d \<and> c_children d = l \<and> c_data d = PLIST_ARRAY"
proof -
  note f = array_facts [OF arr, simplified]
  obtain c where c: "h a = Some c" "c_children c = l" "c_data c = PLIST_ARRAY" using f(11) by auto
  obtain h1 d where h1: "node_list_remove h l (root_of u) = Some (h1, 0)" "h1 l = Some d" "c_prev d = root_of u"
    using node_list_end_left [of h l "root_of u"] f(8) by auto
  have n: "root_of u \<noteq> 0" "root_of u \<noteq> a" using item_root [OF arr, of 0] f(4) root_in_cells [of u] by auto
  obtain hc where hc: "node_list_remove h l (root_of u) = Some (hc, 0)" "\<forall>b. b \<notin> set (l # map root_of []) \<longrightarrow> hc b = h b"
    using remove_first [of h l 0 "root_of u" "[]"] node_list_chain f(8) by fastforce
  then have same: "h1 b = h b" if "b \<noteq> l" for b using that h1(1) by simp
  let ?h1 = "h1(a \<mapsto> c\<lparr>c_count := c_count c - 1\<rparr>)"
  have detach: "node_detach h a (root_of u) = Some (?h1, 0)"
    using f(1,3) n c h1(1) same [of a] by (simp add: node_detach_def upd_def)
  have "free_walk (Inl (root_of u)) h = Some (without ?h1 (set (cells u)), 0)"
  proof (rule free_tree [OF _ _ detach])
    show "holds h a u" using f(10) by simp
    show "distinct (0 # cells u)" using f(6,7) by simp
    show "?h1 b = h b" if "b \<in> set (cells u)" for b using that same [of b] f(4,5) by (cases "b = l") auto
  qed
  then have "array_remove_item h a 0 = Some (without ?h1 (set (cells u)))"
    using array_type [OF arr] array_get_item_ok [OF arr, of 0] n
    by (simp add: array_remove_item_def plist_free_def plist_free_node_def)
  then show ?thesis using h1(2,3) f(3-5) c by (auto simp: without_def)
qed

lemma append_to_freed_end:
  assumes "h l = Some c" and "h (c_prev c) = None" and "c_prev c \<noteq> 0"
    and "h a = Some d" "c_children d = l" "c_data d = PLIST_ARRAY"
    and "a \<noteq> 0" "l \<noteq> 0" "a \<noteq> l" "v \<noteq> 0" "v \<noteq> c_prev c"
  shows "array_append_item h fresh a v = None"
  using assms
  by (cases "h v") (auto simp: array_append_item_def node_type_def node_attach_def own_list_def upd_def node_list_add_def Let_def)

text \<open>C20: 
  When the first of two items is replaced, and then the second and the first are removed, appending
  to the array writes through the pointer to the freed first item, which is still the end of the
  list: node_list_remove resets \<^verbatim>\<open>end\<close> only for nodes that have a predecessor, and a node that was
  inserted at the front has none.
\<close>

theorem array_front_replaced_dangles:
  assumes "array h q first (Tree a l [s, t])" and "holds h r u"
    and "distinct (0 # fresh # cells (Tree a l [s, t]) @ cells u)"
  shows "\<exists>h1 h2 h3. array_set_item h fresh a (root_of u) 0 = Some h1 \<and> array_remove_item h1 a 1 = Some h2 \<and>
    array_remove_item h2 a 0 = Some h3 \<and>
    (\<forall>v. v \<noteq> 0 \<and> v \<noteq> root_of u \<longrightarrow> array_append_item h3 fresh a v = None)"
proof -
  obtain h1 where h1: "array_set_item h fresh a (root_of u) 0 = Some h1" "array h1 q 0 (Tree a l [u, t])"
    using array_set_item_ok [OF assms, of 0] by auto
  obtain h2 where h2: "array_remove_item h1 a 1 = Some h2" "array h2 q 0 (Tree a l [u])"
    using array_remove_item_ok [OF h1(2), of 1] by auto
  obtain h3 c d where h3: "array_remove_item h2 a 0 = Some h3" "h3 (root_of u) = None" "h3 l = Some c" "c_prev c = root_of u"
    "h3 a = Some d" "c_children d = l" "c_data d = PLIST_ARRAY"
    using remove_only_front_item [OF h2(2)] by blast
  have "a \<noteq> 0" "l \<noteq> 0" "a \<noteq> l" "root_of u \<noteq> 0"
    using array_facts(1-3) [OF h2(2)] item_root [OF h2(2), of 0] by simp_all
  then have "array_append_item h3 fresh a v = None" if "v \<noteq> 0" "v \<noteq> root_of u" for v
    using append_to_freed_end [OF h3(3) _ _ h3(5-7)] h3(2,4) that by simp
  then show ?thesis using h1(1) h2(1) h3(1) by blast
qed

theorem array_front_replaced_dangles_witness:
  "\<exists>h1 h2 h3. array_set_item sample_memory 6 1 5 0 = Some h1 \<and> array_remove_item h1 1 1 = Some h2 \<and>
    array_remove_item h2 1 0 = Some h3 \<and> array_append_item h3 6 1 7 = None"
proof -
  have "distinct (0 # 6 # cells (Tree 1 2 [Tree 3 0 [], Tree 4 0 []]) @ cells (Tree 5 0 []))" by simp
  from array_front_replaced_dangles [OF sample_is_array [unfolded sample_array_def] sample_holds(3) this]
  show ?thesis by fastforce
qed

end
