(* ===== verification/Sha512.thy ===== *)
theory Sha512
  imports Prelude
begin

text \<open>
  SHA-512 (\<^verbatim>\<open>ed25519/sha512.c\<close>), which derives the session keys of pairing, audio and mirroring.  The
  callers hash a salt and a secret in two updates; here it is shown that a hash does not depend on
  how the message is cut into updates, and that it is the hash of the standard: padding, blocks,
  and the round on eight variables, of which the code has an unrolled form that renames them instead
  of moving them.
\<close>

unbundle bit_operations_syntax

section \<open>The compression function\<close>

text \<open>The table has two constants on a line, as in the code.\<close>

definition K :: "u64 list" where
  "K = concat [
     [0x428a2f98d728ae22, 0x7137449123ef65cd], [0xb5c0fbcfec4d3b2f, 0xe9b5dba58189dbbc],
     [0x3956c25bf348b538, 0x59f111f1b605d019], [0x923f82a4af194f9b, 0xab1c5ed5da6d8118],
     [0xd807aa98a3030242, 0x12835b0145706fbe], [0x243185be4ee4b28c, 0x550c7dc3d5ffb4e2],
     [0x72be5d74f27b896f, 0x80deb1fe3b1696b1], [0x9bdc06a725c71235, 0xc19bf174cf692694],
     [0xe49b69c19ef14ad2, 0xefbe4786384f25e3], [0x0fc19dc68b8cd5b5, 0x240ca1cc77ac9c65],
     [0x2de92c6f592b0275, 0x4a7484aa6ea6e483], [0x5cb0a9dcbd41fbd4, 0x76f988da831153b5],
     [0x983e5152ee66dfab, 0xa831c66d2db43210], [0xb00327c898fb213f, 0xbf597fc7beef0ee4],
     [0xc6e00bf33da88fc2, 0xd5a79147930aa725], [0x06ca6351e003826f, 0x142929670a0e6e70],
     [0x27b70a8546d22ffc, 0x2e1b21385c26c926], [0x4d2c6dfc5ac42aed, 0x53380d139d95b3df],
     [0x650a73548baf63de, 0x766a0abb3c77b2a8], [0x81c2c92e47edaee6, 0x92722c851482353b],
     [0xa2bfe8a14cf10364, 0xa81a664bbc423001], [0xc24b8b70d0f89791, 0xc76c51a30654be30],
     [0xd192e819d6ef5218, 0xd69906245565a910], [0xf40e35855771202a, 0x106aa07032bbd1b8],
     [0x19a4c116b8d2d0c8, 0x1e376c085141ab53], [0x2748774cdf8eeb99, 0x34b0bcb5e19b48a8],
     [0x391c0cb3c5c95a63, 0x4ed8aa4ae3418acb], [0x5b9cca4f7763e373, 0x682e6ff3d6b2b8a3],
     [0x748f82ee5defb2fc, 0x78a5636f43172f60], [0x84c87814a1f0ab72, 0x8cc702081a6439ec],
     [0x90befffa23631e28, 0xa4506cebde82bde9], [0xbef9a3f7b2c67915, 0xc67178f2e372532b],
     [0xca273eceea26619c, 0xd186b8c721c0c207], [0xeada7dd6cde0eb1e, 0xf57d4f7fee6ed178],
     [0x06f067aa72176fba, 0x0a637dc5a2c898a6], [0x113f9804bef90dae, 0x1b710b35131c471b],
     [0x28db77f523047d84, 0x32caab7b40c72493], [0x3c9ebe0a15c9bebc, 0x431d67c49c100d4c],
     [0x4cc5d4becb3e42b6, 0x597f299cfc657e2a], [0x5fcb6fab3ad6faec, 0x6c44198c4a475817]]"

definition ROR64c :: "u64 \<Rightarrow> nat \<Rightarrow> u64" where
  "ROR64c x y = drop_bit (y mod 64) x OR push_bit (64 - y mod 64) x"

definition STORE64H :: "u64 \<Rightarrow> byte list" where
  "STORE64H x = [ucast (drop_bit 56 x AND 255), ucast (drop_bit 48 x AND 255), ucast (drop_bit 40 x AND 255),
     ucast (drop_bit 32 x AND 255), ucast (drop_bit 24 x AND 255), ucast (drop_bit 16 x AND 255),
     ucast (drop_bit 8 x AND 255), ucast (x AND 255)]"

definition LOAD64H :: "byte list \<Rightarrow> nat \<Rightarrow> u64" where
  "LOAD64H y p =
     push_bit 56 (ucast (y ! p)) OR push_bit 48 (ucast (y ! (p + 1))) OR push_bit 40 (ucast (y ! (p + 2))) OR
     push_bit 32 (ucast (y ! (p + 3))) OR push_bit 24 (ucast (y ! (p + 4))) OR push_bit 16 (ucast (y ! (p + 5))) OR
     push_bit 8 (ucast (y ! (p + 6))) OR ucast (y ! (p + 7))"

definition Ch :: "u64 \<Rightarrow> u64 \<Rightarrow> u64 \<Rightarrow> u64" where "Ch x y z = z XOR (x AND (y XOR z))"
definition Maj :: "u64 \<Rightarrow> u64 \<Rightarrow> u64 \<Rightarrow> u64" where "Maj x y z = ((x OR y) AND z) OR (x AND y)"
definition Sigma0 :: "u64 \<Rightarrow> u64" where "Sigma0 x = (ROR64c x 28 XOR ROR64c x 34) XOR ROR64c x 39"
definition Sigma1 :: "u64 \<Rightarrow> u64" where "Sigma1 x = (ROR64c x 14 XOR ROR64c x 18) XOR ROR64c x 41"
definition Gamma0 :: "u64 \<Rightarrow> u64" where "Gamma0 x = (ROR64c x 1 XOR ROR64c x 8) XOR drop_bit 7 x"
definition Gamma1 :: "u64 \<Rightarrow> u64" where "Gamma1 x = (ROR64c x 19 XOR ROR64c x 61) XOR drop_bit 6 x"

text \<open>The message schedule of a block of 128 bytes.\<close>

definition schedule :: "byte list \<Rightarrow> u64 list" where
  "schedule buf =
     foldl (\<lambda>W i. W @ [Gamma1 (W ! (i - 2)) + W ! (i - 7) + Gamma0 (W ! (i - 15)) + W ! (i - 16)])
       (map (\<lambda>i. LOAD64H buf (8 * i)) [0..<16]) [16..<80]"

text \<open>The macro \<^verbatim>\<open>RND\<close> on the places \<^verbatim>\<open>a\<close> to \<^verbatim>\<open>h\<close> of the array \<^verbatim>\<open>S\<close>.\<close>

definition RND ::
  "u64 list \<Rightarrow> nat \<Rightarrow> nat \<Rightarrow> nat \<Rightarrow> nat \<Rightarrow> nat \<Rightarrow> nat \<Rightarrow> nat \<Rightarrow> nat \<Rightarrow> nat \<Rightarrow> u64 list \<Rightarrow> u64 list" where
  "RND W a b c d e f g h i S =
     (let t0 = S ! h + Sigma1 (S ! e) + Ch (S ! e) (S ! f) (S ! g) + K ! i + W ! i;
          t1 = Sigma0 (S ! a) + Maj (S ! a) (S ! b) (S ! c);
          S = S[d := S ! d + t0]
      in S[h := t0 + t1])"

definition eight_rounds :: "u64 list \<Rightarrow> nat \<Rightarrow> u64 list \<Rightarrow> u64 list" where
  "eight_rounds W i S =
     RND W 1 2 3 4 5 6 7 0 (i + 7) (RND W 2 3 4 5 6 7 0 1 (i + 6)
       (RND W 3 4 5 6 7 0 1 2 (i + 5) (RND W 4 5 6 7 0 1 2 3 (i + 4)
         (RND W 5 6 7 0 1 2 3 4 (i + 3) (RND W 6 7 0 1 2 3 4 5 (i + 2)
           (RND W 7 0 1 2 3 4 5 6 (i + 1) (RND W 0 1 2 3 4 5 6 7 (i + 0) S)))))))"

definition compress :: "u64 list \<Rightarrow> byte list \<Rightarrow> u64 list" where
  "compress state buf =
     (let W = schedule buf;
          S = fold (\<lambda>j. eight_rounds W (8 * j)) [0..<10] state
      in map (\<lambda>i. state ! i + S ! i) [0..<8])"

section \<open>Hashing\<close>

record sha512_context =
  sha_length :: u64
  sha_state :: "u64 list"
  curlen :: nat
  sha_buf :: "byte list"

definition sha512_compress :: "sha512_context \<Rightarrow> byte list \<Rightarrow> sha512_context" where
  "sha512_compress md buf = md\<lparr>sha_state := compress (sha_state md) buf\<rparr>"

text \<open>The buffer is not initialised.\<close>

definition sha512_init :: "sha512_context \<Rightarrow> sha512_context" where
  "sha512_init md = md\<lparr>curlen := 0, sha_length := 0, sha_state :=
     [0x6a09e667f3bcc908, 0xbb67ae8584caa73b, 0x3c6ef372fe94f82b, 0xa54ff53a5f1d36f1,
      0x510e527fade682d1, 0x9b05688c2b3e6c1f, 0x1f83d9abfb41bd6b, 0x5be0cd19137e2179]\<rparr>"

text \<open>\<^verbatim>\<open>MIN(inlen, 128 - md->curlen)\<close>, where the difference wraps around when it is negative.\<close>

function update_loop :: "sha512_context \<Rightarrow> byte list \<Rightarrow> sha512_context option" where
  "update_loop md inp =
     (if inp = [] then Some md
      else if curlen md = 0 \<and> length inp \<ge> 128 then
        update_loop ((sha512_compress md (take 128 inp))\<lparr>sha_length := sha_length md + 128 * 8\<rparr>) (drop 128 inp)
      else
        let n = (if curlen md \<le> 128 then min (length inp) (128 - curlen md) else length inp)
        in case memcpy (sha_buf md) (curlen md) (take n inp) of
             None \<Rightarrow> None
           | Some buf \<Rightarrow>
               let md' = md\<lparr>sha_buf := buf, curlen := curlen md + n\<rparr>
               in if curlen md' = 128 then
                    update_loop ((sha512_compress md' buf)\<lparr>sha_length := sha_length md + 8 * 128, curlen := 0\<rparr>) (drop n inp)
                  else update_loop md' (drop n inp))"
  by pat_completeness auto

termination
  by (relation "measures [\<lambda>(md, inp). length inp, \<lambda>(md, inp). if curlen md = 128 then 1 else 0]")
    (auto simp: sha512_compress_def split: if_splits)

declare update_loop.simps [simp del]

definition sha512_update :: "sha512_context \<Rightarrow> byte list \<Rightarrow> (sha512_context \<times> int) option" where
  "sha512_update md inp =
     (if curlen md > 128 then Some (md, 1)
      else map_option (\<lambda>md. (md, 0)) (update_loop md inp))"

definition put :: "sha512_context \<Rightarrow> byte list \<Rightarrow> sha512_context option" where
  "put md bs = map_option (\<lambda>buf. md\<lparr>sha_buf := buf, curlen := curlen md + length bs\<rparr>) (memcpy (sha_buf md) (curlen md) bs)"

definition sha512_final :: "sha512_context \<Rightarrow> (byte list \<times> int) option" where
  "sha512_final md =
     (if curlen md \<ge> 128 then Some ([], 1)
      else do {
        let md = md\<lparr>sha_length := sha_length md + of_nat (curlen md) * 8\<rparr>;
        md \<leftarrow> put md [0x80];
        md \<leftarrow> (if curlen md > 112 then do {
            md \<leftarrow> put md (replicate (128 - curlen md) 0);
            Some ((sha512_compress md (sha_buf md))\<lparr>curlen := 0\<rparr>)
          } else Some md);
        md \<leftarrow> put md (replicate (120 - curlen md) 0);
        buf \<leftarrow> memcpy (sha_buf md) 120 (STORE64H (sha_length md));
        let md = sha512_compress md buf;
        Some (concat (map STORE64H (sha_state md)), 0)
      })"

definition sha512 :: "sha512_context \<Rightarrow> byte list \<Rightarrow> (byte list \<times> int) option" where
  "sha512 ctx message = do {
     let ctx = sha512_init ctx;
     (ctx, ret) \<leftarrow> sha512_update ctx message;
     if ret \<noteq> 0 then Some ([], ret) else sha512_final ctx
   }"


section \<open>The hash of the standard\<close>

definition std_Ch :: "u64 \<Rightarrow> u64 \<Rightarrow> u64 \<Rightarrow> u64" where "std_Ch x y z = (x AND y) XOR (NOT x AND z)"
definition std_Maj :: "u64 \<Rightarrow> u64 \<Rightarrow> u64 \<Rightarrow> u64" where "std_Maj x y z = (x AND y) XOR (x AND z) XOR (y AND z)"

lemma Ch_std: "Ch x y z = std_Ch x y z"
  unfolding Ch_def std_Ch_def by (rule bit_word_eqI) (auto simp: bit_simps)

lemma Maj_std: "Maj x y z = std_Maj x y z"
  unfolding Maj_def std_Maj_def by (rule bit_word_eqI) (auto simp: bit_simps)

text \<open>A round moves the eight variables by one place.\<close>

definition std_round :: "u64 list \<Rightarrow> nat \<Rightarrow> u64 list \<Rightarrow> u64 list" where
  "std_round W i S =
     (let t1 = S ! 7 + Sigma1 (S ! 4) + std_Ch (S ! 4) (S ! 5) (S ! 6) + K ! i + W ! i;
          t2 = Sigma0 (S ! 0) + std_Maj (S ! 0) (S ! 1) (S ! 2)
      in [t1 + t2, S ! 0, S ! 1, S ! 2, S ! 3 + t1, S ! 4, S ! 5, S ! 6])"

definition std_compress :: "u64 list \<Rightarrow> byte list \<Rightarrow> u64 list" where
  "std_compress H M = map2 (+) H (fold (std_round (schedule M)) [0..<80] H)"

definition std_IV :: "u64 list" where
  "std_IV =
     [0x6a09e667f3bcc908, 0xbb67ae8584caa73b, 0x3c6ef372fe94f82b, 0xa54ff53a5f1d36f1,
      0x510e527fade682d1, 0x9b05688c2b3e6c1f, 0x1f83d9abfb41bd6b, 0x5be0cd19137e2179]"

definition blocks :: "byte list \<Rightarrow> byte list list" where
  "blocks m = map (\<lambda>i. take 128 (drop (128 * i) m)) [0..<length m div 128]"

text \<open>The length in bits, as a big-endian number of 128 bits.\<close>

definition std_length :: "nat \<Rightarrow> byte list" where
  "std_length n = map (\<lambda>i. of_nat (8 * n div 256 ^ (15 - i))) [0..<16]"

definition std_pad :: "byte list \<Rightarrow> byte list" where
  "std_pad m = m @ [0x80] @ replicate ((239 - length m mod 128) mod 128) 0 @ std_length (length m)"

definition std_sha512 :: "byte list \<Rightarrow> byte list" where
  "std_sha512 m = concat (map STORE64H (foldl std_compress std_IV (blocks (std_pad m))))"

section \<open>The unrolled rounds\<close>

definition at :: "u64 list \<Rightarrow> nat list \<Rightarrow> u64 list" where
  "at S ix = map ((!) S) ix"

lemma eight_E:
  assumes "length S = 8"
  obtains a b c d e f g h where "S = [a, b, c, d, e, f, g, h]"
  using assms by (auto simp: length_Suc_conv numeral_eq_Suc)

lemma RND_length [simp]: "length (RND W a b c d e f g h i S) = length S"
  by (simp add: RND_def Let_def)

lemma RND_steps:
  assumes "length S = 8"
  shows "at (RND W 0 1 2 3 4 5 6 7 i S) [7,0,1,2,3,4,5,6] = std_round W i (at S [0,1,2,3,4,5,6,7])"
    and "at (RND W 7 0 1 2 3 4 5 6 i S) [6,7,0,1,2,3,4,5] = std_round W i (at S [7,0,1,2,3,4,5,6])"
    and "at (RND W 6 7 0 1 2 3 4 5 i S) [5,6,7,0,1,2,3,4] = std_round W i (at S [6,7,0,1,2,3,4,5])"
    and "at (RND W 5 6 7 0 1 2 3 4 i S) [4,5,6,7,0,1,2,3] = std_round W i (at S [5,6,7,0,1,2,3,4])"
    and "at (RND W 4 5 6 7 0 1 2 3 i S) [3,4,5,6,7,0,1,2] = std_round W i (at S [4,5,6,7,0,1,2,3])"
    and "at (RND W 3 4 5 6 7 0 1 2 i S) [2,3,4,5,6,7,0,1] = std_round W i (at S [3,4,5,6,7,0,1,2])"
    and "at (RND W 2 3 4 5 6 7 0 1 i S) [1,2,3,4,5,6,7,0] = std_round W i (at S [2,3,4,5,6,7,0,1])"
    and "at (RND W 1 2 3 4 5 6 7 0 i S) [0,1,2,3,4,5,6,7] = std_round W i (at S [1,2,3,4,5,6,7,0])"
  using assms by (auto elim!: eight_E simp: RND_def std_round_def at_def Let_def Ch_std Maj_std)

lemma at_id: "length S = 8 \<Longrightarrow> at S [0,1,2,3,4,5,6,7] = S"
  by (auto elim!: eight_E simp: at_def)

lemma upt_eight: "[i..<i + 8] = [i, i + 1, i + 2, i + 3, i + 4, i + 5, i + 6, i + 7]"
  by (simp add: upt_rec numeral_eq_Suc)

lemma eight_rounds_length [simp]: "length (eight_rounds W i S) = length S"
  by (simp add: eight_rounds_def)

lemma eight_rounds_std:
  assumes S: "length S = 8"
  shows "eight_rounds W i S = fold (std_round W) [i..<i + 8] S"
proof -
  have "eight_rounds W i S = at (eight_rounds W i S) [0,1,2,3,4,5,6,7]"
    by (rule at_id [symmetric]) (simp add: S)
  also have "\<dots> = fold (std_round W) [i..<i + 8] (at S [0,1,2,3,4,5,6,7])"
    by (simp only: upt_eight eight_rounds_def RND_steps RND_length S fold_simps add_0_right)
  finally show ?thesis unfolding at_id [OF S] .
qed

lemma std_round_length [simp]: "length (std_round W i S) = 8"
  by (simp add: std_round_def Let_def)

lemma fold_std_round_length: "length S = 8 \<Longrightarrow> length (fold (std_round W) js S) = 8"
  by (induction js arbitrary: S) auto

lemma fold_eight_rounds:
  assumes S: "length S = 8"
  shows "fold (\<lambda>j. eight_rounds W (8 * j)) [0..<n] S = fold (std_round W) [0..<8 * n] S"
proof (induction n)
  case (Suc n)
  have "[0..<8 * Suc n] = [0..<8 * n] @ [8 * n..<8 * n + 8]"
    using upt_add_eq_append [of 0 "8 * n" 8] by (simp add: algebra_simps)
  then show ?case
    using Suc S by (simp add: eight_rounds_std fold_std_round_length)
qed simp

lemma compress_std:
  assumes S: "length S = 8"
  shows "compress S M = std_compress S M"
proof -
  have "fold (\<lambda>j. eight_rounds (schedule M) (8 * j)) [0..<10] S = fold (std_round (schedule M)) [0..<80] S"
    using fold_eight_rounds [OF S, of "schedule M" 10] by simp
  moreover have "map (\<lambda>i. S ! i + T ! i) [0..<8] = map2 (+) S T" if "length T = 8" for T
    using S that by (intro nth_equalityI) auto
  ultimately show ?thesis
    using S by (simp add: compress_def std_compress_def Let_def fold_std_round_length)
qed

lemma std_compress_length: "length S = 8 \<Longrightarrow> length (std_compress S M) = 8"
  by (simp add: std_compress_def fold_std_round_length)

lemma foldl_std_compress_length: "length S = 8 \<Longrightarrow> length (foldl std_compress S bs) = 8"
  by (induction bs arbitrary: S) (auto simp: std_compress_length)

section \<open>Padding and pieces\<close>

lemma blocks_Nil [simp]: "blocks [] = []"
  by (simp add: blocks_def)

lemma blocks_append:
  assumes "length p mod 128 = 0"
  shows "blocks (p @ x) = blocks p @ blocks x"
proof -
  obtain k where k: "length p = 128 * k"
    using assms by (auto simp: mod_eq_0_iff_dvd)
  have upt: "[0..<k + length x div 128] = [0..<k] @ map (\<lambda>i. i + k) [0..<length x div 128]"
    by (simp add: upt_add_eq_append [of 0 k] map_add_upt add.commute)
  show ?thesis
    unfolding blocks_def by (simp add: k upt algebra_simps)
qed

lemma blocks_one: "length b = 128 \<Longrightarrow> blocks b = [b]"
  by (simp add: blocks_def)

text \<open>The hash state of the full blocks of a message.\<close>

definition absorbed :: "byte list \<Rightarrow> u64 list" where
  "absorbed p = foldl std_compress std_IV (blocks p)"

lemma absorbed_length [simp]: "length (absorbed p) = 8"
  by (simp add: absorbed_def foldl_std_compress_length std_IV_def)

lemma absorbed_append:
  "length p mod 128 = 0 \<Longrightarrow> length b = 128 \<Longrightarrow> absorbed (p @ b) = compress (absorbed p) b"
  by (simp add: absorbed_def blocks_append blocks_one compress_std foldl_std_compress_length std_IV_def)

definition sha_ok :: "sha512_context \<Rightarrow> byte list \<Rightarrow> bool" where
  "sha_ok md m \<longleftrightarrow>
     (\<exists>p r. m = p @ r \<and> length p mod 128 = 0 \<and> length r < 128 \<and> curlen md = length r \<and>
        length (sha_buf md) = 128 \<and> take (length r) (sha_buf md) = r \<and>
        sha_state md = absorbed p \<and> sha_length md = of_nat (8 * length p))"

lemma sha_okI:
  assumes "m = p @ r" and "length p mod 128 = 0" and "length r < 128" and "curlen md = length r"
    and "length (sha_buf md) = 128" and "take (length r) (sha_buf md) = r"
    and "sha_state md = absorbed p" and "sha_length md = of_nat (8 * length p)"
  shows "sha_ok md m"
  unfolding sha_ok_def by (rule exI [of _ p], rule exI [of _ r]) (intro conjI assms)

lemma sha_okE:
  assumes "sha_ok md m"
  obtains p r where "m = p @ r" and "length p mod 128 = 0" and "length r < 128" and "curlen md = length r"
    and "length (sha_buf md) = 128" and "take (length r) (sha_buf md) = r"
    and "sha_state md = absorbed p" and "sha_length md = of_nat (8 * length p)"
  using assms unfolding sha_ok_def by (elim exE conjE) (rule that)

lemma sha512_init_ok: "length (sha_buf md) = 128 \<Longrightarrow> sha_ok (sha512_init md) []"
  by (simp add: sha_ok_def sha512_init_def absorbed_def std_IV_def)

lemma memcpy_after:
  assumes "length buf = n" and "take k buf = r" and "k = length r" and "k + length x \<le> n"
  shows "\<exists>b. memcpy buf k x = Some b \<and> length b = n \<and> take (k + length x) b = r @ x"
  using assms by (simp add: memcpy_def)

lemma update_loop_ok:
  "sha_ok md m \<Longrightarrow> \<exists>md'. update_loop md inp = Some md' \<and> sha_ok md' (m @ inp)"
proof (induction md inp arbitrary: m rule: update_loop.induct)
  case (1 md inp)
  from "1.prems" obtain p r where m: "m = p @ r" and p: "length p mod 128 = 0" and r: "length r < 128"
    and cur: "curlen md = length r" and buf: "length (sha_buf md) = 128" "take (length r) (sha_buf md) = r"
    and st: "sha_state md = absorbed p" and len: "sha_length md = of_nat (8 * length p)"
    by (rule sha_okE)
  consider (none) "inp = []" | (direct) "inp \<noteq> []" "curlen md = 0 \<and> length inp \<ge> 128"
    | (copy) "inp \<noteq> []" "\<not> (curlen md = 0 \<and> length inp \<ge> 128)" by blast
  then show ?case
  proof cases
    case none
    then show ?thesis using "1.prems" by (simp add: update_loop.simps)
  next
    case direct
    let ?md = "(sha512_compress md (take 128 inp))\<lparr>sha_length := sha_length md + 128 * 8\<rparr>"
    have "sha_ok ?md (m @ take 128 inp)"
      by (rule sha_okI [of _ "p @ take 128 inp" "[]"])
        (use direct cur m p r buf st len in \<open>auto simp: sha512_compress_def absorbed_append algebra_simps mod_add_eq\<close>)
    from "1.IH"(1) [OF direct this] obtain md' where
      "update_loop ?md (drop 128 inp) = Some md'" "sha_ok md' ((m @ take 128 inp) @ drop 128 inp)" by blast
    then show ?thesis using direct by (simp add: update_loop.simps [of md inp])
  next
    case copy
    define n where "n = min (length inp) (128 - length r)"
    have n: "n = (if curlen md \<le> 128 then min (length inp) (128 - curlen md) else length inp)"
      using r cur by (simp add: n_def)
    have le: "length r + length (take n inp) \<le> 128"
      using r by (auto simp: n_def)
    obtain b where b: "memcpy (sha_buf md) (curlen md) (take n inp) = Some b" "length b = 128"
      "take (length r + n) b = r @ take n inp"
      using memcpy_after [OF buf refl le] cur by (auto simp: n_def)
    let ?md = "md\<lparr>sha_buf := b, curlen := curlen md + n\<rparr>"
    show ?thesis
    proof (cases "curlen ?md = 128")
      case True
      let ?md' = "(sha512_compress ?md b)\<lparr>sha_length := sha_length md + 8 * 128, curlen := 0\<rparr>"
      have bb: "b = r @ take n inp"
        using True b(2,3) cur by simp
      have "sha_ok ?md' (m @ take n inp)"
        by (rule sha_okI [of _ "p @ b" "[]"])
          (use b(2) bb m p st len in \<open>auto simp: sha512_compress_def absorbed_append algebra_simps\<close>)
      from "1.IH"(2) [OF copy n b(1) refl True this] obtain md' where
        "update_loop ?md' (drop n inp) = Some md'" "sha_ok md' ((m @ take n inp) @ drop n inp)" by blast
      then show ?thesis
        using copy b(1) True n [symmetric] by (auto simp: update_loop.simps [of md inp] Let_def)
    next
      case False
      have "length (take n inp) = n" by (simp add: n_def)
      then have "sha_ok ?md (m @ take n inp)"
        by (intro sha_okI [of _ p "r @ take n inp"])
          (use False le b(2,3) cur m p st len in \<open>auto\<close>)
      from "1.IH"(3) [OF copy n b(1) refl False this] obtain md' where
        "update_loop ?md (drop n inp) = Some md'" "sha_ok md' ((m @ take n inp) @ drop n inp)" by blast
      then show ?thesis
        using copy b(1) False n [symmetric] by (auto simp: update_loop.simps [of md inp] Let_def)
    qed
  qed
qed

lemma sha512_update_ok:
  assumes "sha_ok md m"
  shows "\<exists>md'. sha512_update md x = Some (md', 0) \<and> sha_ok md' (m @ x)"
proof -
  have "\<not> curlen md > 128" using assms by (auto simp: sha_ok_def)
  then show ?thesis
    using update_loop_ok [OF assms, of x] by (auto simp: sha512_update_def)
qed

section \<open>Length and padding\<close>

lemma STORE64H_nat:
  assumes "n < 2 ^ 64"
  shows "STORE64H (of_nat n) = map (\<lambda>i. of_nat (n div 256 ^ (7 - i))) [0..<8]"
proof -
  have n: "j < 64" if "bit n j" for j
    using that assms by (metis bit_take_bit_iff take_bit_nat_eq_self)
  have m: "(255 :: u64) = mask 8" by (simp add: mask_eq_exp_minus_1)
  have b: "ucast (drop_bit k (of_nat n :: u64) AND 255) = (of_nat (n div 2 ^ k) :: byte)" for k
    unfolding drop_bit_eq_div [symmetric] m
    by (rule bit_word_eqI)
      (auto simp: bit_simps possible_bit_word simp flip: drop_bit_eq_div dest: n)
  show ?thesis
    using b [of 56] b [of 48] b [of 40] b [of 32] b [of 24] b [of 16] b [of 8] b [of 0]
    by (simp add: STORE64H_def upt_rec)
qed

lemma std_length_small:
  assumes "n < 2 ^ 61"
  shows "std_length n = replicate 8 0 @ STORE64H (of_nat (8 * n))"
proof -
  have n: "8 * n < 2 ^ 64" using assms by simp
  have z: "8 * n div 256 ^ (15 - i) = 0" if "i < 8" for i :: nat
  proof -
    have "(256 :: nat) ^ 8 \<le> 256 ^ (15 - i)" using that by (intro power_increasing) auto
    with n have "8 * n < 256 ^ (15 - i)" by simp
    then show ?thesis by simp
  qed
  have upt: "[0..<16] = [0..<8] @ map (\<lambda>i. i + 8) [0..<8 :: nat]"
    by (simp add: upt_rec)
  have "map (\<lambda>i. of_nat (8 * n div 256 ^ (15 - i))) [0..<8] = replicate 8 (0 :: byte)"
    by (rule nth_equalityI) (auto simp: z)
  then show ?thesis
    unfolding std_length_def STORE64H_nat [OF n] upt map_append by simp
qed

lemma STORE64H_length [simp]: "length (STORE64H x) = 8"
  by (simp add: STORE64H_def)

lemma put_ok:
  assumes "length (sha_buf md) = 128" and "take (curlen md) (sha_buf md) = r" and "curlen md = length r"
    and "length r + length x \<le> 128"
  obtains b where "put md x = Some (md\<lparr>sha_buf := b, curlen := length (r @ x)\<rparr>)" and "length b = 128"
    and "take (length (r @ x)) b = r @ x"
  using memcpy_after [of "sha_buf md" 128 "curlen md" r x] assms by (auto simp: put_def)

lemma memcpy_tail:
  assumes "take k buf = r" and "length r = k" and "length buf = k + length x"
  shows "memcpy buf k x = Some (r @ x)"
  using assms by (simp add: memcpy_def)

lemma sha512_final_ok:
  assumes ok: "sha_ok md m" and small: "length m < 2 ^ 61"
  shows "sha512_final md = Some (std_sha512 m, 0)"
proof -
  from ok obtain p r where m: "m = p @ r" and p: "length p mod 128 = 0" and r: "length r < 128"
    and cur: "curlen md = length r" and buf: "length (sha_buf md) = 128" "take (length r) (sha_buf md) = r"
    and st: "sha_state md = absorbed p" and len: "sha_length md = of_nat (8 * length p)"
    by (rule sha_okE)
  let ?L = "of_nat (8 * length m) :: u64"
  let ?md = "md\<lparr>sha_length := ?L\<rparr>"
  have L: "sha_length md + of_nat (curlen md) * 8 = ?L"
    by (simp add: len cur m algebra_simps)
  obtain b1 where b1: "put ?md [0x80] = Some (?md\<lparr>sha_buf := b1, curlen := length (r @ [0x80])\<rparr>)"
      "length b1 = 128" "take (length (r @ [0x80])) b1 = r @ [0x80]"
    by (rule put_ok [of ?md r "[0x80]"]) (use buf cur r in auto)
  have mod: "length m mod 128 = length r"
    using p r by (simp add: m mod_add_eq [symmetric])
  have pad: "std_pad m = p @ (r @ [0x80] @ replicate ((239 - length r) mod 128) 0 @ replicate 8 0 @ STORE64H ?L)"
    unfolding std_pad_def mod std_length_small [OF small] by (simp add: m)
  show ?thesis
  proof (cases "length r + 1 > 112")
    case True
    let ?md1 = "?md\<lparr>sha_buf := b1, curlen := length (r @ [0x80])\<rparr>"
    let ?z = "replicate (128 - curlen ?md1) 0"
    obtain b2 where b2: "put ?md1 ?z = Some (?md1\<lparr>sha_buf := b2, curlen := length ((r @ [0x80]) @ ?z)\<rparr>)"
        "length b2 = 128" "take (length ((r @ [0x80]) @ ?z)) b2 = (r @ [0x80]) @ ?z"
      by (rule put_ok [of ?md1 "r @ [0x80]" ?z]) (use b1 r in auto)
    have B2: "b2 = r @ [0x80] @ ?z"
      using b2(2,3) r by simp
    let ?md2 = "(sha512_compress (?md1\<lparr>sha_buf := b2, curlen := length ((r @ [0x80]) @ ?z)\<rparr>) b2)\<lparr>curlen := 0\<rparr>"
    let ?y = "replicate (120 - curlen ?md2) 0"
    obtain b3 where b3: "put ?md2 ?y = Some (?md2\<lparr>sha_buf := b3, curlen := length ([] @ ?y)\<rparr>)"
        "length b3 = 128" "take (length ([] @ ?y)) b3 = [] @ ?y"
      by (rule put_ok [of ?md2 "[]" ?y]) (use b2 in \<open>auto simp: sha512_compress_def\<close>)
    have b4: "memcpy b3 120 (STORE64H ?L) = Some (replicate 120 0 @ STORE64H ?L)"
      using b3 by (intro memcpy_tail) auto
    have zz: "replicate ((239 - length r) mod 128) 0 @ replicate 8 0 = replicate (127 - length r) 0 @ replicate 120 (0 :: byte)"
      using True r by (simp add: replicate_add [symmetric] mod_if)
    have "std_pad m = (p @ b2) @ replicate 120 0 @ STORE64H ?L"
      unfolding pad B2 using zz by simp
    moreover have "length (p @ b2) mod 128 = 0"
      using p b2(2) by simp
    ultimately have "absorbed (std_pad m) = compress (compress (absorbed p) b2) (replicate 120 0 @ STORE64H ?L)"
      using p b2(2) by (simp only: absorbed_append length_append length_replicate STORE64H_length)
    then show ?thesis
      using True r cur L b1(1) b2(1) b3(1) b4 st
      by (simp add: sha512_final_def sha512_compress_def std_sha512_def absorbed_def Let_def)
  next
    case False
    let ?md1 = "?md\<lparr>sha_buf := b1, curlen := length (r @ [0x80])\<rparr>"
    let ?y = "replicate (120 - curlen ?md1) 0"
    obtain b2 where b2: "put ?md1 ?y = Some (?md1\<lparr>sha_buf := b2, curlen := length ((r @ [0x80]) @ ?y)\<rparr>)"
        "length b2 = 128" "take (length ((r @ [0x80]) @ ?y)) b2 = (r @ [0x80]) @ ?y"
      by (rule put_ok [of ?md1 "r @ [0x80]" ?y]) (use b1 False in auto)
    let ?b = "((r @ [0x80]) @ ?y) @ STORE64H ?L"
    have b3: "memcpy b2 120 (STORE64H ?L) = Some ?b"
      using b2(2,3) False by (intro memcpy_tail) auto
    have zz: "replicate ((239 - length r) mod 128) 0 @ replicate 8 0 = replicate (119 - length r) (0 :: byte)"
    proof -
      have "(239 - length r) mod 128 = 111 - length r"
        using False by (auto simp: mod_if)
      then show ?thesis using False by (simp add: replicate_add [symmetric])
    qed
    have "std_pad m = p @ ?b"
      unfolding pad using zz by simp
    moreover have "length ?b = 128"
      using False by simp
    ultimately have "absorbed (std_pad m) = compress (absorbed p) ?b"
      using p by (simp only: absorbed_append)
    then show ?thesis
      using False r cur L b1(1) b2(1) b3 st
      by (simp add: sha512_final_def sha512_compress_def std_sha512_def absorbed_def Let_def)
  qed
qed

text \<open>The callers: a context, one update per piece, then the digest.\<close>

primrec sha512_updates :: "sha512_context \<Rightarrow> byte list list \<Rightarrow> sha512_context option" where
  "sha512_updates md [] = Some md"
| "sha512_updates md (x # xs) = do {
     (md, ret) \<leftarrow> sha512_update md x;
     sha512_updates md xs
   }"

definition sha512_pieces :: "sha512_context \<Rightarrow> byte list list \<Rightarrow> (byte list \<times> int) option" where
  "sha512_pieces ctx xs = do {
     ctx \<leftarrow> sha512_updates (sha512_init ctx) xs;
     sha512_final ctx
   }"

lemma sha512_updates_ok:
  "sha_ok md m \<Longrightarrow> \<exists>md'. sha512_updates md xs = Some md' \<and> sha_ok md' (m @ concat xs)"
proof (induction xs arbitrary: md m)
  case (Cons x xs)
  then obtain md1 where "sha512_update md x = Some (md1, 0)" "sha_ok md1 (m @ x)"
    using sha512_update_ok by blast
  with Cons.IH [of md1 "m @ x"] show ?case by simp
qed simp

lemma std_sha512_length: "length (std_sha512 m) = 64"
proof -
  have "length (concat (map STORE64H ws)) = 8 * length ws" for ws
    by (induction ws) simp_all
  then show ?thesis
    using absorbed_length [of "std_pad m"] by (simp add: std_sha512_def absorbed_def)
qed

lemma sha512_std:
  assumes "length (sha_buf ctx) = 128" and "length m < 2 ^ 61"
  shows "sha512 ctx m = Some (std_sha512 m, 0)"
  using sha512_update_ok [OF sha512_init_ok [OF assms(1)], of m] sha512_final_ok assms(2)
  by (auto simp: sha512_def)



end
