(* ===== verification/Session_Keys.thy ===== *)
theory Session_Keys
  imports Sha512 Mirror_Buffer Raop_Buffer Pairing
begin

text \<open>
  The callers of SHA-512 with their calls written out: \<^verbatim>\<open>derive_key_internal\<close> (\<^verbatim>\<open>pairing.c\<close>),
  \<^verbatim>\<open>raop_buffer_init_key_iv\<close> (\<^verbatim>\<open>raop_buffer.c\<close>) and \<^verbatim>\<open>mirror_buffer_init_aes\<close>
  (\<^verbatim>\<open>mirror_buffer.c\<close>).  Each has one context on its stack, not initialised, that it uses again for
  every digest.  The theories of the callers take the hash of a byte string as a parameter; here
  the parameter is the code, and the calls refine those definitions.
\<close>

section \<open>One digest after another in one context\<close>

text \<open>What \<^verbatim>\<open>sha512_init\<close>, the updates and \<^verbatim>\<open>sha512_final\<close> return, and the context they leave.\<close>

definition digest_calls :: "sha512_context \<Rightarrow> byte list list \<Rightarrow> (byte list \<times> sha512_context) option" where
  "digest_calls ctx xs = do {
     ctx \<leftarrow> sha512_updates (sha512_init ctx) xs;
     (digest, _) \<leftarrow> sha512_final ctx;
     Some (digest, ctx)
   }"

lemma digest_calls_std:
  assumes "length (sha_buf ctx) = 128" and "length (concat xs) < 2 ^ 61"
  obtains ctx' where "digest_calls ctx xs = Some (std_sha512 (concat xs), ctx')" and "length (sha_buf ctx') = 128"
proof -
  obtain ctx' where u: "sha512_updates (sha512_init ctx) xs = Some ctx'" "sha_ok ctx' (concat xs)"
    using sha512_updates_ok [OF sha512_init_ok [OF assms(1)], of xs] by auto
  then have "digest_calls ctx xs = Some (std_sha512 (concat xs), ctx')"
    using assms(2) by (simp add: digest_calls_def sha512_final_ok)
  moreover have "length (sha_buf ctx') = 128"
    using u(2) by (rule sha_okE)
  ultimately show ?thesis by (rule that)
qed

section \<open>The callers\<close>

definition derive_key_calls :: "sha512_context \<Rightarrow> pairing_session \<Rightarrow> byte list \<Rightarrow> nat \<Rightarrow> byte list option" where
  "derive_key_calls ctx session salt keylen =
     (if keylen > 64 then None
      else map_option (\<lambda>(hash, _). take keylen hash) (digest_calls ctx [salt, take 32 (s_ecdh_secret session)]))"

definition audio_key_calls :: "sha512_context \<Rightarrow> byte list \<Rightarrow> byte list \<Rightarrow> byte list option" where
  "audio_key_calls ctx key secret =
     map_option (\<lambda>(eaeskey, _). take 16 eaeskey) (digest_calls ctx [take 16 key, take 32 secret])"

definition mirror_key_calls :: "sha512_context \<Rightarrow> mirror_buffer \<Rightarrow> u64 \<Rightarrow> mirror_buffer option" where
  "mirror_key_calls ctx mb streamConnectionID = do {
     (eaeskey, ctx) \<leftarrow> digest_calls ctx [take 16 (mb_aeskey mb), take 32 (ecdh_secret mb)];
     let skeyall = bytes ''AirPlayStreamKey'' @ decimal (unat streamConnectionID);
     let sivall = bytes ''AirPlayStreamIV'' @ decimal (unat streamConnectionID);
     (hash1, ctx) \<leftarrow> digest_calls ctx [skeyall, take 16 eaeskey];
     (hash2, ctx) \<leftarrow> digest_calls ctx [sivall, take 16 eaeskey];
     Some (mb\<lparr>aes_ctx := AES_init_ctx_iv (take 16 hash1) (take 16 hash2), nextDecryptCount := 0\<rparr>)
   }"

lemma stream_key_text_short:
  "length (decimal (unat (sid :: u64))) \<le> 20"
proof -
  have "unat sid < 2 ^ 64" using unsigned_less [of sid] by simp
  then have "unat sid < 10 ^ 20" by simp
  then show ?thesis by (simp add: length_decimal)
qed

lemma mirror_key_calls_std:
  assumes ctx: "length (sha_buf ctx) = 128"
    and mb: "length (mb_aeskey mb) = 16" "length (ecdh_secret mb) = 32"
  shows "mirror_key_calls ctx mb sid = Some (mirror_buffer_init_aes std_sha512 mb sid)"
proof -
  let ?d = "decimal (unat sid)"
  have short: "length ?d \<le> 20" by (rule stream_key_text_short)
  have bs: "length (bytes ''AirPlayStreamKey'') = 16" "length (bytes ''AirPlayStreamIV'') = 15"
    by (simp_all add: bytes_def)
  obtain c1 where c1: "digest_calls ctx [mb_aeskey mb, ecdh_secret mb] = Some (std_sha512 (mb_aeskey mb @ ecdh_secret mb), c1)"
      "length (sha_buf c1) = 128"
    by (rule digest_calls_std [OF ctx, of "[mb_aeskey mb, ecdh_secret mb]"]) (use mb in auto)
  define e where "e = take 16 (std_sha512 (mb_aeskey mb @ ecdh_secret mb))"
  have e: "length e \<le> 16" by (simp add: e_def)
  obtain c2 where c2: "digest_calls c1 [bytes ''AirPlayStreamKey'' @ ?d, e] = Some (std_sha512 ((bytes ''AirPlayStreamKey'' @ ?d) @ e), c2)"
      "length (sha_buf c2) = 128"
    by (rule digest_calls_std [OF c1(2), of "[bytes ''AirPlayStreamKey'' @ ?d, e]"]) (use bs short e in auto)
  obtain c3 where c3: "digest_calls c2 [bytes ''AirPlayStreamIV'' @ ?d, e] = Some (std_sha512 ((bytes ''AirPlayStreamIV'' @ ?d) @ e), c3)"
      "length (sha_buf c3) = 128"
    by (rule digest_calls_std [OF c2(2), of "[bytes ''AirPlayStreamIV'' @ ?d, e]"]) (use bs short e in auto)
  show ?thesis
    using mb c1(1) c2(1) c3(1)
    by (simp add: mirror_key_calls_def mirror_buffer_init_aes_def Let_def flip: e_def)
qed


text \<open>A stack context of arbitrary content, and the callers' states at the standard hash.\<close>

definition sample_context :: sha512_context where
  "sample_context = \<lparr> sha_length = 5, sha_state = [], curlen = 200, sha_buf = replicate 128 0xCC \<rparr>"

definition sample_session :: pairing_session where
  "sample_session = \<lparr> status = STATUS_HANDSHAKE, s_ed_private = [], s_ed_ours = [], s_ed_theirs = [],
     s_ecdh_ours = [], s_ecdh_theirs = [], s_ecdh_secret = replicate 32 2 \<rparr>"


end
